(* ===== verification/Prelude.thy ===== *)
theory Prelude
  imports Main "HOL-Library.Char_ord" "HOL-Library.List_Lexorder" "HOL-Library.Code_Target_Nat"
begin

text \<open>
  Shared vocabulary of the Atlas WebServer development: the outcome type that carries the
  undefined behaviours of C++ as values, the fact collections the component theories use,
  \<open>std::map<std::string, std::string>\<close> as a sorted association list, and the generic list
  lemmas (overwriting a block of an array, cursors that only move forward) that the buffer,
  queue and parser proofs share.
\<close>

named_theorems cxx_defs \<open>definitions of the modelled part of the C and C++ libraries\<close>
named_theorems cursor_le \<open>a scanner never returns a longer rest than it was given\<close>
named_theorems ring_simps \<open>projections and updates of the ring buffers\<close>

subsection \<open>Bytes, strings and outcomes\<close>

type_synonym byte = char

abbreviation NUL :: byte where "NUL \<equiv> CHR 0x00"
abbreviation TAB :: byte where "TAB \<equiv> CHR 0x09"
abbreviation LF :: byte where "LF \<equiv> CHR 0x0A"
abbreviation CR :: byte where "CR \<equiv> CHR 0x0D"
abbreviation SP :: byte where "SP \<equiv> CHR 0x20"
abbreviation QUOTE :: byte where "QUOTE \<equiv> CHR 0x22"
abbreviation BACKSLASH :: byte where "BACKSLASH \<equiv> CHR 0x5C"
abbreviation CRLF :: string where "CRLF \<equiv> [CR, LF]"

text \<open>
  The undefined behaviours the modelled code can run into. A function that can reach one
  returns \<open>ub + 'a\<close>; \<open>Inl\<close> is the undefined behaviour, \<open>Inr\<close> the value of a defined run.
\<close>

datatype ub = NullDeref | SignedOverflow | OutOfBounds | UseAfterFree

type_synonym 'a cxx = "ub + 'a"

definition defined :: "'a cxx \<Rightarrow> bool" where
  "defined r \<longleftrightarrow> (case r of Inl _ \<Rightarrow> False | Inr _ \<Rightarrow> True)"

lemma defined_Inr [simp]: "defined (Inr x)"
  by (simp add: defined_def)

lemma defined_Inl [simp]: "\<not> defined (Inl e)"
  by (simp add: defined_def)

text \<open>\<open>long\<close> is the 64-bit signed integer of the LP64 targets the project builds for.\<close>

definition LONG_MAX :: int where "LONG_MAX = 9223372036854775807"
definition LONG_MIN :: int where "LONG_MIN = - 9223372036854775808"

definition long_ok :: "int \<Rightarrow> bool" where
  "long_ok x \<longleftrightarrow> LONG_MIN \<le> x \<and> x \<le> LONG_MAX"

text \<open>\<open>static_cast<int>\<close> and the implicit conversion of a wider integer to \<open>int\<close>: modulo \<open>2^32\<close>, as gcc and clang define it.\<close>

definition narrow_int :: "int \<Rightarrow> int" where
  "narrow_int x = (x + 2147483648) mod 4294967296 - 2147483648"

lemma narrow_int_id: "- 2147483648 \<le> x \<Longrightarrow> x \<le> 2147483647 \<Longrightarrow> narrow_int x = x"
  unfolding narrow_int_def by (subst mod_pos_pos_trivial) auto

definition saturate_long :: "int \<Rightarrow> int" where
  "saturate_long x = max LONG_MIN (min LONG_MAX x)"

lemma saturate_long_ok [simp]: "long_ok (saturate_long x)"
  by (simp add: long_ok_def saturate_long_def LONG_MAX_def LONG_MIN_def)

lemma saturate_long_id: "long_ok x \<Longrightarrow> saturate_long x = x"
  by (simp add: long_ok_def saturate_long_def)

subsection \<open>Arrays: overwriting a block\<close>

text \<open>\<open>memcpy(a + off, data, |data|)\<close> into an array that is long enough.\<close>

definition blit :: "'a list \<Rightarrow> nat \<Rightarrow> 'a list \<Rightarrow> 'a list" where
  "blit a off d = take off a @ d @ drop (off + length d) a"

lemma length_blit [simp]: "off + length d \<le> length a \<Longrightarrow> length (blit a off d) = length a"
  by (simp add: blit_def)

lemma blit_Nil [simp]: "blit a off [] = a"
  by (simp add: blit_def)

lemma nth_blit:
  assumes "off + length d \<le> length a" and "i < length a"
  shows "blit a off d ! i = (if off \<le> i \<and> i < off + length d then d ! (i - off) else a ! i)"
  using assms by (auto simp: blit_def nth_append)

lemma take_blit_prefix: "length d \<le> length a \<Longrightarrow> take (length d) (blit a 0 d) = d"
  by (simp add: blit_def)

lemma take_drop_blit_same:
  "off + length d \<le> length a \<Longrightarrow> take (length d) (drop off (blit a off d)) = d"
  by (simp add: blit_def)

lemma nth_take_drop: "i < n \<Longrightarrow> p + i < length xs \<Longrightarrow> take n (drop p xs) ! i = xs ! (p + i)"
  by simp

lemma drop_split_nth: "p < length xs \<Longrightarrow> drop p xs = xs ! p # drop (Suc p) xs"
  by (simp add: Cons_nth_drop_Suc)

lemma drop_update_ge: "p < q \<Longrightarrow> drop q (xs[p := x]) = drop q xs"
  by (simp add: drop_update_cancel)

lemma take_update_le: "q \<le> p \<Longrightarrow> take q (xs[p := x]) = take q xs"
  by (simp add: take_update_cancel)

subsection \<open>Scanning\<close>

lemma length_dropWhile_cursor [cursor_le]: "length (dropWhile P xs) \<le> length xs"
  by (rule length_dropWhile_le)

lemma takeWhile_all_append:
  "\<forall>x \<in> set xs. P x \<Longrightarrow> takeWhile P (xs @ ys) = xs @ takeWhile P ys"
  by simp

lemma takeWhile_stop: "\<forall>x \<in> set xs. P x \<Longrightarrow> \<not> P y \<Longrightarrow> takeWhile P (xs @ y # ys) = xs"
  by (simp add: takeWhile_tail)

lemma dropWhile_stop: "\<forall>x \<in> set xs. P x \<Longrightarrow> \<not> P y \<Longrightarrow> dropWhile P (xs @ y # ys) = y # ys"
  by (simp add: dropWhile_append3)

lemma takeWhile_full: "\<forall>x \<in> set xs. P x \<Longrightarrow> takeWhile P xs = xs"
  by (simp add: takeWhile_eq_all_conv)

lemma dropWhile_full: "\<forall>x \<in> set xs. P x \<Longrightarrow> dropWhile P xs = []"
  by simp

subsection \<open>\<open>std::map<std::string, std::string>\<close>\<close>

text \<open>
  A \<open>std::map\<close> keeps its keys sorted and distinct, and iterates in key order. It is an
  association list sorted by key; \<open>smap_set\<close> is \<open>m[k] = v\<close> and \<open>smap_insert_new\<close> is
  \<open>m.insert({k, v})\<close>, which keeps an existing entry.
\<close>

type_synonym smap = "(string \<times> string) list"

definition smap_ok :: "smap \<Rightarrow> bool" where
  "smap_ok m \<longleftrightarrow> sorted (map fst m) \<and> distinct (map fst m)"

fun smap_set :: "string \<Rightarrow> string \<Rightarrow> smap \<Rightarrow> smap" where
  "smap_set k v [] = [(k, v)]"
| "smap_set k v ((k', v') # m) =
     (if k = k' then (k, v) # m
      else if k < k' then (k, v) # (k', v') # m
      else (k', v') # smap_set k v m)"

definition smap_insert_new :: "string \<Rightarrow> string \<Rightarrow> smap \<Rightarrow> smap" where
  "smap_insert_new k v m = (case map_of m k of None \<Rightarrow> smap_set k v m | Some _ \<Rightarrow> m)"

lemma set_fst_smap_set [simp]: "fst ` set (smap_set k v m) = insert k (fst ` set m)"
  by (induction k v m rule: smap_set.induct) auto

lemma map_of_smap_set [simp]: "smap_ok m \<Longrightarrow> map_of (smap_set k v m) = (map_of m)(k \<mapsto> v)"
proof (induction k v m rule: smap_set.induct)
  case (2 k v k' v' m)
  then show ?case by (auto simp: smap_ok_def fun_eq_iff)
qed (auto simp: smap_ok_def)

lemma smap_ok_set [simp, intro]: "smap_ok m \<Longrightarrow> smap_ok (smap_set k v m)"
proof (induction k v m rule: smap_set.induct)
  case (2 k v k' v' m)
  then show ?case by (force simp: smap_ok_def)
qed (auto simp: smap_ok_def)

lemma smap_ok_Nil [simp]: "smap_ok []"
  by (simp add: smap_ok_def)

lemma smap_set_not_Nil [simp]: "smap_set k v m \<noteq> []"
  by (induction k v m rule: smap_set.induct) auto

end
