(* ===== verification/Lst_Timer.thy ===== *)
theory Lst_Timer
  imports Prelude
begin

text \<open>
  The sorted list of timers of \<open>infra/timer/lst_timer.h\<close> and \<open>infra/timer/lst_timer.cpp\<close>: a
  doubly linked list of \<open>util_timer\<close> objects, linked by pointers. The heap is an explicit
  store from addresses to objects; \<open>delete\<close> takes an object out of it, so that a read or a
  write through a null or a dangling pointer is a value of the model (\<open>Inl\<close>). The operations
  are translated statement by statement on the pointers; the lemmas show that they implement
  insertion into and removal from a list ordered by expiry, that no operation touches memory
  it must not touch, and what breaks when \<open>adjust_timer\<close> is called for a timer that expires
  earlier than before.
\<close>

subsection \<open>Objects, store and list\<close>

text \<open>
  \<open>cb_func\<close> is a function pointer; here it is the function itself, on the state that the
  callbacks change: the sockets registered with epoll, the sockets closed so far and
  \<open>HttpConnection::m_user_count\<close>.
\<close>

record cb_env =
  epoll_fds :: "int list"
  closed_fds :: "int list"
  user_count :: int

record client_data =
  cd_sockfd :: int
  cd_timer :: "nat option"

record util_timer =
  tm_expire :: int
  tm_cb_func :: "client_data \<Rightarrow> cb_env \<Rightarrow> cb_env"
  tm_user_data :: client_data
  tm_prev :: "nat option"
  tm_next :: "nat option"

type_synonym timer_store = "nat \<rightharpoonup> util_timer"

record sort_timer_lst =
  tl_store :: timer_store
  tl_head :: "nat option"
  tl_tail :: "nat option"

text \<open>\<open>epoll_ctl(DEL)\<close>, \<open>close\<close> and the count, as the callback of a connection does them.\<close>

definition cb_func :: "client_data \<Rightarrow> cb_env \<Rightarrow> cb_env" where
  "cb_func d e = e\<lparr>epoll_fds := removeAll (cd_sockfd d) (epoll_fds e),
                   closed_fds := closed_fds e @ [cd_sockfd d],
                   user_count := user_count e - 1\<rparr>"

text \<open>Reading and writing an object through a pointer.\<close>

definition deref :: "sort_timer_lst \<Rightarrow> nat option \<Rightarrow> util_timer cxx" where
  "deref l p =
     (case p of
        None \<Rightarrow> Inl NullDeref
      | Some a \<Rightarrow> (case tl_store l a of None \<Rightarrow> Inl UseAfterFree | Some t \<Rightarrow> Inr t))"

definition set_field ::
  "(util_timer \<Rightarrow> util_timer) \<Rightarrow> nat option \<Rightarrow> sort_timer_lst \<Rightarrow> sort_timer_lst cxx" where
  "set_field f p l =
     (case p of
        None \<Rightarrow> Inl NullDeref
      | Some a \<Rightarrow> (case tl_store l a of
            None \<Rightarrow> Inl UseAfterFree
          | Some t \<Rightarrow> Inr (l\<lparr>tl_store := (tl_store l)(a \<mapsto> f t)\<rparr>)))"

abbreviation set_next :: "nat option \<Rightarrow> nat option \<Rightarrow> sort_timer_lst \<Rightarrow> sort_timer_lst cxx" where
  "set_next q \<equiv> set_field (tm_next_update (\<lambda>_. q))"

abbreviation set_prev :: "nat option \<Rightarrow> nat option \<Rightarrow> sort_timer_lst \<Rightarrow> sort_timer_lst cxx" where
  "set_prev q \<equiv> set_field (tm_prev_update (\<lambda>_. q))"

definition delete_timer :: "nat option \<Rightarrow> sort_timer_lst \<Rightarrow> sort_timer_lst cxx" where
  "delete_timer p l =
     (case p of
        None \<Rightarrow> Inr l
      | Some a \<Rightarrow> (if tl_store l a = None then Inl UseAfterFree
                   else Inr (l\<lparr>tl_store := (tl_store l)(a := None)\<rparr>)))"

text \<open>Sequencing of statements: an undefined behaviour ends the run.\<close>

definition bind_cxx :: "'a cxx \<Rightarrow> ('a \<Rightarrow> 'b cxx) \<Rightarrow> 'b cxx" where
  "bind_cxx r f = (case r of Inl u \<Rightarrow> Inl u | Inr x \<Rightarrow> f x)"

lemma bind_cxx_simps [simp]: "bind_cxx (Inl u) f = Inl u" "bind_cxx (Inr x) f = f x"
  by (simp_all add: bind_cxx_def)

subsection \<open>The operations\<close>

definition sort_timer_lst_init :: "timer_store \<Rightarrow> sort_timer_lst" where
  "sort_timer_lst_init h = \<lparr>tl_store = h, tl_head = None, tl_tail = None\<rparr>"

text \<open>
  The private \<open>add_timer(timer, lst_head)\<close>: the loop that looks for the first element after
  \<open>lst_head\<close> that expires later. The links may form a cycle, in which case the loop does not
  end: \<open>find_place\<close> takes fuel and answers \<open>None\<close> when it is used up. It returns \<open>prev\<close> and
  \<open>tmp\<close> at the end of the loop.
\<close>

fun find_place ::
  "nat \<Rightarrow> sort_timer_lst \<Rightarrow> int \<Rightarrow> nat option \<Rightarrow> nat option \<Rightarrow> (nat option \<times> nat option) cxx option"
where
  "find_place 0 l e prev tmp = None"
| "find_place (Suc n) l e prev tmp =
     (if tmp = None then Some (Inr (prev, tmp))
      else case deref l tmp of
        Inl u \<Rightarrow> Some (Inl u)
      | Inr t \<Rightarrow> if e < tm_expire t then Some (Inr (prev, tmp))
                 else find_place n l e tmp (tm_next t))"

definition add_timer_after ::
  "nat \<Rightarrow> nat option \<Rightarrow> nat option \<Rightarrow> sort_timer_lst \<Rightarrow> sort_timer_lst cxx option" where
  "add_timer_after n timer lst_head l =
     (case deref l timer of Inl u \<Rightarrow> Some (Inl u) | Inr t \<Rightarrow>
      (case deref l lst_head of Inl u \<Rightarrow> Some (Inl u) | Inr h \<Rightarrow>
       (case find_place n l (tm_expire t) lst_head (tm_next h) of
          None \<Rightarrow> None
        | Some (Inl u) \<Rightarrow> Some (Inl u)
        | Some (Inr (prev, tmp)) \<Rightarrow>
            Some (if tmp \<noteq> None then
                    bind_cxx (set_next timer prev l) (\<lambda>l.
                    bind_cxx (set_next tmp timer l) (\<lambda>l.
                    bind_cxx (set_prev timer tmp l) (\<lambda>l.
                    set_prev prev timer l)))
                  else
                    bind_cxx (set_next timer prev l) (\<lambda>l.
                    bind_cxx (set_prev prev timer l) (\<lambda>l.
                    bind_cxx (set_next None timer l) (\<lambda>l.
                    Inr (l\<lparr>tl_tail := timer\<rparr>))))))))"

definition add_timer :: "nat \<Rightarrow> nat option \<Rightarrow> sort_timer_lst \<Rightarrow> sort_timer_lst cxx option" where
  "add_timer n timer l =
     (if timer = None then Some (Inr l)
      else if tl_head l = None then Some (Inr (l\<lparr>tl_head := timer, tl_tail := timer\<rparr>))
      else case deref l timer of Inl u \<Rightarrow> Some (Inl u) | Inr t \<Rightarrow>
        (case deref l (tl_head l) of Inl u \<Rightarrow> Some (Inl u) | Inr h \<Rightarrow>
          (if tm_expire t < tm_expire h then
             Some (bind_cxx (set_next (tl_head l) timer l) (\<lambda>l.
                   bind_cxx (set_prev timer (tl_head l) l) (\<lambda>l.
                   Inr (l\<lparr>tl_head := timer\<rparr>))))
           else add_timer_after n timer (tl_head l) l)))"

definition adjust_timer :: "nat \<Rightarrow> nat option \<Rightarrow> sort_timer_lst \<Rightarrow> sort_timer_lst cxx option" where
  "adjust_timer n timer l =
     (if timer = None then Some (Inr l)
      else case deref l timer of Inl u \<Rightarrow> Some (Inl u) | Inr t \<Rightarrow>
        (if tm_next t = None then Some (Inr l)
         else case deref l (tm_next t) of Inl u \<Rightarrow> Some (Inl u) | Inr nx \<Rightarrow>
           (if tm_expire t < tm_expire nx then Some (Inr l)
            else if timer = tl_head l then
              (case bind_cxx (set_prev None (tm_next t) (l\<lparr>tl_head := tm_next t\<rparr>)) (\<lambda>l.
                    set_next None timer l) of
                 Inl u \<Rightarrow> Some (Inl u)
               | Inr l \<Rightarrow> add_timer_after n timer (tl_head l) l)
            else
              (case bind_cxx (set_next (tm_next t) (tm_prev t) l) (\<lambda>l.
                    set_prev (tm_prev t) (tm_next t) l) of
                 Inl u \<Rightarrow> Some (Inl u)
               | Inr l \<Rightarrow> add_timer_after n timer (tm_next t) l))))"

definition del_timer :: "nat option \<Rightarrow> sort_timer_lst \<Rightarrow> sort_timer_lst cxx" where
  "del_timer timer l =
     (if timer = None then Inr l
      else if timer = tl_head l \<and> timer = tl_tail l then
        bind_cxx (delete_timer timer l) (\<lambda>l. Inr (l\<lparr>tl_head := None, tl_tail := None\<rparr>))
      else if timer = tl_head l then
        bind_cxx (deref l (tl_head l)) (\<lambda>h.
        bind_cxx (set_prev None (tm_next h) (l\<lparr>tl_head := tm_next h\<rparr>)) (\<lambda>l.
        delete_timer timer l))
      else if timer = tl_tail l then
        bind_cxx (deref l (tl_tail l)) (\<lambda>t.
        bind_cxx (set_next None (tm_prev t) (l\<lparr>tl_tail := tm_prev t\<rparr>)) (\<lambda>l.
        delete_timer timer l))
      else
        bind_cxx (deref l timer) (\<lambda>t.
        bind_cxx (set_next (tm_next t) (tm_prev t) l) (\<lambda>l.
        bind_cxx (deref l timer) (\<lambda>t.
        bind_cxx (set_prev (tm_prev t) (tm_next t) l) (\<lambda>l.
        delete_timer timer l)))))"

text \<open>
  \<open>tick\<close>: each turn of the loop deletes an object, so that the number of objects bounds it;
  the fuel of \<open>lst_tick_loop\<close> makes it a function on every store. The callback gets the user data
  and works outside the list.
\<close>

fun lst_tick_loop ::
  "nat \<Rightarrow> int \<Rightarrow> nat option \<Rightarrow> sort_timer_lst \<times> cb_env \<Rightarrow> (sort_timer_lst \<times> cb_env) cxx option"
where
  "lst_tick_loop 0 cur tmp s = None"
| "lst_tick_loop (Suc n) cur tmp (l, e) =
     (if tmp = None then Some (Inr (l, e))
      else case deref l tmp of Inl u \<Rightarrow> Some (Inl u) | Inr t \<Rightarrow>
        (if cur < tm_expire t then Some (Inr (l, e))
         else
           (let e = tm_cb_func t (tm_user_data t) e;
                l = l\<lparr>tl_head := tm_next t\<rparr>
            in case bind_cxx (if tl_head l \<noteq> None then set_prev None (tl_head l) l else Inr l) (\<lambda>l.
                    delete_timer tmp l) of
                 Inl u \<Rightarrow> Some (Inl u)
               | Inr l \<Rightarrow> lst_tick_loop n cur (tl_head l) (l, e))))"

definition lst_tick :: "nat \<Rightarrow> int \<Rightarrow> sort_timer_lst \<times> cb_env \<Rightarrow> (sort_timer_lst \<times> cb_env) cxx option" where
  "lst_tick n cur s = (if tl_head (fst s) = None then Some (Inr s)
                   else lst_tick_loop n cur (tl_head (fst s)) s)"

text \<open>The destructor.\<close>

fun destroy_loop :: "nat \<Rightarrow> nat option \<Rightarrow> sort_timer_lst \<Rightarrow> sort_timer_lst cxx option" where
  "destroy_loop 0 tmp l = None"
| "destroy_loop (Suc n) tmp l =
     (if tmp = None then Some (Inr l)
      else case deref l tmp of Inl u \<Rightarrow> Some (Inl u) | Inr t \<Rightarrow>
        (case delete_timer tmp (l\<lparr>tl_head := tm_next t\<rparr>) of
           Inl u \<Rightarrow> Some (Inl u)
         | Inr l \<Rightarrow> destroy_loop n (tl_head l) l))"

definition sort_timer_lst_destroy :: "nat \<Rightarrow> sort_timer_lst \<Rightarrow> sort_timer_lst cxx option" where
  "sort_timer_lst_destroy n l = destroy_loop n (tl_head l) l"

text \<open>\<open>Utils::init\<close> and \<open>Utils::timer_handler\<close>: the tick, then the next alarm.\<close>

record utils =
  ut_timer_lst :: sort_timer_lst
  ut_timeslot :: int
  ut_alarms :: "int list"

definition utils_init :: "int \<Rightarrow> utils \<Rightarrow> utils" where
  "utils_init timeslot u = u\<lparr>ut_timeslot := timeslot\<rparr>"

definition timer_handler :: "nat \<Rightarrow> int \<Rightarrow> utils \<times> cb_env \<Rightarrow> (utils \<times> cb_env) cxx option" where
  "timer_handler n cur = (\<lambda>(u, e).
     case lst_tick n cur (ut_timer_lst u, e) of
       None \<Rightarrow> None
     | Some (Inl x) \<Rightarrow> Some (Inl x)
     | Some (Inr (l, e)) \<Rightarrow>
         Some (Inr (u\<lparr>ut_timer_lst := l, ut_alarms := ut_alarms u @ [ut_timeslot u]\<rparr>, e)))"

subsection \<open>Linked segments\<close>

text \<open>
  An entry of the abstract list is the address of an object with its expiry and its callback
  applied to its data. \<open>dlseg h p x xs q\<close>: starting at pointer \<open>x\<close>, whose predecessor is
  \<open>p\<close>, the links of the store \<open>h\<close> run through the entries \<open>xs\<close> and end at \<open>q\<close>.
\<close>

type_synonym tentry = "nat \<times> int \<times> (cb_env \<Rightarrow> cb_env)"

abbreviation en_expire :: "tentry \<Rightarrow> int" where "en_expire x \<equiv> fst (snd x)"

definition en_of :: "nat \<Rightarrow> util_timer \<Rightarrow> tentry" where
  "en_of a t = (a, tm_expire t, tm_cb_func t (tm_user_data t))"

fun dlseg :: "timer_store \<Rightarrow> nat option \<Rightarrow> nat option \<Rightarrow> tentry list \<Rightarrow> nat option \<Rightarrow> bool" where
  "dlseg h p x [] q = (x = q)"
| "dlseg h p x (y # ys) q =
     (x = Some (fst y) \<and> (\<exists>t. h (fst y) = Some t \<and> y = en_of (fst y) t \<and> tm_prev t = p \<and>
        dlseg h (Some (fst y)) (tm_next t) ys q))"

definition last_ptr :: "nat option \<Rightarrow> tentry list \<Rightarrow> nat option" where
  "last_ptr p xs = (if xs = [] then p else Some (fst (last xs)))"

definition hd_ptr :: "tentry list \<Rightarrow> nat option" where
  "hd_ptr xs = (case xs of [] \<Rightarrow> None | x # _ \<Rightarrow> Some (fst x))"

lemma ptr_simps [simp]:
  "last_ptr p [] = p" "last_ptr p (xs @ [x]) = Some (fst x)" "hd_ptr [] = None"
  "hd_ptr (x # xs) = Some (fst x)" "last_ptr p (x # xs) = last_ptr (Some (fst x)) xs"
  by (simp_all add: last_ptr_def hd_ptr_def)

lemma fst_en_of [simp]: "fst (en_of a t) = a" "en_expire (en_of a t) = tm_expire t"
  by (simp_all add: en_of_def)

lemma en_of_links [simp]:
  "en_of a (t\<lparr>tm_next := q\<rparr>) = en_of a t" "en_of a (t\<lparr>tm_prev := q\<rparr>) = en_of a t"
  by (simp_all add: en_of_def)

lemma dlseg_append:
  "dlseg h p x (xs @ ys) q = (\<exists>y. dlseg h p x xs y \<and> dlseg h (last_ptr p xs) y ys q)"
  by (induction xs arbitrary: p x) auto

lemma dlseg_frame [simp]: "a \<notin> fst ` set xs \<Longrightarrow> dlseg (h(a := v)) p x xs q = dlseg h p x xs q"
  by (induction xs arbitrary: p x) auto

lemma dlseg_start: "dlseg h p x xs None \<Longrightarrow> x = hd_ptr xs"
  by (cases xs) auto

lemma dlseg_lookup: "dlseg h p x xs q \<Longrightarrow> y \<in> set xs \<Longrightarrow> \<exists>t. h (fst y) = Some t \<and> y = en_of (fst y) t"
  by (induction xs arbitrary: p x) auto

lemma dlseg_Cons_None:
  "dlseg h p x (y # ys) None \<longleftrightarrow>
     x = Some (fst y) \<and> (\<exists>t. h (fst y) = Some t \<and> y = en_of (fst y) t \<and> tm_prev t = p \<and>
        tm_next t = hd_ptr ys \<and> dlseg h (Some (fst y)) (hd_ptr ys) ys None)"
  using dlseg_start by (metis dlseg.simps(2))

lemma dlseg_split:
  "dlseg h p x (xs @ y # ys) None \<longleftrightarrow>
     dlseg h p x xs (Some (fst y)) \<and>
     (\<exists>t. h (fst y) = Some t \<and> y = en_of (fst y) t \<and> tm_prev t = last_ptr p xs \<and>
        tm_next t = hd_ptr ys \<and> dlseg h (Some (fst y)) (hd_ptr ys) ys None)"
  unfolding dlseg_append dlseg_Cons_None by blast

lemma dlseg_cong: "(\<And>a. a \<in> fst ` set xs \<Longrightarrow> h' a = h a) \<Longrightarrow> dlseg h' p x xs q = dlseg h p x xs q"
  by (induction xs arbitrary: p x) auto

lemma ptr_neq:
  "a \<notin> fst ` set xs \<Longrightarrow> Some a \<noteq> last_ptr None xs" "a \<notin> fst ` set xs \<Longrightarrow> Some a \<noteq> hd_ptr xs"
  "a \<noteq> fst (last xs) \<Longrightarrow> Some a \<noteq> last_ptr None xs"
  "distinct (map fst xs) \<Longrightarrow> a \<in> fst ` set (tl xs) \<Longrightarrow> Some a \<noteq> hd_ptr xs"
  by (auto simp: last_ptr_def hd_ptr_def split: list.splits) force

lemma set_tl_fst: "a \<in> fst ` set (tl xs) \<Longrightarrow> a \<in> fst ` set xs"
  by (cases xs) auto

subsection \<open>Insertion and removal of one object\<close>

text \<open>
  Turning the links: the last object of a segment gets another successor, the first another
  predecessor.
\<close>

lemma dlseg_relink_last:
  assumes "dlseg h p x xs q" and "distinct (map fst xs)" and "xs \<noteq> []"
    and "h' (fst (last xs)) = map_option (tm_next_update (\<lambda>_. r)) (h (fst (last xs)))"
    and "\<And>a. a \<in> fst ` set xs \<Longrightarrow> a \<noteq> fst (last xs) \<Longrightarrow> h' a = h a"
  shows "dlseg h' p x xs r"
  using assms
proof (induction xs arbitrary: p x)
  case (Cons y ys)
  then obtain t where t: "h (fst y) = Some t" "y = en_of (fst y) t" by auto
  show ?case
  proof (cases "ys = []")
    case True
    with Cons.prems t show ?thesis by (auto simp: map_option_case)
  next
    case False
    with Cons.prems(2) have "fst y \<noteq> fst (last ys)" by (metis distinct.simps(2) image_eqI last_in_set list.simps(9) set_map)
    with False Cons.prems have "h' (fst y) = h (fst y)" by simp
    moreover from False Cons.prems t have "dlseg h' (Some (fst y)) (tm_next t) ys r"
      by (intro Cons.IH) auto
    ultimately show ?thesis using Cons.prems(1) t by auto
  qed
qed simp

lemma dlseg_relink_first:
  assumes "dlseg h p x xs q" and "distinct (map fst xs)"
    and "xs \<noteq> [] \<Longrightarrow> h' (fst (hd xs)) = map_option (tm_prev_update (\<lambda>_. r)) (h (fst (hd xs)))"
    and "\<And>a. a \<in> fst ` set (tl xs) \<Longrightarrow> h' a = h a"
  shows "dlseg h' r x xs q"
proof (cases xs)
  case (Cons y ys)
  from assms(4) Cons have "dlseg h' s z ys q = dlseg h s z ys q" for s z
    by (intro dlseg_cong) simp
  with assms Cons show ?thesis by auto
qed (use assms in simp)

lemma dlseg_insert:
  assumes seg: "dlseg h None x (xs @ ys) None" and dist: "distinct (map fst (xs @ ys))"
    and k: "k \<notin> fst ` set (xs @ ys)" "h' k = Some t" "tm_prev t = last_ptr None xs" "tm_next t = hd_ptr ys"
    and l: "xs \<noteq> [] \<Longrightarrow> h' (fst (last xs)) = map_option (tm_next_update (\<lambda>_. Some k)) (h (fst (last xs)))"
    and f: "ys \<noteq> [] \<Longrightarrow> h' (fst (hd ys)) = map_option (tm_prev_update (\<lambda>_. Some k)) (h (fst (hd ys)))"
    and o: "\<And>a. a \<noteq> k \<Longrightarrow> Some a \<noteq> last_ptr None xs \<Longrightarrow> Some a \<noteq> hd_ptr ys \<Longrightarrow> h' a = h a"
  shows "dlseg h' None (if xs = [] then Some k else x) (xs @ en_of k t # ys) None"
proof -
  from seg obtain y where y: "dlseg h None x xs y" "dlseg h (last_ptr None xs) y ys None"
    by (auto simp: dlseg_append)
  have "dlseg h' (Some k) y ys None"
  proof (rule dlseg_relink_first [OF y(2)])
    fix a assume a: "a \<in> fst ` set (tl ys)"
    show "h' a = h a"
    proof (rule o)
      show "Some a \<noteq> hd_ptr ys" using a dist by (intro ptr_neq(4)) auto
      show "Some a \<noteq> last_ptr None xs" using set_tl_fst [OF a] dist by (intro ptr_neq(1)) auto
      show "a \<noteq> k" using set_tl_fst [OF a] k(1) by auto
    qed
  qed (use dist f in auto)
  moreover have "y = hd_ptr ys" using y(2) by (rule dlseg_start)
  moreover have "dlseg h' None (if xs = [] then Some k else x) xs (Some k)"
  proof (cases "xs = []")
    case False
    have "dlseg h' None x xs (Some k)"
    proof (rule dlseg_relink_last [OF y(1)])
      fix a assume a: "a \<in> fst ` set xs" "a \<noteq> fst (last xs)"
      show "h' a = h a"
      proof (rule o)
        show "Some a \<noteq> hd_ptr ys" using a dist by (intro ptr_neq(2)) auto
        show "Some a \<noteq> last_ptr None xs" using a by (intro ptr_neq(3))
        show "a \<noteq> k" using a k(1) by auto
      qed
    qed (use False dist l in auto)
    with False show ?thesis by simp
  qed simp
  ultimately show ?thesis using k by (auto simp: dlseg_split)
qed

lemma dlseg_remove:
  assumes seg: "dlseg h None x (xs @ z # ys) None" and dist: "distinct (map fst (xs @ z # ys))"
    and l: "xs \<noteq> [] \<Longrightarrow> h' (fst (last xs)) = map_option (tm_next_update (\<lambda>_. hd_ptr ys)) (h (fst (last xs)))"
    and f: "ys \<noteq> [] \<Longrightarrow> h' (fst (hd ys)) = map_option (tm_prev_update (\<lambda>_. last_ptr None xs)) (h (fst (hd ys)))"
    and o: "\<And>a. a \<noteq> fst z \<Longrightarrow> Some a \<noteq> last_ptr None xs \<Longrightarrow> Some a \<noteq> hd_ptr ys \<Longrightarrow> h' a = h a"
  shows "dlseg h' None (if xs = [] then hd_ptr ys else x) (xs @ ys) None"
proof -
  from seg have y: "dlseg h None x xs (Some (fst z))"
    "dlseg h (Some (fst z)) (hd_ptr ys) ys None"
    by (auto simp: dlseg_split)
  have "dlseg h' (last_ptr None xs) (hd_ptr ys) ys None"
  proof (rule dlseg_relink_first [OF y(2)])
    fix a assume a: "a \<in> fst ` set (tl ys)"
    show "h' a = h a"
    proof (rule o)
      show "Some a \<noteq> hd_ptr ys" using a dist by (intro ptr_neq(4)) auto
      show "Some a \<noteq> last_ptr None xs" using set_tl_fst [OF a] dist by (intro ptr_neq(1)) auto
      have "fst z \<notin> fst ` set ys" using dist by simp
      then show "a \<noteq> fst z" using set_tl_fst [OF a] by metis
    qed
  qed (use dist f in auto)
  moreover have "dlseg h' None (if xs = [] then hd_ptr ys else x) xs (hd_ptr ys)"
  proof (cases "xs = []")
    case False
    have "dlseg h' None x xs (hd_ptr ys)"
    proof (rule dlseg_relink_last [OF y(1)])
      fix a assume a: "a \<in> fst ` set xs" "a \<noteq> fst (last xs)"
      show "h' a = h a"
      proof (rule o)
        show "Some a \<noteq> hd_ptr ys" using a dist by (intro ptr_neq(2)) auto
        show "Some a \<noteq> last_ptr None xs" using a by (intro ptr_neq(3))
        have "fst z \<notin> fst ` set xs" using dist by simp
        then show "a \<noteq> fst z" using a by metis
      qed
    qed (use False dist l in auto)
    with False show ?thesis by simp
  qed simp
  ultimately show ?thesis by (auto simp: dlseg_append)
qed

subsection \<open>What the operations do to the list\<close>

definition timers_rep :: "sort_timer_lst \<Rightarrow> tentry list \<Rightarrow> bool" where
  "timers_rep l xs \<longleftrightarrow>
     dlseg (tl_store l) None (tl_head l) xs None \<and> distinct (map fst xs) \<and>
     (xs \<noteq> [] \<longrightarrow> tl_tail l = Some (fst (last xs)))"

lemma deref_Some [simp]: "tl_store l a = Some t \<Longrightarrow> deref l (Some a) = Inr t"
  by (simp add: deref_def)

lemma set_field_Some [simp]:
  "tl_store l a = Some t \<Longrightarrow> set_field f (Some a) l = Inr (l\<lparr>tl_store := (tl_store l)(a \<mapsto> f t)\<rparr>)"
  by (simp add: set_field_def)

lemma delete_timer_Some [simp]:
  "tl_store l a = Some t \<Longrightarrow> delete_timer (Some a) l = Inr (l\<lparr>tl_store := (tl_store l)(a := None)\<rparr>)"
  by (simp add: delete_timer_def)

lemma find_place_dlseg:
  "dlseg (tl_store l) p x ys None \<Longrightarrow> length ys < n \<Longrightarrow>
   find_place n l e p0 x =
     Some (Inr (last_ptr p0 (takeWhile (\<lambda>y. en_expire y \<le> e) ys),
                hd_ptr (dropWhile (\<lambda>y. en_expire y \<le> e) ys)))"
proof (induction ys arbitrary: n p p0 x)
  case Nil
  then show ?case by (cases n) auto
next
  case (Cons y ys)
  then obtain m t where n: "n = Suc m" "length ys < m" and t: "tl_store l (fst y) = Some t"
    "y = en_of (fst y) t" "x = Some (fst y)" "dlseg (tl_store l) (Some (fst y)) (tm_next t) ys None"
    by (cases n) auto
  from t(2) have "en_expire y = tm_expire t" by (metis fst_en_of(2))
  with n t Cons.IH [OF t(4) n(2)] show ?case by auto
qed

lemma add_timer_after_links:
  assumes seg: "dlseg (tl_store l) None (tl_head l) (A @ B) None" and dist: "distinct (map fst (A @ B))"
    and A: "A \<noteq> []" and k: "k \<notin> fst ` set (A @ B)" "tl_store l k = Some t"
    and tail: "B \<noteq> [] \<Longrightarrow> tl_tail l = Some (fst (last B))"
  shows "\<exists>l'. (if hd_ptr B \<noteq> None then
                    bind_cxx (set_next (Some k) (last_ptr None A) l) (\<lambda>l.
                    bind_cxx (set_next (hd_ptr B) (Some k) l) (\<lambda>l.
                    bind_cxx (set_prev (Some k) (hd_ptr B) l) (\<lambda>l.
                    set_prev (last_ptr None A) (Some k) l)))
                  else
                    bind_cxx (set_next (Some k) (last_ptr None A) l) (\<lambda>l.
                    bind_cxx (set_prev (last_ptr None A) (Some k) l) (\<lambda>l.
                    bind_cxx (set_next None (Some k) l) (\<lambda>l.
                    Inr (l\<lparr>tl_tail := Some k\<rparr>))))) = Inr l' \<and>
           timers_rep l' (A @ en_of k t # B) \<and> dom (tl_store l') = dom (tl_store l)"
proof -
  let ?a = "fst (last A)"
  from A seg obtain ta where ta: "tl_store l ?a = Some ta" using dlseg_lookup by (metis Un_iff last_in_set set_append)
  have ak: "?a \<noteq> k" using k(1) A by (metis UnI1 imageI last_in_set set_append)
  have la: "last_ptr None A = Some ?a" using A by (simp add: last_ptr_def)
  show ?thesis
  proof (cases B)
    case Nil
    let ?h = "(tl_store l)(?a \<mapsto> ta\<lparr>tm_next := Some k\<rparr>, k \<mapsto> t\<lparr>tm_prev := Some ?a, tm_next := None\<rparr>)"
    have "dlseg ?h None (if A = [] then Some k else tl_head l) (A @ en_of k (t\<lparr>tm_prev := Some ?a, tm_next := None\<rparr>) # B) None"
      by (rule dlseg_insert [OF seg dist k(1)]) (use ak la ta A Nil in auto)
    then show ?thesis
      using ak k ta A Nil dist by (auto simp: la timers_rep_def)
  next
    case (Cons b bs)
    obtain tb where tb: "tl_store l (fst b) = Some tb" using dlseg_lookup [OF seg, of b] Cons by auto
    have bk: "fst b \<noteq> k" using k(1) Cons by auto
    have "fst b \<notin> fst ` set A" using dist Cons by auto
    then have ab: "?a \<noteq> fst b" using A by (metis imageI last_in_set)
    let ?t = "t\<lparr>tm_prev := Some ?a, tm_next := Some (fst b)\<rparr>"
    let ?h = "(tl_store l)(?a \<mapsto> ta\<lparr>tm_next := Some k\<rparr>, fst b \<mapsto> tb\<lparr>tm_prev := Some k\<rparr>, k \<mapsto> ?t)"
    have h: "dlseg ?h None (if A = [] then Some k else tl_head l) (A @ en_of k ?t # B) None"
      by (rule dlseg_insert [OF seg dist k(1)]) (use ab bk ak la ta tb A Cons in auto)
    have e: "(tl_store l)(?a \<mapsto> ta\<lparr>tm_next := Some k\<rparr>, k \<mapsto> t\<lparr>tm_next := Some (fst b)\<rparr>,
               fst b \<mapsto> tb\<lparr>tm_prev := Some k\<rparr>, k \<mapsto> t\<lparr>tm_next := Some (fst b), tm_prev := Some ?a\<rparr>) = ?h"
      using ab bk ak by auto
    show ?thesis
      using ab bk ak k ta tb A Cons dist h tail by (auto simp: la timers_rep_def e)
  qed
qed

text \<open>The place of an entry in the ordered list: after every entry that does not expire later.\<close>

definition spec_add :: "tentry \<Rightarrow> tentry list \<Rightarrow> tentry list" where
  "spec_add z xs = takeWhile (\<lambda>y. en_expire y \<le> en_expire z) xs @ z #
                   dropWhile (\<lambda>y. en_expire y \<le> en_expire z) xs"

lemma spec_add_simps:
  "spec_add z [] = [z]"
  "spec_add z (y # ys) = (if en_expire z < en_expire y then z # y # ys else y # spec_add z ys)"
  by (auto simp: spec_add_def)

lemma set_spec_add: "set (spec_add z xs) = insert z (set xs)"
  by (induction xs) (auto simp: spec_add_simps)

lemma last_ptr_append: "last_ptr p (xs @ ys) = last_ptr (last_ptr p xs) ys"
  by (simp add: last_ptr_def)

lemma add_timer_after_rep:
  assumes rep: "timers_rep l (xs @ y # ys)" and k: "k \<notin> fst ` set (xs @ y # ys)" "tl_store l k = Some t"
    and n: "length ys < n"
  shows "\<exists>l'. add_timer_after n (Some k) (Some (fst y)) l = Some (Inr l') \<and>
           timers_rep l' (xs @ y # spec_add (en_of k t) ys) \<and> dom (tl_store l') = dom (tl_store l)"
proof -
  let ?P = "\<lambda>z. en_expire z \<le> tm_expire t"
  let ?A = "xs @ y # takeWhile ?P ys" and ?B = "dropWhile ?P ys"
  from rep have seg: "dlseg (tl_store l) None (tl_head l) (xs @ y # ys) None"
    and dist: "distinct (map fst (xs @ y # ys))" and tail: "tl_tail l = Some (fst (last (xs @ y # ys)))"
    by (auto simp: timers_rep_def)
  have eq: "?A @ ?B = xs @ y # ys" by simp
  from seg obtain ty where ty: "tl_store l (fst y) = Some ty" "tm_next ty = hd_ptr ys"
    and rest: "dlseg (tl_store l) (Some (fst y)) (hd_ptr ys) ys None"
    by (auto simp: dlseg_split)
  have last: "last_ptr None ?A = last_ptr (Some (fst y)) (takeWhile ?P ys)"
    by (simp add: last_ptr_append)
  have B: "?B \<noteq> [] \<Longrightarrow> tl_tail l = Some (fst (last ?B))"
    using tail eq by (metis last_appendR)
  have A: "?A \<noteq> []" by simp
  note links = add_timer_after_links [of l ?A ?B k t, unfolded eq, OF seg dist A k B, unfolded last]
  show ?thesis
    using links ty k(2) find_place_dlseg [OF rest n, of "tm_expire t" "Some (fst y)"]
    unfolding add_timer_after_def by (auto simp: spec_add_def)
qed

lemma add_timer_rep:
  assumes rep: "timers_rep l xs" and k: "k \<notin> fst ` set xs" "tl_store l k = Some t"
    and fresh: "tm_prev t = None" "tm_next t = None" and n: "length xs \<le> n"
  shows "\<exists>l'. add_timer n (Some k) l = Some (Inr l') \<and>
           timers_rep l' (spec_add (en_of k t) xs) \<and> dom (tl_store l') = dom (tl_store l)"
proof (cases xs)
  case Nil
  with assms show ?thesis by (auto simp: add_timer_def timers_rep_def spec_add_simps)
next
  case (Cons y ys)
  with rep obtain ty where y: "tl_head l = Some (fst y)" "tl_store l (fst y) = Some ty" "en_expire y = tm_expire ty"
    by (auto simp: timers_rep_def) (metis fst_en_of(2))
  have ky: "k \<noteq> fst y" using k(1) Cons by auto
  show ?thesis
  proof (cases "tm_expire t < tm_expire ty")
    case True
    let ?t = "t\<lparr>tm_next := Some (fst y)\<rparr>"
    let ?h = "(tl_store l)(k \<mapsto> ?t, fst y \<mapsto> ty\<lparr>tm_prev := Some k\<rparr>)"
    from rep have seg: "dlseg (tl_store l) None (tl_head l) ([] @ xs) None" and dist: "distinct (map fst ([] @ xs))"
      by (auto simp: timers_rep_def)
    have "dlseg ?h None (if [] = ([] :: tentry list) then Some k else tl_head l) ([] @ en_of k ?t # xs) None"
      by (rule dlseg_insert [OF seg dist]) (use k y ky fresh Cons in auto)
    with True y k ky Cons rep show ?thesis
      by (auto simp: add_timer_def timers_rep_def spec_add_simps)
  next
    case False
    with y k Cons add_timer_after_rep [of l "[]" y ys k t n] rep n show ?thesis
      by (auto simp: add_timer_def spec_add_simps)
  qed
qed

lemma timers_rep_node:
  assumes "timers_rep l (xs @ z # ys)"
  obtains t where "tl_store l (fst z) = Some t" "z = en_of (fst z) t" "tm_prev t = last_ptr None xs"
    "tm_next t = hd_ptr ys"
  using assms by (auto simp: timers_rep_def dlseg_split)

lemma timers_rep_ends:
  assumes "timers_rep l (xs @ z # ys)"
  shows "tl_head l = Some (fst z) \<longleftrightarrow> xs = []" "tl_tail l = Some (fst z) \<longleftrightarrow> ys = []"
proof -
  have d: "fst z \<notin> fst ` set xs" "fst z \<notin> fst ` set ys" using assms by (auto simp: timers_rep_def)
  have "tl_head l = hd_ptr (xs @ z # ys)" using assms by (auto simp: timers_rep_def dest: dlseg_start)
  then show "tl_head l = Some (fst z) \<longleftrightarrow> xs = []" using d(1) by (cases xs) (auto simp: image_iff)
  have "tl_tail l = Some (fst (last (z # ys)))" using assms by (simp add: timers_rep_def)
  then show "tl_tail l = Some (fst z) \<longleftrightarrow> ys = []" using d(2) by auto (metis imageI last_in_set)
qed

text \<open>
  The stores after the links around an object have been closed: what \<open>del_timer\<close> and
  \<open>adjust_timer\<close> have in common.
\<close>

definition unlinked :: "sort_timer_lst \<Rightarrow> tentry list \<Rightarrow> tentry \<Rightarrow> tentry list \<Rightarrow> timer_store \<Rightarrow> bool" where
  "unlinked l xs z ys h \<longleftrightarrow>
     (xs \<noteq> [] \<longrightarrow> h (fst (last xs)) = map_option (tm_next_update (\<lambda>_. hd_ptr ys)) (tl_store l (fst (last xs)))) \<and>
     (ys \<noteq> [] \<longrightarrow> h (fst (hd ys)) = map_option (tm_prev_update (\<lambda>_. last_ptr None xs)) (tl_store l (fst (hd ys)))) \<and>
     (\<forall>a. a \<noteq> fst z \<longrightarrow> Some a \<noteq> last_ptr None xs \<longrightarrow> Some a \<noteq> hd_ptr ys \<longrightarrow> h a = tl_store l a)"

lemma unlinked_rep:
  assumes rep: "timers_rep l (xs @ z # ys)" and u: "unlinked l xs z ys (tl_store l')"
    and hd: "tl_head l' = (if xs = [] then hd_ptr ys else tl_head l)"
    and tl: "xs @ ys \<noteq> [] \<Longrightarrow> tl_tail l' = (if ys = [] then last_ptr None xs else tl_tail l)"
  shows "timers_rep l' (xs @ ys)"
proof -
  from rep have "dlseg (tl_store l) None (tl_head l) (xs @ z # ys) None" "distinct (map fst (xs @ z # ys))"
    by (auto simp: timers_rep_def)
  from dlseg_remove [OF this, of "tl_store l'"] u
  have "dlseg (tl_store l') None (if xs = [] then hd_ptr ys else tl_head l) (xs @ ys) None"
    by (auto simp: unlinked_def)
  with hd have "dlseg (tl_store l') None (tl_head l') (xs @ ys) None" by simp
  with rep tl show ?thesis by (auto simp: timers_rep_def last_ptr_def)
qed

lemma neighbours:
  assumes rep: "timers_rep l (xs @ z # ys)"
  shows "xs \<noteq> [] \<Longrightarrow> \<exists>t. tl_store l (fst (last xs)) = Some t"
    and "ys \<noteq> [] \<Longrightarrow> \<exists>t. tl_store l (fst (hd ys)) = Some t"
    and "xs \<noteq> [] \<Longrightarrow> fst (last xs) \<noteq> fst z" and "ys \<noteq> [] \<Longrightarrow> fst (hd ys) \<noteq> fst z"
    and "xs \<noteq> [] \<Longrightarrow> ys \<noteq> [] \<Longrightarrow> fst (last xs) \<noteq> fst (hd ys)"
proof -
  from rep have seg: "dlseg (tl_store l) None (tl_head l) (xs @ z # ys) None"
    and d: "fst z \<notin> fst ` set xs" "fst z \<notin> fst ` set ys" "fst ` set xs \<inter> fst ` set ys = {}"
    by (auto simp: timers_rep_def)
  show "xs \<noteq> [] \<Longrightarrow> \<exists>t. tl_store l (fst (last xs)) = Some t"
    using dlseg_lookup [OF seg, of "last xs"] by auto
  show "ys \<noteq> [] \<Longrightarrow> \<exists>t. tl_store l (fst (hd ys)) = Some t"
    using dlseg_lookup [OF seg, of "hd ys"] by auto
  show "xs \<noteq> [] \<Longrightarrow> fst (last xs) \<noteq> fst z" using d(1) by (metis imageI last_in_set)
  show "ys \<noteq> [] \<Longrightarrow> fst (hd ys) \<noteq> fst z" using d(2) by (metis imageI hd_in_set)
  show "xs \<noteq> [] \<Longrightarrow> ys \<noteq> [] \<Longrightarrow> fst (last xs) \<noteq> fst (hd ys)"
    using d(3) by (metis disjoint_iff imageI hd_in_set last_in_set)
qed

lemma last_ptr_Some: "xs \<noteq> [] \<Longrightarrow> last_ptr p xs = Some (fst (last xs))"
  and hd_ptr_Some: "xs \<noteq> [] \<Longrightarrow> hd_ptr xs = Some (fst (hd xs))"
  by (simp_all add: last_ptr_def hd_ptr_def split: list.splits)

lemma del_timer_rep:
  assumes rep: "timers_rep l (xs @ z # ys)"
  shows "\<exists>l'. del_timer (Some (fst z)) l = Inr l' \<and> timers_rep l' (xs @ ys) \<and>
           dom (tl_store l') = dom (tl_store l) - {fst z}"
proof -
  obtain t where t: "tl_store l (fst z) = Some t" "tm_prev t = last_ptr None xs" "tm_next t = hd_ptr ys"
    using timers_rep_node [OF rep] by metis
  note nb = neighbours [OF rep] and ends = timers_rep_ends [OF rep]
  have "\<exists>l'. del_timer (Some (fst z)) l = Inr l' \<and> unlinked l xs z ys (tl_store l') \<and>
          tl_head l' = (if xs = [] then hd_ptr ys else tl_head l) \<and>
          (xs @ ys \<noteq> [] \<longrightarrow> tl_tail l' = (if ys = [] then last_ptr None xs else tl_tail l)) \<and>
          dom (tl_store l') = dom (tl_store l) - {fst z}"
  proof (cases "xs = []")
    case True
    with t nb ends show ?thesis
      by (cases "ys = []") (auto simp: del_timer_def unlinked_def hd_ptr_Some)
  next
    case False
    with t nb ends show ?thesis
      by (cases "ys = []") (auto simp: del_timer_def unlinked_def hd_ptr_Some last_ptr_Some)
  qed
  then show ?thesis using unlinked_rep [OF rep] by blast
qed

lemma adjust_timer_unlinks:
  assumes rep: "timers_rep l (xs @ z # ys)" and t: "tl_store l (fst z) = Some t" "z = en_of (fst z) t"
    and Cons: "ys = y # zs" and ty: "tl_store l (fst y) = Some ty" and later: "\<not> tm_expire t < tm_expire ty"
  shows "\<exists>l1 t1. adjust_timer n (Some (fst z)) l = add_timer_after n (Some (fst z)) (Some (fst y)) l1 \<and>
              unlinked l xs z ys (tl_store l1) \<and> tl_head l1 = (if xs = [] then hd_ptr ys else tl_head l) \<and>
              tl_tail l1 = tl_tail l \<and> tl_store l1 (fst z) = Some t1 \<and> en_of (fst z) t1 = z \<and>
              dom (tl_store l1) = dom (tl_store l)"
proof -
  have links: "tm_prev t = last_ptr None xs" "tm_next t = hd_ptr ys"
    using timers_rep_node [OF rep] t(1) by (metis option.inject)+
  note nb = neighbours [OF rep] and ends = timers_rep_ends [OF rep]
  show ?thesis
  proof (cases "xs = []")
      case True
      let ?l1 = "l\<lparr>tl_head := Some (fst y), tl_store := (tl_store l)
                    (fst y \<mapsto> ty\<lparr>tm_prev := None\<rparr>, fst z \<mapsto> t\<lparr>tm_next := None\<rparr>)\<rparr>"
      show ?thesis
        by (rule exI [of _ ?l1], rule exI [of _ "t\<lparr>tm_next := None\<rparr>"])
          (use nb ends links t ty later Cons True in \<open>auto simp: adjust_timer_def unlinked_def\<close>)
    next
      case xs: False
      from nb(1) [OF xs] obtain ta where ta: "tl_store l (fst (last xs)) = Some ta" ..
      let ?l1 = "l\<lparr>tl_store := (tl_store l)(fst (last xs) \<mapsto> ta\<lparr>tm_next := Some (fst y)\<rparr>,
                    fst y \<mapsto> ty\<lparr>tm_prev := Some (fst (last xs))\<rparr>)\<rparr>"
      show ?thesis
        by (rule exI [of _ ?l1], rule exI [of _ t])
          (use nb ends links t ty ta later Cons xs in \<open>auto simp: adjust_timer_def unlinked_def last_ptr_Some\<close>)
    qed
qed

lemma adjust_timer_rep:
  assumes rep: "timers_rep l (xs @ z # ys)" and n: "length ys \<le> n"
  shows "\<exists>l'. adjust_timer n (Some (fst z)) l = Some (Inr l') \<and>
           timers_rep l' (xs @ spec_add z ys) \<and> dom (tl_store l') = dom (tl_store l)"
proof -
  obtain t where t: "tl_store l (fst z) = Some t" "z = en_of (fst z) t" "tm_prev t = last_ptr None xs"
    "tm_next t = hd_ptr ys"
    using timers_rep_node [OF rep] .
  have e: "en_expire z = tm_expire t" using t(2) by (metis fst_en_of(2))
  show ?thesis
  proof (cases ys)
    case Nil
    with rep t show ?thesis by (auto simp: adjust_timer_def spec_add_simps)
  next
    case (Cons y zs)
    from rep Cons have "timers_rep l ((xs @ [z]) @ y # zs)" by simp
    from timers_rep_node [OF this] obtain ty where "tl_store l (fst y) = Some ty" "y = en_of (fst y) ty" .
    then have ty: "tl_store l (fst y) = Some ty" "en_expire y = tm_expire ty" by (simp, metis fst_en_of(2))
    show ?thesis
    proof (cases "tm_expire t < tm_expire ty")
      case True
      with rep t ty e Cons show ?thesis by (auto simp: adjust_timer_def spec_add_simps)
    next
      case False
      have k: "fst z \<notin> fst ` set (xs @ y # zs)" using rep Cons by (auto simp: timers_rep_def image_iff)
      obtain l1 t1 where l1: "adjust_timer n (Some (fst z)) l = add_timer_after n (Some (fst z)) (Some (fst y)) l1"
        "unlinked l xs z ys (tl_store l1)" "tl_head l1 = (if xs = [] then hd_ptr ys else tl_head l)"
        "tl_tail l1 = tl_tail l" "tl_store l1 (fst z) = Some t1" "en_of (fst z) t1 = z"
        "dom (tl_store l1) = dom (tl_store l)"
        using adjust_timer_unlinks [OF rep t(1,2) Cons ty(1) False] by blast
      have "timers_rep l1 (xs @ y # zs)"
        using unlinked_rep [OF rep l1(2,3)] l1(4) Cons by simp
      from add_timer_after_rep [OF this k l1(5), of n] n False l1 e ty Cons show ?thesis
        by (simp add: spec_add_simps)
    qed
  qed
qed

text \<open>The timers that are due are taken off the front; each is called once, in order.\<close>

abbreviation run_callbacks :: "tentry list \<Rightarrow> cb_env \<Rightarrow> cb_env" where
  "run_callbacks \<equiv> fold (\<lambda>y. snd (snd y))"

lemma timers_rep_pop:
  assumes rep: "timers_rep l (z # ys)" and t: "tl_store l (fst z) = Some t"
  shows "\<exists>l'. bind_cxx (if tm_next t \<noteq> None then set_prev None (tm_next t) (l\<lparr>tl_head := tm_next t\<rparr>)
                         else Inr (l\<lparr>tl_head := tm_next t\<rparr>)) (\<lambda>l. delete_timer (Some (fst z)) l) = Inr l' \<and>
              timers_rep l' ys \<and> tl_head l' = tm_next t \<and> dom (tl_store l') = dom (tl_store l) - {fst z}"
proof -
  have rep': "timers_rep l ([] @ z # ys)" using rep by simp
  have nx: "tm_next t = hd_ptr ys" using timers_rep_node [OF rep'] t by (metis option.inject)
  note nb = neighbours [OF rep']
  have "\<exists>l'. bind_cxx (if tm_next t \<noteq> None then set_prev None (tm_next t) (l\<lparr>tl_head := tm_next t\<rparr>)
                         else Inr (l\<lparr>tl_head := tm_next t\<rparr>)) (\<lambda>l. delete_timer (Some (fst z)) l) = Inr l' \<and>
          unlinked l [] z ys (tl_store l') \<and> tl_head l' = hd_ptr ys \<and> tl_tail l' = tl_tail l \<and>
          dom (tl_store l') = dom (tl_store l) - {fst z}"
    using nb t nx by (cases "ys = []") (auto simp: unlinked_def hd_ptr_Some)
  then show ?thesis using unlinked_rep [OF rep'] nx by fastforce
qed

lemma tick_loop_rep:
  "timers_rep l xs \<Longrightarrow> length xs < n \<Longrightarrow>
   \<exists>l'. lst_tick_loop n cur (tl_head l) (l, e) =
          Some (Inr (l', run_callbacks (takeWhile (\<lambda>y. en_expire y \<le> cur) xs) e)) \<and>
        timers_rep l' (dropWhile (\<lambda>y. en_expire y \<le> cur) xs) \<and>
        dom (tl_store l') = dom (tl_store l) - fst ` set (takeWhile (\<lambda>y. en_expire y \<le> cur) xs)"
proof (induction xs arbitrary: n l e)
  case Nil
  then show ?case by (cases n) (auto simp: timers_rep_def)
next
  case (Cons z ys)
  obtain m where m: "n = Suc m" "length ys < m" using Cons.prems(2) by (cases n) auto
  obtain t where t: "tl_store l (fst z) = Some t" "z = en_of (fst z) t"
    using timers_rep_node [of l "[]" z ys] Cons.prems(1) by auto
  have h: "tl_head l = Some (fst z)" using Cons.prems(1) by (simp add: timers_rep_def)
  have z: "en_expire z = tm_expire t" "snd (snd z) = tm_cb_func t (tm_user_data t)"
    using t(2) by (metis fst_en_of(2), metis en_of_def snd_conv)
  show ?case
  proof (cases "cur < tm_expire t")
    case True
    with m t h z Cons.prems show ?thesis by auto
  next
    case False
    obtain l1 where l1: "bind_cxx (if tm_next t \<noteq> None then set_prev None (tm_next t) (l\<lparr>tl_head := tm_next t\<rparr>)
         else Inr (l\<lparr>tl_head := tm_next t\<rparr>)) (\<lambda>l. delete_timer (Some (fst z)) l) = Inr l1"
      "timers_rep l1 ys" "dom (tl_store l1) = dom (tl_store l) - {fst z}"
      using timers_rep_pop [OF Cons.prems(1) t(1)] by blast
    have "lst_tick_loop n cur (tl_head l) (l, e) = lst_tick_loop m cur (tl_head l1) (l1, snd (snd z) e)"
      using False m h t z l1(1) by (simp add: Let_def cong: if_cong split del: if_split)
    with Cons.IH [OF l1(2) m(2), of "snd (snd z) e"] False z(1) l1(3) show ?thesis by auto
  qed
qed

lemma lst_tick_rep:
  assumes "timers_rep l xs" and "length xs < n"
  shows "\<exists>l'. lst_tick n cur (l, e) =
          Some (Inr (l', run_callbacks (takeWhile (\<lambda>y. en_expire y \<le> cur) xs) e)) \<and>
        timers_rep l' (dropWhile (\<lambda>y. en_expire y \<le> cur) xs) \<and>
        dom (tl_store l') = dom (tl_store l) - fst ` set (takeWhile (\<lambda>y. en_expire y \<le> cur) xs)"
proof (cases "xs = []")
  case True
  with assms show ?thesis by (auto simp: lst_tick_def timers_rep_def)
next
  case False
  then have "tl_head l \<noteq> None" using assms(1) by (cases xs) (auto simp: timers_rep_def)
  then have "lst_tick n cur (l, e) = lst_tick_loop n cur (tl_head l) (l, e)" by (auto simp: lst_tick_def)
  with tick_loop_rep [OF assms, of cur e] show ?thesis by simp
qed

lemma destroy_loop_frees:
  "dlseg (tl_store l) p (tl_head l) xs None \<Longrightarrow> distinct (map fst xs) \<Longrightarrow> length xs < n \<Longrightarrow>
   \<exists>l'. destroy_loop n (tl_head l) l = Some (Inr l') \<and> dom (tl_store l') = dom (tl_store l) - fst ` set xs"
proof (induction xs arbitrary: n l p)
  case Nil
  then show ?case by (cases n) auto
next
  case (Cons z ys)
  obtain m where m: "n = Suc m" "length ys < m" using Cons.prems(3) by (cases n) auto
  from Cons.prems(1) obtain t where t: "tl_head l = Some (fst z)" "tl_store l (fst z) = Some t"
    "dlseg (tl_store l) (Some (fst z)) (tm_next t) ys None" by auto
  let ?l = "l\<lparr>tl_head := tm_next t, tl_store := (tl_store l)(fst z := None)\<rparr>"
  have "dlseg (tl_store ?l) (Some (fst z)) (tl_head ?l) ys None"
    using t(3) Cons.prems(2) by simp
  from Cons.IH [OF this _ m(2)] Cons.prems(2) obtain l' where
    "destroy_loop m (tm_next t) ?l = Some (Inr l')" "dom (tl_store l') = dom (tl_store ?l) - fst ` set ys"
    by fastforce
  moreover have "destroy_loop n (tl_head l) l = destroy_loop m (tm_next t) ?l" using t m by simp
  ultimately show ?case by auto
qed

subsection \<open>Histories of calls\<close>

text \<open>
  What the owner of a list does with it: \<open>new\<close> and \<open>add_timer\<close>; a new expiry and
  \<open>adjust_timer\<close>; \<open>del_timer\<close>; \<open>tick\<close>. A timer is only adjusted to a later time (the reason
  for this is in \<open>adjust_earlier_stays\<close> below), and only timers of the list are adjusted or
  deleted.
\<close>

datatype timer_op =
    TNew nat int "client_data \<Rightarrow> cb_env \<Rightarrow> cb_env" client_data
  | TAdjust nat int
  | TDel nat
  | TTick int

definition new_timer :: "int \<Rightarrow> (client_data \<Rightarrow> cb_env \<Rightarrow> cb_env) \<Rightarrow> client_data \<Rightarrow> util_timer" where
  "new_timer ex cb d = \<lparr>tm_expire = ex, tm_cb_func = cb, tm_user_data = d, tm_prev = None, tm_next = None\<rparr>"

fun timer_call :: "nat \<Rightarrow> timer_op \<Rightarrow> sort_timer_lst \<times> cb_env \<Rightarrow> (sort_timer_lst \<times> cb_env) cxx option" where
  "timer_call n (TNew k ex cb d) (l, e) =
     map_option (map_sum id (\<lambda>l. (l, e)))
       (add_timer n (Some k) (l\<lparr>tl_store := (tl_store l)(k \<mapsto> new_timer ex cb d)\<rparr>))"
| "timer_call n (TAdjust k ex) (l, e) =
     (case set_field (tm_expire_update (\<lambda>_. ex)) (Some k) l of
        Inl u \<Rightarrow> Some (Inl u)
      | Inr l \<Rightarrow> map_option (map_sum id (\<lambda>l. (l, e))) (adjust_timer n (Some k) l))"
| "timer_call n (TDel k) (l, e) = Some (map_sum id (\<lambda>l. (l, e)) (del_timer (Some k) l))"
| "timer_call n (TTick cur) (l, e) = lst_tick n cur (l, e)"

fun timer_calls :: "nat \<Rightarrow> timer_op list \<Rightarrow> sort_timer_lst \<times> cb_env \<Rightarrow> (sort_timer_lst \<times> cb_env) cxx option" where
  "timer_calls n [] s = Some (Inr s)"
| "timer_calls n (op # ops) s =
     (case timer_call n op s of
        None \<Rightarrow> None
      | Some (Inl u) \<Rightarrow> Some (Inl u)
      | Some (Inr s) \<Rightarrow> timer_calls n ops s)"

text \<open>The specification: a list ordered by expiry, without pointers.\<close>

fun spec_call :: "timer_op \<Rightarrow> tentry list \<times> cb_env \<Rightarrow> tentry list \<times> cb_env" where
  "spec_call (TNew k ex cb d) (xs, e) = (spec_add (k, ex, cb d) xs, e)"
| "spec_call (TAdjust k ex) (xs, e) =
     (case find (\<lambda>y. fst y = k) xs of
        None \<Rightarrow> (xs, e)
      | Some y \<Rightarrow> (spec_add (k, ex, snd (snd y)) (filter (\<lambda>y. fst y \<noteq> k) xs), e))"
| "spec_call (TDel k) (xs, e) = (filter (\<lambda>y. fst y \<noteq> k) xs, e)"
| "spec_call (TTick cur) (xs, e) =
     (dropWhile (\<lambda>y. en_expire y \<le> cur) xs, run_callbacks (takeWhile (\<lambda>y. en_expire y \<le> cur) xs) e)"

fun timer_op_ok :: "timer_op \<Rightarrow> tentry list \<Rightarrow> bool" where
  "timer_op_ok (TNew k ex cb d) xs \<longleftrightarrow> k \<notin> fst ` set xs"
| "timer_op_ok (TAdjust k ex) xs \<longleftrightarrow> list_ex (\<lambda>y. fst y = k \<and> en_expire y \<le> ex) xs"
| "timer_op_ok (TDel k) xs \<longleftrightarrow> k \<in> fst ` set xs"
| "timer_op_ok (TTick cur) xs \<longleftrightarrow> True"

fun timer_ops_ok :: "timer_op list \<Rightarrow> tentry list \<times> cb_env \<Rightarrow> bool" where
  "timer_ops_ok [] s \<longleftrightarrow> True"
| "timer_ops_ok (op # ops) s \<longleftrightarrow> timer_op_ok op (fst s) \<and> timer_ops_ok ops (spec_call op s)"

abbreviation spec_calls :: "timer_op list \<Rightarrow> tentry list \<times> cb_env \<Rightarrow> tentry list \<times> cb_env" where
  "spec_calls \<equiv> fold spec_call"

text \<open>The simulation relation: the list is represented, ordered, and owns the whole store.\<close>

definition timers_sim :: "sort_timer_lst \<Rightarrow> tentry list \<Rightarrow> bool" where
  "timers_sim l xs \<longleftrightarrow> timers_rep l xs \<and> sorted (map en_expire xs) \<and> dom (tl_store l) = fst ` set xs"

lemma sorted_spec_add: "sorted (map en_expire xs) \<Longrightarrow> sorted (map en_expire (spec_add z xs))"
  by (induction xs) (auto simp: spec_add_simps set_spec_add)

lemma spec_add_append:
  "\<forall>x \<in> set xs. en_expire x \<le> en_expire z \<Longrightarrow> spec_add z (xs @ ys) = xs @ spec_add z ys"
  by (induction xs) (auto simp: spec_add_simps)

lemma filter_entry:
  assumes "distinct (map fst (xs @ z # ys))"
  shows "filter (\<lambda>y. fst y \<noteq> fst z) (xs @ z # ys) = xs @ ys" "find (\<lambda>y. fst y = fst z) (xs @ z # ys) = Some z"
proof -
  from assms have d: "\<forall>x \<in> set xs. fst x \<noteq> fst z" "\<forall>y \<in> set ys. fst y \<noteq> fst z"
    by (auto simp: image_iff)
  then show "filter (\<lambda>y. fst y \<noteq> fst z) (xs @ z # ys) = xs @ ys" by simp
  from d(1) show "find (\<lambda>y. fst y = fst z) (xs @ z # ys) = Some z" by (induction xs) auto
qed

lemma timers_rep_set_expire:
  assumes rep: "timers_rep l (xs @ z # ys)" and t: "tl_store l (fst z) = Some t"
  shows "timers_rep (l\<lparr>tl_store := (tl_store l)(fst z \<mapsto> t\<lparr>tm_expire := ex\<rparr>)\<rparr>)
           (xs @ en_of (fst z) (t\<lparr>tm_expire := ex\<rparr>) # ys)"
proof -
  have d: "fst z \<notin> fst ` set xs" "fst z \<notin> fst ` set ys" using rep by (auto simp: timers_rep_def)
  with rep t show ?thesis by (auto simp: timers_rep_def dlseg_split)
qed

lemma timer_call_new:
  assumes "timers_sim l xs" and "k \<notin> fst ` set xs" and "length xs \<le> n"
  shows "\<exists>l'. timer_call n (TNew k ex cb d) (l, e) = Some (Inr (l', e)) \<and> timers_sim l' (spec_add (k, ex, cb d) xs)"
proof -
  let ?t = "new_timer ex cb d" and ?l = "l\<lparr>tl_store := (tl_store l)(k \<mapsto> new_timer ex cb d)\<rparr>"
  have t: "tm_prev ?t = None" "tm_next ?t = None" "en_of k ?t = (k, ex, cb d)"
    by (simp_all add: new_timer_def en_of_def)
  have "timers_rep ?l xs" using assms by (simp add: timers_sim_def timers_rep_def)
  from add_timer_rep [OF this assms(2) _ t(1,2) assms(3)] t(3) obtain l' where
    "add_timer n (Some k) ?l = Some (Inr l')" "timers_rep l' (spec_add (k, ex, cb d) xs)"
    "dom (tl_store l') = dom (tl_store ?l)" by auto
  then show ?thesis using assms(1) by (auto simp: timers_sim_def sorted_spec_add set_spec_add)
qed

lemma timer_call_adjust:
  assumes sim: "timers_sim l (xs @ z # ys)" and later: "en_expire z \<le> ex" and n: "length ys \<le> n"
  shows "\<exists>l'. timer_call n (TAdjust (fst z) ex) (l, e) = Some (Inr (l', e)) \<and>
              timers_sim l' (spec_add (fst z, ex, snd (snd z)) (xs @ ys))"
proof -
  let ?z = "(fst z, ex, snd (snd z))"
  from sim have rep: "timers_rep l (xs @ z # ys)" and sorted: "sorted (map en_expire (xs @ z # ys))"
    and own: "dom (tl_store l) = fst ` set (xs @ z # ys)" by (auto simp: timers_sim_def)
  obtain t where t: "tl_store l (fst z) = Some t" "z = en_of (fst z) t" using timers_rep_node [OF rep] .
  have z: "en_of (fst z) (t\<lparr>tm_expire := ex\<rparr>) = ?z" using t(2) by (cases z) (simp add: en_of_def)
  let ?l = "l\<lparr>tl_store := (tl_store l)(fst z \<mapsto> t\<lparr>tm_expire := ex\<rparr>)\<rparr>"
  have "timers_rep ?l (xs @ ?z # ys)" using timers_rep_set_expire [OF rep t(1)] z by metis
  from adjust_timer_rep [OF this n] obtain l' where l': "adjust_timer n (Some (fst z)) ?l = Some (Inr l')"
    "timers_rep l' (xs @ spec_add ?z ys)" "dom (tl_store l') = dom (tl_store ?l)" by auto
  have "\<forall>x \<in> set xs. en_expire x \<le> en_expire ?z" using sorted later by (auto simp: sorted_append)
  then have "spec_add ?z (xs @ ys) = xs @ spec_add ?z ys" by (rule spec_add_append)
  moreover have "sorted (map en_expire (xs @ ys))" using sorted by (auto simp: sorted_append)
  ultimately have "timers_sim l' (spec_add ?z (xs @ ys))"
    using l' own t(1) sorted_spec_add [of "xs @ ys" ?z] by (auto simp: timers_sim_def set_spec_add)
  with l' t(1) show ?thesis by auto
qed

lemma timer_call_del:
  assumes sim: "timers_sim l (xs @ z # ys)"
  shows "\<exists>l'. timer_call n (TDel (fst z)) (l, e) = Some (Inr (l', e)) \<and> timers_sim l' (xs @ ys)"
proof -
  from sim have rep: "timers_rep l (xs @ z # ys)" and d: "fst z \<notin> fst ` set xs" "fst z \<notin> fst ` set ys"
    and own: "dom (tl_store l) = fst ` set (xs @ z # ys)" and sorted: "sorted (map en_expire (xs @ z # ys))"
    by (auto simp: timers_sim_def timers_rep_def)
  obtain l' where l': "del_timer (Some (fst z)) l = Inr l'" "timers_rep l' (xs @ ys)"
    "dom (tl_store l') = dom (tl_store l) - {fst z}" using del_timer_rep [OF rep] by blast
  have "dom (tl_store l') = fst ` set (xs @ ys)"
    using l'(3) own d by (simp add: image_Un)
  with l' sorted show ?thesis by (simp add: timers_sim_def sorted_append)
qed

lemma timer_call_tick:
  assumes "timers_sim l xs" and "length xs < n"
  shows "\<exists>l'. timer_call n (TTick cur) (l, e) = Some (Inr (l', snd (spec_call (TTick cur) (xs, e)))) \<and>
              timers_sim l' (fst (spec_call (TTick cur) (xs, e)))"
proof -
  let ?P = "\<lambda>y. en_expire y \<le> cur"
  from assms have rep: "timers_rep l xs" by (simp add: timers_sim_def)
  have "distinct (map fst (takeWhile ?P xs @ dropWhile ?P xs))"
    using rep unfolding takeWhile_dropWhile_id by (simp add: timers_rep_def)
  then have "fst ` set xs - fst ` set (takeWhile ?P xs) = fst ` set (dropWhile ?P xs)"
    by (subst (1) takeWhile_dropWhile_id [symmetric, of xs ?P]) (auto simp del: takeWhile_dropWhile_id)
  moreover have "sorted (map en_expire (dropWhile ?P xs))"
    using assms(1) by (metis timers_sim_def sorted_append map_append takeWhile_dropWhile_id)
  ultimately show ?thesis
    using lst_tick_rep [OF rep assms(2), of cur e] assms(1) by (auto simp: timers_sim_def)
qed

lemma timer_call_refines:
  assumes sim: "timers_sim l xs" and ok: "timer_op_ok op xs" and n: "length xs < n"
  shows "\<exists>l'. timer_call n op (l, e) = Some (Inr (l', snd (spec_call op (xs, e)))) \<and>
              timers_sim l' (fst (spec_call op (xs, e)))"
proof (cases op)
  case (TNew k ex cb d)
  with assms timer_call_new [of l xs k n ex cb d e] show ?thesis by simp
next
  case (TAdjust k ex)
  with ok obtain z where z: "z \<in> set xs" "fst z = k" "en_expire z \<le> ex" by (auto simp: list_ex_iff)
  then obtain us vs where xs: "xs = us @ z # vs" by (auto dest: split_list)
  have d: "distinct (map fst (us @ z # vs))" using sim xs by (simp add: timers_sim_def timers_rep_def)
  from filter_entry [OF d] z xs
  have "spec_call op (xs, e) = (spec_add (k, ex, snd (snd z)) (us @ vs), e)" by (simp add: TAdjust)
  with timer_call_adjust [of l us z vs ex n e] sim n z xs TAdjust show ?thesis by simp
next
  case (TDel k)
  with ok obtain z where z: "z \<in> set xs" "fst z = k" by auto
  then obtain us vs where xs: "xs = us @ z # vs" by (auto dest: split_list)
  have d: "distinct (map fst (us @ z # vs))" using sim xs by (simp add: timers_sim_def timers_rep_def)
  from filter_entry [OF d] z xs TDel have "spec_call op (xs, e) = (us @ vs, e)" by simp
  with timer_call_del [of l us z vs n e] sim z xs TDel show ?thesis by simp
next
  case (TTick cur)
  with timer_call_tick [OF sim n] show ?thesis by simp
qed

lemma length_spec_call: "length (fst (spec_call op s)) \<le> Suc (length (fst s))"
proof (cases s)
  case (Pair xs e)
  have [simp]: "length (spec_add z ys) = Suc (length ys)" for z ys
    by (induction ys) (auto simp: spec_add_simps)
  have "length (dropWhile P xs) \<le> Suc (length xs)" for P :: "tentry \<Rightarrow> bool"
    using length_dropWhile_le [of P xs] by simp
  moreover have "length (filter P xs) \<le> Suc (length xs)" for P :: "tentry \<Rightarrow> bool"
    by (rule le_SucI) (rule length_filter_le)
  ultimately show ?thesis using Pair by (cases op) (auto split: option.splits)
qed

lemma timer_calls_refine:
  "timers_sim l xs \<Longrightarrow> timer_ops_ok ops (xs, e) \<Longrightarrow> length xs + length ops < n \<Longrightarrow>
   \<exists>l'. timer_calls n ops (l, e) = Some (Inr (l', snd (spec_calls ops (xs, e)))) \<and>
        timers_sim l' (fst (spec_calls ops (xs, e)))"
proof (induction ops arbitrary: l xs e)
  case (Cons op ops)
  obtain ys f where s: "spec_call op (xs, e) = (ys, f)" by (rule prod.exhaust)
  from timer_call_refines [of l xs op n e] Cons.prems s obtain l' where
    l': "timer_call n op (l, e) = Some (Inr (l', f))" "timers_sim l' ys" by auto
  have "length ys \<le> Suc (length xs)" using length_spec_call [of op "(xs, e)"] s by simp
  with Cons.IH [OF l'(2), of f] Cons.prems s l'(1) show ?case by auto
qed simp

subsection \<open>Properties\<close>

text \<open>
  Property C14. The list of linked timers implements a list ordered by expiry: after any
  history of calls, with timers adjusted to later times only, every call has returned without
  reading or writing through a null or a dangling pointer; the links form, in both
  directions, the ordered list that the specification computes; the callbacks that have run
  are those of the due timers in their order; and the objects that are allocated are exactly
  those in the list.
\<close>

theorem timer_list_refines:
  assumes "timer_ops_ok ops ([], e)" and "length ops < n"
  shows "\<exists>l. timer_calls n ops (sort_timer_lst_init Map.empty, e) = Some (Inr (l, snd (spec_calls ops ([], e)))) \<and>
             timers_rep l (fst (spec_calls ops ([], e))) \<and>
             sorted (map en_expire (fst (spec_calls ops ([], e)))) \<and>
             dom (tl_store l) = fst ` set (fst (spec_calls ops ([], e)))"
proof -
  have "timers_sim (sort_timer_lst_init Map.empty) []"
    by (simp add: timers_sim_def timers_rep_def sort_timer_lst_init_def)
  from timer_calls_refine [OF this assms(1), of n] assms(2) show ?thesis
    by (auto simp: timers_sim_def)
qed

definition sample_ops :: "timer_op list" where
  "sample_ops =
     [TNew 1 10 cb_func \<lparr>cd_sockfd = 5, cd_timer = None\<rparr>, TNew 2 20 cb_func \<lparr>cd_sockfd = 6, cd_timer = None\<rparr>,
      TNew 3 5 cb_func \<lparr>cd_sockfd = 7, cd_timer = None\<rparr>, TAdjust 1 30, TTick 20]"

theorem timer_list_refines_witness:
  "timer_ops_ok sample_ops ([], \<lparr>epoll_fds = [5, 6, 7], closed_fds = [], user_count = 3\<rparr>) \<and>
   (\<exists>l. timer_calls 9 sample_ops (sort_timer_lst_init Map.empty, \<lparr>epoll_fds = [5, 6, 7], closed_fds = [], user_count = 3\<rparr>)
          = Some (Inr (l, \<lparr>epoll_fds = [5], closed_fds = [7, 6], user_count = 1\<rparr>)) \<and>
        dom (tl_store l) = {1})"
proof -
  let ?e = "\<lparr>epoll_fds = [5, 6, 7], closed_fds = [], user_count = 3\<rparr>"
  have ok: "timer_ops_ok sample_ops ([], ?e)" by (simp add: sample_ops_def spec_add_simps)
  have "spec_calls sample_ops ([], ?e) =
      ([(1, 30, cb_func \<lparr>cd_sockfd = 5, cd_timer = None\<rparr>)], \<lparr>epoll_fds = [5], closed_fds = [7, 6], user_count = 1\<rparr>)"
    by (simp add: sample_ops_def spec_add_simps cb_func_def)
  with ok timer_list_refines [OF ok, of 9] show ?thesis by (auto simp: sample_ops_def)
qed

text \<open>
  A timer that is moved to an earlier time than its successor stays where it is, however early
  it becomes: the list is no longer ordered, and \<open>tick\<close> does not reach it before the timers
  in front of it are due.
\<close>

lemma adjust_earlier_stays:
  assumes "timers_rep l (xs @ z # y # ys)" and "en_expire z < en_expire y"
  shows "adjust_timer n (Some (fst z)) l = Some (Inr l)"
proof -
  obtain t where t: "tl_store l (fst z) = Some t" "z = en_of (fst z) t" "tm_next t = Some (fst y)"
    using timers_rep_node [OF assms(1)] by (metis ptr_simps(4))
  obtain ty where ty: "tl_store l (fst y) = Some ty" "y = en_of (fst y) ty"
    using timers_rep_node [of l "xs @ [z]" y ys] assms(1) by auto
  have "tm_expire t < tm_expire ty" using assms(2) t(2) ty(2) by (metis fst_en_of(2))
  with t ty show ?thesis by (simp add: adjust_timer_def)
qed

end
