(* ===== verification/Cstring.thy ===== *)
theory Cstring
  imports Prelude
begin

text \<open>
  The part of the C and C++ standard libraries the modelled sources use, in the "C" locale
  (the program never calls \<open>setlocale\<close>): the character classes of \<open><cctype>\<close>, NUL-terminated
  strings and their comparisons, \<open>std::string::find\<close>, \<open>strtol\<close>/\<open>atol\<close> with saturation,
  and the decimal and hexadecimal printing of \<open>std::to_string\<close> and \<open>snprintf\<close>.
  The \<open>0x\<close> prefix that \<open>strtol\<close> takes in base 16 is left out: both callers check
  every character with \<open>isxdigit\<close> first.
\<close>

subsection \<open>Character classes\<close>

definition isspace :: "byte \<Rightarrow> bool" where
  "isspace c \<longleftrightarrow> (of_char c = (32::nat) \<or> 9 \<le> (of_char c :: nat) \<and> of_char c \<le> (13::nat))"

definition isdigit :: "byte \<Rightarrow> bool" where
  "isdigit c \<longleftrightarrow> 48 \<le> (of_char c :: nat) \<and> of_char c \<le> (57::nat)"

definition isupper :: "byte \<Rightarrow> bool" where
  "isupper c \<longleftrightarrow> 65 \<le> (of_char c :: nat) \<and> of_char c \<le> (90::nat)"

definition islower :: "byte \<Rightarrow> bool" where
  "islower c \<longleftrightarrow> 97 \<le> (of_char c :: nat) \<and> of_char c \<le> (122::nat)"

definition isalnum :: "byte \<Rightarrow> bool" where
  "isalnum c \<longleftrightarrow> isdigit c \<or> isupper c \<or> islower c"

definition isxdigit :: "byte \<Rightarrow> bool" where
  "isxdigit c \<longleftrightarrow> isdigit c \<or> 65 \<le> (of_char c :: nat) \<and> of_char c \<le> (70::nat)
     \<or> 97 \<le> (of_char c :: nat) \<and> of_char c \<le> (102::nat)"

definition tolower :: "byte \<Rightarrow> byte" where
  "tolower c = (if isupper c then char_of (of_char c + 32 :: nat) else c)"

definition hex_value :: "byte \<Rightarrow> nat" where
  "hex_value c = (if isdigit c then of_char c - 48
     else if 65 \<le> (of_char c :: nat) \<and> of_char c \<le> (70::nat) then of_char c - 55
     else of_char c - 87)"

lemmas ctype_defs = isspace_def isdigit_def isupper_def islower_def isalnum_def isxdigit_def

lemma of_char_less [simp]: "(of_char (c :: char) :: nat) < 256"
  by (cases c) (simp add: of_char_Char)

lemma char_eq_of_char: "(c :: char) = d \<longleftrightarrow> (of_char c :: nat) = of_char d"
  by simp

lemma hex_value_less: "isxdigit c \<Longrightarrow> hex_value c < 16"
  by (auto simp: hex_value_def ctype_defs)

lemma hex_value_digit_less: "isdigit c \<Longrightarrow> hex_value c < 10"
  by (auto simp: hex_value_def ctype_defs)

lemma isdigit_not_isspace: "isdigit c \<Longrightarrow> \<not> isspace c"
  by (simp add: ctype_defs)

lemma isdigit_isxdigit: "isdigit c \<Longrightarrow> isxdigit c"
  by (simp add: isxdigit_def)

lemma tolower_idem [simp]: "tolower (tolower c) = tolower c"
  by (simp add: tolower_def ctype_defs)

lemma tolower_not_isupper [simp]: "\<not> isupper (tolower c)"
  by (simp add: tolower_def ctype_defs)

lemma tolower_eq_NUL [simp]: "tolower c = NUL \<longleftrightarrow> c = NUL"
  by (auto simp: tolower_def ctype_defs char_eq_of_char)

subsection \<open>NUL-terminated strings\<close>

definition c_str :: "string \<Rightarrow> string" where
  "c_str s = takeWhile (\<lambda>c. c \<noteq> NUL) s"

text \<open>\<open>strcasecmp(a, b) == 0\<close> and \<open>strncasecmp(a, b, n) == 0\<close>.\<close>

definition strcaseeq :: "string \<Rightarrow> string \<Rightarrow> bool" where
  "strcaseeq a b \<longleftrightarrow> map tolower (c_str a) = map tolower (c_str b)"

definition strncaseeq :: "string \<Rightarrow> string \<Rightarrow> nat \<Rightarrow> bool" where
  "strncaseeq a b n \<longleftrightarrow> map tolower (take n (c_str a)) = map tolower (take n (c_str b))"

lemma c_str_id: "NUL \<notin> set s \<Longrightarrow> c_str s = s"
  by (auto simp: c_str_def intro: takeWhile_full)

lemma c_str_no_NUL [simp]: "NUL \<notin> set (c_str s)"
  by (auto simp: c_str_def dest: set_takeWhileD)

lemma c_str_idem [simp]: "c_str (c_str s) = c_str s"
  by (rule c_str_id) simp

lemma c_str_append_NUL: "NUL \<notin> set s \<Longrightarrow> c_str (s @ NUL # t) = s"
  by (auto simp: c_str_def intro: takeWhile_stop)

lemma length_c_str_le: "length (c_str s) \<le> length s"
  by (simp add: c_str_def length_takeWhile_le)

lemma strcaseeq_refl [simp]: "strcaseeq a a"
  by (simp add: strcaseeq_def)

lemma strcaseeq_sym: "strcaseeq a b \<Longrightarrow> strcaseeq b a"
  by (simp add: strcaseeq_def)

lemma strcaseeq_trans: "strcaseeq a b \<Longrightarrow> strcaseeq b c \<Longrightarrow> strcaseeq a c"
  by (simp add: strcaseeq_def)

lemma strcaseeq_map_tolower [simp]: "strcaseeq (map tolower a) a"
proof -
  have "map tolower (c_str (map tolower a)) = map tolower (c_str a)"
    by (induction a) (auto simp: c_str_def)
  then show ?thesis by (simp add: strcaseeq_def)
qed

subsection \<open>\<open>std::string::find\<close>\<close>

fun find_sub :: "string \<Rightarrow> string \<Rightarrow> nat option" where
  "find_sub p [] = (if p = [] then Some 0 else None)"
| "find_sub p (c # t) =
     (if take (length p) (c # t) = p then Some 0 else map_option Suc (find_sub p t))"

text \<open>\<open>text.find(pattern, pos)\<close>; \<open>None\<close> is \<open>npos\<close>.\<close>

definition find_from :: "string \<Rightarrow> string \<Rightarrow> nat \<Rightarrow> nat option" where
  "find_from p t pos = (if pos > length t then None
     else map_option (\<lambda>i. pos + i) (find_sub p (drop pos t)))"

definition find_char :: "byte \<Rightarrow> string \<Rightarrow> nat option" where
  "find_char c t = find_sub [c] t"

text \<open>\<open>text.find_last_of(chars)\<close>\<close>

fun find_last_of :: "string \<Rightarrow> string \<Rightarrow> nat option" where
  "find_last_of cs [] = None"
| "find_last_of cs (c # t) =
     (case find_last_of cs t of
        Some i \<Rightarrow> Some (Suc i)
      | None \<Rightarrow> if c \<in> set cs then Some 0 else None)"

lemma find_sub_Some:
  "find_sub p t = Some i \<Longrightarrow> i + length p \<le> length t \<and> take (length p) (drop i t) = p"
proof (induction t arbitrary: i)
  case Nil
  then show ?case by (auto split: if_splits)
next
  case (Cons c t)
  then show ?case
    by (cases "take (length p) (c # t) = p")
       (auto split: if_splits dest: arg_cong [where f = length])
qed

lemma find_sub_first:
  "find_sub p t = Some i \<Longrightarrow> j < i \<Longrightarrow> take (length p) (drop j t) \<noteq> p"
proof (induction t arbitrary: i j)
  case Nil
  then show ?case by (auto split: if_splits)
next
  case (Cons c t)
  then show ?case by (cases j) (auto split: if_splits)
qed

lemma find_sub_None: "find_sub p t = None \<Longrightarrow> take (length p) (drop i t) \<noteq> p"
proof (induction t arbitrary: i)
  case Nil
  then show ?case by (auto split: if_splits)
next
  case (Cons c t)
  then show ?case by (cases i) (auto split: if_splits)
qed

lemma find_char_Cons: "find_char c (d # t) = (if d = c then Some 0 else map_option Suc (find_char c t))"
  by (simp add: find_char_def)

lemma find_char_Nil [simp]: "find_char c [] = None"
  by (simp add: find_char_def)

lemma find_char_None_iff: "find_char c t = None \<longleftrightarrow> c \<notin> set t"
  by (induction t) (auto simp: find_char_Cons)

lemma find_char_append: "c \<notin> set s \<Longrightarrow> find_char c (s @ c # t) = Some (length s)"
  by (induction s) (auto simp: find_char_Cons)

lemma find_char_Some:
  "find_char c t = Some i \<Longrightarrow> i < length t \<and> t ! i = c \<and> c \<notin> set (take i t)"
proof (induction t arbitrary: i)
  case (Cons d t)
  then show ?case by (auto simp: find_char_Cons split: if_splits)
qed simp

lemma find_last_of_Some:
  "find_last_of cs t = Some i \<Longrightarrow> i < length t \<and> t ! i \<in> set cs \<and> set (drop (Suc i) t) \<inter> set cs = {}"
proof (induction t arbitrary: i)
  case (Cons c t)
  show ?case
  proof (cases "find_last_of cs t")
    case None
    moreover have "set t \<inter> set cs = {}"
      using None by (induction t) (auto split: option.splits if_splits)
    ultimately show ?thesis using Cons.prems by (auto split: if_splits)
  next
    case (Some j)
    then show ?thesis using Cons by auto
  qed
qed simp

lemma find_last_of_None: "find_last_of cs t = None \<longleftrightarrow> set t \<inter> set cs = {}"
  by (induction t) (auto split: option.splits)

subsection \<open>Trimming\<close>

definition trim_spaces :: "string \<Rightarrow> string" where
  "trim_spaces s = rev (dropWhile isspace (rev (dropWhile isspace s)))"

lemma set_trim_spaces: "set (trim_spaces s) \<subseteq> set s"
  unfolding trim_spaces_def by (auto dest!: set_dropWhileD)

lemma length_trim_spaces: "length (trim_spaces s) \<le> length s"
  unfolding trim_spaces_def
  by (metis length_dropWhile_le length_rev order_trans)

lemma trim_spaces_id:
  "s \<noteq> [] \<Longrightarrow> \<not> isspace (hd s) \<Longrightarrow> \<not> isspace (last s) \<Longrightarrow> trim_spaces s = s"
  unfolding trim_spaces_def
  by (metis dropWhile_eq_self_iff hd_rev rev_rev_ident)

lemma hd_dropWhile_not: "dropWhile P xs \<noteq> [] \<Longrightarrow> \<not> P (hd (dropWhile P xs))"
  by (induction xs) (auto split: if_splits)

lemma trim_spaces_hd: "trim_spaces s \<noteq> [] \<Longrightarrow> \<not> isspace (hd (trim_spaces s))"
proof -
  let ?t = "dropWhile isspace s" and ?e = "rev (takeWhile isspace (rev (dropWhile isspace s)))"
  assume ne: "trim_spaces s \<noteq> []"
  have split: "?t = trim_spaces s @ ?e"
    unfolding trim_spaces_def by (metis rev_append rev_rev_ident takeWhile_dropWhile_id)
  with ne have "hd ?t = hd (trim_spaces s)" by (metis hd_append2)
  moreover from split ne have "?t \<noteq> []" by (metis append_is_Nil_conv)
  ultimately show ?thesis using hd_dropWhile_not [of isspace s] by simp
qed

lemma trim_spaces_last: "trim_spaces s \<noteq> [] \<Longrightarrow> \<not> isspace (last (trim_spaces s))"
  unfolding trim_spaces_def by (simp add: last_rev hd_dropWhile_not)

lemma trim_spaces_Nil [simp]: "trim_spaces [] = []"
  by (simp add: trim_spaces_def)

lemma trim_spaces_idem [simp]: "trim_spaces (trim_spaces s) = trim_spaces s"
proof (cases "trim_spaces s = []")
  case False
  then show ?thesis by (intro trim_spaces_id trim_spaces_hd trim_spaces_last)
qed simp

subsection \<open>Numbers\<close>

text \<open>
  \<open>digits_value b ds\<close> is the value of a digit string; \<open>strtol10\<close> is \<open>strtol(s, &end, 10)\<close>:
  the saturated value and the rest \<open>end\<close> points to (\<open>end == s\<close> when there is no digit).
\<close>

definition digits_value :: "nat \<Rightarrow> string \<Rightarrow> nat" where
  "digits_value b ds = foldl (\<lambda>a c. a * b + hex_value c) 0 ds"

definition strtol10 :: "string \<Rightarrow> int \<times> string" where
  "strtol10 s =
     (let t = dropWhile isspace s;
          neg = (t \<noteq> [] \<and> hd t = CHR ''-'');
          u = (if t \<noteq> [] \<and> (hd t = CHR ''-'' \<or> hd t = CHR ''+'') then tl t else t);
          ds = takeWhile isdigit u
      in if ds = [] then (0, s)
         else (saturate_long (if neg then - int (digits_value 10 ds) else int (digits_value 10 ds)),
               dropWhile isdigit u))"

definition atol :: "string \<Rightarrow> int" where
  "atol s = fst (strtol10 (c_str s))"

definition strtol16_digits :: "string \<Rightarrow> int" where
  "strtol16_digits ds = saturate_long (int (digits_value 16 ds))"

definition digit_char :: "nat \<Rightarrow> byte" where
  "digit_char d = char_of (48 + d)"

fun nat_to_string :: "nat \<Rightarrow> string" where
  "nat_to_string n =
     (if n < 10 then [digit_char n] else nat_to_string (n div 10) @ [digit_char (n mod 10)])"

declare nat_to_string.simps [simp del]

text \<open>\<open>std::to_string\<close> and the \<open>%d\<close>/\<open>%ld\<close> conversions.\<close>

definition int_to_string :: "int \<Rightarrow> string" where
  "int_to_string i =
     (if i < 0 then CHR ''-'' # nat_to_string (nat (- i)) else nat_to_string (nat i))"

text \<open>\<open>"0123456789abcdef"[d]\<close> and \<open>"0123456789ABCDEF"[d]\<close>\<close>

definition hex_lower :: "nat \<Rightarrow> byte" where
  "hex_lower d = (if d < 10 then char_of (48 + d) else char_of (87 + d))"

definition hex_upper :: "nat \<Rightarrow> byte" where
  "hex_upper d = (if d < 10 then char_of (48 + d) else char_of (55 + d))"

lemma of_char_hex_lower [simp]:
  "d < 16 \<Longrightarrow> (of_char (hex_lower d) :: nat) = (if d < 10 then 48 + d else 87 + d)"
  by (simp add: hex_lower_def)

lemma of_char_hex_upper [simp]:
  "d < 16 \<Longrightarrow> (of_char (hex_upper d) :: nat) = (if d < 10 then 48 + d else 55 + d)"
  by (simp add: hex_upper_def)

lemma of_char_digit_char [simp]: "d < 10 \<Longrightarrow> (of_char (digit_char d) :: nat) = 48 + d"
  by (simp add: digit_char_def)

lemma isdigit_digit_char [simp]: "d < 10 \<Longrightarrow> isdigit (digit_char d)"
  by (simp add: isdigit_def)

lemma hex_value_digit_char [simp]: "d < 10 \<Longrightarrow> hex_value (digit_char d) = d"
  by (simp add: hex_value_def isdigit_def)

lemma isxdigit_hex_lower [simp]: "d < 16 \<Longrightarrow> isxdigit (hex_lower d)"
  by (simp add: ctype_defs)

lemma hex_value_hex_lower [simp]: "d < 16 \<Longrightarrow> hex_value (hex_lower d) = d"
  by (simp add: hex_value_def ctype_defs)

lemma isxdigit_hex_upper [simp]: "d < 16 \<Longrightarrow> isxdigit (hex_upper d)"
  by (simp add: ctype_defs)

lemma hex_value_hex_upper [simp]: "d < 16 \<Longrightarrow> hex_value (hex_upper d) = d"
  by (simp add: hex_value_def ctype_defs)

lemma digits_value_snoc [simp]: "digits_value b (ds @ [c]) = digits_value b ds * b + hex_value c"
  by (simp add: digits_value_def)

lemma digits_value_Nil [simp]: "digits_value b [] = 0"
  by (simp add: digits_value_def)

lemma digits_value_single: "digits_value b [c] = hex_value c"
  by (simp add: digits_value_def)

lemma nat_to_string_not_Nil [simp]: "nat_to_string n \<noteq> []"
  by (subst nat_to_string.simps) simp

lemma nat_to_string_isdigit: "c \<in> set (nat_to_string n) \<Longrightarrow> isdigit c"
proof (induction n rule: nat_to_string.induct)
  case (1 n)
  then show ?case by (subst (asm) (2) nat_to_string.simps) (auto split: if_splits)
qed

lemma digits_value_nat_to_string [simp]: "digits_value 10 (nat_to_string n) = n"
proof (induction n rule: nat_to_string.induct)
  case (1 n)
  then show ?case
    by (cases "n < 10") (simp_all add: nat_to_string.simps [of n] digits_value_single)
qed

lemma strtol10_nat_to_string:
  assumes "int n \<le> LONG_MAX" and "rest = [] \<or> \<not> isdigit (hd rest)"
  shows "strtol10 (nat_to_string n @ rest) = (int n, rest)"
proof -
  obtain c cs where cs: "nat_to_string n = c # cs" by (cases "nat_to_string n") auto
  then have c: "isdigit c" using nat_to_string_isdigit [of c n] by simp
  have sp: "\<not> isspace c" and nm: "c \<noteq> CHR ''-''" "c \<noteq> CHR ''+''"
    using c by (auto simp: ctype_defs)
  have tw: "takeWhile isdigit (nat_to_string n @ rest) = nat_to_string n"
    and dw: "dropWhile isdigit (nat_to_string n @ rest) = rest"
    using assms(2) nat_to_string_isdigit by (cases rest; auto simp: takeWhile_stop dropWhile_stop)+
  have "saturate_long (int n) = int n"
    by (rule saturate_long_id) (use assms in \<open>simp add: long_ok_def LONG_MIN_def\<close>)
  moreover have "dropWhile isspace (nat_to_string n @ rest) = nat_to_string n @ rest"
    using sp cs by simp
  moreover have "hd (nat_to_string n @ rest) = c" using cs by simp
  ultimately show ?thesis
    using tw dw nm by (simp add: strtol10_def Let_def)
qed

end
