(* ===== verification/Ring_Buffer.thy ===== *)
theory Ring_Buffer
  imports Cstring
begin

text \<open>
  The byte buffers of a connection: \<open>struct ring_buffer\<close> (src/http/core/ring_buffer.h) and the
  operations of src/http/core/io.cpp on it. A ring lives in a \<open>std::vector<char>\<close>; the field
  \<open>rb_buffer\<close> is that vector. The record \<open>conn_io\<close> holds the buffer fields of
  \<open>HttpConnection\<close>; \<open>m_read_alloc\<close> numbers the allocations of \<open>m_read_buf\<close>, so that a pointer
  into it can be recognised as stale after a reallocation.

  Indices are natural numbers: they stay below twice the capacity, which is at most 4 MiB for
  the read side. The write side doubles without a limit and reports the signed overflow of
  \<open>new_capacity *= 2\<close>. The socket and TLS calls are parameters.

  The rings are shown to be byte queues: \<open>ring_list\<close> is the queue a ring stands for, and every
  operation keeps \<open>ring_ok\<close> and acts on \<open>ring_list\<close> as append, take and drop do.
\<close>

subsection \<open>The ring\<close>

record ring_buffer =
  rb_buffer :: "byte list"
  rb_capacity :: nat
  rb_head :: nat
  rb_tail :: nat
  rb_size :: nat

definition READ_BUFFER_INITIAL_SIZE :: nat where "READ_BUFFER_INITIAL_SIZE = 16384"
definition READ_BUFFER_MAX_SIZE :: nat where "READ_BUFFER_MAX_SIZE = 2 * 1024 * 1024"
definition WRITE_BUFFER_INITIAL_SIZE :: nat where "WRITE_BUFFER_INITIAL_SIZE = 8192"
definition INT_MAX :: int where "INT_MAX = 2147483647"

definition reset_ring_buffer :: "byte list \<Rightarrow> nat \<Rightarrow> ring_buffer" where
  "reset_ring_buffer storage cap =
     \<lparr>rb_buffer = storage, rb_capacity = cap, rb_head = 0, rb_tail = 0, rb_size = 0\<rparr>"

definition ring_writable :: "ring_buffer \<Rightarrow> nat" where
  "ring_writable r = rb_capacity r - rb_size r"

text \<open>\<open>None\<close> is the return value \<open>-1\<close>; otherwise all of the data was copied.\<close>

definition ring_append :: "ring_buffer \<Rightarrow> byte list \<Rightarrow> ring_buffer option" where
  "ring_append r d =
     (if length d > ring_writable r then None
      else let first = min (rb_capacity r - rb_tail r) (length d);
               b1 = blit (rb_buffer r) (rb_tail r) (take first d);
               b2 = blit b1 0 (drop first d)
           in Some (r\<lparr>rb_buffer := b2,
                      rb_tail := (rb_tail r + length d) mod rb_capacity r,
                      rb_size := rb_size r + length d\<rparr>))"

text \<open>The bytes \<open>ring_peek\<close> copies to the front of \<open>dest\<close>; its result is their number.\<close>

definition ring_peek :: "ring_buffer \<Rightarrow> nat \<Rightarrow> byte list" where
  "ring_peek r n =
     (let len = min n (rb_size r);
          first = min (rb_capacity r - rb_head r) len
      in take first (drop (rb_head r) (rb_buffer r)) @ take (len - first) (rb_buffer r))"

subsection \<open>The transport\<close>

datatype ssl_error = SSL_ERROR_WANT_READ | SSL_ERROR_WANT_WRITE | SSL_ERROR_ZERO_RETURN
  | SSL_ERROR_OTHER

datatype epoll_event = EPOLLIN | EPOLLOUT

datatype errno_code = EAGAIN | EINTR | EOTHER

text \<open>
  What one call of \<open>recv\<close>/\<open>send\<close> or \<open>SSL_read\<close>/\<open>SSL_write\<close> gives: its return value, the bytes
  a read stored, \<open>errno\<close>, and \<open>SSL_get_error\<close> for that return value. The call itself is a
  function of what the program passes it.
\<close>

record io_ret =
  io_ret :: int
  io_data :: "byte list"
  io_errno :: errno_code
  io_ssl :: ssl_error

type_synonym recv_call = "nat \<Rightarrow> io_ret"
type_synonym send_call = "byte list \<Rightarrow> io_ret"

text \<open>Documented behaviour: a positive result counts the bytes stored, at most the length asked.\<close>

definition recv_ok :: "recv_call \<Rightarrow> bool" where
  "recv_ok f \<longleftrightarrow> (\<forall>n. io_ret (f n) > 0 \<longrightarrow>
     length (io_data (f n)) = nat (io_ret (f n)) \<and> nat (io_ret (f n)) \<le> n)"

definition send_ok :: "send_call \<Rightarrow> bool" where
  "send_ok f \<longleftrightarrow> (\<forall>bs. io_ret (f bs) \<le> int (length bs))"

record transport =
  m_https_enabled :: bool
  m_tls_want_event :: epoll_event
  m_errno :: errno_code

definition tls_want :: "ssl_error \<Rightarrow> transport \<Rightarrow> transport" where
  "tls_want e t = (case e of
      SSL_ERROR_WANT_READ \<Rightarrow> t\<lparr>m_tls_want_event := EPOLLIN, m_errno := EAGAIN\<rparr>
    | SSL_ERROR_WANT_WRITE \<Rightarrow> t\<lparr>m_tls_want_event := EPOLLOUT, m_errno := EAGAIN\<rparr>
    | _ \<Rightarrow> t)"

definition socket_send :: "send_call \<Rightarrow> transport \<Rightarrow> byte list \<Rightarrow> int \<times> transport" where
  "socket_send f t bs =
     (let t' = t\<lparr>m_errno := io_errno (f bs)\<rparr> in
      if \<not> m_https_enabled t then (io_ret (f bs), t')
      else if io_ret (f bs) > 0 then (io_ret (f bs), t')
      else (case io_ssl (f bs) of
              SSL_ERROR_WANT_READ \<Rightarrow> (- 1, tls_want SSL_ERROR_WANT_READ t')
            | SSL_ERROR_WANT_WRITE \<Rightarrow> (- 1, tls_want SSL_ERROR_WANT_WRITE t')
            | SSL_ERROR_ZERO_RETURN \<Rightarrow> (0, t')
            | SSL_ERROR_OTHER \<Rightarrow> (- 1, t')))"

definition wait_event_for_io :: "transport \<Rightarrow> epoll_event \<Rightarrow> epoll_event" where
  "wait_event_for_io t default_event =
     (if m_https_enabled t then m_tls_want_event t else default_event)"

definition ring_recv :: "recv_call \<Rightarrow> transport \<Rightarrow> ring_buffer \<Rightarrow> int \<times> transport \<times> ring_buffer" where
  "ring_recv f t r =
     (if rb_size r \<ge> rb_capacity r then (- 1, t, r)
      else let first = min (rb_capacity r - rb_tail r) (ring_writable r);
               n = io_ret (f first);
               t' = t\<lparr>m_errno := io_errno (f first)\<rparr>;
               received = (n, t', r\<lparr>rb_buffer := blit (rb_buffer r) (rb_tail r) (io_data (f first)),
                                rb_tail := (rb_tail r + nat n) mod rb_capacity r,
                                rb_size := rb_size r + nat n\<rparr>)
           in if m_https_enabled t \<and> n \<le> 0
              then (case io_ssl (f first) of
                      SSL_ERROR_ZERO_RETURN \<Rightarrow> (0, t', r)
                    | e \<Rightarrow> (- 1, tls_want e t', r))
              else if n \<le> 0 then (n, t', r)
              else received)"

definition ring_send :: "send_call \<Rightarrow> transport \<Rightarrow> ring_buffer \<Rightarrow> int \<times> transport \<times> ring_buffer" where
  "ring_send f t r =
     (if rb_size r = 0 then (0, t, r)
      else let first = min (rb_capacity r - rb_head r) (rb_size r);
               (n, t') = socket_send f t (take first (drop (rb_head r) (rb_buffer r)))
           in if n \<le> 0 then (n, t', r)
              else let r' = r\<lparr>rb_head := (rb_head r + nat n) mod rb_capacity r,
                              rb_size := rb_size r - nat n\<rparr>
                   in (n, t', if rb_size r' = 0 then r'\<lparr>rb_head := 0, rb_tail := 0\<rparr> else r'))"

subsection \<open>The queue a ring stands for\<close>

definition ring_ok :: "ring_buffer \<Rightarrow> bool" where
  "ring_ok r \<longleftrightarrow> length (rb_buffer r) = rb_capacity r \<and> 0 < rb_capacity r
     \<and> rb_head r < rb_capacity r \<and> rb_size r \<le> rb_capacity r
     \<and> rb_tail r = (rb_head r + rb_size r) mod rb_capacity r"

definition ring_list :: "ring_buffer \<Rightarrow> byte list" where
  "ring_list r = map (\<lambda>i. rb_buffer r ! ((rb_head r + i) mod rb_capacity r)) [0..<rb_size r]"

lemma length_ring_list [simp]: "length (ring_list r) = rb_size r"
  by (simp add: ring_list_def)

lemma nth_ring_list:
  "i < rb_size r \<Longrightarrow> ring_list r ! i = rb_buffer r ! ((rb_head r + i) mod rb_capacity r)"
  by (simp add: ring_list_def)

lemma mod_wrap: "(a::nat) < 2 * c \<Longrightarrow> a mod c = (if a < c then a else a - c)"
  by (simp add: mod_if)

lemma ring_tail_less: "ring_ok r \<Longrightarrow> rb_tail r < rb_capacity r"
  by (simp add: ring_ok_def)

lemma ring_reset_ok [simp]:
  "length st = cap \<Longrightarrow> 0 < cap \<Longrightarrow> ring_ok (reset_ring_buffer st cap)"
  by (simp add: ring_ok_def reset_ring_buffer_def)

lemma rb_capacity_reset [simp]: "rb_capacity (reset_ring_buffer st cap) = cap"
  by (simp add: reset_ring_buffer_def)

lemma ring_list_reset [simp]: "ring_list (reset_ring_buffer st cap) = []"
  by (simp add: ring_list_def reset_ring_buffer_def)

text \<open>
  Writing a block at the tail: the two \<open>memcpy\<close> calls of \<open>ring_append\<close> put byte \<open>j\<close> of the
  data at \<open>(tail + j) mod capacity\<close> and leave the stored bytes alone.
\<close>

lemma length_two_blits:
  assumes "length b = c" "t < c" "length d \<le> c"
  defines "first \<equiv> min (c - t) (length d)"
  shows "length (blit (blit b t (take first d)) 0 (drop first d)) = c"
proof -
  have "length (blit b t (take first d)) = c"
    using assms by (subst length_blit) (auto simp: first_def)
  then show ?thesis using assms(3) by (subst length_blit) auto
qed

lemma nth_two_blits:
  assumes len: "length b = c" and t: "t < c" and d: "length d \<le> c" and i: "i < c"
  defines "first \<equiv> min (c - t) (length d)"
  shows "blit (blit b t (take first d)) 0 (drop first d) ! i =
           (let j = (i + c - t) mod c in if j < length d then d ! j else b ! i)"
proof -
  have f: "first \<le> length d" "t + first \<le> c" and first: "first = c - t \<or> first = length d"
    unfolding first_def using t by auto
  have wrap: "length d - first \<le> t"
    unfolding first_def using t d by auto
  have j: "(i + c - t) mod c = (if i < t then i + c - t else i - t)"
    using i t by (simp add: mod_if)
  have l1: "length (blit b t (take first d)) = c"
    using len f by simp
  have one: "blit b t (take first d) ! i = (if t \<le> i \<and> i < t + first then d ! (i - t) else b ! i)"
    using nth_blit [of t "take first d" b i] len f i by auto
  have two: "blit (blit b t (take first d)) 0 (drop first d) ! i =
      (if i < length d - first then d ! (first + i) else blit b t (take first d) ! i)"
    using nth_blit [of 0 "drop first d" "blit b t (take first d)" i] l1 f wrap t i by auto
  show ?thesis
  proof (cases "i < t")
    case True
    then have "first + i = i + c - t \<or> length d - first = 0" using first t by auto
    with True show ?thesis unfolding two one j Let_def using first f t i
      by (auto simp: first_def)
  next
    case False
    then show ?thesis unfolding two one j Let_def using first f wrap i t
      by (auto simp: first_def)
  qed
qed

lemma ring_append_ok:
  assumes ok: "ring_ok r" and room: "length d \<le> ring_writable r"
  obtains r' where "ring_append r d = Some r'" "ring_ok r'" "ring_list r' = ring_list r @ d"
    "rb_capacity r' = rb_capacity r"
proof -
  let ?c = "rb_capacity r" and ?h = "rb_head r" and ?n = "rb_size r" and ?t = "rb_tail r"
  let ?first = "min (?c - ?t) (length d)"
  let ?b = "blit (blit (rb_buffer r) ?t (take ?first d)) 0 (drop ?first d)"
  let ?r = "r\<lparr>rb_buffer := ?b, rb_tail := (?t + length d) mod ?c, rb_size := ?n + length d\<rparr>"
  have inv: "length (rb_buffer r) = ?c" "0 < ?c" "?h < ?c" "?n \<le> ?c" "?t = (?h + ?n) mod ?c"
    using ok by (auto simp: ring_ok_def)
  have sz: "?n + length d \<le> ?c" using room inv by (simp add: ring_writable_def)
  have tl: "?t < ?c" using ok by (rule ring_tail_less)
  have lb: "length ?b = ?c"
    using length_two_blits [OF inv(1) tl, of d] sz by simp
  have ok': "ring_ok ?r"
    using inv sz lb by (simp add: ring_ok_def mod_simps ac_simps)
  have "ring_list ?r ! i = (ring_list r @ d) ! i" if i: "i < ?n + length d" for i
  proof -
    let ?p = "(?h + i) mod ?c"
    have p: "?p < ?c" using inv by simp
    have j: "(?p + ?c - ?t) mod ?c = (if i < ?n then i + ?c - ?n else i - ?n)"
      using inv i sz tl by (auto simp: mod_if split: if_splits)
    have "ring_list ?r ! i = ?b ! ?p" using i by (simp add: nth_ring_list)
    also have "\<dots> = (let j = (?p + ?c - ?t) mod ?c in if j < length d then d ! j else rb_buffer r ! ?p)"
      using nth_two_blits [OF inv(1) tl _ p, of d] sz by simp
    also have "\<dots> = (ring_list r @ d) ! i"
      unfolding j Let_def using i sz inv by (auto simp: nth_append nth_ring_list)
    finally show ?thesis .
  qed
  then have "ring_list ?r = ring_list r @ d"
    by (intro nth_equalityI) simp_all
  moreover have "ring_append r d = Some ?r"
    using room by (simp add: ring_append_def Let_def)
  ultimately show thesis using that ok' by simp
qed

lemma ring_append_None_iff: "ring_append r d = None \<longleftrightarrow> ring_writable r < length d"
  by (auto simp: ring_append_def Let_def)

lemma ring_peek_list:
  assumes "ring_ok r"
  shows "ring_peek r n = take n (ring_list r)"
proof (rule nth_equalityI)
  let ?c = "rb_capacity r" and ?h = "rb_head r"
  let ?len = "min n (rb_size r)"
  let ?first = "min (?c - ?h) ?len"
  have inv: "length (rb_buffer r) = ?c" "?h < ?c" "rb_size r \<le> ?c"
    using assms by (auto simp: ring_ok_def)
  show len: "length (ring_peek r n) = length (take n (ring_list r))"
    using inv by (auto simp: ring_peek_def Let_def)
  fix i assume "i < length (ring_peek r n)"
  then have i: "i < n" "i < rb_size r" using len by simp_all
  have "(?h + i) mod ?c = (if i < ?c - ?h then ?h + i else i - (?c - ?h))"
    using inv i by (auto simp: mod_if)
  then show "ring_peek r n ! i = take n (ring_list r) ! i"
    using inv i by (auto simp: ring_peek_def Let_def nth_append nth_ring_list min_def)
qed

lemma ring_advance:
  assumes "ring_ok r" and "n \<le> rb_size r"
  defines "r' \<equiv> r\<lparr>rb_head := (rb_head r + n) mod rb_capacity r, rb_size := rb_size r - n\<rparr>"
  shows "ring_ok r'" and "ring_list r' = drop n (ring_list r)"
proof -
  have "((rb_head r + n) mod rb_capacity r + (rb_size r - n)) mod rb_capacity r
        = (rb_head r + n + (rb_size r - n)) mod rb_capacity r"
    by (rule mod_add_left_eq)
  also have "\<dots> = rb_tail r" using assms(1,2) by (simp add: ring_ok_def)
  finally have "((rb_head r + n) mod rb_capacity r + (rb_size r - n)) mod rb_capacity r = rb_tail r" .
  then show "ring_ok r'"
    using assms(1,2) unfolding r'_def ring_ok_def by auto
  show "ring_list r' = drop n (ring_list r)"
    using assms(2) unfolding r'_def
    by (intro nth_equalityI) (simp_all add: nth_ring_list mod_simps ac_simps)
qed

lemma ring_emptied:
  assumes "ring_ok r" "rb_size r = 0"
  shows "ring_ok (r\<lparr>rb_head := 0, rb_tail := 0\<rparr>)" "ring_list (r\<lparr>rb_head := 0, rb_tail := 0\<rparr>) = []"
  using assms by (simp_all add: ring_ok_def ring_list_def)

lemma ring_front_segment:
  assumes "ring_ok r"
  shows "take (min (rb_capacity r - rb_head r) (rb_size r)) (drop (rb_head r) (rb_buffer r))
         = take (rb_capacity r - rb_head r) (ring_list r)"
proof (rule nth_equalityI)
  show "length (take (min (rb_capacity r - rb_head r) (rb_size r)) (drop (rb_head r) (rb_buffer r)))
        = length (take (rb_capacity r - rb_head r) (ring_list r))"
    using assms by (auto simp: ring_ok_def)
qed (use assms in \<open>auto simp: ring_ok_def nth_ring_list\<close>)

lemma socket_send_le: "send_ok f \<Longrightarrow> fst (socket_send f t bs) \<le> int (length bs)"
  by (auto simp: socket_send_def send_ok_def Let_def split: ssl_error.splits)

lemma ring_send_list:
  assumes ok: "ring_ok r" and f: "send_ok f" and send: "ring_send f t r = (n, t', r')"
  shows "ring_ok r'" and "n \<le> int (rb_size r)" and "ring_list r' = drop (nat n) (ring_list r)"
    and "rb_capacity r' = rb_capacity r"
proof -
  let ?seg = "take (min (rb_capacity r - rb_head r) (rb_size r)) (drop (rb_head r) (rb_buffer r))"
  let ?r = "r\<lparr>rb_head := (rb_head r + nat n) mod rb_capacity r, rb_size := rb_size r - nat n\<rparr>"
  have seg: "length ?seg \<le> rb_size r" by simp
  have "ring_ok r' \<and> n \<le> int (rb_size r) \<and> ring_list r' = drop (nat n) (ring_list r)
        \<and> rb_capacity r' = rb_capacity r"
  proof (cases "rb_size r = 0 \<or> n \<le> 0")
    case True
    then have "r' = r \<and> n \<le> 0"
      using send by (auto simp: ring_send_def Let_def split: prod.splits if_splits)
    then show ?thesis using ok by simp
  next
    case False
    then have n: "n = fst (socket_send f t ?seg)"
      and r': "r' = (if rb_size ?r = 0 then ?r\<lparr>rb_head := 0, rb_tail := 0\<rparr> else ?r)"
      using send by (auto simp: ring_send_def Let_def split: prod.splits if_splits)
    have le: "n \<le> int (rb_size r)"
      using socket_send_le [OF f, of t ?seg] seg unfolding n by linarith
    then have adv: "ring_ok ?r" "ring_list ?r = drop (nat n) (ring_list r)"
      using ring_advance [OF ok, of "nat n"] by auto
    show ?thesis
    proof (cases "rb_size ?r = 0")
      case True
      then have "drop (nat n) (ring_list r) = []" using le False by simp
      with True show ?thesis using ring_emptied [OF adv(1) True] r' le by simp
    qed (use adv r' le in simp)
  qed
  then show "ring_ok r'" "n \<le> int (rb_size r)" "ring_list r' = drop (nat n) (ring_list r)"
    "rb_capacity r' = rb_capacity r" by auto
qed

lemma ring_recv_list:
  assumes ok: "ring_ok r" and f: "recv_ok f" and recv: "ring_recv f t r = (n, t', r')"
  obtains d where "ring_ok r'" "ring_list r' = ring_list r @ d" "length d = nat n"
    "length d \<le> ring_writable r" "rb_capacity r' = rb_capacity r"
proof (cases "n \<le> 0")
  case True
  then have "r' = r"
    using recv by (auto simp: ring_recv_def Let_def split: ssl_error.splits if_splits)
  then show thesis using that [of "[]"] ok True by simp
next
  case False
  let ?first = "min (rb_capacity r - rb_tail r) (ring_writable r)"
  let ?d = "io_data (f ?first)"
  have n: "n = io_ret (f ?first)" and r': "r' = r\<lparr>rb_buffer := blit (rb_buffer r) (rb_tail r) ?d,
      rb_tail := (rb_tail r + nat n) mod rb_capacity r, rb_size := rb_size r + nat n\<rparr>"
    using recv False by (auto simp: ring_recv_def Let_def split: ssl_error.splits if_splits)
  have len: "length ?d = nat n" "nat n \<le> ?first"
    using f False unfolding n recv_ok_def by (metis not_le)+
  have "ring_append r ?d = Some r'"
    using len r' by (auto simp: ring_append_def Let_def)
  moreover have room: "length ?d \<le> ring_writable r" using len by simp
  ultimately show thesis
    using that [of ?d] ring_append_ok [OF ok room] len by (metis option.inject)
qed

subsection \<open>The interface of a byte queue\<close>

text \<open>
  What the response writer and the request reader rely on: a queue of bytes with a bounded
  room, to which whole blocks are appended and from which a prefix is consumed. In any
  sequence of such steps the bytes that left the queue followed by the bytes still in it are
  the initial contents followed by the accepted blocks, in order.
\<close>

locale byte_queue =
  fixes inv :: "'q \<Rightarrow> bool"
    and contents :: "'q \<Rightarrow> byte list"
    and room :: "'q \<Rightarrow> nat"
    and put :: "'q \<Rightarrow> byte list \<Rightarrow> 'q option"
    and took :: "'q \<Rightarrow> nat \<Rightarrow> 'q \<Rightarrow> bool"
  assumes put_Some: "inv q \<Longrightarrow> put q d = Some q' \<Longrightarrow>
      inv q' \<and> contents q' = contents q @ d \<and> room q' + length d = room q"
    and put_None: "inv q \<Longrightarrow> put q d = None \<longleftrightarrow> room q < length d"
    and took: "inv q \<Longrightarrow> took q n q' \<Longrightarrow>
      inv q' \<and> n \<le> length (contents q) \<and> contents q' = drop n (contents q)"
begin

text \<open>
  \<open>history q sent acc q'\<close>: from \<open>q\<close>, some interleaving of accepted blocks (their
  concatenation is \<open>acc\<close>) and consumed prefixes (their concatenation is \<open>sent\<close>) leads to \<open>q'\<close>.
\<close>

inductive history :: "'q \<Rightarrow> byte list \<Rightarrow> byte list \<Rightarrow> 'q \<Rightarrow> bool" where
  history_start: "history q [] [] q"
| history_put: "history q out acc q' \<Longrightarrow> put q' d = Some q'' \<Longrightarrow> history q out (acc @ d) q''"
| history_take: "history q out acc q' \<Longrightarrow> took q' n q'' \<Longrightarrow>
    history q (out @ take n (contents q')) acc q''"

lemma history_inv: "history q out acc q' \<Longrightarrow> inv q \<Longrightarrow> inv q'"
  by (induction rule: history.induct) (use put_Some took in blast)+

lemma history_conserves:
  "history q out acc q' \<Longrightarrow> inv q \<Longrightarrow> out @ contents q' = contents q @ acc"
proof (induction rule: history.induct)
  case (history_put q out acc q' d q'')
  then show ?case using put_Some [OF history_inv] by fastforce
next
  case (history_take q out acc q' n q'')
  have "contents q'' = drop n (contents q')"
    using took [OF history_inv [OF history_take.hyps(1) history_take.prems] history_take.hyps(2)] by simp
  then show ?case using history_take by simp
qed simp

lemma put_put_append:
  assumes "inv q" "put q d = Some q'" "put q' e = Some q''"
  shows "contents q'' = contents q @ d @ e"
  using put_Some [OF assms(1,2)] put_Some [of q' e q''] assms(3) by simp

end

definition ring_took :: "ring_buffer \<Rightarrow> nat \<Rightarrow> ring_buffer \<Rightarrow> bool" where
  "ring_took r n r' \<longleftrightarrow> (\<exists>f t k t'. send_ok f \<and> ring_send f t r = (k, t', r') \<and> n = nat k)"

interpretation ring: byte_queue ring_ok ring_list ring_writable ring_append ring_took
proof
  fix q q' :: ring_buffer and d n
  show "ring_ok q' \<and> ring_list q' = ring_list q @ d \<and> ring_writable q' + length d = ring_writable q"
    if ok: "ring_ok q" and put: "ring_append q d = Some q'"
  proof -
    have le: "length d \<le> ring_writable q" using put ring_append_None_iff [of q d] by force
    then obtain "ring_ok q'" "ring_list q' = ring_list q @ d" "rb_capacity q' = rb_capacity q"
      using ring_append_ok [OF ok le] put by (metis option.inject)
    moreover from this have "rb_size q' = rb_size q + length d" by (metis length_append length_ring_list)
    ultimately show ?thesis using le by (simp add: ring_writable_def)
  qed
  show "ring_append q d = None \<longleftrightarrow> ring_writable q < length d"
    by (rule ring_append_None_iff)
  show "ring_ok q' \<and> n \<le> length (ring_list q) \<and> ring_list q' = drop n (ring_list q)"
    if ok: "ring_ok q" and took: "ring_took q n q'"
  proof -
    obtain f t k t' where f: "send_ok f" and s: "ring_send f t q = (k, t', q')" and n: "n = nat k"
      using took by (auto simp: ring_took_def)
    show ?thesis unfolding n using ring_send_list [OF ok f s] by simp
  qed
qed

subsection \<open>The buffers of a connection\<close>

record conn_io =
  m_read_ring :: ring_buffer
  m_read_buf :: "byte list"
  m_read_alloc :: nat
  m_read_idx :: nat
  m_checked_idx :: nat
  m_body_start_idx :: nat
  m_start_line :: nat
  m_write_ring :: ring_buffer
  m_write_buf :: "byte list"
  m_write_idx :: nat
  m_file_send_buf :: "byte list"
  m_has_new_data :: bool
  m_tls :: transport

text \<open>
  The growth loop of \<open>ensure_read_capacity\<close>. A loop on a capacity of 0 would not end; the
  capacity of a vector that is not empty is positive, which is the first conjunct of the guard.
\<close>

function read_growth :: "nat \<Rightarrow> nat \<Rightarrow> nat option" where
  "read_growth cap req =
     (if 0 < cap \<and> cap < req then
        (let cap' = min (cap * 2) READ_BUFFER_MAX_SIZE in
         if cap' < req \<and> cap' = READ_BUFFER_MAX_SIZE then None else read_growth cap' req)
      else Some cap)"
  by pat_completeness auto
termination
  by (relation "measure (\<lambda>(cap, req). req - cap)")
     (auto simp: Let_def min_def READ_BUFFER_MAX_SIZE_def split: if_splits)

declare read_growth.simps [simp del]

definition ensure_read_capacity :: "int \<Rightarrow> 'a conn_io_scheme \<Rightarrow> bool \<times> 'a conn_io_scheme" where
  "ensure_read_capacity required s =
     (let req = (if required \<le> 0 then READ_BUFFER_INITIAL_SIZE else nat required);
          ring = m_read_ring s;
          cap = length (rb_buffer ring)
      in if req > READ_BUFFER_MAX_SIZE then (False, s)
         else if cap \<ge> req \<and> length (m_read_buf s) \<ge> req + 1 then (True, s)
         else case read_growth (if cap = 0 then READ_BUFFER_INITIAL_SIZE else cap) req of
                None \<Rightarrow> (False, s)
              | Some new_cap \<Rightarrow>
                  let old_size = rb_size ring;
                      new_buf = blit (replicate new_cap NUL) 0 (ring_peek ring old_size);
                      ring' = (reset_ring_buffer new_buf new_cap)\<lparr>rb_size := old_size, rb_tail := old_size\<rparr>
                  in (True, s\<lparr>m_read_ring := ring',
                              m_read_buf := blit (replicate (new_cap + 1) NUL) 0 (take old_size new_buf),
                              m_read_alloc := m_read_alloc s + 1\<rparr>))"

text \<open>The growth loop of \<open>ensure_write_capacity\<close> has no limit; \<open>new_capacity\<close> is an \<open>int\<close>.\<close>

function write_growth :: "nat \<Rightarrow> nat \<Rightarrow> nat cxx" where
  "write_growth cap req =
     (if 0 < cap \<and> cap < req then
        (if int (cap * 2) > INT_MAX then Inl SignedOverflow else write_growth (cap * 2) req)
      else Inr cap)"
  by pat_completeness auto
termination
  by (relation "measure (\<lambda>(cap, req). req - cap)") auto

declare write_growth.simps [simp del]

definition ensure_write_capacity :: "int \<Rightarrow> 'a conn_io_scheme \<Rightarrow> (bool \<times> 'a conn_io_scheme) cxx" where
  "ensure_write_capacity required s =
     (let req = (if required \<le> 0 then WRITE_BUFFER_INITIAL_SIZE else nat required);
          ring = m_write_ring s;
          cap = length (rb_buffer ring)
      in if cap \<ge> req \<and> length (m_write_buf s) \<ge> req + 1 then Inr (True, s)
         else case write_growth (if cap = 0 then WRITE_BUFFER_INITIAL_SIZE else cap) req of
                Inl u \<Rightarrow> Inl u
              | Inr new_cap \<Rightarrow>
                  let old_size = rb_size ring;
                      new_buf = blit (replicate new_cap NUL) 0 (ring_peek ring old_size);
                      ring' = (reset_ring_buffer new_buf new_cap)\<lparr>rb_size := old_size, rb_tail := old_size\<rparr>
                  in Inr (True, s\<lparr>m_write_ring := ring',
                        m_write_buf := blit (replicate (new_cap + 1) NUL) 0 (take old_size new_buf),
                        m_file_send_buf := (if length (m_file_send_buf s) < new_cap
                                            then replicate new_cap NUL else m_file_send_buf s)\<rparr>))"

definition sync_read_buffer :: "'a conn_io_scheme \<Rightarrow> 'a conn_io_scheme" where
  "sync_read_buffer s =
     (let n = rb_size (m_read_ring s);
          grow = length (m_read_buf s) < n + 1;
          buf = (if grow then replicate (n + 1) NUL else m_read_buf s);
          buf' = blit buf 0 (ring_peek (m_read_ring s) n)
      in s\<lparr>m_read_buf := buf'[n := NUL],
           m_read_alloc := (if grow then m_read_alloc s + 1 else m_read_alloc s),
           m_read_idx := n\<rparr>)"

definition compact_read_buffer_prefix :: "int \<Rightarrow> 'a conn_io_scheme \<Rightarrow> 'a conn_io_scheme" where
  "compact_read_buffer_prefix consumed s =
     (if consumed \<le> 0 then s
      else let k = min (nat consumed) (rb_size (m_read_ring s));
               s1 = sync_read_buffer s;
               remaining = m_read_idx s1 - k;
               buf = (blit (m_read_buf s1) 0 (take remaining (drop k (m_read_buf s1))))[remaining := NUL];
               ring0 = reset_ring_buffer (rb_buffer (m_read_ring s1)) (length (rb_buffer (m_read_ring s1)));
               ring1 = (if remaining > 0
                        then case ring_append ring0 (take remaining buf) of Some r \<Rightarrow> r | None \<Rightarrow> ring0
                        else ring0)
           in s1\<lparr>m_read_ring := ring1, m_read_buf := buf, m_read_idx := remaining,
                 m_checked_idx := 0, m_body_start_idx := 0, m_start_line := 0\<rparr>)"

subsection \<open>What the buffer operations of a connection do\<close>

lemma read_growth_bounds:
  "read_growth cap req = Some c \<Longrightarrow> 0 < cap \<Longrightarrow> cap \<le> READ_BUFFER_MAX_SIZE \<Longrightarrow>
     req \<le> c \<and> cap \<le> c \<and> c \<le> READ_BUFFER_MAX_SIZE"
proof (induction cap req rule: read_growth.induct)
  case (1 cap req)
  let ?cap' = "min (cap * 2) READ_BUFFER_MAX_SIZE"
  show ?case
  proof (cases "cap < req")
    case True
    then have step: "read_growth ?cap' req = Some c"
      and *: "\<not> (?cap' < req \<and> ?cap' = READ_BUFFER_MAX_SIZE)"
      using 1(2,3) by (subst (asm) read_growth.simps, auto simp: Let_def split: if_splits)+
    have pos: "0 < ?cap'" using 1(3) by (auto simp: READ_BUFFER_MAX_SIZE_def)
    have "req \<le> c \<and> ?cap' \<le> c \<and> c \<le> READ_BUFFER_MAX_SIZE"
      using 1(1) [OF _ refl _ step pos] True 1(3) * by simp
    moreover have "cap \<le> ?cap'" using 1(4) by simp
    ultimately show ?thesis by linarith
  next
    case False
    then show ?thesis using 1(2,4) by (subst (asm) read_growth.simps) auto
  qed
qed

lemma read_growth_total:
  "0 < cap \<Longrightarrow> req \<le> READ_BUFFER_MAX_SIZE \<Longrightarrow> \<exists>c. read_growth cap req = Some c"
proof (induction cap req rule: read_growth.induct)
  case (1 cap req)
  show ?case
  proof (cases "cap < req")
    case True
    then show ?thesis using 1 by (subst read_growth.simps) (auto simp: Let_def READ_BUFFER_MAX_SIZE_def)
  qed (subst read_growth.simps, simp)
qed

lemma write_growth_bounds:
  "write_growth cap req = Inr c \<Longrightarrow> 0 < cap \<Longrightarrow> req \<le> c \<and> cap \<le> c"
proof (induction cap req rule: write_growth.induct)
  case (1 cap req)
  show ?case
  proof (cases "cap < req")
    case True
    then show ?thesis using 1 by (subst (asm) (2) write_growth.simps) (auto split: if_splits)
  qed (use 1 in \<open>subst (asm) (2) write_growth.simps, auto\<close>)
qed

lemma write_growth_defined:
  "0 < cap \<Longrightarrow> req \<le> 2 ^ 30 \<Longrightarrow> \<exists>c. write_growth cap req = Inr c"
proof (induction cap req rule: write_growth.induct)
  case (1 cap req)
  then show ?case by (subst write_growth.simps) (auto simp: INT_MAX_def)
qed

text \<open>A ring moved to the front of a larger vector is the same queue.\<close>

definition regrown :: "nat \<Rightarrow> ring_buffer \<Rightarrow> ring_buffer" where
  "regrown c r = (reset_ring_buffer (blit (replicate c NUL) 0 (ring_peek r (rb_size r))) c)
     \<lparr>rb_size := rb_size r, rb_tail := rb_size r\<rparr>"

lemma regrown_ok:
  assumes "ring_ok r" and "rb_size r < c"
  shows "ring_ok (regrown c r)" and "ring_list (regrown c r) = ring_list r"
    and "rb_capacity (regrown c r) = c" and "take (rb_size r) (rb_buffer (regrown c r)) = ring_list r"
proof -
  have pk: "ring_peek r (rb_size r) = ring_list r"
    using ring_peek_list [OF assms(1)] by simp
  have buf: "rb_buffer (regrown c r) = ring_list r @ replicate (c - rb_size r) NUL"
    unfolding regrown_def pk by (simp add: reset_ring_buffer_def blit_def)
  have fields: "rb_capacity (regrown c r) = c" "rb_head (regrown c r) = 0"
    "rb_size (regrown c r) = rb_size r" "rb_tail (regrown c r) = rb_size r"
    by (simp_all add: regrown_def reset_ring_buffer_def)
  show "ring_ok (regrown c r)"
    using assms fields unfolding ring_ok_def buf by simp
  show "ring_list (regrown c r) = ring_list r"
    using assms fields buf by (intro nth_equalityI) (auto simp: nth_ring_list [of _ "regrown c r"] nth_append)
  show "take (rb_size r) (rb_buffer (regrown c r)) = ring_list r" by (simp add: buf)
  show "rb_capacity (regrown c r) = c" by (rule fields)
qed

lemma ensure_read_capacity_regrown:
  "ensure_read_capacity required s =
     (let req = (if required \<le> 0 then READ_BUFFER_INITIAL_SIZE else nat required);
          r = m_read_ring s; cap = length (rb_buffer r)
      in if req > READ_BUFFER_MAX_SIZE then (False, s)
         else if cap \<ge> req \<and> length (m_read_buf s) \<ge> req + 1 then (True, s)
         else case read_growth (if cap = 0 then READ_BUFFER_INITIAL_SIZE else cap) req of
                None \<Rightarrow> (False, s)
              | Some c \<Rightarrow> (True, s\<lparr>m_read_ring := regrown c r,
                  m_read_buf := blit (replicate (c + 1) NUL) 0 (take (rb_size r) (rb_buffer (regrown c r))),
                  m_read_alloc := m_read_alloc s + 1\<rparr>))"
  by (simp add: ensure_read_capacity_def regrown_def Let_def reset_ring_buffer_def cong: option.case_cong)

text \<open>The read side of a connection: the ring fits its limit and \<open>m_read_buf\<close> has one byte more.\<close>

definition read_side_ok :: "'a conn_io_scheme \<Rightarrow> bool" where
  "read_side_ok s \<longleftrightarrow> ring_ok (m_read_ring s) \<and> rb_capacity (m_read_ring s) \<le> READ_BUFFER_MAX_SIZE
     \<and> length (m_read_buf s) = rb_capacity (m_read_ring s) + 1"

lemma ensure_read_capacity_ok:
  assumes ok: "read_side_ok s" and call: "ensure_read_capacity (int req) s = (b, s')" and req: "0 < req"
  shows "b \<longleftrightarrow> req \<le> READ_BUFFER_MAX_SIZE"
    and "read_side_ok s'" and "ring_list (m_read_ring s') = ring_list (m_read_ring s)"
    and "b \<Longrightarrow> req \<le> rb_capacity (m_read_ring s')"
proof -
  let ?r = "m_read_ring s" and ?P = "\<lambda>b s'. (b \<longleftrightarrow> req \<le> READ_BUFFER_MAX_SIZE) \<and> read_side_ok s'
    \<and> ring_list (m_read_ring s') = ring_list (m_read_ring s) \<and> (b \<longrightarrow> req \<le> rb_capacity (m_read_ring s'))"
  have inv: "ring_ok ?r" "length (rb_buffer ?r) = rb_capacity ?r" "0 < rb_capacity ?r"
    "rb_capacity ?r \<le> READ_BUFFER_MAX_SIZE" "length (m_read_buf s) = rb_capacity ?r + 1"
    "rb_size ?r \<le> rb_capacity ?r"
    using ok by (auto simp: read_side_ok_def ring_ok_def)
  have "?P b s'"
  proof (cases "req > READ_BUFFER_MAX_SIZE \<or> rb_capacity ?r \<ge> req")
    case True
    then show ?thesis using call ok req inv
      by (auto simp: ensure_read_capacity_def Let_def split: if_splits)
  next
    case False
    then obtain c where c: "read_growth (rb_capacity ?r) req = Some c"
      using read_growth_total inv(3) by (metis not_less)
    then have bounds: "req \<le> c" "c \<le> READ_BUFFER_MAX_SIZE"
      using read_growth_bounds inv by blast+
    then have "rb_size ?r < c" using False inv by linarith
    note grown = regrown_ok [OF inv(1) this]
    have "b" and s': "s' = s\<lparr>m_read_ring := regrown c ?r,
        m_read_buf := blit (replicate (c + 1) NUL) 0 (ring_list ?r), m_read_alloc := m_read_alloc s + 1\<rparr>"
      using call False c inv(2,3) req grown(4) by (auto simp: ensure_read_capacity_regrown Let_def)
    then show ?thesis
      using False bounds grown \<open>rb_size ?r < c\<close> unfolding s' read_side_ok_def by simp
  qed
  then show "b \<longleftrightarrow> req \<le> READ_BUFFER_MAX_SIZE" "read_side_ok s'"
    "ring_list (m_read_ring s') = ring_list (m_read_ring s)"
    "b \<Longrightarrow> req \<le> rb_capacity (m_read_ring s')" by blast+
qed

lemma sync_read_buffer_ok:
  assumes "ring_ok (m_read_ring s)"
  defines "n \<equiv> rb_size (m_read_ring s)"
  shows "take n (m_read_buf (sync_read_buffer s)) = ring_list (m_read_ring s)"
    and "m_read_idx (sync_read_buffer s) = n"
    and "m_read_buf (sync_read_buffer s) ! n = NUL"
    and "m_read_ring (sync_read_buffer s) = m_read_ring s"
    and "n < length (m_read_buf (sync_read_buffer s))"
proof -
  have pk: "ring_peek (m_read_ring s) n = ring_list (m_read_ring s)"
    using ring_peek_list [OF assms(1)] by (simp add: n_def)
  let ?buf = "if length (m_read_buf s) < n + 1 then replicate (n + 1) NUL else m_read_buf s"
  have buf: "m_read_buf (sync_read_buffer s) = (blit ?buf 0 (ring_list (m_read_ring s)))[n := NUL]"
    by (simp add: sync_read_buffer_def Let_def pk flip: n_def)
  have len: "length (ring_list (m_read_ring s)) = n" by (simp add: n_def)
  have blen: "length (blit ?buf 0 (ring_list (m_read_ring s))) = length ?buf"
    by (rule length_blit) (auto simp: n_def)
  show "take n (m_read_buf (sync_read_buffer s)) = ring_list (m_read_ring s)"
    unfolding buf using len by (simp add: take_update_cancel blit_def)
  show "n < length (m_read_buf (sync_read_buffer s))"
    unfolding buf using blen by (simp split: if_splits)
  then show "m_read_buf (sync_read_buffer s) ! n = NUL"
    unfolding buf by simp
  show "m_read_idx (sync_read_buffer s) = n" "m_read_ring (sync_read_buffer s) = m_read_ring s"
    by (simp_all add: sync_read_buffer_def Let_def n_def)
qed

lemma ring_refill:
  assumes "length b = c" "0 < c" "length d \<le> c"
  obtains r where "(if 0 < length d then case ring_append (reset_ring_buffer b c) d of
        Some r \<Rightarrow> r | None \<Rightarrow> reset_ring_buffer b c else reset_ring_buffer b c) = r"
    "ring_ok r" "ring_list r = d" "rb_capacity r = c"
proof -
  have ok: "ring_ok (reset_ring_buffer b c)" using assms by simp
  have "length d \<le> ring_writable (reset_ring_buffer b c)"
    using assms by (simp add: ring_writable_def reset_ring_buffer_def)
  then obtain r where "ring_append (reset_ring_buffer b c) d = Some r" "ring_ok r"
    "ring_list r = d" "rb_capacity r = c"
    using ring_append_ok [OF ok] by (metis append_Nil rb_capacity_reset ring_list_reset)
  then show thesis using that ok by (cases "d = []") auto
qed

lemma compact_read_buffer_prefix_ok:
  assumes ok: "ring_ok (m_read_ring s)" and k: "0 < k"
  defines "s' \<equiv> compact_read_buffer_prefix (int k) s"
  shows "ring_ok (m_read_ring s')" and "ring_list (m_read_ring s') = drop k (ring_list (m_read_ring s))"
    and "m_read_idx s' = length (ring_list (m_read_ring s'))"
    and "take (m_read_idx s') (m_read_buf s') = ring_list (m_read_ring s')"
    and "m_checked_idx s' = 0" and "m_body_start_idx s' = 0" and "m_start_line s' = 0"
proof -
  let ?r = "m_read_ring s" and ?s1 = "sync_read_buffer s"
  let ?n = "rb_size ?r" let ?k = "min k ?n" let ?rem = "?n - ?k"
  let ?src = "take ?rem (drop ?k (m_read_buf ?s1))"
  let ?buf = "(blit (m_read_buf ?s1) 0 ?src)[?rem := NUL]"
  note sync = sync_read_buffer_ok [OF ok]
  have src: "?src = drop k (ring_list ?r)"
    using sync(1) by (metis (no_types, lifting) drop_take length_ring_list min.commute
      drop_all min.cobounded1 min_def nle_le)
  have len: "length ?src = ?rem" using sync(5) by simp
  have buf: "take ?rem ?buf = ?src" using len by (simp add: take_update_cancel blit_def)
  have inv: "length (rb_buffer ?r) = rb_capacity ?r" "0 < rb_capacity ?r" "?n \<le> rb_capacity ?r"
    using ok by (auto simp: ring_ok_def)
  have tlen: "length (take ?rem ?buf) = ?rem" by (simp only: buf len)
  obtain r where r: "(if 0 < ?rem then
        case ring_append (reset_ring_buffer (rb_buffer ?r) (rb_capacity ?r)) (take ?rem ?buf) of
        Some r \<Rightarrow> r | None \<Rightarrow> reset_ring_buffer (rb_buffer ?r) (rb_capacity ?r)
        else reset_ring_buffer (rb_buffer ?r) (rb_capacity ?r)) = r"
    and rok: "ring_ok r" and rl: "ring_list r = take ?rem ?buf"
    by (rule ring_refill [OF inv(1,2), of "take ?rem ?buf", unfolded tlen]) (use inv in auto)
  have s': "s' = ?s1\<lparr>m_read_ring := r, m_read_buf := ?buf, m_read_idx := ?rem,
      m_checked_idx := 0, m_body_start_idx := 0, m_start_line := 0\<rparr>"
    unfolding s'_def compact_read_buffer_prefix_def Let_def sync(2,4) inv(1) nat_int r
    using k by simp
  have rlen: "length (ring_list r) = ?rem" by (simp only: rl tlen)
  have rl': "ring_list r = drop k (ring_list ?r)" using rl buf src by (metis (no_types))
  obtain rem bf where "length (ring_list r) = rem" "take rem bf = ring_list r"
    and s'': "s' = ?s1\<lparr>m_read_ring := r, m_read_buf := bf, m_read_idx := rem,
      m_checked_idx := 0, m_body_start_idx := 0, m_start_line := 0\<rparr>"
    by (rule that [OF rlen rl [symmetric] s'])
  then show "ring_ok (m_read_ring s')" "ring_list (m_read_ring s') = drop k (ring_list ?r)"
    "m_read_idx s' = length (ring_list (m_read_ring s'))"
    "take (m_read_idx s') (m_read_buf s') = ring_list (m_read_ring s')"
    "m_checked_idx s' = 0" "m_body_start_idx s' = 0" "m_start_line s' = 0"
    using rok rl' by (simp_all add: s'')
qed

subsection \<open>Interleavings of appends, receives and sends\<close>

datatype ring_op = OpAppend "byte list" | OpRecv recv_call | OpSend send_call

text \<open>One operation: the bytes sent, the bytes accepted, the transport and the ring.\<close>

fun ring_exec1 :: "ring_op \<Rightarrow> transport \<times> ring_buffer \<Rightarrow>
    byte list \<times> byte list \<times> transport \<times> ring_buffer" where
  "ring_exec1 (OpAppend d) (t, r) =
     (case ring_append r d of None \<Rightarrow> ([], [], t, r) | Some r' \<Rightarrow> ([], d, t, r'))"
| "ring_exec1 (OpRecv f) (t, r) =
     (let (n, t', r') = ring_recv f t r
      in ([], if n \<le> 0 then [] else take (nat n) (io_data
            (f (min (rb_capacity r - rb_tail r) (ring_writable r)))), t', r'))"
| "ring_exec1 (OpSend f) (t, r) =
     (let (n, t', r') = ring_send f t r in (ring_peek r (nat n), [], t', r'))"

fun ring_exec :: "ring_op list \<Rightarrow> transport \<times> ring_buffer \<Rightarrow>
    byte list \<times> byte list \<times> transport \<times> ring_buffer" where
  "ring_exec [] (t, r) = ([], [], t, r)"
| "ring_exec (x # xs) (t, r) =
     (let (out1, acc1, t1, r1) = ring_exec1 x (t, r);
          (out2, acc2, t2, r2) = ring_exec xs (t1, r1)
      in (out1 @ out2, acc1 @ acc2, t2, r2))"

fun ring_op_ok :: "ring_op \<Rightarrow> bool" where
  "ring_op_ok (OpAppend d) = True"
| "ring_op_ok (OpRecv f) = recv_ok f"
| "ring_op_ok (OpSend f) = send_ok f"

lemma ring_recv_accepts:
  assumes "ring_ok r" "recv_ok f" "ring_recv f t r = (n, t', r')"
  defines "d \<equiv> if n \<le> 0 then [] else take (nat n) (io_data (f (min (rb_capacity r - rb_tail r) (ring_writable r))))"
  shows "ring_append r d = Some r'"
proof (cases "n \<le> 0")
  case True
  then have "r' = r"
    using assms(3) by (auto simp: ring_recv_def Let_def split: ssl_error.splits if_splits)
  then show ?thesis using True ring_tail_less [OF assms(1)] assms(1)
    by (auto simp: d_def ring_append_def Let_def ring_ok_def)
next
  case False
  let ?first = "min (rb_capacity r - rb_tail r) (ring_writable r)"
  have n: "n = io_ret (f ?first)" and r': "r' = r\<lparr>rb_buffer := blit (rb_buffer r) (rb_tail r) (io_data (f ?first)),
      rb_tail := (rb_tail r + nat n) mod rb_capacity r, rb_size := rb_size r + nat n\<rparr>"
    using assms(3) False by (auto simp: ring_recv_def Let_def split: ssl_error.splits if_splits)
  have len: "length (io_data (f ?first)) = nat n" "nat n \<le> ?first"
    using assms(2) False unfolding n recv_ok_def by (metis not_le)+
  then have "d = io_data (f ?first)" using False by (simp add: d_def)
  then show ?thesis using len r' by (auto simp: ring_append_def Let_def)
qed

lemma ring_exec1_history:
  assumes "ring_ok r" "ring_op_ok x" "ring_exec1 x (t, r) = (out, acc, t', r')" "ring.history r0 o0 a0 r"
  shows "ring.history r0 (o0 @ out) (a0 @ acc) r'"
proof (cases x)
  case (OpAppend d)
  then show ?thesis
    using assms by (auto split: option.splits dest: ring.history_put)
next
  case (OpRecv f)
  then show ?thesis
    using assms ring_recv_accepts [OF assms(1), of f t]
    by (auto simp: Let_def split: prod.splits intro: ring.history_put)
next
  case (OpSend f)
  then obtain n where s: "ring_send f t r = (n, t', r')" and o: "out = ring_peek r (nat n)" "acc = []"
    using assms(3) by (auto simp: Let_def split: prod.splits)
  then have "ring_took r (nat n) r'" using OpSend assms(2) by (auto simp: ring_took_def)
  then show ?thesis using ring.history_take [OF assms(4)] o ring_peek_list [OF assms(1)] by simp
qed

lemma ring_exec_history:
  "ring_exec xs (t, r) = (out, acc, t', r') \<Longrightarrow> ring_ok r \<Longrightarrow> list_all ring_op_ok xs \<Longrightarrow>
     ring.history r0 o0 a0 r \<Longrightarrow> ring.history r0 (o0 @ out) (a0 @ acc) r'"
proof (induction xs arbitrary: t r out acc o0 a0)
  case (Cons x xs)
  obtain out1 acc1 t1 r1 where one: "ring_exec1 x (t, r) = (out1, acc1, t1, r1)"
    by (metis prod_cases4)
  obtain out2 acc2 where rest: "ring_exec xs (t1, r1) = (out2, acc2, t', r')"
    and outs: "out = out1 @ out2" "acc = acc1 @ acc2"
    using Cons.prems(1) one by (auto split: prod.splits)
  have "ring.history r0 (o0 @ out1) (a0 @ acc1) r1"
    using ring_exec1_history [OF Cons.prems(2) _ one Cons.prems(4)] Cons.prems(3) by simp
  moreover have "ring_ok r1"
    using ring_exec1_history [OF Cons.prems(2) _ one ring.history_start] Cons.prems(2,3)
      ring.history_inv by fastforce
  ultimately show ?case
    using Cons.IH [OF rest, of "o0 @ out1" "a0 @ acc1"] Cons.prems(3) outs by simp
qed simp


text \<open>A ring of four bytes, three of them taken, whose data wraps around the end of the vector.\<close>

definition sample_ring :: ring_buffer where
  "sample_ring = \<lparr>rb_buffer = ''cdab'', rb_capacity = 4, rb_head = 2, rb_tail = 1, rb_size = 3\<rparr>"

definition sample_tls :: transport where
  "sample_tls = \<lparr>m_https_enabled = False, m_tls_want_event = EPOLLIN, m_errno = EOTHER\<rparr>"

text \<open>A socket that takes at most two bytes of each \<open>send\<close>, and one that delivers one byte.\<close>

definition send_two :: send_call where
  "send_two bs = \<lparr>io_ret = int (min 2 (length bs)), io_data = [], io_errno = EOTHER, io_ssl = SSL_ERROR_OTHER\<rparr>"

definition recv_one :: recv_call where
  "recv_one n = \<lparr>io_ret = (if n = 0 then 0 else 1), io_data = (if n = 0 then [] else ''x''),
     io_errno = EOTHER, io_ssl = SSL_ERROR_OTHER\<rparr>"

lemma send_two_ok: "send_ok send_two"
  by (simp add: send_ok_def send_two_def)

lemma recv_one_ok: "recv_ok recv_one"
  by (simp add: recv_ok_def recv_one_def)

lemma sample_ring_ok: "ring_ok sample_ring"
  by (simp add: ring_ok_def sample_ring_def)

lemma sample_ring_size: "rb_size sample_ring = 3"
  by (simp add: sample_ring_def)

lemma sample_ring_list: "ring_list sample_ring = ''abc''"
  by code_simp


text \<open>
  Growing the read buffer succeeds exactly up to the 2 MiB limit; it keeps the
  buffered bytes, the size of \<open>m_read_buf\<close> and the index invariant, and afterwards the ring
  holds at least the size asked for.
\<close>

lemma ensure_read_capacity_keeps_bytes:
  assumes "read_side_ok s" and "0 < req" and "ensure_read_capacity (int req) s = (b, s')"
  shows "(b \<longleftrightarrow> req \<le> READ_BUFFER_MAX_SIZE) \<and> read_side_ok s'
     \<and> ring_list (m_read_ring s') = ring_list (m_read_ring s)
     \<and> (b \<longrightarrow> req \<le> rb_capacity (m_read_ring s'))"
  using ensure_read_capacity_ok [OF assms(1,3,2)] by blast

definition sample_io :: "conn_io" where
  "sample_io = \<lparr>m_read_ring = sample_ring, m_read_buf = replicate 5 NUL, m_read_alloc = 0, m_read_idx = 0,
     m_checked_idx = 0, m_body_start_idx = 0, m_start_line = 0,
     m_write_ring = reset_ring_buffer [] 0, m_write_buf = [], m_write_idx = 0, m_file_send_buf = [],
     m_has_new_data = False, m_tls = sample_tls\<rparr>"

lemma ensure_read_capacity_keeps_bytes_witness:
  "let (b, s') = ensure_read_capacity 7 sample_io
   in b \<and> read_side_ok s' \<and> ring_list (m_read_ring s') = ''abc'' \<and> 7 \<le> rb_capacity (m_read_ring s')"
proof -
  have ok: "read_side_ok sample_io"
    by (simp add: read_side_ok_def sample_io_def sample_ring_ok)
       (simp add: sample_ring_def READ_BUFFER_MAX_SIZE_def)
  obtain b s' where call: "ensure_read_capacity 7 sample_io = (b, s')" by (metis surj_pair)
  have "ring_list (m_read_ring sample_io) = ''abc''" by (simp add: sample_io_def sample_ring_list)
  moreover have "(b \<longleftrightarrow> 7 \<le> READ_BUFFER_MAX_SIZE) \<and> read_side_ok s'
      \<and> ring_list (m_read_ring s') = ring_list (m_read_ring sample_io)
      \<and> (b \<longrightarrow> 7 \<le> rb_capacity (m_read_ring s'))"
    by (rule ensure_read_capacity_keeps_bytes [OF ok]) (use call in simp_all)
  ultimately show ?thesis unfolding call by (simp add: READ_BUFFER_MAX_SIZE_def)
qed

text \<open>
  Discarding \<open>k\<close> consumed bytes drops exactly the first \<open>k\<close> bytes of the read
  queue, leaves \<open>m_read_buf\<close> holding the rest, and rewinds the parser cursors to its start.
\<close>

lemma compact_read_buffer_drops_prefix:
  assumes "ring_ok (m_read_ring s)" and "0 < k"
  shows "let s' = compact_read_buffer_prefix (int k) s
     in ring_ok (m_read_ring s') \<and> ring_list (m_read_ring s') = drop k (ring_list (m_read_ring s))
        \<and> take (m_read_idx s') (m_read_buf s') = drop k (ring_list (m_read_ring s))
        \<and> m_read_idx s' = rb_size (m_read_ring s) - k
        \<and> m_checked_idx s' = 0 \<and> m_body_start_idx s' = 0 \<and> m_start_line s' = 0"
  using compact_read_buffer_prefix_ok [OF assms] by (simp add: Let_def)

lemma compact_read_buffer_drops_prefix_witness:
  "let s' = compact_read_buffer_prefix 2 sample_io
   in ring_ok (m_read_ring s') \<and> ring_list (m_read_ring s') = ''c'' \<and> m_read_idx s' = 1"
proof -
  have "ring_ok (m_read_ring sample_io)" "ring_list (m_read_ring sample_io) = ''abc''"
    "rb_size (m_read_ring sample_io) = 3"
    by (simp_all add: sample_io_def sample_ring_ok sample_ring_list sample_ring_size)
  then show ?thesis
    using compact_read_buffer_drops_prefix [of sample_io 2] by (simp add: Let_def)
qed

end
