(* ===== verification/Http_Message.thy ===== *)
theory Http_Message
  imports Cstring
begin

text \<open>
  The HTTP vocabulary of src/http/core/http_message.h and http_message.cpp: requests, responses,
  the request context, and the string functions every handler uses (URL decoding, trimming, JSON
  escaping, header parameters, base64 and hexadecimal). \<open>EVP_DecodeBlock\<close> and \<open>RAND_bytes\<close>
  are parameters. \<open>std::map\<close> is the sorted association list of the prelude. The string
  arguments of \<open>set_body\<close> are never null in the program, so they are plain strings.
\<close>

subsection \<open>Data\<close>

datatype http_method = GET | POST | HEAD | PUT | DELETE | TRACE | OPTIONS | CONNECT | PATH

datatype http_code = NO_REQUEST | GET_REQUEST | BAD_REQUEST | NO_RESOURCE | FORBIDDEN_REQUEST
  | FILE_REQUEST | INTERNAL_ERROR | CLOSED_CONNECTION | OPTIONS_REQUEST | NOT_IMPLEMENTED
  | PAYLOAD_TOO_LARGE | MEMORY_REQUEST

record uploaded_file =
  temp_path :: string
  up_filename :: string
  up_content_type :: string
  up_sha256 :: string
  up_size :: int
  released :: bool

definition no_upload :: uploaded_file where
  "no_upload = \<lparr>temp_path = [], up_filename = [], up_content_type = [], up_sha256 = [],
     up_size = 0, released = False\<rparr>"

definition has_file :: "uploaded_file \<Rightarrow> bool" where
  "has_file u \<longleftrightarrow> temp_path u \<noteq> []"

record http_request =
  rq_method :: http_method
  rq_path :: string
  rq_query_string :: string
  rq_version :: string
  rq_headers :: smap
  rq_query :: smap
  rq_form :: smap
  rq_json :: smap
  rq_content_length :: int
  rq_content_length_seen :: bool
  rq_keep_alive :: bool
  rq_http_1_1 :: bool
  rq_chunked :: bool
  rq_body :: string
  rq_upload :: uploaded_file

definition empty_request :: http_request where
  "empty_request = \<lparr>rq_method = GET, rq_path = [], rq_query_string = [], rq_version = [], rq_headers = [],
     rq_query = [], rq_form = [], rq_json = [], rq_content_length = 0, rq_content_length_seen = False,
     rq_keep_alive = False, rq_http_1_1 = False, rq_chunked = False, rq_body = [], rq_upload = no_upload\<rparr>"

record file_response =
  f_enabled :: bool
  f_path :: string
  f_content_type :: string
  f_download_name :: string

definition no_file :: file_response where
  "no_file = \<lparr>f_enabled = False, f_path = [], f_content_type = [], f_download_name = []\<rparr>"

record http_response =
  rs_status :: int
  rs_title :: string
  rs_content_type :: string
  rs_body :: string
  rs_headers :: smap
  options_response :: bool
  rs_file :: file_response

definition empty_response :: http_response where
  "empty_response = \<lparr>rs_status = 200, rs_title = ''OK'', rs_content_type = ''text/html'', rs_body = [],
     rs_headers = [], options_response = False, rs_file = no_file\<rparr>"

record request_context =
  current_user :: string
  ctx_doc_root :: string
  upload_max_bytes :: nat
  user_storage_quota_bytes :: nat
  client_ip :: string
  user_agent :: string
  legacy_compat_enabled :: bool
  released_temp_upload_paths :: "string list"

definition release_temp_path :: "string \<Rightarrow> request_context \<Rightarrow> request_context" where
  "release_temp_path path ctx =
     (if path \<noteq> [] then ctx\<lparr>released_temp_upload_paths := released_temp_upload_paths ctx @ [path]\<rparr> else ctx)"

definition release_temp_upload :: "uploaded_file \<Rightarrow> request_context \<Rightarrow> uploaded_file \<times> request_context" where
  "release_temp_upload u ctx =
     (if temp_path u \<noteq> []
      then (u\<lparr>released := True\<rparr>, ctx\<lparr>released_temp_upload_paths := released_temp_upload_paths ctx @ [temp_path u]\<rparr>)
      else (u, ctx))"

fun method_name :: "http_method \<Rightarrow> string" where
  "method_name GET = ''GET''"
| "method_name POST = ''POST''"
| "method_name HEAD = ''HEAD''"
| "method_name PUT = ''PUT''"
| "method_name DELETE = ''DELETE''"
| "method_name TRACE = ''TRACE''"
| "method_name OPTIONS = ''OPTIONS''"
| "method_name CONNECT = ''CONNECT''"
| "method_name PATH = ''PATCH''"

subsection \<open>String functions\<close>

definition starts_with_ignore_case :: "string \<Rightarrow> string \<Rightarrow> bool" where
  "starts_with_ignore_case text prefix \<longleftrightarrow>
     length text \<ge> length prefix \<and> strncaseeq text prefix (length prefix)"

definition equals_ignore_case :: "string \<Rightarrow> string \<Rightarrow> bool" where
  "equals_ignore_case left right \<longleftrightarrow> strcaseeq left right"

definition lowercase_copy :: "string \<Rightarrow> string" where
  "lowercase_copy value = map tolower value"

fun url_decode :: "string \<Rightarrow> string" where
  "url_decode [] = []"
| "url_decode (c # cs) =
     (if c = CHR ''+'' then SP # url_decode cs
      else if c = CHR ''%'' then
        (case cs of
           high # low # rest \<Rightarrow>
             if isxdigit high \<and> isxdigit low
             then char_of (16 * hex_value high + hex_value low) # url_decode rest
             else c # url_decode cs
         | _ \<Rightarrow> c # url_decode cs)
      else c # url_decode cs)"

definition trim_copy :: "string \<Rightarrow> string" where
  "trim_copy value = trim_spaces value"

definition json_escape_char :: "byte \<Rightarrow> string" where
  "json_escape_char c =
     (if c = BACKSLASH then [BACKSLASH, BACKSLASH]
      else if c = QUOTE then [BACKSLASH, QUOTE]
      else if c = LF then [BACKSLASH, CHR ''n'']
      else if c = CR then [BACKSLASH, CHR ''r'']
      else if c = TAB then [BACKSLASH, CHR ''t'']
      else if (of_char c :: nat) < 32 then [SP]
      else [c])"

definition json_escape :: "string \<Rightarrow> string" where
  "json_escape value = concat (map json_escape_char value)"

text \<open>
  \<open>evp\<close> stands for \<open>EVP_DecodeBlock\<close>: the bytes it writes (its return value is their number), or
  \<open>None\<close> for a negative return value.
\<close>

definition decode_base64 :: "(string \<Rightarrow> string option) \<Rightarrow> string \<Rightarrow> string option" where
  "decode_base64 evp input =
     (let cleaned = filter (\<lambda>c. \<not> isspace c) input in
      if cleaned = [] \<or> length cleaned mod 4 \<noteq> 0 then None
      else case evp cleaned of
             None \<Rightarrow> None
           | Some decoded \<Rightarrow>
               let padding = (if last cleaned = CHR ''='' then 1 else 0)
                           + (if length cleaned > 1 \<and> cleaned ! (length cleaned - 2) = CHR ''='' then 1 else 0)
               in if length decoded < padding then None
                  else Some (take (length decoded - padding) decoded))"

definition header_param_value :: "string \<Rightarrow> string \<Rightarrow> string" where
  "header_param_value header_line key =
     (case find_sub (key @ ''='') header_line of
        None \<Rightarrow> []
      | Some pos \<Rightarrow>
          let rest = dropWhile isspace (drop (pos + length key + 1) header_line) in
          if rest = [] then []
          else if hd rest = QUOTE then
            (case find_char QUOTE (tl rest) of None \<Rightarrow> [] | Some n \<Rightarrow> take n (tl rest))
          else
            (case find_char (CHR '';'') rest of
               None \<Rightarrow> trim_copy rest
             | Some n \<Rightarrow> trim_copy (take n rest)))"

definition encode_hex :: "string \<Rightarrow> string" where
  "encode_hex data = concat (map (\<lambda>b. [hex_lower (of_char b div 16), hex_lower (of_char b mod 16)]) data)"

definition kSessionTokenBytes :: nat where "kSessionTokenBytes = 32"

text \<open>\<open>rand n\<close> stands for \<open>RAND_bytes\<close>: \<open>n\<close> random bytes, or \<open>None\<close> when it does not return 1.\<close>

definition make_session_token :: "(nat \<Rightarrow> string option) \<Rightarrow> string" where
  "make_session_token rand =
     (case rand kSessionTokenBytes of None \<Rightarrow> [] | Some bs \<Rightarrow> encode_hex bs)"

subsection \<open>Request and response operations\<close>

definition is_api_request :: "http_request \<Rightarrow> bool" where
  "is_api_request rq \<longleftrightarrow> starts_with_ignore_case (rq_path rq) ''/api/''"

definition requires_auth :: "http_request \<Rightarrow> bool" where
  "requires_auth rq \<longleftrightarrow> starts_with_ignore_case (rq_path rq) ''/api/private/''
     \<or> starts_with_ignore_case (rq_path rq) ''/api/drive/''
     \<or> starts_with_ignore_case (rq_path rq) ''/api/admin/''"

definition should_skip_request_log :: "http_request \<Rightarrow> bool" where
  "should_skip_request_log rq \<longleftrightarrow> equals_ignore_case (rq_path rq) ''/healthz''"

definition lookup_or_empty :: "smap \<Rightarrow> string \<Rightarrow> string" where
  "lookup_or_empty m k = (case map_of m k of None \<Rightarrow> [] | Some v \<Rightarrow> v)"

definition header_value :: "http_request \<Rightarrow> string \<Rightarrow> string" where
  "header_value rq key = lookup_or_empty (rq_headers rq) (lowercase_copy key)"

definition request_value :: "http_request \<Rightarrow> string \<Rightarrow> string \<Rightarrow> string" where
  "request_value rq primary fallback =
     (case map_of (rq_form rq) primary of
        Some v \<Rightarrow> v
      | None \<Rightarrow> (case map_of (rq_json rq) primary of
           Some v \<Rightarrow> v
         | None \<Rightarrow>
             if fallback \<noteq> [] then
               (case map_of (rq_form rq) fallback of
                  Some v \<Rightarrow> v
                | None \<Rightarrow> (case map_of (rq_json rq) fallback of Some v \<Rightarrow> v | None \<Rightarrow> []))
             else []))"

definition query_value :: "http_request \<Rightarrow> string \<Rightarrow> string" where
  "query_value rq key = lookup_or_empty (rq_query rq) key"

definition query_long_value :: "http_request \<Rightarrow> string \<Rightarrow> int \<Rightarrow> int \<Rightarrow> int \<Rightarrow> int" where
  "query_long_value rq key fallback minimum maximum =
     (let raw = trim_copy (query_value rq key) in
      if raw = [] then fallback
      else let (value, rest) = strtol10 (c_str raw) in
           if rest = c_str raw \<or> rest \<noteq> [] then fallback
           else if value < minimum then minimum
           else if value > maximum then maximum
           else value)"

definition query_truthy_value :: "http_request \<Rightarrow> string \<Rightarrow> bool" where
  "query_truthy_value rq key \<longleftrightarrow> query_value rq key \<in> {''1'', ''true'', ''TRUE'', ''yes'', ''on''}"

definition bearer_token :: "http_request \<Rightarrow> string" where
  "bearer_token rq =
     (let authorization = header_value rq ''authorization'' in
      if \<not> starts_with_ignore_case authorization ''Bearer '' then []
      else trim_copy (drop 7 authorization))"

definition set_body :: "int \<Rightarrow> string \<Rightarrow> string \<Rightarrow> string \<Rightarrow> http_response \<Rightarrow> http_response" where
  "set_body status_code status_title response_body response_content_type rs =
     rs\<lparr>rs_status := status_code, rs_title := status_title, rs_content_type := response_content_type,
        rs_body := response_body, options_response := False, rs_file := no_file\<rparr>"

definition set_json_error :: "int \<Rightarrow> string \<Rightarrow> string \<Rightarrow> http_response \<Rightarrow> http_response" where
  "set_json_error status_code status_title message rs =
     set_body status_code status_title
       (''{'' @ [QUOTE] @ ''code'' @ [QUOTE] @ '':'' @ int_to_string status_code @ '','' @ [QUOTE] @ ''message'' @ [QUOTE]
          @ '':'' @ [QUOTE] @ json_escape message @ [QUOTE] @ ''}'')
       ''application/json'' rs"

definition set_file :: "string \<Rightarrow> string \<Rightarrow> string \<Rightarrow> http_response \<Rightarrow> http_response" where
  "set_file file_path file_content_type download_name rs =
     (let ct = (if file_content_type = [] then ''application/octet-stream'' else file_content_type) in
      rs\<lparr>rs_status := 200, rs_title := ''OK'', rs_content_type := ct, rs_body := [], rs_headers := [],
         options_response := False,
         rs_file := \<lparr>f_enabled = True, f_path = file_path, f_content_type = ct, f_download_name = download_name\<rparr>\<rparr>)"

definition set_options :: "http_response \<Rightarrow> http_response" where
  "set_options rs =
     rs\<lparr>rs_status := 204, rs_title := ''OK'', rs_content_type := ''text/plain'', rs_body := [], rs_headers := [],
        rs_file := no_file, options_response := True\<rparr>"

subsection \<open>JSON escaping\<close>

text \<open>
  The contents of a JSON string literal as RFC 8259 reads them, from after the opening quote: the
  characters up to the closing quote, and the rest. The two-character escapes are read; the
  \<open>uXXXX\<close> form, which \<open>json_escape\<close> never writes, is not.
\<close>

definition json_unescape_char :: "byte \<Rightarrow> byte option" where
  "json_unescape_char c =
     (if c = QUOTE \<or> c = BACKSLASH \<or> c = CHR ''/'' then Some c
      else if c = CHR ''n'' then Some LF
      else if c = CHR ''r'' then Some CR
      else if c = CHR ''t'' then Some TAB
      else if c = CHR ''b'' then Some (CHR 0x08)
      else if c = CHR ''f'' then Some (CHR 0x0C)
      else None)"

fun json_string :: "string \<Rightarrow> (string \<times> string) option" where
  "json_string [] = None"
| "json_string (c # cs) =
     (if c = QUOTE then Some ([], cs)
      else if c = BACKSLASH then
        (case cs of
           [] \<Rightarrow> None
         | e # rest \<Rightarrow> (case json_unescape_char e of
             None \<Rightarrow> None
           | Some d \<Rightarrow> map_option (\<lambda>(t, r). (d # t, r)) (json_string rest)))
      else if (of_char c :: nat) < 32 then None
      else map_option (\<lambda>(t, r). (c # t, r)) (json_string cs))"

text \<open>\<open>json_escape\<close> keeps line feeds, carriage returns and tabs; other control bytes become spaces.\<close>

definition json_visible :: "byte \<Rightarrow> byte" where
  "json_visible c = (if (of_char c :: nat) < 32 \<and> c \<noteq> LF \<and> c \<noteq> CR \<and> c \<noteq> TAB then SP else c)"

lemma json_string_escape_char:
  "json_string (json_escape_char c @ r) = map_option (\<lambda>(t, u). (json_visible c # t, u)) (json_string r)"
proof -
  consider "c = BACKSLASH" | "c = QUOTE" | "c = LF" | "c = CR" | "c = TAB"
    | "c \<noteq> BACKSLASH" "c \<noteq> QUOTE" "c \<noteq> LF" "c \<noteq> CR" "c \<noteq> TAB" by blast
  then show ?thesis
    by cases (simp_all add: json_escape_char_def json_visible_def json_unescape_char_def)
qed

lemma json_string_escape:
  "json_string (json_escape v @ QUOTE # r) = Some (map json_visible v, r)"
  by (induction v) (simp_all add: json_escape_def json_string_escape_char)

text \<open>
  Whatever text is escaped into a JSON body, a JSON reader finds the end of the
  string literal where the server put the closing quote and reads the text back, with control
  bytes other than tab, line feed and carriage return replaced by spaces: no value can break
  out of its literal.
\<close>

lemma json_escape_reads_back:
  "json_string (json_escape v @ QUOTE # rest) = Some (map json_visible v, rest)"
  by (rule json_string_escape)

subsection \<open>Hexadecimal\<close>

fun decode_hex :: "string \<Rightarrow> string option" where
  "decode_hex [] = Some []"
| "decode_hex [c] = None"
| "decode_hex (h # l # r) =
     (if isxdigit h \<and> isxdigit l
      then map_option (\<lambda>t. char_of (16 * hex_value h + hex_value l) # t) (decode_hex r) else None)"

lemma of_char_div_16 [simp]: "(of_char (b :: byte) :: nat) div 16 < 16"
  using of_char_less [of b] by linarith

lemma hex_digits_byte:
  "char_of (16 * hex_value (hex_lower (of_char b div 16)) + hex_value (hex_lower (of_char b mod 16))) = (b :: byte)"
proof -
  have "16 * hex_value (hex_lower (of_char b div 16)) + hex_value (hex_lower (of_char b mod 16)) = of_char b"
    by simp
  then show ?thesis by simp
qed

lemma hex_lower_not_upper [simp]: "d < 16 \<Longrightarrow> \<not> isupper (hex_lower d)"
  by (simp add: isupper_def)

lemma encode_hex_Cons:
  "encode_hex (b # bs) = hex_lower (of_char b div 16) # hex_lower (of_char b mod 16) # encode_hex bs"
  by (simp add: encode_hex_def)

lemma encode_hex_Nil [simp]: "encode_hex [] = []"
  by (simp add: encode_hex_def)

lemma length_encode_hex [simp]: "length (encode_hex bs) = 2 * length bs"
  by (induction bs) (simp_all add: encode_hex_Cons)

lemma set_encode_hex: "c \<in> set (encode_hex bs) \<Longrightarrow> isxdigit c \<and> \<not> isupper c"
  by (induction bs) (auto simp: encode_hex_Cons)

lemma decode_encode_hex [simp]: "decode_hex (encode_hex bs) = Some bs"
proof (induction bs)
  case (Cons b bs)
  then show ?case using hex_digits_byte [of b] by (simp add: encode_hex_Cons)
qed simp

lemma encode_hex_inject: "encode_hex a = encode_hex b \<longleftrightarrow> a = b"
  by (metis decode_encode_hex option.inject)

text \<open>
  A session token is empty when no randomness is available; otherwise it is 64
  lower-case hexadecimal digits from which the 32 random bytes can be recovered, so two tokens
  are equal only when the random bytes are.
\<close>

lemma make_session_token_hex:
  assumes "\<forall>n bs. rand n = Some bs \<longrightarrow> length bs = n"
  shows "(rand 32 = None \<longrightarrow> make_session_token rand = []) \<and>
    (rand 32 = Some bs \<longrightarrow> length (make_session_token rand) = 64
       \<and> (\<forall>c \<in> set (make_session_token rand). isxdigit c \<and> \<not> isupper c)
       \<and> decode_hex (make_session_token rand) = Some bs)"
  using assms set_encode_hex by (auto simp: make_session_token_def kSessionTokenBytes_def)

lemma make_session_token_hex_witness:
  "length (make_session_token (\<lambda>n. Some (replicate n (CHR 0xAB)))) = 64"
  using make_session_token_hex [of "\<lambda>n. Some (replicate n (CHR 0xAB))" "replicate 32 (CHR 0xAB)"] by simp

subsection \<open>Query parameters\<close>

text \<open>
  A numeric query parameter is always the caller's fallback or a number within the
  caller's bounds, whatever the client sends; and a plain decimal number within the bounds is
  taken as it is.
\<close>

lemma query_long_value_bounded:
  assumes "minimum \<le> maximum"
  shows "(query_long_value rq key fallback minimum maximum = fallback
       \<or> minimum \<le> query_long_value rq key fallback minimum maximum
          \<and> query_long_value rq key fallback minimum maximum \<le> maximum)
    \<and> (query_value rq key = nat_to_string n \<and> minimum \<le> int n \<and> int n \<le> maximum \<and> int n \<le> LONG_MAX
        \<longrightarrow> query_long_value rq key fallback minimum maximum = int n)"
proof -
  have plain: "trim_copy (nat_to_string n) = nat_to_string n"
    unfolding trim_copy_def
    by (intro trim_spaces_id nat_to_string_not_Nil isdigit_not_isspace nat_to_string_isdigit [of _ n]) simp_all
  have "NUL \<notin> set (nat_to_string n)" using nat_to_string_isdigit [of NUL n] by (auto simp: isdigit_def)
  then have c: "c_str (nat_to_string n) = nat_to_string n" by (rule c_str_id)
  have "query_long_value rq key fallback minimum maximum = int n"
    if "query_value rq key = nat_to_string n" "minimum \<le> int n" "int n \<le> maximum" "int n \<le> LONG_MAX"
    using that plain c strtol10_nat_to_string [of n "[]"]
    by (simp add: query_long_value_def Let_def nat_to_string_not_Nil [symmetric])
  then show ?thesis
    using assms by (auto simp: query_long_value_def Let_def split: prod.splits)
qed

lemma query_long_value_bounded_witness:
  "query_long_value (empty_request\<lparr>rq_query := [(''limit'', ''25'')]\<rparr>) ''limit'' 20 1 100 = 25"
proof -
  have "nat_to_string 25 = ''25''" by code_simp
  then show ?thesis
    using query_long_value_bounded [of 1 100 "empty_request\<lparr>rq_query := [(''limit'', ''25'')]\<rparr>" "''limit''" 20 25]
    by (simp add: query_value_def lookup_or_empty_def LONG_MAX_def)
qed

subsection \<open>Header parameters and case\<close>

text \<open>A quoted parameter is read back when its key does not occur earlier in the header.\<close>

lemma find_sub_append:
  "find_sub p s = None \<Longrightarrow> (\<forall>i < length s. take (length p) (drop i (s @ p @ t)) \<noteq> p) \<Longrightarrow>
     find_sub p (s @ p @ t) = Some (length s)"
proof (induction s)
  case Nil
  then show ?case by (cases p) (auto split: if_splits)
next
  case (Cons c s)
  have "take (length p) (drop i (s @ p @ t)) \<noteq> p" if "i < length s" for i
    using Cons.prems(2) that by (metis Suc_mono drop_Suc_Cons append_Cons length_Cons)
  moreover have "find_sub p s = None" using Cons.prems(1) by (auto split: if_splits)
  moreover have "take (length p) (c # s @ p @ t) \<noteq> p" using Cons.prems(2) by force
  ultimately show ?case using Cons.IH by simp
qed

lemma header_param_value_quoted:
  assumes "QUOTE \<notin> set v"
    and "find_sub (key @ ''='') (pre @ key @ ''='' @ [QUOTE] @ v @ [QUOTE] @ post) = Some (length pre)"
  shows "header_param_value (pre @ key @ ''='' @ [QUOTE] @ v @ [QUOTE] @ post) key = v"
proof -
  have "\<not> isspace QUOTE" by (simp add: isspace_def)
  then show ?thesis
    using assms find_char_append [of QUOTE v post] by (simp add: header_param_value_def Let_def)
qed

lemma starts_with_ignore_case_iff:
  assumes "NUL \<notin> set text" "NUL \<notin> set prefix"
  shows "starts_with_ignore_case text prefix \<longleftrightarrow>
    length prefix \<le> length text \<and> lowercase_copy (take (length prefix) text) = lowercase_copy prefix"
  using assms by (simp add: starts_with_ignore_case_def strncaseeq_def c_str_id lowercase_copy_def)

end
