(* ===== verification/File_Helpers.thy ===== *)
theory File_Helpers
  imports Http_Message
begin

text \<open>
  File names and paths: src/http/files/file_helpers.cpp. Upload names are reduced to a safe
  alphabet, download names to what may stand in a header, and percent-encoded for
  \<open>filename*=\<close>. The bit tests for UTF-8 lead bytes are written as divisions:
  \<open>(ch & 0xE0) == 0xC0\<close> is \<open>ch div 32 = 6\<close>, and so on. \<open>stat\<close> and \<open>mkdir\<close> are parameters.
\<close>

subsection \<open>The model\<close>

definition name_char :: "byte \<Rightarrow> bool" where
  "name_char c \<longleftrightarrow> isalnum c \<or> c \<in> {CHR ''.'', CHR ''_'', CHR ''-'', CHR ''('', CHR '')'', CHR ''['', CHR '']''}"

fun sanitize_loop :: "string \<Rightarrow> string \<Rightarrow> bool \<Rightarrow> string" where
  "sanitize_loop [] cleaned previous_space = cleaned"
| "sanitize_loop (c # cs) cleaned previous_space =
     (if (of_char c :: nat) < 128 then
        (if name_char c then sanitize_loop cs (cleaned @ [c]) False
         else if isspace c then
           (if cleaned \<noteq> [] \<and> \<not> previous_space then sanitize_loop cs (cleaned @ [SP]) True
            else sanitize_loop cs cleaned previous_space)
         else sanitize_loop cs cleaned previous_space)
      else if (of_char c :: nat) div 32 = 6 \<and> 1 \<le> length cs
        then sanitize_loop (drop 1 cs) (cleaned @ c # take 1 cs) False
      else if (of_char c :: nat) div 16 = 14 \<and> 2 \<le> length cs
        then sanitize_loop (drop 2 cs) (cleaned @ c # take 2 cs) False
      else if (of_char c :: nat) div 8 = 30 \<and> 3 \<le> length cs
        then sanitize_loop (drop 3 cs) (cleaned @ c # take 3 cs) False
      else sanitize_loop cs cleaned previous_space)"

definition sanitize_filename :: "string \<Rightarrow> string" where
  "sanitize_filename value =
     (let c1 = rev (dropWhile (\<lambda>c. c = SP) (rev (sanitize_loop value [] False)));
          c2 = (if c1 = [] \<or> c1 = ''.'' \<or> c1 = ''..'' then ''file.txt'' else c1)
      in if length c2 > 80 then take 80 c2 else c2)"

definition download_char :: "byte \<Rightarrow> bool" where
  "download_char c \<longleftrightarrow> 32 \<le> (of_char c :: nat) \<and> of_char c < (127 :: nat)
     \<and> c \<noteq> QUOTE \<and> c \<noteq> BACKSLASH \<and> c \<noteq> CHR ''/'' \<and> c \<noteq> CHR '';''"

definition sanitize_download_filename :: "string \<Rightarrow> string" where
  "sanitize_download_filename value =
     (let cleaned = concat (map (\<lambda>c. if download_char c then [c] else if isspace c then ''_'' else []) value)
      in if cleaned = [] \<or> cleaned = ''.'' \<or> cleaned = ''..'' then ''download''
         else if length cleaned > 120 then take 120 cleaned else cleaned)"

definition unreserved :: "byte \<Rightarrow> bool" where
  "unreserved c \<longleftrightarrow> islower c \<or> isupper c \<or> isdigit c \<or> c \<in> {CHR ''.'', CHR ''_'', CHR ''-'', CHR ''~''}"

definition percent_encode :: "byte \<Rightarrow> string" where
  "percent_encode c = (if unreserved c then [c]
     else [CHR ''%'', hex_upper (of_char c div 16), hex_upper (of_char c mod 16)])"

definition encode_download_filename :: "string \<Rightarrow> string" where
  "encode_download_filename value =
     (let encoded = concat (map percent_encode value) in if encoded = [] then ''download'' else encoded)"

definition file_storage_root :: "string \<Rightarrow> string" where
  "file_storage_root doc_root = doc_root @ ''/uploads''"

definition temp_storage_root :: "string \<Rightarrow> string" where
  "temp_storage_root doc_root = file_storage_root doc_root @ ''/.tmp''"

definition build_file_disk_path :: "string \<Rightarrow> string \<Rightarrow> string" where
  "build_file_disk_path doc_root stored_name = file_storage_root doc_root @ ''/'' @ stored_name"

definition file_extension :: "string \<Rightarrow> string" where
  "file_extension value =
     (let slash = find_last_of [CHR ''/'', BACKSLASH] value; dot = find_last_of ''.'' value in
      case dot of
        None \<Rightarrow> []
      | Some d \<Rightarrow> (case slash of
           Some s \<Rightarrow> if d < s + 1 then [] else drop d value
         | None \<Rightarrow> drop d value))"

text \<open>\<open>st\<close>: what \<open>stat\<close> says of the path, \<open>None\<close> when it fails, else whether it is a directory.\<close>

definition ensure_directory :: "(string \<Rightarrow> bool option) \<Rightarrow> (string \<Rightarrow> bool) \<Rightarrow> string \<Rightarrow> bool" where
  "ensure_directory st mk path = (case st path of Some isdir \<Rightarrow> isdir | None \<Rightarrow> mk path)"

subsection \<open>Upload names\<close>

definition safe_char :: "byte \<Rightarrow> bool" where
  "safe_char c \<longleftrightarrow> name_char c \<or> c = SP"

lemma safe_char_not_separator: "safe_char c \<Longrightarrow> c \<notin> {CHR ''/'', BACKSLASH, NUL, QUOTE, CR, LF}"
  by (auto simp: safe_char_def name_char_def ctype_defs)

lemma sanitize_loop_safe:
  "\<forall>c \<in> set v. (of_char c :: nat) < 128 \<Longrightarrow> \<forall>c \<in> set cl. safe_char c \<Longrightarrow>
     \<forall>c \<in> set (sanitize_loop v cl ps). safe_char c"
  by (induction v cl ps rule: sanitize_loop.induct) (auto simp: safe_char_def)

lemma safe_default: "\<forall>c \<in> set ''file.txt''. safe_char c"
  by (simp add: safe_char_def name_char_def ctype_defs)

lemma sanitize_filename_cases:
  "\<exists>c1. set c1 \<subseteq> set (sanitize_loop v [] False) \<union> set ''file.txt'' \<and> c1 \<noteq> [] \<and> c1 \<noteq> ''.'' \<and> c1 \<noteq> ''..''
     \<and> sanitize_filename v = take 80 c1"
proof -
  let ?c = "rev (dropWhile (\<lambda>c. c = SP) (rev (sanitize_loop v [] False)))"
  let ?c2 = "if ?c = [] \<or> ?c = ''.'' \<or> ?c = ''..'' then ''file.txt'' else ?c"
  have "set ?c \<subseteq> set (sanitize_loop v [] False)" by (auto dest: set_dropWhileD)
  then have "set ?c2 \<subseteq> set (sanitize_loop v [] False) \<union> set ''file.txt''" by auto
  moreover have "?c2 \<noteq> []" "?c2 \<noteq> ''.''" "?c2 \<noteq> ''..''" by simp_all
  moreover have "sanitize_filename v = take 80 ?c2" by (simp add: sanitize_filename_def Let_def)
  ultimately show ?thesis by blast
qed

lemma take_80_not_dots: "c \<noteq> [] \<Longrightarrow> c \<noteq> ''.'' \<Longrightarrow> c \<noteq> ''..'' \<Longrightarrow> take 80 c \<noteq> [] \<and> take 80 c \<noteq> ''.'' \<and> take 80 c \<noteq> ''..''"
  by (cases "length c \<le> 80") (auto dest: arg_cong [where f = length])

text \<open>
  A stored upload name is never empty, \<open>.\<close> or \<open>..\<close>, has at most 80 bytes, and for an
  ASCII name consists of letters, digits, spaces and \<open>._-()[]\<close> only, so it cannot leave the
  directory it is put in.
\<close>

lemma sanitize_filename_safe:
  shows "sanitize_filename v \<notin> {[], ''.'', ''..''} \<and> length (sanitize_filename v) \<le> 80 \<and>
    ((\<forall>c \<in> set v. (of_char c :: nat) < 128) \<longrightarrow>
       (\<forall>c \<in> set (sanitize_filename v). safe_char c \<and> c \<noteq> CHR ''/'' \<and> c \<noteq> BACKSLASH \<and> c \<noteq> NUL))"
proof -
  obtain c1 where c1: "set c1 \<subseteq> set (sanitize_loop v [] False) \<union> set ''file.txt''" "c1 \<noteq> []" "c1 \<noteq> ''.''"
    "c1 \<noteq> ''..''" "sanitize_filename v = take 80 c1" using sanitize_filename_cases by blast
  have "safe_char c" if "\<forall>c \<in> set v. (of_char c :: nat) < 128" "c \<in> set (sanitize_filename v)" for c
  proof -
    have "c \<in> set (sanitize_loop v [] False) \<union> set ''file.txt''"
      using c1(1) in_set_takeD [OF that(2) [unfolded c1(5)]] by (rule subsetD)
    then show ?thesis using sanitize_loop_safe [OF that(1), of "[]" False] safe_default by (metis Un_iff list.set(1) empty_iff)
  qed
  moreover have "length (sanitize_filename v) \<le> 80" by (simp add: c1(5))
  moreover have "sanitize_filename v \<notin> {[], ''.'', ''..''}"
    using take_80_not_dots [OF c1(2-4)] unfolding c1(5) by blast
  moreover have "c \<noteq> CHR ''/'' \<and> c \<noteq> BACKSLASH \<and> c \<noteq> NUL" if "safe_char c" for c
    using safe_char_not_separator [OF that] by blast
  ultimately show ?thesis by blast
qed

lemma sanitize_filename_safe_witness:
  "sanitize_filename ''../../etc/pass wd'' = ''....etcpass wd''
     \<and> list_all (\<lambda>c. c \<noteq> CHR ''/'') (sanitize_filename ''../../etc/pass wd'')"
  using sanitize_filename_safe [of "''../../etc/pass wd''"]
  by (simp add: sanitize_filename_def name_char_def ctype_defs)

text \<open>
  A byte that follows a UTF-8 lead byte is copied unchecked, so the result of
  \<open>sanitize_filename\<close> can contain a path separator.
\<close>

lemma sanitize_filename_smuggles_slash:
  "CHR ''/'' \<in> set (sanitize_filename [CHR 0xC3, CHR ''/'', CHR ''a''])"
  by (simp add: sanitize_filename_def name_char_def ctype_defs)

subsection \<open>Download names\<close>

lemma truncated_name:
  "n = take 120 c \<Longrightarrow> c \<noteq> [] \<Longrightarrow> \<forall>x \<in> set c. P x \<Longrightarrow> n \<noteq> [] \<and> length n \<le> 120 \<and> (\<forall>x \<in> set n. P x)"
  by (auto dest: in_set_takeD)

text \<open>
  The name in a \<open>Content-Disposition\<close> header is not empty, has at most 120 bytes, and contains no quote, backslash, slash, semicolon or control byte: it cannot end the quoted
  parameter or the header line.
\<close>

lemma sanitize_download_filename_header_safe:
  "sanitize_download_filename v \<noteq> [] \<and> length (sanitize_download_filename v) \<le> 120
   \<and> (\<forall>c \<in> set (sanitize_download_filename v). download_char c)"
proof (cases "sanitize_download_filename v = ''download''")
  case True
  show ?thesis unfolding True by (simp add: download_char_def)
next
  case False
  define c where "c = concat (map (\<lambda>c. if download_char c then [c] else if isspace c then ''_'' else []) v)"
  have "download_char (CHR ''_'')" by (simp add: download_char_def)
  then have "\<forall>x \<in> set c. download_char x" unfolding c_def by auto
  moreover have "sanitize_download_filename v = take 120 c" "c \<noteq> []"
    using False unfolding sanitize_download_filename_def Let_def c_def [symmetric] by (simp_all split: if_splits)
  ultimately show ?thesis by (intro truncated_name)
qed

lemma url_decode_percent_encode: "url_decode (percent_encode c @ r) = c # url_decode r"
proof (cases "unreserved c")
  case True
  then have "c \<noteq> CHR ''+''" "c \<noteq> CHR ''%''" by (auto simp: unreserved_def ctype_defs)
  then show ?thesis using True by (simp add: percent_encode_def)
next
  case False
  have "16 * (of_char c div 16) + of_char c mod 16 = (of_char c :: nat)" by simp
  then show ?thesis using False by (simp add: percent_encode_def)
qed

lemma hex_upper_unreserved [simp]: "d < 16 \<Longrightarrow> unreserved (hex_upper d)"
  by (simp add: unreserved_def ctype_defs)

lemma percent_encode_not_Nil [simp]: "percent_encode c \<noteq> []"
  by (simp add: percent_encode_def)

text \<open>
  The percent-encoded name of a download decodes to the name it was made from, by
  the server's own URL decoder; its characters are unreserved ones and percent escapes.
\<close>

lemma url_decode_encode_download_filename:
  assumes "v \<noteq> []"
  shows "url_decode (encode_download_filename v) = v
    \<and> (\<forall>c \<in> set (encode_download_filename v). unreserved c \<or> c = CHR ''%'')"
proof -
  have "url_decode (concat (map percent_encode v)) = v"
    by (induction v) (simp_all add: url_decode_percent_encode)
  moreover have "\<forall>c \<in> set (percent_encode x). unreserved c \<or> c = CHR ''%''" for x
    by (auto simp: percent_encode_def)
  moreover have "concat (map percent_encode v) \<noteq> []" using assms by (cases v) auto
  ultimately show ?thesis by (auto simp: encode_download_filename_def Let_def)
qed

lemma url_decode_encode_download_filename_witness:
  "url_decode (encode_download_filename ''a b+c%.txt'') = ''a b+c%.txt''"
  using url_decode_encode_download_filename [of "''a b+c%.txt''"] by simp

text \<open>
  The extension of a name is a suffix of it that starts at the last dot and
  contains no path separator.
\<close>

lemma file_extension_suffix:
  "\<exists>stem. v = stem @ file_extension v
     \<and> (file_extension v = [] \<or> hd (file_extension v) = CHR ''.'' \<and> CHR ''.'' \<notin> set (tl (file_extension v))
          \<and> CHR ''/'' \<notin> set (file_extension v) \<and> BACKSLASH \<notin> set (file_extension v))"
proof (cases "file_extension v = []")
  case False
  then obtain d where d: "find_last_of ''.'' v = Some d" "file_extension v = drop d v"
    and sl: "\<And>s. find_last_of [CHR ''/'', BACKSLASH] v = Some s \<Longrightarrow> s + 1 \<le> d"
    by (auto simp: file_extension_def Let_def split: option.splits if_splits)
  have dot: "d < length v" "v ! d = CHR ''.''" "CHR ''.'' \<notin> set (drop (Suc d) v)"
    using find_last_of_Some [OF d(1)] by auto
  have "set (drop d v) \<inter> set [CHR ''/'', BACKSLASH] = {}"
  proof (cases "find_last_of [CHR ''/'', BACKSLASH] v")
    case None
    then show ?thesis unfolding find_last_of_None by (auto dest: in_set_dropD)
  next
    case (Some s)
    have "set (drop d v) \<subseteq> set (drop (Suc s) v)" using sl [OF Some] by (simp add: set_drop_subset_set_drop)
    then show ?thesis using find_last_of_Some [OF Some] by blast
  qed
  then show ?thesis
    using d dot by (intro exI [of _ "take d v"]) (auto simp: hd_drop_conv_nth tl_drop drop_Suc)
qed simp

end
