(* ===== verification/Body_Parsers.thy ===== *)
theory Body_Parsers
  imports File_Helpers
begin

text \<open>
  The parsers of complete request bodies and query strings: \<open>parse_query_string\<close>
  (src/http/core/connection.cpp), \<open>parse_form_urlencoded\<close>, \<open>parse_json_body\<close> and
  \<open>parse_multipart_form_data\<close> (src/http/core/parser.cpp). A position in the text that only moves
  forward is modelled by the rest of the text; \<open>parse_multipart_form_data\<close>, which searches from
  positions, keeps them. The result is the returned flag and the map, filled as far as the
  parser got.
\<close>

subsection \<open>URL-encoded forms and query strings\<close>

definition urlencoded_item :: "string \<Rightarrow> smap \<Rightarrow> smap" where
  "urlencoded_item item m =
     (if item = [] then m
      else let (key, value) = (case find_char (CHR ''='') item of
                 None \<Rightarrow> (url_decode item, [])
               | Some eq \<Rightarrow> (url_decode (take eq item), url_decode (drop (eq + 1) item)))
           in if key \<noteq> [] then smap_set key value m else m)"

function urlencoded_loop :: "string \<Rightarrow> smap \<Rightarrow> smap" where
  "urlencoded_loop s m =
     (case find_char (CHR ''&'') s of
        None \<Rightarrow> urlencoded_item s m
      | Some e \<Rightarrow> urlencoded_loop (drop (e + 1) s) (urlencoded_item (take e s) m))"
  by pat_completeness auto
termination
  by (relation "measure (\<lambda>(s, m). length s)") (auto dest: find_char_Some)

declare urlencoded_loop.simps [simp del]

definition parse_query_string :: "string \<Rightarrow> smap \<Rightarrow> smap" where
  "parse_query_string query_string query = urlencoded_loop query_string query"

definition parse_form_urlencoded :: "string \<Rightarrow> smap \<Rightarrow> bool \<times> smap" where
  "parse_form_urlencoded body form = (True, urlencoded_loop body form)"

subsection \<open>JSON objects\<close>

text \<open>
  A string after its opening quote: a backslash makes the next character literal, whatever it
  is; \<open>None\<close> when the text ends inside the string.
\<close>

fun json_scan_string :: "string \<Rightarrow> string \<Rightarrow> (string \<times> string) option" where
  "json_scan_string [] acc = None"
| "json_scan_string (c # cs) acc =
     (if c = BACKSLASH then
        (case cs of [] \<Rightarrow> None | d # ds \<Rightarrow> json_scan_string ds (acc @ [d]))
      else if c = QUOTE then Some (acc, cs)
      else json_scan_string cs (acc @ [c]))"

lemma json_scan_string_shorter [cursor_le]:
  "json_scan_string s acc = Some (v, r) \<Longrightarrow> length r < length s"
  by (induction s acc rule: json_scan_string.induct) (auto split: if_splits list.splits)

definition json_scan_value :: "string \<Rightarrow> (string \<times> string) option" where
  "json_scan_value s =
     (if hd s = QUOTE then json_scan_string (tl s) []
      else Some (trim_copy (takeWhile (\<lambda>c. c \<noteq> CHR '','' \<and> c \<noteq> CHR ''}'') s),
                 dropWhile (\<lambda>c. c \<noteq> CHR '','' \<and> c \<noteq> CHR ''}'') s))"

lemma json_scan_value_shorter [cursor_le]:
  "json_scan_value s = Some (v, r) \<Longrightarrow> s \<noteq> [] \<Longrightarrow> length r \<le> length s"
  using json_scan_string_shorter [of "tl s" "[]" v r] length_dropWhile_le
  by (auto simp: json_scan_value_def split: if_splits)

text \<open>One member: the key, the colon and the value; \<open>None\<close> is \<open>return false\<close>.\<close>

definition json_member :: "string \<Rightarrow> (string \<times> string \<times> string) option" where
  "json_member s =
     (case json_scan_string s [] of
        None \<Rightarrow> None
      | Some (key, r1) \<Rightarrow>
          (let r2 = dropWhile isspace r1 in
           if r2 = [] \<or> hd r2 \<noteq> CHR '':'' then None
           else let r3 = dropWhile isspace (tl r2) in
                if r3 = [] then None
                else case json_scan_value r3 of None \<Rightarrow> None | Some (v, r4) \<Rightarrow> Some (key, v, r4)))"

lemma json_member_shorter:
  assumes "json_member s = Some (k, v, r)"
  shows "length r < length s"
proof -
  obtain r1 where r1: "json_scan_string s [] = Some (k, r1)"
    using assms by (auto simp: json_member_def Let_def split: option.splits if_splits)
  define r3 where "r3 = dropWhile isspace (tl (dropWhile isspace r1))"
  have "json_scan_value r3 = Some (v, r)" "r3 \<noteq> []"
    using assms r1 by (auto simp: json_member_def r3_def Let_def split: option.splits if_splits)
  then have "length r \<le> length r3" by (rule json_scan_value_shorter)
  also have "length r3 \<le> length r1"
    unfolding r3_def using length_dropWhile_le [of isspace r1]
      length_dropWhile_le [of isspace "tl (dropWhile isspace r1)"] by simp
  also have "length r1 < length s" using r1 by (rule json_scan_string_shorter)
  finally show ?thesis .
qed

function json_loop :: "string \<Rightarrow> smap \<Rightarrow> bool \<times> smap" where
  "json_loop s m =
     (let s1 = dropWhile isspace s in
      if s1 = [] then (True, m)
      else if hd s1 = CHR '','' then json_loop (tl s1) m
      else if hd s1 \<noteq> QUOTE then (False, m)
      else case json_member (tl s1) of
             None \<Rightarrow> (False, m)
           | Some (key, value, r) \<Rightarrow>
               let r5 = dropWhile isspace r;
                   r6 = (if r5 \<noteq> [] \<and> hd r5 = CHR '','' then tl r5 else r5)
               in json_loop r6 (if key \<noteq> [] then smap_set key value m else m))"
  by pat_completeness auto
termination
proof (relation "measure (\<lambda>(s, m). length s)", goal_cases)
  case (2 s m x)
  have "length (tl x) < length x" using 2(2) by (cases x) auto
  moreover have "length x \<le> length s" using 2(1) length_dropWhile_le by auto
  ultimately show ?case by simp
next
  case (3 s m x y k z v r xa xb)
  have "length r < length (tl x)" using 3(5-7) json_member_shorter [of "tl x" k v r] by simp
  moreover have "length xb \<le> length r"
    using 3(8,9) length_dropWhile_le [of isspace r] by auto
  moreover have "length x \<le> length s" using 3(1) length_dropWhile_le by auto
  ultimately show ?case by simp
qed simp

declare json_loop.simps [simp del]

definition parse_json_body :: "string \<Rightarrow> smap \<Rightarrow> bool \<times> smap" where
  "parse_json_body body m =
     (let text = trim_copy body in
      if text = [] then (True, m)
      else if length text < 2 \<or> hd text \<noteq> CHR ''{'' \<or> last text \<noteq> CHR ''}'' then (False, m)
      else json_loop (butlast (tl text)) m)"

subsection \<open>Multipart bodies held in memory\<close>

text \<open>The headers of one part: the field name, the file name and the content type.\<close>

function part_headers :: "string \<Rightarrow> string \<times> string \<times> string \<Rightarrow> string \<times> string \<times> string" where
  "part_headers block (name, filename, ctype) =
     (let (line, rest) = (case find_sub CRLF block of
             None \<Rightarrow> (block, None) | Some e \<Rightarrow> (take e block, Some (drop (e + 2) block)));
          hdrs = (if strncaseeq line ''Content-Disposition:'' 20
                    then (header_param_value line ''name'', header_param_value line ''filename'', ctype)
                    else if strncaseeq line ''Content-Type:'' 13 then (name, filename, trim_copy (drop 13 line))
                    else (name, filename, ctype))
      in case rest of None \<Rightarrow> hdrs | Some r \<Rightarrow> part_headers r hdrs)"
  by pat_completeness auto
termination
  by (relation "measure (\<lambda>(b, f). length b)")
     (auto dest!: find_sub_Some split: option.splits)

declare part_headers.simps [simp del]

definition add_part :: "string \<times> string \<times> string \<Rightarrow> string \<Rightarrow> smap \<Rightarrow> smap" where
  "add_part hdrs value m =
     (let (name, filename, ctype) = hdrs in
      if name = [] then m
      else if filename \<noteq> [] then
        let m1 = smap_set ''content'' value (smap_set ''filename'' (sanitize_filename filename)
                   (smap_set name value m))
        in if ctype \<noteq> [] then smap_set ''content_type'' ctype (smap_set (name @ ''_content_type'') ctype m1)
           else m1
      else smap_set name value m)"

text \<open>
  One round of the loop: \<open>Inl result\<close> leaves it (\<open>break\<close> or \<open>return false\<close>), \<open>Inr\<close> continues at
  the next boundary. \<open>body.compare(p, 2, x) == 0\<close> compares the at most two bytes there with \<open>x\<close>.
\<close>

definition multipart_part :: "string \<Rightarrow> string \<Rightarrow> nat \<Rightarrow> smap \<Rightarrow> (bool \<times> smap) + (nat \<times> smap)" where
  "multipart_part boundary body part_start m =
     (case find_from (CRLF @ CRLF) body part_start of
        None \<Rightarrow> Inl (False, m)
      | Some header_end \<Rightarrow>
          (case find_from (CRLF @ boundary) body (header_end + 4) of
             None \<Rightarrow> Inl (False, m)
           | Some next_boundary \<Rightarrow>
               let block = take (header_end - part_start) (drop part_start body);
                   value = take (next_boundary - (header_end + 4)) (drop (header_end + 4) body)
               in Inr (next_boundary, add_part (part_headers block ([], [], [])) value m)))"

definition multipart_round :: "string \<Rightarrow> string \<Rightarrow> nat \<Rightarrow> smap \<Rightarrow> (bool \<times> smap) + (nat \<times> smap)" where
  "multipart_round boundary body pos m =
     (case (if pos = 0 then find_from boundary body pos else find_from (CRLF @ boundary) body pos) of
        None \<Rightarrow> Inl (m \<noteq> [], m)
      | Some start \<Rightarrow>
          let boundary_start = (if pos \<noteq> 0 then start + 2 else start);
              p0 = boundary_start + length boundary
          in if p0 + 1 < length body \<and> take 2 (drop p0 body) = ''--'' then Inl (m \<noteq> [], m)
             else multipart_part boundary body
               (if p0 + 2 \<le> length body \<and> take 2 (drop p0 body) = CRLF then p0 + 2 else p0) m)"

lemma find_from_bounds: "find_from p t pos = Some i \<Longrightarrow> pos \<le> i \<and> i + length p \<le> length t"
  by (auto simp: find_from_def split: if_splits dest!: find_sub_Some)

lemma add_part_ok: "smap_ok m \<Longrightarrow> smap_ok (add_part h v m)"
  by (auto simp: add_part_def Let_def split: prod.splits)

lemma multipart_part_Inr:
  assumes "multipart_part boundary body p m = Inr (next, m')"
  shows "p + 4 \<le> next" "next < length body" "smap_ok m \<Longrightarrow> smap_ok m'"
  using assms
  by (auto simp: multipart_part_def Let_def split: option.splits dest!: find_from_bounds intro: add_part_ok)

lemma multipart_part_Inl: "multipart_part boundary body p m = Inl (b, m') \<Longrightarrow> m' = m"
  by (auto simp: multipart_part_def Let_def split: option.splits)

lemma multipart_round_advances:
  assumes "multipart_round boundary body pos m = Inr (next, m')"
  shows "pos < next \<and> next < length body"
proof -
  let ?sf = "if pos = 0 then find_from boundary body pos else find_from (CRLF @ boundary) body pos"
  obtain start where st: "?sf = Some start"
    using assms by (cases ?sf) (auto simp: multipart_round_def)
  define p0 where "p0 = (if pos \<noteq> 0 then start + 2 else start) + length boundary"
  define ps where "ps = (if p0 + 2 \<le> length body \<and> take 2 (drop p0 body) = CRLF then p0 + 2 else p0)"
  have part: "multipart_part boundary body ps m = Inr (next, m')"
    using assms unfolding multipart_round_def st option.case Let_def p0_def [symmetric] ps_def [symmetric]
    by (simp split: if_splits)
  have "pos \<le> start" using st by (auto split: if_splits dest: find_from_bounds)
  moreover have "start \<le> ps" by (simp add: ps_def p0_def)
  ultimately show ?thesis using multipart_part_Inr(1,2) [OF part] by simp
qed

function multipart_loop :: "string \<Rightarrow> string \<Rightarrow> nat \<Rightarrow> smap \<Rightarrow> bool \<times> smap" where
  "multipart_loop boundary body pos m =
     (case multipart_round boundary body pos m of
        Inl result \<Rightarrow> result
      | Inr (next, m') \<Rightarrow> multipart_loop boundary body next m')"
  by pat_completeness auto
termination
  by (relation "measure (\<lambda>(boundary, body, pos, m). length body - pos)")
     (auto dest: multipart_round_advances)

declare multipart_loop.simps [simp del]

definition parse_multipart_form_data :: "string \<Rightarrow> string \<Rightarrow> smap \<Rightarrow> bool \<times> smap" where
  "parse_multipart_form_data content_type body m =
     (case find_sub ''boundary='' content_type of
        None \<Rightarrow> (False, m)
      | Some pos \<Rightarrow> multipart_loop (''--'' @ trim_copy (drop (pos + 9) content_type)) body 0 m)"

subsection \<open>Maps stay maps\<close>

lemma urlencoded_item_ok: "smap_ok m \<Longrightarrow> smap_ok (urlencoded_item item m)"
  by (auto simp: urlencoded_item_def Let_def split: prod.splits)

lemma urlencoded_loop_ok: "smap_ok m \<Longrightarrow> smap_ok (urlencoded_loop s m)"
proof (induction s m rule: urlencoded_loop.induct)
  case (1 s m)
  then show ?case
    by (subst urlencoded_loop.simps) (auto split: option.splits intro: urlencoded_item_ok)
qed

lemma json_loop_ok: "smap_ok m \<Longrightarrow> smap_ok (snd (json_loop s m))"
proof (induction s m rule: json_loop.induct)
  case (1 s m)
  then show ?case
    by (subst json_loop.simps) (auto simp: Let_def simp del: dropWhile_eq_Nil_conv split: option.splits)
qed

lemma multipart_round_cases:
  "multipart_round bd body pos m = Inl (m \<noteq> [], m)
   \<or> (\<exists>p. multipart_round bd body pos m = multipart_part bd body p m)"
proof (cases "if pos = 0 then find_from bd body pos else find_from (CRLF @ bd) body pos")
  case None
  then show ?thesis unfolding multipart_round_def None by simp
next
  case (Some start)
  show ?thesis unfolding multipart_round_def Some option.case Let_def by (rule if_split [THEN iffD2]) blast
qed

lemma multipart_round_ok:
  assumes "smap_ok m"
  shows "multipart_round bd body pos m = Inl (b, m') \<Longrightarrow> smap_ok m'"
    and "multipart_round bd body pos m = Inr (p, m') \<Longrightarrow> smap_ok m'"
  using assms multipart_part_Inr(3) multipart_part_Inl multipart_round_cases [of bd body pos m] by fastforce+

lemma multipart_loop_ok: "smap_ok m \<Longrightarrow> smap_ok (snd (multipart_loop bd body pos m))"
proof (induction bd body pos m rule: multipart_loop.induct)
  case (1 bd body pos m)
  show ?case
  proof (cases "multipart_round bd body pos m")
    case (Inl r)
    then show ?thesis
      using multipart_round_ok(1) [OF 1(2), of bd body pos] by (subst multipart_loop.simps) (cases r, auto)
  next
    case (Inr r)
    then show ?thesis
      using multipart_round_ok(2) [OF 1(2), of bd body pos] 1(1) [of r "fst r" "snd r"]
      by (subst multipart_loop.simps) (cases r, auto)
  qed
qed

subsection \<open>Round trip of forms\<close>

text \<open>The encoder of a form: every key and value percent-encoded, \<open>=\<close> between, \<open>&\<close> between pairs.\<close>

definition encode_text :: "string \<Rightarrow> string" where
  "encode_text s = concat (map percent_encode s)"

fun encode_form :: "(string \<times> string) list \<Rightarrow> string" where
  "encode_form [] = []"
| "encode_form [(k, v)] = encode_text k @ ''='' @ encode_text v"
| "encode_form ((k, v) # p # ps) = encode_text k @ ''='' @ encode_text v @ ''&'' @ encode_form (p # ps)"

definition set_all :: "(string \<times> string) list \<Rightarrow> smap \<Rightarrow> smap" where
  "set_all kvs m = fold (\<lambda>(k, v). smap_set k v) kvs m"

lemma set_encode_text: "c \<in> set (encode_text s) \<Longrightarrow> unreserved c \<or> c = CHR ''%''"
  by (auto simp: encode_text_def percent_encode_def split: if_splits)

lemma encode_text_no_delims: "CHR ''='' \<notin> set (encode_text s)" "CHR ''&'' \<notin> set (encode_text s)"
  by (auto dest!: set_encode_text simp: unreserved_def ctype_defs)

lemma url_decode_encode_text [simp]: "url_decode (encode_text s) = s"
  by (induction s) (simp_all add: encode_text_def url_decode_percent_encode)

lemma urlencoded_item_pair:
  "k \<noteq> [] \<Longrightarrow> urlencoded_item (encode_text k @ ''='' @ encode_text v) m = smap_set k v m"
  using find_char_append [OF encode_text_no_delims(1) [of k], of "encode_text v"]
  by (simp add: urlencoded_item_def)

lemma urlencoded_loop_encode_form:
  "\<forall>(k, v) \<in> set kvs. k \<noteq> [] \<Longrightarrow> urlencoded_loop (encode_form kvs) m = set_all kvs m"
proof (induction kvs arbitrary: m rule: encode_form.induct)
  case 1
  show ?case by (subst urlencoded_loop.simps) (simp add: urlencoded_item_def set_all_def)
next
  case (2 k v)
  have "find_char (CHR ''&'') (encode_text k @ ''='' @ encode_text v) = None"
    using encode_text_no_delims(2) by (simp add: find_char_None_iff)
  then show ?case using 2 urlencoded_item_pair [of k v m]
    by (subst urlencoded_loop.simps) (simp add: set_all_def)
next
  case (3 k v p ps)
  let ?item = "encode_text k @ ''='' @ encode_text v"
  have "CHR ''&'' \<notin> set ?item" using encode_text_no_delims(2) by simp
  from find_char_append [OF this, of "encode_form (p # ps)"]
  have f: "find_char (CHR ''&'') (encode_form ((k, v) # p # ps)) = Some (length ?item)" by simp
  have "urlencoded_loop (encode_form ((k, v) # p # ps)) m
      = urlencoded_loop (encode_form (p # ps)) (urlencoded_item ?item m)"
    by (subst urlencoded_loop.simps) (simp only: f option.case, simp)
  also have "\<dots> = set_all (p # ps) (smap_set k v m)"
    using 3 urlencoded_item_pair [of k v m] by simp
  finally show ?case by (simp add: set_all_def)
qed

text \<open>
  A form or query string that a client encodes from any list of keys and values
  (no empty key) is parsed back into exactly those assignments, in order, later ones winning.
\<close>

lemma parse_form_urlencoded_roundtrip:
  assumes "\<forall>(k, v) \<in> set kvs. k \<noteq> []"
  shows "parse_form_urlencoded (encode_form kvs) [] = (True, set_all kvs [])
    \<and> parse_query_string (encode_form kvs) [] = set_all kvs []"
  using urlencoded_loop_encode_form [OF assms]
  by (simp add: parse_form_urlencoded_def parse_query_string_def)

lemma parse_form_urlencoded_roundtrip_witness:
  "parse_form_urlencoded (encode_form [(''user'', ''a&b=c''), (''pw'', ''x y%'')]) []
     = (True, [(''pw'', ''x y%''), (''user'', ''a&b=c'')])"
proof -
  have "set_all [(''user'', ''a&b=c''), (''pw'', ''x y%'')] [] = [(''pw'', ''x y%''), (''user'', ''a&b=c'')]"
    by code_simp
  then show ?thesis
    using parse_form_urlencoded_roundtrip [of "[(''user'', ''a&b=c''), (''pw'', ''x y%'')]"] by simp
qed

subsection \<open>Round trip of JSON objects\<close>

definition json_pair :: "string \<times> string \<Rightarrow> string" where
  "json_pair p = [QUOTE] @ json_escape (fst p) @ [QUOTE, CHR '':'', QUOTE] @ json_escape (snd p) @ [QUOTE]"

fun json_pairs :: "(string \<times> string) list \<Rightarrow> string" where
  "json_pairs [] = []"
| "json_pairs [p] = json_pair p"
| "json_pairs (p # q # ps) = json_pair p @ '','' @ json_pairs (q # ps)"

definition json_object :: "(string \<times> string) list \<Rightarrow> string" where
  "json_object ps = ''{'' @ json_pairs ps @ ''}''"

text \<open>Text without control bytes: what \<open>json_escape\<close> marks in it is quotes and backslashes only.\<close>

definition plain_text :: "string \<Rightarrow> bool" where
  "plain_text s \<longleftrightarrow> (\<forall>c \<in> set s. 32 \<le> (of_char c :: nat))"

lemma json_scan_escape_char:
  assumes "32 \<le> (of_char c :: nat)"
  shows "json_scan_string (json_escape_char c @ r) acc = json_scan_string r (acc @ [c])"
proof -
  have "c \<noteq> LF" "c \<noteq> CR" "c \<noteq> TAB" using assms by auto
  then show ?thesis using assms by (auto simp: json_escape_char_def)
qed

lemma json_scan_escape:
  "plain_text s \<Longrightarrow> json_scan_string (json_escape s @ QUOTE # r) acc = Some (acc @ s, r)"
  by (induction s arbitrary: acc) (simp_all add: json_escape_def plain_text_def json_scan_escape_char)

lemma json_member_pair:
  assumes "plain_text k" "plain_text v"
  shows "json_member (json_escape k @ QUOTE # CHR '':'' # QUOTE # json_escape v @ QUOTE # r) = Some (k, v, r)"
  using assms json_scan_escape [of k "CHR '':'' # QUOTE # json_escape v @ QUOTE # r" "[]"]
    json_scan_escape [of v r "[]"]
  by (simp add: json_member_def json_scan_value_def Let_def isspace_def)

lemma json_loop_pair:
  assumes "plain_text k" "plain_text v" "k \<noteq> []" "r = [] \<or> hd r = CHR '',''"
  shows "json_loop (json_pair (k, v) @ r) m = json_loop (tl r) (smap_set k v m)"
proof -
  have sp: "\<not> isspace QUOTE" "\<not> isspace (CHR '','')" by (simp_all add: isspace_def)
  let ?t = "json_escape k @ QUOTE # CHR '':'' # QUOTE # json_escape v @ QUOTE # r"
  have "json_pair (k, v) @ r = QUOTE # ?t" by (simp add: json_pair_def)
  moreover have "dropWhile isspace r = r" using assms(4) sp by (cases r) auto
  moreover have "tl r = (if r \<noteq> [] \<and> hd r = CHR '','' then tl r else r)" using assms(4) by auto
  ultimately show ?thesis
    using json_member_pair [OF assms(1,2), of r] sp assms(3)
    by (subst json_loop.simps) (auto simp: Let_def simp del: dropWhile_eq_Nil_conv)
qed

lemma json_loop_pairs:
  "\<forall>(k, v) \<in> set ps. k \<noteq> [] \<and> plain_text k \<and> plain_text v \<Longrightarrow>
     json_loop (json_pairs ps) m = (True, set_all ps m)"
proof (induction ps arbitrary: m rule: json_pairs.induct)
  case 1
  show ?case by (subst json_loop.simps) (simp add: set_all_def)
next
  case (2 p)
  have "json_loop [] m' = (True, m')" for m' by (subst json_loop.simps) simp
  then show ?case using 2 json_loop_pair [of "fst p" "snd p" "[]" m]
    by (cases p) (simp add: set_all_def)
next
  case (3 p q ps)
  have "json_loop (json_pairs (p # q # ps)) m = json_loop (json_pairs (q # ps)) (smap_set (fst p) (snd p) m)"
    using 3(2) json_loop_pair [of "fst p" "snd p" "'','' @ json_pairs (q # ps)" m] by (cases p) simp
  then show ?case using 3 by (cases p) (simp add: set_all_def)
qed

text \<open>
  A flat JSON object of string members whose text has no control bytes, quotes and
  backslashes escaped as the server itself escapes them, is parsed back into exactly its
  members.
\<close>

lemma parse_json_body_roundtrip:
  assumes "\<forall>(k, v) \<in> set ps. k \<noteq> [] \<and> plain_text k \<and> plain_text v"
  shows "parse_json_body (json_object ps) [] = (True, set_all ps [])"
proof -
  have "trim_copy (json_object ps) = json_object ps"
    unfolding trim_copy_def by (rule trim_spaces_id) (simp_all add: json_object_def isspace_def)
  moreover have "butlast (tl (json_object ps)) = json_pairs ps" by (simp add: json_object_def)
  moreover have "hd (json_object ps) = CHR ''{''" "last (json_object ps) = CHR ''}''" "2 \<le> length (json_object ps)"
    by (simp_all add: json_object_def)
  ultimately show ?thesis
    using json_loop_pairs [OF assms] by (auto simp: parse_json_body_def Let_def)
qed

lemma parse_json_body_roundtrip_witness:
  "parse_json_body (json_object [(''name'', [QUOTE, CHR ''a'', BACKSLASH]), (''id'', ''7, 8}'')]) []
     = (True, [(''id'', ''7, 8}''), (''name'', [QUOTE, CHR ''a'', BACKSLASH])])"
proof -
  let ?ps = "[(''name'', [QUOTE, CHR ''a'', BACKSLASH]), (''id'', ''7, 8}'')]"
  have "set_all ?ps [] = [(''id'', ''7, 8}''), (''name'', [QUOTE, CHR ''a'', BACKSLASH])]" by code_simp
  moreover have "\<forall>(k, v) \<in> set ?ps. k \<noteq> [] \<and> plain_text k \<and> plain_text v" by (simp add: plain_text_def)
  ultimately show ?thesis using parse_json_body_roundtrip [of ?ps] by simp
qed

text \<open>
  The JSON parser drops the backslash of every escape, so a line feed that the
  server escapes as \<open>\n\<close> comes back as the letter n.
\<close>

lemma parse_json_body_loses_newline:
  "parse_json_body (json_object [(''a'', [CHR ''x'', LF, CHR ''y''])]) [] = (True, [(''a'', ''xny'')])"
  by code_simp

text \<open>
  The parameter \<open>name\<close> of a part header is searched as the text \<open>name=\<close>, which also
  occurs in \<open>filename=\<close>: with the file name first, the field gets the file name as its name.
\<close>

lemma header_param_value_confuses_filename:
  "header_param_value (''form-data; filename='' @ [QUOTE] @ ''a.txt'' @ [QUOTE] @ ''; name='' @ [QUOTE] @ ''file'' @ [QUOTE])
     ''name'' = ''a.txt''"
  by code_simp

end
