(* ===== verification/Http_Conn.thy ===== *)
theory Http_Conn
  imports Ring_Buffer Body_Parsers
begin

text \<open>
  The state of one connection (\<open>class HttpConnection\<close>, src/http/core/connection.h) beyond its
  buffers, its reset and cleanup (src/http/core/connection.cpp), and the spooling of a multipart
  body to a temporary file (src/http/files/file_response.cpp).

  \<open>m_host\<close> and \<open>m_version\<close> are pointers into \<open>m_read_buf\<close>: an allocation number and an offset.
  Reading one whose allocation is gone is \<open>UseAfterFree\<close>. \<open>m_url\<close> and \<open>m_query_string\<close> point
  into \<open>m_url_storage\<close> and \<open>m_query_string_storage\<close> once a request line is parsed, so the two
  strings stand for them, the empty string for a null pointer. The open spool file is the bytes
  written to it; \<open>m_filefd\<close> is the contents of the file that is being sent
  and \<open>m_file_pos\<close> the position of its file description. \<open>m_unlinked\<close> records
  the files the connection removed, in order, \<open>m_armed\<close> the event the socket was last armed for
  (\<open>modfd\<close>) and \<open>m_sock_open\<close> whether \<open>m_sockfd\<close> is a socket.
\<close>

subsection \<open>State\<close>

datatype check_state = CHECK_STATE_REQUESTLINE | CHECK_STATE_HEADER | CHECK_STATE_CONTENT

datatype line_status = LINE_OK | LINE_BAD | LINE_OPEN

datatype chunk_state = CHUNK_STATE_SIZE | CHUNK_STATE_DATA | CHUNK_STATE_DATA_CRLF
  | CHUNK_STATE_TRAILER | CHUNK_STATE_DONE

type_synonym buf_ptr = "nat \<times> nat"

record http_conn = conn_io +
  m_check_state :: check_state
  m_method :: http_method
  m_url_storage :: string
  m_query_string_storage :: string
  m_version :: "buf_ptr option"
  m_host :: "buf_ptr option"
  m_content_length :: int
  m_content_length_seen :: bool
  m_linger :: bool
  m_is_http_1_1 :: bool
  m_chunked :: bool
  m_chunk_state :: chunk_state
  m_chunked_parse_idx :: nat
  m_chunk_size :: nat
  m_chunk_bytes_read :: nat
  m_chunked_body_bytes_received :: nat
  m_cgi :: bool
  m_content_type :: string
  m_request_body :: string
  m_headers :: smap
  m_form_data :: smap
  m_json_data :: smap
  m_authorization :: string
  m_current_user :: string
  m_body_parse_error_status :: int
  m_body_parse_error_title :: string
  m_body_parse_error_message :: string
  m_stream_body_file :: "string option"
  m_stream_body_tmp_path :: string
  m_stream_body_bytes_received :: int
  m_upload_tmp_path :: string
  m_upload_tmp_filename :: string
  m_upload_tmp_content_type :: string
  m_upload_tmp_sha256 :: string
  m_upload_tmp_size :: int
  m_unlinked :: "string list"
  m_response_status :: int
  m_response_status_title :: string
  m_response_content_type :: string
  m_response_body_storage :: string
  m_extra_headers :: string
  m_filefd :: "string option"
  m_file_size :: int
  m_file_offset :: int
  bytes_to_send :: int
  bytes_have_send :: int
  m_header_bytes_sent :: int
  m_file_send_offset :: nat
  m_file_send_size :: nat
  m_file_pos :: nat
  m_tls_handshake_done :: bool
  m_armed :: "epoll_event option"
  m_sock_open :: bool

text \<open>The static limits and the document root, and the calls to the operating system.\<close>

record conn_env =
  env_doc_root :: string
  m_upload_max_bytes :: nat
  m_upload_request_overhead_bytes :: nat
  env_ensure_directory :: "string \<Rightarrow> bool"
  env_rand :: "nat \<Rightarrow> string option"
  env_fopen :: "string \<Rightarrow> bool"
  env_fwrite :: "string \<Rightarrow> nat"

definition storage_root :: "string \<Rightarrow> string" where
  "storage_root doc_root = doc_root @ ''/uploads''"

definition temp_root :: "string \<Rightarrow> string" where
  "temp_root doc_root = storage_root doc_root @ ''/.tmp''"

definition storage_file_path :: "string \<Rightarrow> string \<Rightarrow> string" where
  "storage_file_path doc_root stored_name = storage_root doc_root @ ''/'' @ stored_name"

text \<open>Reading the C string a pointer into \<open>m_read_buf\<close> refers to.\<close>

definition read_ptr :: "buf_ptr \<Rightarrow> http_conn \<Rightarrow> string cxx" where
  "read_ptr p c = (if fst p = m_read_alloc c then Inr (c_str (drop (snd p) (m_read_buf c))) else Inl UseAfterFree)"

subsection \<open>Reset and cleanup\<close>

definition reset_request_parser_state :: "http_conn \<Rightarrow> http_conn" where
  "reset_request_parser_state c =
     c\<lparr>m_read_ring := reset_ring_buffer (rb_buffer (m_read_ring c)) (length (rb_buffer (m_read_ring c))),
       m_read_idx := 0, m_checked_idx := 0, m_body_start_idx := 0, m_start_line := 0,
       m_check_state := CHECK_STATE_REQUESTLINE, m_content_length_seen := False,
       m_chunk_state := CHUNK_STATE_SIZE, m_chunked_parse_idx := 0, m_chunk_size := 0,
       m_chunk_bytes_read := 0, m_chunked_body_bytes_received := 0,
       m_read_buf := (m_read_buf c)[0 := NUL]\<rparr>"

definition unlink_if :: "string \<Rightarrow> http_conn \<Rightarrow> http_conn" where
  "unlink_if path c = (if path \<noteq> [] then c\<lparr>m_unlinked := m_unlinked c @ [path]\<rparr> else c)"

definition cleanup_temp_upload_state :: "http_conn \<Rightarrow> http_conn" where
  "cleanup_temp_upload_state c =
     (unlink_if (m_upload_tmp_path c) (unlink_if (m_stream_body_tmp_path c) c))
     \<lparr>m_stream_body_file := None, m_stream_body_tmp_path := [], m_upload_tmp_path := [],
      m_stream_body_bytes_received := 0, m_upload_tmp_filename := [], m_upload_tmp_content_type := [],
      m_upload_tmp_sha256 := [], m_upload_tmp_size := 0\<rparr>"

definition fill_ring :: "ring_buffer \<Rightarrow> ring_buffer" where
  "fill_ring r = reset_ring_buffer (replicate (length (rb_buffer r)) NUL) (length (rb_buffer r))"

definition init :: "http_conn \<Rightarrow> http_conn cxx" where
  "init c0 =
     (let c1 = snd (ensure_read_capacity (int READ_BUFFER_INITIAL_SIZE) c0) in
      case ensure_write_capacity (int WRITE_BUFFER_INITIAL_SIZE) c1 of
        Inl u \<Rightarrow> Inl u
      | Inr (_, c2) \<Rightarrow>
          let c = cleanup_temp_upload_state c2 in
          Inr (c\<lparr>m_has_new_data := False, bytes_to_send := 0, bytes_have_send := 0, m_header_bytes_sent := 0,
              m_file_offset := 0, m_filefd := None, m_file_send_offset := 0, m_file_send_size := 0,
              m_check_state := CHECK_STATE_REQUESTLINE, m_linger := False, m_method := GET,
              m_version := None, m_content_length := 0, m_content_length_seen := False, m_host := None,
              m_is_http_1_1 := False, m_chunked := False, m_chunk_state := CHUNK_STATE_SIZE,
              m_chunked_parse_idx := 0, m_chunk_size := 0, m_chunk_bytes_read := 0,
              m_chunked_body_bytes_received := 0, m_start_line := 0, m_checked_idx := 0,
              m_body_start_idx := 0, m_read_idx := 0, m_write_idx := 0, m_cgi := False,
              m_response_status := 200, m_request_body := [], m_url_storage := [],
              m_query_string_storage := [], m_response_body_storage := [], m_extra_headers := [],
              m_headers := [], m_form_data := [], m_json_data := [], m_authorization := [],
              m_current_user := [], m_body_parse_error_status := 0, m_body_parse_error_title := [],
              m_body_parse_error_message := [], m_stream_body_file := None, m_stream_body_tmp_path := [],
              m_stream_body_bytes_received := 0, m_upload_tmp_path := [], m_upload_tmp_filename := [],
              m_upload_tmp_content_type := [], m_upload_tmp_sha256 := [], m_upload_tmp_size := 0,
              m_content_type := [], m_response_content_type := ''text/html'', m_response_status_title := ''OK'',
              m_read_buf := replicate (length (m_read_buf c)) NUL,
              m_write_buf := replicate (length (m_write_buf c)) NUL,
              m_file_send_buf := replicate (length (m_file_send_buf c)) NUL,
              m_read_ring := fill_ring (m_read_ring c), m_write_ring := fill_ring (m_write_ring c)\<rparr>))"

definition close_file :: "http_conn \<Rightarrow> http_conn" where
  "close_file c = c\<lparr>m_filefd := None\<rparr>"

text \<open>\<open>modfd\<close> arms the socket, registered with \<open>EPOLLONESHOT\<close>, for one more event.\<close>

definition modfd :: "epoll_event \<Rightarrow> http_conn \<Rightarrow> http_conn" where
  "modfd ev c = c\<lparr>m_armed := Some ev\<rparr>"

definition release_connection_memory :: "http_conn \<Rightarrow> http_conn" where
  "release_connection_memory c =
     c\<lparr>m_read_buf := [], m_read_alloc := m_read_alloc c + 1, m_write_buf := [], m_file_send_buf := [],
       m_read_ring := reset_ring_buffer [] 0, m_write_ring := reset_ring_buffer [] 0,
       m_request_body := [], m_url_storage := [], m_query_string_storage := [],
       m_response_body_storage := [], m_extra_headers := [], m_authorization := [], m_current_user := [],
       m_body_parse_error_title := [], m_body_parse_error_message := [], m_stream_body_tmp_path := [],
       m_upload_tmp_path := [], m_upload_tmp_filename := [], m_upload_tmp_content_type := [],
       m_upload_tmp_sha256 := [], m_headers := [], m_form_data := [], m_json_data := [],
       m_version := None, m_host := None, m_read_idx := 0, m_checked_idx := 0, m_body_start_idx := 0,
       m_write_idx := 0, bytes_to_send := 0, bytes_have_send := 0\<rparr>"

definition close_conn_locked :: "http_conn \<Rightarrow> http_conn" where
  "close_conn_locked c =
     (if m_sock_open c
      then release_connection_memory
             ((close_file (cleanup_temp_upload_state c))\<lparr>m_armed := None, m_sock_open := False\<rparr>)
      else c)"

subsection \<open>Spooling a multipart body\<close>

definition begin_streamed_body_capture :: "conn_env \<Rightarrow> http_conn \<Rightarrow> bool \<times> http_conn" where
  "begin_streamed_body_capture env c =
     (if m_stream_body_file c \<noteq> None then (True, c)
      else if \<not> env_ensure_directory env (storage_root (env_doc_root env))
           \<or> \<not> env_ensure_directory env (temp_root (env_doc_root env)) then (False, c)
      else let token = make_session_token (env_rand env) in
           if token = [] then (False, c)
           else let path = temp_root (env_doc_root env) @ ''/body-'' @ token @ ''.tmp'' in
                if \<not> env_fopen env path then (False, c\<lparr>m_stream_body_tmp_path := [], m_stream_body_file := None\<rparr>)
                else (True, c\<lparr>m_stream_body_tmp_path := path, m_stream_body_file := Some [],
                              m_stream_body_bytes_received := 0, m_request_body := []\<rparr>))"

definition upload_limit :: "conn_env \<Rightarrow> int" where
  "upload_limit env = int (m_upload_max_bytes env + m_upload_request_overhead_bytes env)"

definition append_streamed_body_chunk :: "conn_env \<Rightarrow> string \<Rightarrow> http_conn \<Rightarrow> bool \<times> http_conn" where
  "append_streamed_body_chunk env d c =
     (case m_stream_body_file c of
        None \<Rightarrow> (False, c)
      | Some written \<Rightarrow>
          let body_limit = (if m_chunked c then upload_limit env else m_content_length c) in
          if m_stream_body_bytes_received c + int (length d) > body_limit
          then (False, c\<lparr>m_body_parse_error_status := (if m_chunked c then 413 else 400),
                  m_body_parse_error_title := (if m_chunked c then ''Payload Too Large'' else ''Bad Request''),
                  m_body_parse_error_message := (if m_chunked c
                    then ''upload exceeds limit of '' @ nat_to_string (m_upload_max_bytes env) @ '' bytes''
                    else ''request body overflow'')\<rparr>)
          else if d = [] then (True, c)
          else if env_fwrite env d \<noteq> length d
          then (False, c\<lparr>m_stream_body_file := Some (written @ take (env_fwrite env d) d),
                  m_body_parse_error_status := 500, m_body_parse_error_title := ''Internal Error'',
                  m_body_parse_error_message := ''failed to spool multipart body''\<rparr>)
          else (True, c\<lparr>m_stream_body_file := Some (written @ d),
                  m_stream_body_bytes_received := m_stream_body_bytes_received c + int (length d)\<rparr>))"

definition reset_streamed_body_buffer :: "http_conn \<Rightarrow> http_conn" where
  "reset_streamed_body_buffer c =
     c\<lparr>m_read_ring := reset_ring_buffer (rb_buffer (m_read_ring c)) (length (rb_buffer (m_read_ring c))),
       m_read_idx := 0, m_checked_idx := 0, m_body_start_idx := 0, m_start_line := 0,
       m_check_state := CHECK_STATE_CONTENT, m_read_buf := (m_read_buf c)[0 := NUL]\<rparr>"

definition flush_streamed_body_from_read_buffer :: "conn_env \<Rightarrow> http_conn \<Rightarrow> bool \<times> http_conn" where
  "flush_streamed_body_from_read_buffer env c =
     (if m_stream_body_file c = None \<or> m_check_state c \<noteq> CHECK_STATE_CONTENT then (True, c)
      else let c1 = sync_read_buffer c;
               available = int (m_read_idx c1) - int (m_body_start_idx c1);
               remaining = m_content_length c1 - m_stream_body_bytes_received c1;
               chunk_len = (if available > remaining then remaining else available)
           in if available \<le> 0 \<or> chunk_len \<le> 0 then (True, c1)
              else case append_streamed_body_chunk env
                     (take (nat chunk_len) (drop (m_body_start_idx c1) (m_read_buf c1))) c1 of
                     (False, c2) \<Rightarrow> (False, c2)
                   | (True, c2) \<Rightarrow> (True, reset_streamed_body_buffer c2))"

subsection \<open>What they do\<close>

text \<open>The spool file holds exactly the bytes counted, and never more than the limit.\<close>

definition spool_ok :: "conn_env \<Rightarrow> http_conn \<Rightarrow> bool" where
  "spool_ok env c \<longleftrightarrow> (case m_stream_body_file c of
      None \<Rightarrow> True
    | Some w \<Rightarrow> m_stream_body_bytes_received c = int (length w)
        \<and> m_stream_body_bytes_received c \<le> (if m_chunked c then upload_limit env else m_content_length c))"

lemma append_streamed_ok:
  assumes "spool_ok env c" "append_streamed_body_chunk env d c = (True, c')"
  shows "spool_ok env c'" "\<exists>w. m_stream_body_file c = Some w \<and> m_stream_body_file c' = Some (w @ d)"
  using assms
  by (auto simp: append_streamed_body_chunk_def spool_ok_def Let_def split: option.splits if_splits)

lemma cleanup_unlinks:
  "m_unlinked (cleanup_temp_upload_state c)
     = m_unlinked c @ filter (\<lambda>p. p \<noteq> []) [m_stream_body_tmp_path c, m_upload_tmp_path c]"
  by (simp add: cleanup_temp_upload_state_def unlink_if_def)

text \<open>
  Cleaning up a connection removes every temporary file it still owns, exactly once:
  the paths are unlinked and forgotten, so a second cleanup removes nothing.
\<close>

lemma cleanup_removes_each_temp_file_once:
  "let c' = cleanup_temp_upload_state c in
     m_unlinked c' = m_unlinked c @ filter (\<lambda>p. p \<noteq> []) [m_stream_body_tmp_path c, m_upload_tmp_path c]
     \<and> m_stream_body_tmp_path c' = [] \<and> m_upload_tmp_path c' = [] \<and> m_stream_body_file c' = None
     \<and> cleanup_temp_upload_state c' = c'"
proof -
  have "unlink_if [] c = c" for c by (simp add: unlink_if_def)
  then show ?thesis
    by (simp add: Let_def cleanup_unlinks) (simp add: cleanup_temp_upload_state_def)
qed

text \<open>A fresh connection with buffers of \<open>n\<close> bytes, and an environment whose disk takes every write.\<close>

definition fresh_conn :: "nat \<Rightarrow> http_conn" where
  "fresh_conn n = \<lparr>m_read_ring = reset_ring_buffer (replicate n NUL) n, m_read_buf = replicate (n + 1) NUL,
     m_read_alloc = 0, m_read_idx = 0, m_checked_idx = 0, m_body_start_idx = 0, m_start_line = 0,
     m_write_ring = reset_ring_buffer (replicate n NUL) n, m_write_buf = replicate (n + 1) NUL, m_write_idx = 0,
     m_file_send_buf = replicate n NUL, m_has_new_data = False,
     m_tls = \<lparr>m_https_enabled = False, m_tls_want_event = EPOLLIN, m_errno = EOTHER\<rparr>,
     m_check_state = CHECK_STATE_REQUESTLINE, m_method = GET, m_url_storage = [], m_query_string_storage = [],
     m_version = None, m_host = None, m_content_length = 0, m_content_length_seen = False, m_linger = False,
     m_is_http_1_1 = False, m_chunked = False, m_chunk_state = CHUNK_STATE_SIZE, m_chunked_parse_idx = 0,
     m_chunk_size = 0, m_chunk_bytes_read = 0, m_chunked_body_bytes_received = 0, m_cgi = False,
     m_content_type = [], m_request_body = [], m_headers = [], m_form_data = [], m_json_data = [],
     m_authorization = [], m_current_user = [], m_body_parse_error_status = 0, m_body_parse_error_title = [],
     m_body_parse_error_message = [], m_stream_body_file = None, m_stream_body_tmp_path = [],
     m_stream_body_bytes_received = 0, m_upload_tmp_path = [], m_upload_tmp_filename = [],
     m_upload_tmp_content_type = [], m_upload_tmp_sha256 = [], m_upload_tmp_size = 0, m_unlinked = [],
     m_response_status = 200, m_response_status_title = ''OK'', m_response_content_type = ''text/html'',
     m_response_body_storage = [], m_extra_headers = [], m_filefd = None, m_file_size = 0, m_file_offset = 0,
     bytes_to_send = 0, bytes_have_send = 0, m_header_bytes_sent = 0,
     m_file_send_offset = 0, m_file_send_size = 0, m_file_pos = 0,
     m_tls_handshake_done = True, m_armed = Some EPOLLIN, m_sock_open = True\<rparr>"

definition sample_env :: conn_env where
  "sample_env = \<lparr>env_doc_root = ''/srv'', m_upload_max_bytes = 100, m_upload_request_overhead_bytes = 20,
     env_ensure_directory = (\<lambda>_. True), env_rand = (\<lambda>n. Some (replicate n (CHR 0x5A))),
     env_fopen = (\<lambda>_. True), env_fwrite = length\<rparr>"

end
