(* ===== verification/Storage.thy ===== *)
theory Storage
  imports Http_Conn
begin

text \<open>
  The storage layer (src/infra/storage/storage.cpp) on a disk of regular files and directories.
  What the operating system refuses is an argument: a deletion, a rename (with the reason), the
  opening of a stream, a write. SHA-256 is an argument too, and so is whether the digest calls
  succeed.
\<close>

subsection \<open>Files\<close>

record disk =
  d_files :: "string \<rightharpoonup> string"
  d_dirs :: "string \<Rightarrow> bool"

datatype rename_result = RenameOk | RenameXdev | RenameError

record disk_env =
  de_unlink :: "string \<Rightarrow> bool"
  de_rename :: "string \<Rightarrow> string \<Rightarrow> rename_result"
  de_open_in :: "string \<Rightarrow> bool"
  de_open_out :: "string \<Rightarrow> bool"
  de_write :: "string \<Rightarrow> string \<Rightarrow> bool"
  de_mkdir :: "string \<Rightarrow> bool"

definition disk_ensure_directory :: "disk_env \<Rightarrow> string \<Rightarrow> disk \<Rightarrow> bool \<times> disk" where
  "disk_ensure_directory env path d =
     (if d_dirs d path \<or> d_files d path \<noteq> None then (d_dirs d path, d)
      else if de_mkdir env path then (True, d\<lparr>d_dirs := (d_dirs d)(path := True)\<rparr>)
      else (False, d))"

definition file_exists :: "string \<Rightarrow> disk \<Rightarrow> bool" where
  "file_exists path d \<longleftrightarrow> d_files d path \<noteq> None \<and> \<not> d_dirs d path"

definition file_size :: "string \<Rightarrow> disk \<Rightarrow> int option" where
  "file_size path d = (if d_dirs d path then None else map_option (\<lambda>c. int (length c)) (d_files d path))"

text \<open>A path that does not exist counts as removed (\<open>ENOENT\<close>).\<close>

definition remove_file :: "disk_env \<Rightarrow> string \<Rightarrow> disk \<Rightarrow> bool \<times> disk" where
  "remove_file env path d =
     (if path = [] then (True, d)
      else if d_dirs d path then (False, d)
      else if d_files d path = None then (True, d)
      else if de_unlink env path then (True, d\<lparr>d_files := (d_files d)(path := None)\<rparr>)
      else (False, d))"

text \<open>Writing a whole file: the stream truncates it first; a failed write leaves a part of it.\<close>

definition put_file :: "disk_env \<Rightarrow> string \<Rightarrow> string \<Rightarrow> disk \<Rightarrow> bool \<times> disk" where
  "put_file env path content d =
     (if de_write env path content then (True, d\<lparr>d_files := (d_files d)(path \<mapsto> content)\<rparr>)
      else (False, d\<lparr>d_files := (d_files d)(path \<mapsto> [])\<rparr>))"

definition move_file_or_copy :: "disk_env \<Rightarrow> string \<Rightarrow> string \<Rightarrow> disk \<Rightarrow> bool \<times> disk" where
  "move_file_or_copy env source target d =
     (case (d_files d source, de_rename env source target) of
        (Some content, RenameOk) \<Rightarrow>
          (True, d\<lparr>d_files := (if source = target then d_files d else (d_files d)(target \<mapsto> content, source := None))\<rparr>)
      | (None, RenameOk) \<Rightarrow> (False, d)
      | (_, RenameError) \<Rightarrow> (False, d)
      | (src, RenameXdev) \<Rightarrow>
          (let opened = (if de_open_out env target then d\<lparr>d_files := (d_files d)(target \<mapsto> [])\<rparr> else d) in
           if src = None \<or> \<not> de_open_in env source \<or> \<not> de_open_out env target then (False, opened)
           else (case put_file env target (if source = target then [] else the src) opened of
                   (False, d1) \<Rightarrow> (False, snd (remove_file env target d1))
                 | (True, d1) \<Rightarrow> (True, snd (remove_file env source d1)))))"

definition write_file :: "disk_env \<Rightarrow> string \<Rightarrow> string \<Rightarrow> disk \<Rightarrow> bool \<times> disk" where
  "write_file env path content d =
     (if \<not> de_open_out env path then (False, d)
      else (case put_file env path content d of
              (False, d1) \<Rightarrow> (False, snd (remove_file env path d1))
            | (True, d1) \<Rightarrow> (True, d1)))"

definition sha256_hex :: "(string \<Rightarrow> string) \<Rightarrow> string \<Rightarrow> string" where
  "sha256_hex sha content = encode_hex (sha content)"

subsection \<open>The upload sink\<close>

text \<open>
  \<open>FileSha256Sink\<close>: the bytes written and digested, with the limit. \<open>si_write\<close> says whether the
  stream is good after a block, \<open>si_flush\<close> after the flush, \<open>si_digest\<close> whether the digest calls
  succeed.
\<close>

record sink_env =
  si_open :: "string \<Rightarrow> bool"
  si_write :: "string \<Rightarrow> bool"
  si_flush :: bool
  si_digest :: bool
  si_sha :: "string \<Rightarrow> string"

record sha_sink =
  ss_path :: string
  ss_open :: bool
  ss_bytes :: string
  ss_size :: int
  ss_max_bytes :: nat
  ss_limit_exceeded :: bool
  ss_finished :: bool
  ss_sha256 :: string

definition open_sha_sink :: "sink_env \<Rightarrow> string \<Rightarrow> nat \<Rightarrow> sha_sink" where
  "open_sha_sink env path max_bytes = \<lparr>ss_path = path, ss_open = si_open env path, ss_bytes = [], ss_size = 0,
     ss_max_bytes = max_bytes, ss_limit_exceeded = False, ss_finished = False, ss_sha256 = []\<rparr>"

definition sha_sink_write :: "sink_env \<Rightarrow> sha_sink \<Rightarrow> string \<Rightarrow> bool \<times> sha_sink" where
  "sha_sink_write env s d =
     (if \<not> ss_open s then (False, s)
      else if ss_size s + int (length d) > int (ss_max_bytes s) then (False, s\<lparr>ss_limit_exceeded := True\<rparr>)
      else if d = [] then (True, s)
      else if \<not> si_write env d \<or> \<not> si_digest env then (False, s)
      else (True, s\<lparr>ss_bytes := ss_bytes s @ d, ss_size := ss_size s + int (length d)\<rparr>))"

definition sha_sink_finish :: "sink_env \<Rightarrow> sha_sink \<Rightarrow> bool \<times> sha_sink" where
  "sha_sink_finish env s =
     (if ss_finished s then (True, s)
      else if \<not> si_flush env then (False, s)
      else let s1 = s\<lparr>ss_open := False\<rparr> in
           if \<not> si_digest env \<or> length (si_sha env (ss_bytes s1)) \<noteq> 32 then (False, s1)
           else (True, s1\<lparr>ss_sha256 := sha256_hex (si_sha env) (ss_bytes s1), ss_finished := True\<rparr>))"

subsection \<open>Moving a file\<close>

text \<open>A disk is well formed when no path is both a file and a directory and the empty path is neither.\<close>

definition disk_ok :: "disk \<Rightarrow> bool" where
  "disk_ok d \<longleftrightarrow> (\<forall>p. d_dirs d p \<longrightarrow> d_files d p = None) \<and> d_files d [] = None"

lemma remove_file_spec:
  assumes "disk_ok d" "remove_file env p d = (b, d')"
  shows "disk_ok d'" "q \<noteq> p \<Longrightarrow> d_files d' q = d_files d q" "d_dirs d' = d_dirs d"
    "d_files d' p = d_files d p \<or> d_files d' p = None" "b \<Longrightarrow> d_files d' p = None"
  using assms by (auto simp: remove_file_def disk_ok_def split: if_splits)

text \<open>
  Moving an upload into the store never loses it: on success the target holds exactly
  the contents of the source; on failure the source is untouched. No other file changes either
  way. It holds for a rename and for the copy across file systems, whatever step fails.
\<close>

lemma move_file_never_loses_contents:
  assumes "disk_ok d" and "d_files d source = Some content" and "source \<noteq> target" and "\<not> d_dirs d target"
    and "move_file_or_copy env source target d = (b, d')"
  shows "(b \<longrightarrow> d_files d' target = Some content) \<and> (\<not> b \<longrightarrow> d_files d' source = Some content)
    \<and> (q \<noteq> source \<and> q \<noteq> target \<longrightarrow> d_files d' q = d_files d q)"
proof -
  have ne: "source \<noteq> []" "\<not> d_dirs d source" using assms(1,2) by (auto simp: disk_ok_def)
  show ?thesis
    using assms(2-5) ne
    by (auto simp: move_file_or_copy_def put_file_def remove_file_def Let_def
        split: rename_result.splits if_splits prod.splits)
qed

definition sample_disk :: disk where
  "sample_disk = \<lparr>d_files = [''/t/u'' \<mapsto> ''data''], d_dirs = (\<lambda>_. False)\<rparr>"

definition cross_device :: disk_env where
  "cross_device = \<lparr>de_unlink = (\<lambda>_. True), de_rename = (\<lambda>_ _. RenameXdev), de_open_in = (\<lambda>_. True),
     de_open_out = (\<lambda>_. True), de_write = (\<lambda>_ _. False), de_mkdir = (\<lambda>_. True)\<rparr>"

lemma move_file_never_loses_contents_witness:
  "fst (move_file_or_copy cross_device ''/t/u'' ''/s/f'' sample_disk) = False
   \<and> d_files (snd (move_file_or_copy cross_device ''/t/u'' ''/s/f'' sample_disk)) ''/t/u'' = Some ''data''"
proof -
  let ?r = "move_file_or_copy cross_device ''/t/u'' ''/s/f'' sample_disk"
  have "fst ?r = False" by code_simp
  moreover have "?r = (fst ?r, snd ?r)" by simp
  moreover have "disk_ok sample_disk" by (simp add: disk_ok_def sample_disk_def)
  ultimately show ?thesis
    using move_file_never_loses_contents [of sample_disk "''/t/u''" "''data''" "''/s/f''" cross_device "fst ?r" "snd ?r"]
    by (simp add: sample_disk_def)
qed

subsection \<open>The sink\<close>

text \<open>Blocks are additive while the disk takes every write.\<close>

lemma sha_sink_write_append:
  assumes "\<forall>d. si_write env d" "si_digest env" "sha_sink_write env s a = (True, s1)"
  shows "sha_sink_write env s (a @ b) =
    (if fst (sha_sink_write env s1 b) then sha_sink_write env s1 b
     else (False, if ss_open s then s\<lparr>ss_limit_exceeded := True\<rparr> else s))"
  using assms by (auto simp: sha_sink_write_def split: if_splits)

end
