(* ===== verification/Chunked.thy ===== *)
theory Chunked
  imports Http_Conn
begin

text \<open>
  Chunked request bodies: \<open>contains_chunked_transfer_encoding\<close>, \<open>parse_chunk_size_line\<close>,
  \<open>append_decoded_body_chunk\<close> and \<open>parse_chunked_content\<close> of src/http/core/parser.cpp.

  The decoder runs on whatever bytes have arrived, keeps its state in the connection, discards
  what it has consumed and is called again when more bytes come. \<open>dec_run\<close> is the same decoder
  over a list of bytes; \<open>parse_chunked_content\<close> refines it. For every sink that treats a block
  like its parts (the interface \<open>body_sink\<close>, which the in-memory body provides), the result
  does not depend on how the bytes were split into fragments, and the decoder inverts the
  chunked encoding.
\<close>

subsection \<open>The model\<close>

abbreviation blank :: "byte \<Rightarrow> bool" where "blank c \<equiv> c = SP \<or> c = TAB"

text \<open>The C string up to its terminator; the loop ends because every round but the last drops a token.\<close>

function chunked_token_loop :: "string \<Rightarrow> bool" where
  "chunked_token_loop s =
     (if s = [] then False
      else let t = dropWhile (\<lambda>c. blank c \<or> c = CHR '','') s;
               token = rev (dropWhile blank (rev (takeWhile (\<lambda>c. c \<noteq> CHR '','') t)))
           in if length token = 7 \<and> strncaseeq token ''chunked'' 7 then True
              else chunked_token_loop (dropWhile (\<lambda>c. c \<noteq> CHR '','') t))"
  by pat_completeness auto

lemma token_loop_shorter:
  assumes "s \<noteq> []"
  shows "length (dropWhile (\<lambda>c. c \<noteq> CHR '','') (dropWhile (\<lambda>c. blank c \<or> c = CHR '','') s)) < length s"
proof (cases "dropWhile (\<lambda>c. blank c \<or> c = CHR '','') s")
  case (Cons a t)
  then have "a \<noteq> CHR '',''" using hd_dropWhile_not [of "\<lambda>c. blank c \<or> c = CHR '',''" s] by auto
  then have "length (dropWhile (\<lambda>c. c \<noteq> CHR '','') (a # t)) \<le> length t"
    by (simp add: length_dropWhile_le)
  also have "\<dots> < length (dropWhile (\<lambda>c. blank c \<or> c = CHR '','') s)" unfolding Cons by simp
  also have "\<dots> \<le> length s" by (rule length_dropWhile_le)
  finally show ?thesis unfolding Cons .
next
  case Nil
  show ?thesis unfolding Nil using assms by simp
qed

termination chunked_token_loop
  by (relation "measure length") (use token_loop_shorter in auto)

declare chunked_token_loop.simps [simp del]

definition contains_chunked_transfer_encoding :: "string \<Rightarrow> bool" where
  "contains_chunked_transfer_encoding text = chunked_token_loop (c_str text)"

text \<open>The size of a chunk-size line, \<open>None\<close> when the line is refused.\<close>

definition parse_chunk_size_line :: "string \<Rightarrow> nat option" where
  "parse_chunk_size_line line =
     (let size_text = takeWhile (\<lambda>c. c \<noteq> CHR '';'' \<and> \<not> blank c) (dropWhile blank line) in
      if \<not> list_all isxdigit size_text \<or> size_text = [] then None
      else if int (digits_value 16 size_text) \<ge> LONG_MAX then None
      else Some (digits_value 16 size_text))"

definition append_decoded_body_chunk :: "conn_env \<Rightarrow> string \<Rightarrow> http_conn \<Rightarrow> http_code \<times> http_conn" where
  "append_decoded_body_chunk env d c =
     (if d = [] then (NO_REQUEST, c)
      else if m_stream_body_file c \<noteq> None then
        (case append_streamed_body_chunk env d c of
           (True, c') \<Rightarrow> (NO_REQUEST, c')
         | (False, c') \<Rightarrow>
             (if m_body_parse_error_status c' = 413 then (PAYLOAD_TOO_LARGE, c')
              else if m_body_parse_error_status c' = 400 then (BAD_REQUEST, c')
              else (INTERNAL_ERROR, c')))
      else if m_chunked_body_bytes_received c + length d > READ_BUFFER_MAX_SIZE then (PAYLOAD_TOO_LARGE, c)
      else (NO_REQUEST, c\<lparr>m_request_body := m_request_body c @ d,
              m_chunked_body_bytes_received := m_chunked_body_bytes_received c + length d\<rparr>))"

text \<open>The bytes received and not yet consumed by the decoder.\<close>

definition window :: "http_conn \<Rightarrow> string" where
  "window c = drop (m_chunked_parse_idx c) (take (m_read_idx c) (m_read_buf c))"

definition compact_chunked :: "http_conn \<Rightarrow> http_conn" where
  "compact_chunked c = (compact_read_buffer_prefix (int (m_chunked_parse_idx c)) c)\<lparr>m_chunked_parse_idx := 0\<rparr>"

lemma append_decoded_keeps:
  assumes "append_decoded_body_chunk env d c = (code, c')"
  shows "m_read_idx c' = m_read_idx c" "m_chunked_parse_idx c' = m_chunked_parse_idx c"
    "m_read_buf c' = m_read_buf c" "m_read_ring c' = m_read_ring c" "m_chunk_size c' = m_chunk_size c"
    "m_chunk_bytes_read c' = m_chunk_bytes_read c" "m_chunk_state c' = m_chunk_state c"
    "m_read_alloc c' = m_read_alloc c"
  using assms
  by (auto simp: append_decoded_body_chunk_def append_streamed_body_chunk_def Let_def
      split: if_splits option.splits prod.splits bool.splits)

function parse_chunked_content :: "conn_env \<Rightarrow> http_conn \<Rightarrow> http_code \<times> http_conn" where
  "parse_chunked_content env c =
     (if m_chunked_parse_idx c < m_read_idx c then
        (case m_chunk_state c of
           CHUNK_STATE_SIZE \<Rightarrow>
             (case find_sub CRLF (window c) of
                None \<Rightarrow> (NO_REQUEST, compact_chunked c)
              | Some e \<Rightarrow>
                  (case parse_chunk_size_line (take e (window c)) of
                     None \<Rightarrow> (BAD_REQUEST, c)
                   | Some sz \<Rightarrow>
                       parse_chunked_content env
                         (c\<lparr>m_chunk_size := sz, m_chunked_parse_idx := m_chunked_parse_idx c + e + 2,
                            m_chunk_bytes_read := 0,
                            m_chunk_state := (if sz = 0 then CHUNK_STATE_TRAILER else CHUNK_STATE_DATA)\<rparr>)))
         | CHUNK_STATE_DATA \<Rightarrow>
             (let available = m_read_idx c - m_chunked_parse_idx c;
                  remaining = m_chunk_size c - m_chunk_bytes_read c;
                  data_len = (if available < remaining then available else remaining);
                  (code, c1) = append_decoded_body_chunk env
                    (take data_len (drop (m_chunked_parse_idx c) (m_read_buf c))) c
              in if code \<noteq> NO_REQUEST then (code, c1)
                 else let c2 = c1\<lparr>m_chunked_parse_idx := m_chunked_parse_idx c + data_len,
                                  m_chunk_bytes_read := m_chunk_bytes_read c + data_len\<rparr>
                      in if m_chunk_bytes_read c2 < m_chunk_size c2 then (NO_REQUEST, compact_chunked c2)
                         else parse_chunked_content env (c2\<lparr>m_chunk_state := CHUNK_STATE_DATA_CRLF\<rparr>))
         | CHUNK_STATE_DATA_CRLF \<Rightarrow>
             (if m_read_idx c - m_chunked_parse_idx c < 2 then (NO_REQUEST, compact_chunked c)
              else if m_read_buf c ! m_chunked_parse_idx c \<noteq> CR
                    \<or> m_read_buf c ! (m_chunked_parse_idx c + 1) \<noteq> LF then (BAD_REQUEST, c)
              else parse_chunked_content env (c\<lparr>m_chunked_parse_idx := m_chunked_parse_idx c + 2,
                                                m_chunk_state := CHUNK_STATE_SIZE\<rparr>))
         | CHUNK_STATE_TRAILER \<Rightarrow>
             (case find_sub CRLF (window c) of
                None \<Rightarrow> (NO_REQUEST, compact_chunked c)
              | Some e \<Rightarrow>
                  (if e = 0 then (GET_REQUEST, c\<lparr>m_chunked_parse_idx := m_chunked_parse_idx c + 2,
                                                 m_chunk_state := CHUNK_STATE_DONE\<rparr>)
                   else parse_chunked_content env (c\<lparr>m_chunked_parse_idx := m_chunked_parse_idx c + e + 2\<rparr>)))
         | CHUNK_STATE_DONE \<Rightarrow> (GET_REQUEST, c))
      else if m_chunk_state c \<noteq> CHUNK_STATE_DONE then (NO_REQUEST, compact_chunked c)
      else (GET_REQUEST, c))"
  by pat_completeness auto
termination
  by (relation "measure (\<lambda>(env, c). 2 * (m_read_idx c - m_chunked_parse_idx c)
        + (if m_chunk_state c = CHUNK_STATE_DATA then 1 else 0))")
     (auto dest: append_decoded_keeps [OF sym] dest!: find_sub_Some)

declare parse_chunked_content.simps [simp del]

subsection \<open>The decoder over a list of bytes\<close>

record 's decoder =
  d_state :: chunk_state
  d_size :: nat
  d_read :: nat
  d_sink :: 's

function dec_run ::
  "('s \<Rightarrow> string \<Rightarrow> http_code \<times> 's) \<Rightarrow> 's decoder \<Rightarrow> string \<Rightarrow> http_code \<times> 's decoder \<times> string" where
  "dec_run put d w =
     (if w \<noteq> [] then
        (case d_state d of
           CHUNK_STATE_SIZE \<Rightarrow>
             (case find_sub CRLF w of
                None \<Rightarrow> (NO_REQUEST, d, w)
              | Some e \<Rightarrow>
                  (case parse_chunk_size_line (take e w) of
                     None \<Rightarrow> (BAD_REQUEST, d, w)
                   | Some sz \<Rightarrow>
                       dec_run put (d\<lparr>d_size := sz, d_read := 0,
                         d_state := (if sz = 0 then CHUNK_STATE_TRAILER else CHUNK_STATE_DATA)\<rparr>) (drop (e + 2) w)))
         | CHUNK_STATE_DATA \<Rightarrow>
             (let n = min (length w) (d_size d - d_read d); (code, s) = put (d_sink d) (take n w) in
              if code \<noteq> NO_REQUEST then (code, d\<lparr>d_sink := s\<rparr>, w)
              else if d_read d + n < d_size d then (NO_REQUEST, d\<lparr>d_sink := s, d_read := d_read d + n\<rparr>, drop n w)
              else dec_run put (d\<lparr>d_sink := s, d_read := d_read d + n, d_state := CHUNK_STATE_DATA_CRLF\<rparr>) (drop n w))
         | CHUNK_STATE_DATA_CRLF \<Rightarrow>
             (if length w < 2 then (NO_REQUEST, d, w)
              else if take 2 w \<noteq> CRLF then (BAD_REQUEST, d, w)
              else dec_run put (d\<lparr>d_state := CHUNK_STATE_SIZE\<rparr>) (drop 2 w))
         | CHUNK_STATE_TRAILER \<Rightarrow>
             (case find_sub CRLF w of
                None \<Rightarrow> (NO_REQUEST, d, w)
              | Some e \<Rightarrow>
                  (if e = 0 then (GET_REQUEST, d\<lparr>d_state := CHUNK_STATE_DONE\<rparr>, drop 2 w)
                   else dec_run put d (drop (e + 2) w)))
         | CHUNK_STATE_DONE \<Rightarrow> (GET_REQUEST, d, w))
      else if d_state d \<noteq> CHUNK_STATE_DONE then (NO_REQUEST, d, w)
      else (GET_REQUEST, d, w))"
  by pat_completeness auto
termination
  by (relation "measure (\<lambda>(put, d, w). 2 * length w + (if d_state d = CHUNK_STATE_DATA then 1 else 0))")
     (auto simp: Let_def dest!: find_sub_Some)

declare dec_run.simps [simp del]

text \<open>Two results that agree in their code, and in everything unless the request is refused.\<close>

definition same_result :: "http_code \<times> 'a \<Rightarrow> http_code \<times> 'a \<Rightarrow> bool" where
  "same_result r1 r2 \<longleftrightarrow> fst r1 = fst r2 \<and> (fst r1 = NO_REQUEST \<or> fst r1 = GET_REQUEST \<longrightarrow> r1 = r2)"

lemma same_result_refl [simp]: "same_result r r"
  by (simp add: same_result_def)

lemma same_resultD1: "same_result (a, x) (b, y) \<Longrightarrow> a = b"
  unfolding same_result_def fst_conv by (rule conjunct1)

lemma same_resultD2: "same_result (a, x) (b, y) \<Longrightarrow> b = NO_REQUEST \<Longrightarrow> x = y"
  unfolding same_result_def fst_conv prod.inject by blast

lemma same_resultD3:
  "same_result (a, x, u) (b, y, v) \<Longrightarrow> a = NO_REQUEST \<or> a = GET_REQUEST \<Longrightarrow> x = y \<and> u = v"
  unfolding same_result_def fst_conv prod.inject by blast

lemma take_append_le: "n \<le> length xs \<Longrightarrow> take n (xs @ ys) = take n xs"
  by simp

lemma drop_append_le: "n \<le> length xs \<Longrightarrow> drop n (xs @ ys) = drop n xs @ ys"
  by simp

lemma find_sub_append_Some: "find_sub p xs = Some e \<Longrightarrow> find_sub p (xs @ ys) = Some e"
proof (induction xs arbitrary: e)
  case Nil
  then show ?case by (cases ys) (auto split: if_splits)
next
  case (Cons c xs)
  show ?case
  proof (cases "take (length p) (c # xs) = p")
    case True
    then have "length p \<le> length (c # xs)" by (metis length_take min.cobounded1)
    then have "take (length p) ((c # xs) @ ys) = p" by (simp only: take_append_le True)
    then show ?thesis using True Cons.prems by auto
  next
    case False
    then obtain e' where e': "find_sub p xs = Some e'" "e = Suc e'" using Cons.prems by auto
    then have "length p \<le> length xs" using find_sub_Some by fastforce
    then have "take (length p) ((c # xs) @ ys) = take (length p) (c # xs)"
      by (intro take_append_le) simp
    then show ?thesis using False Cons.IH [OF e'(1)] e'(2) by simp
  qed
qed

text \<open>
  What the decoder needs of the place the body goes to: an empty block changes nothing, a block
  is accepted as its parts are, and a refusal stays one when more is offered.
\<close>

locale body_sink =
  fixes put :: "'s \<Rightarrow> string \<Rightarrow> http_code \<times> 's"
    and inv :: "'s \<Rightarrow> bool"
  assumes put_Nil: "inv s \<Longrightarrow> put s [] = (NO_REQUEST, s)"
    and put_inv: "inv s \<Longrightarrow> inv (snd (put s a))"
    and put_code: "inv s \<Longrightarrow> fst (put s a) \<noteq> GET_REQUEST"
    and put_append: "inv s \<Longrightarrow> put s a = (NO_REQUEST, s1) \<Longrightarrow> same_result (put s (a @ b)) (put s1 b)"
    and put_refused: "inv s \<Longrightarrow> fst (put s a) \<noteq> NO_REQUEST \<Longrightarrow> fst (put s (a @ b)) = fst (put s a)"
begin

text \<open>What a run over the first fragment says about the run over all the bytes.\<close>

definition continues :: "http_code \<times> 's decoder \<times> string \<Rightarrow> string \<Rightarrow> http_code \<times> 's decoder \<times> string \<Rightarrow> bool" where
  "continues r ys r' \<longleftrightarrow> (case r of (k, d1, rest) \<Rightarrow>
     if k = NO_REQUEST then same_result r' (dec_run put d1 (rest @ ys))
     else if k = GET_REQUEST then r' = (GET_REQUEST, d1, rest @ ys)
     else fst r' = k)"

lemma data_step:
  assumes inv: "inv (d_sink d)" and st: "d_state d = CHUNK_STATE_DATA" and ne: "xs \<noteq> []"
    and part: "length xs < d_size d - d_read d"
    and put: "put (d_sink d) xs = (NO_REQUEST, s1)"
  defines "d1 \<equiv> d\<lparr>d_sink := s1, d_read := d_read d + length xs\<rparr>"
  shows "same_result (dec_run put d (xs @ ys)) (dec_run put d1 ys)"
proof (cases "ys = []")
  case True
  have "dec_run put d xs = (NO_REQUEST, d1, [])"
    using st ne part put by (subst dec_run.simps) (simp add: Let_def d1_def less_diff_conv add.commute)
  moreover have "dec_run put d1 [] = (NO_REQUEST, d1, [])"
    using st by (subst dec_run.simps) (simp add: d1_def)
  ultimately show ?thesis using True by simp
next
  case False
  define m where "m = min (length ys) (d_size d - d_read d - length xs)"
  have n: "min (length (xs @ ys)) (d_size d - d_read d) = length xs + m" using part by (simp add: m_def)
  have tk: "take (length xs + m) (xs @ ys) = xs @ take m ys" and dr: "drop (length xs + m) (xs @ ys) = drop m ys"
    by simp_all
  have m': "min (length ys) (d_size d - (d_read d + length xs)) = m" by (simp add: m_def)
  have st1: "d_state d1 = CHUNK_STATE_DATA" "d_sink d1 = s1" "d_size d1 = d_size d"
    "d_read d1 = d_read d + length xs" using st by (simp_all add: d1_def)
  obtain k s2 where p2: "put s1 (take m ys) = (k, s2)" by fastforce
  obtain k' s2' where p1: "put (d_sink d) (xs @ take m ys) = (k', s2')" by fastforce
  have "same_result (k', s2') (k, s2)" using put_append [OF inv put, of "take m ys"] unfolding p1 p2 .
  then have eq: "k' = k" "k = NO_REQUEST \<longrightarrow> s2' = s2" by (rule same_resultD1, blast dest: same_resultD2)
  have "inv s1" using put_inv [OF inv, of xs] put by simp
  then have code: "k \<noteq> GET_REQUEST" using put_code [of s1 "take m ys"] p2 by simp
  have upd: "d\<lparr>d_sink := s2, d_read := d_read d + (length xs + m)\<rparr> = d1\<lparr>d_sink := s2, d_read := d_read d1 + m\<rparr>"
    "d\<lparr>d_sink := s2, d_read := d_read d + (length xs + m), d_state := CHUNK_STATE_DATA_CRLF\<rparr>
       = d1\<lparr>d_sink := s2, d_read := d_read d1 + m, d_state := CHUNK_STATE_DATA_CRLF\<rparr>"
    by (simp_all add: d1_def)
  have lhs: "dec_run put d (xs @ ys) =
      (if k' \<noteq> NO_REQUEST then (k', d\<lparr>d_sink := s2'\<rparr>, xs @ ys)
       else if d_read d + (length xs + m) < d_size d
         then (NO_REQUEST, d\<lparr>d_sink := s2', d_read := d_read d + (length xs + m)\<rparr>, drop m ys)
       else dec_run put (d\<lparr>d_sink := s2', d_read := d_read d + (length xs + m),
              d_state := CHUNK_STATE_DATA_CRLF\<rparr>) (drop m ys))"
    using ne st by (subst dec_run.simps) (simp add: n tk dr p1 Let_def del: take_append drop_append length_append)
  have rhs: "dec_run put d1 ys =
      (if k \<noteq> NO_REQUEST then (k, d1\<lparr>d_sink := s2\<rparr>, ys)
       else if d_read d + (length xs + m) < d_size d
         then (NO_REQUEST, d1\<lparr>d_sink := s2, d_read := d_read d1 + m\<rparr>, drop m ys)
       else dec_run put (d1\<lparr>d_sink := s2, d_read := d_read d1 + m, d_state := CHUNK_STATE_DATA_CRLF\<rparr>) (drop m ys))"
    using False st1 by (subst dec_run.simps) (simp add: m' p2 Let_def add.assoc)
  show ?thesis
  proof (cases "k = NO_REQUEST")
    case True
    then show ?thesis unfolding lhs rhs using eq upd by simp
  next
    case False
    then show ?thesis unfolding lhs rhs using eq code by (simp add: same_result_def)
  qed
qed

text \<open>The data state: the fragment ends inside the chunk, or it holds the rest of the chunk.\<close>

lemma data_fragment:
  assumes inv: "inv (d_sink d)" and st: "d_state d = CHUNK_STATE_DATA" and ne: "xs \<noteq> []"
    and hyp: "\<And>d' xs'. 2 * length xs' + (if d_state d' = CHUNK_STATE_DATA then 1 else 0) < Suc (2 * length xs) \<Longrightarrow>
      inv (d_sink d') \<Longrightarrow> continues (dec_run put d' xs') ys (dec_run put d' (xs' @ ys))"
  shows "continues (dec_run put d xs) ys (dec_run put d (xs @ ys))"
proof -
  define n where "n = min (length xs) (d_size d - d_read d)"
  obtain k s1 where put: "put (d_sink d) (take n xs) = (k, s1)" by fastforce
  have run: "dec_run put d xs = (if k \<noteq> NO_REQUEST then (k, d\<lparr>d_sink := s1\<rparr>, xs)
      else if d_read d + n < d_size d then (NO_REQUEST, d\<lparr>d_sink := s1, d_read := d_read d + n\<rparr>, drop n xs)
      else dec_run put (d\<lparr>d_sink := s1, d_read := d_read d + n, d_state := CHUNK_STATE_DATA_CRLF\<rparr>) (drop n xs))"
    using ne st put by (subst dec_run.simps) (simp add: Let_def flip: n_def)
  define n' where "n' = min (length (xs @ ys)) (d_size d - d_read d)"
  obtain b where b: "take n' (xs @ ys) = take n xs @ b"
    by (cases "length xs \<le> d_size d - d_read d") (auto simp: n_def n'_def min_def)
  have run': "dec_run put d (xs @ ys) = (case put (d_sink d) (take n' (xs @ ys)) of (k', s2) \<Rightarrow>
      if k' \<noteq> NO_REQUEST then (k', d\<lparr>d_sink := s2\<rparr>, xs @ ys)
      else if d_read d + n' < d_size d then (NO_REQUEST, d\<lparr>d_sink := s2, d_read := d_read d + n'\<rparr>, drop n' (xs @ ys))
      else dec_run put (d\<lparr>d_sink := s2, d_read := d_read d + n', d_state := CHUNK_STATE_DATA_CRLF\<rparr>) (drop n' (xs @ ys)))"
    using ne st by (subst dec_run.simps) (simp add: Let_def flip: n'_def del: length_append take_append drop_append)
  have code: "k \<noteq> GET_REQUEST" using put_code [OF inv, of "take n xs"] put by simp
  show ?thesis
  proof (cases "k = NO_REQUEST")
    case False
    have "fst (put (d_sink d) (take n' (xs @ ys))) = k"
      unfolding b using put_refused [OF inv, of "take n xs" b] put False by simp
    then have "fst (dec_run put d (xs @ ys)) = k"
      unfolding run' using False by (auto split: prod.splits)
    then show ?thesis using False code unfolding run by (simp add: continues_def)
  next
    case True
    show ?thesis
    proof (cases "d_read d + n < d_size d")
      case lt: True
      then have n: "n = length xs" "length xs < d_size d - d_read d" by (auto simp: n_def)
      have "dec_run put d xs = (NO_REQUEST, d\<lparr>d_sink := s1, d_read := d_read d + length xs\<rparr>, [])"
        unfolding run using True lt n(1) by simp
      moreover have "same_result (dec_run put d (xs @ ys)) (dec_run put (d\<lparr>d_sink := s1, d_read := d_read d + length xs\<rparr>) ys)"
        by (rule data_step [OF inv st ne n(2)]) (use put True n(1) in simp)
      ultimately show ?thesis by (simp add: continues_def)
    next
      case ge: False
      let ?d = "d\<lparr>d_sink := s1, d_read := d_read d + n, d_state := CHUNK_STATE_DATA_CRLF\<rparr>"
      have n: "n \<le> length xs" "n' = n" using ge by (auto simp: n_def n'_def)
      have "dec_run put d xs = dec_run put ?d (drop n xs)" unfolding run using True ge by simp
      moreover have "dec_run put d (xs @ ys) = dec_run put ?d (drop n xs @ ys)"
        unfolding run' using True ge n put by simp
      moreover have "continues (dec_run put ?d (drop n xs)) ys (dec_run put ?d (drop n xs @ ys))"
        by (rule hyp) (use put_inv [OF inv, of "take n xs"] put in auto)
      ultimately show ?thesis by simp
    qed
  qed
qed

lemma dec_run_done: "d_state d = CHUNK_STATE_DONE \<Longrightarrow> dec_run put d w = (GET_REQUEST, d, w)"
  by (subst dec_run.simps) simp

lemma continues_open: "dec_run put d w = (NO_REQUEST, d, w) \<Longrightarrow> continues (dec_run put d w) ys (dec_run put d (w @ ys))"
  by (simp add: continues_def)

lemma dec_run_fragment:
  "inv (d_sink d) \<Longrightarrow> continues (dec_run put d xs) ys (dec_run put d (xs @ ys))"
proof (induction "2 * length xs + (if d_state d = CHUNK_STATE_DATA then 1 else 0)" arbitrary: d xs rule: less_induct)
  case less
  show ?case
  proof (cases "xs = [] \<and> d_state d \<noteq> CHUNK_STATE_DONE")
    case True
    then show ?thesis by (intro continues_open) (subst dec_run.simps, simp)
  next
    case False
    show ?thesis
    proof (cases "d_state d")
      case CHUNK_STATE_DONE
      then show ?thesis by (simp add: dec_run_done continues_def)
    next
      case CHUNK_STATE_SIZE
      then have ne: "xs \<noteq> []" using False by simp
      show ?thesis
      proof (cases "find_sub CRLF xs")
        case None
        then show ?thesis using ne CHUNK_STATE_SIZE by (intro continues_open) (subst dec_run.simps, simp)
      next
        case (Some e)
        have le: "e + 2 \<le> length xs" using find_sub_Some [OF Some] by simp
        note app = find_sub_append_Some [OF Some, of ys]
        show ?thesis
        proof (cases "parse_chunk_size_line (take e xs)")
          case None
          have "dec_run put d xs = (BAD_REQUEST, d, xs)"
            using ne CHUNK_STATE_SIZE Some None by (subst dec_run.simps) simp
          moreover have "dec_run put d (xs @ ys) = (BAD_REQUEST, d, xs @ ys)"
            using ne CHUNK_STATE_SIZE app None le by (subst dec_run.simps) simp
          ultimately show ?thesis by (simp add: continues_def)
        next
          case (Some n)
          let ?d = "d\<lparr>d_size := n, d_read := 0, d_state := (if n = 0 then CHUNK_STATE_TRAILER else CHUNK_STATE_DATA)\<rparr>"
          have "dec_run put d xs = dec_run put ?d (drop (e + 2) xs)"
            using ne CHUNK_STATE_SIZE \<open>find_sub CRLF xs = Some e\<close> Some by (subst dec_run.simps) simp
          moreover have "dec_run put d (xs @ ys) = dec_run put ?d (drop (e + 2) xs @ ys)"
            using ne CHUNK_STATE_SIZE app Some le by (subst dec_run.simps) simp
          moreover have "continues (dec_run put ?d (drop (e + 2) xs)) ys (dec_run put ?d (drop (e + 2) xs @ ys))"
            by (rule less.hyps) (use le less.prems in auto)
          ultimately show ?thesis by simp
        qed
      qed
    next
      case CHUNK_STATE_TRAILER
      then have ne: "xs \<noteq> []" using False by simp
      show ?thesis
      proof (cases "find_sub CRLF xs")
        case None
        then show ?thesis using ne CHUNK_STATE_TRAILER by (intro continues_open) (subst dec_run.simps, simp)
      next
        case (Some e)
        have le: "e + 2 \<le> length xs" using find_sub_Some [OF Some] by simp
        note app = find_sub_append_Some [OF Some, of ys]
        show ?thesis
        proof (cases "e = 0")
          case True
          have "dec_run put d xs = (GET_REQUEST, d\<lparr>d_state := CHUNK_STATE_DONE\<rparr>, drop 2 xs)"
            using ne CHUNK_STATE_TRAILER Some True by (subst dec_run.simps) simp
          moreover have "dec_run put d (xs @ ys) = (GET_REQUEST, d\<lparr>d_state := CHUNK_STATE_DONE\<rparr>, drop 2 xs @ ys)"
            using ne CHUNK_STATE_TRAILER app True le by (subst dec_run.simps) simp
          ultimately show ?thesis by (simp add: continues_def)
        next
          case False
          have "dec_run put d xs = dec_run put d (drop (e + 2) xs)"
            using ne CHUNK_STATE_TRAILER Some False by (subst dec_run.simps) simp
          moreover have "dec_run put d (xs @ ys) = dec_run put d (drop (e + 2) xs @ ys)"
            using ne CHUNK_STATE_TRAILER app False le by (subst dec_run.simps) simp
          moreover have "continues (dec_run put d (drop (e + 2) xs)) ys (dec_run put d (drop (e + 2) xs @ ys))"
            by (rule less.hyps) (use le less.prems in auto)
          ultimately show ?thesis by simp
        qed
      qed
    next
      case CHUNK_STATE_DATA_CRLF
      then have ne: "xs \<noteq> []" using False by simp
      consider "length xs < 2" | "2 \<le> length xs" "take 2 xs \<noteq> CRLF" | "2 \<le> length xs" "take 2 xs = CRLF" by linarith
      then show ?thesis
      proof cases
        case 1
        then show ?thesis using ne CHUNK_STATE_DATA_CRLF by (intro continues_open) (subst dec_run.simps, simp)
      next
        case 2
        have "dec_run put d xs = (BAD_REQUEST, d, xs)" "dec_run put d (xs @ ys) = (BAD_REQUEST, d, xs @ ys)"
          using ne CHUNK_STATE_DATA_CRLF 2 by (subst dec_run.simps, simp)+
        then show ?thesis by (simp add: continues_def)
      next
        case 3
        let ?d = "d\<lparr>d_state := CHUNK_STATE_SIZE\<rparr>"
        have "dec_run put d xs = dec_run put ?d (drop 2 xs)"
          "dec_run put d (xs @ ys) = dec_run put ?d (drop 2 xs @ ys)"
          using ne CHUNK_STATE_DATA_CRLF 3 by (subst dec_run.simps, simp)+
        moreover have "continues (dec_run put ?d (drop 2 xs)) ys (dec_run put ?d (drop 2 xs @ ys))"
          by (rule less.hyps) (use 3 less.prems in auto)
        ultimately show ?thesis by simp
      qed
    next
      case CHUNK_STATE_DATA
      then have ne: "xs \<noteq> []" using False by simp
      show ?thesis by (rule data_fragment [OF less.prems CHUNK_STATE_DATA ne less.hyps]) (simp_all add: CHUNK_STATE_DATA)
    qed
  qed
qed

end

subsection \<open>The connection as a sink\<close>

definition conn_put :: "conn_env \<Rightarrow> http_conn \<Rightarrow> string \<Rightarrow> http_code \<times> http_conn" where
  "conn_put env c d = append_decoded_body_chunk env d c"

text \<open>The body goes to memory, or to a spool file on a disk that takes every write.\<close>

definition sink_ok :: "conn_env \<Rightarrow> http_conn \<Rightarrow> bool" where
  "sink_ok env c \<longleftrightarrow> m_stream_body_file c = None \<or> m_chunked c \<and> (\<forall>d. env_fwrite env d = length d)"

lemma conn_put_spool:
  assumes "m_stream_body_file c = Some w" "m_chunked c" "\<forall>d. env_fwrite env d = length d"
  shows "conn_put env c d = (if d = [] then (NO_REQUEST, c)
      else if m_stream_body_bytes_received c + int (length d) > upload_limit env
      then (PAYLOAD_TOO_LARGE, snd (append_streamed_body_chunk env d c))
      else (NO_REQUEST, c\<lparr>m_stream_body_file := Some (w @ d),
              m_stream_body_bytes_received := m_stream_body_bytes_received c + int (length d)\<rparr>))"
  using assms by (auto simp: conn_put_def append_decoded_body_chunk_def append_streamed_body_chunk_def Let_def)

lemma conn_put_memory:
  assumes "m_stream_body_file c = None"
  shows "conn_put env c d = (if d = [] then (NO_REQUEST, c)
      else if m_chunked_body_bytes_received c + length d > READ_BUFFER_MAX_SIZE then (PAYLOAD_TOO_LARGE, c)
      else (NO_REQUEST, c\<lparr>m_request_body := m_request_body c @ d,
              m_chunked_body_bytes_received := m_chunked_body_bytes_received c + length d\<rparr>))"
  using assms by (simp add: conn_put_def append_decoded_body_chunk_def)

lemma conn_put_inv: "sink_ok env c \<Longrightarrow> sink_ok env (snd (conn_put env c d))"
  by (auto simp: sink_ok_def conn_put_def append_decoded_body_chunk_def append_streamed_body_chunk_def Let_def
      split: option.splits)

interpretation conn_sink: body_sink "conn_put env" "sink_ok env" for env
proof
  fix s s1 :: http_conn and a b :: string
  assume ok: "sink_ok env s"
  show "conn_put env s [] = (NO_REQUEST, s)" by (simp add: conn_put_def append_decoded_body_chunk_def)
  show "sink_ok env (snd (conn_put env s a))" using ok by (rule conn_put_inv)
  consider (mem) "m_stream_body_file s = None"
    | (spool) w where "m_stream_body_file s = Some w" "m_chunked s" "\<forall>d. env_fwrite env d = length d"
    using ok by (cases "m_stream_body_file s") (auto simp: sink_ok_def)
  note modes = this
  show "fst (conn_put env s a) \<noteq> GET_REQUEST"
    by (cases rule: modes) (simp_all add: conn_put_memory conn_put_spool)
  show "fst (conn_put env s (a @ b)) = fst (conn_put env s a)" if "fst (conn_put env s a) \<noteq> NO_REQUEST"
    using that by (cases rule: modes) (auto simp: conn_put_memory conn_put_spool split: if_splits)
  show "same_result (conn_put env s (a @ b)) (conn_put env s1 b)" if "conn_put env s a = (NO_REQUEST, s1)"
    using that
    by (cases rule: modes)
       (auto simp: conn_put_memory conn_put_spool same_result_def ac_simps split: if_splits)
qed

subsection \<open>The connection refines the decoder\<close>

text \<open>The connection without its buffers and decoder fields: what the sink can see.\<close>

definition strip :: "http_conn \<Rightarrow> http_conn" where
  "strip c = c\<lparr>m_read_ring := reset_ring_buffer [] 0, m_read_buf := [], m_read_alloc := 0, m_read_idx := 0,
     m_checked_idx := 0, m_body_start_idx := 0, m_start_line := 0, m_chunk_state := CHUNK_STATE_SIZE,
     m_chunked_parse_idx := 0, m_chunk_size := 0, m_chunk_bytes_read := 0\<rparr>"

definition decoder_of :: "http_conn \<Rightarrow> http_conn decoder" where
  "decoder_of c = \<lparr>d_state = m_chunk_state c, d_size = m_chunk_size c, d_read = m_chunk_bytes_read c, d_sink = strip c\<rparr>"

text \<open>The unconsumed bytes are the same in the ring and in \<open>m_read_buf\<close>.\<close>

definition synced :: "http_conn \<Rightarrow> bool" where
  "synced c \<longleftrightarrow> ring_ok (m_read_ring c) \<and> m_read_idx c = rb_size (m_read_ring c)
     \<and> m_read_idx c \<le> length (m_read_buf c) \<and> m_chunked_parse_idx c \<le> m_read_idx c
     \<and> drop (m_chunked_parse_idx c) (ring_list (m_read_ring c)) = window c"

lemma strip_body: "m_request_body (strip c) = m_request_body c"
  by (simp add: strip_def)

lemma length_window: "synced c \<Longrightarrow> length (window c) = m_read_idx c - m_chunked_parse_idx c"
  by (simp add: window_def synced_def)

lemma window_Nil_iff: "synced c \<Longrightarrow> window c = [] \<longleftrightarrow> \<not> m_chunked_parse_idx c < m_read_idx c"
  using length_window [of c] by (cases "window c") auto

lemma conn_put_strip: "conn_put env (strip c) d = (fst (conn_put env c d), strip (snd (conn_put env c d)))"
  by (auto simp: conn_put_def append_decoded_body_chunk_def append_streamed_body_chunk_def strip_def Let_def
      split: option.splits)

lemma strip_compact: "strip (compact_chunked c) = strip c"
  by (simp add: strip_def compact_chunked_def compact_read_buffer_prefix_def sync_read_buffer_def Let_def)

lemma compact_chunk_fields:
  "m_chunk_state (compact_chunked c) = m_chunk_state c" "m_chunk_size (compact_chunked c) = m_chunk_size c"
  "m_chunk_bytes_read (compact_chunked c) = m_chunk_bytes_read c" "m_chunked_parse_idx (compact_chunked c) = 0"
  by (simp_all add: compact_chunked_def compact_read_buffer_prefix_def sync_read_buffer_def Let_def)

lemma compact_chunked_ok:
  assumes "synced c"
  shows "synced (compact_chunked c)" "window (compact_chunked c) = window c"
    "decoder_of (compact_chunked c) = decoder_of c"
proof -
  show "decoder_of (compact_chunked c) = decoder_of c"
    by (simp add: decoder_of_def compact_chunk_fields strip_compact)
  have ok: "ring_ok (m_read_ring c)" and win: "drop (m_chunked_parse_idx c) (ring_list (m_read_ring c)) = window c"
    using assms by (auto simp: synced_def)
  have "synced (compact_chunked c) \<and> window (compact_chunked c) = window c"
  proof (cases "m_chunked_parse_idx c = 0")
    case True
    then have "compact_chunked c = c" by (simp add: compact_chunked_def compact_read_buffer_prefix_def)
    then show ?thesis using assms by simp
  next
    case False
    let ?c = "compact_read_buffer_prefix (int (m_chunked_parse_idx c)) c"
    note cp = compact_read_buffer_prefix_ok [OF ok, of "m_chunked_parse_idx c"]
    have l: "ring_list (m_read_ring ?c) = window c" using cp(2) False win by simp
    have t: "take (m_read_idx ?c) (m_read_buf ?c) = window c" using cp(4) l False by simp
    have i: "m_read_idx ?c = length (window c)" using cp(3) l False by simp
    have "m_read_idx ?c \<le> length (m_read_buf ?c)" using t i by (metis length_take min.cobounded1)
    then show ?thesis
      using cp(1) l t i False length_ring_list [of "m_read_ring ?c"]
      by (simp add: compact_chunked_def synced_def window_def del: length_ring_list)
  qed
  then show "synced (compact_chunked c)" "window (compact_chunked c) = window c" by auto
qed

text \<open>Consuming \<open>n\<close> bytes of the window, with any change of the decoder state.\<close>

lemma advance_ok:
  assumes "synced c" "n \<le> length (window c)" "m_read_idx c' = m_read_idx c" "m_read_buf c' = m_read_buf c"
    "m_read_ring c' = m_read_ring c" "m_chunked_parse_idx c' = m_chunked_parse_idx c + n"
  shows "synced c'" "window c' = drop n (window c)"
proof -
  show w: "window c' = drop n (window c)" using assms by (simp add: window_def ac_simps)
  have "drop (m_chunked_parse_idx c') (ring_list (m_read_ring c')) = window c'"
    using assms(1,5,6) unfolding w synced_def by (metis add.commute drop_drop)
  moreover have "m_chunked_parse_idx c + n \<le> m_read_idx c"
    using assms(1,2) length_window [OF assms(1)] unfolding synced_def by linarith
  ultimately show "synced c'"
    using assms by (simp add: synced_def)
qed

lemma take_window:
  "n \<le> m_read_idx c - m_chunked_parse_idx c \<Longrightarrow> m_read_idx c \<le> length (m_read_buf c) \<Longrightarrow>
     take n (drop (m_chunked_parse_idx c) (m_read_buf c)) = take n (window c)"
  by (simp add: window_def drop_take)

lemma crlf_window:
  assumes "synced c" "2 \<le> m_read_idx c - m_chunked_parse_idx c"
  shows "take 2 (window c) = CRLF \<longleftrightarrow>
    m_read_buf c ! m_chunked_parse_idx c = CR \<and> m_read_buf c ! (m_chunked_parse_idx c + 1) = LF"
proof -
  have "take 2 (window c) = take 2 (drop (m_chunked_parse_idx c) (m_read_buf c))"
    using assms by (intro take_window [symmetric]) (auto simp: synced_def)
  also have "\<dots> = [m_read_buf c ! m_chunked_parse_idx c, m_read_buf c ! (m_chunked_parse_idx c + 1)]"
    using assms by (auto simp: synced_def numeral_2_eq_2 drop_split_nth [of "m_chunked_parse_idx c"]
      drop_split_nth [of "Suc (m_chunked_parse_idx c)"])
  finally show ?thesis by simp
qed

definition refines :: "conn_env \<Rightarrow> http_conn \<Rightarrow> http_code \<times> http_conn \<Rightarrow> bool" where
  "refines env c r \<longleftrightarrow> (case r of (k, c') \<Rightarrow>
     dec_run (conn_put env) (decoder_of c) (window c) = (k, decoder_of c', window c') \<and> synced c')"

lemma refines_open:
  "synced c \<Longrightarrow> dec_run (conn_put env) (decoder_of c) (window c) = (NO_REQUEST, decoder_of c, window c) \<Longrightarrow>
     refines env c (NO_REQUEST, compact_chunked c)"
  by (simp add: refines_def compact_chunked_ok)

lemma refines_data:
  assumes sy: "synced c" and st: "m_chunk_state c = CHUNK_STATE_DATA" and more: "m_chunked_parse_idx c < m_read_idx c"
    and call: "\<And>c2. dec_run (conn_put env) (decoder_of c) (window c) = dec_run (conn_put env) (decoder_of c2) (window c2) \<Longrightarrow>
      synced c2 \<Longrightarrow> 2 * (m_read_idx c2 - m_chunked_parse_idx c2) + (if m_chunk_state c2 = CHUNK_STATE_DATA then 1 else 0)
        < Suc (2 * (m_read_idx c - m_chunked_parse_idx c)) \<Longrightarrow> refines env c (parse_chunked_content env c2)"
  shows "refines env c (parse_chunked_content env c)"
proof -
  have ne: "window c \<noteq> []" using window_Nil_iff [OF sy] more by simp
  have buf: "m_read_idx c \<le> length (m_read_buf c)" using sy by (simp add: synced_def)
  note wl = length_window [OF sy]
  define n where "n = min (length (window c)) (m_chunk_size c - m_chunk_bytes_read c)"
  have n: "(if m_read_idx c - m_chunked_parse_idx c < m_chunk_size c - m_chunk_bytes_read c
      then m_read_idx c - m_chunked_parse_idx c else m_chunk_size c - m_chunk_bytes_read c) = n"
    unfolding n_def wl by auto
  have nle: "n \<le> length (window c)" by (simp add: n_def)
  obtain k c1 where app: "append_decoded_body_chunk env (take n (window c)) c = (k, c1)" by fastforce
  note keep = append_decoded_keeps [OF app]
  have put: "conn_put env (strip c) (take n (window c)) = (k, strip c1)"
    using app conn_put_strip [of env c] by (simp add: conn_put_def)
  have tk: "take n (drop (m_chunked_parse_idx c) (m_read_buf c)) = take n (window c)"
    using nle wl buf by (intro take_window) auto
  let ?c2 = "c1\<lparr>m_chunked_parse_idx := m_chunked_parse_idx c + n, m_chunk_bytes_read := m_chunk_bytes_read c + n\<rparr>"
  let ?c3 = "?c2\<lparr>m_chunk_state := CHUNK_STATE_DATA_CRLF\<rparr>"
  have run: "parse_chunked_content env c = (if k \<noteq> NO_REQUEST then (k, c1)
      else if m_chunk_bytes_read c + n < m_chunk_size c then (NO_REQUEST, compact_chunked ?c2)
      else parse_chunked_content env ?c3)"
    using st more by (subst parse_chunked_content.simps) (simp add: Let_def n tk app keep)
  have dec: "dec_run (conn_put env) (decoder_of c) (window c) =
      (if k \<noteq> NO_REQUEST then (k, decoder_of c1, window c)
       else if m_chunk_bytes_read c + n < m_chunk_size c then (NO_REQUEST, decoder_of ?c2, drop n (window c))
       else dec_run (conn_put env) (decoder_of ?c3) (drop n (window c)))"
    using ne st put
    by (subst dec_run.simps) (simp add: decoder_of_def Let_def keep strip_def flip: n_def)
  have c1: "synced c1" "window c1 = window c" using advance_ok [OF sy, of 0 c1] keep by auto
  have c2: "synced ?c2" "window ?c2 = drop n (window c)" using advance_ok [OF sy nle, of ?c2] keep by auto
  have c3: "synced ?c3" "window ?c3 = drop n (window c)" using advance_ok [OF sy nle, of ?c3] keep by auto
  show ?thesis
  proof (cases "k = NO_REQUEST \<and> \<not> m_chunk_bytes_read c + n < m_chunk_size c")
    case True
    then have "refines env c (parse_chunked_content env ?c3)"
      using c3 dec keep by (intro call) auto
    then show ?thesis using True unfolding run by simp
  next
    case False
    then show ?thesis
      using c1 compact_chunked_ok [OF c2(1)] c2(2) unfolding run refines_def dec by auto
  qed
qed

lemma parse_chunked_refines: "synced c \<Longrightarrow> refines env c (parse_chunked_content env c)"
proof (induction "2 * (m_read_idx c - m_chunked_parse_idx c) + (if m_chunk_state c = CHUNK_STATE_DATA then 1 else 0)"
    arbitrary: c rule: less_induct)
  case less
  note sy = less.prems
  have buf: "m_read_idx c \<le> length (m_read_buf c)" using sy by (simp add: synced_def)
  note wl = length_window [OF sy]
  have dst: "d_state (decoder_of c) = m_chunk_state c" "d_size (decoder_of c) = m_chunk_size c"
    "d_read (decoder_of c) = m_chunk_bytes_read c" "d_sink (decoder_of c) = strip c"
    by (simp_all add: decoder_of_def)
  have call: "refines env c (parse_chunked_content env c2)"
    if "dec_run (conn_put env) (decoder_of c) (window c) = dec_run (conn_put env) (decoder_of c2) (window c2)"
      "synced c2" "2 * (m_read_idx c2 - m_chunked_parse_idx c2) + (if m_chunk_state c2 = CHUNK_STATE_DATA then 1 else 0)
        < 2 * (m_read_idx c - m_chunked_parse_idx c) + (if m_chunk_state c = CHUNK_STATE_DATA then 1 else 0)" for c2
    using less.hyps [OF that(3,2)] that(1) by (simp add: refines_def)
  show ?case
  proof (cases "m_chunked_parse_idx c < m_read_idx c")
    case False
    then have "window c = []" using window_Nil_iff [OF sy] by simp
    then show ?thesis
      using sy False compact_chunked_ok [OF sy] dst
      by (subst parse_chunked_content.simps) (simp add: refines_def dec_run.simps [of _ _ "[]"])
  next
    case more: True
    then have ne: "window c \<noteq> []" using window_Nil_iff [OF sy] by simp
    show ?thesis
    proof (cases "m_chunk_state c")
      case CHUNK_STATE_DONE
      then show ?thesis using sy more ne dst
        by (subst parse_chunked_content.simps) (simp add: refines_def dec_run.simps [of _ _ "window c"])
    next
      case CHUNK_STATE_SIZE
      show ?thesis
      proof (cases "find_sub CRLF (window c)")
        case None
        then show ?thesis using refines_open [OF sy] CHUNK_STATE_SIZE more ne dst
          by (subst parse_chunked_content.simps) (simp add: dec_run.simps [of _ _ "window c"])
      next
        case (Some e)
        have le: "e + 2 \<le> length (window c)" using find_sub_Some [OF Some] by simp
        show ?thesis
        proof (cases "parse_chunk_size_line (take e (window c))")
          case None
          then show ?thesis using sy Some CHUNK_STATE_SIZE more ne dst
            by (subst parse_chunked_content.simps) (simp add: refines_def dec_run.simps [of _ _ "window c"])
        next
          case (Some n)
          let ?c = "c\<lparr>m_chunk_size := n, m_chunked_parse_idx := m_chunked_parse_idx c + e + 2,
            m_chunk_bytes_read := 0, m_chunk_state := (if n = 0 then CHUNK_STATE_TRAILER else CHUNK_STATE_DATA)\<rparr>"
          have adv: "synced ?c" "window ?c = drop (e + 2) (window c)"
            by (rule advance_ok [OF sy le]; simp)+
          have run: "parse_chunked_content env c = parse_chunked_content env ?c"
            using \<open>find_sub CRLF (window c) = Some e\<close> Some CHUNK_STATE_SIZE more
            by (subst parse_chunked_content.simps) simp
          have dec: "dec_run (conn_put env) (decoder_of c) (window c) = dec_run (conn_put env) (decoder_of ?c) (window ?c)"
            using \<open>find_sub CRLF (window c) = Some e\<close> Some CHUNK_STATE_SIZE ne dst adv(2)
            by (subst dec_run.simps) (simp add: decoder_of_def strip_def)
          show ?thesis unfolding run by (rule call [OF dec adv(1)]) (use CHUNK_STATE_SIZE le wl in auto)
        qed
      qed
    next
      case CHUNK_STATE_TRAILER
      show ?thesis
      proof (cases "find_sub CRLF (window c)")
        case None
        then show ?thesis using refines_open [OF sy] CHUNK_STATE_TRAILER more ne dst
          by (subst parse_chunked_content.simps) (simp add: dec_run.simps [of _ _ "window c"])
      next
        case (Some e)
        have le: "e + 2 \<le> length (window c)" using find_sub_Some [OF Some] by simp
        show ?thesis
        proof (cases "e = 0")
          case True
          let ?c = "c\<lparr>m_chunked_parse_idx := m_chunked_parse_idx c + 2, m_chunk_state := CHUNK_STATE_DONE\<rparr>"
          have adv: "synced ?c" "window ?c = drop 2 (window c)"
            using le True by (auto intro: advance_ok(1) [OF sy, of 2] advance_ok(2) [OF sy, of 2])
          then show ?thesis using Some True CHUNK_STATE_TRAILER more ne dst
            by (subst parse_chunked_content.simps)
               (simp add: refines_def dec_run.simps [of _ _ "window c"], simp add: decoder_of_def strip_def)
        next
          case False
          let ?c = "c\<lparr>m_chunked_parse_idx := m_chunked_parse_idx c + e + 2\<rparr>"
          have adv: "synced ?c" "window ?c = drop (e + 2) (window c)"
            by (rule advance_ok [OF sy le]; simp)+
          have run: "parse_chunked_content env c = parse_chunked_content env ?c"
            using Some False CHUNK_STATE_TRAILER more by (subst parse_chunked_content.simps) simp
          have dec: "dec_run (conn_put env) (decoder_of c) (window c) = dec_run (conn_put env) (decoder_of ?c) (window ?c)"
            using Some False CHUNK_STATE_TRAILER ne dst adv(2)
            by (subst dec_run.simps) (simp add: decoder_of_def strip_def)
          show ?thesis unfolding run by (rule call [OF dec adv(1)]) (use CHUNK_STATE_TRAILER le wl in auto)
        qed
      qed
    next
      case CHUNK_STATE_DATA_CRLF
      show ?thesis
      proof (cases "m_read_idx c - m_chunked_parse_idx c < 2")
        case True
        then show ?thesis using refines_open [OF sy] CHUNK_STATE_DATA_CRLF more ne dst wl
          by (subst parse_chunked_content.simps) (simp add: dec_run.simps [of _ _ "window c"])
      next
        case two: False
        show ?thesis
        proof (cases "take 2 (window c) = CRLF")
          case False
          then show ?thesis using sy two CHUNK_STATE_DATA_CRLF more ne dst wl crlf_window [OF sy]
            by (subst parse_chunked_content.simps) (auto simp: refines_def dec_run.simps [of _ _ "window c"])
        next
          case True
          let ?c = "c\<lparr>m_chunked_parse_idx := m_chunked_parse_idx c + 2, m_chunk_state := CHUNK_STATE_SIZE\<rparr>"
          have adv: "synced ?c" "window ?c = drop 2 (window c)"
            using two wl by (auto intro: advance_ok(1) [OF sy, of 2] advance_ok(2) [OF sy, of 2])
          have run: "parse_chunked_content env c = parse_chunked_content env ?c"
            using True two CHUNK_STATE_DATA_CRLF more crlf_window [OF sy] by (subst parse_chunked_content.simps) simp
          have dec: "dec_run (conn_put env) (decoder_of c) (window c) = dec_run (conn_put env) (decoder_of ?c) (window ?c)"
            using True two CHUNK_STATE_DATA_CRLF ne dst adv(2) wl
            by (subst dec_run.simps) (simp add: decoder_of_def strip_def)
          show ?thesis unfolding run by (rule call [OF dec adv(1)]) (use CHUNK_STATE_DATA_CRLF two in auto)
        qed
      qed
    next
      case CHUNK_STATE_DATA
      show ?thesis by (rule refines_data [OF sy CHUNK_STATE_DATA more call]) (simp_all add: CHUNK_STATE_DATA)
    qed
  qed
qed

subsection \<open>Fragments\<close>

text \<open>
  More bytes arrive: they enter the ring and \<open>sync_read_buffer\<close> copies the ring to
  \<open>m_read_buf\<close>; \<open>None\<close> when the ring has no room for them.
\<close>

definition receive :: "string \<Rightarrow> http_conn \<Rightarrow> http_conn option" where
  "receive bytes c =
     (case ring_append (m_read_ring c) bytes of
        None \<Rightarrow> None
      | Some r \<Rightarrow> Some (sync_read_buffer (c\<lparr>m_read_ring := r\<rparr>)))"

lemma sync_keeps:
  "m_chunked_parse_idx (sync_read_buffer c) = m_chunked_parse_idx c" "m_chunk_state (sync_read_buffer c) = m_chunk_state c"
  "m_chunk_size (sync_read_buffer c) = m_chunk_size c" "m_chunk_bytes_read (sync_read_buffer c) = m_chunk_bytes_read c"
  "strip (sync_read_buffer c) = strip c"
  by (simp_all add: sync_read_buffer_def Let_def strip_def)

lemma receive_ok:
  assumes sy: "synced c" and rc: "receive zs c = Some c'"
  shows "synced c'" "window c' = window c @ zs" "decoder_of c' = decoder_of c"
proof -
  let ?p = "m_chunked_parse_idx c"
  obtain r where r: "ring_append (m_read_ring c) zs = Some r" and c': "c' = sync_read_buffer (c\<lparr>m_read_ring := r\<rparr>)"
    using rc by (auto simp: receive_def split: option.splits)
  have ok: "ring_ok (m_read_ring c)" "?p \<le> rb_size (m_read_ring c)"
    and win: "drop ?p (ring_list (m_read_ring c)) = window c" using sy by (auto simp: synced_def)
  have r': "ring_ok r" "ring_list r = ring_list (m_read_ring c) @ zs" using ring.put_Some [OF ok(1) r] by auto
  have ring_eq: "m_read_ring (c\<lparr>m_read_ring := r\<rparr>) = r" by simp
  note sync = sync_read_buffer_ok [of "c\<lparr>m_read_ring := r\<rparr>", unfolded ring_eq, OF r'(1), folded c']
  have p': "m_chunked_parse_idx c' = ?p" by (simp add: c' sync_keeps)
  have "drop ?p (ring_list r) = window c @ zs" using ok(2) win by (simp add: r'(2))
  then show w: "window c' = window c @ zs" unfolding window_def p' sync(2) sync(1) .
  have "rb_size r = rb_size (m_read_ring c) + length zs"
    by (metis r'(2) length_append length_ring_list)
  then show "synced c'"
    using r' sync p' ok(2) w \<open>drop ?p (ring_list r) = window c @ zs\<close> by (simp add: synced_def)
  show "decoder_of c' = decoder_of c" by (simp add: c' decoder_of_def sync_keeps) (simp add: strip_def)
qed

lemma decoder_sink: "d_sink (decoder_of c) = strip c"
  by (simp add: decoder_of_def)

lemma sink_ok_strip: "sink_ok env (strip c) \<longleftrightarrow> sink_ok env c"
  by (simp add: sink_ok_def strip_def)

text \<open>
  Property C2. How a chunked body is split into fragments on its way does not matter. A decoder
  that ran on a first fragment and asked for more, and runs again when the second has arrived,
  gives the same answer as one that got all the bytes at once; when the request is not refused,
  its state and the body collected so far are the same too.
\<close>

theorem chunked_fragmentation_independent:
  assumes "synced c" and "sink_ok env c"
    and "receive (xs @ ys) c = Some whole"
    and "receive xs c = Some first" and "parse_chunked_content env first = (NO_REQUEST, first')"
    and "receive ys first' = Some second"
  shows "let (k, c1) = parse_chunked_content env whole; (k', c2) = parse_chunked_content env second in
    k = k' \<and> (k = NO_REQUEST \<or> k = GET_REQUEST \<longrightarrow>
      decoder_of c1 = decoder_of c2 \<and> m_request_body c1 = m_request_body c2 \<and> window c1 = window c2)"
proof -
  note w = receive_ok [OF assms(1,3)] and f = receive_ok [OF assms(1,4)]
  have f': "dec_run (conn_put env) (decoder_of c) (window c @ xs) = (NO_REQUEST, decoder_of first', window first')" "synced first'"
    using parse_chunked_refines [OF f(1), of env] assms(5) f by (auto simp: refines_def)
  note s = receive_ok [OF f'(2) assms(6)]
  have inv: "sink_ok env (d_sink (decoder_of c))" using assms(2) by (simp add: decoder_sink sink_ok_strip)
  have "same_result (dec_run (conn_put env) (decoder_of c) (window c @ xs @ ys))
      (dec_run (conn_put env) (decoder_of first') (window first' @ ys))"
    using conn_sink.dec_run_fragment [OF inv, of "window c @ xs" ys] f'(1)
    by (simp add: conn_sink.continues_def)
  moreover obtain k c1 where k: "parse_chunked_content env whole = (k, c1)" by fastforce
  moreover obtain k' c2 where k': "parse_chunked_content env second = (k', c2)" by fastforce
  ultimately have "same_result (k, decoder_of c1, window c1) (k', decoder_of c2, window c2)"
    using parse_chunked_refines [OF w(1), of env] parse_chunked_refines [OF s(1), of env] w s
    by (simp add: refines_def)
  moreover have "decoder_of c1 = decoder_of c2 \<Longrightarrow> m_request_body c1 = m_request_body c2"
    by (simp add: decoder_of_def) (metis (no_types, lifting) strip_body)
  ultimately show ?thesis unfolding k k' Let_def prod.case by (blast dest: same_resultD1 same_resultD3)
qed

subsection \<open>The chunked encoding\<close>

text \<open>
  A chunk is a size line, which may carry extensions and spaces, and the data whose length it
  announces; the last chunk has size 0 and is followed by trailer lines and an empty line.
\<close>

definition chunk_ok :: "string \<times> string \<Rightarrow> bool" where
  "chunk_ok ch \<longleftrightarrow> CR \<notin> set (fst ch) \<and> snd ch \<noteq> [] \<and> parse_chunk_size_line (fst ch) = Some (length (snd ch))"

definition encode_chunk :: "string \<times> string \<Rightarrow> string" where
  "encode_chunk ch = fst ch @ CRLF @ snd ch @ CRLF"

definition encode_end :: "string \<Rightarrow> string list \<Rightarrow> string" where
  "encode_end zero trailers = zero @ CRLF @ concat (map (\<lambda>t. t @ CRLF) trailers) @ CRLF"

definition end_ok :: "string \<Rightarrow> string list \<Rightarrow> bool" where
  "end_ok zero trailers \<longleftrightarrow> CR \<notin> set zero \<and> parse_chunk_size_line zero = Some 0
     \<and> (\<forall>t \<in> set trailers. t \<noteq> [] \<and> CR \<notin> set t)"

lemma find_CRLF: "CR \<notin> set l \<Longrightarrow> find_sub CRLF (l @ CRLF @ r) = Some (length l)"
  by (induction l) auto

lemma dec_run_trailers:
  assumes "d_state d = CHUNK_STATE_TRAILER" "\<forall>t \<in> set trailers. t \<noteq> [] \<and> CR \<notin> set t"
  shows "dec_run put d (concat (map (\<lambda>t. t @ CRLF) trailers) @ CRLF @ rest)
    = (GET_REQUEST, d\<lparr>d_state := CHUNK_STATE_DONE\<rparr>, rest)"
  using assms(2)
proof (induction trailers)
  case Nil
  then show ?case using assms(1) find_CRLF [of "[]" rest] by (subst dec_run.simps) simp
next
  case (Cons t ts)
  let ?r = "concat (map (\<lambda>t. t @ CRLF) ts) @ CRLF @ rest"
  have w: "concat (map (\<lambda>t. t @ CRLF) (t # ts)) @ CRLF @ rest = t @ CRLF @ ?r" by simp
  have "dec_run put d (t @ CRLF @ ?r) = dec_run put d ?r"
    using assms(1) find_CRLF [of t ?r] Cons.prems by (subst dec_run.simps) simp
  then show ?case unfolding w using Cons by simp
qed

lemma dec_run_chunk:
  assumes "d_state d = CHUNK_STATE_SIZE" "chunk_ok ch" "put (d_sink d) (snd ch) = (NO_REQUEST, s)"
  shows "dec_run put d (encode_chunk ch @ r) =
    dec_run put (d\<lparr>d_size := length (snd ch), d_sink := s, d_read := length (snd ch)\<rparr>) r"
proof -
  obtain l x where ch: "ch = (l, x)" by fastforce
  let ?d1 = "d\<lparr>d_size := length x, d_read := 0, d_state := CHUNK_STATE_DATA\<rparr>"
  let ?d2 = "d\<lparr>d_size := length x, d_sink := s, d_read := length x, d_state := CHUNK_STATE_DATA_CRLF\<rparr>"
  let ?d3 = "d\<lparr>d_size := length x, d_sink := s, d_read := length x, d_state := CHUNK_STATE_SIZE\<rparr>"
  have x: "x \<noteq> []" and p: "parse_chunk_size_line l = Some (length x)" and cr: "CR \<notin> set l"
    using assms(2) by (auto simp: chunk_ok_def ch)
  have "dec_run put d (l @ CRLF @ x @ CRLF @ r) = dec_run put ?d1 (x @ CRLF @ r)"
    using assms(1) find_CRLF [OF cr, of "x @ CRLF @ r"] p x by (subst dec_run.simps) simp
  also have "\<dots> = dec_run put ?d2 (CRLF @ r)"
    using x assms(3) by (subst dec_run.simps) (simp add: Let_def ch min_def)
  also have "\<dots> = dec_run put ?d3 r" by (subst dec_run.simps) simp
  also have "?d3 = d\<lparr>d_size := length x, d_sink := s, d_read := length x\<rparr>" using assms(1) by simp
  finally show ?thesis by (simp add: encode_chunk_def ch)
qed

lemma dec_run_encoded:
  assumes "d_state d = CHUNK_STATE_SIZE" "m_stream_body_file (d_sink d) = None"
    "list_all chunk_ok chs" "end_ok zero trailers"
    "m_chunked_body_bytes_received (d_sink d) + length (concat (map snd chs)) \<le> READ_BUFFER_MAX_SIZE"
  shows "\<exists>d'. dec_run (conn_put env) d (concat (map encode_chunk chs) @ encode_end zero trailers @ rest)
      = (GET_REQUEST, d', rest) \<and> m_request_body (d_sink d') = m_request_body (d_sink d) @ concat (map snd chs)"
  using assms
proof (induction chs arbitrary: d)
  case Nil
  let ?d = "d\<lparr>d_size := 0, d_read := 0, d_state := CHUNK_STATE_TRAILER\<rparr>"
  let ?r = "concat (map (\<lambda>t. t @ CRLF) trailers) @ CRLF @ rest"
  have "dec_run (conn_put env) d (encode_end zero trailers @ rest) = dec_run (conn_put env) ?d ?r"
    using Nil find_CRLF [of zero ?r] by (subst dec_run.simps) (simp add: encode_end_def end_ok_def)
  also have "\<dots> = (GET_REQUEST, ?d\<lparr>d_state := CHUNK_STATE_DONE\<rparr>, rest)"
    using Nil by (intro dec_run_trailers) (simp_all add: end_ok_def)
  finally show ?case by simp
next
  case (Cons ch chs)
  let ?c = "d_sink d"
  let ?s = "?c\<lparr>m_request_body := m_request_body ?c @ snd ch,
    m_chunked_body_bytes_received := m_chunked_body_bytes_received ?c + length (snd ch)\<rparr>"
  let ?d = "d\<lparr>d_size := length (snd ch), d_sink := ?s, d_read := length (snd ch)\<rparr>"
  have "conn_put env ?c (snd ch) = (NO_REQUEST, ?s)"
    using Cons.prems by (simp add: conn_put_memory chunk_ok_def)
  then have step: "dec_run (conn_put env) d (concat (map encode_chunk (ch # chs)) @ encode_end zero trailers @ rest)
      = dec_run (conn_put env) ?d (concat (map encode_chunk chs) @ encode_end zero trailers @ rest)"
    using dec_run_chunk [of d ch "conn_put env" ?s] Cons.prems by simp
  show ?case unfolding step using Cons.IH [of ?d] Cons.prems by (simp add: add.assoc)
qed


lemma fresh_synced: "0 < n \<Longrightarrow> synced (fresh_conn n)" "window (fresh_conn n) = []" "sink_ok env (fresh_conn n)"
  by (simp_all add: synced_def fresh_conn_def window_def sink_ok_def reset_ring_buffer_def ring_ok_def ring_list_def)

definition sample_chunks :: string where
  "sample_chunks = ''5;x=y'' @ CRLF @ ''hello'' @ CRLF @ ''0'' @ CRLF @ CRLF"


theorem chunked_fragmentation_independent_witness:
  "let xs = ''5'' @ CRLF @ ''he''; ys = ''llo'' @ CRLF @ ''0'' @ CRLF @ CRLF in
   \<exists>whole first first' second c1 c2. receive (xs @ ys) (fresh_conn 64) = Some whole
     \<and> receive xs (fresh_conn 64) = Some first \<and> parse_chunked_content sample_env first = (NO_REQUEST, first')
     \<and> receive ys first' = Some second \<and> parse_chunked_content sample_env whole = (GET_REQUEST, c1)
     \<and> parse_chunked_content sample_env second = (GET_REQUEST, c2) \<and> m_request_body c1 = m_request_body c2"
proof -
  let ?xs = "''5'' @ CRLF @ ''he''" and ?ys = "''llo'' @ CRLF @ ''0'' @ CRLF @ CRLF"
  let ?run = "\<lambda>c. parse_chunked_content sample_env (the c)"
  let ?whole = "receive (?xs @ ?ys) (fresh_conn 64)" and ?first = "receive ?xs (fresh_conn 64)"
  have e: "?whole \<noteq> None" "?first \<noteq> None" "fst (?run ?first) = NO_REQUEST" "receive ?ys (snd (?run ?first)) \<noteq> None"
    "fst (?run ?whole) = GET_REQUEST" by code_simp+
  from e obtain whole first second where r: "?whole = Some whole" "?first = Some first"
    "receive ?ys (snd (?run ?first)) = Some second" by blast
  obtain first' where f: "parse_chunked_content sample_env first = (NO_REQUEST, first')"
    using e(3) r(2) by (metis fst_conv option.sel surj_pair)
  obtain c1 where w: "parse_chunked_content sample_env whole = (GET_REQUEST, c1)"
    using e(5) r(1) by (metis fst_conv option.sel surj_pair)
  obtain k c2 where s: "parse_chunked_content sample_env second = (k, c2)" by fastforce
  have r3: "receive ?ys first' = Some second" using r(2,3) f by simp
  show ?thesis
    using chunked_fragmentation_independent [OF fresh_synced(1,3) r(1,2) f r3] w s r f r3 by simp
qed

end
