(* ===== verification/Request_Parser.thy ===== *)
theory Request_Parser
  imports Chunked
begin

text \<open>
  The request parser of src/http/core/parser.cpp: the line scanner, the request line, the
  headers, the body and the driver \<open>process_read\<close>. The parser works in place on \<open>m_read_buf\<close>:
  it writes terminators into it and keeps pointers, which are offsets here. The undefined
  behaviours it can reach are values of \<open>ub\<close>: a null pointer handed to \<open>strncasecmp\<close>, a
  \<open>strcat\<close> past the end of the buffer, the overflow of the end position of a body, a write
  past the buffer and a pointer into a buffer that was reallocated.

  The multipart spool parser and the application behind \<open>do_request\<close> are arguments.
\<close>

subsection \<open>C strings in the buffer\<close>

definition cstr_at :: "'a conn_io_scheme \<Rightarrow> nat \<Rightarrow> string" where
  "cstr_at c p = c_str (drop p (m_read_buf c))"

definition poke :: "nat \<Rightarrow> byte \<Rightarrow> 'a conn_io_scheme \<Rightarrow> 'a conn_io_scheme" where
  "poke p b c = c\<lparr>m_read_buf := (m_read_buf c)[p := b]\<rparr>"

text \<open>\<open>strpbrk(p, " \t")\<close> and \<open>p + strspn(p, " \t")\<close> as offsets.\<close>

definition strpbrk_blank :: "'a conn_io_scheme \<Rightarrow> nat \<Rightarrow> nat option" where
  "strpbrk_blank c p =
     (let s = cstr_at c p; n = length (takeWhile (\<lambda>b. \<not> blank b) s) in
      if n < length s then Some (p + n) else None)"

definition skip_blanks :: "'a conn_io_scheme \<Rightarrow> nat \<Rightarrow> nat" where
  "skip_blanks c p = p + length (takeWhile blank (cstr_at c p))"

definition strchr_at :: "byte \<Rightarrow> 'a conn_io_scheme \<Rightarrow> nat \<Rightarrow> nat option" where
  "strchr_at b c p = map_option (\<lambda>i. p + i) (find_char b (cstr_at c p))"

subsection \<open>Lines\<close>

function parse_line :: "http_conn \<Rightarrow> line_status \<times> http_conn" where
  "parse_line c =
     (let i = m_checked_idx c; buf = m_read_buf c in
      if i < m_read_idx c then
        (if buf ! i = CR then
           (if i + 1 = m_read_idx c then (LINE_OPEN, c)
            else if buf ! (i + 1) = LF
            then (LINE_OK, c\<lparr>m_read_buf := buf[i := NUL, i + 1 := NUL], m_checked_idx := i + 2\<rparr>)
            else (LINE_BAD, c))
         else if buf ! i = LF then
           (if i > 1 \<and> buf ! (i - 1) = CR
            then (LINE_OK, c\<lparr>m_read_buf := buf[i - 1 := NUL, i := NUL], m_checked_idx := i + 1\<rparr>)
            else (LINE_BAD, c))
         else parse_line (c\<lparr>m_checked_idx := i + 1\<rparr>))
      else (LINE_OPEN, c))"
  by pat_completeness auto
termination
  by (relation "measure (\<lambda>c. m_read_idx c - m_checked_idx c)") auto

declare parse_line.simps [simp del]

subsection \<open>The request line\<close>

definition parse_method :: "string \<Rightarrow> http_method option" where
  "parse_method s =
     (if strcaseeq s ''GET'' then Some GET
      else if strcaseeq s ''HEAD'' then Some HEAD
      else if strcaseeq s ''OPTIONS'' then Some OPTIONS
      else if strcaseeq s ''POST'' then Some POST
      else if strcaseeq s ''PUT'' then Some PUT
      else if strcaseeq s ''DELETE'' then Some DELETE
      else if strcaseeq s ''TRACE'' then Some TRACE
      else if strcaseeq s ''CONNECT'' then Some CONNECT
      else if strcaseeq s ''PATCH'' then Some PATH
      else None)"

text \<open>\<open>m_url\<close> after an absolute-form prefix was taken off; \<open>None\<close> is the null pointer.\<close>

definition strip_scheme :: "string \<Rightarrow> 'a conn_io_scheme \<Rightarrow> nat \<Rightarrow> nat option" where
  "strip_scheme prefix c url =
     (if strncaseeq (cstr_at c url) prefix (length prefix)
      then strchr_at (CHR ''/'') c (url + length prefix) else Some url)"

text \<open>\<open>strcat(m_url, "index.html")\<close> at a C string of length 1.\<close>

definition index_suffix :: string where "index_suffix = ''index.html'' @ [NUL]"

definition set_request_target :: "string \<Rightarrow> string \<Rightarrow> http_conn \<Rightarrow> http_conn" where
  "set_request_target target query c = c\<lparr>m_url_storage := target, m_query_string_storage := query\<rparr>"

text \<open>The part from \<open>m_query_string = strchr(m_url, '?')\<close> on, with \<open>m_url\<close> at offset \<open>url\<close>.\<close>

definition finish_request_line :: "nat \<Rightarrow> http_conn \<Rightarrow> (http_code \<times> http_conn) cxx" where
  "finish_request_line url c =
     (let q = strchr_at (CHR ''?'') c url;
          c1 = (case q of None \<Rightarrow> c | Some p \<Rightarrow> poke p NUL c)
      in if length (cstr_at c1 url) = 1 \<and> url + 1 + length index_suffix > length (m_read_buf c1) then Inl OutOfBounds
         else let c2 = (if length (cstr_at c1 url) = 1
                        then c1\<lparr>m_read_buf := blit (m_read_buf c1) (url + 1) index_suffix\<rparr> else c1);
                  query = (case q of None \<Rightarrow> [] | Some p \<Rightarrow> cstr_at c2 (p + 1))
              in Inr (NO_REQUEST, (set_request_target (cstr_at c2 url) query c2)\<lparr>m_check_state := CHECK_STATE_HEADER\<rparr>))"

definition parse_target :: "nat \<Rightarrow> http_conn \<Rightarrow> (http_code \<times> http_conn) cxx" where
  "parse_target url c =
     (case strip_scheme ''http://'' c url of
        None \<Rightarrow> Inl NullDeref
      | Some url1 \<Rightarrow>
          (case strip_scheme ''https://'' c url1 of
             None \<Rightarrow> Inr (BAD_REQUEST, c)
           | Some url2 \<Rightarrow>
               if cstr_at c url2 = [] \<or> hd (cstr_at c url2) \<noteq> CHR ''/'' then Inr (BAD_REQUEST, c)
               else finish_request_line url2 c))"

definition parse_request_line :: "nat \<Rightarrow> http_conn \<Rightarrow> (http_code \<times> http_conn) cxx" where
  "parse_request_line text c =
     (case strpbrk_blank c text of
        None \<Rightarrow> Inr (BAD_REQUEST, c)
      | Some sp \<Rightarrow>
          let c1 = poke sp NUL c in
          (case parse_method (cstr_at c1 text) of
             None \<Rightarrow> Inr (BAD_REQUEST, c1)
           | Some m \<Rightarrow>
               let c2 = c1\<lparr>m_method := m, m_cgi := (m_cgi c1 \<or> m = POST)\<rparr>;
                   url = skip_blanks c2 (sp + 1)
               in (case strpbrk_blank c2 url of
                     None \<Rightarrow> Inr (BAD_REQUEST, c2)
                   | Some sp2 \<Rightarrow>
                       let c3 = poke sp2 NUL c2;
                           version = skip_blanks c3 (sp2 + 1);
                           c4 = c3\<lparr>m_version := Some (m_read_alloc c3, version)\<rparr>
                       in if strcaseeq (cstr_at c4 version) ''HTTP/1.1''
                          then parse_target url (c4\<lparr>m_is_http_1_1 := True, m_linger := True\<rparr>)
                          else if strcaseeq (cstr_at c4 version) ''HTTP/1.0''
                          then parse_target url (c4\<lparr>m_is_http_1_1 := False, m_linger := False\<rparr>)
                          else Inr (BAD_REQUEST, c4))))"

subsection \<open>Headers\<close>

definition is_multipart :: "http_conn \<Rightarrow> bool" where
  "is_multipart c \<longleftrightarrow> strncaseeq (m_content_type c) ''multipart/form-data'' 19"

text \<open>The empty line that ends the headers.\<close>

definition headers_end :: "conn_env \<Rightarrow> http_conn \<Rightarrow> http_code \<times> http_conn" where
  "headers_end env c =
     (let enter = (\<lambda>c. (NO_REQUEST, c\<lparr>m_check_state := CHECK_STATE_CONTENT, m_body_start_idx := m_checked_idx c\<rparr>));
          spool = (\<lambda>c. if is_multipart c then begin_streamed_body_capture env c else (True, c))
      in if m_chunked c then
           (if m_content_length_seen c then (BAD_REQUEST, c)
            else case spool c of
                   (False, c1) \<Rightarrow> (INTERNAL_ERROR, c1)
                 | (True, c1) \<Rightarrow> enter (c1\<lparr>m_chunked_parse_idx := m_checked_idx c1\<rparr>))
         else if m_content_length c \<noteq> 0 then
           (if is_multipart c \<and> m_content_length c > upload_limit env then (PAYLOAD_TOO_LARGE, c)
            else case spool c of
                   (False, c1) \<Rightarrow> (INTERNAL_ERROR, c1)
                 | (True, c1) \<Rightarrow> enter c1)
         else (GET_REQUEST, c))"

definition store_header :: "string \<Rightarrow> http_conn \<Rightarrow> http_conn" where
  "store_header line c =
     (case find_char (CHR '':'') line of
        None \<Rightarrow> c
      | Some i \<Rightarrow>
          let name = lowercase_copy (trim_copy (take i line));
              value = dropWhile blank (drop (i + 1) line)
          in if name \<noteq> [] then c\<lparr>m_headers := smap_set name (trim_copy value) (m_headers c)\<rparr> else c)"

definition header_rest :: "string \<Rightarrow> string \<Rightarrow> string" where
  "header_rest prefix line = dropWhile blank (drop (length prefix) line)"

definition header_is :: "string \<Rightarrow> string \<Rightarrow> bool" where
  "header_is prefix line \<longleftrightarrow> strncaseeq line prefix (length prefix)"

definition parse_header_line :: "nat \<Rightarrow> http_conn \<Rightarrow> http_code \<times> http_conn" where
  "parse_header_line text c0 =
     (let line = cstr_at c0 text; c = store_header line c0 in
      if header_is ''Connection:'' line then
        (let v = header_rest ''Connection:'' line in
         (NO_REQUEST, if strcaseeq v ''keep-alive'' then c\<lparr>m_linger := True\<rparr>
                      else if strcaseeq v ''close'' then c\<lparr>m_linger := False\<rparr> else c))
      else if header_is ''Content-length:'' line then
        (let c1 = c\<lparr>m_content_length_seen := True, m_content_length := atol (header_rest ''Content-length:'' line)\<rparr> in
         (if m_content_length c1 < 0 then BAD_REQUEST else NO_REQUEST, c1))
      else if header_is ''Host:'' line then
        (NO_REQUEST, c\<lparr>m_host := Some (m_read_alloc c, skip_blanks c (text + 5))\<rparr>)
      else if header_is ''Content-Type:'' line then
        (NO_REQUEST, c\<lparr>m_content_type := take 255 (header_rest ''Content-Type:'' line)\<rparr>)
      else if header_is ''Transfer-Encoding:'' line then
        (NO_REQUEST, if contains_chunked_transfer_encoding (header_rest ''Transfer-Encoding:'' line)
                     then c\<lparr>m_chunked := True\<rparr> else c)
      else if header_is ''Authorization:'' line then
        (NO_REQUEST, c\<lparr>m_authorization := header_rest ''Authorization:'' line\<rparr>)
      else (NO_REQUEST, c))"

definition parse_headers :: "conn_env \<Rightarrow> nat \<Rightarrow> http_conn \<Rightarrow> (http_code \<times> http_conn) cxx" where
  "parse_headers env text c =
     (if cstr_at c text = [] then
        (if m_is_http_1_1 c then
           (case m_host c of
              None \<Rightarrow> Inr (BAD_REQUEST, c)
            | Some p \<Rightarrow> (case read_ptr p c of
                 Inl u \<Rightarrow> Inl u
               | Inr host \<Rightarrow> Inr (if host = [] then (BAD_REQUEST, c) else headers_end env c)))
         else Inr (headers_end env c))
      else Inr (parse_header_line text c))"

subsection \<open>Bodies\<close>

definition parse_content :: "conn_env \<Rightarrow> http_conn \<Rightarrow> (http_code \<times> http_conn) cxx" where
  "parse_content env c =
     (if m_chunked c then Inr (parse_chunked_content env c)
      else if m_stream_body_file c \<noteq> None then
        (let available = int (m_read_idx c) - int (m_body_start_idx c);
             remaining = m_content_length c - m_stream_body_bytes_received c;
             chunk_len = (if available > remaining then remaining else available);
             finish = (\<lambda>c. Inr (if m_stream_body_bytes_received c \<ge> m_content_length c then GET_REQUEST else NO_REQUEST, c))
         in if chunk_len > 0 then
              (case append_streamed_body_chunk env
                      (take (nat chunk_len) (drop (m_body_start_idx c) (m_read_buf c))) c of
                 (False, c1) \<Rightarrow> Inr (if m_body_parse_error_status c1 = 413 then PAYLOAD_TOO_LARGE else INTERNAL_ERROR, c1)
               | (True, c1) \<Rightarrow> finish (reset_streamed_body_buffer c1))
            else finish c)
      else let stop = int (m_body_start_idx c) + m_content_length c in
           if \<not> long_ok stop then Inl SignedOverflow
           else if int (m_read_idx c) \<ge> stop then
             (if stop < 0 \<or> stop \<ge> int (length (m_read_buf c)) then Inl OutOfBounds
              else Inr (GET_REQUEST, (poke (nat stop) NUL c)
                     \<lparr>m_request_body := take (nat (m_content_length c)) (drop (m_body_start_idx c) (m_read_buf c))\<rparr>))
           else Inr (NO_REQUEST, c))"

definition set_memory_response :: "int \<Rightarrow> string \<Rightarrow> string \<Rightarrow> string \<Rightarrow> http_conn \<Rightarrow> http_conn" where
  "set_memory_response status title body content_type c =
     c\<lparr>m_response_status := status, m_response_status_title := take 63 (c_str title),
       m_response_content_type := take 255 (c_str content_type), m_response_body_storage := body\<rparr>"

text \<open>
  What \<open>parse_spooled_multipart\<close> gives for a spool file: an error with its status, title and
  message, or the text fields and the uploaded file.
\<close>

type_synonym spool_parser = "string \<Rightarrow> string \<Rightarrow> (int \<times> string \<times> string) + (smap \<times> uploaded_file)"

definition insert_new_all :: "smap \<Rightarrow> smap \<Rightarrow> smap" where
  "insert_new_all kvs m = fold (\<lambda>(k, v). smap_insert_new k v) kvs m"

definition parse_multipart_form_data_from_file :: "spool_parser \<Rightarrow> http_conn \<Rightarrow> bool \<times> http_conn" where
  "parse_multipart_form_data_from_file spool c0 =
     (let c = c0\<lparr>m_stream_body_file := None\<rparr> in
      case spool (m_stream_body_tmp_path c) (m_content_type c) of
        Inl (status, title, message) \<Rightarrow>
          (False, c\<lparr>m_body_parse_error_status := status, m_body_parse_error_title := title,
                    m_body_parse_error_message := message\<rparr>)
      | Inr (kvs, up) \<Rightarrow>
          (True, (unlink_if (m_stream_body_tmp_path c)
             (c\<lparr>m_form_data := insert_new_all kvs (m_form_data c), m_upload_tmp_path := temp_path up,
                m_upload_tmp_filename := up_filename up, m_upload_tmp_content_type := up_content_type up,
                m_upload_tmp_sha256 := up_sha256 up, m_upload_tmp_size := up_size up\<rparr>))
             \<lparr>m_stream_body_tmp_path := []\<rparr>))"

definition parse_post_body :: "spool_parser \<Rightarrow> http_conn \<Rightarrow> bool \<times> http_conn" where
  "parse_post_body spool c0 =
     (let c = c0\<lparr>m_form_data := [], m_json_data := [], m_body_parse_error_status := 0,
                 m_body_parse_error_title := [], m_body_parse_error_message := []\<rparr>
      in if is_multipart c then
           (if m_stream_body_tmp_path c \<noteq> [] \<or> m_stream_body_file c \<noteq> None
            then parse_multipart_form_data_from_file spool c
            else if m_request_body c = [] then (True, c)
            else let (b, m) = parse_multipart_form_data (m_content_type c) (m_request_body c) (m_form_data c)
                 in (b, c\<lparr>m_form_data := m\<rparr>))
         else if m_request_body c = [] then (True, c)
         else if strncaseeq (m_content_type c) ''application/x-www-form-urlencoded'' 33
         then let (b, m) = parse_form_urlencoded (m_request_body c) (m_form_data c) in (b, c\<lparr>m_form_data := m\<rparr>)
         else if strncaseeq (m_content_type c) ''application/json'' 16
         then let (b, m) = parse_json_body (m_request_body c) (m_json_data c) in (b, c\<lparr>m_json_data := m\<rparr>)
         else (True, c))"

subsection \<open>The driver\<close>

definition refusal :: "http_code \<Rightarrow> bool" where
  "refusal k \<longleftrightarrow> k \<in> {BAD_REQUEST, NOT_IMPLEMENTED, PAYLOAD_TOO_LARGE, INTERNAL_ERROR}"

text \<open>
  The condition of the loop of \<open>process_read\<close>: in the content state it is entered once without
  scanning a line, otherwise a line is scanned.
\<close>

definition next_line :: "line_status \<Rightarrow> http_conn \<Rightarrow> line_status \<times> http_conn" where
  "next_line st c =
     (if m_check_state c = CHECK_STATE_CONTENT \<and> st = LINE_OK then (LINE_OK, c) else parse_line c)"

text \<open>
  One round: \<open>Inl\<close> leaves the loop with a result, \<open>Inr\<close> goes on with the line status and the
  connection. \<open>app\<close> is \<open>do_request\<close>.
\<close>

type_synonym outcome = "(http_code \<times> http_conn) cxx"

definition read_round :: "conn_env \<Rightarrow> (http_conn \<Rightarrow> outcome) \<Rightarrow> line_status \<Rightarrow> http_conn \<Rightarrow>
    outcome + (line_status \<times> http_conn)" where
  "read_round env app st c0 =
     (case next_line st c0 of (st', c1) \<Rightarrow>
        if st' \<noteq> LINE_OK then Inl (Inr (NO_REQUEST, c1))
        else let text = m_start_line c1; c = c1\<lparr>m_start_line := m_checked_idx c1\<rparr> in
          (case m_check_state c of
             CHECK_STATE_REQUESTLINE \<Rightarrow>
               (case parse_request_line text c of
                  Inl u \<Rightarrow> Inl (Inl u)
                | Inr (ret, c2) \<Rightarrow> if refusal ret then Inl (Inr (ret, c2)) else Inr (LINE_OK, c2))
           | CHECK_STATE_HEADER \<Rightarrow>
               (case parse_headers env text c of
                  Inl u \<Rightarrow> Inl (Inl u)
                | Inr (ret, c2) \<Rightarrow>
                    if refusal ret then Inl (Inr (ret, c2))
                    else if ret = GET_REQUEST then Inl (app c2)
                    else Inr (LINE_OK, c2))
           | CHECK_STATE_CONTENT \<Rightarrow>
               (case parse_content env c of
                  Inl u \<Rightarrow> Inl (Inl u)
                | Inr (ret, c2) \<Rightarrow>
                    if refusal ret then Inl (Inr (ret, c2))
                    else if ret = GET_REQUEST then Inl (app c2)
                    else Inr (LINE_OPEN, c2))))"

partial_function (option) read_loop :: "conn_env \<Rightarrow> (http_conn \<Rightarrow> outcome) \<Rightarrow> line_status \<Rightarrow> http_conn \<Rightarrow> outcome option"
  where [code]:
  "read_loop env app st c =
     (case read_round env app st c of
        Inl r \<Rightarrow> Some r
      | Inr (st', c') \<Rightarrow> read_loop env app st' c')"

definition process_read :: "conn_env \<Rightarrow> (http_conn \<Rightarrow> outcome) \<Rightarrow> http_conn \<Rightarrow> outcome option" where
  "process_read env app c = read_loop env app LINE_OK c"

subsection \<open>Termination of the driver\<close>

text \<open>The read side is consistent: \<open>m_read_idx\<close> is the number of bytes in the ring.\<close>

definition read_ok :: "http_conn \<Rightarrow> bool" where
  "read_ok c \<longleftrightarrow> ring_ok (m_read_ring c) \<and> m_read_idx c = rb_size (m_read_ring c)"

text \<open>Fewer bytes are left, or as many and the line scanner has not gone back.\<close>

definition progress :: "http_conn \<Rightarrow> http_conn \<Rightarrow> bool" where
  "progress c c' \<longleftrightarrow> m_read_idx c' < m_read_idx c \<or>
     m_read_idx c' = m_read_idx c \<and> m_read_idx c' - m_checked_idx c' \<le> m_read_idx c - m_checked_idx c"

definition same_read :: "http_conn \<Rightarrow> http_conn \<Rightarrow> bool" where
  "same_read c c' \<longleftrightarrow> m_read_ring c' = m_read_ring c \<and> m_read_idx c' = m_read_idx c \<and> m_checked_idx c' = m_checked_idx c"

lemma same_read_progress: "same_read c c' \<Longrightarrow> progress c c'" "same_read c c' \<Longrightarrow> read_ok c \<Longrightarrow> read_ok c'"
  by (simp_all add: same_read_def progress_def read_ok_def)

lemma same_read_trans: "same_read a b \<Longrightarrow> same_read b c \<Longrightarrow> same_read a c"
  by (simp add: same_read_def)

lemma same_read_poke [simp]: "same_read c (poke p b c)"
  by (simp add: same_read_def poke_def)

lemma begin_streamed_same: "begin_streamed_body_capture env c = (b, c') \<Longrightarrow> same_read c c'"
  by (auto simp: begin_streamed_body_capture_def same_read_def Let_def split: if_splits)

lemma append_streamed_same: "append_streamed_body_chunk env d c = (b, c') \<Longrightarrow> same_read c c'"
  by (auto simp: append_streamed_body_chunk_def same_read_def Let_def split: if_splits option.splits)

lemma append_decoded_same: "append_decoded_body_chunk env d c = (k, c') \<Longrightarrow> same_read c c'"
  by (auto simp: append_decoded_body_chunk_def append_streamed_body_chunk_def same_read_def Let_def
      split: if_splits option.splits prod.splits bool.splits)

lemma finish_request_line_same: "finish_request_line url c = Inr (k, c') \<Longrightarrow> same_read c c'"
  by (auto simp: finish_request_line_def same_read_def Let_def set_request_target_def poke_def
      split: if_splits option.splits)

lemma parse_target_same: "parse_target url c = Inr (k, c') \<Longrightarrow> same_read c c'"
  by (auto simp: parse_target_def split: option.splits if_splits dest: finish_request_line_same)
     (auto simp: same_read_def)

lemma parse_request_line_same: "parse_request_line text c = Inr (k, c') \<Longrightarrow> same_read c c'"
  by (auto simp: parse_request_line_def Let_def split: option.splits if_splits dest!: parse_target_same)
     (auto simp: same_read_def poke_def)

lemma headers_end_same: "headers_end env c = (k, c') \<Longrightarrow> same_read c c'"
  by (auto simp: headers_end_def Let_def split: if_splits prod.splits bool.splits dest!: begin_streamed_same)
     (auto simp: same_read_def)

lemma parse_headers_same: "parse_headers env text c = Inr (k, c') \<Longrightarrow> same_read c c'"
proof -
  assume h: "parse_headers env text c = Inr (k, c')"
  have "same_read c (store_header l c)" for l
    by (auto simp: store_header_def same_read_def Let_def split: option.splits)
  moreover have "same_read (store_header (cstr_at c text) c) (snd (parse_header_line text c))"
    by (auto simp: parse_header_line_def Let_def same_read_def)
  ultimately have "same_read c (snd (parse_header_line text c))" using same_read_trans by blast
  moreover have "same_read c c" by (simp add: same_read_def)
  ultimately show ?thesis
    using h headers_end_same
    by (auto simp: parse_headers_def split: if_splits option.splits sum.splits)
qed

lemma progress_trans: "progress a b \<Longrightarrow> progress b c \<Longrightarrow> progress a c"
  by (auto simp: progress_def)

lemma compact_chunked_progress:
  assumes "read_ok c"
  shows "progress c (compact_chunked c) \<and> read_ok (compact_chunked c)"
proof (cases "m_chunked_parse_idx c = 0")
  case True
  then have "compact_chunked c = c" by (simp add: compact_chunked_def compact_read_buffer_prefix_def)
  then show ?thesis using assms by (simp add: progress_def)
next
  case False
  have ok: "ring_ok (m_read_ring c)" "m_read_idx c = rb_size (m_read_ring c)" using assms by (auto simp: read_ok_def)
  let ?c = "compact_read_buffer_prefix (int (m_chunked_parse_idx c)) c"
  note cp = compact_read_buffer_prefix_ok [OF ok(1), of "m_chunked_parse_idx c"]
  have "m_read_idx ?c = rb_size (m_read_ring c) - m_chunked_parse_idx c" "m_read_idx ?c = rb_size (m_read_ring ?c)"
    "ring_ok (m_read_ring ?c)"
    using cp(1,2,3) False by (metis length_drop length_ring_list neq0_conv)+
  then show ?thesis using False ok cp(5) by (auto simp: compact_chunked_def progress_def read_ok_def)
qed

lemma parse_chunked_progress:
  "read_ok c \<Longrightarrow> parse_chunked_content env c = (k, c') \<Longrightarrow> progress c c' \<and> read_ok c'"
proof (induction "2 * (m_read_idx c - m_chunked_parse_idx c) + (if m_chunk_state c = CHUNK_STATE_DATA then 1 else 0)"
    arbitrary: c rule: less_induct)
  case less
  have refl: "progress c c" by (simp add: progress_def)
  note cp = compact_chunked_progress [OF less.prems(1)]
  have rec: "progress c c' \<and> read_ok c'"
    if "parse_chunked_content env c2 = (k, c')" "same_read c c2"
      "2 * (m_read_idx c2 - m_chunked_parse_idx c2) + (if m_chunk_state c2 = CHUNK_STATE_DATA then 1 else 0)
        < 2 * (m_read_idx c - m_chunked_parse_idx c) + (if m_chunk_state c = CHUNK_STATE_DATA then 1 else 0)" for c2
    using less.hyps [OF that(3) _ that(1)] same_read_progress [OF that(2)] less.prems(1) progress_trans by blast
  have run: "parse_chunked_content env c = (k, c')" by (rule less.prems(2))
  show ?case
  proof (cases "m_chunked_parse_idx c < m_read_idx c")
    case False
    then show ?thesis using run cp refl less.prems(1)
      by (subst (asm) parse_chunked_content.simps) (auto split: if_splits)
  next
    case more: True
    show ?thesis
    proof (cases "m_chunk_state c")
      case CHUNK_STATE_DONE
      then show ?thesis using run more refl less.prems(1) by (subst (asm) parse_chunked_content.simps) auto
    next
      case CHUNK_STATE_SIZE
      show ?thesis
      proof (cases "find_sub CRLF (window c)")
        case None
        then show ?thesis using run more CHUNK_STATE_SIZE cp by (subst (asm) parse_chunked_content.simps) auto
      next
        case (Some e)
        show ?thesis
        proof (cases "parse_chunk_size_line (take e (window c))")
          case None
          then show ?thesis using run more CHUNK_STATE_SIZE Some refl less.prems(1)
            by (subst (asm) parse_chunked_content.simps) auto
        next
          case (Some n)
          have "parse_chunked_content env (c\<lparr>m_chunk_size := n, m_chunked_parse_idx := m_chunked_parse_idx c + e + 2,
              m_chunk_bytes_read := 0, m_chunk_state := (if n = 0 then CHUNK_STATE_TRAILER else CHUNK_STATE_DATA)\<rparr>) = (k, c')"
            using run more CHUNK_STATE_SIZE \<open>find_sub CRLF (window c) = Some e\<close> Some
            by (subst (asm) parse_chunked_content.simps) simp
          then show ?thesis by (rule rec) (use more CHUNK_STATE_SIZE in \<open>auto simp: same_read_def\<close>)
        qed
      qed
    next
      case CHUNK_STATE_TRAILER
      show ?thesis
      proof (cases "find_sub CRLF (window c)")
        case None
        then show ?thesis using run more CHUNK_STATE_TRAILER cp by (subst (asm) parse_chunked_content.simps) auto
      next
        case (Some e)
        show ?thesis
        proof (cases "e = 0")
          case True
          then have "c' = c\<lparr>m_chunked_parse_idx := m_chunked_parse_idx c + 2, m_chunk_state := CHUNK_STATE_DONE\<rparr>"
            using run more CHUNK_STATE_TRAILER Some by (subst (asm) parse_chunked_content.simps) simp
          then show ?thesis using less.prems(1) by (simp add: progress_def read_ok_def)
        next
          case False
          then have "parse_chunked_content env (c\<lparr>m_chunked_parse_idx := m_chunked_parse_idx c + e + 2\<rparr>) = (k, c')"
            using run more CHUNK_STATE_TRAILER Some by (subst (asm) parse_chunked_content.simps) simp
          then show ?thesis by (rule rec) (use more CHUNK_STATE_TRAILER in \<open>auto simp: same_read_def\<close>)
        qed
      qed
    next
      case CHUNK_STATE_DATA_CRLF
      let ?p = "m_chunked_parse_idx c"
      show ?thesis
      proof (cases "m_read_idx c - ?p < 2 \<or> m_read_buf c ! ?p \<noteq> CR \<or> m_read_buf c ! (?p + 1) \<noteq> LF")
        case True
        then have "c' = c \<or> c' = compact_chunked c"
          using run more CHUNK_STATE_DATA_CRLF by (subst (asm) parse_chunked_content.simps) (simp split: if_splits)
        then show ?thesis using cp refl less.prems(1) by blast
      next
        case False
        then have "parse_chunked_content env (c\<lparr>m_chunked_parse_idx := ?p + 2, m_chunk_state := CHUNK_STATE_SIZE\<rparr>) = (k, c')"
          using run more CHUNK_STATE_DATA_CRLF by (subst (asm) parse_chunked_content.simps) simp
        then show ?thesis by (rule rec) (use more CHUNK_STATE_DATA_CRLF in \<open>auto simp: same_read_def\<close>)
      qed
    next
      case CHUNK_STATE_DATA
      define n where "n = (if m_read_idx c - m_chunked_parse_idx c < m_chunk_size c - m_chunk_bytes_read c
        then m_read_idx c - m_chunked_parse_idx c else m_chunk_size c - m_chunk_bytes_read c)"
      obtain j c1 where app: "append_decoded_body_chunk env (take n (drop (m_chunked_parse_idx c) (m_read_buf c))) c = (j, c1)"
        by fastforce
      let ?c2 = "c1\<lparr>m_chunked_parse_idx := m_chunked_parse_idx c + n, m_chunk_bytes_read := m_chunk_bytes_read c + n\<rparr>"
      have same: "same_read c c1" by (rule append_decoded_same [OF app])
      then have ok2: "read_ok ?c2" "progress c ?c2" "same_read c ?c2"
        using less.prems(1) by (auto simp: same_read_def read_ok_def progress_def)
      have eq: "parse_chunked_content env c = (if j \<noteq> NO_REQUEST then (j, c1)
          else if m_chunk_bytes_read c + n < m_chunk_size c1 then (NO_REQUEST, compact_chunked ?c2)
          else parse_chunked_content env (?c2\<lparr>m_chunk_state := CHUNK_STATE_DATA_CRLF\<rparr>))"
        using more CHUNK_STATE_DATA app
        by (subst parse_chunked_content.simps) (simp add: Let_def flip: n_def)
      show ?thesis
      proof (cases "j = NO_REQUEST \<and> \<not> m_chunk_bytes_read c + n < m_chunk_size c1")
        case True
        then have "parse_chunked_content env (?c2\<lparr>m_chunk_state := CHUNK_STATE_DATA_CRLF\<rparr>) = (k, c')"
          using run unfolding eq by simp
        then show ?thesis
          by (rule rec) (use ok2(3) CHUNK_STATE_DATA in \<open>auto simp: same_read_def\<close>)
      next
        case False
        then have "c' = c1 \<or> c' = compact_chunked ?c2" using run unfolding eq by (auto split: if_splits)
        then show ?thesis
          using same_read_progress [OF same] less.prems(1) compact_chunked_progress [OF ok2(1)] progress_trans [OF ok2(2)]
          by blast
      qed
    qed
  qed
qed

lemma parse_content_progress:
  assumes "read_ok c" "parse_content env c = Inr (k, c')"
  shows "progress c c' \<and> read_ok c'"
proof -
  have reset: "progress c (reset_streamed_body_buffer c1) \<and> read_ok (reset_streamed_body_buffer c1)"
    if "same_read c c1" "m_body_start_idx c < m_read_idx c" for c1
    using that assms(1)
    by (auto simp: same_read_def reset_streamed_body_buffer_def progress_def read_ok_def ring_ok_def reset_ring_buffer_def)
  consider (chunked) "parse_chunked_content env c = (k, c')"
    | (spool) d c1 b where "append_streamed_body_chunk env d c = (b, c1)" "c' = c1 \<or> c' = reset_streamed_body_buffer c1"
        "m_body_start_idx c < m_read_idx c"
    | (same) "same_read c c'"
    using assms(2)
    by (auto simp: parse_content_def Let_def same_read_def poke_def split: if_splits prod.splits bool.splits)
  then show ?thesis
  proof cases
    case chunked
    then show ?thesis using parse_chunked_progress assms(1) by blast
  next
    case spool
    note same = append_streamed_same [OF spool(1)]
    show ?thesis using reset [OF same spool(3)] same_read_progress [OF same] assms(1) spool(2) by auto
  next
    case same
    then show ?thesis using same_read_progress assms(1) by blast
  qed
qed

lemma read_ok_checked [simp]: "read_ok (c\<lparr>m_checked_idx := i\<rparr>) = read_ok c"
  by (simp add: read_ok_def)

lemma parse_line_step:
  "parse_line c = (st, c') \<Longrightarrow> read_ok c \<Longrightarrow> read_ok c' \<and> m_read_idx c' = m_read_idx c \<and> m_checked_idx c \<le> m_checked_idx c'
     \<and> (st = LINE_OK \<longrightarrow> m_read_idx c' - m_checked_idx c' < m_read_idx c - m_checked_idx c)"
proof (induction c rule: parse_line.induct)
  case (1 c)
  show ?case
  proof (cases "m_checked_idx c < m_read_idx c \<and> m_read_buf c ! m_checked_idx c \<noteq> CR \<and> m_read_buf c ! m_checked_idx c \<noteq> LF")
    case True
    then have "parse_line (c\<lparr>m_checked_idx := m_checked_idx c + 1\<rparr>) = (st, c')"
      using 1(2) by (subst (asm) parse_line.simps) (simp add: Let_def)
    then have "read_ok c' \<and> m_read_idx c' = m_read_idx c \<and> m_checked_idx c + 1 \<le> m_checked_idx c'
        \<and> (st = LINE_OK \<longrightarrow> m_read_idx c' - m_checked_idx c' < m_read_idx c - (m_checked_idx c + 1))"
      using 1(1) [OF refl refl] 1(3) True by auto
    then show ?thesis by auto
  next
    case False
    then show ?thesis
      using 1(2,3) by (subst (asm) parse_line.simps) (auto simp: Let_def read_ok_def split: if_splits)
  qed
qed

definition round_measure :: "(line_status \<times> http_conn) \<Rightarrow> nat \<times> nat \<times> nat" where
  "round_measure p = (case p of (st, c) \<Rightarrow>
     (m_read_idx c, m_read_idx c - m_checked_idx c,
      if m_check_state c = CHECK_STATE_CONTENT \<and> st = LINE_OK then 1 else 0))"

lemma progress_measure:
  assumes "progress c c'" "m_read_idx c - m_checked_idx c < n"
  shows "(m_read_idx c' < m_read_idx c \<or> m_read_idx c' = m_read_idx c \<and> m_read_idx c' - m_checked_idx c' < n)"
  using assms by (auto simp: progress_def)

lemma read_round_step:
  assumes ok: "read_ok c" and r: "read_round env app st c = Inr (st', c')"
  shows "read_ok c' \<and> (round_measure (st', c'), round_measure (st, c)) \<in> less_than <*lex*> less_than <*lex*> less_than"
proof -
  obtain s1 c1 where nl: "next_line st c = (s1, c1)" by fastforce
  have s1: "s1 = LINE_OK" using r nl by (auto simp: read_round_def split: if_splits)
  let ?c = "c1\<lparr>m_start_line := m_checked_idx c1\<rparr>"
  have step: "progress ?c c' \<and> read_ok c' \<and> (m_check_state ?c = CHECK_STATE_CONTENT \<longrightarrow> st' = LINE_OPEN)"
    if "read_ok ?c"
    using r nl s1 parse_content_progress [OF that] same_read_progress [OF parse_request_line_same]
      same_read_progress [OF parse_headers_same] that
    by (auto simp: read_round_def Let_def split: check_state.splits sum.splits if_splits)
  show ?thesis
  proof (cases "m_check_state c = CHECK_STATE_CONTENT \<and> st = LINE_OK")
    case True
    then have c1: "c1 = c" using nl by (simp add: next_line_def)
    then have "read_ok ?c" using ok by (simp add: read_ok_def)
    from step [OF this] show ?thesis using True unfolding c1
      by (auto simp: round_measure_def progress_def)
  next
    case False
    then have "parse_line c = (LINE_OK, c1)" using nl s1 unfolding next_line_def by (simp split: if_splits)
    from parse_line_step [OF this ok] have p: "read_ok c1" "m_read_idx c1 = m_read_idx c"
      "m_read_idx c1 - m_checked_idx c1 < m_read_idx c - m_checked_idx c" by auto
    then have "read_ok ?c" by (simp add: read_ok_def)
    from step [OF this] have "progress ?c c'" "read_ok c'" by auto
    then show ?thesis using p progress_measure [of ?c c' "m_read_idx c - m_checked_idx c"]
      by (auto simp: round_measure_def)
  qed
qed

lemma process_read_returns:
  assumes "read_ok c"
  shows "\<exists>r. process_read env app c = Some r"
proof -
  have wf: "wf (inv_image (less_than <*lex*> less_than <*lex*> less_than) round_measure)"
    by (intro wf_inv_image wf_lex_prod wf_less_than)
  have "\<exists>r. read_loop env app (fst p) (snd p) = Some r" if "read_ok (snd p)" for p
    using that
  proof (induction p rule: wf_induct_rule [OF wf])
    case (1 p)
    obtain st c where p: "p = (st, c)" by fastforce
    show ?case
    proof (cases "read_round env app st c")
      case (Inl r)
      then show ?thesis unfolding p by (subst read_loop.simps) simp
    next
      case (Inr q)
      obtain st' c' where q: "q = (st', c')" by fastforce
      have "read_ok c' \<and> (round_measure (st', c'), round_measure (st, c)) \<in> less_than <*lex*> less_than <*lex*> less_than"
        using read_round_step [of c env app st st' c'] 1(2) Inr unfolding p q by simp
      then have "\<exists>r. read_loop env app st' c' = Some r"
        using 1(1) [of "(st', c')"] unfolding p by simp
      then show ?thesis using Inr q unfolding p by (subst read_loop.simps) simp
    qed
  qed
  then show ?thesis using assms unfolding process_read_def by (metis fst_conv snd_conv)
qed

text \<open>
  Property C27. \<open>process_read\<close> always returns: whatever bytes are in the buffer, in whatever state
  the parser is, the loop over lines and body parts ends.
\<close>

theorem process_read_terminates:
  assumes "read_ok c"
  shows "\<exists>r. process_read env app c = Some r"
  using assms by (rule process_read_returns)

subsection \<open>What the request line means\<close>

lemma cstr_at_append: "m_read_buf c = xs @ s @ NUL # r \<Longrightarrow> NUL \<notin> set s \<Longrightarrow> cstr_at c (length xs) = s"
  by (simp add: cstr_at_def c_str_append_NUL)

definition word_text :: "string \<Rightarrow> bool" where
  "word_text s \<longleftrightarrow> (\<forall>b \<in> set s. \<not> blank b \<and> b \<noteq> NUL)"

lemma c_str_append: "NUL \<notin> set s \<Longrightarrow> c_str (s @ r) = s @ c_str r"
  by (induction s) (auto simp: c_str_def)

lemma strpbrk_blank_append:
  assumes "m_read_buf c = xs @ s @ SP # r" "word_text s"
  shows "strpbrk_blank c (length xs) = Some (length xs + length s)"
proof -
  have "NUL \<notin> set s" using assms(2) by (auto simp: word_text_def)
  then have "cstr_at c (length xs) = s @ SP # c_str r"
    using assms(1) by (simp add: cstr_at_def c_str_append) (simp add: c_str_def)
  moreover have "takeWhile (\<lambda>b. \<not> blank b) (s @ SP # c_str r) = s"
    using assms(2) by (intro takeWhile_stop) (auto simp: word_text_def)
  ultimately show ?thesis by (simp add: strpbrk_blank_def Let_def)
qed

lemma skip_blanks_none:
  assumes "m_read_buf c = xs @ s @ r" "s \<noteq> []" "word_text s"
  shows "skip_blanks c (length xs) = length xs"
proof -
  obtain b t where "s = b # t" using assms(2) by (cases s) auto
  then have "cstr_at c (length xs) = b # c_str (t @ r)" "\<not> blank b"
    using assms by (auto simp: cstr_at_def word_text_def c_str_def)
  then show ?thesis by (simp add: skip_blanks_def)
qed

lemma poke_buf: "m_read_buf c = xs @ b # r \<Longrightarrow> m_read_buf (poke (length xs) NUL c) = xs @ NUL # r"
  by (simp add: poke_def)

lemma finish_plain:
  assumes "m_read_buf c = xs @ path @ NUL # r" "NUL \<notin> set path" "CHR ''?'' \<notin> set path" "length path \<noteq> 1"
  shows "finish_request_line (length xs) c
    = Inr (NO_REQUEST, (set_request_target path [] c)\<lparr>m_check_state := CHECK_STATE_HEADER\<rparr>)"
proof -
  have "cstr_at c (length xs) = path" by (rule cstr_at_append [OF assms(1,2)])
  moreover have "find_char (CHR ''?'') path = None" using assms(3) by (simp add: find_char_None_iff)
  ultimately show ?thesis using assms(4) by (simp add: finish_request_line_def strchr_at_def Let_def)
qed

lemma finish_query:
  assumes "m_read_buf c = xs @ path @ CHR ''?'' # q @ NUL # r" "NUL \<notin> set path" "CHR ''?'' \<notin> set path"
    "length path \<noteq> 1" "NUL \<notin> set q"
  shows "\<exists>c'. finish_request_line (length xs) c
    = Inr (NO_REQUEST, (set_request_target path q c')\<lparr>m_check_state := CHECK_STATE_HEADER\<rparr>)
    \<and> m_method c' = m_method c \<and> m_linger c' = m_linger c \<and> m_is_http_1_1 c' = m_is_http_1_1 c"
proof -
  let ?p = "length xs + length path" let ?c = "poke ?p NUL c"
  have b: "m_read_buf c = (xs @ path) @ CHR ''?'' # q @ NUL # r" using assms(1) by simp
  have "cstr_at c (length xs) = path @ CHR ''?'' # q"
    using cstr_at_append [of c xs "path @ CHR ''?'' # q" r] assms by simp
  then have q: "strchr_at (CHR ''?'') c (length xs) = Some ?p"
    using find_char_append [OF assms(3), of q] by (simp add: strchr_at_def)
  have buf: "m_read_buf ?c = xs @ path @ NUL # q @ NUL # r" using poke_buf [OF b] by simp
  have url: "cstr_at ?c (length xs) = path" by (rule cstr_at_append [OF buf assms(2)])
  have "cstr_at ?c (?p + 1) = q" using cstr_at_append [of ?c "xs @ path @ [NUL]" q r] buf assms(5) by simp
  then have "finish_request_line (length xs) c
      = Inr (NO_REQUEST, (set_request_target path q ?c)\<lparr>m_check_state := CHECK_STATE_HEADER\<rparr>)"
    using q url assms(4) by (simp add: finish_request_line_def Let_def)
  then show ?thesis by (intro exI [of _ ?c]) (simp add: poke_def)
qed

lemma parse_target_rooted:
  assumes "m_read_buf c = xs @ u @ NUL # r" "NUL \<notin> set u" "u \<noteq> []" "hd u = CHR ''/''"
  shows "parse_target (length xs) c = finish_request_line (length xs) c"
proof -
  have cs: "cstr_at c (length xs) = u" by (rule cstr_at_append [OF assms(1,2)])
  obtain t where u: "u = CHR ''/'' # t" using assms(3,4) by (cases u) auto
  have "tolower (CHR ''/'') = CHR ''/''" "tolower (CHR ''h'') = CHR ''h''" by (simp_all add: tolower_def isupper_def)
  then have "strip_scheme ''http://'' c (length xs) = Some (length xs)" "strip_scheme ''https://'' c (length xs) = Some (length xs)"
    by (simp_all add: strip_scheme_def cs u strncaseeq_def c_str_def)
  then show ?thesis using cs u by (simp add: parse_target_def)
qed

lemma parse_method_name: "parse_method (method_name m) = Some m"
  by (cases m) (simp_all add: parse_method_def strcaseeq_def c_str_def tolower_def isupper_def)

lemma method_name_word: "word_text (method_name m)" "method_name m \<noteq> []"
  by (cases m; simp add: word_text_def)+

lemma word_text_no_NUL: "word_text s \<Longrightarrow> NUL \<notin> set s"
  by (auto simp: word_text_def)

text \<open>The request line the client sends, at offset \<open>length xs\<close>, terminated by \<open>parse_line\<close>.\<close>

lemma parse_request_line_words:
  assumes buf: "m_read_buf c = xs @ method_name m @ SP # u @ SP # v @ NUL # r"
    and u: "word_text u" "u \<noteq> []" "hd u = CHR ''/''" and v: "v = ''HTTP/1.1'' \<or> v = ''HTTP/1.0''"
  obtains c' ys where "parse_request_line (length xs) c = finish_request_line (length ys) c'"
    "m_read_buf c' = ys @ u @ NUL # v @ NUL # r" "m_method c' = m"
    "m_linger c' = (v = ''HTTP/1.1'')" "m_is_http_1_1 c' = (v = ''HTTP/1.1'')" "length ys = length xs + length (method_name m) + 1"
proof -
  let ?M = "method_name m" let ?sp = "length xs + length ?M" let ?url = "?sp + 1" let ?sp2 = "?url + length u"
  let ?c1 = "poke ?sp NUL c" let ?c2 = "?c1\<lparr>m_method := m, m_cgi := (m_cgi ?c1 \<or> m = POST)\<rparr>"
  let ?c3 = "poke ?sp2 NUL ?c2" let ?ver = "?sp2 + 1"
  let ?c4 = "?c3\<lparr>m_version := Some (m_read_alloc ?c3, ?ver)\<rparr>"
  let ?c5 = "?c4\<lparr>m_is_http_1_1 := (v = ''HTTP/1.1''), m_linger := (v = ''HTTP/1.1'')\<rparr>"
  have v': "word_text v" "v \<noteq> []" using v by (auto simp: word_text_def)
  have s1: "strpbrk_blank c (length xs) = Some ?sp"
    by (rule strpbrk_blank_append [OF buf method_name_word(1)])
  have b1: "m_read_buf ?c1 = xs @ ?M @ NUL # u @ SP # v @ NUL # r"
    using poke_buf [of c "xs @ ?M" SP "u @ SP # v @ NUL # r"] buf by simp
  have m: "cstr_at ?c1 (length xs) = ?M" by (rule cstr_at_append [OF b1 word_text_no_NUL [OF method_name_word(1)]])
  have b2: "m_read_buf ?c2 = (xs @ ?M @ [NUL]) @ u @ SP # v @ NUL # r" using b1 by simp
  have len: "length (xs @ ?M @ [NUL]) = ?url" by simp
  have sk: "skip_blanks ?c2 ?url = ?url" using skip_blanks_none [OF b2 u(2,1)] unfolding len .
  have s2: "strpbrk_blank ?c2 ?url = Some ?sp2" using strpbrk_blank_append [OF b2 u(1)] unfolding len .
  have b3: "m_read_buf ?c3 = (xs @ ?M @ [NUL]) @ u @ NUL # v @ NUL # r"
    using poke_buf [of ?c2 "(xs @ ?M @ [NUL]) @ u" SP "v @ NUL # r"] b2 by (simp add: add.assoc)
  have b3': "m_read_buf ?c3 = (xs @ ?M @ [NUL] @ u @ [NUL]) @ v @ NUL # r" using b3 by simp
  have len3: "length (xs @ ?M @ [NUL] @ u @ [NUL]) = ?ver" by simp
  have sk3: "skip_blanks ?c3 ?ver = ?ver"
    using skip_blanks_none [of ?c3 "xs @ ?M @ [NUL] @ u @ [NUL]" v "NUL # r"] b3' v' unfolding len3 by simp
  have ver: "cstr_at ?c4 ?ver = v"
    using cstr_at_append [of ?c4 "xs @ ?M @ [NUL] @ u @ [NUL]" v r] b3' word_text_no_NUL [OF v'(1)] unfolding len3 by simp
  have cmp: "strcaseeq ''HTTP/1.1'' ''HTTP/1.1''" "\<not> strcaseeq ''HTTP/1.0'' ''HTTP/1.1''" "strcaseeq ''HTTP/1.0'' ''HTTP/1.0''"
    by code_simp+
  have "parse_request_line (length xs) c = parse_target ?url ?c5"
    unfolding parse_request_line_def s1 option.case Let_def m parse_method_name sk s2 sk3 ver
    using v cmp by auto
  also have "\<dots> = finish_request_line ?url ?c5"
    using parse_target_rooted [of ?c5 "xs @ ?M @ [NUL]" u "v @ NUL # r"] b3 word_text_no_NUL [OF u(1)] u(2,3) unfolding len by simp
  finally have run: "parse_request_line (length xs) c = finish_request_line (length (xs @ ?M @ [NUL])) ?c5" unfolding len .
  show thesis by (rule that [OF run]) (use b3 in \<open>simp_all add: poke_def\<close>)
qed

text \<open>
  A request line with a method the server knows, a rooted target and a version is
  understood: the method, the path, the query after the first question mark, the version and the
  default persistence of the connection are those the client wrote, and the parser moves on to
  the headers.
\<close>

lemma parse_request_line_understands:
  assumes "m_read_buf c = xs @ method_name m @ SP # (path @ (case q of None \<Rightarrow> [] | Some t \<Rightarrow> CHR ''?'' # t)) @ SP # v @ NUL # r"
    and "word_text path" and "CHR ''?'' \<notin> set path" and "hd path = CHR ''/''" and "length path \<ge> 2"
    and "case q of None \<Rightarrow> True | Some t \<Rightarrow> word_text t" and "v = ''HTTP/1.1'' \<or> v = ''HTTP/1.0''"
  shows "\<exists>c'. parse_request_line (length xs) c = Inr (NO_REQUEST, c') \<and> m_method c' = m \<and> m_url_storage c' = path
    \<and> m_query_string_storage c' = (case q of None \<Rightarrow> [] | Some t \<Rightarrow> t)
    \<and> m_is_http_1_1 c' = (v = ''HTTP/1.1'') \<and> m_linger c' = (v = ''HTTP/1.1'')
    \<and> m_check_state c' = CHECK_STATE_HEADER"
proof -
  let ?u = "path @ (case q of None \<Rightarrow> [] | Some t \<Rightarrow> CHR ''?'' # t)"
  have p: "path \<noteq> []" "length path \<noteq> 1" using assms(5) by auto
  have u: "word_text ?u" "?u \<noteq> []" "hd ?u = CHR ''/''"
    using assms(2,4,6) p by (auto simp: word_text_def split: option.splits)
  obtain c' ys where c': "parse_request_line (length xs) c = finish_request_line (length ys) c'"
    "m_read_buf c' = ys @ ?u @ NUL # v @ NUL # r" "m_method c' = m"
    "m_linger c' = (v = ''HTTP/1.1'')" "m_is_http_1_1 c' = (v = ''HTTP/1.1'')"
    by (rule parse_request_line_words [OF assms(1) u assms(7)])
  show ?thesis
  proof (cases q)
    case None
    then show ?thesis
      using finish_plain [of c' ys path "v @ NUL # r"] c' word_text_no_NUL [OF assms(2)] assms(3) p(2)
      by (simp add: set_request_target_def)
  next
    case (Some t)
    then have "word_text t" using assms(6) by simp
    then show ?thesis
      using finish_query [of c' ys path t "v @ NUL # r"] c' word_text_no_NUL [OF assms(2)] assms(3) p(2)
        word_text_no_NUL [of t] Some
      by (auto simp: set_request_target_def)
  qed
qed

text \<open>A connection that has received \<open>s\<close> into buffers of \<open>n\<close> bytes.\<close>

definition received :: "nat \<Rightarrow> string \<Rightarrow> http_conn" where
  "received n s = sync_read_buffer
     ((fresh_conn n)\<lparr>m_read_ring := the (ring_append (m_read_ring (fresh_conn n)) s)\<rparr>)"

definition line_conn :: "string \<Rightarrow> http_conn" where
  "line_conn s = (fresh_conn 8)\<lparr>m_read_buf := s\<rparr>"

lemma parse_request_line_understands_witness:
  "\<exists>c'. parse_request_line 0 (line_conn (''GET /list?page=2 HTTP/1.1'' @ [NUL])) = Inr (NO_REQUEST, c')
     \<and> m_method c' = GET \<and> m_url_storage c' = ''/list'' \<and> m_query_string_storage c' = ''page=2'' \<and> m_linger c'"
  using parse_request_line_understands [where c = "line_conn (''GET /list?page=2 HTTP/1.1'' @ [NUL])" and xs = "[]"
      and m = GET and path = "''/list''" and q = "Some ''page=2''" and v = "''HTTP/1.1''" and r = "[]"]
  by (auto simp: line_conn_def word_text_def)

theorem process_read_terminates_witness:
  "\<exists>r. process_read sample_env (\<lambda>c. Inr (NO_REQUEST, c)) (fresh_conn 64) = Some r"
  by (rule process_read_terminates)
     (simp add: read_ok_def fresh_conn_def ring_ok_def reset_ring_buffer_def)

subsection \<open>Where the parser leaves the language\<close>

text \<open>
  An absolute request target with no path after the host, as in
  \<open>GET http://host HTTP/1.1\<close>, makes the parser hand a null pointer to \<open>strncasecmp\<close>.
\<close>

lemma absolute_target_null_deref:
  "parse_request_line 0 (line_conn (''GET http://host HTTP/1.1'' @ [NUL])) = Inl NullDeref"
  by code_simp

text \<open>
  For \<open>GET /?a=1\<close> the name of the index page is written over the query: the
  request that reaches the application asks for \<open>/index.html\<close> with the query \<open>ndex.html\<close>.
\<close>

lemma root_query_clobbered:
  "map_sum id (\<lambda>(k, c). (k, m_url_storage c, m_query_string_storage c))
     (parse_request_line 0 (line_conn (''GET /?a=1 HTTP/1.1'' @ replicate 8 NUL)))
   = Inr (NO_REQUEST, ''/index.html'', ''ndex.html'')"
  by code_simp

text \<open>
  A declared body length of \<open>LONG_MAX\<close> overflows the position of the end of the
  body, whatever was received.
\<close>

lemma content_length_overflows:
  "\<not> m_chunked c \<and> m_stream_body_file c = None \<and> m_body_start_idx c > 0 \<Longrightarrow>
     parse_content env (c\<lparr>m_content_length := LONG_MAX\<rparr>) = Inl SignedOverflow"
  by (simp add: parse_content_def long_ok_def LONG_MAX_def LONG_MIN_def Let_def)

lemma content_length_overflows_witness:
  "parse_content sample_env ((fresh_conn 64)\<lparr>m_body_start_idx := 40, m_content_length := LONG_MAX\<rparr>) = Inl SignedOverflow"
  using content_length_overflows [of "(fresh_conn 64)\<lparr>m_body_start_idx := 40\<rparr>" sample_env]
  by (simp add: fresh_conn_def)

end
