(* ===== verification/Multipart.thy ===== *)
theory Multipart
  imports Storage Request_Parser
begin

text \<open>
  The parser of spooled multipart bodies (src/http/files/multipart_parser.cpp). It reads the spool
  file in blocks, keeps what it has not consumed in a buffer, and streams the bodies of the parts
  into a text value or a file with its digest.

  The open file is the list of blocks \<open>fread\<close> will deliver, and whether a read error follows them.
  The loops over the file end only when it is read without error, so they are partial functions.
\<close>

subsection \<open>The reader\<close>

record reader =
  rd_chunks :: "string list"
  rd_error :: bool
  rd_eof :: bool
  rd_buffer :: string

definition fill :: "reader \<Rightarrow> bool \<times> reader" where
  "fill r =
     (if rd_eof r then (False, r)
      else (case rd_chunks r of
              c # cs \<Rightarrow> (True, r\<lparr>rd_chunks := cs, rd_buffer := rd_buffer r @ c\<rparr>)
            | [] \<Rightarrow> if rd_error r then (False, r) else (rd_buffer r \<noteq> [], r\<lparr>rd_eof := True\<rparr>)))"

definition fuel_of :: "reader \<Rightarrow> nat" where
  "fuel_of r = length (rd_chunks r) + (if rd_eof r then 0 else 1)"

lemma fill_fuel: "fill r = (True, r1) \<Longrightarrow> fuel_of r1 < fuel_of r"
  by (auto simp: fill_def fuel_of_def split: if_splits list.splits)

definition crlf :: string where "crlf = [CR, LF]"

function read_line :: "reader \<Rightarrow> string option \<times> reader" where
  "read_line r =
     (case find_sub crlf (rd_buffer r) of
        Some pos \<Rightarrow> (Some (take pos (rd_buffer r)), r\<lparr>rd_buffer := drop (pos + 2) (rd_buffer r)\<rparr>)
      | None \<Rightarrow> (case fill r of (b, r1) \<Rightarrow> if b then read_line r1 else (None, r1)))"
  by pat_completeness auto
termination
  by (relation "measure fuel_of") (auto dest: fill_fuel [OF sym])

declare read_line.simps [simp del]

text \<open>The bytes the reader has not consumed.\<close>

definition content :: "reader \<Rightarrow> string" where
  "content r = rd_buffer r @ concat (rd_chunks r)"

lemma fill_content: "fill r = (b, r1) \<Longrightarrow> content r1 = content r"
  by (auto simp: fill_def content_def split: if_splits list.splits)

lemma read_line_shorter: "read_line r = (Some l, r1) \<Longrightarrow> length (content r1) < length (content r)"
proof (induction r rule: read_line.induct)
  case (1 r)
  show ?case
  proof (cases "find_sub crlf (rd_buffer r)")
    case None
    then show ?thesis using 1 fill_content by (subst (asm) (2) read_line.simps) (fastforce split: prod.splits if_splits)
  next
    case (Some pos)
    then have "pos + 2 \<le> length (rd_buffer r)" using find_sub_Some [of crlf "rd_buffer r" pos] by (simp add: crlf_def)
    then show ?thesis using Some 1(2) by (subst (asm) read_line.simps) (auto simp: content_def)
  qed
qed

function read_headers :: "smap \<Rightarrow> reader \<Rightarrow> smap option \<times> reader" where
  "read_headers headers r =
     (case read_line r of
        (None, r1) \<Rightarrow> (None, r1)
      | (Some line, r1) \<Rightarrow>
          if line = [] then (Some headers, r1)
          else (case find_char (CHR '':'') line of
                  None \<Rightarrow> (None, r1)
                | Some colon \<Rightarrow>
                    read_headers (smap_set (lowercase_copy (trim_copy (take colon line)))
                      (trim_copy (drop (colon + 1) line)) headers) r1))"
  by pat_completeness auto
termination
  by (relation "measure (\<lambda>(headers, r). length (content r))") (auto dest: read_line_shorter [OF sym])

declare read_headers.simps [simp del]

partial_function (option) top_up :: "reader \<Rightarrow> reader option" where [code]:
  "top_up r = (if length (rd_buffer r) < 2 \<and> \<not> rd_eof r then top_up (snd (fill r)) else Some r)"

text \<open>
  \<open>consume_delimiter\<close>: the status is \<open>None\<close> for -1 (no delimiter in the buffer), else whether it is
  1. The sink and the flag \<open>is_final\<close> are passed through. \<open>None\<close>: the loop does not end.
\<close>

type_synonym 's put = "'s \<Rightarrow> string \<Rightarrow> bool \<times> 's"
type_synonym 's fin = "'s \<Rightarrow> bool \<times> 's"
type_synonym 's body_state = "'s \<times> bool \<times> reader"

text \<open>What follows the delimiter: the end of the body, the next part, or neither.\<close>

definition after_delimiter :: "'s fin \<Rightarrow> 's body_state \<Rightarrow> bool \<times> 's body_state" where
  "after_delimiter fin st =
     (case st of (s, final, r) \<Rightarrow>
        if length (rd_buffer r) < 2 then (False, st)
        else if take 2 (rd_buffer r) = ''--'' then
          (let r1 = r\<lparr>rd_buffer := drop 2 (rd_buffer r)\<rparr>;
               r2 = (if length (rd_buffer r1) < 2 \<and> \<not> rd_eof r1 then snd (fill r1) else r1);
               r3 = (if length (rd_buffer r2) \<ge> 2 \<and> take 2 (rd_buffer r2) = crlf
                     then r2\<lparr>rd_buffer := drop 2 (rd_buffer r2)\<rparr> else r2)
           in case fin s of (b, s1) \<Rightarrow> (b, s1, True, r3))
        else if take 2 (rd_buffer r) = crlf then
          (case fin s of (b, s1) \<Rightarrow> (b, s1, False, r\<lparr>rd_buffer := drop 2 (rd_buffer r)\<rparr>))
        else (False, st))"

definition consume_delimiter :: "'s put \<Rightarrow> 's fin \<Rightarrow> string \<Rightarrow> 's body_state \<Rightarrow> (bool option \<times> 's body_state) option" where
  "consume_delimiter put fin delimiter st =
     (case st of (s, final, r) \<Rightarrow>
        (case find_sub delimiter (rd_buffer r) of
           None \<Rightarrow> Some (None, st)
         | Some pos \<Rightarrow>
             (case (if pos > 0 then put s (take pos (rd_buffer r)) else (True, s)) of
                (False, s1) \<Rightarrow> Some (Some False, s1, final, r)
              | (True, s1) \<Rightarrow>
                  (case top_up (r\<lparr>rd_buffer := drop (pos + length delimiter) (rd_buffer r)\<rparr>) of
                     None \<Rightarrow> None
                   | Some r1 \<Rightarrow> (case after_delimiter fin (s1, final, r1) of (b, st1) \<Rightarrow> Some (Some b, st1))))))"

definition flush_prefix :: "'s put \<Rightarrow> string \<Rightarrow> 's body_state \<Rightarrow> bool \<times> 's body_state" where
  "flush_prefix put delimiter st =
     (case st of (s, final, r) \<Rightarrow>
        if length (rd_buffer r) > length delimiter then
          (let n = length (rd_buffer r) - length delimiter in
           case put s (take n (rd_buffer r)) of
             (False, s1) \<Rightarrow> (False, s1, final, r)
           | (True, s1) \<Rightarrow> (True, s1, final, r\<lparr>rd_buffer := drop n (rd_buffer r)\<rparr>))
        else (True, st))"

partial_function (option) read_part_body ::
  "'s put \<Rightarrow> 's fin \<Rightarrow> string \<Rightarrow> 's body_state \<Rightarrow> (bool \<times> 's body_state) option" where [code]:
  "read_part_body put fin delimiter st =
     (case consume_delimiter put fin delimiter st of
        None \<Rightarrow> None
      | Some (Some b, st1) \<Rightarrow> Some (b, st1)
      | Some (None, st1) \<Rightarrow>
          (case st1 of (s, final, r) \<Rightarrow>
             if rd_eof r then Some (False, st1)
             else (case fill r of (b, r1) \<Rightarrow>
               if \<not> b \<and> rd_eof r1 then Some (False, s, final, r1)
               else (case consume_delimiter put fin delimiter (s, final, r1) of
                       None \<Rightarrow> None
                     | Some (Some b', st2) \<Rightarrow> Some (b', st2)
                     | Some (None, st2) \<Rightarrow>
                         (case flush_prefix put delimiter st2 of (ok, st3) \<Rightarrow>
                            if \<not> ok then Some (False, st3) else read_part_body put fin delimiter st3)))))"

subsection \<open>The sink of a text field\<close>

record text_sink =
  ts_limit :: nat
  ts_limit_exceeded :: bool
  ts_value :: string

definition kMultipartTextFieldLimitBytes :: nat where "kMultipartTextFieldLimitBytes = 64 * 1024"

definition text_sink_write :: "text_sink put" where
  "text_sink_write s d =
     (if length (ts_value s) + length d > ts_limit s then (False, s\<lparr>ts_limit_exceeded := True\<rparr>)
      else (True, s\<lparr>ts_value := ts_value s @ d\<rparr>))"

definition text_sink_finish :: "text_sink fin" where
  "text_sink_finish s = (True, s)"

subsection \<open>The parser\<close>

record mp_env =
  mp_doc_root :: string
  mp_upload_max_bytes :: nat
  mp_rand :: "nat \<Rightarrow> string option"
  mp_open :: "string \<Rightarrow> reader option"
  mp_sink :: sink_env

definition random_hex_token :: "(nat \<Rightarrow> string option) \<Rightarrow> string" where
  "random_hex_token rand = (case rand 16 of None \<Rightarrow> [] | Some bytes \<Rightarrow> encode_hex bytes)"

text \<open>
  \<open>ParseResult\<close>, with the temporary files that were created and those that were removed, in order.
\<close>

record parse_state =
  ps_fields :: smap
  ps_file :: uploaded_file
  ps_has_file :: bool
  ps_created :: "string list"
  ps_removed :: "string list"

definition empty_state :: parse_state where
  "empty_state = \<lparr>ps_fields = [], ps_file = no_upload, ps_has_file = False, ps_created = [], ps_removed = []\<rparr>"

type_synonym parse_error = "int \<times> string \<times> string"
type_synonym parse_result = "parse_error \<times> parse_state + parse_state"

definition mp_remove :: "string \<Rightarrow> parse_state \<Rightarrow> parse_state" where
  "mp_remove path ps = (if path \<noteq> [] then ps\<lparr>ps_removed := ps_removed ps @ [path]\<rparr> else ps)"

text \<open>The lambda \<open>fail\<close>: the file kept so far is removed and the result reset.\<close>

definition mp_fail :: "int \<Rightarrow> string \<Rightarrow> string \<Rightarrow> parse_state \<Rightarrow> parse_result" where
  "mp_fail status title message ps =
     (let ps1 = mp_remove (temp_path (ps_file ps)) ps in
      Inl ((status, title, message), ps1\<lparr>ps_fields := [], ps_file := no_upload, ps_has_file := False\<rparr>))"

definition mp_bad :: "string \<Rightarrow> parse_state \<Rightarrow> parse_result" where
  "mp_bad message ps = mp_fail 400 ''Bad Request'' message ps"

definition part_delimiter :: "string \<Rightarrow> string" where
  "part_delimiter boundary = crlf @ ''--'' @ boundary"

definition upload_limit_message :: "nat \<Rightarrow> string" where
  "upload_limit_message n = ''upload exceeds limit of '' @ nat_to_string n @ '' bytes''"

text \<open>What a finished file part and a finished text part do to the result.\<close>

definition file_part_done :: "mp_env \<Rightarrow> string \<Rightarrow> string \<Rightarrow> string \<Rightarrow> string \<Rightarrow> bool + sha_sink \<Rightarrow> parse_state \<Rightarrow> parse_result" where
  "file_part_done env name safe_name ctype path res ps =
     (case res of
        Inl limit_exceeded \<Rightarrow>
          (if limit_exceeded
           then mp_fail 413 ''Payload Too Large'' (upload_limit_message (mp_upload_max_bytes env)) (mp_remove path ps)
           else mp_bad ''invalid multipart file content'' (mp_remove path ps))
      | Inr s \<Rightarrow>
          if ss_size s \<le> 0 then mp_bad ''content is empty'' (mp_remove path ps)
          else Inr (ps\<lparr>ps_file := \<lparr>temp_path = path, up_filename = safe_name,
                         up_content_type = (if ctype = [] then ''application/octet-stream'' else ctype),
                         up_sha256 = ss_sha256 s, up_size = ss_size s, released = False\<rparr>,
                       ps_has_file := True,
                       ps_fields := (if name \<noteq> [] then smap_set name safe_name (ps_fields ps) else ps_fields ps)\<rparr>))"

definition text_part_done :: "string \<Rightarrow> bool + text_sink \<Rightarrow> parse_state \<Rightarrow> parse_result" where
  "text_part_done name res ps =
     (case res of
        Inl limit_exceeded \<Rightarrow>
          (if limit_exceeded then mp_fail 413 ''Payload Too Large'' ''multipart form field is too large'' ps
           else mp_bad ''invalid multipart field value'' ps)
      | Inr s \<Rightarrow> Inr (if name \<noteq> [] then ps\<lparr>ps_fields := smap_set name (ts_value s) (ps_fields ps)\<rparr> else ps))"

text \<open>The result of \<open>read_part_body\<close> as the caller sees it: the flag of the sink, or the sink.\<close>

definition body_outcome :: "('s \<Rightarrow> bool) \<Rightarrow> bool \<Rightarrow> 's \<Rightarrow> bool + 's" where
  "body_outcome flag ok s = (if ok then Inr s else Inl (flag s))"

definition new_text_sink :: text_sink where
  "new_text_sink = \<lparr>ts_limit = kMultipartTextFieldLimitBytes, ts_limit_exceeded = False, ts_value = []\<rparr>"

text \<open>What the headers of a part ask for: refuse it, a file part or a text part.\<close>

datatype part_kind = RefusePart parse_result | FilePart string string string string parse_state | TextPart string

definition part_plan :: "mp_env \<Rightarrow> smap option \<Rightarrow> parse_state \<Rightarrow> part_kind" where
  "part_plan env hs ps =
     (case hs of
        None \<Rightarrow> RefusePart (mp_bad ''invalid multipart headers'' ps)
      | Some headers \<Rightarrow>
          (case map_of headers ''content-disposition'' of
             None \<Rightarrow> RefusePart (mp_bad ''missing content-disposition'' ps)
           | Some disposition \<Rightarrow>
               let name = header_param_value disposition ''name'';
                   filename = header_param_value disposition ''filename'';
                   ctype = lookup_or_empty headers ''content-type''
               in if filename = [] then TextPart name
                  else if ps_has_file ps then RefusePart (mp_bad ''multiple file parts are not supported'' ps)
                  else let safe_name = sanitize_filename filename; token = random_hex_token (mp_rand env) in
                    if token = [] then RefusePart (mp_fail 500 ''Internal Error'' ''failed to allocate upload temp path'' ps)
                    else let path = temp_root (mp_doc_root env) @ ''/upload-'' @ token @ file_extension safe_name in
                      if \<not> si_open (mp_sink env) path
                      then RefusePart (mp_fail 500 ''Internal Error'' ''failed to create upload temp file'' ps)
                      else FilePart name safe_name ctype path (ps\<lparr>ps_created := ps_created ps @ [path]\<rparr>)))"

text \<open>One part: the headers, the body into its sink. \<open>None\<close>: reading does not end.\<close>

definition read_part :: "mp_env \<Rightarrow> string \<Rightarrow> parse_state \<Rightarrow> reader \<Rightarrow> (parse_result \<times> bool \<times> reader) option" where
  "read_part env boundary ps r =
     (case read_headers [] r of (hs, r1) \<Rightarrow>
        (case part_plan env hs ps of
           RefusePart e \<Rightarrow> Some (e, False, r1)
         | FilePart name safe_name ctype path ps1 \<Rightarrow>
             (case read_part_body (sha_sink_write (mp_sink env)) (sha_sink_finish (mp_sink env)) (part_delimiter boundary)
                     (open_sha_sink (mp_sink env) path (mp_upload_max_bytes env), False, r1) of
                None \<Rightarrow> None
              | Some (ok, s, final, r2) \<Rightarrow> Some (file_part_done env name safe_name ctype path (body_outcome ss_limit_exceeded ok s) ps1, final, r2))
         | TextPart name \<Rightarrow>
             (case read_part_body text_sink_write text_sink_finish (part_delimiter boundary)
                     (new_text_sink, False, r1) of
                None \<Rightarrow> None
              | Some (ok, s, final, r2) \<Rightarrow> Some (text_part_done name (body_outcome ts_limit_exceeded ok s) ps, final, r2))))"

definition mp_finish :: "parse_state \<Rightarrow> parse_result" where
  "mp_finish ps = (if \<not> ps_has_file ps then mp_bad ''missing file field'' ps else Inr ps)"

partial_function (option) parts_loop :: "mp_env \<Rightarrow> string \<Rightarrow> parse_state \<Rightarrow> reader \<Rightarrow> parse_result option" where [code]:
  "parts_loop env boundary ps r =
     (case read_part env boundary ps r of
        None \<Rightarrow> None
      | Some (Inl e, final, r1) \<Rightarrow> Some (Inl e)
      | Some (Inr ps1, final, r1) \<Rightarrow> if final then Some (mp_finish ps1) else parts_loop env boundary ps1 r1)"

definition boundary_of :: "string \<Rightarrow> string option" where
  "boundary_of content_type =
     (case find_sub ''boundary='' content_type of
        None \<Rightarrow> None
      | Some pos \<Rightarrow>
          let b = trim_copy (drop (pos + 9) content_type) in
          Some (if b \<noteq> [] \<and> hd b = QUOTE \<and> last b = QUOTE then take (length b - 2) (drop 1 b) else b))"

definition parse_spooled_multipart :: "mp_env \<Rightarrow> string \<Rightarrow> string \<Rightarrow> parse_result option" where
  "parse_spooled_multipart env spool_path content_type =
     (if spool_path = [] then Some (mp_bad ''missing multipart body'' empty_state)
      else (case boundary_of content_type of
              None \<Rightarrow> Some (mp_bad ''missing multipart boundary'' empty_state)
            | Some boundary \<Rightarrow>
                if boundary = [] then Some (mp_bad ''invalid multipart boundary'' empty_state)
                else (case mp_open env spool_path of
                        None \<Rightarrow> Some (mp_fail 500 ''Internal Error'' ''failed to open multipart spool file'' empty_state)
                      | Some r \<Rightarrow>
                          (case read_line r of (line, r1) \<Rightarrow>
                             if line \<noteq> Some (''--'' @ boundary)
                             then Some (mp_bad ''invalid multipart preamble'' empty_state)
                             else parts_loop env boundary empty_state r1))))"

subsection \<open>Reading does not depend on the blocks\<close>

text \<open>A reader of a file that is read without error, before its end was noticed.\<close>

definition reader_ok :: "reader \<Rightarrow> bool" where
  "reader_ok r \<longleftrightarrow> \<not> rd_error r \<and> \<not> rd_eof r"

definition ref_line :: "string \<Rightarrow> (string \<times> string) option" where
  "ref_line t = (case find_sub crlf t of None \<Rightarrow> None | Some pos \<Rightarrow> Some (take pos t, drop (pos + 2) t))"

lemma find_sub_prefix: "find_sub p s = Some i \<Longrightarrow> find_sub p (s @ t) = Some i"
  by (rule find_sub_append_Some)

text \<open>One \<open>fill\<close> of a good reader: another block, or the end of the file with everything in the buffer.\<close>

lemma fill_cases:
  assumes "reader_ok r"
  obtains (block) r1 where "fill r = (True, r1)" "reader_ok r1" "content r1 = content r" "fuel_of r1 < fuel_of r"
      "\<exists>c. rd_buffer r1 = rd_buffer r @ c"
    | (at_end) r1 where "fill r = (rd_buffer r \<noteq> [], r1)" "rd_eof r1" "rd_buffer r1 = rd_buffer r" "rd_chunks r1 = []"
      "content r = rd_buffer r" "\<not> rd_error r1"
proof (cases "rd_chunks r")
  case Nil
  then show thesis using assms at_end [of "r\<lparr>rd_eof := True\<rparr>"] by (simp add: fill_def reader_ok_def content_def)
next
  case (Cons c cs)
  then show thesis
    using assms block [of "r\<lparr>rd_chunks := cs, rd_buffer := rd_buffer r @ c\<rparr>"]
    by (simp add: fill_def reader_ok_def content_def fuel_of_def)
qed

lemma read_line_at_end:
  "rd_eof r \<Longrightarrow> find_sub crlf (rd_buffer r) = None \<Longrightarrow> read_line r = (None, r)"
  by (subst read_line.simps) (simp add: fill_def)

lemma read_line_ref:
  assumes "reader_ok r"
  shows "case read_line r of
      (None, r1) \<Rightarrow> ref_line (content r) = None
    | (Some line, r1) \<Rightarrow> ref_line (content r) = Some (line, content r1) \<and> reader_ok r1"
  using assms
proof (induction r rule: measure_induct_rule [of fuel_of])
  case (less r)
  show ?case
  proof (cases "find_sub crlf (rd_buffer r)")
    case (Some pos)
    then have "find_sub crlf (content r) = Some pos" "pos + 2 \<le> length (rd_buffer r)"
      using find_sub_prefix find_sub_Some [of crlf "rd_buffer r" pos] by (auto simp: content_def crlf_def)
    then show ?thesis
      using Some less.prems by (subst read_line.simps) (auto simp: ref_line_def content_def reader_ok_def)
  next
    case None
    from less.prems show ?thesis
    proof (cases rule: fill_cases)
      case (block r1)
      then have "read_line r = read_line r1" using None by (subst read_line.simps) simp
      then show ?thesis using less.IH [OF block(4,2)] unfolding block(3) by simp
    next
      case (at_end r1)
      have "fst (read_line r) = None"
        using None at_end read_line_at_end [of r1] by (subst read_line.simps) simp
      moreover have "ref_line (content r) = None" using None at_end(5) by (simp add: ref_line_def)
      ultimately show ?thesis by (auto split: prod.splits option.splits)
    qed
  qed
qed

lemma ref_line_shorter: "ref_line t = Some (l, t1) \<Longrightarrow> length t1 < length t"
  using find_sub_Some [of crlf t] by (fastforce simp: ref_line_def crlf_def split: option.splits)

function ref_headers :: "smap \<Rightarrow> string \<Rightarrow> (smap \<times> string) option" where
  "ref_headers headers t =
     (case ref_line t of
        None \<Rightarrow> None
      | Some (line, t1) \<Rightarrow>
          if line = [] then Some (headers, t1)
          else (case find_char (CHR '':'') line of
                  None \<Rightarrow> None
                | Some colon \<Rightarrow>
                    ref_headers (smap_set (lowercase_copy (trim_copy (take colon line)))
                      (trim_copy (drop (colon + 1) line)) headers) t1))"
  by pat_completeness auto
termination
  by (relation "measure (\<lambda>(headers, t). length t)") (auto dest: ref_line_shorter)

declare ref_headers.simps [simp del]

lemma read_headers_ref:
  assumes "reader_ok r"
  shows "case read_headers hs r of
      (None, r1) \<Rightarrow> ref_headers hs (content r) = None
    | (Some h, r1) \<Rightarrow> ref_headers hs (content r) = Some (h, content r1) \<and> reader_ok r1"
  using assms
proof (induction hs r rule: read_headers.induct)
  case (1 hs r)
  obtain l r1 where rl: "read_line r = (l, r1)" by fastforce
  note line = read_line_ref [OF 1(2), unfolded rl]
  show ?case
  proof (cases l)
    case None
    then show ?thesis using rl line by (simp add: read_headers.simps [of hs r] ref_headers.simps [of hs "content r"])
  next
    case (Some line')
    then have ref: "ref_line (content r) = Some (line', content r1)" and ok: "reader_ok r1" using line by auto
    show ?thesis
    proof (cases "line' = [] \<or> find_char (CHR '':'') line' = None")
      case True
      then show ?thesis
        using rl Some ref ok by (auto simp: read_headers.simps [of hs r] ref_headers.simps [of hs "content r"])
    next
      case False
      then obtain colon where colon: "find_char (CHR '':'') line' = Some colon" and ne: "line' \<noteq> []" by auto
      let ?hs = "smap_set (lowercase_copy (trim_copy (take colon line'))) (trim_copy (drop (colon + 1) line')) hs"
      have eqs: "read_headers hs r = read_headers ?hs r1" "ref_headers hs (content r) = ref_headers ?hs (content r1)"
        using rl Some ref colon ne by (simp_all add: read_headers.simps [of hs r] ref_headers.simps [of hs "content r"])
      show ?thesis unfolding eqs by (rule 1(1) [OF rl [symmetric] Some ne colon ok])
    qed
  qed
qed

lemma ref_headers_shorter: "ref_headers hs t = Some (h, t1) \<Longrightarrow> length t1 < length t"
proof (induction hs t rule: ref_headers.induct)
  case (1 hs t)
  then show ?case
    by (subst (asm) (2) ref_headers.simps)
       (fastforce split: option.splits if_splits dest: ref_line_shorter)
qed

lemma top_up_good:
  assumes "reader_ok r"
  shows "\<exists>r1. top_up r = Some r1 \<and> content r1 = content r \<and> \<not> rd_error r1
    \<and> (if length (content r) < 2 then length (rd_buffer r1) < 2 else length (rd_buffer r1) \<ge> 2 \<and> reader_ok r1)"
  using assms
proof (induction r rule: measure_induct_rule [of fuel_of])
  case (less r)
  show ?case
  proof (cases "length (rd_buffer r) < 2")
    case False
    then show ?thesis using less.prems by (subst top_up.simps) (auto simp: content_def reader_ok_def)
  next
    case small: True
    from less.prems show ?thesis
    proof (cases rule: fill_cases)
      case (block r1)
      then have "top_up r = top_up r1" using small less.prems by (subst top_up.simps) (simp add: reader_ok_def)
      then show ?thesis using less.IH [OF block(4,2)] block(3) by simp
    next
      case (at_end r1)
      then have "top_up r = Some r1"
        using small less.prems by (subst top_up.simps) (simp add: reader_ok_def top_up.simps [of r1])
      moreover have "content r1 = rd_buffer r1" by (simp add: content_def at_end(4))
      ultimately show ?thesis using at_end(3,5,6) small by simp
    qed
  qed
qed

subsection \<open>Part bodies\<close>

lemma find_sub_skip:
  "k \<le> length t \<Longrightarrow> (\<And>j. j < k \<Longrightarrow> take (length d) (drop j t) \<noteq> d) \<Longrightarrow>
     find_sub d t = map_option (\<lambda>p. k + p) (find_sub d (drop k t))"
proof (induction k arbitrary: t)
  case 0
  then show ?case by (simp add: option.map_ident)
next
  case (Suc k)
  then obtain c u where t: "t = c # u" by (cases t) auto
  have "take (length d) t \<noteq> d" using Suc.prems(2) [of 0] by simp
  moreover have "find_sub d u = map_option (\<lambda>p. k + p) (find_sub d (drop k u))"
    using Suc.prems Suc.prems(2) [of "Suc _"] unfolding t by (intro Suc.IH) auto
  ultimately show ?case by (simp add: t option.map_comp comp_def)
qed

text \<open>No delimiter begins in the part of the buffer that is flushed.\<close>

lemma find_sub_flush:
  assumes none: "find_sub d (pre @ b) = None" and len: "length b = length d"
  shows "find_sub d (pre @ b @ u) = map_option (\<lambda>p. length pre + p) (find_sub d (b @ u))"
proof -
  have "take (length d) (drop j (pre @ b @ u)) \<noteq> d" if "j < length pre" for j
  proof -
    have "take (length d) (drop j (pre @ b @ u)) = take (length d) (drop j (pre @ b))" using that len by simp
    then show ?thesis using find_sub_None [OF none, of j] by metis
  qed
  then show ?thesis using find_sub_skip [of "length pre" "pre @ b @ u" d] by simp
qed

text \<open>The reference: the body ends at the first delimiter of the whole text.\<close>

definition ref_end :: "'s fin \<Rightarrow> ('s \<Rightarrow> bool) \<Rightarrow> 's \<Rightarrow> string \<Rightarrow> bool + ('s \<times> bool \<times> string)" where
  "ref_end fin flag s t =
     (if length t < 2 then Inl (flag s)
      else if take 2 t = ''--'' then (case fin s of (b, s1) \<Rightarrow> if b then Inr (s1, True, []) else Inl (flag s1))
      else if take 2 t = crlf then (case fin s of (b, s1) \<Rightarrow> if b then Inr (s1, False, drop 2 t) else Inl (flag s1))
      else Inl (flag s))"

definition ref_body :: "'s put \<Rightarrow> 's fin \<Rightarrow> ('s \<Rightarrow> bool) \<Rightarrow> string \<Rightarrow> 's \<Rightarrow> string \<Rightarrow> bool + ('s \<times> bool \<times> string)" where
  "ref_body put fin flag d s t =
     (case find_sub d t of
        None \<Rightarrow> Inl (flag (snd (put s (take (length t - length d) t))))
      | Some p \<Rightarrow>
          (case put s (take p t) of
             (False, s1) \<Rightarrow> Inl (flag s1)
           | (True, s1) \<Rightarrow> ref_end fin flag s1 (drop (p + length d) t)))"

text \<open>A result of \<open>read_part_body\<close> that says what the reference says.\<close>

definition agrees :: "('s \<Rightarrow> bool) \<Rightarrow> bool + ('s \<times> bool \<times> string) \<Rightarrow> bool \<times> 's body_state \<Rightarrow> bool" where
  "agrees flag ref res \<longleftrightarrow> (case res of (ok, s, final, r) \<Rightarrow>
     if \<not> ok then ref = Inl (flag s)
     else if final then ref = Inr (s, True, [])
     else ref = Inr (s, False, content r) \<and> reader_ok r)"

text \<open>
  The contract of a sink, as far as the way a body is cut into blocks is concerned: blocks add up,
  and when one is refused, so is every longer one, with the same flag.
\<close>

locale part_sink =
  fixes put :: "'s \<Rightarrow> string \<Rightarrow> bool \<times> 's"
    and fin :: "'s \<Rightarrow> bool \<times> 's"
    and flag :: "'s \<Rightarrow> bool"
    and inv :: "'s \<Rightarrow> bool"
  assumes put_Nil: "inv s \<Longrightarrow> put s [] = (True, s)"
    and put_inv: "inv s \<Longrightarrow> put s a = (True, s1) \<Longrightarrow> inv s1"
    and put_more: "inv s \<Longrightarrow> put s a = (True, s1) \<Longrightarrow> put s1 b = (True, s2) \<Longrightarrow> put s (a @ b) = (True, s2)"
    and put_more_refused: "inv s \<Longrightarrow> put s a = (True, s1) \<Longrightarrow> put s1 b = (False, s2) \<Longrightarrow>
        \<exists>s3. put s (a @ b) = (False, s3) \<and> flag s3 = flag s2"
    and put_refused: "inv s \<Longrightarrow> put s a = (False, s1) \<Longrightarrow> \<exists>s3. put s (a @ b) = (False, s3) \<and> flag s3 = flag s1"
begin

lemma agrees_fail: "agrees flag (Inl (flag s)) (False, s, final, r)"
  by (simp add: agrees_def)

lemma after_delimiter_agrees:
  assumes "content r1 = t" "if length t < 2 then length (rd_buffer r1) < 2 else length (rd_buffer r1) \<ge> 2 \<and> reader_ok r1"
  shows "agrees flag (ref_end fin flag s t) (after_delimiter fin (s, final, r1))"
proof (cases "length t < 2")
  case True
  then show ?thesis using assms by (simp add: after_delimiter_def ref_end_def agrees_def)
next
  case False
  then have big: "length (rd_buffer r1) \<ge> 2" and ok: "reader_ok r1" using assms(2) by auto
  have "take 2 t = take 2 (rd_buffer r1)" "drop 2 t = content (r1\<lparr>rd_buffer := drop 2 (rd_buffer r1)\<rparr>)"
    using big assms(1) by (auto simp: content_def)
  moreover have "crlf \<noteq> ''--''" by (simp add: crlf_def)
  ultimately show ?thesis
    using False big ok by (auto simp: after_delimiter_def ref_end_def agrees_def Let_def reader_ok_def split: prod.splits)
qed

text \<open>A delimiter in the buffer is the first delimiter of the whole text.\<close>

lemma consume_found:
  assumes ok: "reader_ok r" and inv: "inv s" and found: "find_sub d (rd_buffer r) = Some p"
  shows "\<exists>b st. consume_delimiter put fin d (s, final, r) = Some (Some b, st) \<and> agrees flag (ref_body put fin flag d s (content r)) (b, st)"
proof -
  have p: "p + length d \<le> length (rd_buffer r)" using find_sub_Some [OF found] by simp
  have ref: "find_sub d (content r) = Some p" "take p (content r) = take p (rd_buffer r)"
    "drop (p + length d) (content r) = content (r\<lparr>rd_buffer := drop (p + length d) (rd_buffer r)\<rparr>)"
    using find_sub_prefix [OF found] p by (simp_all add: content_def)
  obtain b s1 where put: "put s (take p (rd_buffer r)) = (b, s1)" by fastforce
  have put': "(if p > 0 then put s (take p (rd_buffer r)) else (True, s)) = (b, s1)"
    using put put_Nil [OF inv] by (cases "p = 0") auto
  let ?r = "r\<lparr>rd_buffer := drop (p + length d) (rd_buffer r)\<rparr>"
  show ?thesis
  proof (cases b)
    case False
    then show ?thesis
      using found put put' ref agrees_fail by (intro exI [of _ False]) (simp add: consume_delimiter_def ref_body_def)
  next
    case True
    have "reader_ok ?r" using ok by (simp add: reader_ok_def)
    then obtain r1 where r1: "top_up ?r = Some r1" "content r1 = content ?r"
      "if length (content ?r) < 2 then length (rd_buffer r1) < 2 else length (rd_buffer r1) \<ge> 2 \<and> reader_ok r1"
      using top_up_good by blast
    have "agrees flag (ref_end fin flag s1 (content ?r)) (after_delimiter fin (s1, final, r1))"
      by (rule after_delimiter_agrees [OF r1(2,3)])
    moreover have "ref_body put fin flag d s (content r) = ref_end fin flag s1 (content ?r)" using ref put True by (simp add: ref_body_def)
    ultimately show ?thesis
      using found put' True r1(1) by (auto simp: consume_delimiter_def split: prod.splits)
  qed
qed

lemma consume_none:
  "find_sub d (rd_buffer r) = None \<Longrightarrow> consume_delimiter put fin d (s, final, r) = Some (None, s, final, r)"
  by (simp add: consume_delimiter_def)

lemma ref_body_skip:
  assumes find: "find_sub d (pre @ v) = map_option (\<lambda>p. length pre + p) (find_sub d v)" and len: "length d \<le> length v"
    and inv: "inv s"
  shows "put s pre = (True, s1) \<Longrightarrow> ref_body put fin flag d s (pre @ v) = ref_body put fin flag d s1 v"
    and "put s pre = (False, s1) \<Longrightarrow> ref_body put fin flag d s (pre @ v) = Inl (flag s1)"
proof -
  have cut: "take (length (pre @ v) - length d) (pre @ v) = pre @ take (length v - length d) v" using len by simp
  show "ref_body put fin flag d s (pre @ v) = Inl (flag s1)" if "put s pre = (False, s1)"
  proof -
    have refused: "\<exists>s3. put s (pre @ x) = (False, s3) \<and> flag s3 = flag s1" for x
      by (rule put_refused [OF inv that])
    show ?thesis
    proof (cases "find_sub d v")
      case None
      then have "find_sub d (pre @ v) = None" using find by simp
      then show ?thesis unfolding ref_body_def cut using refused [of "take (length v - length d) v"] by auto
    next
      case (Some p)
      then have "find_sub d (pre @ v) = Some (length pre + p)" using find by simp
      then show ?thesis unfolding ref_body_def using refused [of "take p v"] by auto
    qed
  qed
  show "ref_body put fin flag d s (pre @ v) = ref_body put fin flag d s1 v" if put: "put s pre = (True, s1)"
  proof -
    have more: "fst (put s (pre @ x)) = fst (put s1 x)" "flag (snd (put s (pre @ x))) = flag (snd (put s1 x))"
      "fst (put s1 x) \<Longrightarrow> put s (pre @ x) = put s1 x" for x
      using put_more [OF inv put, of x] put_more_refused [OF inv put, of x]
      by (cases "put s1 x"; cases "fst (put s1 x)"; fastforce)+
    show ?thesis
    proof (cases "find_sub d v")
      case None
      then have "find_sub d (pre @ v) = None" using find by simp
      then show ?thesis unfolding ref_body_def cut using None more(2) by simp
    next
      case (Some p)
      obtain ok s2 where x: "put s1 (take p v) = (ok, s2)" by fastforce
      obtain ok' s3 where y: "put s (pre @ take p v) = (ok', s3)" by fastforce
      have "ok' = ok" "flag s3 = flag s2" "ok \<Longrightarrow> s3 = s2" using more [of "take p v"] x y by auto
      then show ?thesis using Some find x y by (cases ok) (simp_all add: ref_body_def)
    qed
  qed
qed

lemma flush_agrees:
  assumes ok: "reader_ok r" and inv: "inv s" and none: "find_sub d (rd_buffer r) = None"
    and run: "flush_prefix put d (s, final, r) = (b, s1, final1, r1)"
  shows "\<not> b \<Longrightarrow> ref_body put fin flag d s (content r) = Inl (flag s1)"
    and "b \<Longrightarrow> ref_body put fin flag d s (content r) = ref_body put fin flag d s1 (content r1) \<and> reader_ok r1 \<and> inv s1 \<and> final1 = final
      \<and> find_sub d (rd_buffer r1) = None \<and> fuel_of r1 = fuel_of r"
proof -
  have "(\<not> b \<longrightarrow> ref_body put fin flag d s (content r) = Inl (flag s1)) \<and>
    (b \<longrightarrow> ref_body put fin flag d s (content r) = ref_body put fin flag d s1 (content r1) \<and> reader_ok r1 \<and> inv s1 \<and> final1 = final
      \<and> find_sub d (rd_buffer r1) = None \<and> fuel_of r1 = fuel_of r)"
  proof (cases "length (rd_buffer r) > length d")
    case False
    then show ?thesis using run ok inv none by (auto simp: flush_prefix_def)
  next
    case True
    define n where "n = length (rd_buffer r) - length d"
    define pre where "pre = take n (rd_buffer r)"
    define suf where "suf = drop n (rd_buffer r)"
    have buf: "rd_buffer r = pre @ suf" and len: "length suf = length d" using True by (simp_all add: pre_def suf_def n_def)
    have find: "find_sub d (pre @ suf @ concat (rd_chunks r)) = map_option (\<lambda>p. length pre + p) (find_sub d (suf @ concat (rd_chunks r)))"
      using find_sub_flush [OF _ len] none buf by simp
    have none1: "find_sub d suf = None"
    proof -
      have "find_sub d (pre @ suf @ []) = map_option (\<lambda>p. length pre + p) (find_sub d (suf @ []))"
        using find_sub_flush [OF _ len, of pre "[]"] none buf by simp
      then show ?thesis using none buf by simp
    qed
    have content: "content r = pre @ suf @ concat (rd_chunks r)" by (simp add: content_def buf)
    note skip = ref_body_skip [OF find _ inv]
    obtain ok' s' where put: "put s pre = (ok', s')" by fastforce
    have "(b, s1, final1, r1) = (if ok' then (True, s', final, r\<lparr>rd_buffer := suf\<rparr>) else (False, s', final, r))"
      using run True put by (simp add: flush_prefix_def Let_def pre_def suf_def n_def split: if_splits bool.splits)
    then show ?thesis
      using skip put put_inv [OF inv] len ok none1 unfolding content
      by (auto simp: content_def reader_ok_def fuel_of_def split: if_splits)
  qed
  then show "\<not> b \<Longrightarrow> ref_body put fin flag d s (content r) = Inl (flag s1)"
    "b \<Longrightarrow> ref_body put fin flag d s (content r) = ref_body put fin flag d s1 (content r1) \<and> reader_ok r1 \<and> inv s1 \<and> final1 = final
      \<and> find_sub d (rd_buffer r1) = None \<and> fuel_of r1 = fuel_of r"
    by blast+
qed

text \<open>At the end of the file without a delimiter the part is refused.\<close>

lemma body_at_end:
  assumes "rd_eof r" "find_sub d (rd_buffer r) = None"
  shows "read_part_body put fin d (s, final, r) = Some (False, s, final, r)"
  using assms by (subst read_part_body.simps) (simp add: consume_none)

lemma ref_body_short:
  "inv s \<Longrightarrow> find_sub d t = None \<Longrightarrow> length t \<le> length d \<Longrightarrow> ref_body put fin flag d s t = Inl (flag s)"
  by (simp add: ref_body_def put_Nil)

lemma body_last_block:
  assumes inv: "inv s" and r: "rd_eof r" "rd_chunks r = []" and none: "find_sub d (rd_buffer r) = None"
    and run: "flush_prefix put d (s, final, r) = (b, s1, final1, r1)"
  shows "agrees flag (ref_body put fin flag d s (rd_buffer r)) (if b then the (read_part_body put fin d (s1, final1, r1)) else (False, s1, final1, r1))"
    and "b \<Longrightarrow> read_part_body put fin d (s1, final1, r1) \<noteq> None"
proof -
  define r0 where "r0 = r\<lparr>rd_eof := False, rd_error := False\<rparr>"
  have r0: "reader_ok r0" "rd_buffer r0 = rd_buffer r" "content r0 = rd_buffer r"
    using r by (simp_all add: r0_def reader_ok_def content_def)
  obtain r2 where run0: "flush_prefix put d (s, final, r0) = (b, s1, final1, r2)" and buf: "rd_buffer r1 = rd_buffer r2"
    and eof: "rd_eof r1" and ch: "rd_chunks r2 = []" and short: "b \<longrightarrow> length (rd_buffer r2) \<le> length d"
    using run r by (auto simp: flush_prefix_def r0_def Let_def split: if_splits prod.splits bool.splits)
  note f = flush_agrees [OF r0(1) inv _ run0, unfolded r0, OF none]
  have end_run: "read_part_body put fin d (s1, final1, r1) = Some (False, s1, final1, r1)" if b
    using body_at_end [OF eof] f(2) [OF that] buf by simp
  then show "b \<Longrightarrow> read_part_body put fin d (s1, final1, r1) \<noteq> None" by simp
  show "agrees flag (ref_body put fin flag d s (rd_buffer r)) (if b then the (read_part_body put fin d (s1, final1, r1)) else (False, s1, final1, r1))"
  proof (cases b)
    case True
    then have "ref_body put fin flag d s (rd_buffer r) = Inl (flag s1)"
      using f(2) [OF True] ref_body_short short ch by (simp add: content_def)
    then show ?thesis using True end_run agrees_fail by simp
  next
    case False
    then show ?thesis using f(1) agrees_fail by simp
  qed
qed

text \<open>Reading the body of a part gives what the reference gives on the whole text, however the file is cut.\<close>

lemma read_part_body_ref:
  assumes "reader_ok r" "inv s"
  shows "\<exists>res. read_part_body put fin d (s, final, r) = Some res \<and> agrees flag (ref_body put fin flag d s (content r)) res"
  using assms
proof (induction "fuel_of r" arbitrary: r s final rule: less_induct)
  case less
  show ?case
  proof (cases "find_sub d (rd_buffer r)")
    case (Some p)
    then show ?thesis
      using consume_found [OF less.prems Some, of final] by (subst read_part_body.simps) auto
  next
    case none: None
    note head = consume_none [OF none, of s final]
    have notend: "\<not> rd_eof r" using less.prems(1) by (simp add: reader_ok_def)
    from less.prems(1) show ?thesis
    proof (cases rule: fill_cases)
      case (block r1)
      show ?thesis
      proof (cases "find_sub d (rd_buffer r1)")
        case (Some p)
        then show ?thesis
          using consume_found [OF block(2) less.prems(2) Some, of final] head notend block(1,3)
          by (subst read_part_body.simps) auto
      next
        case None
        obtain b s1 final1 r2 where fl: "flush_prefix put d (s, final, r1) = (b, s1, final1, r2)" by (metis prod_cases4)
        note f = flush_agrees [OF block(2) less.prems(2) None fl]
        have run: "read_part_body put fin d (s, final, r) =
            (if \<not> b then Some (False, s1, final1, r2) else read_part_body put fin d (s1, final1, r2))"
          using head notend block(1) consume_none [OF None, of s final] fl by (subst read_part_body.simps) simp
        show ?thesis
        proof (cases b)
          case False
          then show ?thesis using run f(1) agrees_fail block(3) by auto
        next
          case True
          then have "\<exists>res. read_part_body put fin d (s1, final1, r2) = Some res \<and> agrees flag (ref_body put fin flag d s1 (content r2)) res"
            using less.hyps [of r2 s1 final1] f(2) block(4) by simp
          then show ?thesis using run True f(2) block(3) by simp
        qed
      qed
    next
      case (at_end r1)
      show ?thesis
      proof (cases "rd_buffer r = []")
        case True
        then have "read_part_body put fin d (s, final, r) = Some (False, s, final, r1)"
          using head notend at_end by (subst read_part_body.simps) simp
        moreover have "ref_body put fin flag d s (content r) = Inl (flag s)"
          using ref_body_short [OF less.prems(2)] none at_end(5) True by simp
        ultimately show ?thesis using agrees_fail by auto
      next
        case False
        have none1: "find_sub d (rd_buffer r1) = None" using none at_end(3) by simp
        obtain b s1 final1 r2 where fl: "flush_prefix put d (s, final, r1) = (b, s1, final1, r2)" by (metis prod_cases4)
        have run: "read_part_body put fin d (s, final, r) =
            (if \<not> b then Some (False, s1, final1, r2) else read_part_body put fin d (s1, final1, r2))"
          using head notend at_end(1) False consume_none [OF none1, of s final] fl by (subst read_part_body.simps) simp
        then show ?thesis
          using body_last_block [OF less.prems(2) at_end(2,4) none1 fl] at_end(3,5) by (cases b) auto
      qed
    qed
  qed
qed

end

interpretation text_field: part_sink text_sink_write text_sink_finish ts_limit_exceeded
    "\<lambda>s. length (ts_value s) \<le> ts_limit s"
  by unfold_locales (auto simp: text_sink_write_def split: if_splits)

text \<open>The file sink keeps the contract while the disk takes every write and the digest calls succeed.\<close>

definition sink_open :: "sha_sink \<Rightarrow> bool" where
  "sink_open s \<longleftrightarrow> ss_open s \<and> 0 \<le> ss_size s \<and> ss_size s \<le> int (ss_max_bytes s)"

definition sink_good :: "sink_env \<Rightarrow> bool" where
  "sink_good env \<longleftrightarrow> (\<forall>d. si_write env d) \<and> si_digest env"

lemma file_part_sink:
  assumes "sink_good env"
  shows "part_sink (sha_sink_write env) ss_limit_exceeded sink_open"
  using assms by unfold_locales (auto simp: sha_sink_write_def sink_open_def sink_good_def split: if_splits)

subsection \<open>The whole body\<close>

text \<open>The reference parser: the same decisions, taken on the whole text of the body at once.\<close>

definition ref_part :: "mp_env \<Rightarrow> string \<Rightarrow> parse_state \<Rightarrow> string \<Rightarrow> parse_result \<times> bool \<times> string" where
  "ref_part env boundary ps t =
     (case part_plan env (map_option fst (ref_headers [] t)) ps of
        RefusePart e \<Rightarrow> (e, False, [])
      | FilePart name safe_name ctype path ps1 \<Rightarrow>
          (case ref_body (sha_sink_write (mp_sink env)) (sha_sink_finish (mp_sink env)) ss_limit_exceeded (part_delimiter boundary)
                  (open_sha_sink (mp_sink env) path (mp_upload_max_bytes env)) (snd (the (ref_headers [] t))) of
             Inl f \<Rightarrow> (file_part_done env name safe_name ctype path (Inl f) ps1, False, [])
           | Inr (s, final, t1) \<Rightarrow> (file_part_done env name safe_name ctype path (Inr s) ps1, final, t1))
      | TextPart name \<Rightarrow>
          (case ref_body text_sink_write text_sink_finish ts_limit_exceeded (part_delimiter boundary) new_text_sink
                  (snd (the (ref_headers [] t))) of
             Inl f \<Rightarrow> (text_part_done name (Inl f) ps, False, [])
           | Inr (s, final, t1) \<Rightarrow> (text_part_done name (Inr s) ps, final, t1)))"

lemma ref_body_shorter: "ref_body put fin flag d s t = Inr (s1, final, t1) \<Longrightarrow> length t1 \<le> length t"
  by (auto simp: ref_body_def ref_end_def split: option.splits prod.splits bool.splits if_splits)

lemma part_plan_None: "\<exists>e. part_plan env None ps = RefusePart (Inl e)"
  by (simp add: part_plan_def mp_bad_def mp_fail_def Let_def)

lemma part_plan_refuses: "part_plan env hs ps = RefusePart e \<Longrightarrow> \<exists>x. e = Inl x"
  by (auto simp: part_plan_def mp_bad_def mp_fail_def Let_def split: option.splits if_splits)

lemma part_done_refuses [simp]:
  "isl (file_part_done env name safe_name ctype path (Inl f) ps)"
  "isl (text_part_done name (Inl f) ps')"
  by (simp_all add: file_part_done_def text_part_done_def mp_bad_def mp_fail_def Let_def)

lemma ref_part_shorter:
  assumes "ref_part env boundary ps t = (Inr ps1, final, t1)"
  shows "length t1 < length t"
proof (cases "ref_headers [] t")
  case None
  then show ?thesis using assms part_plan_None [of env ps] by (auto simp: ref_part_def)
next
  case (Some ht)
  then obtain h u where hu: "ref_headers [] t = Some (h, u)" by (cases ht) auto
  have "length t1 \<le> length u"
    using assms hu part_plan_refuses part_done_refuses [unfolded isl_def]
    by (fastforce simp: ref_part_def split: part_kind.splits sum.splits prod.splits dest: ref_body_shorter)
  then show ?thesis using ref_headers_shorter [OF hu] by simp
qed

function ref_parts :: "mp_env \<Rightarrow> string \<Rightarrow> parse_state \<Rightarrow> string \<Rightarrow> parse_result" where
  "ref_parts env boundary ps t =
     (case ref_part env boundary ps t of
        (Inl e, _) \<Rightarrow> Inl e
      | (Inr ps1, final, t1) \<Rightarrow> if final then mp_finish ps1 else ref_parts env boundary ps1 t1)"
  by pat_completeness auto
termination
  by (relation "measure (\<lambda>(env, boundary, ps, t). length t)") (auto dest: ref_part_shorter [OF sym])

declare ref_parts.simps [simp del]

lemma open_irrelevant:
  "mp_doc_root (env\<lparr>mp_open := f\<rparr>) = mp_doc_root env" "mp_rand (env\<lparr>mp_open := f\<rparr>) = mp_rand env"
  "mp_sink (env\<lparr>mp_open := f\<rparr>) = mp_sink env" "mp_upload_max_bytes (env\<lparr>mp_open := f\<rparr>) = mp_upload_max_bytes env"
  by simp_all

lemma part_plan_open: "part_plan (env\<lparr>mp_open := f\<rparr>) = part_plan env"
  unfolding part_plan_def [abs_def] open_irrelevant by (rule refl)

lemma file_part_done_open: "file_part_done (env\<lparr>mp_open := f\<rparr>) = file_part_done env"
  unfolding file_part_done_def [abs_def] open_irrelevant by (rule refl)

lemma ref_part_open: "ref_part (env\<lparr>mp_open := f\<rparr>) boundary ps t = ref_part env boundary ps t"
  unfolding ref_part_def part_plan_open file_part_done_open open_irrelevant by (rule refl)

lemma ref_parts_open: "ref_parts (env\<lparr>mp_open := f\<rparr>) boundary ps t = ref_parts env boundary ps t"
proof (induction env boundary ps t rule: ref_parts.induct)
  case (1 env boundary ps t)
  then show ?case
    unfolding ref_parts.simps [of _ _ ps t] ref_part_open by (auto split: prod.splits sum.splits)
qed

definition ref_spooled :: "mp_env \<Rightarrow> string \<Rightarrow> string \<Rightarrow> parse_result" where
  "ref_spooled env boundary t =
     (case ref_line t of
        None \<Rightarrow> mp_bad ''invalid multipart preamble'' empty_state
      | Some (line, t1) \<Rightarrow>
          if line \<noteq> ''--'' @ boundary then mp_bad ''invalid multipart preamble'' empty_state
          else ref_parts env boundary empty_state t1)"

text \<open>A part read from the file is the part of the reference, and the reader stands after it.\<close>

lemma read_part_ref:
  assumes ok: "reader_ok r" and good: "sink_good (mp_sink env)"
  obtains res final r1 where "read_part env boundary ps r = Some (res, final, r1)"
    "fst (ref_part env boundary ps (content r)) = res"
    "isl res \<or> final \<and> snd (ref_part env boundary ps (content r)) = (True, [])
      \<or> \<not> final \<and> snd (ref_part env boundary ps (content r)) = (False, content r1) \<and> reader_ok r1"
proof -
  obtain hs r1 where rh: "read_headers [] r = (hs, r1)" by fastforce
  note heads = read_headers_ref [OF ok, of "[]", unfolded rh]
  have hs: "map_option fst (ref_headers [] (content r)) = hs" using heads by (auto split: option.splits)
  show thesis
  proof (cases "part_plan env hs ps")
    case (RefusePart e)
    then show thesis using that [of e False r1] part_plan_refuses [OF RefusePart] hs rh by (auto simp: read_part_def ref_part_def)
  next
    case (FilePart name safe_name ctype path ps1)
    then obtain h where h: "hs = Some h" using part_plan_None [of env ps] by (cases hs) auto
    then have rest: "ref_headers [] (content r) = Some (h, content r1)" and ok1: "reader_ok r1" using heads by auto
    let ?s = "open_sha_sink (mp_sink env) path (mp_upload_max_bytes env)"
    have "sink_open ?s"
      using FilePart by (auto simp: part_plan_def sink_open_def open_sha_sink_def Let_def split: option.splits if_splits)
    then obtain b s2 final r2 where body: "read_part_body (sha_sink_write (mp_sink env)) (sha_sink_finish (mp_sink env))
        (part_delimiter boundary) (?s, False, r1) = Some (b, s2, final, r2)"
      and ag: "agrees ss_limit_exceeded (ref_body (sha_sink_write (mp_sink env)) (sha_sink_finish (mp_sink env)) ss_limit_exceeded
        (part_delimiter boundary) ?s (content r1)) (b, s2, final, r2)"
      using part_sink.read_part_body_ref [OF file_part_sink [OF good] ok1] by (metis prod_cases4)
    have run: "read_part env boundary ps r =
        Some (file_part_done env name safe_name ctype path (body_outcome ss_limit_exceeded b s2) ps1, final, r2)"
      using rh FilePart body by (simp add: read_part_def)
    show thesis
      using that [OF run] FilePart hs rest ag
      by (cases b; cases final) (auto simp: ref_part_def agrees_def body_outcome_def split: if_splits)
  next
    case (TextPart name)
    then obtain h where h: "hs = Some h" using part_plan_None [of env ps] by (cases hs) auto
    then have rest: "ref_headers [] (content r) = Some (h, content r1)" and ok1: "reader_ok r1" using heads by auto
    have "length (ts_value new_text_sink) \<le> ts_limit new_text_sink" by (simp add: new_text_sink_def)
    then obtain b s2 final r2 where body: "read_part_body text_sink_write text_sink_finish
        (part_delimiter boundary) (new_text_sink, False, r1) = Some (b, s2, final, r2)"
      and ag: "agrees ts_limit_exceeded (ref_body text_sink_write text_sink_finish ts_limit_exceeded
        (part_delimiter boundary) new_text_sink (content r1)) (b, s2, final, r2)"
      using text_field.read_part_body_ref [OF ok1] by (metis prod_cases4)
    have run: "read_part env boundary ps r =
        Some (text_part_done name (body_outcome ts_limit_exceeded b s2) ps, final, r2)"
      using rh TextPart body by (simp add: read_part_def)
    show thesis
      using that [OF run] TextPart hs rest ag
      by (cases b; cases final) (auto simp: ref_part_def agrees_def body_outcome_def split: if_splits)
  qed
qed

lemma parts_loop_ref:
  assumes "reader_ok r" "sink_good (mp_sink env)"
  shows "parts_loop env boundary ps r = Some (ref_parts env boundary ps (content r))"
  using assms
proof (induction "length (content r)" arbitrary: r ps rule: less_induct)
  case less
  obtain res final r1 where run: "read_part env boundary ps r = Some (res, final, r1)"
    and ref: "fst (ref_part env boundary ps (content r)) = res"
      "isl res \<or> final \<and> snd (ref_part env boundary ps (content r)) = (True, [])
        \<or> \<not> final \<and> snd (ref_part env boundary ps (content r)) = (False, content r1) \<and> reader_ok r1"
    using read_part_ref [OF less.prems] by blast
  show ?case
  proof (cases res)
    case (Inl e)
    then have "ref_parts env boundary ps (content r) = Inl e"
      using ref(1) by (subst ref_parts.simps) (auto split: prod.splits)
    then show ?thesis using Inl run by (subst parts_loop.simps) simp
  next
    case (Inr ps1)
    show ?thesis
    proof (cases final)
      case True
      then have "ref_part env boundary ps (content r) = (Inr ps1, True, [])" using ref Inr by (auto intro: prod_eqI)
      then show ?thesis using Inr run True by (subst parts_loop.simps) (simp add: ref_parts.simps)
    next
      case False
      then have step: "ref_part env boundary ps (content r) = (Inr ps1, False, content r1)" and ok1: "reader_ok r1"
        using ref Inr by (auto intro: prod_eqI)
      have "parts_loop env boundary ps1 r1 = Some (ref_parts env boundary ps1 (content r1))"
        by (rule less.hyps [OF ref_part_shorter [OF step] ok1 less.prems(2)])
      then show ?thesis using Inr run False step
        by (subst parts_loop.simps) (simp add: ref_parts.simps [of env boundary ps])
    qed
  qed
qed

lemma spooled_ref:
  assumes "mp_open env path = Some r" "reader_ok r" "sink_good (mp_sink env)" "path \<noteq> []"
    "boundary_of ctype = Some b" "b \<noteq> []"
  shows "parse_spooled_multipart env path ctype = Some (ref_spooled env b (content r))"
proof -
  obtain l r1 where rl: "read_line r = (l, r1)" by fastforce
  show ?thesis
    using read_line_ref [OF assms(2), unfolded rl] parts_loop_ref [OF _ assms(3)] rl assms
    by (cases l) (auto simp: parse_spooled_multipart_def ref_spooled_def)
qed

subsection \<open>A client's upload\<close>

text \<open>The body a client sends to upload one file.\<close>

definition upload_header :: "string \<Rightarrow> string" where
  "upload_header fn = ''Content-Disposition: form-data; name='' @ [QUOTE] @ ''file'' @ [QUOTE] @ ''; filename='' @ [QUOTE] @ fn @ [QUOTE]"

definition upload_body :: "string \<Rightarrow> string \<Rightarrow> string \<Rightarrow> string" where
  "upload_body b fn data = (''--'' @ b) @ crlf @ upload_header fn @ crlf @ crlf @ data @ part_delimiter b @ ''--'' @ crlf"

lemma find_crlf_append: "CR \<notin> set l \<Longrightarrow> find_sub crlf (l @ crlf @ t) = Some (length l)"
  by (induction l) (auto simp: crlf_def)

lemma ref_line_append: "CR \<notin> set l \<Longrightarrow> ref_line (l @ crlf @ t) = Some (l, t)"
  using find_crlf_append [of l t] unfolding ref_line_def by (simp only:) (simp add: crlf_def)

lemma find_char_end: "c \<notin> set l \<Longrightarrow> find_char c (l @ c # t) = Some (length l)"
  by (induction l) (auto simp: find_char_def)

definition upload_disposition :: "string \<Rightarrow> string" where
  "upload_disposition fn = ''form-data; name='' @ [QUOTE] @ ''file'' @ [QUOTE] @ ''; filename='' @ [QUOTE] @ fn @ [QUOTE]"

lemma upload_header_colon: "find_char (CHR '':'') (upload_header fn) = Some 19"
  by (simp add: upload_header_def find_char_def)

lemma upload_header_parts:
  "lowercase_copy (trim_copy (take 19 (upload_header fn))) = ''content-disposition''"
  "trim_copy (drop 20 (upload_header fn)) = upload_disposition fn"
proof -
  have "take 19 (upload_header fn) = ''Content-Disposition''" by (simp add: upload_header_def)
  moreover have "lowercase_copy (trim_copy ''Content-Disposition'') = ''content-disposition''" by code_simp
  ultimately show "lowercase_copy (trim_copy (take 19 (upload_header fn))) = ''content-disposition''" by simp
  have "drop 20 (upload_header fn) = CHR '' '' # upload_disposition fn"
    by (simp add: upload_header_def upload_disposition_def)
  moreover have "trim_spaces (CHR '' '' # upload_disposition fn) = trim_spaces (upload_disposition fn)"
    by (simp add: trim_spaces_def isspace_def)
  moreover have "trim_spaces (upload_disposition fn) = upload_disposition fn"
    by (rule trim_spaces_id) (simp_all add: upload_disposition_def isspace_def)
  ultimately show "trim_copy (drop 20 (upload_header fn)) = upload_disposition fn" by (simp add: trim_copy_def)
qed

lemma ref_headers_upload:
  assumes "CR \<notin> set fn"
  shows "ref_headers [] (upload_header fn @ crlf @ crlf @ t) = Some ([(''content-disposition'', upload_disposition fn)], t)"
proof -
  have "CR \<notin> set (upload_header fn)" using assms by (simp add: upload_header_def)
  note l = ref_line_append [OF this, of "crlf @ t"] ref_line_append [of "[]" t, simplified]
  have "upload_header fn \<noteq> []" by (simp add: upload_header_def)
  then show ?thesis
    using l upload_header_colon [of fn] upload_header_parts [of fn]
    by (simp add: ref_headers.simps [of "[]"] ref_headers.simps [of "[_]"])
qed

lemma upload_disposition_params:
  assumes "QUOTE \<notin> set fn"
  shows "header_param_value (upload_disposition fn) ''name'' = ''file''"
    "header_param_value (upload_disposition fn) ''filename'' = fn"
proof -
  have "find_sub ''name='' (upload_disposition fn) = Some 11" by (simp add: upload_disposition_def)
  then show "header_param_value (upload_disposition fn) ''name'' = ''file''"
    unfolding header_param_value_def by (simp add: upload_disposition_def isspace_def find_char_def)
  have "find_sub ''filename='' (upload_disposition fn) = Some 24" by (simp add: upload_disposition_def)
  then show "header_param_value (upload_disposition fn) ''filename'' = fn"
    using find_char_end [OF assms, of "[]"]
    unfolding header_param_value_def by (simp add: upload_disposition_def isspace_def)
qed

definition env_good :: "mp_env \<Rightarrow> bool" where
  "env_good env \<longleftrightarrow> sink_good (mp_sink env) \<and> (\<forall>p. si_open (mp_sink env) p) \<and> si_flush (mp_sink env)
     \<and> (\<forall>s. length (si_sha (mp_sink env) s) = 32)"

text \<open>The file is stored under a fresh name in the temporary directory.\<close>

definition upload_path :: "mp_env \<Rightarrow> string \<Rightarrow> string" where
  "upload_path env fn = temp_root (mp_doc_root env) @ ''/upload-'' @ random_hex_token (mp_rand env) @ file_extension (sanitize_filename fn)"

lemma ref_body_upload:
  assumes "env_good env" "data \<noteq> []" "length data \<le> mp_upload_max_bytes env"
    "find_sub d (data @ d) = Some (length data)"
  shows "\<exists>s. ref_body (sha_sink_write (mp_sink env)) (sha_sink_finish (mp_sink env)) ss_limit_exceeded d
      (open_sha_sink (mp_sink env) path (mp_upload_max_bytes env)) (data @ d @ ''--'' @ crlf) = Inr (s, True, [])
    \<and> ss_sha256 s = encode_hex (si_sha (mp_sink env) data) \<and> ss_size s = int (length data)"
proof -
  have find: "find_sub d (data @ d @ ''--'' @ crlf) = Some (length data)"
    using find_sub_prefix [OF assms(4)] by simp
  show ?thesis
    using assms(1-3) unfolding ref_body_def find
    by (simp add: ref_end_def sha_sink_write_def sha_sink_finish_def open_sha_sink_def env_good_def sink_good_def
        Let_def sha256_hex_def)
qed

lemma ref_part_upload:
  assumes "env_good env" "random_hex_token (mp_rand env) \<noteq> []" "data \<noteq> []" "length data \<le> mp_upload_max_bytes env"
    and "fn \<noteq> []" "QUOTE \<notin> set fn" "CR \<notin> set fn"
    and "find_sub (part_delimiter b) (data @ part_delimiter b) = Some (length data)"
  shows "ref_part env b empty_state (upload_header fn @ crlf @ crlf @ data @ part_delimiter b @ ''--'' @ crlf) =
    (Inr \<lparr>ps_fields = [(''file'', sanitize_filename fn)],
       ps_file = \<lparr>temp_path = upload_path env fn, up_filename = sanitize_filename fn, up_content_type = ''application/octet-stream'',
         up_sha256 = encode_hex (si_sha (mp_sink env) data), up_size = int (length data), released = False\<rparr>,
       ps_has_file = True, ps_created = [upload_path env fn], ps_removed = []\<rparr>, True, [])"
proof -
  have plan: "part_plan env (Some [(''content-disposition'', upload_disposition fn)]) empty_state =
      FilePart ''file'' (sanitize_filename fn) [] (upload_path env fn) (empty_state\<lparr>ps_created := [upload_path env fn]\<rparr>)"
    using assms(1,2,5,6)
    by (simp add: part_plan_def upload_disposition_params lookup_or_empty_def empty_state_def env_good_def upload_path_def Let_def)
  show ?thesis
    using ref_body_upload [OF assms(1,3,4,8), of "upload_path env fn"] plan assms(3) ref_headers_upload [OF assms(7)]
    by (auto simp: ref_part_def file_part_done_def empty_state_def)
qed

lemma upload_parses:
  assumes "mp_open env path = Some r" "reader_ok r" "content r = upload_body b fn data" "path \<noteq> []"
    and "boundary_of ctype = Some b" "b \<noteq> []" "CR \<notin> set b"
    and "env_good env" "random_hex_token (mp_rand env) \<noteq> []" "data \<noteq> []" "length data \<le> mp_upload_max_bytes env"
    and "fn \<noteq> []" "QUOTE \<notin> set fn" "CR \<notin> set fn"
    and "find_sub (part_delimiter b) (data @ part_delimiter b) = Some (length data)"
  shows "parse_spooled_multipart env path ctype = Some (Inr
     \<lparr>ps_fields = [(''file'', sanitize_filename fn)],
       ps_file = \<lparr>temp_path = upload_path env fn, up_filename = sanitize_filename fn, up_content_type = ''application/octet-stream'',
         up_sha256 = encode_hex (si_sha (mp_sink env) data), up_size = int (length data), released = False\<rparr>,
       ps_has_file = True, ps_created = [upload_path env fn], ps_removed = []\<rparr>)"
proof -
  have good: "sink_good (mp_sink env)" using assms(8) by (simp add: env_good_def)
  have "CR \<notin> set (''--'' @ b)" using assms(7) by simp
  note line = ref_line_append [OF this, of "upload_header fn @ crlf @ crlf @ data @ part_delimiter b @ ''--'' @ crlf"]
  show ?thesis
    unfolding spooled_ref [OF assms(1,2) good assms(4-6)] assms(3) upload_body_def ref_spooled_def line
    using ref_part_upload [OF assms(8-15)] by (simp add: ref_parts.simps [of _ _ empty_state] mp_finish_def)
qed


definition sample_reader :: "string list \<Rightarrow> reader" where
  "sample_reader blocks = \<lparr>rd_chunks = blocks, rd_error = False, rd_eof = False, rd_buffer = []\<rparr>"

definition sample_blocks :: "string list" where
  "sample_blocks = [take 40 (upload_body ''xy'' ''a.txt'' ''hello''), drop 40 (upload_body ''xy'' ''a.txt'' ''hello'')]"

definition upload_env :: mp_env where
  "upload_env = \<lparr>mp_doc_root = ''/srv'', mp_upload_max_bytes = 16, mp_rand = (\<lambda>n. Some (replicate n (CHR ''A''))),
     mp_open = (\<lambda>_. Some (sample_reader sample_blocks)),
     mp_sink = \<lparr>si_open = (\<lambda>_. True), si_write = (\<lambda>_. True), si_flush = True, si_digest = True,
       si_sha = (\<lambda>s. replicate 32 (CHR ''0''))\<rparr>\<rparr>"

lemma upload_env_good: "env_good upload_env" "random_hex_token (mp_rand upload_env) \<noteq> []"
  by (simp add: env_good_def sink_good_def upload_env_def) code_simp

lemma sample_upload:
  "boundary_of ''multipart/form-data; boundary=xy'' = Some ''xy''"
  "find_sub (part_delimiter ''xy'') (''hello'' @ part_delimiter ''xy'') = Some (length ''hello'')"
  "mp_open upload_env ''/spool/1'' = Some (sample_reader sample_blocks)"
  "mp_upload_max_bytes upload_env = 16"
  "reader_ok (sample_reader sample_blocks)"
  "content (sample_reader sample_blocks) = upload_body ''xy'' ''a.txt'' ''hello''"
  "sanitize_filename ''a.txt'' = ''a.txt''"
  by (code_simp, code_simp, simp add: upload_env_def, simp add: upload_env_def,
      simp add: reader_ok_def sample_reader_def, simp add: content_def sample_reader_def sample_blocks_def, code_simp)


text \<open>
  Property C29. While the disk takes every write, the parser always returns on a spool file that is
  read without error, and what it returns depends on the bytes of the file only, not on the blocks
  in which they are read: a delimiter cut in two by a block is found all the same.
\<close>

theorem parse_spooled_block_independent:
  assumes "mp_open env path = Some r" "reader_ok r" "reader_ok r'" "content r' = content r" "sink_good (mp_sink env)"
  shows "parse_spooled_multipart env path ctype \<noteq> None
    \<and> parse_spooled_multipart (env\<lparr>mp_open := \<lambda>_. Some r'\<rparr>) path ctype = parse_spooled_multipart env path ctype"
proof (cases "path \<noteq> [] \<and> (\<exists>b. boundary_of ctype = Some b \<and> b \<noteq> [])")
  case True
  then obtain b where b: "path \<noteq> []" "boundary_of ctype = Some b" "b \<noteq> []" by blast
  let ?env = "env\<lparr>mp_open := \<lambda>_. Some r'\<rparr>"
  have "parse_spooled_multipart ?env path ctype = Some (ref_spooled ?env b (content r'))"
    using assms by (intro spooled_ref b) simp_all
  moreover have "ref_spooled ?env b t = ref_spooled env b t" for t
    unfolding ref_spooled_def ref_parts_open by (rule refl)
  ultimately show ?thesis using spooled_ref [OF assms(1,2,5) b] assms(4) by simp
next
  case False
  then show ?thesis by (auto simp: parse_spooled_multipart_def split: option.splits)
qed

theorem parse_spooled_block_independent_witness:
  "parse_spooled_multipart (upload_env\<lparr>mp_open := \<lambda>_. Some (sample_reader [concat sample_blocks])\<rparr>) ''/spool/1'' ''boundary=xy''
   = parse_spooled_multipart upload_env ''/spool/1'' ''boundary=xy''"
  using parse_spooled_block_independent [of upload_env "''/spool/1''" "sample_reader sample_blocks" "sample_reader [concat sample_blocks]"]
    upload_env_good
  by (simp add: env_good_def) (simp add: upload_env_def reader_ok_def sample_reader_def content_def)

subsection \<open>Temporary files\<close>

text \<open>Between two parts: at most the file of the result exists.\<close>

definition files_ok :: "parse_state \<Rightarrow> bool" where
  "files_ok ps \<longleftrightarrow> ps_removed ps = [] \<and>
     (if ps_has_file ps then temp_path (ps_file ps) \<noteq> [] \<and> ps_created ps = [temp_path (ps_file ps)]
      else temp_path (ps_file ps) = [] \<and> ps_created ps = [])"

definition result_clean :: "parse_result \<Rightarrow> bool" where
  "result_clean res \<longleftrightarrow> (case res of
       Inl (_, ps) \<Rightarrow> ps_removed ps = ps_created ps \<and> \<not> ps_has_file ps
     | Inr ps \<Rightarrow> files_ok ps)"

lemma mp_fail_clean: "files_ok ps \<Longrightarrow> result_clean (mp_fail a b c ps)"
  by (auto simp: files_ok_def result_clean_def mp_fail_def mp_remove_def Let_def split: if_splits)

lemma mp_bad_clean: "files_ok ps \<Longrightarrow> result_clean (mp_bad c ps)"
  unfolding mp_bad_def by (rule mp_fail_clean)

lemma part_plan_clean:
  assumes "files_ok ps"
  shows "part_plan env hs ps = RefusePart e \<Longrightarrow> result_clean e"
    and "part_plan env hs ps = FilePart name safe_name ctype path ps1 \<Longrightarrow>
      path \<noteq> [] \<and> \<not> ps_has_file ps \<and> ps1 = ps\<lparr>ps_created := ps_created ps @ [path]\<rparr>"
  using assms by (auto simp: part_plan_def Let_def mp_fail_clean mp_bad_clean split: option.splits if_splits)

lemma file_part_clean:
  assumes "files_ok ps" "\<not> ps_has_file ps" "path \<noteq> []"
  shows "result_clean (file_part_done env name safe_name ctype path res (ps\<lparr>ps_created := ps_created ps @ [path]\<rparr>))"
  using assms
  by (auto simp: files_ok_def result_clean_def file_part_done_def mp_bad_def mp_fail_def mp_remove_def Let_def split: sum.splits)

lemma text_part_clean: "files_ok ps \<Longrightarrow> result_clean (text_part_done name res ps)"
  by (auto simp: text_part_done_def mp_fail_clean mp_bad_clean split: sum.splits)
     (auto simp: result_clean_def files_ok_def)

lemma read_part_clean:
  assumes "files_ok ps" "read_part env boundary ps r = Some (res, final, r1)"
  shows "result_clean res"
proof (cases "part_plan env (fst (read_headers [] r)) ps")
  case (RefusePart e)
  then show ?thesis using assms part_plan_clean(1) by (auto simp: read_part_def split: prod.splits)
next
  case (FilePart name safe_name ctype path ps1)
  then show ?thesis
    using assms(2) part_plan_clean(2) [OF assms(1) FilePart] file_part_clean [OF assms(1)]
    by (auto simp: read_part_def split: prod.splits option.splits)
next
  case (TextPart name)
  then show ?thesis
    using assms(2) text_part_clean [OF assms(1)] by (auto simp: read_part_def split: prod.splits option.splits)
qed

lemma parts_loop_clean:
  assumes "parts_loop env boundary ps r = Some res"
  shows "files_ok ps \<longrightarrow> result_clean res \<and> (\<forall>ps'. res = Inr ps' \<longrightarrow> ps_has_file ps')"
proof (rule parts_loop.raw_induct [where P = "\<lambda>_ _ ps _ res. files_ok ps \<longrightarrow> result_clean res \<and> (\<forall>ps'. res = Inr ps' \<longrightarrow> ps_has_file ps')", OF _ assms], goal_cases)
  case (1 loop env boundary ps r res)
  show ?case
  proof
    assume ok: "files_ok ps"
    obtain p final r1 where part: "read_part env boundary ps r = Some (p, final, r1)" using 1(2) by (auto split: option.splits)
    have clean: "result_clean p" by (rule read_part_clean [OF ok part])
    show "result_clean res \<and> (\<forall>ps'. res = Inr ps' \<longrightarrow> ps_has_file ps')"
    proof (cases p)
      case (Inl e)
      then show ?thesis using 1(2) part clean by auto
    next
      case (Inr ps1)
      then have "files_ok ps1" using clean by (simp add: result_clean_def)
      then show ?thesis
        using 1 part Inr mp_bad_clean [of ps1] by (auto simp: mp_finish_def result_clean_def mp_bad_def mp_fail_def Let_def split: if_splits)
    qed
  qed
qed



subsection \<open>A read error\<close>

text \<open>After a read error \<open>fill\<close> fails without setting \<open>m_eof\<close>.\<close>

definition read_stuck :: "string \<Rightarrow> reader \<Rightarrow> bool" where
  "read_stuck d r \<longleftrightarrow> rd_error r \<and> rd_chunks r = [] \<and> \<not> rd_eof r
     \<and> find_sub d (rd_buffer r) = None \<and> length (rd_buffer r) \<le> length d"

lemma read_part_body_not_stuck:
  assumes "read_part_body put fin d (s, final, r) = Some res"
  shows "\<not> read_stuck d r"
proof -
  have "\<not> read_stuck d (snd (snd (s, final, r)))"
  proof (rule read_part_body.raw_induct [where P = "\<lambda>_ _ d st _. \<not> read_stuck d (snd (snd st))", OF _ assms], goal_cases)
    case (1 loop put fin d st res)
    obtain s final r where st: "st = (s, final, r)" by (metis prod_cases3)
    show ?case
    proof
      assume stuck: "read_stuck d (snd (snd st))"
      then have "loop put fin d (s, final, r) = Some res"
        using 1(2) by (simp add: st read_stuck_def consume_delimiter_def fill_def flush_prefix_def)
      then have "\<not> read_stuck d (snd (snd (s, final, r)))" by (rule 1(1))
      then show False using stuck st by simp
    qed
  qed
  then show ?thesis by simp
qed

definition broken_body :: string where
  "broken_body = ''--xy'' @ crlf @ ''content-disposition: x'' @ crlf @ crlf @ ''abc''"

definition broken_env :: mp_env where
  "broken_env = upload_env\<lparr>mp_open := \<lambda>_. Some ((sample_reader [broken_body])\<lparr>rd_error := True\<rparr>)\<rparr>"

lemma broken_part: "read_part broken_env ''xy'' empty_state
    ((sample_reader [])\<lparr>rd_error := True, rd_buffer := ''content-disposition: x'' @ crlf @ crlf @ ''abc''\<rparr>) = None"
proof -
  let ?r = "(sample_reader [])\<lparr>rd_error := True, rd_buffer := ''content-disposition: x'' @ crlf @ crlf @ ''abc''\<rparr>"
  have heads: "read_headers [] ?r = (Some [(''content-disposition'', ''x'')], ?r\<lparr>rd_buffer := ''abc''\<rparr>)" by code_simp
  have "part_plan broken_env (Some [(''content-disposition'', ''x'')]) empty_state = TextPart []" by code_simp
  moreover have "read_stuck (part_delimiter ''xy'') (?r\<lparr>rd_buffer := ''abc''\<rparr>)" by code_simp
  then have "read_part_body text_sink_write text_sink_finish (part_delimiter ''xy'') (new_text_sink, False, ?r\<lparr>rd_buffer := ''abc''\<rparr>) = None"
    using read_part_body_not_stuck [of text_sink_write text_sink_finish "part_delimiter ''xy''" new_text_sink False] by (metis not_None_eq)
  ultimately show ?thesis unfolding read_part_def heads by simp
qed

text \<open>
  A read error of the spool file inside a part makes the parser loop without end, since
  the loops of \<open>read_part_body\<close> only stop at \<open>m_eof\<close>, which an error does not set.
\<close>

lemma read_error_never_returns:
  "parse_spooled_multipart broken_env ''/spool/1'' ''boundary=xy'' = None"
proof -
  let ?r = "(sample_reader [])\<lparr>rd_error := True, rd_buffer := ''content-disposition: x'' @ crlf @ crlf @ ''abc''\<rparr>"
  have "boundary_of ''boundary=xy'' = Some ''xy''" by code_simp
  moreover have "read_line (the (mp_open broken_env ''/spool/1'')) = (Some (''--'' @ ''xy''), ?r)" by code_simp
  moreover have "mp_open broken_env ''/spool/1'' \<noteq> None" by (simp add: broken_env_def)
  moreover have "parts_loop broken_env ''xy'' empty_state ?r = None" using broken_part by (subst parts_loop.simps) simp
  ultimately show ?thesis by (auto simp: parse_spooled_multipart_def)
qed

end
