(* ===== verification/Fifo.thy ===== *)
theory Fifo
  imports Prelude
begin

text \<open>
  The interface of a bounded first-in first-out queue, as the queues of the infrastructure layer
  offer it: a push that may be refused, a pop that may find nothing. What every client may rely on
  (conservation and order of the elements over any sequence of operations) is proved once here,
  for the blocking queue of the logger (theory \<open>Block_Queue\<close>) and for the two task queues of the
  thread pool (theories \<open>Mpmc_Queue\<close> and \<open>Thread_Pool\<close>).
\<close>

datatype 'a fifo_op = Push 'a | Pop

text \<open>Runs operations; collects the elements that were accepted and those that were handed out.\<close>

fun fifo_run :: "('a \<Rightarrow> 'q \<Rightarrow> bool \<times> 'q) \<Rightarrow> ('q \<Rightarrow> 'a option \<times> 'q) \<Rightarrow> 'a fifo_op list \<Rightarrow> 'q \<Rightarrow> 'a list \<times> 'a list \<times> 'q" where
  "fifo_run push pop [] q = ([], [], q)"
| "fifo_run push pop (Push x # ops) q =
     (case push x q of (b, q1) \<Rightarrow>
        (case fifo_run push pop ops q1 of (acc, out, q2) \<Rightarrow> (if b then x # acc else acc, out, q2)))"
| "fifo_run push pop (Pop # ops) q =
     (case pop q of (r, q1) \<Rightarrow>
        (case fifo_run push pop ops q1 of (acc, out, q2) \<Rightarrow> (acc, (case r of None \<Rightarrow> out | Some x \<Rightarrow> x # out), q2)))"

locale bounded_fifo =
  fixes push :: "'a \<Rightarrow> 'q \<Rightarrow> bool \<times> 'q"
    and pop :: "'q \<Rightarrow> 'a option \<times> 'q"
    and contents :: "'q \<Rightarrow> 'a list"
    and bound :: "'q \<Rightarrow> nat"
    and inv :: "'q \<Rightarrow> bool"
  assumes push_law: "inv q \<Longrightarrow> push x q = (b, q1) \<Longrightarrow>
      inv q1 \<and> bound q1 = bound q \<and> contents q1 = (if b then contents q @ [x] else contents q)"
    and pop_law: "inv q \<Longrightarrow> pop q = (r, q1) \<Longrightarrow>
      inv q1 \<and> bound q1 = bound q \<and> contents q = (case r of None \<Rightarrow> [] | Some x \<Rightarrow> [x]) @ contents q1"
    and pop_finds: "inv q \<Longrightarrow> contents q \<noteq> [] \<Longrightarrow> fst (pop q) \<noteq> None"
    and bounded: "inv q \<Longrightarrow> length (contents q) \<le> bound q"
begin

text \<open>Elements come out in the order in which they were accepted; none is lost, none comes twice.\<close>

lemma run_conserves:
  "inv q \<Longrightarrow> fifo_run push pop ops q = (acc, out, q') \<Longrightarrow>
     inv q' \<and> bound q' = bound q \<and> contents q @ acc = out @ contents q'"
proof (induction ops arbitrary: q acc out)
  case Nil
  then show ?case by simp
next
  case (Cons op ops)
  show ?case
  proof (cases op)
    case (Push x)
    obtain b q1 where push: "push x q = (b, q1)" by fastforce
    obtain acc1 where rest: "fifo_run push pop ops q1 = (acc1, out, q')" and acc: "acc = (if b then x # acc1 else acc1)"
      using Cons.prems(2) Push push by (auto split: prod.splits)
    show ?thesis using push_law [OF Cons.prems(1) push] Cons.IH [OF _ rest] acc by auto
  next
    case Pop
    obtain r q1 where pop: "pop q = (r, q1)" by fastforce
    obtain out1 where rest: "fifo_run push pop ops q1 = (acc, out1, q')" and out: "out = (case r of None \<Rightarrow> out1 | Some x \<Rightarrow> x # out1)"
      using Cons.prems(2) Pop pop by (auto split: prod.splits)
    show ?thesis using pop_law [OF Cons.prems(1) pop] Cons.IH [OF _ rest] out by (cases r) auto
  qed
qed

lemma run_bounded:
  "inv q \<Longrightarrow> fifo_run push pop ops q = (acc, out, q') \<Longrightarrow> length (contents q') \<le> bound q"
  using run_conserves bounded by metis

end

end
