(* ===== verification/Block_Queue.thy ===== *)
theory Block_Queue
  imports Fifo
begin

text \<open>
  The blocking queue on a circular array (src/infra/log/block_queue.h). Every operation runs under
  the mutex of the queue, so it is one step of the model; only the waiting loops of \<open>pop\<close> give the
  mutex up, and there the states in which the thread wakes up are an argument.
\<close>

record 'a block_queue =
  bq_array :: "'a list"
  bq_size :: int
  bq_max_size :: int
  bq_front :: int
  bq_back :: int
  bq_closed :: bool

text \<open>The constructor; \<open>d\<close> is the default value of the element type and \<open>None\<close> is \<open>exit(-1)\<close>.\<close>

definition new_block_queue :: "'a \<Rightarrow> int \<Rightarrow> 'a block_queue option" where
  "new_block_queue d max_size =
     (if max_size \<le> 0 then None
      else Some \<lparr>bq_array = replicate (nat max_size) d, bq_size = 0, bq_max_size = max_size,
                 bq_front = - 1, bq_back = - 1, bq_closed = False\<rparr>)"

definition bq_clear :: "'a block_queue \<Rightarrow> 'a block_queue" where
  "bq_clear q = q\<lparr>bq_size := 0, bq_front := - 1, bq_back := - 1\<rparr>"

definition bq_close :: "'a block_queue \<Rightarrow> 'a block_queue" where
  "bq_close q = q\<lparr>bq_closed := True\<rparr>"

definition bq_push :: "'a \<Rightarrow> 'a block_queue \<Rightarrow> bool \<times> 'a block_queue" where
  "bq_push x q =
     (if bq_closed q \<or> bq_size q \<ge> bq_max_size q then (False, q)
      else let back = (bq_back q + 1) mod bq_max_size q in
           (True, q\<lparr>bq_back := back, bq_array := (bq_array q)[nat back := x], bq_size := bq_size q + 1\<rparr>))"

definition bq_full :: "'a block_queue \<Rightarrow> bool" where
  "bq_full q \<longleftrightarrow> bq_size q \<ge> bq_max_size q"

definition bq_empty :: "'a block_queue \<Rightarrow> bool" where
  "bq_empty q \<longleftrightarrow> bq_size q = 0"

text \<open>\<open>front\<close> and \<open>back\<close>: \<open>Inr None\<close> is the result false.\<close>

definition bq_peek :: "int \<Rightarrow> 'a block_queue \<Rightarrow> 'a option cxx" where
  "bq_peek i q =
     (if bq_size q = 0 then Inr None
      else if i < 0 \<or> i \<ge> bq_max_size q then Inl OutOfBounds
      else Inr (Some (bq_array q ! nat i)))"

definition bq_front_value :: "'a block_queue \<Rightarrow> 'a option cxx" where
  "bq_front_value q = bq_peek (bq_front q) q"

definition bq_back_value :: "'a block_queue \<Rightarrow> 'a option cxx" where
  "bq_back_value q = bq_peek (bq_back q) q"

definition bq_try_pop :: "'a block_queue \<Rightarrow> 'a option \<times> 'a block_queue" where
  "bq_try_pop q =
     (if bq_size q \<le> 0 then (None, q)
      else let front = (bq_front q + 1) mod bq_max_size q in
           (Some (bq_array q ! nat front), q\<lparr>bq_front := front, bq_size := bq_size q - 1\<rparr>))"

text \<open>
  \<open>pop\<close>: each element of the list is one return of \<open>m_cond.wait\<close> with the queue as the other threads
  left it. \<open>None\<close>: the thread is still waiting at the end of the list.
\<close>

fun bq_pop :: "(bool \<times> 'a block_queue) list \<Rightarrow> 'a block_queue \<Rightarrow> ('a option \<times> 'a block_queue) option" where
  "bq_pop wakes q =
     (if bq_size q \<le> 0 \<and> \<not> bq_closed q then
        (case wakes of
           [] \<Rightarrow> None
         | (False, q1) # _ \<Rightarrow> Some (None, q1)
         | (True, q1) # rest \<Rightarrow> bq_pop rest q1)
      else Some (bq_try_pop q))"

declare bq_pop.simps [simp del]

text \<open>The deadline of the timed \<open>pop\<close> as seconds and nanoseconds; the division of C++ rounds to zero.\<close>

definition bq_deadline :: "int \<Rightarrow> int \<Rightarrow> int \<Rightarrow> int \<times> int" where
  "bq_deadline sec usec ms =
     (let q = (if ms \<ge> 0 then ms div 1000 else - (- ms div 1000));
          s = sec + q; ns = usec * 1000 + (ms - q * 1000) * 1000000 in
      if ns \<ge> 1000000000 then (s + 1, ns - 1000000000) else (s, ns))"

text \<open>The timed \<open>pop\<close> waits once; \<open>wake\<close> is the return of \<open>timewait\<close> for the deadline it is given.\<close>

definition bq_pop_timed ::
  "(int \<times> int \<Rightarrow> bool \<times> 'a block_queue) \<Rightarrow> int \<Rightarrow> int \<Rightarrow> int \<Rightarrow> 'a block_queue \<Rightarrow> 'a option \<times> 'a block_queue" where
  "bq_pop_timed wake sec usec ms q =
     (if bq_size q \<le> 0 \<and> \<not> bq_closed q then
        (case wake (bq_deadline sec usec ms) of
           (False, q1) \<Rightarrow> (None, q1)
         | (True, q1) \<Rightarrow> bq_try_pop q1)
      else bq_try_pop q)"

subsection \<open>The queue the array stands for\<close>

definition bq_ok :: "'a block_queue \<Rightarrow> bool" where
  "bq_ok q \<longleftrightarrow> 0 < bq_max_size q \<and> int (length (bq_array q)) = bq_max_size q
     \<and> 0 \<le> bq_size q \<and> bq_size q \<le> bq_max_size q
     \<and> - 1 \<le> bq_front q \<and> bq_front q < bq_max_size q \<and> - 1 \<le> bq_back q \<and> bq_back q < bq_max_size q
     \<and> (bq_front q + bq_size q) mod bq_max_size q = bq_back q mod bq_max_size q"

definition bq_slot :: "'a block_queue \<Rightarrow> int \<Rightarrow> nat" where
  "bq_slot q i = nat ((bq_front q + 1 + i) mod bq_max_size q)"

definition bq_contents :: "'a block_queue \<Rightarrow> 'a list" where
  "bq_contents q = map (\<lambda>i. bq_array q ! bq_slot q (int i)) [0..<nat (bq_size q)]"

lemma mod_window_neq:
  fixes a i j m :: int
  assumes "0 \<le> i" "i < j" "j < m"
  shows "(a + i) mod m \<noteq> (a + j) mod m"
proof
  assume "(a + i) mod m = (a + j) mod m"
  then have "m dvd j - i" by (metis add_diff_cancel_left mod_eq_dvd_iff)
  then show False using assms zdvd_imp_le [of m "j - i"] by simp
qed

lemma mod_ge_minus_one: "0 < m \<Longrightarrow> - 1 \<le> a mod (m :: int)"
  by (meson order.trans pos_mod_sign zero_le_one le_minus_one_simps(1) neg_le_0_iff_le)

lemma new_block_queue_ok: "new_block_queue d n = Some q \<Longrightarrow> bq_ok q \<and> bq_contents q = []"
  by (auto simp: new_block_queue_def bq_ok_def bq_contents_def split: if_splits)

lemma bq_push_back:
  assumes "bq_ok q"
  shows "(bq_back q + 1) mod bq_max_size q = (bq_front q + 1 + bq_size q) mod bq_max_size q"
  using assms unfolding bq_ok_def by (metis add.assoc add.commute mod_add_left_eq)

lemma bq_push_law:
  assumes ok: "bq_ok q" and push: "bq_push x q = (b, q1)"
  shows "bq_ok q1 \<and> nat (bq_max_size q1) = nat (bq_max_size q)
    \<and> bq_contents q1 = (if b then bq_contents q @ [x] else bq_contents q)"
proof (cases "bq_closed q \<or> bq_size q \<ge> bq_max_size q")
  case True
  then show ?thesis using ok push by (auto simp: bq_push_def)
next
  case False
  let ?m = "bq_max_size q"
  define b1 where "b1 = (bq_back q + 1) mod ?m"
  have m: "0 < ?m" and size: "0 \<le> bq_size q" "bq_size q < ?m" and len: "int (length (bq_array q)) = ?m"
    using ok False by (auto simp: bq_ok_def)
  have b1: "0 \<le> b1" "b1 < ?m" "b1 = (bq_front q + 1 + bq_size q) mod ?m"
    using m bq_push_back [OF ok] by (simp_all add: b1_def)
  have q1: "b" "q1 = q\<lparr>bq_back := b1, bq_array := (bq_array q)[nat b1 := x], bq_size := bq_size q + 1\<rparr>"
    using push False by (auto simp: bq_push_def b1_def Let_def)
  have "bq_ok q1"
    using ok q1 b1 size by (simp add: bq_ok_def mod_ge_minus_one algebra_simps)
  moreover have "bq_contents q1 = bq_contents q @ [x]"
  proof -
    have other: "bq_array q1 ! bq_slot q1 (int i) = bq_array q ! bq_slot q (int i)" if "i < nat (bq_size q)" for i
    proof -
      have "(bq_front q + 1 + int i) mod ?m \<noteq> b1"
        unfolding b1(3) using that size by (intro mod_window_neq) auto
      then have "nat b1 \<noteq> nat ((bq_front q + 1 + int i) mod ?m)" using b1(1) pos_mod_sign [OF m] by (simp add: eq_nat_nat_iff)
      then show ?thesis by (simp add: q1 bq_slot_def)
    qed
    have "bq_array q1 ! bq_slot q1 (bq_size q) = x"
      using b1 len by (simp add: q1 bq_slot_def)
    moreover have "nat (bq_size q1) = Suc (nat (bq_size q))" using size by (simp add: q1)
    ultimately show ?thesis using other size by (simp add: bq_contents_def)
  qed
  ultimately show ?thesis using q1 by simp
qed

lemma bq_try_pop_law:
  assumes ok: "bq_ok q" and pop: "bq_try_pop q = (r, q1)"
  shows "bq_ok q1 \<and> nat (bq_max_size q1) = nat (bq_max_size q)
    \<and> bq_contents q = (case r of None \<Rightarrow> [] | Some x \<Rightarrow> [x]) @ bq_contents q1"
proof (cases "bq_size q \<le> 0")
  case True
  then show ?thesis using ok pop by (auto simp: bq_try_pop_def bq_contents_def)
next
  case False
  let ?m = "bq_max_size q"
  define front where "front = (bq_front q + 1) mod ?m"
  have q1: "r = Some (bq_array q ! nat front)" "q1 = q\<lparr>bq_front := front, bq_size := bq_size q - 1\<rparr>"
    using pop False by (auto simp: bq_try_pop_def front_def Let_def)
  have m: "0 < ?m" using ok by (simp add: bq_ok_def)
  have shift: "(front + k) mod ?m = (bq_front q + 1 + k) mod ?m" for k
    by (simp add: front_def mod_add_left_eq)
  have "bq_ok q1"
    using ok False shift [of "bq_size q - 1"] m mod_ge_minus_one [OF m, of "bq_front q + 1"]
    unfolding q1 bq_ok_def by (simp add: front_def)
  moreover have "bq_contents q = bq_array q ! nat front # bq_contents q1"
  proof -
    have n: "nat (bq_size q) = Suc (nat (bq_size q1))" using False by (simp add: q1)
    have "bq_slot q 0 = nat front" by (simp add: bq_slot_def front_def)
    moreover have "bq_slot q (int (Suc i)) = bq_slot q1 (int i)" for i
      using shift [of "1 + int i"] by (simp add: bq_slot_def q1 algebra_simps)
    ultimately show ?thesis
      unfolding bq_contents_def n upt_conv_Cons [OF zero_less_Suc] by (simp add: map_Suc_upt [symmetric] q1 del: upt_Suc)
  qed
  ultimately show ?thesis using q1 by simp
qed

interpretation block: bounded_fifo bq_push bq_try_pop bq_contents "\<lambda>q. nat (bq_max_size q)" bq_ok
proof unfold_locales
  fix q q1 :: "'a block_queue" and x :: 'a and b
  assume "bq_ok q" "bq_push x q = (b, q1)"
  then show "bq_ok q1 \<and> nat (bq_max_size q1) = nat (bq_max_size q)
      \<and> bq_contents q1 = (if b then bq_contents q @ [x] else bq_contents q)" by (rule bq_push_law)
next
  fix q q1 :: "'a block_queue" and r
  assume "bq_ok q" "bq_try_pop q = (r, q1)"
  then show "bq_ok q1 \<and> nat (bq_max_size q1) = nat (bq_max_size q)
      \<and> bq_contents q = (case r of None \<Rightarrow> [] | Some x \<Rightarrow> [x]) @ bq_contents q1" by (rule bq_try_pop_law)
next
  fix q :: "'a block_queue" assume "bq_ok q" "bq_contents q \<noteq> []"
  then show "fst (bq_try_pop q) \<noteq> None" by (auto simp: bq_contents_def bq_try_pop_def Let_def)
next
  fix q :: "'a block_queue" assume "bq_ok q"
  then show "length (bq_contents q) \<le> nat (bq_max_size q)" by (auto simp: bq_contents_def bq_ok_def)
qed

subsection \<open>Properties\<close>

text \<open>A popping thread that is woken up.\<close>

lemma bq_pop_result:
  assumes "bq_pop wakes q = Some (r, q')"
  shows "(\<exists>q0. q0 \<in> insert q (snd ` set wakes) \<and> (bq_size q0 > 0 \<or> bq_closed q0) \<and> bq_try_pop q0 = (r, q'))
    \<or> (False, q') \<in> set wakes \<and> r = None"
  using assms
proof (induction wakes arbitrary: q)
  case Nil
  then show ?case by (subst (asm) bq_pop.simps) (auto split: if_splits)
next
  case (Cons w wakes)
  then show ?case
    by (cases w; cases "fst w") (auto simp: bq_pop.simps [of "_ # _"] split: if_splits)
qed

text \<open>
  The blocking queue is a bounded first-in first-out queue: over every sequence of
  pushes and pops on a new queue, the elements handed out followed by those still stored are
  exactly the elements that were accepted, in their order, and there are never more than the
  maximum of them.
\<close>

lemma block_queue_fifo:
  assumes "new_block_queue d n = Some q" and "fifo_run bq_push bq_try_pop ops q = (acc, out, q')"
  shows "acc = out @ bq_contents q' \<and> int (length (bq_contents q')) \<le> n"
proof -
  have ok: "bq_ok q" "bq_contents q = []" "bq_max_size q = n" "0 < n"
    using new_block_queue_ok [OF assms(1)] assms(1) by (auto simp: new_block_queue_def split: if_splits)
  show ?thesis using block.run_conserves [OF ok(1) assms(2)] block.run_bounded [OF ok(1) assms(2)] ok(2-4) by auto
qed

lemma block_queue_fifo_witness:
  "\<exists>acc out q'. fifo_run bq_push bq_try_pop [Push 1, Push 2, Push 3, Pop, Push (4::nat)] (the (new_block_queue 0 2)) = (acc, out, q')
     \<and> acc = [1, 2, 4] \<and> out = [1] \<and> acc = out @ bq_contents q'"
proof -
  let ?q = "the (new_block_queue (0::nat) 2)" and ?ops = "[Push 1, Push 2, Push 3, Pop, Push (4::nat)]"
  obtain acc out q' where run: "fifo_run bq_push bq_try_pop ?ops ?q = (acc, out, q')" by (metis prod_cases3)
  have "acc = fst (fifo_run bq_push bq_try_pop ?ops ?q)" "out = fst (snd (fifo_run bq_push bq_try_pop ?ops ?q))"
    unfolding run by simp_all
  moreover have "fst (fifo_run bq_push bq_try_pop ?ops ?q) = [1, 2, 4]" "fst (snd (fifo_run bq_push bq_try_pop ?ops ?q)) = [1]"
    by code_simp+
  moreover have "new_block_queue 0 2 = Some ?q" by (simp add: new_block_queue_def)
  moreover note block_queue_fifo [OF calculation(5) run]
  ultimately show ?thesis using run by auto
qed

text \<open>
  \<open>front\<close> does not return the front element: \<open>m_front\<close> is the position before it. On a
  new queue with one element it reads before the array, and after a pop it returns the element
  that was already taken.
\<close>

lemma block_queue_front_wrong:
  "bq_front_value (snd (bq_push x (the (new_block_queue d 2)))) = Inl OutOfBounds
   \<and> bq_front_value (snd (bq_try_pop (snd (bq_push y (snd (bq_push x (the (new_block_queue d 2)))))))) = Inr (Some x)"
  by (simp add: new_block_queue_def bq_push_def bq_try_pop_def bq_front_value_def bq_peek_def Let_def)

lemma bq_deadline_normal:
  "0 \<le> ms \<Longrightarrow> 0 \<le> usec \<Longrightarrow> usec < 1000000 \<Longrightarrow> bq_deadline sec usec ms = (s, ns) \<Longrightarrow>
     0 \<le> ns \<and> ns < 1000000000 \<and> s * 1000000000 + ns = sec * 1000000000 + usec * 1000 + ms * 1000000"
  by (auto simp: bq_deadline_def Let_def split: if_splits)

end
