(* ===== verification/Conn_Pool.thy ===== *)
theory Conn_Pool
  imports Cstring
begin

text \<open>
  The pool of database connections (src/infra/db/sql_connection_pool.cpp). The MySQL client library
  is outside: whether a connection is opened and with which handle, whether a ping is answered and
  the time are arguments of a call. Every call works on one connection that no other call has, and
  on the counters under the lock, so a call is one step.

  \<open>cp_held\<close> (the handles given out and not yet returned) and \<open>cp_closed\<close> (the handles passed to
  \<open>mysql_close\<close>) record what happened.
\<close>

record conn_pool =
  cp_max :: int
  cp_cur :: int
  cp_free :: int
  cp_idle_timeout :: int
  cp_list :: "nat list"
  cp_last_active :: "nat \<rightharpoonup> int"
  cp_reserve :: nat
  cp_port :: string
  cp_held :: "nat list"
  cp_closed :: "nat list"

definition new_conn_pool :: conn_pool where
  "new_conn_pool = \<lparr>cp_max = 0, cp_cur = 0, cp_free = 0, cp_idle_timeout = 60, cp_list = [], cp_last_active = (\<lambda>_. None),
     cp_reserve = 0, cp_port = [], cp_held = [], cp_closed = []\<rparr>"

text \<open>What the library answers when a connection is made, with the handle where there is one.\<close>

datatype connect_result = InitFails | ConnectFails nat | CharsetFails nat | Connected nat

definition create_connection :: "connect_result \<Rightarrow> conn_pool \<Rightarrow> nat option \<times> conn_pool" where
  "create_connection k p =
     (case k of
        InitFails \<Rightarrow> (None, p)
      | ConnectFails h \<Rightarrow> (None, p\<lparr>cp_closed := cp_closed p @ [h]\<rparr>)
      | CharsetFails h \<Rightarrow> (None, p\<lparr>cp_closed := cp_closed p @ [h]\<rparr>)
      | Connected h \<Rightarrow> (Some h, p))"

text \<open>The port the library is given: \<open>atoi\<close> of the string \<open>m_Port\<close>.\<close>

definition connect_port :: "conn_pool \<Rightarrow> int" where
  "connect_port p = narrow_int (atol (cp_port p))"

definition reconnect_connection :: "connect_result \<Rightarrow> int \<Rightarrow> nat \<Rightarrow> conn_pool \<Rightarrow> nat option \<times> conn_pool" where
  "reconnect_connection k now conn p =
     (let p1 = p\<lparr>cp_last_active := (cp_last_active p)(conn := None), cp_closed := cp_closed p @ [conn]\<rparr> in
      case create_connection k p1 of
        (None, p2) \<Rightarrow> (None, p2)
      | (Some h, p2) \<Rightarrow> (Some h, p2\<lparr>cp_last_active := (cp_last_active p2)(h \<mapsto> now)\<rparr>))"

definition check_connection :: "(nat \<Rightarrow> bool) \<Rightarrow> int \<Rightarrow> nat \<Rightarrow> conn_pool \<Rightarrow> bool \<times> conn_pool" where
  "check_connection ping now conn p =
     (case cp_last_active p conn of
        None \<Rightarrow> (True, p\<lparr>cp_last_active := (cp_last_active p)(conn \<mapsto> now)\<rparr>)
      | Some t \<Rightarrow>
          if now - t < cp_idle_timeout p then (True, p)
          else if \<not> ping conn then (False, p)
          else (True, p\<lparr>cp_last_active := (cp_last_active p)(conn \<mapsto> now)\<rparr>))"

text \<open>\<open>check_connection(con) || reconnect_connection(con)\<close>: the handle to go on with, if there is one.\<close>

definition healthy_connection :: "(nat \<Rightarrow> bool) \<Rightarrow> connect_result \<Rightarrow> int \<Rightarrow> nat \<Rightarrow> conn_pool \<Rightarrow> nat option \<times> conn_pool" where
  "healthy_connection ping k now conn p =
     (case check_connection ping now conn p of
        (True, p1) \<Rightarrow> (Some conn, p1)
      | (False, p1) \<Rightarrow> reconnect_connection k now conn p1)"

definition kPoolInitRetryTimes :: nat where "kPoolInitRetryTimes = 10"

text \<open>One slot of \<open>init\<close>: at most ten attempts. The list holds the answers to the attempts that are made.\<close>

fun init_slot :: "nat \<Rightarrow> connect_result list \<Rightarrow> conn_pool \<Rightarrow> nat option \<times> connect_result list \<times> conn_pool" where
  "init_slot 0 ks p = (None, ks, p)"
| "init_slot (Suc n) [] p = (None, [], p)"
| "init_slot (Suc n) (k # ks) p =
     (case create_connection k p of
        (Some h, p1) \<Rightarrow> (Some h, ks, p1)
      | (None, p1) \<Rightarrow> init_slot n ks p1)"

fun init_slots :: "int \<Rightarrow> nat \<Rightarrow> connect_result list \<Rightarrow> conn_pool \<Rightarrow> conn_pool option" where
  "init_slots now 0 ks p = Some p"
| "init_slots now (Suc n) ks p =
     (case init_slot kPoolInitRetryTimes ks p of
        (None, _) \<Rightarrow> None
      | (Some h, ks1, p1) \<Rightarrow>
          init_slots now n ks1 (p1\<lparr>cp_list := cp_list p1 @ [h], cp_last_active := (cp_last_active p1)(h \<mapsto> now),
            cp_free := cp_free p1 + 1\<rparr>))"

lemma init_slot_code [code]:
  "init_slot n ks p =
     (if n = 0 then (None, ks, p)
      else case ks of [] \<Rightarrow> (None, [], p)
      | k # ks' \<Rightarrow> (case create_connection k p of (Some h, p1) \<Rightarrow> (Some h, ks', p1) | (None, p1) \<Rightarrow> init_slot (n - 1) ks' p1))"
  by (cases n; cases ks) (auto split: option.splits prod.splits)

lemma init_slots_code [code]:
  "init_slots now n ks p =
     (if n = 0 then Some p
      else case init_slot kPoolInitRetryTimes ks p of
        (None, _) \<Rightarrow> None
      | (Some h, ks1, p1) \<Rightarrow>
          init_slots now (n - 1) ks1 (p1\<lparr>cp_list := cp_list p1 @ [h], cp_last_active := (cp_last_active p1)(h \<mapsto> now),
            cp_free := cp_free p1 + 1\<rparr>))"
  by (cases n) (auto split: option.splits prod.splits)

text \<open>
  \<open>m_Port = Port\<close> assigns an \<open>int\<close> to a string: the string of one character, the port modulo 256.
\<close>

definition port_string :: "int \<Rightarrow> string" where
  "port_string port = [char_of (nat (port mod 256))]"

text \<open>\<open>None\<close> is \<open>exit(1)\<close>.\<close>

definition pool_init :: "int \<Rightarrow> int \<Rightarrow> int \<Rightarrow> int \<Rightarrow> connect_result list \<Rightarrow> conn_pool \<Rightarrow> conn_pool option" where
  "pool_init now port max_conn idle_timeout ks p =
     (case init_slots now (nat max_conn) ks (p\<lparr>cp_port := port_string port, cp_idle_timeout := (if idle_timeout > 0 then idle_timeout else 60)\<rparr>) of
        None \<Rightarrow> None
      | Some p1 \<Rightarrow> Some (p1\<lparr>cp_reserve := nat (cp_free p1), cp_max := cp_free p1\<rparr>))"

text \<open>\<open>GetConnection\<close>; the outer \<open>None\<close>: the call waits at the semaphore.\<close>

definition GetConnection :: "(nat \<Rightarrow> bool) \<Rightarrow> connect_result \<Rightarrow> int \<Rightarrow> conn_pool \<Rightarrow> (nat option \<times> conn_pool) option" where
  "GetConnection ping k now p =
     (if cp_reserve p = 0 then None
      else let p0 = p\<lparr>cp_reserve := cp_reserve p - 1\<rparr> in
        case cp_list p0 of
          [] \<Rightarrow> Some (None, p0)
        | con # rest \<Rightarrow>
            (let p1 = p0\<lparr>cp_list := rest, cp_free := cp_free p0 - 1, cp_cur := cp_cur p0 + 1\<rparr> in
             case healthy_connection ping k now con p1 of
               (None, p2) \<Rightarrow> Some (None, p2\<lparr>cp_cur := cp_cur p2 - 1, cp_max := cp_max p2 - 1\<rparr>)
             | (Some h, p2) \<Rightarrow>
                 Some (Some h, p2\<lparr>cp_last_active := (cp_last_active p2)(h \<mapsto> now), cp_held := cp_held p2 @ [h]\<rparr>)))"

text \<open>\<open>ReleaseConnection\<close>; 0 is the null pointer.\<close>

definition ReleaseConnection :: "(nat \<Rightarrow> bool) \<Rightarrow> connect_result \<Rightarrow> int \<Rightarrow> nat \<Rightarrow> conn_pool \<Rightarrow> bool \<times> conn_pool" where
  "ReleaseConnection ping k now con p =
     (if con = 0 then (False, p)
      else let p0 = p\<lparr>cp_held := remove1 con (cp_held p)\<rparr> in
        case healthy_connection ping k now con p0 of
          (None, p1) \<Rightarrow> (False, p1\<lparr>cp_cur := cp_cur p1 - 1, cp_max := cp_max p1 - 1\<rparr>)
        | (Some h, p1) \<Rightarrow>
            (True, p1\<lparr>cp_list := cp_list p1 @ [h], cp_last_active := (cp_last_active p1)(h \<mapsto> now),
               cp_free := cp_free p1 + 1, cp_cur := cp_cur p1 - 1, cp_reserve := cp_reserve p1 + 1\<rparr>))"

definition GetFreeConn :: "conn_pool \<Rightarrow> int" where
  "GetFreeConn p = cp_free p"

definition DestroyPool :: "conn_pool \<Rightarrow> conn_pool" where
  "DestroyPool p =
     (if cp_list p = [] then p
      else p\<lparr>cp_last_active := (\<lambda>h. if h \<in> set (cp_list p) then None else cp_last_active p h),
             cp_closed := cp_closed p @ cp_list p, cp_cur := 0, cp_free := 0, cp_max := 0, cp_list := []\<rparr>)"

subsection \<open>The account of the connections\<close>

text \<open>
  A call of the pool: get, or release a handle that is held. The library gives out handles that
  are in use nowhere.
\<close>

datatype db_call = Get "nat \<Rightarrow> bool" connect_result int | Release "nat \<Rightarrow> bool" connect_result int nat

definition handles :: "conn_pool \<Rightarrow> nat list" where
  "handles p = cp_list p @ cp_held p"

definition fresh_result :: "connect_result \<Rightarrow> conn_pool \<Rightarrow> bool" where
  "fresh_result k p \<longleftrightarrow> (case k of Connected h \<Rightarrow> h \<noteq> 0 \<and> h \<notin> set (handles p) | ConnectFails h \<Rightarrow> h \<notin> set (handles p)
     | CharsetFails h \<Rightarrow> h \<notin> set (handles p) | InitFails \<Rightarrow> True)"

fun call_ok :: "db_call \<Rightarrow> conn_pool \<Rightarrow> bool" where
  "call_ok (Get ping k now) p \<longleftrightarrow> fresh_result k p"
| "call_ok (Release ping k now con) p \<longleftrightarrow> fresh_result k p \<and> con \<in> set (cp_held p)"

fun run_call :: "db_call \<Rightarrow> conn_pool \<Rightarrow> conn_pool" where
  "run_call (Get ping k now) p = (case GetConnection ping k now p of None \<Rightarrow> p | Some (r, p1) \<Rightarrow> p1)"
| "run_call (Release ping k now con) p = snd (ReleaseConnection ping k now con p)"

text \<open>Runs calls; a call the rules above forbid is left out.\<close>

fun run_calls :: "db_call list \<Rightarrow> conn_pool \<Rightarrow> conn_pool" where
  "run_calls [] p = p"
| "run_calls (c # cs) p = run_calls cs (if call_ok c p then run_call c p else p)"

definition accounted :: "conn_pool \<Rightarrow> bool" where
  "accounted p \<longleftrightarrow> cp_free p = int (length (cp_list p)) \<and> cp_cur p = int (length (cp_held p)) \<and> cp_max p = cp_free p + cp_cur p
     \<and> cp_reserve p = length (cp_list p) \<and> distinct (handles p) \<and> 0 \<notin> set (handles p)"

text \<open>What the check or reconnection of a handle leaves: the same handle, a fresh one, or none.\<close>

lemma healthy_cases:
  assumes "healthy_connection ping k now con p = (r, p1)" "fresh_result k p"
  shows "p1 = p\<lparr>cp_last_active := cp_last_active p1, cp_closed := cp_closed p1\<rparr>
    \<and> (r = None \<or> r = Some con \<or> (\<exists>h. r = Some h \<and> k = Connected h \<and> h \<noteq> 0 \<and> h \<notin> set (handles p)))"
  using assms
  by (auto simp: healthy_connection_def check_connection_def reconnect_connection_def create_connection_def fresh_result_def Let_def
      split: option.splits if_splits connect_result.splits)

lemma get_accounted:
  assumes acc: "accounted p" and fresh: "fresh_result k p" and get: "GetConnection ping k now p = Some (r, p')"
  shows "accounted p'"
proof (cases "cp_list p")
  case Nil
  then have "cp_reserve p = 0" using acc by (simp add: accounted_def)
  then show ?thesis using get by (simp add: GetConnection_def)
next
  case (Cons con rest)
  let ?p1 = "p\<lparr>cp_reserve := cp_reserve p - 1, cp_list := rest, cp_free := cp_free p - 1, cp_cur := cp_cur p + 1\<rparr>"
  obtain r1 p2 where h: "healthy_connection ping k now con ?p1 = (r1, p2)" by fastforce
  have "fresh_result k ?p1" using fresh Cons by (auto simp: fresh_result_def handles_def split: connect_result.splits)
  from healthy_cases [OF h this] obtain la cl where p2: "p2 = ?p1\<lparr>cp_last_active := la, cp_closed := cl\<rparr>"
    and r1: "r1 = None \<or> r1 = Some con \<or> (\<exists>h. r1 = Some h \<and> k = Connected h \<and> h \<noteq> 0 \<and> h \<notin> set (handles ?p1))" by blast
  have p': "p' = (case r1 of None \<Rightarrow> p2\<lparr>cp_cur := cp_cur p2 - 1, cp_max := cp_max p2 - 1\<rparr>
      | Some h \<Rightarrow> p2\<lparr>cp_last_active := (cp_last_active p2)(h \<mapsto> now), cp_held := cp_held p2 @ [h]\<rparr>)"
    using get Cons h acc by (auto simp: GetConnection_def accounted_def Let_def split: option.splits if_splits)
  show ?thesis
    using r1 acc Cons unfolding p' p2 by (auto simp: accounted_def handles_def)
qed

lemma release_accounted:
  assumes acc: "accounted p" and fresh: "fresh_result k p" and con: "con \<in> set (cp_held p)"
  shows "accounted (snd (ReleaseConnection ping k now con p))"
proof -
  let ?p0 = "p\<lparr>cp_held := remove1 con (cp_held p)\<rparr>"
  obtain r1 p1 where h: "healthy_connection ping k now con ?p0 = (r1, p1)" by fastforce
  have sub: "set (remove1 con (cp_held p)) \<subseteq> set (cp_held p)" by (rule set_remove1_subset)
  have "fresh_result k ?p0" using fresh sub by (auto simp: fresh_result_def handles_def split: connect_result.splits)
  from healthy_cases [OF h this] obtain la cl where p1: "p1 = ?p0\<lparr>cp_last_active := la, cp_closed := cl\<rparr>"
    and r1: "r1 = None \<or> r1 = Some con \<or> (\<exists>h. r1 = Some h \<and> k = Connected h \<and> h \<noteq> 0 \<and> h \<notin> set (handles ?p0))" by blast
  have con0: "con \<noteq> 0" using acc con by (auto simp: accounted_def handles_def)
  have run: "snd (ReleaseConnection ping k now con p) = (case r1 of
      None \<Rightarrow> p1\<lparr>cp_cur := cp_cur p1 - 1, cp_max := cp_max p1 - 1\<rparr>
    | Some h \<Rightarrow> p1\<lparr>cp_list := cp_list p1 @ [h], cp_last_active := (cp_last_active p1)(h \<mapsto> now),
          cp_free := cp_free p1 + 1, cp_cur := cp_cur p1 - 1, cp_reserve := cp_reserve p1 + 1\<rparr>)"
    using con0 h by (auto simp: ReleaseConnection_def Let_def split: option.splits)
  have len: "int (length (remove1 con (cp_held p))) = int (length (cp_held p)) - 1"
    using con by (simp add: length_remove1 of_nat_diff) (metis One_nat_def Suc_leI length_pos_if_in_set of_nat_1 of_nat_diff)
  have dist: "distinct (cp_held p)" "distinct (cp_list p)" "set (cp_list p) \<inter> set (cp_held p) = {}"
    using acc by (auto simp: accounted_def handles_def)
  then have rm: "set (remove1 con (cp_held p)) = set (cp_held p) - {con}" "distinct (remove1 con (cp_held p))" by auto
  show ?thesis
    using r1 acc con0 con dist unfolding run p1 by (auto simp: accounted_def handles_def len rm)
qed

lemma run_calls_accounted: "accounted p \<Longrightarrow> accounted (run_calls cs p)"
proof (induction cs arbitrary: p)
  case (Cons c cs)
  have "accounted (if call_ok c p then run_call c p else p)"
    using Cons.prems get_accounted release_accounted
    by (cases c) (auto split: option.splits)
  then show ?case using Cons.IH by simp
qed simp

text \<open>The pool after \<open>init\<close>: the handles of the successful attempts, in order.\<close>

fun connected :: "connect_result list \<Rightarrow> nat list" where
  "connected [] = []"
| "connected (Connected h # ks) = h # connected ks"
| "connected (_ # ks) = connected ks"

lemma init_slot_spec:
  "init_slot n ks p = (Some h, ks1, p1) \<Longrightarrow> connected ks = h # connected ks1 \<and> p1 = p\<lparr>cp_closed := cp_closed p1\<rparr>"
proof (induction n ks p rule: init_slot.induct)
  case (3 n k ks p)
  show ?case
  proof (cases k)
    case (Connected h')
    then show ?thesis using 3(2) by (auto simp: create_connection_def)
  next
    case (ConnectFails h')
    then show ?thesis using 3 by (auto simp: create_connection_def)
  next
    case (CharsetFails h')
    then show ?thesis using 3 by (auto simp: create_connection_def)
  next
    case InitFails
    then show ?thesis using 3 by (auto simp: create_connection_def)
  qed
qed auto

lemma init_slots_spec:
  "init_slots now n ks p = Some p' \<Longrightarrow> n \<le> length (connected ks) \<and> cp_list p' = cp_list p @ take n (connected ks)
     \<and> cp_free p' = cp_free p + int n \<and> cp_cur p' = cp_cur p \<and> cp_held p' = cp_held p \<and> cp_port p' = cp_port p"
proof (induction now n ks p rule: init_slots.induct)
  case (2 now n ks p)
  obtain h ks1 p1 where slot: "init_slot kPoolInitRetryTimes ks p = (Some h, ks1, p1)"
    using 2(2) by (auto split: option.splits prod.splits)
  let ?p = "p1\<lparr>cp_list := cp_list p1 @ [h], cp_last_active := (cp_last_active p1)(h \<mapsto> now), cp_free := cp_free p1 + 1\<rparr>"
  have "init_slots now n ks1 ?p = Some p'" using 2(2) slot by simp
  note rest = 2(1) [OF slot [symmetric] refl refl this]
  have "connected ks = h # connected ks1" and p1: "p1 = p\<lparr>cp_closed := cp_closed p1\<rparr>" using init_slot_spec [OF slot] by auto
  moreover have "cp_list p1 = cp_list p" "cp_free p1 = cp_free p" "cp_cur p1 = cp_cur p" "cp_held p1 = cp_held p" "cp_port p1 = cp_port p"
    by (subst p1, simp)+
  ultimately show ?case using rest by simp
qed simp

lemma init_accounted:
  assumes "pool_init now port n idle ks new_conn_pool = Some p" "distinct (connected ks)" "0 \<notin> set (connected ks)"
  shows "accounted p"
proof -
  obtain p1 where p1: "init_slots now (nat n) ks (new_conn_pool\<lparr>cp_port := port_string port,
      cp_idle_timeout := (if idle > 0 then idle else 60)\<rparr>) = Some p1"
    and p: "p = p1\<lparr>cp_reserve := nat (cp_free p1), cp_max := cp_free p1\<rparr>"
    using assms(1) by (auto simp: pool_init_def split: option.splits)
  have "0 \<notin> set (take (nat n) (connected ks))" using assms(3) by (meson in_set_takeD)
  then show ?thesis
    using init_slots_spec [OF p1] assms(2) unfolding p by (simp add: accounted_def handles_def new_conn_pool_def)
qed

subsection \<open>Properties\<close>

text \<open>
  Property C31. The pool keeps its books: after any calls of \<open>GetConnection\<close> and \<open>ReleaseConnection\<close>, with
  pings that fail and reconnections that succeed or fail, the maximum is the free plus the used
  connections, these numbers are those of the connections in the list and in the hands of the
  callers, the semaphore counts the list, and no connection is handed out twice or is free and in
  use. The handles the library gives out must be new.
\<close>

theorem conn_pool_accounts:
  assumes "pool_init now port n idle ks new_conn_pool = Some p0" and "distinct (connected ks)" and "0 \<notin> set (connected ks)"
  shows "let p = run_calls cs p0 in cp_max p = GetFreeConn p + cp_cur p \<and> GetFreeConn p = int (length (cp_list p))
    \<and> cp_cur p = int (length (cp_held p)) \<and> cp_reserve p = length (cp_list p) \<and> distinct (cp_list p @ cp_held p)"
  using run_calls_accounted [OF init_accounted [OF assms], of cs] by (simp add: accounted_def handles_def GetFreeConn_def Let_def)

definition two_connections :: conn_pool where
  "two_connections = the (pool_init 0 3306 2 60 [Connected 1, ConnectFails 5, Connected 2] new_conn_pool)"

text \<open>Time 100 is past the idle limit: connection 1 does not answer and is replaced by 7.\<close>

definition demo_calls :: "db_call list" where
  "demo_calls = [Get (\<lambda>h. h \<noteq> 1) (Connected 7) 100, Get (\<lambda>_. True) InitFails 100, Release (\<lambda>_. True) InitFails 101 2]"

theorem conn_pool_accounts_witness:
  "let p = run_calls demo_calls two_connections in cp_list p = [2] \<and> cp_held p = [7] \<and> cp_max p = GetFreeConn p + cp_cur p \<and> cp_max p = 2"
proof -
  have p0: "pool_init 0 3306 2 60 [Connected 1, ConnectFails 5, Connected 2] new_conn_pool = Some two_connections"
    unfolding two_connections_def
    by (simp add: pool_init_def numeral_2_eq_2 kPoolInitRetryTimes_def numeral_eq_Suc create_connection_def new_conn_pool_def)
  have "cp_list (run_calls demo_calls two_connections) = [2] \<and> cp_held (run_calls demo_calls two_connections) = [7]
    \<and> cp_max (run_calls demo_calls two_connections) = 2" by code_simp
  then show ?thesis using conn_pool_accounts [OF p0, of demo_calls] by (simp add: Let_def)
qed

text \<open>
  The pool does not recover from an outage: a connection that is found dead and cannot be
  opened again is given up for good. Once all are, every \<open>GetConnection\<close> waits for ever, whatever
  the database answers later. Here one failed call on a pool of one connection is enough.
\<close>

lemma conn_pool_never_recovers:
  "let p0 = the (pool_init 0 3306 1 60 [Connected 1] new_conn_pool);
       p = run_calls [Get (\<lambda>_. False) InitFails 100] p0
   in cp_max p = 0 \<and> GetConnection ping k now (run_calls cs p) = None"
proof -
  define p where "p = run_calls [Get (\<lambda>_. False) InitFails 100] (the (pool_init 0 3306 1 60 [Connected 1] new_conn_pool))"
  have p: "cp_max p = 0 \<and> cp_reserve p = 0 \<and> cp_held p = []" unfolding p_def by code_simp
  have "run_calls cs q = q" if "cp_reserve q = 0" "cp_held q = []" for q
    using that
  proof (induction cs arbitrary: q)
    case (Cons c cs)
    then show ?case by (cases c) (auto simp: GetConnection_def)
  qed simp
  then have "run_calls cs p = p" using p by blast
  then show ?thesis using p unfolding Let_def p_def [symmetric] by (simp add: GetConnection_def)
qed

text \<open>
  The configured port does not reach the library: \<open>m_Port\<close> becomes a string of one
  character, and for port 3307 \<open>atoi\<close> reads 0 from it, which selects the default port.
\<close>

lemma conn_pool_port_lost:
  "connect_port (the (pool_init 0 3307 1 60 [Connected 1] new_conn_pool)) = 0"
  by code_simp

end
