(* ===== verification/Log.thy ===== *)
theory Log
  imports Cstring "HOL-Library.Multiset"
begin

text \<open>
  The log of \<open>infra/log/log.h\<close> and \<open>infra/log/log.cpp\<close>: names of the files, rotation by day and
  by number of lines, formatting into a buffer of fixed size, and the asynchronous mode with
  its queue and its writer thread. The sections under the queue lock and under the file lock
  are the steps; callers and the writer thread interleave in any order. \<open>can_open\<close> says for
  which paths \<open>fopen\<close> succeeds; the text that \<open>vsnprintf\<close> would produce is an argument. Every
  line that reaches \<open>fwrite\<close> is recorded with the path of its file.
\<close>

subsection \<open>Times and names\<close>

record log_time =
  lt_year :: nat
  lt_mon :: nat
  lt_mday :: nat
  lt_hour :: nat
  lt_min :: nat
  lt_sec :: nat
  lt_usec :: nat

text \<open>\<open>%02d\<close> and \<open>%06ld\<close> for numbers that are not negative.\<close>

definition pad :: "nat \<Rightarrow> nat \<Rightarrow> string" where
  "pad w n = replicate (w - length (nat_to_string n)) (CHR ''0'') @ nat_to_string n"

text \<open>\<open>tm_year\<close> and \<open>tm_mon\<close> count from 1900 and from 0; here they are the calendar's.\<close>

definition build_dated_log_name :: "log_time \<Rightarrow> string \<Rightarrow> string \<Rightarrow> nat \<Rightarrow> string" where
  "build_dated_log_name t prefix base_name file_index =
     prefix @ take 63 (nat_to_string (lt_year t) @ ''_'' @ pad 2 (lt_mon t) @ ''_'' @ pad 2 (lt_mday t) @ ''_'') @ base_name @
     (if file_index > 0 then take 31 (''.'' @ nat_to_string file_index) else [])"

definition level_name :: "int \<Rightarrow> string" where
  "level_name level =
     (if level = 0 then ''[debug]:'' else if level = 1 then ''[info]:'' else if level = 2 then ''[warn]:''
      else if level = 3 then ''[error]:'' else ''[info]:'')"

subsection \<open>The state\<close>

text \<open>
  The writer thread: waiting for the queue lock; with a batch it has taken; after writing a
  batch of so many lines; ended. \<open>NoThread\<close>: none was started, or it has been joined.
\<close>

datatype log_worker = NoThread | WantsBatch | HasBatch "(string \<times> log_time) list" | Wrote nat | WorkerEnded

record log =
  lg_dir_name :: string
  lg_log_name :: string
  lg_split_lines :: int
  lg_log_buf_size :: int
  lg_count :: int
  lg_today :: "nat \<times> nat \<times> nat"
  lg_fp :: "string option"
  lg_log_queue :: "(string \<times> log_time) list"
  lg_max_queue_size :: nat
  lg_pending_logs :: nat
  lg_stop_requested :: bool
  lg_is_async :: bool
  lg_worker :: log_worker
  lg_close_log :: int
  lg_log_level :: int
  lg_file_index :: nat
  lg_out :: "(string \<times> string) list"

definition log_new :: log where
  "log_new =
     \<lparr>lg_dir_name = [], lg_log_name = [], lg_split_lines = 0, lg_log_buf_size = 0, lg_count = 0, lg_today = (0, 0, 0),
      lg_fp = None, lg_log_queue = [], lg_max_queue_size = 0, lg_pending_logs = 0, lg_stop_requested = False,
      lg_is_async = False, lg_worker = NoThread, lg_close_log = 0, lg_log_level = 1, lg_file_index = 0, lg_out = []\<rparr>"

definition date_of :: "log_time \<Rightarrow> nat \<times> nat \<times> nat" where
  "date_of t = (lt_year t, lt_mon t, lt_mday t)"

definition build_log_file_path :: "log_time \<Rightarrow> nat \<Rightarrow> log \<Rightarrow> string" where
  "build_log_file_path t i l = build_dated_log_name t (lg_dir_name l) (lg_log_name l) i"

definition log_fopen :: "(string \<Rightarrow> bool) \<Rightarrow> string \<Rightarrow> log \<Rightarrow> log" where
  "log_fopen can_open p l = l\<lparr>lg_fp := (if can_open p then Some p else None)\<rparr>"

definition reset_queue_locked :: "log \<Rightarrow> log" where
  "reset_queue_locked l = l\<lparr>lg_log_queue := [], lg_pending_logs := 0, lg_stop_requested := False\<rparr>"

text \<open>The part of \<open>shutdown_async\<close> after the writer thread has been joined.\<close>

definition shutdown_joined :: "log \<Rightarrow> log" where
  "shutdown_joined l = (reset_queue_locked l)\<lparr>lg_worker := NoThread, lg_is_async := False\<rparr>"

text \<open>
  \<open>init\<close> of a log without a running thread (\<open>shutdown_async\<close> then has nothing to wait for);
  \<open>thread_ok\<close>: the thread can be created.
\<close>

definition log_init ::
  "(string \<Rightarrow> bool) \<Rightarrow> bool \<Rightarrow> log_time \<Rightarrow> string option \<Rightarrow> int \<Rightarrow> int \<Rightarrow> int \<Rightarrow> int \<Rightarrow> int \<Rightarrow> log \<Rightarrow> bool \<times> log" where
  "log_init can_open thread_ok now file_name close_log log_buf_size split_lines max_queue_size log_level l =
     (let l = (shutdown_joined l)\<lparr>lg_close_log := close_log, lg_log_level := log_level,
                 lg_log_buf_size := log_buf_size, lg_split_lines := split_lines\<rparr> in
      case file_name of
        None \<Rightarrow> (False, l)
      | Some name \<Rightarrow>
          let (dir, base) = (case find_last_of ''/'' name of
                               None \<Rightarrow> ([], name)
                             | Some p \<Rightarrow> (take (Suc p) name, drop (Suc p) name));
              l = (reset_queue_locked (l\<lparr>lg_log_name := base, lg_dir_name := dir\<rparr>))
                    \<lparr>lg_max_queue_size := (if max_queue_size \<ge> 1 then nat max_queue_size else 0)\<rparr>;
              l = l\<lparr>lg_count := 0, lg_today := date_of now, lg_file_index := 0\<rparr>;
              l = log_fopen can_open (build_log_file_path now 0 l) l
          in if lg_fp l = None then (False, l)
             else if max_queue_size \<ge> 1 then
               (if thread_ok then (True, l\<lparr>lg_is_async := True, lg_worker := WantsBatch\<rparr>)
                else (False, l\<lparr>lg_is_async := False, lg_fp := None\<rparr>))
             else (True, l\<lparr>lg_is_async := False\<rparr>))"

subsection \<open>Writing to the file\<close>

definition rotate_file :: "(string \<Rightarrow> bool) \<Rightarrow> log_time \<Rightarrow> log \<Rightarrow> log" where
  "rotate_file can_open t l =
     (let l = (if lg_today l \<noteq> date_of t
               then l\<lparr>lg_today := date_of t, lg_file_index := 0, lg_count := 0\<rparr>
               else l\<lparr>lg_file_index := lg_file_index l + 1\<rparr>)
      in log_fopen can_open (build_log_file_path t (lg_file_index l) l) l)"

definition write_to_file_locked :: "(string \<Rightarrow> bool) \<Rightarrow> string \<times> log_time \<Rightarrow> log \<Rightarrow> log" where
  "write_to_file_locked can_open = (\<lambda>(data, t) l.
     if data = [] \<or> lg_fp l = None then l
     else
       let l = l\<lparr>lg_count := lg_count l + 1\<rparr>;
           l = (if lg_today l \<noteq> date_of t \<or>
                   lg_split_lines l > 0 \<and> lg_count l > 0 \<and> lg_count l mod lg_split_lines l = 0
                then rotate_file can_open t l else l)
       in case lg_fp l of None \<Rightarrow> l | Some p \<Rightarrow> l\<lparr>lg_out := lg_out l @ [(p, data)]\<rparr>)"

text \<open>
  The line as the buffer holds it: the prefix and the message, cut to the buffer, ended at a
  NUL byte, with a newline in the last place that is free.
\<close>

definition log_prefix :: "int \<Rightarrow> log_time \<Rightarrow> string" where
  "log_prefix level t =
     nat_to_string (lt_year t) @ ''-'' @ pad 2 (lt_mon t) @ ''-'' @ pad 2 (lt_mday t) @ '' '' @ pad 2 (lt_hour t) @ '':'' @
     pad 2 (lt_min t) @ '':'' @ pad 2 (lt_sec t) @ ''.'' @ pad 6 (lt_usec t) @ '' '' @ level_name level @ '' ''"

definition buffer_size :: "log \<Rightarrow> nat" where
  "buffer_size l = (if lg_log_buf_size l > 0 then nat (lg_log_buf_size l + 2) else 64)"

definition format_line :: "log \<Rightarrow> int \<Rightarrow> log_time \<Rightarrow> string \<Rightarrow> string" where
  "format_line l level t msg =
     (let size = buffer_size l;
          prefix = log_prefix level t;
          buffer = (if length prefix < size
                    then prefix @ take (size - length prefix - 1) (c_str msg)
                    else take (size - 1) prefix);
          log_len = length (take (size - 1) (c_str buffer));
          log_len = (if log_len + 1 \<ge> size then size - 2 else log_len)
      in take log_len buffer @ [LF])"

definition write_log :: "(string \<Rightarrow> bool) \<Rightarrow> int \<Rightarrow> log_time \<Rightarrow> string \<Rightarrow> log \<Rightarrow> log" where
  "write_log can_open level t msg l =
     (if lg_close_log l \<noteq> 0 \<or> level < lg_log_level l then l
      else
        let line = format_line l level t msg in
        if lg_is_async l \<and> \<not> lg_stop_requested l \<and> lg_max_queue_size l > 0 \<and>
           length (lg_log_queue l) < lg_max_queue_size l
        then l\<lparr>lg_log_queue := lg_log_queue l @ [(line, t)], lg_pending_logs := lg_pending_logs l + 1\<rparr>
        else write_to_file_locked can_open (line, t) l)"

subsection \<open>The writer thread and the shutdown\<close>

definition max_batch_size :: nat where "max_batch_size = 64"

text \<open>One section of \<open>worker_loop\<close>; \<open>None\<close>: the thread waits, or there is none.\<close>

definition log_worker_step :: "(string \<Rightarrow> bool) \<Rightarrow> log \<Rightarrow> log option" where
  "log_worker_step can_open l =
     (case lg_worker l of
        WantsBatch \<Rightarrow>
          (if lg_log_queue l = [] then
             (if lg_stop_requested l then Some (l\<lparr>lg_worker := WorkerEnded\<rparr>) else None)
           else
             let n = min max_batch_size (length (lg_log_queue l)) in
             Some (l\<lparr>lg_worker := HasBatch (take n (lg_log_queue l)), lg_log_queue := drop n (lg_log_queue l)\<rparr>))
      | HasBatch b \<Rightarrow> Some ((fold (write_to_file_locked can_open) b l)\<lparr>lg_worker := Wrote (length b)\<rparr>)
      | Wrote n \<Rightarrow> Some (l\<lparr>lg_pending_logs := lg_pending_logs l - n, lg_worker := WantsBatch\<rparr>)
      | NoThread \<Rightarrow> None
      | WorkerEnded \<Rightarrow> None)"

text \<open>
  The events of a log: a call of \<open>write_log\<close>, a section of the writer thread, the request to
  stop and the end of \<open>shutdown_async\<close>, which waits for the thread to end. \<open>flush\<close> waits until
  \<open>m_pending_logs\<close> is 0.
\<close>

datatype log_event = LWrite int log_time string | LWork | LStop | LJoin

definition log_step :: "(string \<Rightarrow> bool) \<Rightarrow> log_event \<Rightarrow> log \<Rightarrow> log option" where
  "log_step can_open e l =
     (case e of
        LWrite level t msg \<Rightarrow> Some (write_log can_open level t msg l)
      | LWork \<Rightarrow> log_worker_step can_open l
      | LStop \<Rightarrow> Some (l\<lparr>lg_stop_requested := True\<rparr>)
      | LJoin \<Rightarrow> if lg_worker l = WorkerEnded then Some (shutdown_joined l) else None)"

fun log_run :: "(string \<Rightarrow> bool) \<Rightarrow> log_event list \<Rightarrow> log \<Rightarrow> log option" where
  "log_run can_open [] l = Some l"
| "log_run can_open (e # es) l =
     (case log_step can_open e l of None \<Rightarrow> None | Some l \<Rightarrow> log_run can_open es l)"

definition flush_returns :: "log \<Rightarrow> bool" where
  "flush_returns l \<longleftrightarrow> (lg_is_async l \<longrightarrow> lg_pending_logs l = 0)"

subsection \<open>A line fits its buffer\<close>

lemma format_line_length:
  "length (format_line l level t msg) \<le> buffer_size l - 1 \<and> last (format_line l level t msg) = LF"
proof -
  have "3 \<le> buffer_size l" by (auto simp: buffer_size_def)
  then show ?thesis by (auto simp: format_line_def Let_def)
qed

lemma format_line_not_Nil [simp]: "format_line l level t msg \<noteq> []"
  by (simp add: format_line_def Let_def)

subsection \<open>No line is lost\<close>

text \<open>What the steps on the file leave alone.\<close>

definition same_queue :: "log \<Rightarrow> log \<Rightarrow> bool" where
  "same_queue l l' \<longleftrightarrow>
     lg_log_queue l' = lg_log_queue l \<and> lg_pending_logs l' = lg_pending_logs l \<and>
     lg_stop_requested l' = lg_stop_requested l \<and> lg_is_async l' = lg_is_async l \<and> lg_worker l' = lg_worker l \<and>
     lg_max_queue_size l' = lg_max_queue_size l \<and> lg_close_log l' = lg_close_log l \<and>
     lg_log_level l' = lg_log_level l \<and> lg_log_buf_size l' = lg_log_buf_size l"

lemma write_to_file_open:
  assumes "lg_fp l \<noteq> None" and "fst x \<noteq> []"
  shows "lg_fp (write_to_file_locked (\<lambda>_. True) x l) \<noteq> None \<and>
         map snd (lg_out (write_to_file_locked (\<lambda>_. True) x l)) = map snd (lg_out l) @ [fst x] \<and>
         same_queue l (write_to_file_locked (\<lambda>_. True) x l)"
  using assms
  by (cases x) (auto simp: write_to_file_locked_def rotate_file_def log_fopen_def Let_def same_queue_def)

lemma write_batch_open:
  "lg_fp l \<noteq> None \<Longrightarrow> \<forall>x \<in> set b. fst x \<noteq> [] \<Longrightarrow>
   lg_fp (fold (write_to_file_locked (\<lambda>_. True)) b l) \<noteq> None \<and>
   map snd (lg_out (fold (write_to_file_locked (\<lambda>_. True)) b l)) = map snd (lg_out l) @ map fst b \<and>
   same_queue l (fold (write_to_file_locked (\<lambda>_. True)) b l)"
proof (induction b arbitrary: l)
  case Nil
  then show ?case by (simp add: same_queue_def)
next
  case (Cons x b)
  have w: "lg_fp (write_to_file_locked (\<lambda>_. True) x l) \<noteq> None"
    "map snd (lg_out (write_to_file_locked (\<lambda>_. True) x l)) = map snd (lg_out l) @ [fst x]"
    "same_queue l (write_to_file_locked (\<lambda>_. True) x l)"
    using write_to_file_open [OF Cons.prems(1), of x] Cons.prems(2) by auto
  from Cons.IH [OF w(1)] Cons.prems(2) w show ?case by (auto simp: same_queue_def)
qed

text \<open>The lines that callers ask for, by the settings of the log.\<close>

definition asked :: "log \<Rightarrow> log_event \<Rightarrow> string list" where
  "asked l e =
     (case e of
        LWrite level t msg \<Rightarrow>
          if lg_close_log l \<noteq> 0 \<or> level < lg_log_level l then [] else [format_line l level t msg]
      | _ \<Rightarrow> [])"

definition lines_asked :: "log \<Rightarrow> log_event list \<Rightarrow> string list" where
  "lines_asked l es = concat (map (asked l) es)"

definition batch_of :: "log \<Rightarrow> (string \<times> log_time) list" where
  "batch_of l = (case lg_worker l of HasBatch b \<Rightarrow> b | _ \<Rightarrow> [])"

definition in_flight :: "log \<Rightarrow> nat" where
  "in_flight l = (case lg_worker l of HasBatch b \<Rightarrow> length b | Wrote n \<Rightarrow> n | _ \<Rightarrow> 0)"

text \<open>The lines in the files, in the batch of the writer and in the queue, in this order.\<close>

definition lines_of :: "log \<Rightarrow> string list" where
  "lines_of l = map snd (lg_out l) @ map fst (batch_of l) @ map fst (lg_log_queue l)"

definition same_settings :: "log \<Rightarrow> log \<Rightarrow> bool" where
  "same_settings l0 l \<longleftrightarrow>
     lg_close_log l = lg_close_log l0 \<and> lg_log_level l = lg_log_level l0 \<and>
     lg_log_buf_size l = lg_log_buf_size l0 \<and> lg_max_queue_size l = lg_max_queue_size l0"

definition log_ok :: "log \<Rightarrow> log \<Rightarrow> bool" where
  "log_ok l0 l \<longleftrightarrow>
     same_settings l0 l \<and> lg_fp l \<noteq> None \<and> lg_pending_logs l = in_flight l + length (lg_log_queue l) \<and>
     length (lg_log_queue l) \<le> lg_max_queue_size l \<and>
     (\<forall>x \<in> set (batch_of l) \<union> set (lg_log_queue l). fst x \<noteq> []) \<and>
     (lg_worker l = WorkerEnded \<longrightarrow> lg_log_queue l = [] \<and> lg_stop_requested l) \<and>
     (lg_worker l = NoThread \<longrightarrow> lg_log_queue l = [] \<and> \<not> lg_is_async l)"

lemma format_line_settings: "lg_log_buf_size l = lg_log_buf_size l0 \<Longrightarrow> format_line l = format_line l0"
  unfolding format_line_def buffer_size_def by (simp only:)

lemma asked_settings: "same_settings l0 l \<Longrightarrow> asked l e = asked l0 e"
  unfolding same_settings_def asked_def using format_line_settings [of l l0] by (simp split: log_event.splits)

text \<open>A call of \<open>write_log\<close>: the line is at the end of the queue, or in a file ahead of the queue.\<close>

lemma write_log_step:
  assumes ok: "log_ok l0 l"
  shows "log_ok l0 (write_log (\<lambda>_. True) level t msg l) \<and>
     mset (lines_of (write_log (\<lambda>_. True) level t msg l)) = mset (lines_of l) + mset (asked l0 (LWrite level t msg)) \<and>
     (lg_is_async l \<longrightarrow> \<not> lg_stop_requested l \<longrightarrow> length (lg_log_queue l) < lg_max_queue_size l \<longrightarrow>
        lines_of (write_log (\<lambda>_. True) level t msg l) = lines_of l @ asked l0 (LWrite level t msg))"
proof -
  let ?x = "(format_line l level t msg, t)"
  have as: "asked l0 (LWrite level t msg) =
      (if lg_close_log l \<noteq> 0 \<or> level < lg_log_level l then [] else [fst ?x])"
  proof -
    have "same_settings l0 l" using ok by (simp add: log_ok_def)
    then have "asked l0 (LWrite level t msg) = asked l (LWrite level t msg)" by (simp only: asked_settings)
    then show ?thesis by (simp add: asked_def)
  qed
  show ?thesis
  proof (cases "lg_close_log l \<noteq> 0 \<or> level < lg_log_level l")
    case True
    with ok as show ?thesis by (auto simp: write_log_def)
  next
    case False
    show ?thesis
    proof (cases "lg_is_async l \<and> \<not> lg_stop_requested l \<and> lg_max_queue_size l > 0 \<and>
           length (lg_log_queue l) < lg_max_queue_size l")
      case True
      with ok as False show ?thesis
        by (auto simp: write_log_def Let_def log_ok_def same_settings_def lines_of_def batch_of_def in_flight_def)
    next
      case sync: False
      have "write_log (\<lambda>_. True) level t msg l = write_to_file_locked (\<lambda>_. True) ?x l"
        using False sync by (auto simp: write_log_def Let_def)
      with write_to_file_open [of l ?x] ok as False sync show ?thesis
        by (auto simp: log_ok_def same_settings_def same_queue_def lines_of_def batch_of_def in_flight_def)
    qed
  qed
qed

text \<open>The writer thread only moves lines, and keeps their order.\<close>

lemma worker_step_lines:
  assumes ok: "log_ok l0 l" and step: "log_worker_step (\<lambda>_. True) l = Some l'"
  shows "log_ok l0 l' \<and> lines_of l' = lines_of l \<and> lg_is_async l' = lg_is_async l \<and>
         lg_stop_requested l' = lg_stop_requested l \<and> length (lg_log_queue l') \<le> length (lg_log_queue l)"
proof (cases "lg_worker l")
  case (HasBatch b)
  have "\<forall>x \<in> set b. fst x \<noteq> []" using ok HasBatch by (simp add: log_ok_def batch_of_def)
  with write_batch_open [of l b] ok HasBatch step show ?thesis
    by (auto simp: log_worker_step_def log_ok_def same_settings_def same_queue_def lines_of_def batch_of_def in_flight_def)
next
  case WantsBatch
  show ?thesis
  proof (cases "lg_log_queue l = []")
    case True
    with WantsBatch ok step show ?thesis
      by (auto simp: log_worker_step_def log_ok_def same_settings_def lines_of_def batch_of_def in_flight_def split: if_splits)
  next
    case False
    define n where "n = min max_batch_size (length (lg_log_queue l))"
    have l': "l' = l\<lparr>lg_worker := HasBatch (take n (lg_log_queue l)), lg_log_queue := drop n (lg_log_queue l)\<rparr>"
      using False WantsBatch step by (simp add: log_worker_step_def Let_def n_def)
    have "set (take n (lg_log_queue l)) \<union> set (drop n (lg_log_queue l)) = set (lg_log_queue l)"
      by (metis append_take_drop_id set_append)
    moreover have "map fst (take n (lg_log_queue l)) @ map fst (drop n (lg_log_queue l)) = map fst (lg_log_queue l)"
      by (metis append_take_drop_id map_append)
    moreover have "length (take n (lg_log_queue l)) + length (drop n (lg_log_queue l)) = length (lg_log_queue l)"
      by (simp add: n_def)
    ultimately show ?thesis using ok WantsBatch
      by (simp add: l' log_ok_def same_settings_def lines_of_def batch_of_def in_flight_def)
  qed
next
  case (Wrote n)
  with ok step show ?thesis
    by (auto simp: log_worker_step_def log_ok_def same_settings_def lines_of_def batch_of_def in_flight_def)
qed (use step in \<open>auto simp: log_worker_step_def\<close>)

lemma log_step_ok:
  assumes ok: "log_ok l0 l" and step: "log_step (\<lambda>_. True) e l = Some l'"
  shows "log_ok l0 l' \<and> mset (lines_of l') = mset (lines_of l) + mset (asked l0 e)"
proof (cases e)
  case (LWrite level t msg)
  with write_log_step [OF ok, of level t msg] step show ?thesis by (simp add: log_step_def)
next
  case LWork
  with worker_step_lines [OF ok, of l'] step show ?thesis by (simp add: log_step_def asked_def)
next
  case LStop
  have "batch_of (l\<lparr>lg_stop_requested := True\<rparr>) = batch_of l" "in_flight (l\<lparr>lg_stop_requested := True\<rparr>) = in_flight l"
    by (simp_all add: batch_of_def in_flight_def)
  with LStop ok step show ?thesis
    by (auto simp: log_step_def log_ok_def same_settings_def lines_of_def asked_def)
next
  case LJoin
  with ok step show ?thesis
    by (auto simp: log_step_def log_ok_def same_settings_def lines_of_def batch_of_def in_flight_def asked_def
        shutdown_joined_def reset_queue_locked_def split: if_splits)
qed

lemma log_run_ok:
  "log_run (\<lambda>_. True) es l = Some l' \<Longrightarrow> log_ok l0 l \<Longrightarrow>
   log_ok l0 l' \<and> mset (lines_of l') = mset (lines_of l) + mset (lines_asked l0 es)"
proof (induction es arbitrary: l)
  case Nil
  then show ?case by (simp add: lines_asked_def)
next
  case (Cons e es)
  then obtain l1 where l1: "log_step (\<lambda>_. True) e l = Some l1" "log_run (\<lambda>_. True) es l1 = Some l'"
    by (auto split: option.splits)
  from log_step_ok [OF Cons.prems(2) l1(1)] Cons.IH [OF l1(2)] show ?case
    by (auto simp: lines_asked_def)
qed

text \<open>Without a stop and with room for all lines in the queue, the order is kept too.\<close>

lemma queued_step:
  assumes ok: "log_ok l0 l" and step: "log_step (\<lambda>_. True) e l = Some l1"
    and async: "lg_is_async l" "\<not> lg_stop_requested l"
    and e: "e \<noteq> LStop" "e \<noteq> LJoin" and room: "length (lg_log_queue l) + length (asked l0 e) \<le> lg_max_queue_size l"
  shows "lines_of l1 = lines_of l @ asked l0 e \<and> lg_is_async l1 \<and> \<not> lg_stop_requested l1 \<and>
      length (lg_log_queue l1) \<le> length (lg_log_queue l) + length (asked l0 e)"
proof (cases e)
  case (LWrite level t msg)
  have l1: "l1 = write_log (\<lambda>_. True) level t msg l" using LWrite step by (simp add: log_step_def)
  have "same_settings l0 l" using ok by (simp add: log_ok_def)
  then have as: "asked l0 e = asked l e" by (simp only: asked_settings)
  show ?thesis
  proof (cases "lg_close_log l \<noteq> 0 \<or> level < lg_log_level l")
    case True
    with l1 as LWrite async show ?thesis by (auto simp: write_log_def asked_def)
  next
    case False
    then have "length (lg_log_queue l) < lg_max_queue_size l" using room as LWrite by (simp add: asked_def)
    with False l1 as LWrite async show ?thesis
      by (simp add: write_log_def Let_def asked_def lines_of_def batch_of_def)
  qed
next
  case LWork
  with worker_step_lines [OF ok, of l1] step async show ?thesis
    by (simp add: log_step_def asked_def)
qed (use e in simp_all)

lemma log_run_ordered:
  "log_run (\<lambda>_. True) es l = Some l' \<Longrightarrow> log_ok l0 l \<Longrightarrow> lg_is_async l \<Longrightarrow> \<not> lg_stop_requested l \<Longrightarrow>
   LStop \<notin> set es \<Longrightarrow> LJoin \<notin> set es \<Longrightarrow> length (lg_log_queue l) + length (lines_asked l0 es) \<le> lg_max_queue_size l0 \<Longrightarrow>
   lines_of l' = lines_of l @ lines_asked l0 es"
proof (induction es arbitrary: l)
  case Nil
  then show ?case by (simp add: lines_asked_def)
next
  case (Cons e es)
  then obtain l1 where l1: "log_step (\<lambda>_. True) e l = Some l1" "log_run (\<lambda>_. True) es l1 = Some l'"
    by (auto split: option.splits)
  have max: "lg_max_queue_size l = lg_max_queue_size l0" using Cons.prems(2) by (simp add: log_ok_def same_settings_def)
  have "log_ok l0 l1" using log_step_ok [OF Cons.prems(2) l1(1)] by simp
  moreover have "lines_of l1 = lines_of l @ asked l0 e \<and> lg_is_async l1 \<and> \<not> lg_stop_requested l1 \<and>
      length (lg_log_queue l1) \<le> length (lg_log_queue l) + length (asked l0 e)"
    using queued_step [OF Cons.prems(2) l1(1) Cons.prems(3,4)] Cons.prems(5,6,7) max
    by (auto simp: lines_asked_def)
  ultimately show ?case using Cons.IH [OF l1(2)] Cons.prems(5,6,7) by (simp add: lines_asked_def)
qed

lemma log_init_ok:
  assumes "log_init (\<lambda>_. True) True now (Some name) closed bufsz splt q level log_new = (True, l0)" "q \<ge> 1"
  shows "log_ok l0 l0 \<and> lines_of l0 = [] \<and> lg_is_async l0 \<and> \<not> lg_stop_requested l0 \<and> lg_log_queue l0 = [] \<and>
         lg_max_queue_size l0 = nat q"
  using assms
  by (auto simp: log_init_def log_new_def shutdown_joined_def reset_queue_locked_def log_fopen_def log_ok_def
      same_settings_def lines_of_def batch_of_def in_flight_def Let_def split: prod.splits)

subsection \<open>Properties\<close>


definition noon :: log_time where
  "noon = \<lparr>lt_year = 2025, lt_mon = 1, lt_mday = 2, lt_hour = 12, lt_min = 0, lt_sec = 0, lt_usec = 0\<rparr>"

definition sample_log :: "bool \<times> log" where
  "sample_log = log_init (\<lambda>_. True) True noon (Some ''./ServerLog'') 0 100 800000 2 1 log_new"


text \<open>
  When the queue is full, the line is written at once, ahead of the lines that wait in the
  queue: the file is no longer in order.
\<close>

lemma full_queue_reorders:
  assumes "log_ok l0 l" "lg_is_async l" "lg_log_queue l = (x, t') # rest" "length (lg_log_queue l) = lg_max_queue_size l"
    and "lg_close_log l = 0" "level \<ge> lg_log_level l"
  shows "map snd (lg_out (write_log (\<lambda>_. True) level t msg l)) = map snd (lg_out l) @ [format_line l level t msg] \<and>
         lg_log_queue (write_log (\<lambda>_. True) level t msg l) = (x, t') # rest"
proof -
  have "write_log (\<lambda>_. True) level t msg l = write_to_file_locked (\<lambda>_. True) (format_line l level t msg, t) l"
    using assms by (simp add: write_log_def Let_def)
  with write_to_file_open [of l "(format_line l level t msg, t)"] assms show ?thesis
    by (simp add: log_ok_def same_queue_def)
qed

text \<open>
  A file that cannot be opened at a rotation leaves no file at all; since the rotation is only
  tried with an open file, every later line is dropped.
\<close>

lemma closed_log_stays_closed:
  assumes "lg_fp l = None"
  shows "fold (write_to_file_locked can_open) xs l = l"
  using assms by (induction xs) (auto simp: write_to_file_locked_def)

end
