(* ===== verification/Heap_Timer.thy ===== *)
theory Heap_Timer
  imports Prelude "HOL-Library.Multiset"
begin

text \<open>
  The connection timers of a reactor: \<open>HeapTimer\<close> (src/infra/timer/heap_timer.h and
  heap_timer.cpp), a binary heap of \<open>TimerNode\<close> ordered by expiry with an index from socket to
  heap position. \<open>m_index\<close>, an \<open>unordered_map\<close>, is a finite map; \<open>time(nullptr)\<close> is an
  argument; \<open>time_t\<close> is unbounded here, the narrowing of the wait time to \<open>int\<close> is kept.

  The heap implements the abstract map from sockets to expiry times \<open>alarms\<close>: adding or
  updating a timer is a map update, removing one deletes the key, the front node is an earliest
  alarm. The callback of \<open>tick\<close> may change the timers, as the reactor's does, so the loop is a
  partial function whose termination is proved for the callbacks that re-arm into the future.
\<close>

subsection \<open>The model\<close>

record timer_node =
  sockfd :: int
  expire :: int

record heap_timer =
  m_heap :: "timer_node list"
  m_index :: "int \<rightharpoonup> nat"

definition swap_node :: "nat \<Rightarrow> nat \<Rightarrow> heap_timer \<Rightarrow> heap_timer" where
  "swap_node lhs rhs t =
     (let h = (m_heap t)[lhs := m_heap t ! rhs, rhs := m_heap t ! lhs]
      in t\<lparr>m_heap := h,
           m_index := (m_index t)(sockfd (h ! lhs) \<mapsto> lhs, sockfd (h ! rhs) \<mapsto> rhs)\<rparr>)"

definition parent_of :: "nat \<Rightarrow> nat" where "parent_of index = (index - 1) div 2"

lemma parent_less: "0 < i \<Longrightarrow> parent_of i < i"
  by (auto simp: parent_of_def)

lemma parent_le: "i < n \<Longrightarrow> parent_of i < n"
  by (auto simp: parent_of_def)

lemma parent_eq_iff: "0 < j \<Longrightarrow> parent_of j = i \<longleftrightarrow> j = i * 2 + 1 \<or> j = i * 2 + 2"
  by (auto simp: parent_of_def)

function sift_up :: "nat \<Rightarrow> heap_timer \<Rightarrow> bool \<times> heap_timer" where
  "sift_up index t =
     (if index > 0 then
        let parent = parent_of index in
        if expire (m_heap t ! parent) \<le> expire (m_heap t ! index) then (False, t)
        else (True, snd (sift_up parent (swap_node parent index t)))
      else (False, t))"
  by pat_completeness auto
termination
  by (relation "measure fst") (auto simp: parent_less)

declare sift_up.simps [simp del]

text \<open>The child that \<open>sift_down\<close> exchanges with, or \<open>index\<close> itself when it stops.\<close>

definition smallest_child :: "timer_node list \<Rightarrow> nat \<Rightarrow> nat" where
  "smallest_child h index =
     (let left = index * 2 + 1;
          right = left + 1;
          s1 = (if left < length h \<and> expire (h ! left) < expire (h ! index) then left else index)
      in if right < length h \<and> expire (h ! right) < expire (h ! s1) then right else s1)"

lemma length_swap_node [simp]: "length (m_heap (swap_node a b t)) = length (m_heap t)"
  by (simp add: swap_node_def Let_def)

lemma smallest_child_cases:
  "smallest_child h i = i \<or> smallest_child h i < length h \<and> i < smallest_child h i
     \<and> (smallest_child h i = i * 2 + 1 \<or> smallest_child h i = i * 2 + 2)"
  by (auto simp: smallest_child_def Let_def)

function sift_down :: "nat \<Rightarrow> heap_timer \<Rightarrow> heap_timer" where
  "sift_down index t =
     (let smallest = smallest_child (m_heap t) index in
      if smallest = index then t else sift_down smallest (swap_node index smallest t))"
  by pat_completeness auto
termination
proof (relation "measure (\<lambda>(index, t). length (m_heap t) - index)")
  fix index x and t :: heap_timer
  assume "x = smallest_child (m_heap t) index" "x \<noteq> index"
  then show "((x, swap_node index x t), index, t) \<in> measure (\<lambda>(index, t). length (m_heap t) - index)"
    using smallest_child_cases [of "m_heap t" index] by auto
qed simp

declare sift_down.simps [simp del]

definition sift_at :: "nat \<Rightarrow> heap_timer \<Rightarrow> heap_timer" where
  "sift_at index t = (let (moved, t') = sift_up index t in if moved then t' else sift_down index t')"

definition delete_at :: "nat \<Rightarrow> heap_timer \<Rightarrow> heap_timer" where
  "delete_at index t =
     (let last = length (m_heap t) - 1;
          sock = sockfd (m_heap t ! index);
          t1 = (if index \<noteq> last then swap_node index last t else t);
          t2 = t1\<lparr>m_index := (m_index t1)(sock := None), m_heap := butlast (m_heap t1)\<rparr>
      in if index \<ge> length (m_heap t2) then t2 else sift_at index t2)"

definition add_or_update :: "int \<Rightarrow> int \<Rightarrow> int \<Rightarrow> heap_timer \<Rightarrow> heap_timer" where
  "add_or_update now sock timeout t =
     (case m_index t sock of
        None \<Rightarrow>
          let h = m_heap t @ [\<lparr>sockfd = sock, expire = now + timeout\<rparr>];
              index = length h - 1
          in snd (sift_up index (t\<lparr>m_heap := h, m_index := (m_index t)(sock \<mapsto> index)\<rparr>))
      | Some index \<Rightarrow>
          sift_at index (t\<lparr>m_heap := (m_heap t)[index := (m_heap t ! index)\<lparr>expire := now + timeout\<rparr>]\<rparr>))"

definition remove_timer :: "int \<Rightarrow> heap_timer \<Rightarrow> heap_timer" where
  "remove_timer sock t = (case m_index t sock of None \<Rightarrow> t | Some index \<Rightarrow> delete_at index t)"

definition get_next_timeout_ms :: "int \<Rightarrow> heap_timer \<Rightarrow> int" where
  "get_next_timeout_ms now t =
     (if m_heap t = [] then - 1
      else if expire (m_heap t ! 0) \<le> now then 0
      else narrow_int ((expire (m_heap t ! 0) - now) * 1000))"

text \<open>
  The loop of \<open>tick\<close>. The callback gets the socket, the timers and the rest of the program's
  state, which it may both change; \<open>None\<close> is a loop that does not end.
\<close>

partial_function (option) tick_loop ::
  "(int \<Rightarrow> heap_timer \<times> 'e \<Rightarrow> heap_timer \<times> 'e) \<Rightarrow> int \<Rightarrow> heap_timer \<Rightarrow> 'e \<Rightarrow> (heap_timer \<times> 'e) option"
  where [code]:
  "tick_loop on_expire now t e =
     (if m_heap t = [] then Some (t, e)
      else let node = m_heap t ! 0 in
           if expire node > now then Some (t, e)
           else let (t', e') = on_expire (sockfd node) (delete_at 0 t, e)
                in tick_loop on_expire now t' e')"

definition tick ::
  "(int \<Rightarrow> heap_timer \<times> 'e \<Rightarrow> heap_timer \<times> 'e) option \<Rightarrow> int \<Rightarrow> heap_timer \<Rightarrow> 'e \<Rightarrow> (heap_timer \<times> 'e) option"
  where
  "tick on_expire now t e = (case on_expire of None \<Rightarrow> Some (t, e) | Some f \<Rightarrow> tick_loop f now t e)"

subsection \<open>Invariants\<close>

definition edge_ok :: "timer_node list \<Rightarrow> nat \<Rightarrow> bool" where
  "edge_ok h j \<longleftrightarrow> expire (h ! parent_of j) \<le> expire (h ! j)"

definition heap_order :: "timer_node list \<Rightarrow> bool" where
  "heap_order h \<longleftrightarrow> (\<forall>j < length h. 0 < j \<longrightarrow> edge_ok h j)"

definition index_ok :: "heap_timer \<Rightarrow> bool" where
  "index_ok t \<longleftrightarrow> (\<forall>i < length (m_heap t). m_index t (sockfd (m_heap t ! i)) = Some i)
     \<and> dom (m_index t) = sockfd ` set (m_heap t)"

definition timer_ok :: "heap_timer \<Rightarrow> bool" where
  "timer_ok t \<longleftrightarrow> heap_order (m_heap t) \<and> index_ok t"

text \<open>The heap order with a hole at \<open>i\<close>: only the edges at \<open>i\<close> may be wrong.\<close>

definition hole_order :: "timer_node list \<Rightarrow> nat \<Rightarrow> bool" where
  "hole_order h i \<longleftrightarrow>
     (\<forall>j < length h. 0 < j \<longrightarrow> j \<noteq> i \<longrightarrow> parent_of j \<noteq> i \<longrightarrow> edge_ok h j)
     \<and> (\<forall>j < length h. 0 < j \<longrightarrow> parent_of j = i \<longrightarrow> 0 < i \<longrightarrow> expire (h ! parent_of i) \<le> expire (h ! j))"

definition alarms :: "heap_timer \<Rightarrow> int \<rightharpoonup> int" where
  "alarms t = map_of (map (\<lambda>n. (sockfd n, expire n)) (m_heap t))"

lemma index_ok_distinct:
  assumes "index_ok t" shows "distinct (map sockfd (m_heap t))"
proof (rule distinct_conv_nth [THEN iffD2], intro allI impI)
  fix i j assume "i < length (map sockfd (m_heap t))" "j < length (map sockfd (m_heap t))" "i \<noteq> j"
  then show "map sockfd (m_heap t) ! i \<noteq> map sockfd (m_heap t) ! j"
    using assms unfolding index_ok_def by (metis length_map nth_map option.inject)
qed

lemma index_ok_lookup:
  assumes "index_ok t" "m_index t s = Some i"
  shows "i < length (m_heap t) \<and> sockfd (m_heap t ! i) = s"
proof -
  have "s \<in> sockfd ` set (m_heap t)" using assms unfolding index_ok_def by blast
  then obtain k where "k < length (m_heap t)" "sockfd (m_heap t ! k) = s"
    by (auto simp: in_set_conv_nth)
  then show ?thesis using assms unfolding index_ok_def by force
qed

lemma index_ok_None: "index_ok t \<Longrightarrow> m_index t s = None \<longleftrightarrow> s \<notin> sockfd ` set (m_heap t)"
  unfolding index_ok_def by auto

lemma swap_node_heap:
  "m_heap (swap_node a b t) = (m_heap t)[a := m_heap t ! b, b := m_heap t ! a]"
  by (simp add: swap_node_def Let_def)

lemma mset_swap_node [simp]:
  "a < length (m_heap t) \<Longrightarrow> b < length (m_heap t) \<Longrightarrow> mset (m_heap (swap_node a b t)) = mset (m_heap t)"
  by (simp add: swap_node_heap mset_swap)

lemma index_ok_swap_node:
  assumes ok: "index_ok t" and a: "a < length (m_heap t)" and b: "b < length (m_heap t)"
  shows "index_ok (swap_node a b t)"
proof -
  let ?h = "(m_heap t)[a := m_heap t ! b, b := m_heap t ! a]"
  have dist: "distinct (map sockfd (m_heap t))" using ok by (rule index_ok_distinct)
  have inj: "sockfd (m_heap t ! i) = sockfd (m_heap t ! j) \<longleftrightarrow> i = j"
    if "i < length (m_heap t)" "j < length (m_heap t)" for i j
    using nth_eq_iff_index_eq [OF dist] that by simp
  have idx: "m_index (swap_node a b t)
      = (m_index t)(sockfd (m_heap t ! b) \<mapsto> a, sockfd (m_heap t ! a) \<mapsto> b)"
    using a b by (cases "a = b") (simp_all add: swap_node_def Let_def)
  have "m_index (swap_node a b t) (sockfd (?h ! i)) = Some i" if "i < length (m_heap t)" for i
    using ok that a b inj unfolding idx by (auto simp: nth_list_update index_ok_def)
  moreover have "set ?h = set (m_heap t)" using a b by (metis mset_swap set_mset_mset)
  moreover have "dom (m_index (swap_node a b t)) = sockfd ` set (m_heap t)"
    using ok a b unfolding idx index_ok_def by auto
  ultimately show ?thesis by (simp add: index_ok_def swap_node_heap)
qed


lemma sift_up_mset:
  "i < length (m_heap t) \<Longrightarrow> mset (m_heap (snd (sift_up i t))) = mset (m_heap t)"
proof (induction i t rule: sift_up.induct)
  case (1 i t)
  then show ?case by (subst sift_up.simps) (auto simp: Let_def parent_le)
qed

lemma sift_up_index:
  "i < length (m_heap t) \<Longrightarrow> index_ok t \<Longrightarrow> index_ok (snd (sift_up i t))"
proof (induction i t rule: sift_up.induct)
  case (1 i t)
  have p: "parent_of i < length (m_heap t)" using 1(2) by (rule parent_le)
  show ?case
    using 1 index_ok_swap_node [OF 1(3) p 1(2)] p by (subst sift_up.simps) (simp add: Let_def)
qed

lemma sift_down_mset: "i < length (m_heap t) \<Longrightarrow> mset (m_heap (sift_down i t)) = mset (m_heap t)"
proof (induction i t rule: sift_down.induct)
  case (1 i t)
  then show ?case
    using smallest_child_cases [of "m_heap t" i] by (subst sift_down.simps) (auto simp: Let_def)
qed

lemma sift_down_index: "i < length (m_heap t) \<Longrightarrow> index_ok t \<Longrightarrow> index_ok (sift_down i t)"
proof (induction i t rule: sift_down.induct)
  case (1 i t)
  then show ?case
    using smallest_child_cases [of "m_heap t" i]
    by (subst sift_down.simps) (auto simp: Let_def intro: index_ok_swap_node)
qed

text \<open>
  Sifting up from a hole whose own children are in order leads to a heap; so does sifting down
  from a hole that is in order with its parent.
\<close>

definition up_order :: "timer_node list \<Rightarrow> nat \<Rightarrow> bool" where
  "up_order h i \<longleftrightarrow> hole_order h i \<and> (\<forall>j < length h. 0 < j \<longrightarrow> parent_of j = i \<longrightarrow> edge_ok h j)"

definition down_order :: "timer_node list \<Rightarrow> nat \<Rightarrow> bool" where
  "down_order h i \<longleftrightarrow> hole_order h i \<and> (0 < i \<longrightarrow> i < length h \<longrightarrow> edge_ok h i)"

lemma up_order_swap:
  assumes h: "up_order h i" and i: "i < length h" "0 < i"
    and gt: "expire (h ! parent_of i) > expire (h ! i)"
  shows "up_order (h[parent_of i := h ! i, i := h ! parent_of i]) (parent_of i)"
proof -
  let ?p = "parent_of i" let ?g = "h[?p := h ! i, i := h ! ?p]"
  have p: "?p < i" "?p < length h" using i by (auto simp: parent_less parent_le)
  have nth: "?g ! k = (if k = i then h ! ?p else if k = ?p then h ! i else h ! k)" if "k < length h" for k
    using that p i by (auto simp: nth_list_update)
  have edge: "\<And>j. j < length h \<Longrightarrow> 0 < j \<Longrightarrow> j \<noteq> i \<Longrightarrow> edge_ok h j"
    and grand: "\<And>j. j < length h \<Longrightarrow> 0 < j \<Longrightarrow> parent_of j = i \<Longrightarrow> expire (h ! ?p) \<le> expire (h ! j)"
    using h i unfolding up_order_def hole_order_def by blast+
  have pj: "parent_of j < length h" if "j < length h" for j using that by (rule parent_le)
  have same: "edge_ok ?g j" if j: "j < length h" "0 < j" "j \<noteq> ?p" for j
  proof -
    consider "j = i" | "parent_of j = i" | "j \<noteq> i" "parent_of j = ?p" | "j \<noteq> i" "parent_of j \<noteq> i" "parent_of j \<noteq> ?p"
      by blast
    then show ?thesis
    proof cases
      case 1
      then show ?thesis using gt p nth [OF j(1)] nth [OF p(2)] by (simp add: edge_ok_def)
    next
      case 2
      moreover have "j \<noteq> i" using 2 parent_less [OF j(2)] by simp
      ultimately show ?thesis
        using grand [OF j(1,2) 2] nth [OF j(1)] nth [OF i(1)] j by (simp add: edge_ok_def)
    next
      case 3
      then show ?thesis using edge [OF j(1,2) 3(1)] gt j p nth [OF j(1)] nth [OF p(2)] by (simp add: edge_ok_def)
    next
      case 4
      then show ?thesis using edge [OF j(1,2) 4(1)] j nth [OF j(1)] nth [OF pj [OF j(1)]] by (simp add: edge_ok_def)
    qed
  qed
  moreover have "expire (?g ! parent_of ?p) \<le> expire (?g ! j)"
    if j: "j < length h" "0 < j" "parent_of j = ?p" "0 < ?p" for j
  proof -
    have pp: "parent_of ?p < length h" "parent_of ?p \<noteq> i" "parent_of ?p \<noteq> ?p"
      using p parent_less [OF j(4)] by linarith+
    have up: "expire (h ! parent_of ?p) \<le> expire (h ! ?p)"
      using edge [of ?p] p j(4) by (simp add: edge_ok_def)
    show ?thesis
    proof (cases "j = i")
      case False
      moreover have "j \<noteq> ?p" using j(3) parent_less [OF j(2)] by simp
      moreover have "expire (h ! ?p) \<le> expire (h ! j)"
        using edge [OF j(1,2) False] j(3) by (simp add: edge_ok_def)
      ultimately show ?thesis using up nth [OF j(1)] nth [OF pp(1)] pp by simp
    qed (use up nth [OF j(1)] nth [OF pp(1)] pp in simp)
  qed
  ultimately show ?thesis
    unfolding up_order_def hole_order_def by auto (metis less_irrefl parent_less)
qed

lemma sift_up_heap:
  "i < length (m_heap t) \<Longrightarrow> up_order (m_heap t) i \<Longrightarrow> heap_order (m_heap (snd (sift_up i t)))"
proof (induction i t rule: sift_up.induct)
  case (1 i t)
  have all: "heap_order (m_heap t)" if "0 < i \<longrightarrow> edge_ok (m_heap t) i"
    using 1(3) that unfolding up_order_def hole_order_def heap_order_def by blast
  show ?case
  proof (cases "0 < i \<and> expire (m_heap t ! parent_of i) > expire (m_heap t ! i)")
    case True
    have "up_order (m_heap (swap_node (parent_of i) i t)) (parent_of i)"
      unfolding swap_node_heap using up_order_swap [of "m_heap t" i] True 1(2,3) by simp
    moreover have "parent_of i < length (m_heap (swap_node (parent_of i) i t))"
      using 1(2) by (simp add: parent_le)
    ultimately show ?thesis
      using 1(1) [OF _ refl] True by (subst sift_up.simps) (simp add: Let_def)
  next
    case False
    then show ?thesis using all by (subst sift_up.simps) (auto simp: Let_def edge_ok_def)
  qed
qed


lemma smallest_child_le:
  assumes "j < length h" "0 < j" "parent_of j = i"
  shows "expire (h ! smallest_child h i) \<le> expire (h ! j)"
    and "smallest_child h i = i \<Longrightarrow> edge_ok h j"
proof -
  have "j = i * 2 + 1 \<or> j = i * 2 + 2" using assms parent_eq_iff by blast
  then show "expire (h ! smallest_child h i) \<le> expire (h ! j)"
    using assms(1) by (auto simp: smallest_child_def Let_def)
  then show "smallest_child h i = i \<Longrightarrow> edge_ok h j"
    using assms(3) by (simp add: edge_ok_def)
qed

lemma smallest_child_less:
  "smallest_child h i \<noteq> i \<Longrightarrow> expire (h ! smallest_child h i) < expire (h ! i)"
  by (auto simp: smallest_child_def Let_def split: if_splits)

lemma down_order_swap:
  assumes h: "down_order h i" and i: "i < length h" and ne: "smallest_child h i \<noteq> i"
  defines "c \<equiv> smallest_child h i"
  shows "down_order (h[i := h ! c, c := h ! i]) c"
proof -
  let ?g = "h[i := h ! c, c := h ! i]"
  have c: "c < length h" "i < c" "parent_of c = i" "0 < c"
    using smallest_child_cases [of h i] ne unfolding c_def by (auto simp: parent_eq_iff)
  have lt: "expire (h ! c) < expire (h ! i)" using smallest_child_less ne unfolding c_def by blast
  have min: "\<And>j. j < length h \<Longrightarrow> 0 < j \<Longrightarrow> parent_of j = i \<Longrightarrow> expire (h ! c) \<le> expire (h ! j)"
    using smallest_child_le unfolding c_def by blast
  have nth: "?g ! k = (if k = c then h ! i else if k = i then h ! c else h ! k)" if "k < length h" for k
    using that c i by (auto simp: nth_list_update)
  have edge: "\<And>j. j < length h \<Longrightarrow> 0 < j \<Longrightarrow> parent_of j \<noteq> i \<Longrightarrow> edge_ok h j"
    and grand: "\<And>j. j < length h \<Longrightarrow> 0 < j \<Longrightarrow> parent_of j = i \<Longrightarrow> 0 < i \<Longrightarrow> expire (h ! parent_of i) \<le> expire (h ! j)"
    using h i unfolding down_order_def hole_order_def by blast+
  have pj: "parent_of j < length h" if "j < length h" for j using that by (rule parent_le)
  have ok: "edge_ok ?g j" if j: "j < length h" "0 < j" "parent_of j \<noteq> c" for j
  proof -
    consider "parent_of j = i" | "j = i" | "parent_of j \<noteq> i" "j \<noteq> i" by blast
    then show ?thesis
    proof cases
      case 1
      then have "j \<noteq> i" using parent_less [OF j(2)] by auto
      then show ?thesis
        using 1 min [OF j(1,2) 1] lt nth [OF j(1)] nth [OF i] c by (cases "j = c") (simp_all add: edge_ok_def)
    next
      case 2
      then have "parent_of i \<noteq> i" "parent_of i \<noteq> c" using parent_less [OF j(2)] c by auto
      then show ?thesis
        using 2 grand [OF c(1,4,3)] j nth [OF i] nth [OF pj [OF i]] c by (simp add: edge_ok_def)
    next
      case 3
      then have "j \<noteq> c" using c by auto
      then show ?thesis
        using 3 edge [OF j(1,2) 3(1)] j nth [OF j(1)] nth [OF pj [OF j(1)]] by (simp add: edge_ok_def)
    qed
  qed
  moreover have "expire (?g ! parent_of c) \<le> expire (?g ! j)"
    if j: "j < length h" "0 < j" "parent_of j = c" for j
  proof -
    have "j \<noteq> c" "j \<noteq> i" using parent_less [OF j(2)] j(3) c by auto
    moreover have "expire (h ! c) \<le> expire (h ! j)"
      using edge [OF j(1,2)] j(3) c by (simp add: edge_ok_def)
    ultimately show ?thesis using nth [OF j(1)] nth [OF i] c by simp
  qed
  moreover have "edge_ok ?g c" using ok [OF c(1,4)] c by simp
  ultimately show ?thesis unfolding down_order_def hole_order_def by auto
qed

lemma sift_down_heap:
  "i < length (m_heap t) \<Longrightarrow> down_order (m_heap t) i \<Longrightarrow> heap_order (m_heap (sift_down i t))"
proof (induction i t rule: sift_down.induct)
  case (1 i t)
  let ?c = "smallest_child (m_heap t) i"
  show ?case
  proof (cases "?c = i")
    case True
    have "heap_order (m_heap t)"
      unfolding heap_order_def
    proof (intro allI impI)
      fix j assume j: "j < length (m_heap t)" "0 < j"
      show "edge_ok (m_heap t) j"
        using 1(2,3) j smallest_child_le(2) [OF j _ True]
        unfolding down_order_def hole_order_def by blast
    qed
    then show ?thesis using True by (subst sift_down.simps) (simp add: Let_def)
  next
    case False
    have "down_order (m_heap (swap_node i ?c t)) ?c"
      unfolding swap_node_heap by (rule down_order_swap [OF 1(3,2) False])
    moreover have "?c < length (m_heap (swap_node i ?c t))"
      using smallest_child_cases [of "m_heap t" i] False by auto
    ultimately show ?thesis using 1(1) [OF refl False] False
      by (subst sift_down.simps) (simp add: Let_def)
  qed
qed

text \<open>
  \<open>sift_at\<close>, the pair of calls after a change at one position: it repairs any hole, and keeps
  the nodes and the index.
\<close>

lemma sift_at_ok:
  assumes i: "i < length (m_heap t)" and hole: "hole_order (m_heap t) i" and idx: "index_ok t"
  shows "timer_ok (sift_at i t)" and "mset (m_heap (sift_at i t)) = mset (m_heap t)"
proof -
  have "timer_ok (sift_at i t) \<and> mset (m_heap (sift_at i t)) = mset (m_heap t)"
  proof (cases "0 < i \<and> \<not> edge_ok (m_heap t) i")
    case True
    then have lt: "expire (m_heap t ! i) < expire (m_heap t ! parent_of i)" by (simp add: edge_ok_def)
    have "up_order (m_heap t) i"
      unfolding up_order_def
    proof (intro conjI allI impI)
      show "edge_ok (m_heap t) j" if "j < length (m_heap t)" "0 < j" "parent_of j = i" for j
        using hole that True lt unfolding hole_order_def edge_ok_def by fastforce
    qed (rule hole)
    moreover have "sift_at i t = snd (sift_up i t)"
      using True lt by (subst sift_at_def, subst sift_up.simps) (simp add: Let_def sift_up.simps [of i t])
    ultimately show ?thesis
      using sift_up_heap [OF i] sift_up_mset [OF i] sift_up_index [OF i idx] by (simp add: timer_ok_def)
  next
    case False
    then have "sift_up i t = (False, t)"
      by (subst sift_up.simps) (auto simp: Let_def edge_ok_def)
    then have "sift_at i t = sift_down i t" by (simp add: sift_at_def)
    moreover have "down_order (m_heap t) i" using hole False by (auto simp: down_order_def)
    ultimately show ?thesis
      using sift_down_heap [OF i] sift_down_mset [OF i] sift_down_index [OF i idx] by (simp add: timer_ok_def)
  qed
  then show "timer_ok (sift_at i t)" "mset (m_heap (sift_at i t)) = mset (m_heap t)" by auto
qed

lemma hole_order_update:
  assumes h: "heap_order h" and i: "i < length h"
  shows "hole_order (h[i := n]) i"
proof -
  have edge: "\<And>j. j < length h \<Longrightarrow> 0 < j \<Longrightarrow> expire (h ! parent_of j) \<le> expire (h ! j)"
    using h unfolding heap_order_def edge_ok_def by blast
  have "expire (h[i := n] ! parent_of i) \<le> expire (h[i := n] ! j)"
    if j: "j < length h" "0 < j" "parent_of j = i" "0 < i" for j
  proof -
    have "i \<noteq> j" "parent_of i \<noteq> i" using parent_less [OF j(2)] parent_less [OF j(4)] j(3) by auto
    moreover have "expire (h ! parent_of i) \<le> expire (h ! j)"
      using edge [OF i j(4)] edge [OF j(1,2)] j(3) by simp
    ultimately show ?thesis by simp
  qed
  then show ?thesis
    using edge unfolding hole_order_def edge_ok_def by simp
qed

lemma up_order_push:
  assumes "heap_order h"
  shows "up_order (h @ [n]) (length h)"
proof -
  have no_child: False if "j < Suc (length h)" "0 < j" "parent_of j = length h" for j
    using parent_less [OF that(2)] that by simp
  moreover have "edge_ok (h @ [n]) j" if "j < length h" "0 < j" for j
    using assms that parent_le [OF that(1)] unfolding heap_order_def edge_ok_def by (simp add: nth_append)
  ultimately show ?thesis
    unfolding up_order_def hole_order_def by (auto simp: less_Suc_eq)
qed

lemma node_collapse [simp]: "\<lparr>sockfd = sockfd n, expire = expire n\<rparr> = (n :: timer_node)"
  by (cases n) simp

lemma alarms_iff:
  assumes "index_ok t"
  shows "alarms t s = Some e \<longleftrightarrow> \<lparr>sockfd = s, expire = e\<rparr> \<in> set (m_heap t)"
proof -
  have "distinct (map fst (map (\<lambda>n. (sockfd n, expire n)) (m_heap t)))"
    using index_ok_distinct [OF assms] by (simp add: comp_def)
  then have "alarms t s = Some e \<longleftrightarrow> (s, e) \<in> set (map (\<lambda>n. (sockfd n, expire n)) (m_heap t))"
    unfolding alarms_def by (rule map_of_eq_Some_iff)
  also have "\<dots> \<longleftrightarrow> \<lparr>sockfd = s, expire = e\<rparr> \<in> set (m_heap t)"
  proof
    assume "(s, e) \<in> set (map (\<lambda>n. (sockfd n, expire n)) (m_heap t))"
    then obtain n where "n \<in> set (m_heap t)" "s = sockfd n" "e = expire n" by auto
    then show "\<lparr>sockfd = s, expire = e\<rparr> \<in> set (m_heap t)" by simp
  qed force
  finally show ?thesis .
qed

lemma alarms_None: "index_ok t \<Longrightarrow> alarms t s = None \<longleftrightarrow> s \<notin> sockfd ` set (m_heap t)"
  by (simp add: alarms_def map_of_eq_None_iff image_image)

lemma alarms_cong:
  assumes "index_ok t" "index_ok t'" "mset (m_heap t) = mset (m_heap t')"
  shows "alarms t = alarms t'"
proof
  fix s show "alarms t s = alarms t' s"
    using alarms_iff [OF assms(1), of s] alarms_iff [OF assms(2), of s] mset_eq_setD [OF assms(3)]
    by (cases "alarms t s"; cases "alarms t' s") auto
qed

lemma alarms_eqI:
  assumes "index_ok t"
    and "\<And>s e. m s = Some e \<longleftrightarrow> \<lparr>sockfd = s, expire = e\<rparr> \<in> set (m_heap t)"
  shows "alarms t = m"
proof
  fix s show "alarms t s = m s"
    using alarms_iff [OF assms(1), of s] assms(2) [of s] by (cases "alarms t s"; cases "m s") auto
qed

lemma add_or_update_ok:
  assumes ok: "timer_ok t"
  shows "timer_ok (add_or_update now sock timeout t)"
    and "alarms (add_or_update now sock timeout t) = (alarms t)(sock \<mapsto> now + timeout)"
proof -
  let ?n = "\<lparr>sockfd = sock, expire = now + timeout\<rparr>"
  have heap: "heap_order (m_heap t)" and idx: "index_ok t" using ok by (auto simp: timer_ok_def)
  have "timer_ok (add_or_update now sock timeout t)
      \<and> alarms (add_or_update now sock timeout t) = (alarms t)(sock \<mapsto> now + timeout)"
  proof (cases "m_index t sock")
    case None
    let ?t = "t\<lparr>m_heap := m_heap t @ [?n], m_index := (m_index t)(sock \<mapsto> length (m_heap t))\<rparr>"
    have call: "add_or_update now sock timeout t = snd (sift_up (length (m_heap t)) ?t)"
      by (simp add: add_or_update_def None Let_def)
    have fresh: "sock \<notin> sockfd ` set (m_heap t)" using None index_ok_None [OF idx] by simp
    have idx': "index_ok ?t"
      using idx fresh by (auto simp: index_ok_def nth_append less_Suc_eq)
    have len: "length (m_heap t) < length (m_heap ?t)" by simp
    have ok': "timer_ok (snd (sift_up (length (m_heap t)) ?t))"
      using sift_up_heap [OF len] up_order_push [OF heap] sift_up_index [OF len idx'] by (simp add: timer_ok_def)
    have "alarms (snd (sift_up (length (m_heap t)) ?t)) = alarms ?t"
      using alarms_cong [OF _ idx' sift_up_mset [OF len]] ok' by (simp add: timer_ok_def)
    also have "alarms ?t = (alarms t)(sock \<mapsto> now + timeout)"
      using fresh by (intro alarms_eqI [OF idx']) (auto simp: alarms_iff [OF idx] image_iff)
    finally show ?thesis using call ok' by simp
  next
    case (Some i)
    have i: "i < length (m_heap t)" "sockfd (m_heap t ! i) = sock" using index_ok_lookup [OF idx Some] by auto
    let ?t = "t\<lparr>m_heap := (m_heap t)[i := ?n]\<rparr>"
    have "(m_heap t ! i)\<lparr>expire := now + timeout\<rparr> = ?n" using i(2) by (cases "m_heap t ! i") simp
    then have call: "add_or_update now sock timeout t = sift_at i ?t"
      by (simp add: add_or_update_def Some)
    have socks: "sockfd (m_heap ?t ! j) = sockfd (m_heap t ! j)" if "j < length (m_heap t)" for j
      using i that by (cases "i = j") auto
    have "map sockfd (m_heap ?t) = map sockfd (m_heap t)"
      by (rule nth_equalityI) (use socks in auto)
    then have "sockfd ` set (m_heap ?t) = sockfd ` set (m_heap t)" by (metis list.set_map)
    then have idx': "index_ok ?t" using idx socks by (simp add: index_ok_def)
    have len: "i < length (m_heap ?t)" using i by simp
    have hole: "hole_order (m_heap ?t) i" using hole_order_update [OF heap i(1)] by simp
    note sift = sift_at_ok [OF len hole idx']
    have "alarms (sift_at i ?t) = alarms ?t"
      using alarms_cong [OF _ idx' sift(2)] sift(1) by (simp add: timer_ok_def)
    also have "alarms ?t = (alarms t)(sock \<mapsto> now + timeout)"
    proof (rule alarms_eqI [OF idx'])
      fix s e
      have dist: "distinct (m_heap t)" using index_ok_distinct [OF idx] by (simp add: distinct_map)
      have set': "set ((m_heap t)[i := ?n]) = insert ?n (set (m_heap t) - {m_heap t ! i})"
        using set_update_distinct [OF dist i(1)] by simp
      have other: "n \<in> set (m_heap t) \<Longrightarrow> sockfd n = sock \<Longrightarrow> n = m_heap t ! i" for n
        using i Some idx unfolding index_ok_def by (metis in_set_conv_nth option.inject)
      show "((alarms t)(sock \<mapsto> now + timeout)) s = Some e \<longleftrightarrow> \<lparr>sockfd = s, expire = e\<rparr> \<in> set (m_heap ?t)"
        using other i by (auto simp: set' alarms_iff [OF idx] dest: arg_cong [where f = sockfd])
    qed
    finally show ?thesis using call sift by simp
  qed
  then show "timer_ok (add_or_update now sock timeout t)"
    "alarms (add_or_update now sock timeout t) = (alarms t)(sock \<mapsto> now + timeout)" by auto
qed

lemma index_ok_pop:
  assumes idx: "index_ok t" and ne: "m_heap t \<noteq> []"
  shows "index_ok (t\<lparr>m_index := (m_index t)(sockfd (last (m_heap t)) := None), m_heap := butlast (m_heap t)\<rparr>)"
proof -
  obtain h n where h: "m_heap t = h @ [n]" using ne by (metis append_butlast_last_id)
  have dist: "sockfd n \<notin> sockfd ` set h" using index_ok_distinct [OF idx] unfolding h by simp
  have at: "m_index t (sockfd (h ! i)) = Some i" if "i < length h" for i
    using idx that unfolding index_ok_def h by (metis length_append_singleton less_Suc_eq nth_append)
  have "sockfd (h ! i) \<noteq> sockfd n" if "i < length h" for i using dist that by (metis image_eqI nth_mem)
  then show ?thesis
    using at dist idx unfolding index_ok_def h by auto
qed

lemma delete_at_ok:
  assumes ok: "timer_ok t" and i: "i < length (m_heap t)"
  shows "timer_ok (delete_at i t)"
    and "mset (m_heap (delete_at i t)) = mset (m_heap t) - {# m_heap t ! i #}"
proof -
  let ?h = "m_heap t" let ?last = "length ?h - 1"
  let ?t1 = "if i \<noteq> ?last then swap_node i ?last t else t"
  let ?t2 = "?t1\<lparr>m_index := (m_index ?t1)(sockfd (?h ! i) := None), m_heap := butlast (m_heap ?t1)\<rparr>"
  have heap: "heap_order ?h" and idx: "index_ok t" using ok by (auto simp: timer_ok_def)
  have last: "?last < length ?h" using i by simp
  have h1: "m_heap ?t1 = ?h[i := ?h ! ?last, ?last := ?h ! i]"
    using i by (simp add: swap_node_heap)
  have ne: "m_heap ?t1 \<noteq> []" and len1: "length (m_heap ?t1) = length ?h" using h1 i by auto
  have lst: "last (m_heap ?t1) = ?h ! i" unfolding last_conv_nth [OF ne] len1 unfolding h1 using last by simp
  have idx1: "index_ok ?t1" using index_ok_swap_node [OF idx i last] idx by simp
  have idx2: "index_ok ?t2" using index_ok_pop [OF idx1 ne] unfolding lst .
  have but: "butlast (m_heap ?t1) = (butlast ?h)[i := ?h ! ?last]"
    unfolding h1 by (cases "i = ?last") (simp_all add: butlast_list_update list_update_beyond)
  have mset1: "mset (m_heap ?t1) = mset ?h" using i last by (simp add: h1 mset_swap)
  have "mset (butlast (m_heap ?t1)) = mset (m_heap ?t1) - {# last (m_heap ?t1) #}"
    using ne by (metis append_butlast_last_id mset.simps(1) mset.simps(2) mset_append add_diff_cancel_right')
  then have mset2: "mset (m_heap ?t2) = mset ?h - {# ?h ! i #}" unfolding mset1 lst by simp
  have heapb: "heap_order (butlast ?h)"
    using heap parent_le unfolding heap_order_def edge_ok_def by (simp add: nth_butlast)
  have call: "delete_at i t = (if i \<ge> length (m_heap ?t2) then ?t2 else sift_at i ?t2)"
    by (simp add: delete_at_def Let_def)
  have "timer_ok (delete_at i t) \<and> mset (m_heap (delete_at i t)) = mset ?h - {# ?h ! i #}"
  proof (cases "i \<ge> length (m_heap ?t2)")
    case True
    then have "butlast (m_heap ?t1) = butlast ?h" unfolding but using i len1 by (simp add: list_update_beyond)
    then have "heap_order (m_heap ?t2)" using heapb by simp
    then show ?thesis using True idx2 mset2 unfolding call by (simp add: timer_ok_def)
  next
    case False
    have "m_heap ?t2 = (butlast ?h)[i := ?h ! ?last]" using but by simp
    moreover have "i < length (butlast ?h)" using False len1 by simp
    ultimately have "hole_order (m_heap ?t2) i"
      using hole_order_update [OF heapb] by metis
    then show ?thesis using sift_at_ok [of i ?t2] False idx2 mset2 unfolding call by simp
  qed
  then show "timer_ok (delete_at i t)"
    "mset (m_heap (delete_at i t)) = mset (m_heap t) - {# m_heap t ! i #}" by auto
qed

lemma delete_at_alarms:
  assumes ok: "timer_ok t" and i: "i < length (m_heap t)"
  shows "alarms (delete_at i t) = (alarms t)(sockfd (m_heap t ! i) := None)"
proof (rule alarms_eqI)
  show "index_ok (delete_at i t)" using delete_at_ok(1) [OF assms] by (simp add: timer_ok_def)
  have idx: "index_ok t" using ok by (simp add: timer_ok_def)
  have dist: "distinct (m_heap t)" using index_ok_distinct [OF idx] by (simp add: distinct_map)
  have "set (m_heap (delete_at i t)) = set_mset (mset (m_heap t) - {# m_heap t ! i #})"
    using delete_at_ok(2) [OF assms] by (metis set_mset_mset)
  also have "\<dots> = set (m_heap t) - {m_heap t ! i}"
    using dist i by (metis distinct_remove1_removeAll mset_remove1 set_mset_mset set_removeAll)
  finally have set': "set (m_heap (delete_at i t)) = set (m_heap t) - {m_heap t ! i}" .
  have other: "n \<in> set (m_heap t) \<Longrightarrow> sockfd n = sockfd (m_heap t ! i) \<Longrightarrow> n = m_heap t ! i" for n
    using i idx unfolding index_ok_def by (metis in_set_conv_nth option.inject)
  fix s e
  show "((alarms t)(sockfd (m_heap t ! i) := None)) s = Some e
      \<longleftrightarrow> \<lparr>sockfd = s, expire = e\<rparr> \<in> set (m_heap (delete_at i t))"
    using other i unfolding set' by (auto simp: alarms_iff [OF idx] dest: arg_cong [where f = sockfd])
qed

lemma remove_timer_ok:
  assumes ok: "timer_ok t"
  shows "timer_ok (remove_timer sock t)" and "alarms (remove_timer sock t) = (alarms t)(sock := None)"
proof -
  have idx: "index_ok t" using ok by (simp add: timer_ok_def)
  show "timer_ok (remove_timer sock t)"
    using ok delete_at_ok(1) [OF ok] index_ok_lookup [OF idx] by (auto simp: remove_timer_def split: option.splits)
  show "alarms (remove_timer sock t) = (alarms t)(sock := None)"
  proof (cases "m_index t sock")
    case None
    then have "alarms t sock = None" using index_ok_None [OF idx] alarms_None [OF idx] by simp
    then show ?thesis by (auto simp: remove_timer_def None)
  next
    case (Some i)
    then show ?thesis
      using delete_at_alarms [OF ok] index_ok_lookup [OF idx Some] by (simp add: remove_timer_def)
  qed
qed

text \<open>The front of the heap is an earliest alarm.\<close>

lemma heap_order_front:
  assumes "heap_order h" "j < length h"
  shows "expire (h ! 0) \<le> expire (h ! j)"
  using assms(2)
proof (induction j rule: less_induct)
  case (less j)
  show ?case
  proof (cases "j = 0")
    case False
    then have "expire (h ! 0) \<le> expire (h ! parent_of j)"
      using less parent_less [of j] by (simp add: parent_le)
    also have "\<dots> \<le> expire (h ! j)"
      using assms(1) less.prems False unfolding heap_order_def edge_ok_def by blast
    finally show ?thesis .
  qed simp
qed

lemma front_alarm:
  assumes "timer_ok t"
  shows "m_heap t = [] \<longleftrightarrow> alarms t = Map.empty"
    and "m_heap t \<noteq> [] \<Longrightarrow> alarms t (sockfd (m_heap t ! 0)) = Some (expire (m_heap t ! 0))"
    and "alarms t s = Some e \<Longrightarrow> expire (m_heap t ! 0) \<le> e"
proof -
  have idx: "index_ok t" and heap: "heap_order (m_heap t)" using assms by (auto simp: timer_ok_def)
  show "m_heap t = [] \<longleftrightarrow> alarms t = Map.empty"
    by (simp add: alarms_def)
  show "alarms t (sockfd (m_heap t ! 0)) = Some (expire (m_heap t ! 0))" if "m_heap t \<noteq> []"
    using that by (simp add: alarms_iff [OF idx])
  show "expire (m_heap t ! 0) \<le> e" if "alarms t s = Some e"
    using that heap_order_front [OF heap] unfolding alarms_iff [OF idx]
    by (metis in_set_conv_nth timer_node.select_convs(2))
qed

subsection \<open>The interface of a timer service\<close>

text \<open>
  What the reactor relies on: timers implement a map from sockets to expiry times, with an
  earliest alarm that can be looked at and removed.
\<close>

datatype timer_op = Arm int int int | Cancel int

fun spec_op :: "timer_op \<Rightarrow> (int \<rightharpoonup> int) \<Rightarrow> (int \<rightharpoonup> int)" where
  "spec_op (Arm now sock timeout) m = m(sock \<mapsto> now + timeout)"
| "spec_op (Cancel sock) m = m(sock := None)"

locale timer_service =
  fixes inv :: "'t \<Rightarrow> bool"
    and armed :: "'t \<Rightarrow> int \<rightharpoonup> int"
    and arm :: "int \<Rightarrow> int \<Rightarrow> int \<Rightarrow> 't \<Rightarrow> 't"
    and cancel :: "int \<Rightarrow> 't \<Rightarrow> 't"
    and front :: "'t \<Rightarrow> (int \<times> int) option"
    and pop :: "'t \<Rightarrow> 't"
  assumes arm: "inv t \<Longrightarrow> inv (arm now sock timeout t) \<and> armed (arm now sock timeout t) = (armed t)(sock \<mapsto> now + timeout)"
    and cancel: "inv t \<Longrightarrow> inv (cancel sock t) \<and> armed (cancel sock t) = (armed t)(sock := None)"
    and front_None: "inv t \<Longrightarrow> front t = None \<longleftrightarrow> armed t = Map.empty"
    and front_Some: "inv t \<Longrightarrow> front t = Some (s, x) \<Longrightarrow> armed t s = Some x"
    and front_least: "inv t \<Longrightarrow> front t = Some (s, x) \<Longrightarrow> armed t s' = Some y \<Longrightarrow> x \<le> y"
    and pop: "inv t \<Longrightarrow> front t = Some (s, x) \<Longrightarrow> inv (pop t) \<and> armed (pop t) = (armed t)(s := None)"
    and finite_armed: "inv t \<Longrightarrow> finite (dom (armed t))"
begin

definition due :: "int \<Rightarrow> 't \<Rightarrow> int set" where
  "due now t = {s. \<exists>x. armed t s = Some x \<and> x \<le> now}"

fun run_op :: "timer_op \<Rightarrow> 't \<Rightarrow> 't" where
  "run_op (Arm now sock timeout) t = arm now sock timeout t"
| "run_op (Cancel sock) t = cancel sock t"

lemma run_ops_refine:
  "inv t \<Longrightarrow> inv (fold run_op ops t) \<and> armed (fold run_op ops t) = fold spec_op ops (armed t)"
proof (induction ops arbitrary: t)
  case (Cons op ops)
  have "inv (run_op op t) \<and> armed (run_op op t) = spec_op op (armed t)"
    using arm cancel Cons.prems by (cases op) auto
  then show ?case using Cons.IH [of "run_op op t"] by simp
qed simp

lemma finite_due: "inv t \<Longrightarrow> finite (due now t)"
  by (rule finite_subset [OF _ finite_armed]) (auto simp: due_def)

lemma no_due_iff:
  assumes "inv t"
  shows "due now t = {} \<longleftrightarrow> (case front t of None \<Rightarrow> True | Some (s, x) \<Rightarrow> x > now)"
proof (cases "front t")
  case None
  then have "armed t = Map.empty" using front_None [OF assms] by simp
  then show ?thesis using None by (simp add: due_def)
next
  case (Some sx)
  then show ?thesis
    using front_Some [OF assms, of "fst sx" "snd sx"] front_least [OF assms, of "fst sx" "snd sx"]
    by (cases sx) (force simp: due_def)
qed

lemma due_pop: "inv t \<Longrightarrow> front t = Some (s, x) \<Longrightarrow> due now (pop t) = due now t - {s}"
  using pop by (auto simp: due_def)

lemma due_arm: "inv t \<Longrightarrow> now < now' + timeout \<Longrightarrow> due now (arm now' s timeout t) = due now t - {s}"
  using arm by (auto simp: due_def)

end

definition front_node :: "heap_timer \<Rightarrow> (int \<times> int) option" where
  "front_node t = (if m_heap t = [] then None else Some (sockfd (m_heap t ! 0), expire (m_heap t ! 0)))"

interpretation timers: timer_service timer_ok alarms add_or_update remove_timer front_node "delete_at 0"
proof
  fix t :: heap_timer and s x s' y now sock timeout :: int
  assume ok: "timer_ok t"
  show "timer_ok (add_or_update now sock timeout t) \<and>
      alarms (add_or_update now sock timeout t) = (alarms t)(sock \<mapsto> now + timeout)"
    using add_or_update_ok [OF ok] by simp
  show "timer_ok (remove_timer sock t) \<and> alarms (remove_timer sock t) = (alarms t)(sock := None)"
    using remove_timer_ok [OF ok] by simp
  show "front_node t = None \<longleftrightarrow> alarms t = Map.empty"
    using front_alarm(1) [OF ok] by (simp add: front_node_def)
  show "finite (dom (alarms t))"
    by (simp add: alarms_def finite_dom_map_of)
  assume "front_node t = Some (s, x)"
  then have ne: "m_heap t \<noteq> []" and s: "s = sockfd (m_heap t ! 0)" "x = expire (m_heap t ! 0)"
    by (auto simp: front_node_def split: if_splits)
  show "alarms t s = Some x" using front_alarm(2) [OF ok ne] s by simp
  show "timer_ok (delete_at 0 t) \<and> alarms (delete_at 0 t) = (alarms t)(s := None)"
    using delete_at_ok(1) [OF ok] delete_at_alarms [OF ok] ne s by simp
  show "x \<le> y" if "alarms t s' = Some y" using front_alarm(3) [OF ok that] s by simp
qed

fun timer_exec :: "timer_op \<Rightarrow> heap_timer \<Rightarrow> heap_timer" where
  "timer_exec (Arm now sock timeout) t = add_or_update now sock timeout t"
| "timer_exec (Cancel sock) t = remove_timer sock t"

definition empty_timers :: heap_timer where
  "empty_timers = \<lparr>m_heap = [], m_index = Map.empty\<rparr>"

lemma empty_timers_ok [simp]: "timer_ok empty_timers" "alarms empty_timers = Map.empty"
  by (simp_all add: timer_ok_def heap_order_def index_ok_def empty_timers_def alarms_def)

lemma timer_exec_run_op: "timer_exec = timers.run_op"
proof (intro ext)
  fix op t show "timer_exec op t = timers.run_op op t" by (cases op) simp_all
qed

text \<open>
  Property C13. The heap of timers refines a map from sockets to expiry times: after any
  sequence of \<open>add_or_update\<close> and \<open>remove\<close> calls it holds exactly the alarms the map holds,
  and the heap order and the socket index are intact.
\<close>

theorem timer_exec_refines_map:
  "timer_ok (fold timer_exec ops empty_timers)
   \<and> alarms (fold timer_exec ops empty_timers) = fold spec_op ops Map.empty"
  using timers.run_ops_refine [of empty_timers ops] by (simp add: timer_exec_run_op)

text \<open>
  The wait time for \<open>epoll_wait\<close> is -1 without timers and 0 when one is due;
  otherwise it is the time to the earliest alarm in milliseconds, as long as that alarm is less
  than 2147484 seconds away, so that the wait neither skips an alarm nor wraps around.
\<close>

lemma get_next_timeout_ms_earliest:
  assumes "timer_ok t" and "\<forall>s x. alarms t s = Some x \<longrightarrow> x - now \<le> 2147483"
  shows "(get_next_timeout_ms now t = - 1 \<longleftrightarrow> alarms t = Map.empty)
    \<and> (get_next_timeout_ms now t = 0 \<longleftrightarrow> (\<exists>s x. alarms t s = Some x \<and> x \<le> now))
    \<and> (0 < get_next_timeout_ms now t \<longrightarrow>
        (\<exists>s x. alarms t s = Some x \<and> get_next_timeout_ms now t = (x - now) * 1000
           \<and> (\<forall>s' y. alarms t s' = Some y \<longrightarrow> x \<le> y)))"
proof (cases "m_heap t = []")
  case True
  then show ?thesis using front_alarm(1) [OF assms(1)] by (simp add: get_next_timeout_ms_def)
next
  case False
  let ?x = "expire (m_heap t ! 0)" and ?s = "sockfd (m_heap t ! 0)"
  have front: "alarms t ?s = Some ?x" using front_alarm(2) [OF assms(1) False] .
  have least: "\<And>s y. alarms t s = Some y \<Longrightarrow> ?x \<le> y" using front_alarm(3) [OF assms(1)] .
  have ne: "alarms t \<noteq> Map.empty" using front by force
  have near: "?x - now \<le> 2147483" using assms(2) front by blast
  have wait: "get_next_timeout_ms now t = (if ?x \<le> now then 0 else (?x - now) * 1000)"
    using False narrow_int_id [of "(?x - now) * 1000"] near by (auto simp: get_next_timeout_ms_def)
  have "(\<exists>s x. alarms t s = Some x \<and> x \<le> now) \<longleftrightarrow> ?x \<le> now"
    using front least by (meson order_trans)
  then show ?thesis using ne front least unfolding wait by auto
qed

definition sample_timers :: heap_timer where
  "sample_timers = fold timer_exec [Arm 0 7 30, Arm 0 8 20, Arm 5 9 10, Arm 6 8 60, Cancel 9] empty_timers"

lemma sample_timers_ok: "timer_ok sample_timers" "alarms sample_timers = [7 \<mapsto> 30, 8 \<mapsto> 66]"
proof -
  let ?ops = "[Arm 0 7 30, Arm 0 8 20, Arm 5 9 10, Arm 6 8 60, Cancel 9]"
  have run: "timer_ok (fold timers.run_op ?ops empty_timers)
      \<and> alarms (fold timers.run_op ?ops empty_timers) = fold spec_op ?ops (alarms empty_timers)"
    by (rule timers.run_ops_refine) simp
  then show "timer_ok sample_timers" by (simp only: sample_timers_def timer_exec_run_op)
  have "fold spec_op ?ops Map.empty = [7 \<mapsto> 30, 8 \<mapsto> 66]" by (simp add: fun_eq_iff)
  then show "alarms sample_timers = [7 \<mapsto> 30, 8 \<mapsto> 66]"
    using run by (simp only: sample_timers_def timer_exec_run_op empty_timers_ok)
qed

lemma get_next_timeout_ms_earliest_witness:
  "get_next_timeout_ms 10 sample_timers = 20000 \<and>
   (\<exists>s x. alarms sample_timers s = Some x \<and> 20000 = (x - 10) * 1000)"
proof -
  have "\<forall>s x. alarms sample_timers s = Some x \<longrightarrow> x - 10 \<le> 2147483"
    by (simp add: sample_timers_ok(2))
  moreover have "get_next_timeout_ms 10 sample_timers = 20000" by code_simp
  ultimately show ?thesis
    using get_next_timeout_ms_earliest [OF sample_timers_ok(1), of 10] by force
qed

end
