(* ===== verification/Reactor.thy ===== *)
theory Reactor
  imports Heap_Timer
begin

text \<open>
  The sub reactor of src/app/webserver_sub_reactor.cpp with the connection table it works on:
  accepting dispatched sockets, the dispatch of one epoll event, the idle timers and their scan.
  Of a connection the reactor sees whether it is open (\<open>m_sockfd\<close> is not -1) and when it was
  last active. The I/O of an event (\<open>dealwithread\<close>, \<open>dealwithwrite\<close>) is an argument, a change
  of that connection alone; a pool thread that closes a connection is a step of its own.
  \<open>time(nullptr)\<close> is an argument of every operation that reads the clock.
\<close>

subsection \<open>The model\<close>

record user_conn =
  u_sockfd :: int
  u_last_active :: int

record conn_table =
  users :: "int \<Rightarrow> user_conn"
  m_user_count :: int

record reactor =
  m_timer_heap :: heap_timer
  m_pending_connections :: "int list"
  m_table :: conn_table

definition is_open :: "conn_table \<Rightarrow> int \<Rightarrow> bool" where
  "is_open c fd \<longleftrightarrow> u_sockfd (users c fd) \<noteq> - 1"

definition close_conn :: "int \<Rightarrow> conn_table \<Rightarrow> conn_table" where
  "close_conn fd c =
     (if u_sockfd (users c fd) \<noteq> - 1
      then c\<lparr>users := (users c)(fd := (users c fd)\<lparr>u_sockfd := - 1\<rparr>), m_user_count := m_user_count c - 1\<rparr>
      else c)"

definition init_conn :: "int \<Rightarrow> int \<Rightarrow> conn_table \<Rightarrow> conn_table" where
  "init_conn now fd c =
     c\<lparr>users := (users c)(fd := \<lparr>u_sockfd = fd, u_last_active = now\<rparr>), m_user_count := m_user_count c + 1\<rparr>"

definition refresh_timer :: "int \<Rightarrow> int \<Rightarrow> int \<Rightarrow> reactor \<Rightarrow> reactor" where
  "refresh_timer now conn_timeout fd r =
     (if \<not> is_open (m_table r) fd then r
      else r\<lparr>m_timer_heap := add_or_update now fd conn_timeout (m_timer_heap r)\<rparr>)"

definition remove_connection :: "int \<Rightarrow> reactor \<Rightarrow> reactor" where
  "remove_connection fd r = r\<lparr>m_timer_heap := remove_timer fd (m_timer_heap r)\<rparr>"

definition next_wait_timeout_ms :: "int \<Rightarrow> reactor \<Rightarrow> int" where
  "next_wait_timeout_ms now r = get_next_timeout_ms now (m_timer_heap r)"

definition register_connection :: "int \<Rightarrow> int \<Rightarrow> int \<Rightarrow> reactor \<Rightarrow> reactor" where
  "register_connection now conn_timeout fd r =
     refresh_timer now conn_timeout fd (r\<lparr>m_table := init_conn now fd (m_table r)\<rparr>)"

text \<open>
  \<open>dispatch\<close>: the socket is queued, then the eventfd is written until the write is not
  interrupted; a failed write takes the socket back off the queue. \<open>None\<close>: the writes listed
  were all interrupted.
\<close>

datatype notify_write = Written | Interrupted | Failed

fun notify_loop :: "notify_write list \<Rightarrow> bool option" where
  "notify_loop [] = None"
| "notify_loop (Written # ws) = Some True"
| "notify_loop (Interrupted # ws) = notify_loop ws"
| "notify_loop (Failed # ws) = Some False"

definition dispatch :: "notify_write list \<Rightarrow> int \<Rightarrow> reactor \<Rightarrow> (bool \<times> reactor) option" where
  "dispatch ws fd r =
     (let r1 = r\<lparr>m_pending_connections := m_pending_connections r @ [fd]\<rparr> in
      case notify_loop ws of
        None \<Rightarrow> None
      | Some True \<Rightarrow> Some (True, r1)
      | Some False \<Rightarrow>
          Some (False, if m_pending_connections r1 \<noteq> [] \<and> last (m_pending_connections r1) = fd
                       then r1\<lparr>m_pending_connections := butlast (m_pending_connections r1)\<rparr> else r1))"

text \<open>The inner loop of \<open>handle_notify\<close>: it drains the queue of dispatched sockets.\<close>

function drain_pending :: "int \<Rightarrow> int \<Rightarrow> reactor \<Rightarrow> reactor" where
  "drain_pending now conn_timeout r =
     (case m_pending_connections r of
        [] \<Rightarrow> r
      | fd # rest \<Rightarrow>
          let r1 = r\<lparr>m_pending_connections := rest\<rparr> in
          drain_pending now conn_timeout (if fd > 0 then register_connection now conn_timeout fd r1 else r1))"
  by pat_completeness auto

lemma pending_register [simp]:
  "m_pending_connections (register_connection now to fd r) = m_pending_connections r"
  by (simp add: register_connection_def refresh_timer_def)

termination drain_pending
  by (relation "measure (\<lambda>(now, to, r). length (m_pending_connections r))") auto

declare drain_pending.simps [simp del]

text \<open>
  \<open>handle_notify\<close> reads the eventfd until the read would block, and drains the queue after each
  full read. \<open>None\<close>: the reads listed do not end the loop.
\<close>

datatype notify_read = ReadInterrupted | ReadAgain | ReadError | ReadEnd | ReadShort | ReadReady

fun handle_notify :: "bool \<Rightarrow> int \<Rightarrow> int \<Rightarrow> notify_read list \<Rightarrow> reactor \<Rightarrow> reactor option" where
  "handle_notify stop now conn_timeout [] r = None"
| "handle_notify stop now conn_timeout (x # xs) r =
     (case x of
        ReadInterrupted \<Rightarrow> handle_notify stop now conn_timeout xs r
      | ReadAgain \<Rightarrow> Some r
      | ReadError \<Rightarrow> Some r
      | ReadEnd \<Rightarrow> Some r
      | ReadShort \<Rightarrow> handle_notify stop now conn_timeout xs r
      | ReadReady \<Rightarrow> if stop then Some r
                     else handle_notify stop now conn_timeout xs (drain_pending now conn_timeout r))"

text \<open>One event of \<open>run\<close>; \<open>io\<close> is what \<open>dealwithread\<close> or \<open>dealwithwrite\<close> does to the table.\<close>

datatype event_kind = EvHangup | EvIn | EvOut

definition handle_event ::
  "(conn_table \<Rightarrow> conn_table) \<Rightarrow> int \<Rightarrow> int \<Rightarrow> event_kind \<Rightarrow> int \<Rightarrow> reactor \<Rightarrow> reactor" where
  "handle_event io now conn_timeout k fd r =
     (case k of
        EvHangup \<Rightarrow> remove_connection fd (r\<lparr>m_table := close_conn fd (m_table r)\<rparr>)
      | _ \<Rightarrow> (let r1 = r\<lparr>m_table := io (m_table r)\<rparr> in
              if \<not> is_open (m_table r1) fd then remove_connection fd r1
              else refresh_timer now conn_timeout fd r1))"

text \<open>The callback of \<open>scan_timeout\<close>; \<open>clock fd\<close> is the time it reads when it runs for \<open>fd\<close>.\<close>

definition expire_callback ::
  "(int \<Rightarrow> int) \<Rightarrow> int \<Rightarrow> int \<Rightarrow> heap_timer \<times> conn_table \<Rightarrow> heap_timer \<times> conn_table" where
  "expire_callback clock conn_timeout fd p =
     (let (t, c) = p in
      if \<not> is_open c fd then (t, c)
      else if clock fd - u_last_active (users c fd) < conn_timeout
           then (add_or_update (clock fd) fd conn_timeout t, c)
           else (t, close_conn fd c))"

definition scan_timeout :: "int \<Rightarrow> (int \<Rightarrow> int) \<Rightarrow> int \<Rightarrow> reactor \<Rightarrow> reactor option" where
  "scan_timeout now clock conn_timeout r =
     (case tick (Some (expire_callback clock conn_timeout)) now (m_timer_heap r) (m_table r) of
        None \<Rightarrow> None
      | Some (t, c) \<Rightarrow> Some (r\<lparr>m_timer_heap := t, m_table := c\<rparr>))"

subsection \<open>The scan\<close>

text \<open>What one scan does to the timer and to the connection of a socket.\<close>

definition scan_alarm :: "int \<Rightarrow> (int \<Rightarrow> int) \<Rightarrow> int \<Rightarrow> (int \<rightharpoonup> int) \<Rightarrow> conn_table \<Rightarrow> int \<rightharpoonup> int" where
  "scan_alarm now clock to a c fd =
     (case a fd of
        Some x \<Rightarrow> if x > now then Some x
                  else if is_open c fd \<and> clock fd - u_last_active (users c fd) < to then Some (clock fd + to)
                  else None
      | None \<Rightarrow> None)"

definition scan_closes :: "int \<Rightarrow> (int \<Rightarrow> int) \<Rightarrow> int \<Rightarrow> (int \<rightharpoonup> int) \<Rightarrow> conn_table \<Rightarrow> int \<Rightarrow> bool" where
  "scan_closes now clock to a c fd \<longleftrightarrow>
     (\<exists>x. a fd = Some x \<and> x \<le> now) \<and> is_open c fd \<and> clock fd - u_last_active (users c fd) \<ge> to"

definition scan_user :: "int \<Rightarrow> (int \<Rightarrow> int) \<Rightarrow> int \<Rightarrow> (int \<rightharpoonup> int) \<Rightarrow> conn_table \<Rightarrow> int \<Rightarrow> user_conn" where
  "scan_user now clock to a c fd =
     (if scan_closes now clock to a c fd then (users c fd)\<lparr>u_sockfd := - 1\<rparr> else users c fd)"

lemma close_conn_users:
  "users (close_conn fd c) = (if is_open c fd then (users c)(fd := (users c fd)\<lparr>u_sockfd := - 1\<rparr>) else users c)"
  by (simp add: close_conn_def is_open_def)

lemma close_conn_count:
  "m_user_count (close_conn fd c) = (if is_open c fd then m_user_count c - 1 else m_user_count c)"
  by (simp add: close_conn_def is_open_def)

lemma is_open_close [simp]: "is_open (close_conn fd c) fd' \<longleftrightarrow> is_open c fd' \<and> fd' \<noteq> fd"
  by (auto simp: is_open_def close_conn_def)

lemma finite_scan_closes: "timer_ok t \<Longrightarrow> finite {fd. scan_closes now clock to (alarms t) c fd}"
  by (rule finite_subset [OF _ timers.finite_due [of t now]]) (auto simp: scan_closes_def timers.due_def)

text \<open>One round of the loop changes what the remaining rounds do at the front socket only.\<close>

lemma scan_round:
  assumes ok: "timer_ok t" and front: "front_node t = Some (s, x)" and due: "x \<le> now"
    and to: "0 < to" and clk: "\<forall>fd. now \<le> clock fd"
    and cb: "expire_callback clock to s (delete_at 0 t, c) = (t1, c1)"
  shows "timer_ok t1" and "timers.due now t1 = timers.due now t - {s}" and "s \<in> timers.due now t"
    and "scan_alarm now clock to (alarms t1) c1 = scan_alarm now clock to (alarms t) c"
    and "scan_user now clock to (alarms t1) c1 = scan_user now clock to (alarms t) c"
    and "m_user_count c1 - int (card {fd. scan_closes now clock to (alarms t1) c1 fd})
         = m_user_count c - int (card {fd. scan_closes now clock to (alarms t) c fd})"
proof -
  let ?d = "delete_at 0 t"
  have a: "alarms t s = Some x" using timers.front_Some [OF ok front] .
  have d: "timer_ok ?d" "alarms ?d = (alarms t)(s := None)" using timers.pop [OF ok front] by auto
  have later: "now < clock s + to" using to clk by (metis add_strict_increasing2 add.commute add_le_less_mono
    add_0 less_add_same_cancel1 order_le_less_trans)
  have arm: "timer_ok (add_or_update (clock s) s to ?d)"
    "alarms (add_or_update (clock s) s to ?d) = (alarms t)(s \<mapsto> clock s + to)"
    using timers.arm [OF d(1)] d(2) by auto
  consider (closed) "\<not> is_open c s" "t1 = ?d" "c1 = c"
    | (active) "is_open c s" "clock s - u_last_active (users c s) < to"
        "t1 = add_or_update (clock s) s to ?d" "c1 = c"
    | (idle) "is_open c s" "clock s - u_last_active (users c s) \<ge> to" "t1 = ?d" "c1 = close_conn s c"
    using cb by (auto simp: expire_callback_def split: if_splits)
  note cases = this
  let ?cl = "is_open c s \<and> clock s - u_last_active (users c s) \<ge> to"
  show ok1: "timer_ok t1" using d(1) arm(1) by (cases rule: cases) auto
  have al: "alarms t1 = (if is_open c s \<and> clock s - u_last_active (users c s) < to
      then (alarms t)(s \<mapsto> clock s + to) else (alarms t)(s := None))"
    using d(2) arm(2) by (cases rule: cases) auto
  show "timers.due now t1 = timers.due now t - {s}" and "s \<in> timers.due now t"
    using a due later by (auto simp: timers.due_def al)
  show "scan_alarm now clock to (alarms t1) c1 = scan_alarm now clock to (alarms t) c"
    using a due later al
    by (cases rule: cases; auto simp: scan_alarm_def fun_eq_iff close_conn_users split: option.splits)
  show "scan_user now clock to (alarms t1) c1 = scan_user now clock to (alarms t) c"
    using a due later al
    by (cases rule: cases; auto simp: scan_user_def scan_closes_def fun_eq_iff close_conn_users)
  let ?A = "{fd. scan_closes now clock to (alarms t) c fd}"
  have A: "{fd. scan_closes now clock to (alarms t1) c1 fd} = ?A - {s}"
    using a due later al
    by (cases rule: cases; auto simp: scan_closes_def close_conn_users)
  have s: "s \<in> ?A \<longleftrightarrow> ?cl"
    using a due by (auto simp: scan_closes_def)
  have count: "m_user_count c1 = (if ?cl then m_user_count c - 1 else m_user_count c)"
    by (cases rule: cases; auto simp: close_conn_count)
  show "m_user_count c1 - int (card {fd. scan_closes now clock to (alarms t1) c1 fd})
         = m_user_count c - int (card ?A)"
  proof (cases ?cl)
    case True
    then have "Suc (card (?A - {s})) = card ?A"
      using s finite_scan_closes [OF ok] by (intro card_Suc_Diff1) auto
    moreover have "m_user_count c1 = m_user_count c - 1" using True count by simp
    ultimately show ?thesis unfolding A by linarith
  next
    case False
    then show ?thesis using s unfolding A count by (simp only: if_False Diff_insert0 Diff_empty simp_thms)
  qed
qed

lemma scan_settled:
  assumes "timers.due now t = {}"
  shows "scan_alarm now clock to (alarms t) c = alarms t" "scan_user now clock to (alarms t) c = users c"
    "card {fd. scan_closes now clock to (alarms t) c fd} = 0"
proof -
  have none: "\<not> scan_closes now clock to (alarms t) c fd" for fd
    using assms by (auto simp: timers.due_def scan_closes_def)
  then show "scan_user now clock to (alarms t) c = users c" by (simp add: scan_user_def fun_eq_iff)
  have "{fd. scan_closes now clock to (alarms t) c fd} = {}" using none by blast
  then show "card {fd. scan_closes now clock to (alarms t) c fd} = 0" by (simp only: card.empty)
  show "scan_alarm now clock to (alarms t) c = alarms t"
    using assms by (force simp: timers.due_def scan_alarm_def fun_eq_iff split: option.splits)
qed

lemma tick_loop_scan:
  assumes "timer_ok t" and "0 < to" and "\<forall>fd. now \<le> clock fd"
  shows "\<exists>t' c'. tick_loop (expire_callback clock to) now t c = Some (t', c') \<and> timer_ok t'
    \<and> alarms t' = scan_alarm now clock to (alarms t) c \<and> users c' = scan_user now clock to (alarms t) c
    \<and> m_user_count c' = m_user_count c - int (card {fd. scan_closes now clock to (alarms t) c fd})"
  using assms(1)
proof (induction "card (timers.due now t)" arbitrary: t c rule: less_induct)
  case less
  note ok = \<open>timer_ok t\<close>
  show ?case
  proof (cases "timers.due now t = {}")
    case True
    then have "m_heap t = [] \<or> expire (m_heap t ! 0) > now"
      using timers.no_due_iff [OF ok, of now] by (auto simp: front_node_def split: if_splits)
    then have "tick_loop (expire_callback clock to) now t c = Some (t, c)"
      by (subst tick_loop.simps) (auto simp: Let_def)
    then show ?thesis using ok scan_settled [OF True, of clock to c] by simp
  next
    case False
    then obtain s x where front: "front_node t = Some (s, x)" and due: "x \<le> now"
      using timers.no_due_iff [OF ok, of now] by (cases "front_node t") auto
    obtain t1 c1 where cb: "expire_callback clock to s (delete_at 0 t, c) = (t1, c1)" by fastforce
    note round = scan_round [OF ok front due assms(2,3) cb]
    have "card (timers.due now t1) < card (timers.due now t)"
      unfolding round(2) by (rule card_Diff1_less [OF timers.finite_due [OF ok] round(3)])
    from less.hyps [OF this round(1), of c1] obtain t' c' where
      rec: "tick_loop (expire_callback clock to) now t1 c1 = Some (t', c')" and rest: "timer_ok t'"
      "alarms t' = scan_alarm now clock to (alarms t1) c1" "users c' = scan_user now clock to (alarms t1) c1"
      "m_user_count c' = m_user_count c1 - int (card {fd. scan_closes now clock to (alarms t1) c1 fd})"
      by blast
    have "m_heap t \<noteq> []" "sockfd (m_heap t ! 0) = s" "\<not> expire (m_heap t ! 0) > now"
      using front due by (auto simp: front_node_def split: if_splits)
    then have "tick_loop (expire_callback clock to) now t c = Some (t', c')"
      using rec cb by (subst tick_loop.simps) (simp add: Let_def)
    then show ?thesis using rest round by auto
  qed
qed

text \<open>
  Property C34. A scan of the idle timers ends and does exactly what it is for: every open
  connection whose alarm is due and that has been idle for the timeout is closed and counted
  out, a due one that was active since is re-armed, a due alarm of a closed connection is
  dropped, and every other alarm and connection is untouched; no due alarm is left.
\<close>

theorem scan_timeout_closes_idle:
  assumes "timer_ok (m_timer_heap r)" and "0 < conn_timeout" and "\<forall>fd. now \<le> clock fd"
  shows "\<exists>r'. scan_timeout now clock conn_timeout r = Some r' \<and> timer_ok (m_timer_heap r')
    \<and> alarms (m_timer_heap r') = scan_alarm now clock conn_timeout (alarms (m_timer_heap r)) (m_table r)
    \<and> users (m_table r') = scan_user now clock conn_timeout (alarms (m_timer_heap r)) (m_table r)
    \<and> m_user_count (m_table r') = m_user_count (m_table r) -
        int (card {fd. scan_closes now clock conn_timeout (alarms (m_timer_heap r)) (m_table r) fd})
    \<and> m_pending_connections r' = m_pending_connections r"
  using tick_loop_scan [OF assms, of "m_table r"] by (auto simp: scan_timeout_def tick_def)

subsection \<open>Steps of the reactor\<close>

text \<open>
  The steps that change a reactor: a dispatched socket, the drained notification, an event whose
  I/O leaves the socket of that connection as it is or closes it, a scan, and a pool thread
  that works on a connection or closes it. The kernel hands out a socket number only while it
  is not in use, so a socket that is registered is not open and is queued once.
\<close>

definition io_ok :: "int \<Rightarrow> conn_table \<Rightarrow> conn_table \<Rightarrow> bool" where
  "io_ok fd c c' \<longleftrightarrow> c' = close_conn fd c \<or> (\<exists>now. c' = c\<lparr>users := (users c)(fd := (users c fd)\<lparr>u_last_active := now\<rparr>)\<rparr>)"

definition fresh_sockets :: "reactor \<Rightarrow> bool" where
  "fresh_sockets r \<longleftrightarrow> distinct (m_pending_connections r)
     \<and> (\<forall>fd \<in> set (m_pending_connections r). \<not> is_open (m_table r) fd)"

inductive reactor_step :: "int \<Rightarrow> reactor \<Rightarrow> reactor \<Rightarrow> bool" for timeout :: int where
  step_dispatch: "dispatch ws fd r = Some (b, r') \<Longrightarrow> reactor_step timeout r r'"
| step_notify: "fresh_sockets r \<Longrightarrow> handle_notify stop now timeout xs r = Some r' \<Longrightarrow> reactor_step timeout r r'"
| step_event: "io_ok fd (m_table r) (io (m_table r)) \<Longrightarrow>
    reactor_step timeout r (handle_event io now timeout k fd r)"
| step_scan: "\<forall>fd. now \<le> clock fd \<Longrightarrow> scan_timeout now clock timeout r = Some r' \<Longrightarrow> reactor_step timeout r r'"
| step_worker: "io_ok fd (m_table r) c \<Longrightarrow> reactor_step timeout r (r\<lparr>m_table := c\<rparr>)"

inductive reachable :: "int \<Rightarrow> reactor \<Rightarrow> bool" for timeout :: int where
  reachable_start: "m_timer_heap r = empty_timers \<Longrightarrow> m_pending_connections r = [] \<Longrightarrow>
    (\<forall>fd. \<not> is_open (m_table r) fd) \<Longrightarrow> m_user_count (m_table r) = 0 \<Longrightarrow> reachable timeout r"
| reachable_step: "reachable timeout r \<Longrightarrow> reactor_step timeout r r' \<Longrightarrow> reachable timeout r'"

inductive_cases reactor_stepE: "reactor_step timeout r r'"

definition open_set :: "conn_table \<Rightarrow> int set" where
  "open_set c = {fd. is_open c fd}"

text \<open>No open connection without an alarm, and the user count is the number of open ones.\<close>

definition reactor_ok :: "reactor \<Rightarrow> bool" where
  "reactor_ok r \<longleftrightarrow> timer_ok (m_timer_heap r) \<and> open_set (m_table r) \<subseteq> dom (alarms (m_timer_heap r))
     \<and> m_user_count (m_table r) = int (card (open_set (m_table r)))"

lemma open_set_finite: "reactor_ok r \<Longrightarrow> finite (open_set (m_table r))"
  by (rule finite_subset [OF _ timers.finite_armed]) (auto simp: reactor_ok_def)

lemma open_set_close: "open_set (close_conn fd c) = open_set c - {fd}"
  by (auto simp: open_set_def)

lemma close_conn_card:
  assumes "finite (open_set c)" "m_user_count c = int (card (open_set c))"
  shows "m_user_count (close_conn fd c) = int (card (open_set (close_conn fd c)))"
proof (cases "fd \<in> open_set c")
  case True
  then have "Suc (card (open_set c - {fd})) = card (open_set c)" using assms(1) by (rule card_Suc_Diff1 [rotated])
  then show ?thesis using True assms(2) by (simp add: open_set_close close_conn_count) (simp add: open_set_def)
next
  case False
  then show ?thesis using assms(2) by (simp add: open_set_close close_conn_count) (simp add: open_set_def)
qed

lemma io_ok_reactor:
  assumes ok: "reactor_ok r" and io: "io_ok fd (m_table r) c"
  shows "reactor_ok (r\<lparr>m_table := c\<rparr>)"
  using io unfolding io_ok_def
proof (elim disjE exE)
  assume c: "c = close_conn fd (m_table r)"
  show ?thesis
    using ok close_conn_card [OF open_set_finite [OF ok]] unfolding c reactor_ok_def
    by (auto simp: open_set_close)
next
  fix now assume c: "c = (m_table r)\<lparr>users := (users (m_table r))(fd := (users (m_table r) fd)\<lparr>u_last_active := now\<rparr>)\<rparr>"
  have "open_set c = open_set (m_table r)" unfolding c by (auto simp: open_set_def is_open_def)
  then show ?thesis using ok unfolding reactor_ok_def c by simp
qed

lemma refresh_timer_ok: "reactor_ok r \<Longrightarrow> reactor_ok (refresh_timer now to fd r)"
  using timers.arm by (auto simp: reactor_ok_def refresh_timer_def)

lemma remove_connection_ok:
  "reactor_ok r \<Longrightarrow> \<not> is_open (m_table r) fd \<Longrightarrow> reactor_ok (remove_connection fd r)"
  using timers.cancel by (auto simp: reactor_ok_def remove_connection_def open_set_def)

lemma register_connection_ok:
  assumes ok: "reactor_ok r" and new: "\<not> is_open (m_table r) fd" and fd: "0 < fd"
  shows "reactor_ok (register_connection now to fd r)"
    and "open_set (m_table (register_connection now to fd r)) = insert fd (open_set (m_table r))"
proof -
  let ?c = "init_conn now fd (m_table r)"
  have op: "open_set ?c = insert fd (open_set (m_table r))"
    using fd by (auto simp: open_set_def is_open_def init_conn_def)
  have opn: "is_open ?c fd" using op by (auto simp: open_set_def)
  have cnt: "m_user_count ?c = int (card (open_set ?c))"
    using ok new open_set_finite [OF ok] unfolding op by (simp add: reactor_ok_def init_conn_def open_set_def)
  have r': "register_connection now to fd r
      = r\<lparr>m_table := ?c, m_timer_heap := add_or_update now fd to (m_timer_heap r)\<rparr>"
    using opn by (simp add: register_connection_def refresh_timer_def)
  show "reactor_ok (register_connection now to fd r)"
    using ok timers.arm [of "m_timer_heap r" now fd to] cnt unfolding r' reactor_ok_def by (auto simp: op)
  show "open_set (m_table (register_connection now to fd r)) = insert fd (open_set (m_table r))"
    unfolding r' using op by simp
qed

lemma drain_pending_ok:
  "reactor_ok r \<Longrightarrow> fresh_sockets r \<Longrightarrow> reactor_ok (drain_pending now to r)"
proof (induction now to r rule: drain_pending.induct)
  case (1 now to r)
  show ?case
  proof (cases "m_pending_connections r")
    case Nil
    then show ?thesis using 1 by (subst drain_pending.simps) simp
  next
    case (Cons fd rest)
    let ?r1 = "r\<lparr>m_pending_connections := rest\<rparr>"
    let ?r2 = "if fd > 0 then register_connection now to fd ?r1 else ?r1"
    have ok1: "reactor_ok ?r1" and new: "\<not> is_open (m_table ?r1) fd"
      using 1(2,3) Cons by (auto simp: reactor_ok_def fresh_sockets_def)
    have "reactor_ok ?r2" using register_connection_ok(1) [OF ok1 new] ok1 by simp
    moreover have "open_set (m_table ?r2) \<subseteq> insert fd (open_set (m_table r))"
      using register_connection_ok(2) [OF ok1 new] by auto
    then have "fresh_sockets ?r2"
      using 1(3) Cons by (auto simp: fresh_sockets_def open_set_def)
    ultimately show ?thesis
      using 1(1) [OF Cons refl] Cons by (subst drain_pending.simps) (simp add: Let_def)
  qed
qed

lemma drain_pending_empty: "m_pending_connections (drain_pending now to r) = []"
proof (induction now to r rule: drain_pending.induct)
  case (1 now to r)
  then show ?case by (subst drain_pending.simps) (simp add: Let_def split: list.split)
qed

lemma handle_notify_ok:
  "handle_notify stop now to xs r = Some r' \<Longrightarrow> reactor_ok r \<Longrightarrow> fresh_sockets r \<Longrightarrow> reactor_ok r'"
proof (induction xs arbitrary: r)
  case (Cons x xs)
  have "fresh_sockets (drain_pending now to r)"
    by (simp add: fresh_sockets_def drain_pending_empty)
  then show ?case
    using Cons drain_pending_ok [OF Cons.prems(2,3)] by (auto split: notify_read.splits if_splits)
qed simp

lemma handle_event_ok:
  assumes ok: "reactor_ok r" and io: "io_ok fd (m_table r) (io (m_table r))"
  shows "reactor_ok (handle_event io now to k fd r)"
proof -
  have closed: "reactor_ok (r\<lparr>m_table := close_conn fd (m_table r)\<rparr>)"
    by (rule io_ok_reactor [OF ok, of fd]) (simp add: io_ok_def)
  show ?thesis
    using closed io_ok_reactor [OF ok io]
    by (cases k) (auto simp: handle_event_def Let_def intro!: remove_connection_ok refresh_timer_ok)
qed

lemma scan_user_open:
  "is_open c' fd \<longleftrightarrow> is_open c fd \<and> \<not> scan_closes now clock to a c fd"
  if "users c' = scan_user now clock to a c"
  using that by (auto simp: is_open_def scan_user_def scan_closes_def)

lemma scan_timeout_ok:
  assumes ok: "reactor_ok r" and to: "0 < to" and clk: "\<forall>fd. now \<le> clock fd"
    and run: "scan_timeout now clock to r = Some r'"
  shows "reactor_ok r'"
proof -
  let ?a = "alarms (m_timer_heap r)" and ?c = "m_table r"
  let ?closed = "{fd. scan_closes now clock to ?a ?c fd}"
  have t: "timer_ok (m_timer_heap r)" and sub: "open_set ?c \<subseteq> dom ?a"
    and cnt: "m_user_count ?c = int (card (open_set ?c))" using ok by (auto simp: reactor_ok_def)
  obtain r1 where r1: "scan_timeout now clock to r = Some r1" "timer_ok (m_timer_heap r1)"
    "alarms (m_timer_heap r1) = scan_alarm now clock to ?a ?c"
    "users (m_table r1) = scan_user now clock to ?a ?c"
    "m_user_count (m_table r1) = m_user_count ?c - int (card ?closed)"
    using tick_loop_scan [OF t to clk, of ?c] by (auto simp: scan_timeout_def tick_def)
  have r': "r' = r1" using run r1(1) by simp
  have op: "open_set (m_table r1) = open_set ?c - ?closed"
    using scan_user_open [OF r1(4)] by (auto simp: open_set_def)
  have "?closed \<subseteq> open_set ?c" by (auto simp: scan_closes_def open_set_def)
  then have "card (open_set (m_table r1)) = card (open_set ?c) - card ?closed" "card ?closed \<le> card (open_set ?c)"
    using open_set_finite [OF ok] unfolding op by (auto intro: card_Diff_subset finite_subset card_mono)
  then have "m_user_count (m_table r1) = int (card (open_set (m_table r1)))"
    using r1(5) cnt by (simp add: of_nat_diff)
  moreover have "open_set (m_table r1) \<subseteq> dom (alarms (m_timer_heap r1))"
  proof
    fix fd assume "fd \<in> open_set (m_table r1)"
    then have "is_open ?c fd" "\<not> scan_closes now clock to ?a ?c fd" unfolding op by (auto simp: open_set_def)
    moreover from this(1) obtain x where "?a fd = Some x" using sub by (auto simp: open_set_def)
    ultimately show "fd \<in> dom (alarms (m_timer_heap r1))"
      unfolding r1(3) by (auto simp: scan_alarm_def scan_closes_def)
  qed
  ultimately show ?thesis unfolding r' reactor_ok_def using r1(2) by blast
qed

lemma reactor_step_ok: "reactor_step to r r' \<Longrightarrow> 0 < to \<Longrightarrow> reactor_ok r \<Longrightarrow> reactor_ok r'"
proof (induction rule: reactor_step.induct)
  case (step_dispatch ws fd r b r')
  then show ?case by (auto simp: dispatch_def reactor_ok_def Let_def split: option.splits bool.splits)
next
  case (step_notify r stop now xs r')
  show ?case by (rule handle_notify_ok [OF step_notify(2,4,1)])
next
  case (step_event fd r io now k)
  show ?case by (rule handle_event_ok [where io = io, OF step_event(3,1)])
next
  case (step_scan now clock r r')
  show ?case by (rule scan_timeout_ok [OF step_scan(4,3,1,2)])
next
  case (step_worker fd r c)
  show ?case by (rule io_ok_reactor [OF step_worker(3,1)])
qed


text \<open>A reactor that registered the sockets 5 and 6, then scans: 5 was active, 6 was not.\<close>

definition sample_start :: reactor where
  "sample_start = \<lparr>m_timer_heap = empty_timers, m_pending_connections = [],
     m_table = \<lparr>users = (\<lambda>_. \<lparr>u_sockfd = - 1, u_last_active = 0\<rparr>), m_user_count = 0\<rparr>\<rparr>"

definition sample_reactor :: reactor where
  "sample_reactor = drain_pending 0 15 (sample_start\<lparr>m_pending_connections := [5, 6]\<rparr>)"

lemma sample_reactor_value:
  "sample_reactor = \<lparr>m_timer_heap = \<lparr>m_heap = [\<lparr>sockfd = 5, expire = 15\<rparr>, \<lparr>sockfd = 6, expire = 15\<rparr>],
       m_index = [5 \<mapsto> 0, 6 \<mapsto> 1]\<rparr>, m_pending_connections = [],
     m_table = \<lparr>users = (\<lambda>_. \<lparr>u_sockfd = - 1, u_last_active = 0\<rparr>)
       (5 := \<lparr>u_sockfd = 5, u_last_active = 0\<rparr>, 6 := \<lparr>u_sockfd = 6, u_last_active = 0\<rparr>), m_user_count = 2\<rparr>\<rparr>"
  by (simp add: sample_reactor_def sample_start_def drain_pending.simps register_connection_def
      refresh_timer_def init_conn_def is_open_def add_or_update_def empty_timers_def sift_up.simps
      parent_of_def)

lemma sample_reachable: "reachable 15 sample_reactor"
proof -
  let ?r0 = sample_start
  let ?r1 = "?r0\<lparr>m_pending_connections := [5]\<rparr>" and ?r2 = "?r0\<lparr>m_pending_connections := [5, 6]\<rparr>"
  have "reachable 15 ?r0"
    by (rule reachable_start) (simp_all add: sample_start_def is_open_def)
  moreover have "dispatch [Written] 5 ?r0 = Some (True, ?r1)"
    by (simp add: dispatch_def sample_start_def)
  ultimately have r1: "reachable 15 ?r1" by (blast intro: reachable_step step_dispatch)
  have "dispatch [Interrupted, Written] 6 ?r1 = Some (True, ?r2)"
    by (simp add: dispatch_def sample_start_def)
  with r1 have r2: "reachable 15 ?r2" by (blast intro: reachable_step step_dispatch)
  have "fresh_sockets ?r2" by (simp add: fresh_sockets_def sample_start_def is_open_def)
  moreover have "handle_notify False 0 15 [ReadReady, ReadAgain] ?r2 = Some sample_reactor"
    by (simp add: sample_reactor_def)
  ultimately show ?thesis by (blast intro: reachable_step [OF r2] step_notify)
qed


definition sample_active :: reactor where
  "sample_active = sample_reactor\<lparr>m_table := (m_table sample_reactor)\<lparr>users :=
     (users (m_table sample_reactor))(5 := \<lparr>u_sockfd = 5, u_last_active = 10\<rparr>)\<rparr>\<rparr>"

theorem scan_timeout_closes_idle_witness:
  "\<exists>r'. scan_timeout 20 (\<lambda>_. 21) 15 sample_active = Some r' \<and> alarms (m_timer_heap r') 5 = Some 36
     \<and> alarms (m_timer_heap r') 6 = None \<and> is_open (m_table r') 5 \<and> \<not> is_open (m_table r') 6"
proof -
  have "io_ok 5 (m_table sample_reactor) (m_table sample_active)"
    unfolding io_ok_def sample_active_def by (intro disjI2 exI [of _ 10]) (simp add: sample_reactor_value)
  then have "reachable 15 sample_active"
    using reachable_step [OF sample_reachable step_worker [of 5 sample_reactor "m_table sample_active"]]
    by (simp add: sample_active_def)
  then have "reactor_ok sample_active" by (induction rule: reachable.induct)
    (use reactor_step_ok in \<open>auto simp: reactor_ok_def open_set_def\<close>)
  then have ok: "timer_ok (m_timer_heap sample_active)" by (simp add: reactor_ok_def)
  have al: "alarms (m_timer_heap sample_active) = [5 \<mapsto> 15, 6 \<mapsto> 15]"
    by (simp add: sample_active_def sample_reactor_value alarms_def fun_eq_iff)
  have us: "users (m_table sample_active) 5 = \<lparr>u_sockfd = 5, u_last_active = 10\<rparr>"
    "users (m_table sample_active) 6 = \<lparr>u_sockfd = 6, u_last_active = 0\<rparr>"
    by (simp_all add: sample_active_def sample_reactor_value)
  show ?thesis
    using scan_timeout_closes_idle [OF ok, of 15 20 "\<lambda>_. 21"]
    by (auto simp: al us scan_alarm_def scan_user_def scan_closes_def is_open_def)
qed

end
