(* ===== verification/File_Response.thy ===== *)
theory File_Response
  imports Request_Parser
begin

text \<open>
  Opening a stored file for download (src/http/files/file_response.cpp): the guess of its type
  and name, and the \<open>Content-Disposition\<close> header. The file system is an argument: what \<open>stat\<close>
  and \<open>open\<close> give for a path, and the first bytes an \<open>ifstream\<close> on it delivers.
\<close>

subsection \<open>Types and names\<close>

definition ends_with_ignore_case :: "string \<Rightarrow> string \<Rightarrow> bool" where
  "ends_with_ignore_case value suffix \<longleftrightarrow>
     length suffix \<le> length value \<and>
     map tolower (drop (length value - length suffix) value) = map tolower suffix"

definition has_filename_extension :: "string \<Rightarrow> bool" where
  "has_filename_extension name =
     (case find_last_of ''.'' name of
        None \<Rightarrow> False
      | Some dot \<Rightarrow>
          (case find_last_of [CHR ''/'', BACKSLASH] name of None \<Rightarrow> True | Some slash \<Rightarrow> dot > slash + 1)
          \<and> dot + 1 < length name)"

definition content_type_extension :: "string \<Rightarrow> string" where
  "content_type_extension content_type =
     (let lowered = map tolower content_type;
          type = (case find_char (CHR '';'') lowered of None \<Rightarrow> lowered | Some i \<Rightarrow> take i lowered)
      in if type = ''image/jpeg'' \<or> type = ''image/jpg'' then ''.jpg''
         else if type = ''image/png'' then ''.png''
         else if type = ''image/gif'' then ''.gif''
         else if type = ''image/webp'' then ''.webp''
         else if type = ''image/bmp'' then ''.bmp''
         else if type = ''image/svg+xml'' then ''.svg''
         else if type = ''video/mp4'' then ''.mp4''
         else if type = ''audio/mpeg'' then ''.mp3''
         else if type = ''application/pdf'' then ''.pdf''
         else if type = ''application/zip'' then ''.zip''
         else if type = ''application/json'' then ''.json''
         else if type = ''text/plain'' then ''.txt''
         else if type = ''text/html'' then ''.html''
         else [])"

text \<open>Byte order marks and white space before the document.\<close>

fun skip_preamble :: "string \<Rightarrow> string" where
  "skip_preamble [] = []"
| "skip_preamble (a # s) =
     (if a = CHR 0xEF \<and> length s \<ge> 2 \<and> s ! 0 = CHR 0xBB \<and> s ! 1 = CHR 0xBF then skip_preamble (drop 2 s)
      else if isspace a then skip_preamble s
      else a # s)"

text \<open>\<open>compare(0, n, lit) == 0\<close>: the first \<open>n\<close> bytes, or as many as there are, are the literal.\<close>

definition compare_prefix :: "string \<Rightarrow> nat \<Rightarrow> string \<Rightarrow> bool" where
  "compare_prefix s n lit \<longleftrightarrow> take n s = lit"

definition html_prefix :: "string \<Rightarrow> bool" where
  "html_prefix prefix \<longleftrightarrow>
     compare_prefix prefix 15 ''<!DOCTYPE html''
     \<or> compare_prefix prefix 5 ''<html''
     \<or> compare_prefix prefix 14 ''<!doctype html''"

record file_env =
  fe_stat :: "string \<Rightarrow> (bool \<times> int) option"
  fe_open :: "string \<Rightarrow> string option"
  fe_read :: "string \<Rightarrow> string option"

text \<open>\<open>fe_stat\<close> tells a directory and the size, \<open>fe_open\<close> gives the contents of what was opened,
  \<open>fe_read\<close> the bytes a stream on the path delivers, \<open>None\<close> when it does not open.\<close>

definition starts_with_html_document :: "file_env \<Rightarrow> string \<Rightarrow> bool" where
  "starts_with_html_document fs path =
     (case fe_read fs (c_str path) of
        None \<Rightarrow> False
      | Some bytes \<Rightarrow> let sample = take 256 bytes in sample \<noteq> [] \<and> html_prefix (skip_preamble sample))"

definition html_type :: string where "html_type = ''text/html; charset=utf-8''"

definition normalize_download_metadata :: "file_env \<Rightarrow> string \<Rightarrow> string \<Rightarrow> string \<Rightarrow> string \<times> string" where
  "normalize_download_metadata fs path content_type name0 =
     (let name = (if name0 = [] then ''download'' else name0) in
      if ends_with_ignore_case name ''.html'' \<or> ends_with_ignore_case name ''.htm'' then
        (if content_type = [] \<or> content_type = ''text/plain'' \<or> content_type = ''application/octet-stream''
         then html_type else content_type, name)
      else if (content_type = ''text/plain'' \<or> content_type = ''application/octet-stream'')
              \<and> starts_with_html_document fs path
      then (html_type, if \<not> has_filename_extension name then name @ ''.html'' else name)
      else (content_type, if \<not> has_filename_extension name then name @ content_type_extension content_type else name))"

subsection \<open>Opening\<close>

definition FILENAME_LEN :: nat where "FILENAME_LEN = 200"

definition disposition :: "string \<Rightarrow> string" where
  "disposition name =
     ''Content-Disposition: attachment; filename='' @ [QUOTE] @ sanitize_download_filename name @ [QUOTE]
     @ ''; filename*=UTF-8'' @ [CHR 0x27, CHR 0x27] @ encode_download_filename name @ [CR, LF]"

definition open_managed_file :: "file_env \<Rightarrow> string \<Rightarrow> string \<Rightarrow> string \<Rightarrow> http_conn \<Rightarrow> bool \<times> http_conn" where
  "open_managed_file fs path content_type download_name c =
     (let real_file = take (FILENAME_LEN - 1) (c_str path) in
      case fe_stat fs real_file of
        None \<Rightarrow> (False, c)
      | Some (is_dir, st_size) \<Rightarrow>
          (let c1 = c\<lparr>m_file_size := st_size\<rparr> in
           if is_dir then (False, c1)
           else (case fe_open fs real_file of
                   None \<Rightarrow> (False, c1\<lparr>m_filefd := None\<rparr>)
                 | Some bytes \<Rightarrow>
                     (let (type, name) = normalize_download_metadata fs path
                           (if content_type = [] then ''application/octet-stream'' else content_type)
                           (if download_name = [] then ''download'' else download_name)
                      in (True, c1\<lparr>m_filefd := Some bytes, m_file_pos := 0, m_response_content_type := take 255 (c_str type),
                            m_extra_headers := disposition name\<rparr>)))))"

subsection \<open>Correctness\<close>

lemma download_char_not_break: "download_char c \<Longrightarrow> c \<noteq> CR \<and> c \<noteq> LF \<and> c \<noteq> NUL \<and> c \<noteq> QUOTE"
  by (auto simp: download_char_def)

lemma unreserved_not_break: "unreserved c \<or> c = CHR ''%'' \<Longrightarrow> c \<noteq> CR \<and> c \<noteq> LF \<and> c \<noteq> NUL"
  by (auto simp: unreserved_def ctype_defs)

text \<open>A text of complete header lines: a sequence of lines without CR, LF and NUL, each ended by CRLF.\<close>

definition line_text :: "string \<Rightarrow> bool" where
  "line_text s \<longleftrightarrow> (\<forall>c \<in> set s. c \<noteq> CR \<and> c \<noteq> LF \<and> c \<noteq> NUL)"

lemma line_text_append [simp]: "line_text (a @ b) \<longleftrightarrow> line_text a \<and> line_text b"
  by (auto simp: line_text_def)

lemma line_text_Cons [simp]: "line_text (a # b) \<longleftrightarrow> a \<noteq> CR \<and> a \<noteq> LF \<and> a \<noteq> NUL \<and> line_text b"
  by (auto simp: line_text_def)

lemma line_text_Nil [simp]: "line_text []"
  by (simp add: line_text_def)

lemma line_text_sanitized: "line_text (sanitize_download_filename v)"
  using sanitize_download_filename_header_safe [of v] download_char_not_break by (auto simp: line_text_def)

lemma line_text_encoded: "line_text (encode_download_filename v)"
proof -
  have "\<forall>c \<in> set (percent_encode x). unreserved c \<or> c = CHR ''%''" for x
    by (simp add: percent_encode_def)
  then have "\<forall>c \<in> set (encode_download_filename v). unreserved c \<or> c = CHR ''%''"
    by (auto simp: encode_download_filename_def unreserved_def ctype_defs)
  then show ?thesis using unreserved_not_break unfolding line_text_def by blast
qed

lemma disposition_line: "\<exists>l. disposition name = l @ [CR, LF] \<and> line_text l"
  by (intro exI [of _ "butlast (butlast (disposition name))"])
     (simp add: disposition_def butlast_append line_text_sanitized line_text_encoded)

text \<open>
  When a stored file is opened for download, the reply announces the contents of the
  regular file at that path, and the header made from the name the uploader chose is one header
  line: it contains no CR, LF or NUL before its end, so a file name cannot add headers or a body.
\<close>

lemma open_managed_file_one_header_line:
  assumes "open_managed_file fs path content_type download_name c = (True, c')"
  shows "\<exists>l bytes. m_extra_headers c' = l @ [CR, LF] \<and> line_text l
    \<and> m_filefd c' = Some bytes \<and> fe_open fs (take 199 (c_str path)) = Some bytes
    \<and> fe_stat fs (take 199 (c_str path)) = Some (False, m_file_size c')"
  using assms disposition_line
  by (auto simp: open_managed_file_def Let_def FILENAME_LEN_def split: option.splits if_splits prod.splits)

definition sample_fs :: file_env where
  "sample_fs = \<lparr>fe_stat = (\<lambda>p. Some (False, 3)), fe_open = (\<lambda>p. Some ''abc''), fe_read = (\<lambda>p. Some ''abc'')\<rparr>"

lemma open_managed_file_one_header_line_witness:
  "let c = snd (open_managed_file sample_fs ''/srv/uploads/f1'' [] (''a'' @ [CR, LF] ) (fresh_conn 8)) in
     \<exists>l bytes. m_extra_headers c = l @ [CR, LF] \<and> line_text l \<and> m_filefd c = Some bytes"
proof -
  have "open_managed_file sample_fs ''/srv/uploads/f1'' [] (''a'' @ [CR, LF]) (fresh_conn 8)
      = (True, snd (open_managed_file sample_fs ''/srv/uploads/f1'' [] (''a'' @ [CR, LF]) (fresh_conn 8)))"
    by (simp add: open_managed_file_def sample_fs_def Let_def split: prod.splits)
  from open_managed_file_one_header_line [OF this] show ?thesis by (auto simp: Let_def)
qed

text \<open>
  A document that opens with \<open><!DOCTYPE html\<close> and goes on, as every such document does
  with the closing bracket, is not recognised as HTML: 15 bytes are compared with a literal of 14.
\<close>

lemma uppercase_doctype_not_html:
  "\<not> html_prefix (''<!DOCTYPE html'' @ b # rest)"
  by (simp add: html_prefix_def compare_prefix_def)

end
