(* ===== verification/Response.thy ===== *)
theory Response
  imports File_Response
begin

text \<open>
  Writing a response (src/http/core/response.cpp): the formatted lines are appended to the write
  ring, which grows as needed. A \<open>%s\<close> argument is a C string, so a body stops at its first NUL.
  A writer gives its \<open>bool\<close> result with the connection, or the overflow of the growth loop.
\<close>

subsection \<open>Writers\<close>

type_synonym writer = "http_conn \<Rightarrow> (bool \<times> http_conn) cxx"

text \<open>\<open>and_then\<close> is the short circuit of the conditions, \<open>and_also\<close> the sequence that ignores a result.\<close>

definition and_then :: "writer \<Rightarrow> writer \<Rightarrow> writer" where
  "and_then f g c = (case f c of Inl u \<Rightarrow> Inl u | Inr (b, c') \<Rightarrow> if b then g c' else Inr (False, c'))"

definition and_also :: "writer \<Rightarrow> writer \<Rightarrow> writer" where
  "and_also f g c = (case f c of Inl u \<Rightarrow> Inl u | Inr (b, c') \<Rightarrow> g c')"

definition add_response :: "string \<Rightarrow> writer" where
  "add_response text c =
     (if int (length text) > INT_MAX then Inr (False, c)
      else let need = int (rb_size (m_write_ring c)) + int (length text) in
        if need > INT_MAX then Inl SignedOverflow
        else (case ensure_write_capacity need c of
                Inl u \<Rightarrow> Inl u
              | Inr (b, c1) \<Rightarrow>
                  if \<not> b then Inr (False, c1)
                  else (case ring_append (m_write_ring c1) text of
                          None \<Rightarrow> Inr (False, c1)
                        | Some r \<Rightarrow>
                            let n = rb_size r in
                            Inr (True, c1\<lparr>m_write_ring := r, m_write_idx := n,
                              m_write_buf := (blit (m_write_buf c1) 0 (ring_peek r n))[n := NUL]\<rparr>))))"

definition add_status_line :: "int \<Rightarrow> string \<Rightarrow> writer" where
  "add_status_line status title =
     add_response (''HTTP/1.1 '' @ int_to_string status @ '' '' @ c_str title @ [CR, LF])"

definition add_content_length :: "int \<Rightarrow> writer" where
  "add_content_length content_len = add_response (''Content-Length:'' @ int_to_string content_len @ [CR, LF])"

definition add_content_type :: "string \<Rightarrow> writer" where
  "add_content_type content_type = add_response (''Content-Type:'' @ c_str content_type @ [CR, LF])"

definition add_linger :: writer where
  "add_linger c = add_response (''Connection:'' @ (if m_linger c then ''keep-alive'' else ''close'') @ [CR, LF]) c"

definition add_keep_alive :: writer where
  "add_keep_alive c =
     (if \<not> m_linger c then Inr (True, c)
      else add_response (''Keep-Alive:'' @ ''timeout=15, max=100'' @ [CR, LF]) c)"

definition add_allow :: writer where
  "add_allow = add_response (''Allow:'' @ ''GET, POST, HEAD, OPTIONS, DELETE'' @ [CR, LF])"

definition add_blank_line :: writer where
  "add_blank_line = add_response [CR, LF]"

definition add_content :: "string \<Rightarrow> writer" where
  "add_content content = add_response (c_str content)"

definition add_extra_headers :: writer where
  "add_extra_headers c =
     (if m_extra_headers c \<noteq> [] then add_response (c_str (m_extra_headers c)) c else Inr (True, c))"

definition add_headers :: "int \<Rightarrow> string \<Rightarrow> writer" where
  "add_headers content_len content_type =
     and_then (add_content_length content_len) (and_then (add_content_type content_type)
       (and_then add_linger (and_then add_keep_alive (and_then add_allow
         (and_then add_extra_headers add_blank_line)))))"

subsection \<open>The reply to a request\<close>

text \<open>The assignments before \<open>process_write\<close> returns true; \<open>extra\<close> is the size of a file.\<close>

definition announce :: "int \<Rightarrow> writer" where
  "announce extra c =
     Inr (True, c\<lparr>bytes_to_send := narrow_int (int (m_write_idx c) + extra), m_header_bytes_sent := 0, m_file_offset := 0\<rparr>)"

definition error_reply :: "int \<Rightarrow> string \<Rightarrow> string \<Rightarrow> string \<Rightarrow> writer" where
  "error_reply status title form content_type =
     and_also (add_status_line status title)
       (and_also (add_headers (int (length form)) content_type) (and_then (add_content form) (announce 0)))"

definition kError500Form :: string where
  "kError500Form = ''There was an unusual problem serving the request file.'' @ [LF]"
definition kError400Form :: string where
  "kError400Form = ''Your request has bad syntax or is inherently impossible to staisfy.'' @ [LF]"
definition kError404Form :: string where
  "kError404Form = ''The requested file was not found on this server.'' @ [LF]"
definition kError403Form :: string where
  "kError403Form = ''You do not have permission to get file form this server.'' @ [LF]"
definition kError501Form :: string where
  "kError501Form = ''The requested HTTP feature is not implemented.'' @ [LF]"
definition kError413Form :: string where
  "kError413Form = ''The request payload exceeds the configured upload limit.'' @ [LF]"

definition file_type :: "http_conn \<Rightarrow> string" where
  "file_type c = (if m_response_content_type c \<noteq> [] then m_response_content_type c else ''application/octet-stream'')"

text \<open>\<open>m_response_body_len\<close> is an \<open>int\<close>.\<close>

definition m_response_body_len :: "http_conn \<Rightarrow> int" where
  "m_response_body_len c = narrow_int (int (length (m_response_body_storage c)))"

definition memory_reply :: writer where
  "memory_reply c =
     and_also (add_status_line (m_response_status c) (m_response_status_title c))
       (and_also (add_headers (m_response_body_len c) (m_response_content_type c))
         (and_then (if m_response_body_len c > 0 then add_content (m_response_body_storage c) else (\<lambda>c. Inr (True, c)))
           (announce 0))) c"

definition file_reply :: writer where
  "file_reply c =
     and_also (add_status_line 200 ''OK'')
       (if m_method c = HEAD then
          and_also (add_headers (narrow_int (m_file_size c)) (file_type c)) (\<lambda>c. announce 0 (close_file c))
        else if m_file_size c \<noteq> 0 then
          and_also (add_headers (narrow_int (m_file_size c)) (file_type c)) (announce (m_file_size c))
        else
          and_also (add_headers 26 ''text/html'') (and_then (add_content ''<html><body></body></html>'') (announce 0))) c"

definition process_write :: "http_code \<Rightarrow> writer" where
  "process_write ret =
     (case ret of
        INTERNAL_ERROR \<Rightarrow> error_reply 500 ''Internal Error'' kError500Form ''text/html''
      | BAD_REQUEST \<Rightarrow> error_reply 400 ''Bad Request'' kError400Form ''text/plain''
      | NO_RESOURCE \<Rightarrow> error_reply 404 ''Not Found'' kError404Form ''text/plain''
      | FORBIDDEN_REQUEST \<Rightarrow> error_reply 403 ''Forbidden'' kError403Form ''text/plain''
      | NOT_IMPLEMENTED \<Rightarrow> error_reply 501 ''Not Implemented'' kError501Form ''text/plain''
      | PAYLOAD_TOO_LARGE \<Rightarrow> error_reply 413 ''Payload Too Large'' kError413Form ''text/plain''
      | OPTIONS_REQUEST \<Rightarrow>
          and_also (add_status_line 204 ''OK'') (and_also (add_headers 0 ''text/plain'') (announce 0))
      | MEMORY_REQUEST \<Rightarrow> memory_reply
      | FILE_REQUEST \<Rightarrow> file_reply
      | _ \<Rightarrow> (\<lambda>c. Inr (False, c)))"

subsection \<open>What a writer appends\<close>

definition write_side_ok :: "http_conn \<Rightarrow> bool" where
  "write_side_ok c \<longleftrightarrow> ring_ok (m_write_ring c) \<and> length (m_write_buf c) = rb_capacity (m_write_ring c) + 1"

definition same_but_writing :: "http_conn \<Rightarrow> http_conn \<Rightarrow> bool" where
  "same_but_writing c c' \<longleftrightarrow>
     (\<exists>r b n f. c' = c\<lparr>m_write_ring := r, m_write_buf := b, m_write_idx := n, m_file_send_buf := f\<rparr>)"

text \<open>\<open>c'\<close> is \<open>c\<close> with \<open>t\<close> appended to what there is to write.\<close>

definition wrote :: "string \<Rightarrow> http_conn \<Rightarrow> http_conn \<Rightarrow> bool" where
  "wrote t c c' \<longleftrightarrow> write_side_ok c' \<and> ring_list (m_write_ring c') = ring_list (m_write_ring c) @ t
     \<and> (m_write_idx c' = rb_size (m_write_ring c') \<or> t = [] \<and> c' = c) \<and> same_but_writing c c'"

text \<open>A writer that succeeds from every connection that agrees with \<open>c\<close>, as long as the ring stays below 1 GiB.\<close>

definition appends :: "http_conn \<Rightarrow> string \<Rightarrow> writer \<Rightarrow> bool" where
  "appends c0 t w \<longleftrightarrow> (\<forall>c. write_side_ok c \<and> same_but_writing c0 c \<and> rb_size (m_write_ring c) + length t \<le> 2 ^ 30
      \<longrightarrow> (\<exists>c'. w c = Inr (True, c') \<and> wrote t c c'))"

lemma same_but_writing_trans: "same_but_writing a b \<Longrightarrow> same_but_writing b c \<Longrightarrow> same_but_writing a c"
  unfolding same_but_writing_def by auto metis

lemma same_but_writing_refl [simp]: "same_but_writing c c"
  unfolding same_but_writing_def
  by (rule exI [of _ "m_write_ring c"], rule exI [of _ "m_write_buf c"], rule exI [of _ "m_write_idx c"],
      rule exI [of _ "m_file_send_buf c"]) simp

lemma same_but_writing_fields:
  assumes "same_but_writing c c'"
  shows "m_linger c' = m_linger c" "m_extra_headers c' = m_extra_headers c"
    "m_response_body_storage c' = m_response_body_storage c" "m_filefd c' = m_filefd c" "m_file_size c' = m_file_size c"
  using assms by (auto simp: same_but_writing_def)

lemma wrote_trans: "wrote s a b \<Longrightarrow> wrote t b c \<Longrightarrow> wrote (s @ t) a c"
  by (auto simp: wrote_def intro: same_but_writing_trans)

lemma wrote_size: "wrote t c c' \<Longrightarrow> rb_size (m_write_ring c') = rb_size (m_write_ring c) + length t"
  by (metis length_append length_ring_list wrote_def)

lemma ensure_write_capacity_ok:
  assumes ok: "write_side_ok c" and req: "0 \<le> need" "need \<le> 2 ^ 30" "int (rb_size (m_write_ring c)) \<le> need"
  obtains c' where "ensure_write_capacity need c = Inr (True, c')" "write_side_ok c'" "same_but_writing c c'"
    "ring_list (m_write_ring c') = ring_list (m_write_ring c)" "need \<le> int (rb_capacity (m_write_ring c'))"
    "c' = c \<or> m_write_idx c' = m_write_idx c"
proof -
  let ?r = "m_write_ring c"
  define q where "q = (if need \<le> 0 then WRITE_BUFFER_INITIAL_SIZE else nat need)"
  have inv: "ring_ok ?r" "length (rb_buffer ?r) = rb_capacity ?r" "0 < rb_capacity ?r"
    "length (m_write_buf c) = rb_capacity ?r + 1" "rb_size ?r \<le> rb_capacity ?r"
    using ok by (auto simp: write_side_ok_def ring_ok_def)
  have q: "need \<le> int q" "q \<le> 2 ^ 30" using req by (auto simp: q_def WRITE_BUFFER_INITIAL_SIZE_def)
  show thesis
  proof (cases "q \<le> rb_capacity ?r")
    case True
    then have "ensure_write_capacity need c = Inr (True, c)"
      using inv by (simp add: ensure_write_capacity_def Let_def flip: q_def)
    then show thesis by (rule that) (use ok True q in auto)
  next
    case False
    obtain n where n: "write_growth (rb_capacity ?r) q = Inr n" using write_growth_defined [OF inv(3) q(2)] by blast
    then have b: "q \<le> n" using write_growth_bounds inv(3) by blast
    then have lt: "rb_size ?r < n" using False inv(5) by linarith
    note grown = regrown_ok [OF inv(1) lt]
    let ?b = "blit (replicate (n + 1) NUL) 0 (take (rb_size ?r) (blit (replicate n NUL) 0 (ring_peek ?r (rb_size ?r))))"
    let ?f = "if length (m_file_send_buf c) < n then replicate n NUL else m_file_send_buf c"
    let ?c = "c\<lparr>m_write_ring := regrown n ?r, m_write_buf := ?b, m_file_send_buf := ?f\<rparr>"
    have run: "ensure_write_capacity need c = Inr (True, ?c)"
      using inv(2-4) False n by (simp add: ensure_write_capacity_def Let_def regrown_def flip: q_def)
    have "same_but_writing c ?c"
      unfolding same_but_writing_def
      by (rule exI [of _ "regrown n ?r"], rule exI [of _ ?b], rule exI [of _ "m_write_idx c"], rule exI [of _ ?f]) simp
    moreover have "length ?b = n + 1" using lt ring_peek_list [OF inv(1), of "rb_size ?r"] by simp
    ultimately show thesis
      by (intro that [OF run]) (use grown b q in \<open>auto simp: write_side_ok_def\<close>)
  qed
qed

lemma add_response_appends: "appends c0 t (add_response t)"
  unfolding appends_def
proof (intro allI impI, elim conjE)
  fix c assume ok: "write_side_ok c" and room: "rb_size (m_write_ring c) + length t \<le> 2 ^ 30"
  define need where "need = int (rb_size (m_write_ring c)) + int (length t)"
  have need: "0 \<le> need" "need \<le> 2 ^ 30" "int (rb_size (m_write_ring c)) \<le> need" "\<not> need > INT_MAX" "\<not> int (length t) > INT_MAX"
    using room by (auto simp: need_def INT_MAX_def)
  obtain c1 where c1: "ensure_write_capacity need c = Inr (True, c1)" "write_side_ok c1" "same_but_writing c c1"
    "ring_list (m_write_ring c1) = ring_list (m_write_ring c)" "need \<le> int (rb_capacity (m_write_ring c1))"
    by (rule ensure_write_capacity_ok [OF ok need(1-3)])
  have "rb_size (m_write_ring c1) = rb_size (m_write_ring c)" using c1(4) by (metis length_ring_list)
  then have fits: "length t \<le> ring_writable (m_write_ring c1)" using c1(5) by (simp add: need_def ring_writable_def)
  have rok: "ring_ok (m_write_ring c1)" using c1(2) by (simp add: write_side_ok_def)
  obtain r where r: "ring_append (m_write_ring c1) t = Some r" "ring_ok r"
    "ring_list r = ring_list (m_write_ring c1) @ t" "rb_capacity r = rb_capacity (m_write_ring c1)"
    by (rule ring_append_ok [OF rok fits])
  let ?c = "c1\<lparr>m_write_ring := r, m_write_idx := rb_size r,
      m_write_buf := (blit (m_write_buf c1) 0 (ring_peek r (rb_size r)))[rb_size r := NUL]\<rparr>"
  have run: "add_response t c = Inr (True, ?c)"
    using c1(1) r(1) need(4,5) by (simp add: add_response_def Let_def flip: need_def)
  have "length (ring_peek r (rb_size r)) \<le> length (m_write_buf c1)"
    using ring_peek_list [OF r(2), of "rb_size r"] c1(2) r(2,4) by (simp add: write_side_ok_def ring_ok_def)
  then have "write_side_ok ?c" using c1(2) r(2,4) by (simp add: write_side_ok_def)
  moreover have "same_but_writing c1 ?c"
    unfolding same_but_writing_def
    by (rule exI [of _ r], rule exI [of _ "(blit (m_write_buf c1) 0 (ring_peek r (rb_size r)))[rb_size r := NUL]"],
        rule exI [of _ "rb_size r"], rule exI [of _ "m_file_send_buf c1"]) simp
  then have "same_but_writing c ?c" by (rule same_but_writing_trans [OF c1(3)])
  ultimately show "\<exists>c'. add_response t c = Inr (True, c') \<and> wrote t c c'"
    using run c1(4) r(3) by (auto simp: wrote_def)
qed

lemma appendsD:
  assumes "appends c0 t w" "write_side_ok c" "same_but_writing c0 c" "rb_size (m_write_ring c) + length t \<le> 2 ^ 30"
  obtains c' where "w c = Inr (True, c')" "wrote t c c'" "write_side_ok c'" "same_but_writing c0 c'"
proof -
  obtain c' where c': "w c = Inr (True, c')" "wrote t c c'" using assms unfolding appends_def by blast
  then show thesis using that same_but_writing_trans [OF assms(3)] by (auto simp: wrote_def)
qed

lemma appends_both:
  assumes "appends c0 s f" "appends c0 t g"
  shows "appends c0 (s @ t) (and_then f g)" "appends c0 (s @ t) (and_also f g)"
proof -
  have "\<exists>c'. and_then f g c = Inr (True, c') \<and> and_also f g c = Inr (True, c') \<and> wrote (s @ t) c c'"
    if c: "write_side_ok c" "same_but_writing c0 c" "rb_size (m_write_ring c) + length (s @ t) \<le> 2 ^ 30" for c
  proof -
    obtain c1 where c1: "f c = Inr (True, c1)" "wrote s c c1" "write_side_ok c1" "same_but_writing c0 c1"
      by (rule appendsD [OF assms(1) c(1,2)]) (use c(3) in simp)
    obtain c2 where c2: "g c1 = Inr (True, c2)" "wrote t c1 c2"
      by (rule appendsD [OF assms(2) c1(3,4)]) (use c(3) wrote_size [OF c1(2)] in simp)
    show ?thesis using c1 c2 wrote_trans [OF c1(2) c2(2)] by (simp add: and_then_def and_also_def)
  qed
  then show "appends c0 (s @ t) (and_then f g)" "appends c0 (s @ t) (and_also f g)"
    unfolding appends_def by blast+
qed

lemma appends_skip: "appends c0 [] (\<lambda>c. Inr (True, c))"
  by (auto simp: appends_def wrote_def)

lemma appends_cong: "(\<And>c. same_but_writing c0 c \<Longrightarrow> w c = w' c) \<Longrightarrow> appends c0 t w' \<Longrightarrow> appends c0 t w"
  by (simp add: appends_def)

subsection \<open>The text of a reply\<close>

definition header_lines :: "http_conn \<Rightarrow> int \<Rightarrow> string \<Rightarrow> string list" where
  "header_lines c len content_type =
     [''Content-Length:'' @ int_to_string len, ''Content-Type:'' @ c_str content_type,
      ''Connection:'' @ (if m_linger c then ''keep-alive'' else ''close'')]
     @ (if m_linger c then [''Keep-Alive:timeout=15, max=100''] else [])
     @ [''Allow:GET, POST, HEAD, OPTIONS, DELETE'']"

definition crlf_lines :: "string list \<Rightarrow> string" where
  "crlf_lines ls = concat (map (\<lambda>l. l @ [CR, LF]) ls)"

lemma crlf_lines_simps [simp]:
  "crlf_lines [] = []" "crlf_lines (l # ls) = l @ [CR, LF] @ crlf_lines ls" "crlf_lines (a @ b) = crlf_lines a @ crlf_lines b"
  by (simp_all add: crlf_lines_def)

definition head_text :: "http_conn \<Rightarrow> int \<Rightarrow> string \<Rightarrow> int \<Rightarrow> string \<Rightarrow> string" where
  "head_text c status title len content_type =
     crlf_lines ((''HTTP/1.1 '' @ int_to_string status @ '' '' @ c_str title) # header_lines c len content_type)
     @ c_str (m_extra_headers c) @ [CR, LF]"

lemma add_headers_appends:
  "appends c (crlf_lines (header_lines c len content_type) @ c_str (m_extra_headers c) @ [CR, LF]) (add_headers len content_type)"
proof -
  let ?e = "c_str (m_extra_headers c)"
  have linger: "appends c (''Connection:'' @ (if m_linger c then ''keep-alive'' else ''close'') @ [CR, LF]) add_linger"
    by (rule appends_cong [OF _ add_response_appends]) (simp add: add_linger_def same_but_writing_fields)
  have keep: "appends c (crlf_lines (if m_linger c then [''Keep-Alive:timeout=15, max=100''] else [])) add_keep_alive"
    by (rule appends_cong [where w' = "if m_linger c then add_response (''Keep-Alive:timeout=15, max=100'' @ [CR, LF]) else (\<lambda>c. Inr (True, c))"])
       (use add_response_appends appends_skip in \<open>auto simp: add_keep_alive_def same_but_writing_fields\<close>)
  have extra: "appends c ?e add_extra_headers"
    by (rule appends_cong [where w' = "if m_extra_headers c \<noteq> [] then add_response ?e else (\<lambda>c. Inr (True, c))"])
       (use add_response_appends appends_skip in \<open>auto simp: add_extra_headers_def same_but_writing_fields c_str_def\<close>)
  have "appends c ((''Content-Length:'' @ int_to_string len @ [CR, LF]) @ (''Content-Type:'' @ c_str content_type @ [CR, LF])
      @ (''Connection:'' @ (if m_linger c then ''keep-alive'' else ''close'') @ [CR, LF])
      @ crlf_lines (if m_linger c then [''Keep-Alive:timeout=15, max=100''] else [])
      @ (''Allow:'' @ ''GET, POST, HEAD, OPTIONS, DELETE'' @ [CR, LF]) @ ?e @ [CR, LF]) (add_headers len content_type)"
    unfolding add_headers_def add_content_length_def add_content_type_def add_allow_def add_blank_line_def
    by (intro appends_both(1) add_response_appends linger keep extra)
  then show ?thesis by (simp add: header_lines_def)
qed

lemma head_appends:
  assumes "appends c t w"
  shows "appends c (head_text c status title len content_type @ t)
    (and_also (add_status_line status title) (and_also (add_headers len content_type) w))"
proof -
  have "appends c ((''HTTP/1.1 '' @ int_to_string status @ '' '' @ c_str title @ [CR, LF])
      @ (crlf_lines (header_lines c len content_type) @ c_str (m_extra_headers c) @ [CR, LF]) @ t)
    (and_also (add_status_line status title) (and_also (add_headers len content_type) w))"
    unfolding add_status_line_def by (intro appends_both(2) add_response_appends add_headers_appends assms)
  then show ?thesis by (simp add: head_text_def)
qed

lemma head_only_appends:
  "appends c (head_text c status title len content_type) (and_also (add_status_line status title) (add_headers len content_type))"
proof -
  have "appends c ((''HTTP/1.1 '' @ int_to_string status @ '' '' @ c_str title @ [CR, LF])
      @ (crlf_lines (header_lines c len content_type) @ c_str (m_extra_headers c) @ [CR, LF]))
    (and_also (add_status_line status title) (add_headers len content_type))"
    unfolding add_status_line_def by (intro appends_both(2) add_response_appends add_headers_appends)
  then show ?thesis by (simp add: head_text_def)
qed

lemma and_also_assoc:
  "and_also f (and_then g h) = and_then (and_also f g) h" "and_also f (and_also g h) = and_also (and_also f g) h"
  by (rule ext, simp add: and_also_def and_then_def split: sum.splits prod.splits)+

lemma appends_announce:
  assumes "appends c t w" "write_side_ok c" "rb_size (m_write_ring c) + length t \<le> 2 ^ 30"
  obtains c1 where "wrote t c c1" "and_then w k c = k c1" "and_also w k c = k c1"
proof -
  obtain c1 where "w c = Inr (True, c1)" "wrote t c c1"
    by (rule appendsD [OF assms(1,2) same_but_writing_refl assms(3)])
  then show thesis using that by (simp add: and_then_def and_also_def)
qed

text \<open>
  What the reply to each code is: status, title, announced length, type, body text and the number
  of bytes of a file that follow.
\<close>

definition reply_of :: "http_code \<Rightarrow> http_conn \<Rightarrow> (int \<times> string \<times> int \<times> string \<times> string \<times> int) option" where
  "reply_of ret c =
     (let err = (\<lambda>status title form type. Some (status, title, int (length form), type, form, 0)) in
      case ret of
        INTERNAL_ERROR \<Rightarrow> err 500 ''Internal Error'' kError500Form ''text/html''
      | BAD_REQUEST \<Rightarrow> err 400 ''Bad Request'' kError400Form ''text/plain''
      | NO_RESOURCE \<Rightarrow> err 404 ''Not Found'' kError404Form ''text/plain''
      | FORBIDDEN_REQUEST \<Rightarrow> err 403 ''Forbidden'' kError403Form ''text/plain''
      | NOT_IMPLEMENTED \<Rightarrow> err 501 ''Not Implemented'' kError501Form ''text/plain''
      | PAYLOAD_TOO_LARGE \<Rightarrow> err 413 ''Payload Too Large'' kError413Form ''text/plain''
      | OPTIONS_REQUEST \<Rightarrow> Some (204, ''OK'', 0, ''text/plain'', [], 0)
      | MEMORY_REQUEST \<Rightarrow> Some (m_response_status c, m_response_status_title c, m_response_body_len c,
          m_response_content_type c, if m_response_body_len c > 0 then c_str (m_response_body_storage c) else [], 0)
      | FILE_REQUEST \<Rightarrow>
          (if m_method c = HEAD then Some (200, ''OK'', narrow_int (m_file_size c), file_type c, [], 0)
           else if m_file_size c \<noteq> 0 then Some (200, ''OK'', narrow_int (m_file_size c), file_type c, [], m_file_size c)
           else Some (200, ''OK'', 26, ''text/html'', ''<html><body></body></html>'', 0))
      | _ \<Rightarrow> None)"

lemma forms_c_str:
  "c_str kError500Form = kError500Form" "c_str kError400Form = kError400Form" "c_str kError404Form = kError404Form"
  "c_str kError403Form = kError403Form" "c_str kError501Form = kError501Form" "c_str kError413Form = kError413Form"
  "c_str ''<html><body></body></html>'' = ''<html><body></body></html>''"
  by (simp_all add: c_str_def kError500Form_def kError400Form_def kError404Form_def kError403Form_def
      kError501Form_def kError413Form_def)

text \<open>Each reply is a writer that appends its text, followed by the announcement.\<close>

lemma process_write_split:
  assumes "reply_of ret c = Some (status, title, len, content_type, body, extra)"
  obtains w k where "process_write ret c = and_then w k c \<or> process_write ret c = and_also w k c"
    "appends c (head_text c status title len content_type @ body) w"
    "k = announce extra \<or> k = (\<lambda>c. announce extra (close_file c))"
proof -
  have content: "appends c t (add_content t')" if "c_str t' = t" for t t'
    using that add_response_appends unfolding add_content_def by simp
  have err: "error_reply st ti form ty = and_then (and_also (add_status_line st ti)
      (and_also (add_headers (int (length form)) ty) (add_content form))) (announce 0)" for st ti form ty
    by (simp add: error_reply_def and_also_assoc)
  have errs: "appends c (head_text c st ti (int (length form)) ty @ form)
      (and_also (add_status_line st ti) (and_also (add_headers (int (length form)) ty) (add_content form)))"
    if "c_str form = form" for st ti form ty
    by (intro head_appends content that)
  show thesis
  proof (cases "ret = MEMORY_REQUEST")
    case True
    let ?b = "if m_response_body_len c > 0 then add_content (m_response_body_storage c) else (\<lambda>c. Inr (True, c))"
    have "appends c body ?b" using assms True content appends_skip by (auto simp: reply_of_def)
    then show thesis
      using that [OF disjI1 head_appends disjI1 [OF refl]] assms True
      by (simp add: reply_of_def process_write_def memory_reply_def and_also_assoc)
  next
    case False
    show thesis
    proof (cases "ret = FILE_REQUEST \<and> m_method c \<noteq> HEAD \<and> m_file_size c = 0")
      case True
      then show thesis
        using that [OF disjI1 head_appends [OF content] disjI1 [OF refl]] assms forms_c_str
        by (simp add: reply_of_def process_write_def file_reply_def and_also_assoc)
    next
      case other: False
      show thesis
      proof (cases "ret = FILE_REQUEST \<or> ret = OPTIONS_REQUEST")
        case True
        then have "body = []" using assms other by (auto simp: reply_of_def split: if_splits)
        then show thesis
          using that [OF disjI2 _ _, of "and_also (add_status_line status title) (add_headers len content_type)"
              "if ret = FILE_REQUEST \<and> m_method c = HEAD then (\<lambda>c. announce extra (close_file c)) else announce extra"]
            head_only_appends [of c status title len content_type] True assms other
          by (auto simp: reply_of_def process_write_def file_reply_def and_also_assoc split: if_splits)
      next
        case errcase: False
        then have "process_write ret = error_reply status title body content_type" "c_str body = body"
          "len = int (length body)" "extra = 0"
          using assms False forms_c_str by (cases ret; auto simp: reply_of_def process_write_def)+
        then show thesis using that [OF disjI1 _ disjI1 [OF refl]] errs err by simp
      qed
    qed
  qed
qed

lemma process_write_text:
  assumes "write_side_ok c" "reply_of ret c = Some (status, title, len, content_type, body, extra)"
    and "rb_size (m_write_ring c) + length (head_text c status title len content_type @ body) \<le> 2 ^ 30"
  obtains c' where "process_write ret c = Inr (True, c')"
    "ring_list (m_write_ring c') = ring_list (m_write_ring c) @ head_text c status title len content_type @ body"
    "bytes_to_send c' = narrow_int (int (rb_size (m_write_ring c')) + extra)" "m_file_offset c' = 0"
proof -
  let ?t = "head_text c status title len content_type @ body"
  obtain w k where w: "process_write ret c = and_then w k c \<or> process_write ret c = and_also w k c" "appends c ?t w"
    and k: "k = announce extra \<or> k = (\<lambda>c. announce extra (close_file c))"
    by (rule process_write_split [OF assms(2)])
  obtain c1 where c1: "wrote ?t c c1" "and_then w k c = k c1" "and_also w k c = k c1"
    by (rule appends_announce [OF w(2) assms(1,3)])
  have "?t \<noteq> []" by (simp add: head_text_def)
  then have "m_write_idx c1 = rb_size (m_write_ring c1)" "ring_list (m_write_ring c1) = ring_list (m_write_ring c) @ ?t"
    using c1(1) by (auto simp: wrote_def)
  then show thesis using that w(1) c1(2,3) k by (auto simp: announce_def close_file_def)
qed

text \<open>
  The parts of a reply that the application chooses cannot end a header line, and the extra
  headers are complete lines.
\<close>

definition clean_head :: "http_conn \<Rightarrow> bool" where
  "clean_head c \<longleftrightarrow> line_text (m_response_status_title c) \<and> line_text (m_response_content_type c)
     \<and> (\<exists>es. m_extra_headers c = crlf_lines es \<and> list_all (\<lambda>l. line_text l \<and> l \<noteq> []) es)"

lemma line_text_c_str: "line_text s \<Longrightarrow> c_str s = s"
  by (intro c_str_id) (auto simp: line_text_def)

lemma line_text_isdigit: "list_all isdigit s \<Longrightarrow> line_text s"
  by (induction s) (auto simp: ctype_defs)

lemma line_text_int_to_string [simp]: "line_text (int_to_string i)"
proof -
  have "line_text (nat_to_string n)" for n
    by (intro line_text_isdigit) (simp add: list_all_iff nat_to_string_isdigit)
  then show ?thesis by (simp add: int_to_string_def)
qed

lemma c_str_crlf_lines: "list_all line_text ls \<Longrightarrow> c_str (crlf_lines ls) = crlf_lines ls"
proof (intro c_str_id)
  assume "list_all line_text ls"
  then show "NUL \<notin> set (crlf_lines ls)" by (induction ls) (auto simp: line_text_def)
qed

lemma head_text_lines:
  assumes "line_text title" "line_text content_type" "m_extra_headers c = crlf_lines es"
    "list_all (\<lambda>l. line_text l \<and> l \<noteq> []) es"
  obtains ls where "head_text c status title len content_type = crlf_lines ls @ [CR, LF]"
    "list_all (\<lambda>l. line_text l \<and> l \<noteq> []) ls" "''Content-Length:'' @ int_to_string len \<in> set ls"
    "hd ls = ''HTTP/1.1 '' @ int_to_string status @ '' '' @ title"
proof -
  let ?ls = "(''HTTP/1.1 '' @ int_to_string status @ '' '' @ title) # header_lines c len content_type @ es"
  have "list_all line_text es" using assms(4) by (auto simp: list_all_iff)
  then have "head_text c status title len content_type = crlf_lines ?ls @ [CR, LF]"
    using assms(1-3) by (simp add: head_text_def line_text_c_str c_str_crlf_lines)
  moreover have "list_all (\<lambda>l. line_text l \<and> l \<noteq> []) (header_lines c len content_type)"
    using assms(2) by (simp add: header_lines_def line_text_c_str)
  ultimately show thesis
    using that [of ?ls] assms(1,4) by (simp add: header_lines_def)
qed

lemma reply_of_clean:
  assumes "reply_of ret c = Some (status, title, len, content_type, body, extra)" "clean_head c"
    and "NUL \<notin> set (m_response_body_storage c)" "length (m_response_body_storage c) \<le> 2 ^ 30"
    and "0 \<le> m_file_size c" "m_file_size c < 2 ^ 30" "m_method c \<noteq> HEAD"
  shows "line_text title \<and> line_text content_type \<and> len = int (length body) + extra \<and> 0 \<le> extra \<and> extra < 2 ^ 30"
proof -
  have "narrow_int (m_file_size c) = m_file_size c" "m_response_body_len c = int (length (m_response_body_storage c))"
    using assms(4-6) by (simp_all add: m_response_body_len_def narrow_int_id)
  moreover have "line_text (file_type c)" using assms(2) by (simp add: file_type_def clean_head_def)
  ultimately show ?thesis
    using assms c_str_id [OF assms(3)] by (cases ret) (auto simp: reply_of_def clean_head_def Let_def split: if_splits)
qed


definition sample_reply_conn :: http_conn where
  "sample_reply_conn = set_memory_response 200 ''OK'' ''{}'' ''application/json'' (fresh_conn 64)"


text \<open>
  A body with a NUL byte is cut at it, while \<open>Content-Length\<close> announces all of it: the
  client waits for bytes that are never sent.
\<close>

lemma nul_body_under_delivers:
  "let c = set_memory_response 200 ''OK'' (''ab'' @ [NUL] @ ''cd'') ''text/plain'' (fresh_conn 64) in
   \<exists>c'. process_write MEMORY_REQUEST c = Inr (True, c')
     \<and> ring_list (m_write_ring c') = head_text c 200 ''OK'' 5 ''text/plain'' @ ''ab''"
proof -
  define c where "c = set_memory_response 200 ''OK'' (''ab'' @ [NUL] @ ''cd'') ''text/plain'' (fresh_conn 64)"
  have f: "m_response_body_storage c = ''ab'' @ [NUL] @ ''cd''" "m_response_content_type c = ''text/plain''"
    "m_response_status_title c = ''OK''" "m_extra_headers c = []" "m_response_status c = 200" "m_linger c = False"
    "ring_list (m_write_ring c) = []" "rb_size (m_write_ring c) = 0" "write_side_ok c"
    by (simp_all add: c_def set_memory_response_def fresh_conn_def c_str_def write_side_ok_def
        ring_ok_def reset_ring_buffer_def ring_list_def)
  have r: "reply_of MEMORY_REQUEST c = Some (200, ''OK'', 5, ''text/plain'', ''ab'', 0)"
    by (simp add: reply_of_def f m_response_body_len_def narrow_int_def c_str_def)
  have d: "int_to_string 5 = ''5''" "int_to_string 200 = ''200''" by code_simp+
  have h: "rb_size (m_write_ring c) + length (head_text c 200 ''OK'' 5 ''text/plain'' @ ''ab'') \<le> 2 ^ 30"
    by (simp add: head_text_def header_lines_def f d c_str_def)
  obtain c' where "process_write MEMORY_REQUEST c = Inr (True, c')"
    "ring_list (m_write_ring c') = ring_list (m_write_ring c) @ head_text c 200 ''OK'' 5 ''text/plain'' @ ''ab''"
    by (rule process_write_text [OF f(9) r h])
  then show ?thesis unfolding Let_def c_def [symmetric] using f(7) by auto
qed

end
