(* ===== verification/Request_Handling.thy ===== *)
theory Request_Handling
  imports Response
begin

text \<open>
  From a parsed request to a reply (src/http/core/connection.cpp): \<open>do_request\<close> parses the body,
  builds the request and its context, calls the application, takes over what it released and
  turns its answer into a response code. The application, \<open>http_router::handle_request\<close>, is an
  argument: it may change the request, the context and the response it is given. So are the
  multipart spool parser and the file system.
\<close>

type_synonym router = "http_request \<Rightarrow> request_context \<Rightarrow> http_response \<Rightarrow>
  http_code \<times> http_request \<times> request_context \<times> http_response"

record app_env =
  ae_conn :: conn_env
  ae_user_storage_quota_bytes :: nat
  ae_legacy_compat_enabled :: bool
  ae_client_ip :: "string option"
  ae_spool :: spool_parser
  ae_files :: file_env
  ae_router :: router

definition response_headers_to_wire :: "smap \<Rightarrow> string" where
  "response_headers_to_wire headers =
     concat (map (\<lambda>(k, v). if k \<noteq> [] then k @ '': '' @ v @ [CR, LF] else []) headers)"

text \<open>A header that is only filled in when the client's header table does not have it.\<close>

definition default_header :: "string \<Rightarrow> string \<Rightarrow> smap \<Rightarrow> smap" where
  "default_header k v m = (if v \<noteq> [] \<and> map_of m k = None then smap_set k v m else m)"

definition build_request :: "http_conn \<Rightarrow> http_request cxx" where
  "build_request c =
     (case (case m_version c of None \<Rightarrow> Inr [] | Some p \<Rightarrow> read_ptr p c) of
        Inl u \<Rightarrow> Inl u
      | Inr version \<Rightarrow>
          (case (if m_host c \<noteq> None \<and> map_of (m_headers c) ''host'' = None
                 then map_sum id (\<lambda>h. smap_set ''host'' h (m_headers c)) (read_ptr (the (m_host c)) c)
                 else Inr (m_headers c)) of
             Inl u \<Rightarrow> Inl u
           | Inr h1 \<Rightarrow>
               let h2 = default_header ''content-type'' (m_content_type c) h1;
                   h3 = default_header ''authorization'' (m_authorization c) h2
               in Inr \<lparr>rq_method = m_method c, rq_path = c_str (m_url_storage c),
                    rq_query_string = c_str (m_query_string_storage c), rq_version = version, rq_headers = h3,
                    rq_query = parse_query_string (c_str (m_query_string_storage c)) [],
                    rq_form = m_form_data c, rq_json = m_json_data c, rq_content_length = m_content_length c,
                    rq_content_length_seen = m_content_length_seen c, rq_keep_alive = m_linger c,
                    rq_http_1_1 = m_is_http_1_1 c, rq_chunked = m_chunked c, rq_body = m_request_body c,
                    rq_upload = \<lparr>temp_path = m_upload_tmp_path c, up_filename = m_upload_tmp_filename c,
                      up_content_type = m_upload_tmp_content_type c, up_sha256 = m_upload_tmp_sha256 c,
                      up_size = m_upload_tmp_size c, released = False\<rparr>\<rparr>))"

definition build_request_context :: "app_env \<Rightarrow> http_request \<Rightarrow> http_conn \<Rightarrow> request_context" where
  "build_request_context ae rq c =
     \<lparr>current_user = m_current_user c, ctx_doc_root = env_doc_root (ae_conn ae),
      upload_max_bytes = m_upload_max_bytes (ae_conn ae), user_storage_quota_bytes = ae_user_storage_quota_bytes ae,
      client_ip = (case ae_client_ip ae of None \<Rightarrow> [] | Some ip \<Rightarrow> ip), user_agent = header_value rq ''user-agent'',
      legacy_compat_enabled = ae_legacy_compat_enabled ae, released_temp_upload_paths = []\<rparr>"

definition release_consumed_temp_uploads :: "http_request \<Rightarrow> request_context \<Rightarrow> http_conn \<Rightarrow> http_conn" where
  "release_consumed_temp_uploads rq ctx c =
     (if released (rq_upload rq) \<and> temp_path (rq_upload rq) = m_upload_tmp_path c then c\<lparr>m_upload_tmp_path := []\<rparr>
      else if m_upload_tmp_path c \<in> set (released_temp_upload_paths ctx) then c\<lparr>m_upload_tmp_path := []\<rparr>
      else c)"

definition apply_application_response :: "file_env \<Rightarrow> http_response \<Rightarrow> http_conn \<Rightarrow> http_code \<times> http_conn" where
  "apply_application_response fs rs c =
     (if options_response rs then (OPTIONS_REQUEST, c)
      else if f_enabled (rs_file rs) then
        (case open_managed_file fs (f_path (rs_file rs)) (f_content_type (rs_file rs)) (f_download_name (rs_file rs)) c of
           (False, c1) \<Rightarrow>
             (MEMORY_REQUEST, set_memory_response 404 ''Not Found''
                ([CHR ''{'', QUOTE] @ ''code'' @ [QUOTE] @ '':404,'' @ [QUOTE] @ ''message'' @ [QUOTE, CHR '':'', QUOTE]
                 @ ''file content not found'' @ [QUOTE, CHR ''}'']) ''application/json'' c1)
         | (True, c1) \<Rightarrow> (FILE_REQUEST, c1))
      else (MEMORY_REQUEST,
             (set_memory_response (rs_status rs) (rs_title rs) (rs_body rs) (rs_content_type rs) c)
             \<lparr>m_extra_headers := response_headers_to_wire (rs_headers rs)\<rparr>))"

text \<open>The reply to a body that could not be parsed.\<close>

definition body_error_reply :: "http_conn \<Rightarrow> http_code \<times> http_conn" where
  "body_error_reply c =
     (if m_body_parse_error_status c > 0 then
        (MEMORY_REQUEST, set_memory_response (m_body_parse_error_status c)
           (if m_body_parse_error_title c = [] then ''Bad Request'' else m_body_parse_error_title c)
           ([CHR ''{'', QUOTE] @ ''code'' @ [QUOTE, CHR '':''] @ int_to_string (m_body_parse_error_status c) @ '','' @ [QUOTE]
            @ ''message'' @ [QUOTE, CHR '':'', QUOTE]
            @ json_escape (if m_body_parse_error_message c = [] then ''bad request'' else m_body_parse_error_message c)
            @ [QUOTE, CHR ''}'']) ''application/json'' c)
      else (BAD_REQUEST, c))"

text \<open>From \<open>build_request\<close> on.\<close>

definition call_application :: "app_env \<Rightarrow> http_conn \<Rightarrow> outcome" where
  "call_application ae c =
     (case build_request c of
        Inl u \<Rightarrow> Inl u
      | Inr rq \<Rightarrow>
          (let (code, rq', ctx, rs) = ae_router ae rq (build_request_context ae rq c) empty_response;
               c1 = (release_consumed_temp_uploads rq' ctx c)\<lparr>m_current_user := current_user ctx\<rparr>
           in if code = MEMORY_REQUEST \<or> code = FILE_REQUEST \<or> code = OPTIONS_REQUEST
              then Inr (apply_application_response (ae_files ae) rs c1) else Inr (code, c1)))"

definition do_request :: "app_env \<Rightarrow> http_conn \<Rightarrow> outcome" where
  "do_request ae c =
     (if m_method c = OPTIONS then Inr (OPTIONS_REQUEST, c)
      else if \<not> (m_method c = GET \<or> m_method c = POST \<or> m_method c = HEAD \<or> m_method c = DELETE)
      then Inr (NOT_IMPLEMENTED, c)
      else if m_method c = POST then
        (case parse_post_body (ae_spool ae) c of
           (False, c1) \<Rightarrow> Inr (body_error_reply c1)
         | (True, c1) \<Rightarrow> call_application ae c1)
      else call_application ae c)"

subsection \<open>Headers the application sets\<close>

lemma response_headers_lines:
  assumes "list_all (\<lambda>(k, v). line_text k \<and> line_text v) hs"
  shows "\<exists>es. response_headers_to_wire hs = crlf_lines es \<and> list_all (\<lambda>l. line_text l \<and> l \<noteq> []) es"
  using assms
proof (induction hs)
  case Nil
  then show ?case by (intro exI [of _ "[]"]) (simp add: response_headers_to_wire_def)
next
  case (Cons p hs)
  obtain k v where p: "p = (k, v)" by fastforce
  obtain es where es: "response_headers_to_wire hs = crlf_lines es" "list_all (\<lambda>l. line_text l \<and> l \<noteq> []) es"
    using Cons by auto
  have "response_headers_to_wire (p # hs) = (if k \<noteq> [] then k @ '': '' @ v @ [CR, LF] else []) @ response_headers_to_wire hs"
    by (simp add: response_headers_to_wire_def p)
  then show ?case
    using es Cons.prems p by (intro exI [of _ "(if k \<noteq> [] then [k @ '': '' @ v] else []) @ es"]) simp
qed

subsection \<open>Who owns the uploaded file\<close>

text \<open>What the application took from the request and its context.\<close>

definition took_upload :: "http_request \<Rightarrow> request_context \<Rightarrow> string \<Rightarrow> bool" where
  "took_upload rq ctx path \<longleftrightarrow> (released (rq_upload rq) \<and> temp_path (rq_upload rq) = path)
     \<or> path \<in> set (released_temp_upload_paths ctx)"

lemma release_consumed_path:
  "m_upload_tmp_path (release_consumed_temp_uploads rq ctx c)
     = (if took_upload rq ctx (m_upload_tmp_path c) then [] else m_upload_tmp_path c)"
  "m_stream_body_tmp_path (release_consumed_temp_uploads rq ctx c) = m_stream_body_tmp_path c"
  "m_unlinked (release_consumed_temp_uploads rq ctx c) = m_unlinked c"
  by (simp_all add: release_consumed_temp_uploads_def took_upload_def)

lemma apply_response_temp_files:
  assumes "apply_application_response fs rs c = (k, c')"
  shows "m_upload_tmp_path c' = m_upload_tmp_path c" "m_stream_body_tmp_path c' = m_stream_body_tmp_path c"
    "m_unlinked c' = m_unlinked c"
  using assms
  by (auto simp: apply_application_response_def open_managed_file_def set_memory_response_def Let_def
      split: if_splits prod.splits option.splits bool.splits)

text \<open>
  Property C35. The file of an upload has exactly one owner after the request: when the
  application reports that it took the file (it was moved into the store or removed), the
  cleanup of the connection does not touch the path; otherwise the cleanup unlinks it.
\<close>

theorem upload_file_has_one_owner:
  assumes "build_request c = Inr rq"
    and "ae_router ae rq (build_request_context ae rq c) empty_response = (code, rq', ctx, rs)"
    and "call_application ae c = Inr (k, c')" and "m_upload_tmp_path c = path" and "path \<noteq> []"
  shows "m_unlinked (cleanup_temp_upload_state c')
    = m_unlinked c @ filter (\<lambda>p. p \<noteq> []) [m_stream_body_tmp_path c]
      @ (if took_upload rq' ctx path then [] else [path])"
proof -
  let ?c1 = "(release_consumed_temp_uploads rq' ctx c)\<lparr>m_current_user := current_user ctx\<rparr>"
  have "(k, c') = apply_application_response (ae_files ae) rs ?c1 \<or> (k, c') = (code, ?c1)"
    using assms(1-3) by (auto simp: call_application_def Let_def split: if_splits)
  then have "m_upload_tmp_path c' = m_upload_tmp_path ?c1" "m_stream_body_tmp_path c' = m_stream_body_tmp_path ?c1"
    "m_unlinked c' = m_unlinked ?c1"
    using apply_response_temp_files [of "ae_files ae" rs ?c1 k c'] by auto
  then show ?thesis using assms(4,5) by (simp add: cleanup_unlinks release_consumed_path)
qed

definition sample_app :: app_env where
  "sample_app = \<lparr>ae_conn = sample_env, ae_user_storage_quota_bytes = 1000, ae_legacy_compat_enabled = False,
     ae_client_ip = None, ae_spool = (\<lambda>_ _. Inr ([], no_upload)), ae_files = sample_fs,
     ae_router = (\<lambda>rq ctx rs. (MEMORY_REQUEST, rq\<lparr>rq_upload := (rq_upload rq)\<lparr>released := True\<rparr>\<rparr>, ctx, rs))\<rparr>"

theorem upload_file_has_one_owner_witness:
  "\<exists>k c'. call_application sample_app ((fresh_conn 8)\<lparr>m_upload_tmp_path := ''/t/u''\<rparr>) = Inr (k, c')
     \<and> m_unlinked (cleanup_temp_upload_state c') = []"
proof -
  let ?c = "(fresh_conn 8)\<lparr>m_upload_tmp_path := ''/t/u''\<rparr>"
  obtain rq where rq: "build_request ?c = Inr rq" "temp_path (rq_upload rq) = ''/t/u''"
    by (simp add: build_request_def fresh_conn_def Let_def)
  let ?rq = "rq\<lparr>rq_upload := (rq_upload rq)\<lparr>released := True\<rparr>\<rparr>"
  let ?ctx = "build_request_context sample_app rq ?c"
  have app: "ae_router sample_app rq ?ctx empty_response = (MEMORY_REQUEST, ?rq, ?ctx, empty_response)"
    by (simp add: sample_app_def)
  obtain k c' where run: "call_application sample_app ?c = Inr (k, c')"
    using rq app by (cases "call_application sample_app ?c") (auto simp: call_application_def)
  have "took_upload ?rq ?ctx ''/t/u''" using rq(2) by (simp add: took_upload_def)
  then show ?thesis
    using upload_file_has_one_owner [OF rq(1) app run, of "''/t/u''"] run
    by (auto simp: fresh_conn_def)
qed

end
