(* ===== verification/Conn_Runtime.thy ===== *)
theory Conn_Runtime
  imports Request_Handling
begin

text \<open>
  The life of a connection between two events (src/http/core/runtime.cpp and the loops of
  src/http/core/io.cpp): reading in level- and edge-triggered mode, the TLS handshake, writing
  the reply with \<open>ring_send\<close> and \<open>sendfile\<close> or over TLS, and \<open>process\<close>.

  The system calls of a loop are a list, one entry per round; \<open>None\<close> is a loop that has used up
  the list. \<open>modfd\<close> is recorded in \<open>m_armed\<close>. What \<open>write\<close> gave to the peer is returned beside its
  result. \<open>refresh_active\<close> only sets the time stamp that the reactor theory has.
\<close>

subsection \<open>Reading\<close>

datatype recv_result = RData | RRetry | RBlock | RStop

text \<open>One \<open>ring_recv\<close> with the flush of a spooled body that follows it.\<close>

definition recv_round :: "conn_env \<Rightarrow> recv_call \<Rightarrow> http_conn \<Rightarrow> recv_result \<times> http_conn" where
  "recv_round env f c =
     (let (n, t, r) = ring_recv f (m_tls c) (m_read_ring c);
          c1 = c\<lparr>m_tls := t, m_read_ring := r\<rparr>
      in if n > 0 then
           (let c2 = c1\<lparr>m_has_new_data := True\<rparr> in
            if m_stream_body_file c2 \<noteq> None \<and> m_check_state c2 = CHECK_STATE_CONTENT then
              (case flush_streamed_body_from_read_buffer env c2 of (b, c3) \<Rightarrow> (if b then RData else RStop, c3))
            else (RData, c2))
         else if n = 0 then (RStop, c1)
         else if m_errno t = EINTR then (RRetry, c1)
         else if m_errno t = EAGAIN then (RBlock, c1)
         else (RStop, c1))"

fun read_lt :: "conn_env \<Rightarrow> recv_call list \<Rightarrow> http_conn \<Rightarrow> (bool \<times> http_conn) option" where
  "read_lt env [] c = None"
| "read_lt env (f # fs) c =
     (case recv_round env f c of
        (RData, c1) \<Rightarrow> read_lt env fs c1
      | (RRetry, c1) \<Rightarrow> read_lt env fs c1
      | (RStop, c1) \<Rightarrow> Some (False, c1)
      | (RBlock, c1) \<Rightarrow>
          (let c2 = (if m_has_new_data c1 then sync_read_buffer c1 else c1)
           in Some (True, modfd (wait_event_for_io (m_tls c2) EPOLLIN) c2)))"

definition ET_READ_EVENT_MAX_RECVS :: nat where "ET_READ_EVENT_MAX_RECVS = 64"

partial_function (option) read_et ::
  "conn_env \<Rightarrow> (http_conn \<Rightarrow> outcome) \<Rightarrow> nat \<Rightarrow> bool \<Rightarrow> recv_call list \<Rightarrow> http_conn \<Rightarrow> (bool \<times> http_conn) cxx option"
  where [code]:
  "read_et env app recvs has_read fs c =
     (if ring_writable (m_read_ring c) > 0 then
        (case fs of
           [] \<Rightarrow> None
         | f # fs' \<Rightarrow>
             (case recv_round env f c of
                (RData, c1) \<Rightarrow>
                  if recvs + 1 \<ge> ET_READ_EVENT_MAX_RECVS
                  then Some (Inr (True, modfd (wait_event_for_io (m_tls c1) EPOLLIN) (sync_read_buffer c1)))
                  else read_et env app (recvs + 1) True fs' c1
              | (RRetry, c1) \<Rightarrow> read_et env app recvs has_read fs' c1
              | (RStop, c1) \<Rightarrow> Some (Inr (False, c1))
              | (RBlock, c1) \<Rightarrow>
                  Some (Inr (has_read, modfd (wait_event_for_io (m_tls c1) EPOLLIN)
                         (if has_read then sync_read_buffer c1 else c1)))))
      else
        (case ensure_read_capacity (int (rb_capacity (m_read_ring c)) * 2) c of (b, c1) \<Rightarrow>
           if b then read_et env app recvs has_read fs c1
           else
             (let c2 = sync_read_buffer c1 in
              if m_check_state c2 \<noteq> CHECK_STATE_CONTENT then
                (case process_read env app c2 of
                   None \<Rightarrow> None
                 | Some (Inl u) \<Rightarrow> Some (Inl u)
                 | Some (Inr (code, c3)) \<Rightarrow>
                     if code = NO_REQUEST \<and> m_stream_body_file c3 \<noteq> None \<and> m_check_state c3 = CHECK_STATE_CONTENT
                     then read_et env app recvs has_read fs c3 else Some (Inr (False, c3)))
              else if m_stream_body_file c2 \<noteq> None then
                (case flush_streamed_body_from_read_buffer env c2 of (b', c3) \<Rightarrow>
                   if \<not> b' then Some (Inr (False, c3)) else read_et env app recvs has_read fs c3)
              else Some (Inr (False, c2)))))"

text \<open>\<open>et\<close> is \<open>m_TRIGMode\<close> not being 0.\<close>

definition read_once :: "conn_env \<Rightarrow> (http_conn \<Rightarrow> outcome) \<Rightarrow> bool \<Rightarrow> recv_call list \<Rightarrow> http_conn \<Rightarrow> (bool \<times> http_conn) cxx option" where
  "read_once env app et fs c0 =
     (let c = c0\<lparr>m_has_new_data := False\<rparr>;
          (room, c1) = (if ring_writable (m_read_ring c) = 0
                        then ensure_read_capacity (int (rb_capacity (m_read_ring c)) * 2) c else (True, c))
      in if \<not> room then Some (Inr (False, c1))
         else if \<not> et then map_option Inr (read_lt env fs c1)
         else read_et env app 0 False fs c1)"

definition needs_tls_handshake :: "http_conn \<Rightarrow> bool" where
  "needs_tls_handshake c \<longleftrightarrow> m_https_enabled (m_tls c) \<and> \<not> m_tls_handshake_done c"

text \<open>\<open>ok\<close> is \<open>SSL_accept\<close> returning 1, \<open>e\<close> the error \<open>SSL_get_error\<close> gives otherwise.\<close>

definition do_tls_handshake :: "bool \<Rightarrow> ssl_error \<Rightarrow> http_conn \<Rightarrow> int \<times> http_conn" where
  "do_tls_handshake ok e c =
     (if \<not> m_https_enabled (m_tls c) \<or> m_tls_handshake_done c then (1, c)
      else if ok then (1, modfd EPOLLIN (c\<lparr>m_tls_handshake_done := True, m_tls := (m_tls c)\<lparr>m_tls_want_event := EPOLLIN\<rparr>\<rparr>))
      else (case e of
              SSL_ERROR_WANT_READ \<Rightarrow> (0, modfd EPOLLIN (c\<lparr>m_tls := (m_tls c)\<lparr>m_tls_want_event := EPOLLIN\<rparr>\<rparr>))
            | SSL_ERROR_WANT_WRITE \<Rightarrow> (0, modfd EPOLLOUT (c\<lparr>m_tls := (m_tls c)\<lparr>m_tls_want_event := EPOLLOUT\<rparr>\<rparr>))
            | _ \<Rightarrow> (- 1, c)))"

subsection \<open>Writing\<close>

text \<open>
  The system calls one round of a write loop may make: a send, \<open>sendfile\<close> and a \<open>read\<close> of the
  file, the last two given the number of bytes they could transfer, with their result and \<open>errno\<close>.
\<close>

record sys_call =
  sc_send :: send_call
  sc_sendfile :: "nat \<Rightarrow> int \<times> errno_code"
  sc_read :: "nat \<Rightarrow> int \<times> errno_code"

definition finish_write_cycle :: writer where
  "finish_write_cycle c =
     (let c1 = modfd (wait_event_for_io (m_tls c) EPOLLIN) (close_file c) in
      if \<not> m_linger c1 then Inr (False, c1) else map_sum id (\<lambda>c2. (True, c2)) (init c1))"

definition count_sent :: "nat \<Rightarrow> http_conn \<Rightarrow> http_conn" where
  "count_sent n c = c\<lparr>bytes_have_send := bytes_have_send c + int n, bytes_to_send := bytes_to_send c - int n\<rparr>"

text \<open>The contents of the open file that \<open>read\<close> has not delivered.\<close>

definition unread :: "http_conn \<Rightarrow> string" where
  "unread c = (case m_filefd c of None \<Rightarrow> [] | Some d \<Rightarrow> drop (m_file_pos c) d)"

text \<open>
  The refill of \<open>m_file_send_buf\<close>: \<open>Inl\<close> leaves the round, to retry (\<open>None\<close>) or to return.
\<close>

definition tls_refill :: "(nat \<Rightarrow> int \<times> errno_code) \<Rightarrow> http_conn \<Rightarrow> (bool \<times> http_conn) option + http_conn" where
  "tls_refill rd c =
     (if m_file_send_offset c < m_file_send_size c then Inr c
      else (let (n, e) = rd (min (length (m_file_send_buf c)) (length (unread c))) in
        if n < 0 then (if e = EINTR then Inl None else Inl (Some (False, close_file c)))
        else if n = 0 then Inl (Some (True, close_file c))
        else Inr (c\<lparr>m_file_send_buf := blit (m_file_send_buf c) 0 (take (nat n) (unread c)),
                    m_file_pos := m_file_pos c + nat n, m_file_send_offset := 0, m_file_send_size := nat n\<rparr>)))"

fun send_file_over_tls :: "sys_call list \<Rightarrow> http_conn \<Rightarrow> (string \<times> bool \<times> http_conn) option" where
  "send_file_over_tls [] c = None"
| "send_file_over_tls (k # ks) c =
     (case tls_refill (sc_read k) c of
        Inl None \<Rightarrow> send_file_over_tls ks c
      | Inl (Some (b, c1)) \<Rightarrow> Some ([], b, c1)
      | Inr c1 \<Rightarrow>
          (let d = take (m_file_send_size c1 - m_file_send_offset c1) (drop (m_file_send_offset c1) (m_file_send_buf c1));
               (n, t) = socket_send (sc_send k) (m_tls c1) d;
               c2 = c1\<lparr>m_tls := t\<rparr>
           in if n < 0 then
                (if m_errno t = EINTR then send_file_over_tls ks c2
                 else if m_errno t = EAGAIN then Some ([], True, modfd (wait_event_for_io t EPOLLOUT) c2)
                 else Some ([], False, close_file c2))
              else if n = 0 then Some ([], False, close_file c2)
              else
                (let off = m_file_send_offset c2 + nat n;
                     full = (off \<ge> m_file_send_size c2);
                     c3 = (count_sent (nat n) c2)\<lparr>m_file_send_offset := (if full then 0 else off),
                             m_file_send_size := (if full then 0 else m_file_send_size c2)\<rparr>
                 in if bytes_to_send c3 \<le> 0 then Some (take (nat n) d, True, close_file c3)
                    else map_option (\<lambda>(out, r). (take (nat n) d @ out, r)) (send_file_over_tls ks c3))))"

text \<open>The bytes of the open file from \<open>m_file_offset\<close> on.\<close>

definition file_rest :: "http_conn \<Rightarrow> string" where
  "file_rest c = (case m_filefd c of None \<Rightarrow> [] | Some d \<Rightarrow> drop (nat (m_file_offset c)) d)"

type_synonym write_result = "string \<times> (bool \<times> http_conn) cxx"

function write_loop :: "sys_call list \<Rightarrow> http_conn \<Rightarrow> write_result option" where
  "write_loop [] c = None"
| "write_loop (k # ks) c =
     (if rb_size (m_write_ring c) > 0 then
        (let (n, t, r) = ring_send (sc_send k) (m_tls c) (m_write_ring c);
             c1 = c\<lparr>m_tls := t, m_write_ring := r\<rparr>
         in if n < 0 then
              (if m_errno t = EINTR then write_loop ks c1
               else if m_errno t = EAGAIN then Some ([], Inr (True, modfd (wait_event_for_io t EPOLLOUT) c1))
               else Some ([], Inr (False, close_file c1)))
            else if n = 0 then Some ([], Inr (False, close_file c1))
            else
              (let out = take (nat n) (ring_list (m_write_ring c));
                   c2 = count_sent (nat n) (c1\<lparr>m_header_bytes_sent := m_header_bytes_sent c1 + n\<rparr>)
               in if bytes_to_send c2 \<le> 0 then Some (out, finish_write_cycle c2)
                  else map_option (\<lambda>(o', r'). (out @ o', r')) (write_loop ks c2)))
      else if m_filefd c \<noteq> None \<and> m_https_enabled (m_tls c) then
        (case send_file_over_tls (k # ks) c of
           None \<Rightarrow> None
         | Some (out, b, c1) \<Rightarrow>
             if \<not> b then Some (out, Inr (False, c1))
             else if bytes_to_send c1 > 0 then Some (out, Inr (True, c1))
             else Some (out, finish_write_cycle c1))
      else if m_filefd c \<noteq> None then
        (let (n, e) = sc_sendfile k (min (nat (bytes_to_send c)) (length (file_rest c))) in
         if n < 0 then
           (if e = EINTR then write_loop ks c
            else if e = EAGAIN then Some ([], Inr (True, modfd EPOLLOUT c))
            else Some ([], Inr (False, close_file c)))
         else if n = 0 then
           (if bytes_to_send c \<le> 0 \<or> m_file_offset c \<ge> m_file_size c then write_loop ks (c\<lparr>bytes_to_send := 0\<rparr>)
            else Some ([], Inr (True, modfd EPOLLOUT c)))
         else
           (let out = take (nat n) (file_rest c);
                c1 = (count_sent (nat n) c)\<lparr>m_file_offset := m_file_offset c + n\<rparr>
            in if bytes_to_send c1 \<le> 0 then Some (out, finish_write_cycle c1)
               else map_option (\<lambda>(o', r'). (out @ o', r')) (write_loop ks c1)))
      else if bytes_to_send c \<le> 0 then Some ([], finish_write_cycle c)
      else write_loop ks c)"
  by pat_completeness auto
termination
  by (relation "measure (\<lambda>(ks, c). length ks)") auto

definition write_conn :: "sys_call list \<Rightarrow> http_conn \<Rightarrow> write_result option" where
  "write_conn ks c =
     (if bytes_to_send c = 0
      then Some ([], map_sum id (\<lambda>c1. (True, c1)) (init (modfd (wait_event_for_io (m_tls c) EPOLLIN) c)))
      else write_loop ks c)"

subsection \<open>Processing\<close>

definition process :: "app_env \<Rightarrow> http_conn \<Rightarrow> http_conn cxx option" where
  "process ae c =
     (if bytes_to_send c > 0 then Some (Inr (modfd EPOLLOUT c))
      else if \<not> m_has_new_data c then Some (Inr (modfd EPOLLIN c))
      else (case process_read (ae_conn ae) (do_request ae) c of
              None \<Rightarrow> None
            | Some (Inl u) \<Rightarrow> Some (Inl u)
            | Some (Inr (ret, c1)) \<Rightarrow>
                (let c2 = c1\<lparr>m_has_new_data := False\<rparr> in
                 if ret = NO_REQUEST then Some (Inr (modfd EPOLLIN c2))
                 else (case process_write ret (reset_request_parser_state c2) of
                         Inl u \<Rightarrow> Some (Inl u)
                       | Inr (b, c3) \<Rightarrow> Some (Inr (if b then modfd EPOLLOUT c3 else close_conn_locked c3))))))"

declare write_loop.simps(2) [simp del]

subsection \<open>A reply is delivered in order and completely\<close>

text \<open>What is still to be sent: the rest of the write ring, then the rest of the file.\<close>

definition pending :: "http_conn \<Rightarrow> string" where
  "pending c = ring_list (m_write_ring c) @ file_rest c"

definition sending_ok :: "http_conn \<Rightarrow> bool" where
  "sending_ok c \<longleftrightarrow> ring_ok (m_write_ring c) \<and> \<not> m_https_enabled (m_tls c) \<and> 0 \<le> m_file_offset c
     \<and> (case m_filefd c of None \<Rightarrow> True | Some d \<Rightarrow> m_file_offset c \<le> int (length d) \<and> m_file_size c = int (length d))
     \<and> bytes_to_send c = int (length (pending c))"

text \<open>The kernel never reports more bytes than it was given or could take.\<close>

definition sys_call_ok :: "sys_call \<Rightarrow> bool" where
  "sys_call_ok k \<longleftrightarrow> send_ok (sc_send k) \<and> (\<forall>n. fst (sc_sendfile k n) \<le> int n)"

text \<open>How a call of \<open>write\<close> may end, when \<open>todo\<close> was to be sent and \<open>out\<close> was.\<close>

definition write_outcome :: "string \<Rightarrow> bool \<Rightarrow> string \<Rightarrow> bool \<Rightarrow> http_conn \<Rightarrow> bool" where
  "write_outcome todo linger out b c' \<longleftrightarrow>
     (\<exists>rest. todo = out @ rest
       \<and> (rest = [] \<longrightarrow> b = linger \<and> m_armed c' = Some EPOLLIN)
       \<and> (rest \<noteq> [] \<and> b \<longrightarrow> sending_ok c' \<and> pending c' = rest \<and> m_armed c' = Some EPOLLOUT))"

lemma write_outcome_stop: "todo \<noteq> [] \<Longrightarrow> write_outcome todo l [] False c'"
  by (auto simp: write_outcome_def)

lemma write_outcome_wait:
  "todo \<noteq> [] \<Longrightarrow> sending_ok c' \<Longrightarrow> pending c' = todo \<Longrightarrow> m_armed c' = Some EPOLLOUT \<Longrightarrow> write_outcome todo l [] True c'"
  by (auto simp: write_outcome_def)

lemma write_outcome_more: "write_outcome todo l out b c' \<Longrightarrow> write_outcome (pre @ todo) l (pre @ out) b c'"
  by (auto simp: write_outcome_def)

lemma armed_kept:
  "m_armed (snd (ensure_read_capacity n c)) = m_armed c"
  "ensure_write_capacity n c = Inr (b, c') \<Longrightarrow> m_armed c' = m_armed c"
  "m_armed (cleanup_temp_upload_state c) = m_armed c"
  by (auto simp: ensure_read_capacity_def ensure_write_capacity_def Let_def cleanup_temp_upload_state_def unlink_if_def
      split: option.splits sum.splits if_splits)

lemma init_armed:
  assumes "init c = Inr c'"
  shows "m_armed c' = m_armed c"
proof -
  let ?c1 = "snd (ensure_read_capacity (int READ_BUFFER_INITIAL_SIZE) c)"
  obtain b c2 where w: "ensure_write_capacity (int WRITE_BUFFER_INITIAL_SIZE) ?c1 = Inr (b, c2)"
    using assms by (cases "ensure_write_capacity (int WRITE_BUFFER_INITIAL_SIZE) ?c1") (simp_all add: init_def, fastforce)
  then have "m_armed c' = m_armed (cleanup_temp_upload_state c2)"
    using assms unfolding init_def Let_def w by auto
  then show ?thesis using armed_kept(1) armed_kept(2) [OF w] armed_kept(3) by simp
qed

lemma finish_outcome:
  assumes "finish_write_cycle c = Inr (b, c')" "\<not> m_https_enabled (m_tls c)"
  shows "write_outcome todo (m_linger c) todo b c'"
  using assms init_armed
  by (fastforce simp: finish_write_cycle_def write_outcome_def Let_def modfd_def close_file_def wait_event_for_io_def
      map_sum_def split: if_splits sum.splits)

lemma modfd_sending [simp]:
  "pending (modfd e c) = pending c" "sending_ok (modfd e c) = sending_ok c" "m_armed (modfd e c) = Some e"
proof -
  have f: "file_rest (modfd e c) = file_rest c" by (simp add: file_rest_def modfd_def split: option.splits)
  then show p: "pending (modfd e c) = pending c" by (simp add: pending_def modfd_def)
  show "sending_ok (modfd e c) = sending_ok c" unfolding sending_ok_def p by (simp add: modfd_def split: option.splits)
  show "m_armed (modfd e c) = Some e" by (simp add: modfd_def)
qed

text \<open>One successful send of header bytes, one successful \<open>sendfile\<close>, and what they leave.\<close>

lemma sent_header:
  assumes ok: "sending_ok c" and k: "sys_call_ok k" and run: "ring_send (sc_send k) (m_tls c) (m_write_ring c) = (n, t, r)"
    and c1: "c1 = c\<lparr>m_tls := t, m_write_ring := r\<rparr>"
  shows "n \<le> 0 \<Longrightarrow> sending_ok c1 \<and> pending c1 = pending c"
    and "n > 0 \<Longrightarrow> sending_ok (count_sent (nat n) (c1\<lparr>m_header_bytes_sent := h\<rparr>))
      \<and> pending c = take (nat n) (ring_list (m_write_ring c)) @ pending (count_sent (nat n) (c1\<lparr>m_header_bytes_sent := h\<rparr>))"
    and "m_linger c1 = m_linger c" and "m_filefd c1 = m_filefd c" and "\<not> m_https_enabled t"
proof -
  have rok: "ring_ok (m_write_ring c)" and f: "send_ok (sc_send k)" using ok k by (auto simp: sending_ok_def sys_call_ok_def)
  note r = ring_send_list [OF rok f run]
  have t: "m_https_enabled t = m_https_enabled (m_tls c)"
    using run by (auto simp: ring_send_def socket_send_def tls_want_def Let_def split: if_splits prod.splits ssl_error.splits)
  then show "\<not> m_https_enabled t" using ok by (simp add: sending_ok_def)
  have fr: "file_rest c1 = file_rest c" by (simp add: file_rest_def c1 split: option.splits)
  show "sending_ok c1 \<and> pending c1 = pending c" if "n \<le> 0"
    using ok r that t fr length_ring_list [of r] by (simp add: sending_ok_def pending_def c1 split: option.splits)
  show "m_linger c1 = m_linger c" "m_filefd c1 = m_filefd c" by (simp_all add: c1)
  let ?c2 = "count_sent (nat n) (c1\<lparr>m_header_bytes_sent := h\<rparr>)"
  show "sending_ok ?c2 \<and> pending c = take (nat n) (ring_list (m_write_ring c)) @ pending ?c2" if "n > 0"
  proof -
    have fr2: "file_rest ?c2 = file_rest c" by (simp add: file_rest_def c1 count_sent_def split: option.splits)
    have p: "pending ?c2 = drop (nat n) (ring_list (m_write_ring c)) @ file_rest c"
      using r fr2 by (simp add: pending_def c1 count_sent_def)
    then have "bytes_to_send ?c2 = int (length (pending ?c2))"
      using ok r that by (simp add: sending_ok_def pending_def count_sent_def c1 of_nat_diff)
    then show ?thesis
      using ok r t p by (simp add: sending_ok_def pending_def count_sent_def c1 split: option.splits)
  qed
qed

lemma sent_file:
  assumes ok: "sending_ok c" and k: "sys_call_ok k" and ring: "rb_size (m_write_ring c) = 0" and d: "m_filefd c = Some d"
    and run: "sc_sendfile k (min (nat (bytes_to_send c)) (length (file_rest c))) = (n, e)" and n: "n > 0"
    and c1: "c1 = (count_sent (nat n) c)\<lparr>m_file_offset := m_file_offset c + n\<rparr>"
  shows "sending_ok c1 \<and> pending c = take (nat n) (file_rest c) @ pending c1 \<and> m_linger c1 = m_linger c"
proof -
  have le: "n \<le> int (length (file_rest c))" using k run by (metis min.cobounded2 fst_conv of_nat_le_iff order_trans sys_call_ok_def)
  have rl: "ring_list (m_write_ring c) = []" using ring by (metis length_0_conv length_ring_list)
  have rest: "file_rest c = drop (nat (m_file_offset c)) d" using d by (simp add: file_rest_def)
  have rest1: "file_rest c1 = drop (nat n) (file_rest c)"
    using ok n d unfolding rest by (simp add: file_rest_def c1 count_sent_def sending_ok_def nat_add_distrib add.commute)
  then have p1: "pending c1 = drop (nat n) (file_rest c)" using rl by (simp add: pending_def c1 count_sent_def)
  have p0: "pending c = file_rest c" using rl by (simp add: pending_def)
  have "bytes_to_send c1 = bytes_to_send c - n" "bytes_to_send c = int (length (pending c))"
    using ok n by (simp_all add: c1 count_sent_def sending_ok_def)
  then have "bytes_to_send c1 = int (length (pending c1))" using le n unfolding p0 p1 by (simp add: of_nat_diff)
  moreover have "m_file_offset c + n \<le> int (length d)" "m_file_size c = int (length d)"
    using le ok d rest by (auto simp: sending_ok_def)
  ultimately have "sending_ok c1" using ok n d by (simp add: sending_ok_def c1 count_sent_def)
  then show ?thesis unfolding p0 p1 by (simp add: c1 count_sent_def)
qed

lemma write_loop_outcome:
  "write_loop ks c = Some (out, Inr (b, c')) \<Longrightarrow> sending_ok c \<Longrightarrow> list_all sys_call_ok ks \<Longrightarrow> pending c \<noteq> [] \<Longrightarrow>
     write_outcome (pending c) (m_linger c) out b c'"
proof (induction ks arbitrary: c out)
  case Nil
  then show ?case by simp
next
  case (Cons k ks)
  have k: "sys_call_ok k" and ks: "list_all sys_call_ok ks" using Cons.prems(3) by auto
  have plain: "\<not> m_https_enabled (m_tls c)" using Cons.prems(2) by (simp add: sending_ok_def)
  note run = Cons.prems(1) [unfolded write_loop.simps(2)]
  show ?case
  proof (cases "rb_size (m_write_ring c) > 0")
    case ring: True
    obtain n t r where s: "ring_send (sc_send k) (m_tls c) (m_write_ring c) = (n, t, r)" by (metis prod_cases3)
    define c1 where "c1 = c\<lparr>m_tls := t, m_write_ring := r\<rparr>"
    define c2 where "c2 = count_sent (nat n) (c1\<lparr>m_header_bytes_sent := m_header_bytes_sent c1 + n\<rparr>)"
    note step = sent_header [OF Cons.prems(2) k s c1_def]
    consider (retry) "n < 0" "m_errno t = EINTR" | (wait) "n < 0" "m_errno t = EAGAIN" | (stop) "n \<le> 0" "n < 0 \<longrightarrow> m_errno t = EOTHER"
      | (sent) "n > 0" by (cases "m_errno t") fastforce+
    then show ?thesis
    proof cases
      case retry
      then show ?thesis
        using run ring s step(1,3) Cons.IH [OF _ _ ks, of c1] Cons.prems(4) by (simp add: Let_def c1_def)
    next
      case wait
      then have e: "out = []" "b = True" "c' = modfd (wait_event_for_io t EPOLLOUT) c1"
        using run ring s by (auto simp: Let_def c1_def)
      have "sending_ok c' \<and> pending c' = pending c"
        using step(1) wait unfolding e by simp
      then show ?thesis
        using write_outcome_wait [OF Cons.prems(4)] step(5) e by (simp add: wait_event_for_io_def)
    next
      case stop
      then show ?thesis
        using run ring s write_outcome_stop [OF Cons.prems(4)] by (cases "m_errno t") (auto simp: Let_def split: if_splits)
    next
      case sent
      let ?o = "take (nat n) (ring_list (m_write_ring c))"
      have c2: "sending_ok c2" "pending c = ?o @ pending c2" "m_linger c2 = m_linger c" "\<not> m_https_enabled (m_tls c2)"
        using step(2) [OF sent] step(3,5) by (simp_all add: c2_def c1_def count_sent_def)
      show ?thesis
      proof (cases "bytes_to_send c2 \<le> 0")
        case True
        then have "pending c2 = []" using c2(1) by (simp add: sending_ok_def)
        moreover have "out = ?o" "finish_write_cycle c2 = Inr (b, c')"
          using run ring s sent True by (simp_all add: Let_def c1_def c2_def)
        ultimately show ?thesis using finish_outcome [of c2 b c' ?o] c2 by simp
      next
        case False
        then obtain o' where o': "write_loop ks c2 = Some (o', Inr (b, c'))" "out = ?o @ o'"
          using run ring s sent by (auto simp: Let_def c1_def c2_def)
        have "pending c2 \<noteq> []" using False c2(1) by (auto simp: sending_ok_def)
        from write_outcome_more [OF Cons.IH [OF o'(1) c2(1) ks this], of ?o] show ?thesis using o'(2) c2(2,3) by simp
      qed
    qed
  next
    case False
    then have ring: "rb_size (m_write_ring c) = 0" by simp
    then have p: "pending c = file_rest c" by (metis append_Nil length_0_conv length_ring_list pending_def)
    then obtain d where d: "m_filefd c = Some d" using Cons.prems(4) by (auto simp: file_rest_def split: option.splits)
    obtain n e where s: "sc_sendfile k (min (nat (bytes_to_send c)) (length (file_rest c))) = (n, e)" by fastforce
    have pos: "bytes_to_send c > 0" using Cons.prems(2,4) by (simp add: sending_ok_def)
    have inside: "m_file_offset c < m_file_size c"
      using Cons.prems(2,4) p d by (auto simp: sending_ok_def file_rest_def)
    define c1 where "c1 = (count_sent (nat n) c)\<lparr>m_file_offset := m_file_offset c + n\<rparr>"
    have waits: ?thesis if "out = []" "b = True" "c' = modfd EPOLLOUT c"
      using that Cons.prems(2,4) unfolding that
      by (intro write_outcome_wait) simp_all
    consider (retry) "n < 0" "e = EINTR" | (wait) "n < 0 \<and> e = EAGAIN \<or> n = 0" | (stop) "n < 0" "e = EOTHER" | (sent) "n > 0"
      by (cases e) fastforce+
    then show ?thesis
    proof cases
      case retry
      then show ?thesis using run ring d s plain Cons.IH [OF _ Cons.prems(2) ks] Cons.prems(4) by simp
    next
      case wait
      then show ?thesis using run ring d s plain pos inside waits by (auto split: if_splits)
    next
      case stop
      then show ?thesis using run ring d s plain write_outcome_stop [OF Cons.prems(4)] by auto
    next
      case sent
      let ?o = "take (nat n) (file_rest c)"
      have c1: "sending_ok c1" "pending c = ?o @ pending c1" "m_linger c1 = m_linger c"
        using sent_file [OF Cons.prems(2) k ring d s sent c1_def] by blast+
      show ?thesis
      proof (cases "bytes_to_send c1 \<le> 0")
        case True
        then have "pending c1 = []" using c1(1) by (simp add: sending_ok_def)
        moreover have "out = ?o" "finish_write_cycle c1 = Inr (b, c')"
          using run ring d s plain sent True by (simp_all add: Let_def c1_def)
        ultimately show ?thesis using finish_outcome [of c1 b c' ?o] c1 by (simp add: sending_ok_def)
      next
        case False
        then obtain o' where o': "write_loop ks c1 = Some (o', Inr (b, c'))" "out = ?o @ o'"
          using run ring d s plain sent by (auto simp: Let_def c1_def)
        have "pending c1 \<noteq> []" using False c1(1) by (auto simp: sending_ok_def)
        from write_outcome_more [OF Cons.IH [OF o'(1) c1(1) ks this], of ?o] show ?thesis using o'(2) c1(2,3) by simp
      qed
    qed
  qed
qed


lemma result_of_shape:
  assumes "map_option (map_prod id (map_sum id fst)) x = Some (out, Inr b)"
  obtains c where "x = Some (out, Inr (b, c))"
proof -
  obtain r where r: "x = Some (out, r)" "map_sum id fst r = Inr b" using assms by (cases x) auto
  then show thesis using that by (cases r) auto
qed

definition sample_sending :: http_conn where
  "sample_sending = (fresh_conn 4)\<lparr>m_write_ring := \<lparr>rb_buffer = ''abcd'', rb_capacity = 4, rb_head = 1, rb_tail = 0, rb_size = 3\<rparr>,
     bytes_to_send := 5, m_filefd := Some ''xy'', m_file_size := 2\<rparr>"

definition send_then_block :: "sys_call list" where
  "send_then_block =
     [\<lparr>sc_send = (\<lambda>bs. \<lparr>io_ret = int (min 2 (length bs)), io_data = [], io_errno = EOTHER, io_ssl = SSL_ERROR_OTHER\<rparr>),
       sc_sendfile = (\<lambda>n. (0, EOTHER)), sc_read = (\<lambda>n. (0, EOTHER))\<rparr>,
      \<lparr>sc_send = (\<lambda>bs. \<lparr>io_ret = - 1, io_data = [], io_errno = EAGAIN, io_ssl = SSL_ERROR_OTHER\<rparr>),
       sc_sendfile = (\<lambda>n. (0, EOTHER)), sc_read = (\<lambda>n. (0, EOTHER))\<rparr>]"


text \<open>A call that makes progress whenever it can.\<close>

definition makes_progress :: "sys_call \<Rightarrow> bool" where
  "makes_progress k \<longleftrightarrow> sys_call_ok k \<and> (\<forall>bs. bs \<noteq> [] \<longrightarrow> io_ret (sc_send k bs) > 0)
     \<and> (\<forall>n. n > 0 \<longrightarrow> fst (sc_sendfile k n) > 0)"

lemma ring_send_progress:
  assumes "ring_ok r" "rb_size r > 0" "\<not> m_https_enabled t" "\<forall>bs. bs \<noteq> [] \<longrightarrow> io_ret (f bs) > 0"
    "ring_send f t r = (n, t', r')"
  shows "n > 0"
proof -
  let ?bs = "take (min (rb_capacity r - rb_head r) (rb_size r)) (drop (rb_head r) (rb_buffer r))"
  have "?bs \<noteq> []" using assms(1,2) by (auto simp: ring_ok_def)
  then have "io_ret (f ?bs) > 0" using assms(4) by blast
  then show ?thesis
    using assms(2,3,5) by (auto simp: ring_send_def socket_send_def Let_def split: if_splits)
qed

lemma write_loop_completes:
  "sending_ok c \<Longrightarrow> pending c \<noteq> [] \<Longrightarrow> list_all makes_progress ks \<Longrightarrow> length (pending c) \<le> length ks \<Longrightarrow>
     \<exists>r. write_loop ks c = Some (pending c, r)"
proof (induction ks arbitrary: c)
  case Nil
  then show ?case by simp
next
  case (Cons k ks)
  have k: "makes_progress k" "sys_call_ok k" and ks: "list_all makes_progress ks"
    using Cons.prems(3) by (simp_all add: makes_progress_def [of k])
  have plain: "\<not> m_https_enabled (m_tls c)" and rok: "ring_ok (m_write_ring c)"
    using Cons.prems(1) by (simp_all add: sending_ok_def)
  have next_round: "\<exists>r. map_option (\<lambda>(o', r'). (pre @ o', r')) (write_loop ks c2) = Some (pending c, r)"
    if c2: "sending_ok c2" "pending c = pre @ pending c2" "pre \<noteq> []" "\<not> bytes_to_send c2 \<le> 0" for c2 pre
  proof -
    have "pending c2 \<noteq> []" using c2(1,4) by (auto simp: sending_ok_def)
    moreover have "length (pending c2) \<le> length ks" using Cons.prems(4) c2(2,3) by (cases pre) auto
    ultimately obtain r where "write_loop ks c2 = Some (pending c2, r)" using Cons.IH [OF c2(1) _ ks] by blast
    then show ?thesis using c2(2) by simp
  qed
  show ?case
  proof (cases "rb_size (m_write_ring c) > 0")
    case ring: True
    obtain n t r where s: "ring_send (sc_send k) (m_tls c) (m_write_ring c) = (n, t, r)" by (metis prod_cases3)
    have n: "n > 0" using ring_send_progress [OF rok ring plain _ s] k(1) by (simp add: makes_progress_def)
    define c1 where "c1 = c\<lparr>m_tls := t, m_write_ring := r\<rparr>"
    define c2 where "c2 = count_sent (nat n) (c1\<lparr>m_header_bytes_sent := m_header_bytes_sent c1 + n\<rparr>)"
    let ?o = "take (nat n) (ring_list (m_write_ring c))"
    have c2: "sending_ok c2" "pending c = ?o @ pending c2"
      using sent_header(2) [OF Cons.prems(1) k(2) s c1_def n] by (simp_all add: c2_def)
    have "?o \<noteq> []" using n ring by (metis length_0_conv length_ring_list less_numeral_extra(3) take_eq_Nil nat_0_iff not_less zero_less_nat_eq)
    then have "\<not> bytes_to_send c2 \<le> 0 \<Longrightarrow> ?thesis"
      using next_round [OF c2] ring s n by (simp add: write_loop.simps(2) Let_def c1_def c2_def)
    moreover have "bytes_to_send c2 \<le> 0 \<Longrightarrow> pending c2 = []" using c2(1) by (simp add: sending_ok_def)
    ultimately show ?thesis
      using c2(2) ring s n by (cases "bytes_to_send c2 \<le> 0") (auto simp: write_loop.simps(2) Let_def c1_def c2_def)
  next
    case False
    then have ring: "rb_size (m_write_ring c) = 0" by simp
    then have p: "pending c = file_rest c" by (metis append_Nil length_0_conv length_ring_list pending_def)
    then obtain d where d: "m_filefd c = Some d" using Cons.prems(2) by (auto simp: file_rest_def split: option.splits)
    obtain n e where s: "sc_sendfile k (min (nat (bytes_to_send c)) (length (file_rest c))) = (n, e)" by fastforce
    have "min (nat (bytes_to_send c)) (length (file_rest c)) > 0" using Cons.prems(1,2) p by (simp add: sending_ok_def)
    then have n: "n > 0" using k(1) s by (metis fst_conv makes_progress_def)
    define c1 where "c1 = (count_sent (nat n) c)\<lparr>m_file_offset := m_file_offset c + n\<rparr>"
    let ?o = "take (nat n) (file_rest c)"
    have c1: "sending_ok c1" "pending c = ?o @ pending c1"
      using sent_file [OF Cons.prems(1) k(2) ring d s n c1_def] by blast+
    have "?o \<noteq> []" using n p Cons.prems(2) by simp
    then have "\<not> bytes_to_send c1 \<le> 0 \<Longrightarrow> ?thesis"
      using next_round [OF c1] ring s n d plain by (simp add: write_loop.simps(2) Let_def c1_def)
    moreover have "bytes_to_send c1 \<le> 0 \<Longrightarrow> pending c1 = []" using c1(1) by (simp add: sending_ok_def)
    ultimately show ?thesis
      using c1(2) ring s n d plain by (cases "bytes_to_send c1 \<le> 0") (auto simp: write_loop.simps(2) Let_def c1_def)
  qed
qed

text \<open>
  When the peer keeps taking bytes, one call of \<open>write\<close> sends the whole reply: as many
  rounds as there are bytes left are always enough.
\<close>

lemma write_completes:
  assumes "sending_ok c" and "pending c \<noteq> []" and "list_all makes_progress ks" and "length (pending c) \<le> length ks"
  shows "\<exists>r. write_conn ks c = Some (pending c, r)"
  using write_loop_completes [OF assms] assms(1,2) by (simp add: write_conn_def sending_ok_def)

definition one_byte_calls :: "sys_call list" where
  "one_byte_calls = replicate 5
     \<lparr>sc_send = (\<lambda>bs. \<lparr>io_ret = int (min 1 (length bs)), io_data = [], io_errno = EOTHER, io_ssl = SSL_ERROR_OTHER\<rparr>),
      sc_sendfile = (\<lambda>n. (int (min 1 n), EOTHER)), sc_read = (\<lambda>n. (0, EOTHER))\<rparr>"

lemma write_completes_witness: "\<exists>r. write_conn one_byte_calls sample_sending = Some (''bcdxy'', r)"
proof -
  have ring: "ring_list (m_write_ring sample_sending) = ''bcd''" by code_simp
  have p: "pending sample_sending = ''bcdxy''"
    unfolding pending_def ring by (simp add: file_rest_def sample_sending_def fresh_conn_def)
  have ok: "sending_ok sample_sending"
    unfolding sending_ok_def p by (simp add: sample_sending_def fresh_conn_def ring_ok_def)
  have "list_all makes_progress one_byte_calls"
    by (simp add: one_byte_calls_def list_all_iff makes_progress_def sys_call_ok_def send_ok_def)
  from write_completes [OF ok _ this] show ?thesis by (simp add: p one_byte_calls_def)
qed

subsection \<open>No connection is forgotten\<close>

text \<open>
  Property C33. \<open>process\<close> always returns, and it never forgets a connection: the socket is registered
  for one event only, and afterwards it is armed for reading or writing again, or closed.
\<close>

theorem process_rearms_or_closes:
  assumes "read_ok c"
  shows "\<exists>r. process ae c = Some r
    \<and> (case r of Inl u \<Rightarrow> True | Inr c' \<Rightarrow> m_armed c' = Some EPOLLIN \<or> m_armed c' = Some EPOLLOUT \<or> \<not> m_sock_open c')"
proof -
  obtain o' where o': "process_read (ae_conn ae) (do_request ae) c = Some o'"
    using process_read_returns [OF assms] by blast
  have closed: "\<not> m_sock_open (close_conn_locked c3)" for c3
    by (simp add: close_conn_locked_def release_connection_memory_def)
  show ?thesis
    using o' closed by (auto simp: process_def Let_def split: sum.splits prod.splits)
qed

theorem process_rearms_or_closes_witness:
  "\<exists>r. process sample_app (fresh_conn 64) = Some r
    \<and> (case r of Inl u \<Rightarrow> True | Inr c' \<Rightarrow> m_armed c' = Some EPOLLIN \<or> m_armed c' = Some EPOLLOUT \<or> \<not> m_sock_open c')"
  by (rule process_rearms_or_closes)
     (simp add: read_ok_def fresh_conn_def ring_ok_def reset_ring_buffer_def)

subsection \<open>A read that never ends\<close>

text \<open>
  The read ring is full at its limit, a spooled body is being received, and the flush has nothing
  to write: the declared length is reached, or the body is chunked and has none.
\<close>

definition stuck :: "http_conn \<Rightarrow> bool" where
  "stuck c \<longleftrightarrow> ring_writable (m_read_ring c) = 0 \<and> rb_capacity (m_read_ring c) = READ_BUFFER_MAX_SIZE
     \<and> m_check_state c = CHECK_STATE_CONTENT \<and> m_stream_body_file c \<noteq> None
     \<and> m_content_length c \<le> m_stream_body_bytes_received c"

lemma stuck_sync: "stuck (sync_read_buffer c) = stuck c"
  by (simp add: stuck_def sync_read_buffer_def Let_def)

lemma stuck_flush:
  assumes "stuck c"
  shows "flush_streamed_body_from_read_buffer env c = (True, sync_read_buffer c)"
proof -
  have "m_content_length (sync_read_buffer c) \<le> m_stream_body_bytes_received (sync_read_buffer c)"
    using assms by (simp add: stuck_def sync_read_buffer_def Let_def)
  moreover obtain w where "m_stream_body_file c = Some w" using assms by (auto simp: stuck_def)
  moreover have "m_check_state c = CHECK_STATE_CONTENT" using assms by (simp add: stuck_def)
  ultimately show ?thesis by (simp add: flush_streamed_body_from_read_buffer_def Let_def)
qed

lemma stuck_capacity:
  "stuck c \<Longrightarrow> ensure_read_capacity (int (rb_capacity (m_read_ring c)) * 2) c = (False, c)"
  by (simp add: stuck_def ensure_read_capacity_def READ_BUFFER_MAX_SIZE_def Let_def)

lemma read_et_not_stuck:
  assumes "read_et env app k has fs c = Some r"
  shows "\<not> stuck c"
proof (rule read_et.raw_induct [where P = "\<lambda>_ _ _ _ _ c _. \<not> stuck c", OF _ assms], goal_cases)
  case (1 read_et' env app k has fs c r)
  show ?case
  proof
    assume s: "stuck c"
    let ?c = "sync_read_buffer c"
    have "read_et' env app k has fs (sync_read_buffer ?c) = Some r"
      using 1(2) s stuck_capacity [OF s] stuck_flush [of ?c env] stuck_sync [of c]
      by (simp add: stuck_def [of c] stuck_def [of ?c] Let_def)
    then have "\<not> stuck (sync_read_buffer ?c)" by (rule 1(1))
    then show False using s stuck_sync by simp
  qed
qed

text \<open>
  Property C38. The edge-triggered read loop does not end when the ring is full at its 2 MiB limit
  while a spooled body has nothing left to flush, as with a chunked multipart body, for which
  the flush computes the remaining length from \<open>Content-Length\<close>: no further system call is made.
\<close>

theorem read_et_spins:
  assumes "stuck c"
  shows "read_et env app k has fs c = None"
  using read_et_not_stuck assms by (metis not_None_eq)

definition stuck_conn :: http_conn where
  "stuck_conn = (fresh_conn 4)\<lparr>m_read_ring := \<lparr>rb_buffer = replicate READ_BUFFER_MAX_SIZE NUL,
       rb_capacity = READ_BUFFER_MAX_SIZE, rb_head = 0, rb_tail = 0, rb_size = READ_BUFFER_MAX_SIZE\<rparr>,
     m_chunked := True, m_check_state := CHECK_STATE_CONTENT, m_stream_body_file := Some []\<rparr>"

theorem read_et_spins_witness:
  "read_et sample_env (\<lambda>c. Inr (NO_REQUEST, c)) 0 True [] stuck_conn = None"
  by (rule read_et_spins) (simp add: stuck_def stuck_conn_def fresh_conn_def ring_writable_def)

text \<open>
  A request line that ends in a bare line feed is neither parsed nor refused: the
  server goes on waiting.
\<close>

lemma bare_line_feed_ignored:
  "map_option (map_sum id fst) (process_read sample_env (\<lambda>c. Inr (NO_REQUEST, c))
     (received 32 (''GET /a HTTP/1.1'' @ [LF]))) = Some (Inr NO_REQUEST)"
  by code_simp

end
