(* ===== verification/Mpmc_Queue.thy ===== *)
theory Mpmc_Queue
  imports Fifo
begin

text \<open>
  The lock-free task queue of the thread pool (class \<open>bounded_mpmc_queue\<close> of
  src/infra/threadpool/threadpool.h): a circular array of cells, each with a sequence number, and
  the positions of the next enqueue and the next dequeue. Any number of threads run \<open>enqueue\<close> and
  \<open>dequeue\<close> at the same time; one step of the model is one access of one thread to the shared
  memory, and the steps of different threads interleave freely. A weak compare-and-exchange may
  fail for no reason; the argument \<open>sp\<close> of a step says when.

  The positions are \<open>size_t\<close> counters that only grow; they are natural numbers here, which is exact
  below \<open>2^63\<close> operations. \<open>g_in\<close> and \<open>g_out\<close> are not in the code: they record the values in the
  order of their claims, and which position each reader took.
\<close>

unbundle bit_operations_syntax

record 'a mpmc =
  mq_seq :: "nat list"
  mq_payload :: "'a list"
  m_enqueue_pos :: nat
  m_dequeue_pos :: nat
  g_in :: "'a list"
  g_out :: "(nat \<times> 'a) list"

function double_until :: "nat \<Rightarrow> nat \<Rightarrow> nat" where
  "double_until n capacity = (if 0 < n \<and> n < capacity then double_until (push_bit 1 n) capacity else n)"
  by pat_completeness auto
termination
  by (relation "measure (\<lambda>(n, c). c - n)") (auto simp: push_bit_eq_mult)

declare double_until.simps [simp del]

definition normalize_capacity :: "nat \<Rightarrow> nat" where
  "normalize_capacity capacity = double_until 1 capacity"

definition new_mpmc :: "'a \<Rightarrow> nat \<Rightarrow> 'a mpmc" where
  "new_mpmc d capacity =
     (let n = normalize_capacity capacity in
      \<lparr>mq_seq = [0..<n], mq_payload = replicate n d, m_enqueue_pos = 0, m_dequeue_pos = 0, g_in = [], g_out = []\<rparr>)"

text \<open>\<open>m_mask\<close> and the cell of a position.\<close>

definition mq_mask :: "'a mpmc \<Rightarrow> nat" where
  "mq_mask m = length (mq_seq m) - 1"

definition cell_of :: "'a mpmc \<Rightarrow> nat \<Rightarrow> nat" where
  "cell_of m pos = pos AND mq_mask m"

text \<open>Where a thread stands: before each of its accesses, and with what it has in its variables.\<close>

datatype 'a mq_thread =
    Outside
  | EStart 'a | EPos 'a nat | ESeq 'a nat nat | EOwn 'a nat | EPub 'a nat | EDone bool
  | DStart | DPos nat | DSeq nat nat | DOwn nat | DFree nat 'a | DDone "'a option"

fun mq_step :: "bool \<Rightarrow> 'a mq_thread \<Rightarrow> 'a mpmc \<Rightarrow> 'a mq_thread \<times> 'a mpmc" where
  "mq_step sp (EStart v) m = (EPos v (m_enqueue_pos m), m)"
| "mq_step sp (EPos v pos) m = (ESeq v pos (mq_seq m ! cell_of m pos), m)"
| "mq_step sp (ESeq v pos sq) m =
     (let diff = int sq - int pos in
      if diff = 0 then
        (if m_enqueue_pos m = pos \<and> \<not> sp
         then (EOwn v pos, m\<lparr>m_enqueue_pos := pos + 1, g_in := g_in m @ [v]\<rparr>)
         else (EPos v (m_enqueue_pos m), m))
      else if diff < 0 then (EDone False, m)
      else (EStart v, m))"
| "mq_step sp (EOwn v pos) m = (EPub v pos, m\<lparr>mq_payload := (mq_payload m)[cell_of m pos := v]\<rparr>)"
| "mq_step sp (EPub v pos) m = (EDone True, m\<lparr>mq_seq := (mq_seq m)[cell_of m pos := pos + 1]\<rparr>)"
| "mq_step sp DStart m = (DPos (m_dequeue_pos m), m)"
| "mq_step sp (DPos pos) m = (DSeq pos (mq_seq m ! cell_of m pos), m)"
| "mq_step sp (DSeq pos sq) m =
     (let diff = int sq - int (pos + 1) in
      if diff = 0 then
        (if m_dequeue_pos m = pos \<and> \<not> sp
         then (DOwn pos, m\<lparr>m_dequeue_pos := pos + 1\<rparr>)
         else (DPos (m_dequeue_pos m), m))
      else if diff < 0 then (DDone None, m)
      else (DStart, m))"
| "mq_step sp (DOwn pos) m =
     (DFree pos (mq_payload m ! cell_of m pos), m\<lparr>g_out := g_out m @ [(pos, mq_payload m ! cell_of m pos)]\<rparr>)"
| "mq_step sp (DFree pos v) m = (DDone (Some v), m\<lparr>mq_seq := (mq_seq m)[cell_of m pos := pos + mq_mask m + 1]\<rparr>)"
| "mq_step sp Outside m = (Outside, m)"
| "mq_step sp (EDone b) m = (EDone b, m)"
| "mq_step sp (DDone r) m = (DDone r, m)"

text \<open>The system: a state of every thread, and the shared memory. A thread that is done may call again.\<close>

definition may_call :: "'a mq_thread \<Rightarrow> bool" where
  "may_call l \<longleftrightarrow> (case l of Outside \<Rightarrow> True | EDone _ \<Rightarrow> True | DDone _ \<Rightarrow> True | _ \<Rightarrow> False)"

inductive mq_system :: "(nat \<Rightarrow> 'a mq_thread) \<times> 'a mpmc \<Rightarrow> (nat \<Rightarrow> 'a mq_thread) \<times> 'a mpmc \<Rightarrow> bool" where
  call_enqueue: "may_call (T t) \<Longrightarrow> mq_system (T, m) (T(t := EStart v), m)"
| call_dequeue: "may_call (T t) \<Longrightarrow> mq_system (T, m) (T(t := DStart), m)"
| run: "mq_step sp (T t) m = (l, m') \<Longrightarrow> mq_system (T, m) (T(t := l), m')"

inductive_cases mq_systemE: "mq_system (T, m) s"

definition mq_reachable :: "'a \<Rightarrow> nat \<Rightarrow> (nat \<Rightarrow> 'a mq_thread) \<times> 'a mpmc \<Rightarrow> bool" where
  "mq_reachable d capacity s \<longleftrightarrow> mq_system\<^sup>*\<^sup>* (\<lambda>_. Outside, new_mpmc d capacity) s"

subsection \<open>Cells\<close>

lemma double_until_power:
  "0 < n \<Longrightarrow> \<exists>k. double_until n c = n * 2 ^ k \<and> c \<le> double_until n c"
proof (induction n c rule: double_until.induct)
  case (1 n c)
  show ?case
  proof (cases "n < c")
    case True
    then obtain k where k: "double_until (push_bit 1 n) c = push_bit 1 n * 2 ^ k" "c \<le> double_until (push_bit 1 n) c"
      using 1 by (auto simp: push_bit_eq_mult)
    then have "double_until n c = n * 2 ^ Suc k" using True 1(2) by (simp add: double_until.simps [of n] push_bit_eq_mult)
    then show ?thesis using k True 1(2) by (metis double_until.simps)
  next
    case False
    then show ?thesis by (auto simp: double_until.simps [of n] intro: exI [of _ 0])
  qed
qed

lemma normalize_capacity_power: "\<exists>k. normalize_capacity c = 2 ^ k \<and> c \<le> normalize_capacity c"
  using double_until_power [of 1 c] by (simp add: normalize_capacity_def)

lemma and_mask_mod: "(pos :: nat) AND (2 ^ k - 1) = pos mod 2 ^ k"
  by (metis mask_eq_exp_minus_1 take_bit_eq_mask take_bit_eq_mod)

lemma window_mod_inj:
  fixes p q a n :: nat
  assumes "a \<le> p" "p < a + n" "a \<le> q" "q < a + n" "p mod n = q mod n"
  shows "p = q"
proof -
  have *: "x = y" if "a \<le> x" "x \<le> y" "y < a + n" "x mod n = y mod n" for x y :: nat
  proof -
    have "n dvd y - x" using that mod_eq_dvd_iff_nat [of x y n] by simp
    moreover have "y - x < n" using that by linarith
    ultimately show ?thesis using that(2) by (auto dest: nat_dvd_not_less)
  qed
  show ?thesis using assms * [of p q] * [of q p] by (cases "p \<le> q") auto
qed

subsection \<open>The invariant\<close>

text \<open>
  With \<open>N\<close> cells, the positions from \<open>m_dequeue_pos\<close> up to \<open>N\<close> more each have their own cell. A position
  below \<open>m_enqueue_pos\<close> is claimed by a writer (its number is still the position) or published
  (one more, and the payload is there); one above is free, or its cell is still being emptied.
\<close>

definition seq_at :: "'a mpmc \<Rightarrow> nat \<Rightarrow> nat" where
  "seq_at m p = mq_seq m ! (p mod length (mq_seq m))"

definition pay_at :: "'a mpmc \<Rightarrow> nat \<Rightarrow> 'a" where
  "pay_at m p = mq_payload m ! (p mod length (mq_seq m))"

definition cells_ok :: "'a mpmc \<Rightarrow> bool" where
  "cells_ok m \<longleftrightarrow> (\<exists>k. length (mq_seq m) = 2 ^ k) \<and> 2 \<le> length (mq_seq m) \<and> length (mq_payload m) = length (mq_seq m)"

definition shared_ok :: "'a mpmc \<Rightarrow> bool" where
  "shared_ok m \<longleftrightarrow> cells_ok m \<and> m_enqueue_pos m = length (g_in m)
     \<and> m_dequeue_pos m \<le> m_enqueue_pos m \<and> m_enqueue_pos m \<le> m_dequeue_pos m + length (mq_seq m)
     \<and> (\<forall>p. m_dequeue_pos m \<le> p \<and> p < m_enqueue_pos m \<longrightarrow>
          seq_at m p = p \<or> seq_at m p = p + 1 \<and> pay_at m p = g_in m ! p)
     \<and> (\<forall>p. m_enqueue_pos m \<le> p \<and> p < m_dequeue_pos m + length (mq_seq m) \<longrightarrow>
          seq_at m p = p \<or> seq_at m p + length (mq_seq m) = p + 1)
     \<and> (\<forall>x \<in> set (g_out m). fst x < m_dequeue_pos m \<and> snd x = g_in m ! fst x)
     \<and> distinct (map fst (g_out m))"

text \<open>What holds of the variables of one thread.\<close>

definition owns_write :: "'a mpmc \<Rightarrow> nat \<Rightarrow> 'a \<Rightarrow> bool" where
  "owns_write m p v \<longleftrightarrow> m_dequeue_pos m \<le> p \<and> p < m_enqueue_pos m \<and> g_in m ! p = v \<and> seq_at m p = p"

definition owns_read :: "'a mpmc \<Rightarrow> nat \<Rightarrow> bool" where
  "owns_read m q \<longleftrightarrow> q < m_dequeue_pos m \<and> m_enqueue_pos m \<le> q + length (mq_seq m) \<and> seq_at m q = q + 1"

fun thread_ok :: "'a mpmc \<Rightarrow> 'a mq_thread \<Rightarrow> bool" where
  "thread_ok m (EPos v p) \<longleftrightarrow> p \<le> m_enqueue_pos m"
| "thread_ok m (ESeq v p sq) \<longleftrightarrow> p \<le> m_enqueue_pos m \<and> (sq = p \<and> p = m_enqueue_pos m \<longrightarrow> seq_at m p = p)"
| "thread_ok m (EOwn v p) \<longleftrightarrow> owns_write m p v"
| "thread_ok m (EPub v p) \<longleftrightarrow> owns_write m p v \<and> pay_at m p = v"
| "thread_ok m (DPos p) \<longleftrightarrow> p \<le> m_dequeue_pos m"
| "thread_ok m (DSeq p sq) \<longleftrightarrow> p \<le> m_dequeue_pos m \<and> (sq = p + 1 \<and> p = m_dequeue_pos m \<longrightarrow> seq_at m p = p + 1)"
| "thread_ok m (DOwn q) \<longleftrightarrow> owns_read m q \<and> pay_at m q = g_in m ! q \<and> q \<notin> fst ` set (g_out m)"
| "thread_ok m (DFree q v) \<longleftrightarrow> owns_read m q \<and> v = g_in m ! q"
| "thread_ok m _ \<longleftrightarrow> True"

text \<open>The position a thread owns, and whether as a writer.\<close>

fun owned :: "'a mq_thread \<Rightarrow> (bool \<times> nat) option" where
  "owned (EOwn v p) = Some (True, p)"
| "owned (EPub v p) = Some (True, p)"
| "owned (DOwn q) = Some (False, q)"
| "owned (DFree q v) = Some (False, q)"
| "owned _ = None"

lemma shared_okD:
  assumes "shared_ok m"
  shows "cells_ok m" "m_enqueue_pos m = length (g_in m)" "m_dequeue_pos m \<le> m_enqueue_pos m"
    "m_enqueue_pos m \<le> m_dequeue_pos m + length (mq_seq m)"
    "m_dequeue_pos m \<le> p \<Longrightarrow> p < m_enqueue_pos m \<Longrightarrow> seq_at m p = p \<or> seq_at m p = p + 1 \<and> pay_at m p = g_in m ! p"
    "m_enqueue_pos m \<le> p \<Longrightarrow> p < m_dequeue_pos m + length (mq_seq m) \<Longrightarrow> seq_at m p = p \<or> seq_at m p + length (mq_seq m) = p + 1"
    "x \<in> set (g_out m) \<Longrightarrow> fst x < m_dequeue_pos m \<and> snd x = g_in m ! fst x"
    "distinct (map fst (g_out m))"
  using assms unfolding shared_ok_def by blast+

lemma shared_okI:
  assumes "cells_ok m" "m_enqueue_pos m = length (g_in m)" "m_dequeue_pos m \<le> m_enqueue_pos m"
    "m_enqueue_pos m \<le> m_dequeue_pos m + length (mq_seq m)"
    "\<And>p. m_dequeue_pos m \<le> p \<Longrightarrow> p < m_enqueue_pos m \<Longrightarrow> seq_at m p = p \<or> seq_at m p = p + 1 \<and> pay_at m p = g_in m ! p"
    "\<And>p. m_enqueue_pos m \<le> p \<Longrightarrow> p < m_dequeue_pos m + length (mq_seq m) \<Longrightarrow> seq_at m p = p \<or> seq_at m p + length (mq_seq m) = p + 1"
    "\<And>x. x \<in> set (g_out m) \<Longrightarrow> fst x < m_dequeue_pos m \<and> snd x = g_in m ! fst x"
    "distinct (map fst (g_out m))"
  shows "shared_ok m"
  using assms unfolding shared_ok_def by blast

lemma pos_sel [simp]:
  "seq_at (m\<lparr>m_enqueue_pos := a\<rparr>) p = seq_at m p" "seq_at (m\<lparr>g_in := b\<rparr>) p = seq_at m p"
  "seq_at (m\<lparr>m_dequeue_pos := a\<rparr>) p = seq_at m p" "seq_at (m\<lparr>g_out := c\<rparr>) p = seq_at m p"
  "pay_at (m\<lparr>m_enqueue_pos := a\<rparr>) p = pay_at m p" "pay_at (m\<lparr>g_in := b\<rparr>) p = pay_at m p"
  "pay_at (m\<lparr>m_dequeue_pos := a\<rparr>) p = pay_at m p" "pay_at (m\<lparr>g_out := c\<rparr>) p = pay_at m p"
  "cells_ok (m\<lparr>m_enqueue_pos := a\<rparr>) = cells_ok m" "cells_ok (m\<lparr>g_in := b\<rparr>) = cells_ok m"
  "cells_ok (m\<lparr>m_dequeue_pos := a\<rparr>) = cells_ok m" "cells_ok (m\<lparr>g_out := c\<rparr>) = cells_ok m"
  by (simp_all add: seq_at_def pay_at_def cells_ok_def)

lemma cell_of_mod: "cells_ok m \<Longrightarrow> cell_of m p = p mod length (mq_seq m)"
  by (auto simp: cells_ok_def cell_of_def mq_mask_def and_mask_mod [simplified])

lemma same_cell:
  assumes "shared_ok m" "m_dequeue_pos m \<le> p" "p < m_dequeue_pos m + length (mq_seq m)"
    "m_dequeue_pos m \<le> q" "q < m_dequeue_pos m + length (mq_seq m)"
    "p mod length (mq_seq m) = q mod length (mq_seq m)"
  shows "p = q"
  using assms window_mod_inj by blast

text \<open>A free cell at the next position means that there is room; a published one, that there is an element.\<close>

lemma room:
  assumes "shared_ok m" "seq_at m (m_enqueue_pos m) = m_enqueue_pos m"
  shows "m_enqueue_pos m < m_dequeue_pos m + length (mq_seq m)"
proof (rule ccontr)
  let ?d = "m_dequeue_pos m" and ?n = "length (mq_seq m)"
  assume "\<not> ?thesis"
  then have e: "m_enqueue_pos m = ?d + ?n" and n: "2 \<le> ?n" using assms(1) by (auto simp: shared_ok_def cells_ok_def)
  then have "seq_at m ?d = ?d \<or> seq_at m ?d = ?d + 1" using assms(1) by (auto simp: shared_ok_def)
  moreover have "seq_at m ?d = ?d + ?n" using assms(2) unfolding e by (simp add: seq_at_def)
  ultimately show False using n by simp
qed

lemma element:
  assumes "shared_ok m" "seq_at m (m_dequeue_pos m) = m_dequeue_pos m + 1"
  shows "m_dequeue_pos m < m_enqueue_pos m \<and> pay_at m (m_dequeue_pos m) = g_in m ! m_dequeue_pos m"
proof -
  let ?d = "m_dequeue_pos m" and ?n = "length (mq_seq m)"
  have "?d < m_enqueue_pos m"
  proof (rule ccontr)
    assume "\<not> ?thesis"
    then have "seq_at m ?d = ?d \<or> seq_at m ?d + ?n = ?d + 1" using assms(1) by (auto simp: shared_ok_def cells_ok_def)
    then show False using assms by (auto simp: shared_ok_def cells_ok_def)
  qed
  then show ?thesis using assms by (auto simp: shared_ok_def)
qed

text \<open>The writes of a step.\<close>

definition set_seq :: "nat \<Rightarrow> nat \<Rightarrow> 'a mpmc \<Rightarrow> 'a mpmc" where
  "set_seq p x m = m\<lparr>mq_seq := (mq_seq m)[p mod length (mq_seq m) := x]\<rparr>"

definition set_pay :: "nat \<Rightarrow> 'a \<Rightarrow> 'a mpmc \<Rightarrow> 'a mpmc" where
  "set_pay p v m = m\<lparr>mq_payload := (mq_payload m)[p mod length (mq_seq m) := v]\<rparr>"

lemma set_seq_sel [simp]:
  "length (mq_seq (set_seq p x m)) = length (mq_seq m)" "mq_payload (set_seq p x m) = mq_payload m"
  "m_enqueue_pos (set_seq p x m) = m_enqueue_pos m" "m_dequeue_pos (set_seq p x m) = m_dequeue_pos m"
  "g_in (set_seq p x m) = g_in m" "g_out (set_seq p x m) = g_out m" "pay_at (set_seq p x m) q = pay_at m q"
  by (simp_all add: set_seq_def pay_at_def)

lemma set_pay_sel [simp]:
  "mq_seq (set_pay p v m) = mq_seq m" "length (mq_payload (set_pay p v m)) = length (mq_payload m)"
  "m_enqueue_pos (set_pay p v m) = m_enqueue_pos m" "m_dequeue_pos (set_pay p v m) = m_dequeue_pos m"
  "g_in (set_pay p v m) = g_in m" "g_out (set_pay p v m) = g_out m" "seq_at (set_pay p v m) q = seq_at m q"
  by (simp_all add: set_pay_def seq_at_def)

lemma seq_at_set_seq:
  "cells_ok m \<Longrightarrow> seq_at (set_seq p x m) q = (if q mod length (mq_seq m) = p mod length (mq_seq m) then x else seq_at m q)"
  by (auto simp: seq_at_def set_seq_def cells_ok_def nth_list_update)

lemma pay_at_set_pay:
  "cells_ok m \<Longrightarrow> pay_at (set_pay p v m) q = (if q mod length (mq_seq m) = p mod length (mq_seq m) then v else pay_at m q)"
  by (auto simp: pay_at_def set_pay_def cells_ok_def nth_list_update)

lemma cells_ok_set [simp]: "cells_ok (set_seq p x m) = cells_ok m" "cells_ok (set_pay p v m) = cells_ok m"
  by (simp_all add: cells_ok_def)

text \<open>The window positions of the cells that are owned.\<close>

lemma write_window:
  "shared_ok m \<Longrightarrow> owns_write m p v \<Longrightarrow> m_dequeue_pos m \<le> p \<and> p < m_enqueue_pos m \<and> p < m_dequeue_pos m + length (mq_seq m)"
  by (auto simp: shared_ok_def owns_write_def)

lemma read_window:
  "shared_ok m \<Longrightarrow> owns_read m q \<Longrightarrow> m_enqueue_pos m \<le> q + length (mq_seq m) \<and> m_dequeue_pos m \<le> q + length (mq_seq m)
     \<and> q + length (mq_seq m) < m_dequeue_pos m + length (mq_seq m)
     \<and> (q + length (mq_seq m)) mod length (mq_seq m) = q mod length (mq_seq m)"
  by (auto simp: shared_ok_def owns_read_def)

lemma two_cells: "shared_ok m \<Longrightarrow> 2 \<le> length (mq_seq m)"
  by (simp add: shared_ok_def cells_ok_def)

text \<open>Every position of the window that shares its cell with an owned one is that position.\<close>

lemma write_cell:
  assumes "shared_ok m" "owns_write m p v" "m_dequeue_pos m \<le> p'" "p' < m_dequeue_pos m + length (mq_seq m)"
    "p' mod length (mq_seq m) = p mod length (mq_seq m)"
  shows "p' = p"
  using write_window [OF assms(1,2)] same_cell [OF assms(1,3,4) _ _ assms(5)] by blast

lemma read_cell:
  assumes "shared_ok m" "owns_read m q" "m_dequeue_pos m \<le> p'" "p' < m_dequeue_pos m + length (mq_seq m)"
    "p' mod length (mq_seq m) = q mod length (mq_seq m)"
  shows "p' = q + length (mq_seq m)"
  using read_window [OF assms(1,2)] same_cell [OF assms(1,3,4), of "q + length (mq_seq m)"] assms(5) by metis

lemma cells_apart:
  assumes ok: "shared_ok m"
  shows "owns_write m p v \<Longrightarrow> owns_write m p' v' \<Longrightarrow> p \<noteq> p' \<Longrightarrow> p mod length (mq_seq m) \<noteq> p' mod length (mq_seq m)"
    and "owns_write m p v \<Longrightarrow> owns_read m q \<Longrightarrow> p mod length (mq_seq m) \<noteq> q mod length (mq_seq m)"
    and "owns_read m q \<Longrightarrow> owns_read m q' \<Longrightarrow> q \<noteq> q' \<Longrightarrow> q mod length (mq_seq m) \<noteq> q' mod length (mq_seq m)"
proof -
  let ?n = "length (mq_seq m)"
  show "p mod ?n \<noteq> p' mod ?n" if "owns_write m p v" "owns_write m p' v'" "p \<noteq> p'"
    using that write_window [OF ok] write_cell [OF ok] by blast
  show "p mod ?n \<noteq> q mod ?n" if w: "owns_write m p v" and r: "owns_read m q"
  proof
    assume "p mod ?n = q mod ?n"
    then have "p = q + ?n" using write_window [OF ok w] read_cell [OF ok r] by blast
    then show False using write_window [OF ok w] read_window [OF ok r] by linarith
  qed
  show "q mod ?n \<noteq> q' mod ?n" if r: "owns_read m q" "owns_read m q'" and ne: "q \<noteq> q'"
  proof
    assume "q mod ?n = q' mod ?n"
    then have "q + ?n = q' + ?n" using read_window [OF ok r(1)] read_cell [OF ok r(2), of "q + ?n"] by metis
    then show False using ne by simp
  qed
qed

subsection \<open>The shared memory stays well formed\<close>

lemma claim_enqueue_shared:
  assumes "shared_ok m" "seq_at m (m_enqueue_pos m) = m_enqueue_pos m"
  shows "shared_ok (m\<lparr>m_enqueue_pos := m_enqueue_pos m + 1, g_in := g_in m @ [v]\<rparr>)"
proof -
  note ok = shared_okD [OF assms(1)]
  show ?thesis
  proof (rule shared_okI, goal_cases)
    case (5 p)
    then show ?case using ok(2) ok(5) [of p] assms(2) by (cases "p = m_enqueue_pos m") (auto simp: nth_append)
  next
    case (6 p)
    then show ?case using ok(6) [of p] by simp
  next
    case (7 x)
    then show ?case using ok(2,3) ok(7) [of x] by (auto simp: nth_append)
  qed (use ok room [OF assms] in simp_all)
qed

lemma claim_dequeue_shared:
  assumes "shared_ok m" "seq_at m (m_dequeue_pos m) = m_dequeue_pos m + 1"
  shows "shared_ok (m\<lparr>m_dequeue_pos := m_dequeue_pos m + 1\<rparr>)"
proof -
  let ?d = "m_dequeue_pos m" and ?n = "length (mq_seq m)"
  note ok = shared_okD [OF assms(1)]
  have last: "seq_at m (?d + ?n) = ?d + 1" using assms(2) by (simp add: seq_at_def)
  show ?thesis
  proof (rule shared_okI, goal_cases)
    case (5 p)
    then show ?case using ok(5) [of p] by simp
  next
    case (6 p)
    then show ?case using ok(6) [of p] last by (cases "p = ?d + ?n") auto
  next
    case (7 x)
    then show ?case using ok(7) [of x] by simp
  qed (use ok element [OF assms] in simp_all)
qed

lemma write_payload_shared:
  assumes "shared_ok m" "owns_write m p v"
  shows "shared_ok (set_pay p v m)"
proof -
  note ok = shared_okD [OF assms(1)]
  show ?thesis
  proof (rule shared_okI, goal_cases)
    case (5 p')
    then have w: "m_dequeue_pos m \<le> p'" "p' < m_enqueue_pos m" "p' < m_dequeue_pos m + length (mq_seq m)" using ok(4) by auto
    have "seq_at m p = p" using assms(2) by (simp add: owns_write_def)
    then show ?case
      using ok(5) [OF w(1,2)] write_cell [OF assms w(1,3)] by (auto simp: pay_at_set_pay [OF ok(1)])
  next
    case (6 p')
    then show ?case using ok(6) [of p'] by simp
  next
    case (7 x)
    then show ?case using ok(7) [of x] by simp
  qed (use ok in simp_all)
qed

lemma publish_shared:
  assumes "shared_ok m" "owns_write m p v" "pay_at m p = v"
  shows "shared_ok (set_seq p (p + 1) m)"
proof -
  note ok = shared_okD [OF assms(1)]
  have new: "seq_at (set_seq p (p + 1) m) p' = (if p' = p then p + 1 else seq_at m p')"
    if "m_dequeue_pos m \<le> p'" "p' < m_dequeue_pos m + length (mq_seq m)" for p'
    using write_cell [OF assms(1,2) that] by (auto simp: seq_at_set_seq [OF ok(1)])
  show ?thesis
  proof (rule shared_okI, goal_cases)
    case (5 p')
    then show ?case using ok(4) ok(5) [of p'] new [of p'] assms(2,3) by (auto simp: owns_write_def)
  next
    case (6 p')
    then show ?case using ok(3) ok(6) [of p'] new [of p'] assms(2) by (auto simp: owns_write_def)
  next
    case (7 x)
    then show ?case using ok(7) [of x] by simp
  qed (use ok in simp_all)
qed

lemma free_shared:
  assumes "shared_ok m" "owns_read m q"
  shows "shared_ok (set_seq q (q + length (mq_seq m)) m)"
proof -
  note ok = shared_okD [OF assms(1)] and w = read_window [OF assms]
  have new: "seq_at (set_seq q (q + length (mq_seq m)) m) p' = (if p' = q + length (mq_seq m) then p' else seq_at m p')"
    if "m_dequeue_pos m \<le> p'" "p' < m_dequeue_pos m + length (mq_seq m)" for p'
  proof -
    have "p' mod length (mq_seq m) = q mod length (mq_seq m) \<longleftrightarrow> p' = q + length (mq_seq m)"
      using read_cell [OF assms that] w by metis
    then show ?thesis unfolding seq_at_set_seq [OF ok(1)] by simp
  qed
  show ?thesis
  proof (rule shared_okI, goal_cases)
    case (5 p')
    then show ?case using ok(4) ok(5) [of p'] new [of p'] w by auto
  next
    case (6 p')
    then show ?case using ok(3) ok(6) [of p'] new [of p'] by auto
  next
    case (7 x)
    then show ?case using ok(7) [of x] by simp
  qed (use ok in simp_all)
qed

lemma log_shared:
  assumes "shared_ok m" "owns_read m q" "q \<notin> fst ` set (g_out m)" "pay_at m q = g_in m ! q"
  shows "shared_ok (m\<lparr>g_out := g_out m @ [(q, pay_at m q)]\<rparr>)"
proof -
  note ok = shared_okD [OF assms(1)]
  have q: "q < m_dequeue_pos m" using assms(2) by (simp add: owns_read_def)
  show ?thesis
  proof (rule shared_okI, goal_cases)
    case (5 p)
    then show ?case using ok(5) [of p] by simp
  next
    case (6 p)
    then show ?case using ok(6) [of p] by simp
  next
    case (7 x)
    then show ?case using ok(7) [of x] q assms(4) by auto
  qed (use ok assms(3) in simp_all)
qed

subsection \<open>The other threads are not disturbed\<close>

text \<open>What a step may rely on of a thread that owns something else, or nothing.\<close>

lemma claim_enqueue_others:
  assumes "shared_ok m" "seq_at m (m_enqueue_pos m) = m_enqueue_pos m" "thread_ok m l"
  shows "thread_ok (m\<lparr>m_enqueue_pos := m_enqueue_pos m + 1, g_in := g_in m @ [v]\<rparr>) l"
proof -
  note ok = shared_okD [OF assms(1)]
  have reads: "m_enqueue_pos m + 1 \<le> q + length (mq_seq m)" if "owns_read m q" for q
  proof -
    have "seq_at m (q + length (mq_seq m)) = q + 1" using that by (simp add: owns_read_def seq_at_def)
    then have "m_enqueue_pos m \<noteq> q + length (mq_seq m)" using assms(2) two_cells [OF assms(1)] by auto
    then show ?thesis using that by (simp add: owns_read_def)
  qed
  have len: "q < m_dequeue_pos m \<Longrightarrow> q < length (g_in m)" for q using ok(2,3) by simp
  show ?thesis
    using assms(3) reads len ok(2)
    by (cases l) (auto simp: owns_write_def owns_read_def nth_append)
qed

lemma claim_dequeue_others:
  assumes "shared_ok m" "seq_at m (m_dequeue_pos m) = m_dequeue_pos m + 1" "thread_ok m l"
  shows "thread_ok (m\<lparr>m_dequeue_pos := m_dequeue_pos m + 1\<rparr>) l"
proof -
  have "m_dequeue_pos m \<noteq> p" if "owns_write m p v" for p v
    using that assms(2) by (auto simp: owns_write_def)
  then have "m_dequeue_pos m + 1 \<le> p" if "owns_write m p v" for p v
    using that by (fastforce simp: owns_write_def)
  then show ?thesis
    using assms(3) by (cases l) (auto simp: owns_write_def owns_read_def)
qed

lemma write_payload_others:
  assumes "shared_ok m" "owns_write m p v" "thread_ok m l" "owned l \<noteq> Some (True, p)"
  shows "thread_ok (set_pay p v m) l"
proof -
  have same: "owns_write (set_pay p v m) p' v' = owns_write m p' v'" "owns_read (set_pay p v m) q = owns_read m q" for p' v' q
    by (simp_all add: owns_write_def owns_read_def)
  have w: "pay_at (set_pay p v m) p' = pay_at m p'" if "owns_write m p' v'" "p' \<noteq> p" for p' v'
    using cells_apart(1) [OF assms(1,2) that(1)] that(2) by (auto simp: pay_at_set_pay [OF shared_okD(1) [OF assms(1)]])
  have r: "pay_at (set_pay p v m) q = pay_at m q" if "owns_read m q" for q
    using cells_apart(2) [OF assms(1,2) that] by (auto simp: pay_at_set_pay [OF shared_okD(1) [OF assms(1)]])
  show ?thesis using assms(3,4) w r by (cases l) (auto simp: same)
qed

text \<open>A write to the sequence number of an owned cell.\<close>

lemma set_seq_others:
  assumes ok: "shared_ok m" and l: "thread_ok m l"
    and w: "\<And>p' v'. owned l = Some (True, p') \<Longrightarrow> owns_write m p' v' \<Longrightarrow> p' mod length (mq_seq m) \<noteq> p mod length (mq_seq m)"
    and r: "\<And>q. owned l = Some (False, q) \<Longrightarrow> owns_read m q \<Longrightarrow> q mod length (mq_seq m) \<noteq> p mod length (mq_seq m)"
    and e: "seq_at m (m_enqueue_pos m) = m_enqueue_pos m \<Longrightarrow> m_enqueue_pos m mod length (mq_seq m) \<noteq> p mod length (mq_seq m)"
    and d: "seq_at m (m_dequeue_pos m) = m_dequeue_pos m + 1 \<Longrightarrow> m_dequeue_pos m mod length (mq_seq m) \<noteq> p mod length (mq_seq m)"
  shows "thread_ok (set_seq p x m) l"
proof -
  note sq = seq_at_set_seq [OF shared_okD(1) [OF ok]]
  have w': "owns_write (set_seq p x m) p' v'" if "owned l = Some (True, p')" "owns_write m p' v'" for p' v'
    using w [OF that] that(2) by (simp add: owns_write_def sq)
  have r': "owns_read (set_seq p x m) q" if "owned l = Some (False, q)" "owns_read m q" for q
    using r [OF that] that(2) by (simp add: owns_read_def sq)
  show ?thesis using l w' r' e d by (cases l) (auto simp: sq)
qed

lemma publish_others:
  assumes ok: "shared_ok m" and own: "owns_write m p v" and l: "thread_ok m l" "owned l \<noteq> Some (True, p)"
  shows "thread_ok (set_seq p x m) l"
proof (rule set_seq_others [OF ok l(1)])
  show "p' mod length (mq_seq m) \<noteq> p mod length (mq_seq m)" if "owned l = Some (True, p')" "owns_write m p' v'" for p' v'
    using cells_apart(1) [OF ok that(2) own] that(1) l(2) by blast
  show "q mod length (mq_seq m) \<noteq> p mod length (mq_seq m)" if "owns_read m q" for q
    using cells_apart(2) [OF ok own that] by metis
  show "m_enqueue_pos m mod length (mq_seq m) \<noteq> p mod length (mq_seq m)" if "seq_at m (m_enqueue_pos m) = m_enqueue_pos m"
    using write_cell [OF ok own _ room [OF ok that]] write_window [OF ok own] by (metis nat_less_le order.strict_trans1)
  show "m_dequeue_pos m mod length (mq_seq m) \<noteq> p mod length (mq_seq m)" if d: "seq_at m (m_dequeue_pos m) = m_dequeue_pos m + 1"
  proof
    assume "m_dequeue_pos m mod length (mq_seq m) = p mod length (mq_seq m)"
    then have "m_dequeue_pos m = p" using write_cell [OF ok own order_refl] two_cells [OF ok] by fastforce
    then show False using d own by (simp add: owns_write_def)
  qed
qed

lemma free_others:
  assumes ok: "shared_ok m" and own: "owns_read m q" and l: "thread_ok m l" "owned l \<noteq> Some (False, q)"
  shows "thread_ok (set_seq q x m) l"
proof (rule set_seq_others [OF ok l(1)])
  let ?n = "length (mq_seq m)"
  show "p' mod ?n \<noteq> q mod ?n" if "owns_write m p' v'" for p' v'
    using cells_apart(2) [OF ok that own] .
  show "q' mod ?n \<noteq> q mod ?n" if "owned l = Some (False, q')" "owns_read m q'" for q'
    using cells_apart(3) [OF ok that(2) own] that(1) l(2) by blast
  show "m_enqueue_pos m mod ?n \<noteq> q mod ?n" if e: "seq_at m (m_enqueue_pos m) = m_enqueue_pos m"
  proof
    assume same: "m_enqueue_pos m mod ?n = q mod ?n"
    then have "m_enqueue_pos m = q + ?n" using read_cell [OF ok own _ room [OF ok e]] shared_okD(3) [OF ok] by blast
    moreover have "seq_at m (m_enqueue_pos m) = q + 1" using own same by (simp add: owns_read_def seq_at_def)
    ultimately show False using e two_cells [OF ok] by simp
  qed
  show "m_dequeue_pos m mod ?n \<noteq> q mod ?n" if d: "seq_at m (m_dequeue_pos m) = m_dequeue_pos m + 1"
  proof
    assume same: "m_dequeue_pos m mod ?n = q mod ?n"
    then have "m_dequeue_pos m = q + ?n" using read_cell [OF ok own order_refl] two_cells [OF ok] by fastforce
    then show False using read_window [OF ok own] element [OF ok d] by simp
  qed
qed

lemma log_others:
  "thread_ok m l \<Longrightarrow> owned l \<noteq> Some (False, q) \<Longrightarrow> thread_ok (m\<lparr>g_out := g_out m @ [(q, x)]\<rparr>) l"
  by (cases l) (auto simp: owns_write_def owns_read_def)

subsection \<open>Every step keeps the invariant\<close>

definition exclusive :: "(nat \<Rightarrow> 'a mq_thread) \<Rightarrow> bool" where
  "exclusive T \<longleftrightarrow> (\<forall>t u. owned (T t) \<noteq> None \<longrightarrow> owned (T u) = owned (T t) \<longrightarrow> t = u)"

definition mq_ok :: "(nat \<Rightarrow> 'a mq_thread) \<times> 'a mpmc \<Rightarrow> bool" where
  "mq_ok s \<longleftrightarrow> shared_ok (snd s) \<and> (\<forall>t. thread_ok (snd s) (fst s t)) \<and> exclusive (fst s)"

text \<open>
  One step of a thread: the shared memory and the thread stay well formed, a thread that owns
  something else is not disturbed, and a position that becomes owned was owned by nobody.
\<close>

definition good_step :: "'a mpmc \<Rightarrow> 'a mq_thread \<Rightarrow> 'a mq_thread \<times> 'a mpmc \<Rightarrow> bool" where
  "good_step m l res \<longleftrightarrow> (case res of (l', m') \<Rightarrow>
     shared_ok m' \<and> thread_ok m' l'
     \<and> (\<forall>k. thread_ok m k \<longrightarrow> (owned l \<noteq> None \<longrightarrow> owned k \<noteq> owned l) \<longrightarrow>
          thread_ok m' k \<and> (owned l' \<noteq> None \<longrightarrow> owned k \<noteq> owned l')))"

lemma good_step_local:
  assumes "shared_ok m" "thread_ok m l'" "owned l' = None \<or> owned l' = owned l"
  shows "good_step m l (l', m)"
  using assms by (auto simp: good_step_def)

lemma enqueue_claim_good:
  assumes ok: "shared_ok m" and l: "thread_ok m (ESeq v pos pos)" and pos: "m_enqueue_pos m = pos"
  shows "good_step m (ESeq v pos pos) (EOwn v pos, m\<lparr>m_enqueue_pos := pos + 1, g_in := g_in m @ [v]\<rparr>)"
proof -
  let ?m = "m\<lparr>m_enqueue_pos := pos + 1, g_in := g_in m @ [v]\<rparr>"
  have sq: "seq_at m (m_enqueue_pos m) = m_enqueue_pos m" using l pos by simp
  have own: "owns_write ?m pos v" using sq pos shared_okD(2,3) [OF ok] by (auto simp: owns_write_def nth_append)
  have "owned k \<noteq> Some (True, pos)" if "thread_ok m k" for k
    using that pos by (cases k) (auto simp: owns_write_def)
  then show ?thesis
    using claim_enqueue_shared [OF ok sq, of v] claim_enqueue_others [OF ok sq, of _ v] own pos by (simp add: good_step_def)
qed

lemma dequeue_claim_good:
  assumes ok: "shared_ok m" and l: "thread_ok m (DSeq pos (pos + 1))" and pos: "m_dequeue_pos m = pos"
  shows "good_step m (DSeq pos (pos + 1)) (DOwn pos, m\<lparr>m_dequeue_pos := pos + 1\<rparr>)"
proof -
  let ?m = "m\<lparr>m_dequeue_pos := pos + 1\<rparr>"
  have sq: "seq_at m (m_dequeue_pos m) = m_dequeue_pos m + 1" using l pos by simp
  have own: "owns_read ?m pos" using sq pos shared_okD(4) [OF ok] by (simp add: owns_read_def)
  have fresh: "pos \<notin> fst ` set (g_out m)" using shared_okD(7) [OF ok] pos by fastforce
  have "owned k \<noteq> Some (False, pos)" if "thread_ok m k" for k
    using that pos by (cases k) (auto simp: owns_read_def)
  then show ?thesis
    using claim_dequeue_shared [OF ok sq] claim_dequeue_others [OF ok sq] own fresh element [OF ok sq] pos
    by (simp add: good_step_def)
qed

lemma mq_step_good:
  assumes ok: "shared_ok m" and l: "thread_ok m l"
  shows "good_step m l (mq_step sp l m)"
proof -
  note cells = shared_okD(1) [OF ok]
  have cell: "cell_of m p = p mod length (mq_seq m)" for p by (rule cell_of_mod [OF cells])
  have mask: "Suc (p + mq_mask m) = p + length (mq_seq m)" for p using two_cells [OF ok] by (simp add: mq_mask_def)
  show ?thesis
  proof (cases l)
    case (EPos v pos)
    then show ?thesis using l ok by (auto intro!: good_step_local simp: cell seq_at_def)
  next
    case (ESeq v pos sq)
    then show ?thesis
      using l ok enqueue_claim_good [OF ok, of v pos] by (auto simp: Let_def intro!: good_step_local)
  next
    case (EOwn v pos)
    then have own: "owns_write m pos v" using l by simp
    have "thread_ok (set_pay pos v m) (EPub v pos)"
      using own pay_at_set_pay [OF cells, of pos v pos] by (simp add: owns_write_def)
    then show ?thesis
      using EOwn own write_payload_shared [OF ok own] write_payload_others [OF ok own]
      by (auto simp: good_step_def set_pay_def cell)
  next
    case (EPub v pos)
    then have own: "owns_write m pos v" "pay_at m pos = v" using l by simp_all
    then show ?thesis
      using EPub publish_shared [OF ok own] publish_others [OF ok own(1)] by (auto simp: good_step_def set_seq_def cell)
  next
    case (DPos pos)
    then show ?thesis using l ok by (auto intro!: good_step_local simp: cell seq_at_def)
  next
    case (DSeq pos sq)
    show ?thesis
    proof (cases "sq = pos + 1 \<and> m_dequeue_pos m = pos \<and> \<not> sp")
      case True
      then show ?thesis using l ok DSeq dequeue_claim_good [OF ok, of pos] by (simp add: Let_def)
    next
      case False
      then show ?thesis using l ok DSeq by (auto simp: Let_def intro!: good_step_local)
    qed
  next
    case (DOwn q)
    then have own: "owns_read m q" "q \<notin> fst ` set (g_out m)" "pay_at m q = g_in m ! q" using l by simp_all
    then show ?thesis
      using DOwn log_shared [OF ok own] log_others [of m _ q]
      by (auto simp: good_step_def cell pay_at_def owns_read_def)
  next
    case (DFree q v)
    then have own: "owns_read m q" using l by simp
    have "mq_step sp l m = (DDone (Some v), set_seq q (q + length (mq_seq m)) m)"
      using DFree by (simp add: set_seq_def cell mask)
    then show ?thesis
      using DFree free_shared [OF ok own] free_others [OF ok own] by (auto simp: good_step_def)
  qed (use l ok in \<open>auto intro!: good_step_local\<close>)
qed

lemma mq_ok_run:
  assumes inv: "mq_ok (T, m)" and step: "mq_step sp (T t) m = (l, m')"
  shows "mq_ok (T(t := l), m')"
proof -
  have ok: "shared_ok m" "\<And>u. thread_ok m (T u)" "exclusive T" using inv by (auto simp: mq_ok_def)
  have good: "good_step m (T t) (l, m')" using mq_step_good [OF ok(1) ok(2) [of t], of sp] step by simp
  have other: "thread_ok m' (T u) \<and> (owned l \<noteq> None \<longrightarrow> owned (T u) \<noteq> owned l)" if "u \<noteq> t" for u
    using good ok(2) [of u] ok(3) that unfolding good_step_def exclusive_def by blast
  have "exclusive (T(t := l))"
    using ok(3) other unfolding exclusive_def by (metis fun_upd_apply)
  then show ?thesis using good other by (auto simp: mq_ok_def good_step_def)
qed

lemma mq_ok_call:
  assumes "mq_ok (T, m)" "owned l = None" "thread_ok m l"
  shows "mq_ok (T(t := l), m)"
  using assms by (auto simp: mq_ok_def exclusive_def)

lemma mq_ok_init:
  assumes "2 \<le> capacity"
  shows "mq_ok (\<lambda>_. Outside, new_mpmc d capacity)"
proof -
  obtain k where k: "normalize_capacity capacity = 2 ^ k" "capacity \<le> normalize_capacity capacity"
    using normalize_capacity_power by blast
  show ?thesis
    using k assms by (auto simp: mq_ok_def new_mpmc_def Let_def shared_ok_def cells_ok_def seq_at_def exclusive_def)
qed

lemma mq_step_length: "mq_step sp l m = (l', m') \<Longrightarrow> length (mq_seq m') = length (mq_seq m)"
  by (cases l) (auto simp: Let_def split: if_splits)

lemma mq_reachable_length:
  assumes "mq_reachable d capacity s"
  shows "length (mq_seq (snd s)) = normalize_capacity capacity"
  using assms unfolding mq_reachable_def
proof (induction rule: rtranclp_induct)
  case base
  then show ?case by (simp add: new_mpmc_def Let_def)
next
  case (step s s')
  obtain T m where s: "s = (T, m)" by fastforce
  show ?case using step(2,3) mq_step_length unfolding s by (auto elim!: mq_systemE dest: mq_step_length)
qed

lemma mq_reachable_ok:
  assumes "mq_reachable d capacity s" "2 \<le> capacity"
  shows "mq_ok s"
  using assms(1) unfolding mq_reachable_def
proof (induction rule: rtranclp_induct)
  case base
  then show ?case using mq_ok_init [OF assms(2)] .
next
  case (step s s')
  obtain T m where s: "s = (T, m)" by fastforce
  show ?case using step(2,3) unfolding s by (auto elim!: mq_systemE intro: mq_ok_run mq_ok_call)
qed

text \<open>Every position that was claimed by a reader has been read or is just being read.\<close>

definition covered :: "(nat \<Rightarrow> 'a mq_thread) \<times> 'a mpmc \<Rightarrow> bool" where
  "covered s \<longleftrightarrow> {..<m_dequeue_pos (snd s)} \<subseteq> fst ` set (g_out (snd s)) \<union> {q. \<exists>t. fst s t = DOwn q}"

lemma covered_call:
  assumes "covered (T, m)" "may_call (T t)"
  shows "covered (T(t := l), m)"
proof -
  have "T t \<noteq> DOwn q" for q using assms(2) by (auto simp: may_call_def)
  then have "{q. \<exists>u. T u = DOwn q} \<subseteq> {q. \<exists>u. (T(t := l)) u = DOwn q}" by (auto, metis)
  then show ?thesis using assms(1) unfolding covered_def fst_conv snd_conv by blast
qed

lemma covered_run:
  assumes cov: "covered (T, m)" and step: "mq_step sp (T t) m = (l, m')"
  shows "covered (T(t := l), m')"
proof -
  have "q \<in> fst ` set (g_out m') \<or> (\<exists>u. (T(t := l)) u = DOwn q)" if q: "q < m_dequeue_pos m'" for q
  proof (cases "q < m_dequeue_pos m")
    case False
    then have "l = DOwn q" using q step by (cases "T t") (auto simp: Let_def split: if_splits)
    then show ?thesis by (intro disjI2 exI [of _ t]) simp
  next
    case True
    then consider "q \<in> fst ` set (g_out m)" | u where "T u = DOwn q" using cov unfolding covered_def by auto blast
    then show ?thesis
    proof cases
      case 1
      then show ?thesis using step by (cases "T t") (auto simp: Let_def split: if_splits)
    next
      case (2 u)
      then show ?thesis using step by (cases "u = t") (auto intro!: exI [of _ u])
    qed
  qed
  then show ?thesis unfolding covered_def fst_conv snd_conv by blast
qed

lemma mq_reachable_covered:
  assumes "mq_reachable d capacity s"
  shows "covered s"
  using assms unfolding mq_reachable_def
proof (induction rule: rtranclp_induct)
  case base
  then show ?case by (simp add: covered_def new_mpmc_def Let_def)
next
  case (step s s')
  obtain T m where s: "s = (T, m)" by fastforce
  show ?case using step(2,3) unfolding s by (auto elim!: mq_systemE intro: covered_call covered_run)
qed

subsection \<open>Schedules\<close>

text \<open>An executable scheduler, to run the system.\<close>

datatype 'a mq_act = CallEnq nat 'a | CallDeq nat | Run nat

fun mq_exec :: "'a mq_act list \<Rightarrow> (nat \<Rightarrow> 'a mq_thread) \<times> 'a mpmc \<Rightarrow> (nat \<Rightarrow> 'a mq_thread) \<times> 'a mpmc" where
  "mq_exec [] s = s"
| "mq_exec (CallEnq t v # as) s = mq_exec as (if may_call (fst s t) then ((fst s)(t := EStart v), snd s) else s)"
| "mq_exec (CallDeq t # as) s = mq_exec as (if may_call (fst s t) then ((fst s)(t := DStart), snd s) else s)"
| "mq_exec (Run t # as) s = mq_exec as (case mq_step False (fst s t) (snd s) of (l, m) \<Rightarrow> ((fst s)(t := l), m))"

lemma mq_exec_reaches: "mq_system\<^sup>*\<^sup>* s (mq_exec as s)"
proof (induction as s rule: mq_exec.induct)
  case (2 t v as s)
  then show ?case
    using call_enqueue [of "fst s" t "snd s" v] by (cases s) (auto intro: converse_rtranclp_into_rtranclp)
next
  case (3 t as s)
  then show ?case
    using call_dequeue [of "fst s" t "snd s"] by (cases s) (auto intro: converse_rtranclp_into_rtranclp)
next
  case (4 t as s)
  obtain l m where st: "mq_step False (fst s t) (snd s) = (l, m)" by fastforce
  then have "mq_system s ((fst s)(t := l), m)" using run [of False "fst s" t "snd s" l m] by simp
  then show ?case using 4 st by (auto intro: converse_rtranclp_into_rtranclp)
qed simp

definition solo :: "nat \<Rightarrow> 'a mq_thread \<times> 'a mpmc \<Rightarrow> 'a mq_thread \<times> 'a mpmc" where
  "solo n = (\<lambda>(l, m). mq_step False l m) ^^ n"

subsection \<open>One caller at a time\<close>

text \<open>Without interference a call ends after at most five accesses.\<close>

definition mq_enqueue :: "'a \<Rightarrow> 'a mpmc \<Rightarrow> bool \<times> 'a mpmc" where
  "mq_enqueue v m = (case solo 5 (EStart v, m) of (l, m') \<Rightarrow> (l = EDone True, m'))"

definition mq_dequeue :: "'a mpmc \<Rightarrow> 'a option \<times> 'a mpmc" where
  "mq_dequeue m = (case solo 5 (DStart, m) of (l, m') \<Rightarrow> ((case l of DDone r \<Rightarrow> r | _ \<Rightarrow> None), m'))"

text \<open>No call is under way: every claimed cell is published and every other one is free.\<close>

definition quiet :: "'a mpmc \<Rightarrow> bool" where
  "quiet m \<longleftrightarrow> shared_ok m
     \<and> (\<forall>p. m_dequeue_pos m \<le> p \<and> p < m_enqueue_pos m \<longrightarrow> seq_at m p = p + 1)
     \<and> (\<forall>p. m_enqueue_pos m \<le> p \<and> p < m_dequeue_pos m + length (mq_seq m) \<longrightarrow> seq_at m p = p)
     \<and> length (g_out m) = m_dequeue_pos m"

definition mq_contents :: "'a mpmc \<Rightarrow> 'a list" where
  "mq_contents m = drop (m_dequeue_pos m) (g_in m)"

lemma solo_numeral: "solo (Suc n) s = solo n (case s of (l, m) \<Rightarrow> mq_step False l m)" "solo 0 s = s"
  by (simp_all add: solo_def funpow_Suc_right del: funpow.simps)

lemma five: "(5::nat) = Suc (Suc (Suc (Suc (Suc 0))))"
  by simp

lemma good_step_shared: "good_step m l (l', m') \<Longrightarrow> shared_ok m' \<and> thread_ok m' l'"
  by (simp add: good_step_def)

lemma solo_shared: "shared_ok m \<Longrightarrow> thread_ok m l \<Longrightarrow> solo n (l, m) = (l', m') \<Longrightarrow> shared_ok m' \<and> thread_ok m' l'"
proof (induction n arbitrary: l m)
  case 0
  then show ?case by (simp add: solo_numeral)
next
  case (Suc n)
  obtain k m1 where st: "mq_step False l m = (k, m1)" by fastforce
  have "shared_ok m1 \<and> thread_ok m1 k"
    using mq_step_good [OF Suc.prems(1,2), of False] good_step_shared st by metis
  then show ?case using Suc.IH [of m1 k] Suc.prems(3) st by (simp add: solo_numeral)
qed

lemma enqueue_solo:
  assumes q: "quiet m"
  shows "solo 5 (EStart v, m) =
    (if m_enqueue_pos m < m_dequeue_pos m + length (mq_seq m)
     then (EDone True, set_seq (m_enqueue_pos m) (m_enqueue_pos m + 1) (set_pay (m_enqueue_pos m) v
            (m\<lparr>m_enqueue_pos := m_enqueue_pos m + 1, g_in := g_in m @ [v]\<rparr>)))
     else (EDone False, m))"
proof -
  let ?e = "m_enqueue_pos m" and ?d = "m_dequeue_pos m" and ?n = "length (mq_seq m)"
  have ok: "shared_ok m" using q by (simp add: quiet_def)
  have cell: "cell_of m' p = p mod length (mq_seq m')" if "length (mq_seq m') = ?n" "length (mq_payload m') = ?n" for m' :: "'a mpmc" and p
    using that cell_of_mod [of m'] shared_okD(1) [OF ok] by (simp add: cells_ok_def)
  show ?thesis
  proof (cases "?e < ?d + ?n")
    case True
    then have "seq_at m ?e = ?e" using q by (simp add: quiet_def)
    then show ?thesis
      using True shared_okD(1) [OF ok]
      by (simp add: five solo_numeral cell seq_at_def cells_ok_def set_seq_def set_pay_def)
  next
    case False
    then have e: "?e = ?d + ?n" using shared_okD(4) [OF ok] by simp
    then have "seq_at m ?d = ?d + 1" using q two_cells [OF ok] unfolding quiet_def by fastforce
    then have "seq_at m ?e = ?d + 1" by (simp add: e seq_at_def)
    then show ?thesis
      using False e two_cells [OF ok] shared_okD(1) [OF ok] by (simp add: five solo_numeral cell seq_at_def cells_ok_def)
  qed
qed

lemma dequeue_solo:
  assumes q: "quiet m"
  shows "solo 5 (DStart, m) =
    (if m_dequeue_pos m < m_enqueue_pos m
     then (DDone (Some (g_in m ! m_dequeue_pos m)), set_seq (m_dequeue_pos m) (m_dequeue_pos m + length (mq_seq m))
            (m\<lparr>m_dequeue_pos := m_dequeue_pos m + 1, g_out := g_out m @ [(m_dequeue_pos m, g_in m ! m_dequeue_pos m)]\<rparr>))
     else (DDone None, m))"
proof -
  let ?e = "m_enqueue_pos m" and ?d = "m_dequeue_pos m" and ?n = "length (mq_seq m)"
  have ok: "shared_ok m" using q by (simp add: quiet_def)
  have cell: "cell_of m' p = p mod length (mq_seq m')" if "length (mq_seq m') = ?n" "length (mq_payload m') = ?n" for m' :: "'a mpmc" and p
    using that cell_of_mod [of m'] shared_okD(1) [OF ok] by (simp add: cells_ok_def)
  have mask: "Suc (p + mq_mask m') = p + ?n" if "length (mq_seq m') = ?n" for m' :: "'a mpmc" and p
    using that two_cells [OF ok] by (simp add: mq_mask_def)
  show ?thesis
  proof (cases "?d < ?e")
    case True
    then have sq: "seq_at m ?d = ?d + 1" using q by (simp add: quiet_def)
    moreover have "pay_at m ?d = g_in m ! ?d" using element [OF ok sq] by simp
    ultimately show ?thesis
      using True shared_okD(1) [OF ok]
      by (simp add: five solo_numeral cell mask seq_at_def pay_at_def cells_ok_def set_seq_def)
  next
    case False
    then have "?e = ?d" using shared_okD(3) [OF ok] by simp
    then have "seq_at m ?d = ?d" using q two_cells [OF ok] unfolding quiet_def by fastforce
    then show ?thesis
      using False shared_okD(1) [OF ok] by (simp add: five solo_numeral cell seq_at_def cells_ok_def)
  qed
qed

lemma quietI:
  assumes "shared_ok m" "\<And>p. m_dequeue_pos m \<le> p \<Longrightarrow> p < m_enqueue_pos m \<Longrightarrow> seq_at m p = p + 1"
    "\<And>p. m_enqueue_pos m \<le> p \<Longrightarrow> p < m_dequeue_pos m + length (mq_seq m) \<Longrightarrow> seq_at m p = p"
    "length (g_out m) = m_dequeue_pos m"
  shows "quiet m"
  using assms by (simp add: quiet_def)

lemma mq_enqueue_law:
  assumes q: "quiet m" and run: "mq_enqueue v m = (b, m')"
  shows "quiet m' \<and> length (mq_seq m') = length (mq_seq m) \<and> mq_contents m' = (if b then mq_contents m @ [v] else mq_contents m)"
proof (cases "m_enqueue_pos m < m_dequeue_pos m + length (mq_seq m)")
  case False
  then show ?thesis using q run by (auto simp: mq_enqueue_def enqueue_solo)
next
  case True
  let ?e = "m_enqueue_pos m"
  have ok: "shared_ok m" using q by (simp add: quiet_def)
  let ?m1 = "set_pay ?e v (m\<lparr>m_enqueue_pos := ?e + 1, g_in := g_in m @ [v]\<rparr>)"
  have m': "m' = set_seq ?e (?e + 1) ?m1" "b" using run True by (auto simp: mq_enqueue_def enqueue_solo [OF q])
  have "shared_ok m'"
    using solo_shared [OF ok, of "EStart v" 5] enqueue_solo [OF q, of v] True m'(1) by (metis thread_ok.simps(10))
  moreover have sq: "seq_at m' p = (if p = ?e then ?e + 1 else seq_at m p)"
    if "m_dequeue_pos m \<le> p" "p < m_dequeue_pos m + length (mq_seq m)" for p
    using same_cell [OF ok that shared_okD(3) [OF ok] True] shared_okD(1) [OF ok] unfolding m'(1)
    by (subst seq_at_set_seq) auto
  ultimately have "quiet m'"
    using q True shared_okD(3) [OF ok] by (intro quietI) (auto simp: m' quiet_def)
  then show ?thesis using shared_okD(2,3) [OF ok] m' by (simp add: mq_contents_def)
qed

lemma mq_dequeue_law:
  assumes q: "quiet m" and run: "mq_dequeue m = (r, m')"
  shows "quiet m' \<and> length (mq_seq m') = length (mq_seq m)
    \<and> mq_contents m = (case r of None \<Rightarrow> [] | Some x \<Rightarrow> [x]) @ mq_contents m'"
proof (cases "m_dequeue_pos m < m_enqueue_pos m")
  case False
  then show ?thesis using q run shared_okD(2) [of m] by (auto simp: mq_dequeue_def dequeue_solo mq_contents_def quiet_def)
next
  case True
  let ?d = "m_dequeue_pos m" and ?n = "length (mq_seq m)"
  have ok: "shared_ok m" using q by (simp add: quiet_def)
  let ?m1 = "m\<lparr>m_dequeue_pos := ?d + 1, g_out := g_out m @ [(?d, g_in m ! ?d)]\<rparr>"
  have m': "m' = set_seq ?d (?d + ?n) ?m1" "r = Some (g_in m ! ?d)"
    using run True by (auto simp: mq_dequeue_def dequeue_solo [OF q])
  have "shared_ok m'"
    using solo_shared [OF ok, of DStart 5] dequeue_solo [OF q] True m'(1) by (metis thread_ok.simps(12))
  moreover have sq: "seq_at m' p = (if p = ?d + ?n then p else seq_at m p)" if "?d + 1 \<le> p" "p < ?d + 1 + ?n" for p
  proof -
    have "p mod ?n = ?d mod ?n \<longleftrightarrow> p = ?d + ?n"
      using window_mod_inj [of "?d + 1" p ?n "?d + ?n"] that two_cells [OF ok] by fastforce
    then show ?thesis using shared_okD(1) [OF ok] unfolding m'(1) by (subst seq_at_set_seq) simp_all
  qed
  ultimately have "quiet m'"
    using q True shared_okD(4) [OF ok] by (intro quietI) (auto simp: m' quiet_def)
  moreover have "drop ?d (g_in m) = g_in m ! ?d # drop (Suc ?d) (g_in m)"
    using True shared_okD(2) [OF ok] by (simp add: Cons_nth_drop_Suc)
  ultimately show ?thesis using m' by (simp add: mq_contents_def)
qed

interpretation lockfree: bounded_fifo mq_enqueue mq_dequeue mq_contents "\<lambda>m. length (mq_seq m)" quiet
proof unfold_locales
  fix m m' :: "'a mpmc" and v b assume "quiet m" "mq_enqueue v m = (b, m')"
  then show "quiet m' \<and> length (mq_seq m') = length (mq_seq m) \<and> mq_contents m' = (if b then mq_contents m @ [v] else mq_contents m)"
    by (rule mq_enqueue_law)
next
  fix m m' :: "'a mpmc" and r assume "quiet m" "mq_dequeue m = (r, m')"
  then show "quiet m' \<and> length (mq_seq m') = length (mq_seq m)
      \<and> mq_contents m = (case r of None \<Rightarrow> [] | Some x \<Rightarrow> [x]) @ mq_contents m'"
    by (rule mq_dequeue_law)
next
  fix m :: "'a mpmc" assume q: "quiet m" and "mq_contents m \<noteq> []"
  then have "m_dequeue_pos m < m_enqueue_pos m" using shared_okD(2) [of m] by (simp add: mq_contents_def quiet_def)
  then show "fst (mq_dequeue m) \<noteq> None" by (simp add: mq_dequeue_def dequeue_solo [OF q])
next
  fix m :: "'a mpmc" assume "quiet m"
  then show "length (mq_contents m) \<le> length (mq_seq m)"
    using shared_okD(2,4) [of m] by (simp add: mq_contents_def quiet_def)
qed

subsection \<open>Properties\<close>

text \<open>
  Property C10. The lock-free queue is a first-in first-out queue under every interleaving of any
  number of producers and consumers, failed compare-and-exchanges included: what the reader of
  position \<open>p\<close> gets is the \<open>p\<close>-th value that was enqueued; no position is read twice; every position
  the dequeue counter passed was read or its reader is about to read it; and never more positions
  are in use than there are cells. It needs at least two cells.
\<close>

theorem mpmc_fifo:
  assumes "mq_reachable d capacity (T, m)" and "2 \<le> capacity"
  shows "list_all (\<lambda>(p, v). p < length (g_in m) \<and> v = g_in m ! p) (g_out m) \<and> distinct (map fst (g_out m))
    \<and> {..<m_dequeue_pos m} \<subseteq> fst ` set (g_out m) \<union> {q. \<exists>t. T t = DOwn q}
    \<and> m_dequeue_pos m \<le> length (g_in m) \<and> length (g_in m) \<le> m_dequeue_pos m + normalize_capacity capacity"
proof -
  have ok: "shared_ok m" using mq_reachable_ok [OF assms] by (simp add: mq_ok_def)
  have len: "length (mq_seq m) = normalize_capacity capacity"
    using mq_reachable_length [OF assms(1)] by simp
  have "list_all (\<lambda>(p, v). p < length (g_in m) \<and> v = g_in m ! p) (g_out m)"
    using shared_okD(2,3,7) [OF ok] by (fastforce simp: list_all_iff)
  then show ?thesis
    using shared_okD(2-4,8) [OF ok] mq_reachable_covered [OF assms(1)] len by (simp add: covered_def)
qed

definition mq_demo :: "nat mq_act list" where
  "mq_demo = [CallEnq 0 7, CallEnq 1 8, Run 0, Run 1, Run 0, Run 1, Run 0, Run 1, Run 0, Run 0, CallDeq 2, Run 2, Run 2, Run 2, Run 2]"

theorem mpmc_fifo_witness:
  "g_out (snd (mq_exec mq_demo (\<lambda>_. Outside, new_mpmc 0 2))) = [(0, 7)]
   \<and> list_all (\<lambda>(p, v). p < length (g_in (snd (mq_exec mq_demo (\<lambda>_. Outside, new_mpmc 0 2))))
        \<and> v = g_in (snd (mq_exec mq_demo (\<lambda>_. Outside, new_mpmc 0 2))) ! p) (g_out (snd (mq_exec mq_demo (\<lambda>_. Outside, new_mpmc 0 2))))"
proof -
  let ?s = "mq_exec mq_demo (\<lambda>_. Outside, new_mpmc 0 2)"
  have "mq_reachable 0 2 (fst ?s, snd ?s)" unfolding mq_reachable_def using mq_exec_reaches by simp
  moreover have "g_out (snd ?s) = [(0, 7)]" by code_simp
  ultimately show ?thesis using mpmc_fifo [of 0 2 "fst ?s" "snd ?s"] by simp
qed

text \<open>The queue of one cell after two accepted enqueues.\<close>

definition one_cell :: "nat mpmc" where
  "one_cell = snd (solo 5 (EStart 2, snd (solo 5 (EStart 1, new_mpmc 0 1))))"

text \<open>
  A queue of one cell (a maximum of one request) loses a task and then hangs: two enqueues
  in a row both report success, the second one overwrites the first, and a dequeue that follows
  never returns, however long it runs, since the sequence number of the cell is past its position.
\<close>

lemma mpmc_one_cell_hangs:
  "fst (solo 5 (EStart 1, new_mpmc (0::nat) 1)) = EDone True
   \<and> fst (solo 5 (EStart 2, snd (solo 5 (EStart 1, new_mpmc (0::nat) 1)))) = EDone True
   \<and> mq_payload one_cell = [2]
   \<and> \<not> may_call (fst (solo n (DStart, one_cell)))"
proof -
  have c: "mq_seq one_cell = [2]" "m_dequeue_pos one_cell = 0" "cell_of one_cell 0 = 0" by code_simp+
  have "snd (solo n (DStart, one_cell)) = one_cell \<and> fst (solo n (DStart, one_cell)) \<in> {DStart, DPos 0, DSeq 0 2}" for n
  proof (induction n)
    case 0
    then show ?case by (simp add: solo_def)
  next
    case (Suc n)
    then obtain l where "solo n (DStart, one_cell) = (l, one_cell)" "l \<in> {DStart, DPos 0, DSeq 0 2}"
      by (metis prod.collapse)
    then show ?case using c by (auto simp: solo_def Let_def)
  qed
  from this [of n] have "\<not> may_call (fst (solo n (DStart, one_cell)))" by (auto simp: may_call_def)
  moreover have "fst (solo 5 (EStart 1, new_mpmc (0::nat) 1)) = EDone True"
    "fst (solo 5 (EStart 2, snd (solo 5 (EStart 1, new_mpmc (0::nat) 1)))) = EDone True" "mq_payload one_cell = [2]"
    by code_simp+
  ultimately show ?thesis by blast
qed

end
