(* ===== verification/Thread_Pool.thy ===== *)
theory Thread_Pool
  imports Mpmc_Queue
begin

text \<open>
  The worker pool (src/infra/threadpool/threadpool.h): the constructor, \<open>append\<close> and \<open>append_p\<close>, the
  growth of the pool, the loop of a worker in both queue modes, \<open>execute\<close> and the destructor.

  In mutex mode everything a worker does between taking and giving up \<open>m_queuelocker\<close> is one step:
  what it does when it comes to the queue, and what it does when a wait ends. In lock-free mode the
  counters are atomics: checking them and changing them are steps of their own. Whether \<open>pthread_create\<close>
  succeeds is an argument (a list of outcomes), and so is the way a wait ends.
\<close>

datatype queue_mode = queue_mode_mutex | queue_mode_lockfree

text \<open>A task; the request is an address, and 0 is the null pointer.\<close>

record task =
  tk_request :: nat
  tk_state :: int
  tk_use_state :: bool

datatype worker = WTop | WTimed | WWait | WExec task | WCheck | WLeave | WFetch | WCount task | WGone

record thread_pool =
  tp_min :: int
  tp_max :: int
  tp_current :: int
  tp_busy :: int
  tp_pending :: int
  tp_idle_timeout :: int
  tp_max_requests :: int
  tp_stop :: bool
  tp_mode :: queue_mode
  tp_threads :: "worker list"
  tp_queue :: "task list"
  tp_workqueue :: "task mpmc"
  tp_sem :: int
  tp_accepted :: "task list"
  tp_started :: "task list"

definition spawn_worker :: "bool \<Rightarrow> thread_pool \<Rightarrow> bool \<times> thread_pool" where
  "spawn_worker created p =
     (if \<not> created then (False, p)
      else (True, p\<lparr>tp_threads := tp_threads p @ [WTop], tp_current := tp_current p + 1\<rparr>))"

fun spawn_all :: "nat \<Rightarrow> bool list \<Rightarrow> thread_pool \<Rightarrow> thread_pool option" where
  "spawn_all 0 created p = Some p"
| "spawn_all (Suc n) created p =
     (case spawn_worker (created \<noteq> [] \<and> hd created) p of
        (False, _) \<Rightarrow> None
      | (True, p1) \<Rightarrow> spawn_all n (tl created) p1)"

definition no_task :: task where
  "no_task = \<lparr>tk_request = 0, tk_state = 0, tk_use_state = False\<rparr>"

text \<open>The constructor; \<open>None\<close> is the exception.\<close>

definition new_pool :: "int \<Rightarrow> int \<Rightarrow> int \<Rightarrow> int \<Rightarrow> queue_mode \<Rightarrow> bool list \<Rightarrow> thread_pool option" where
  "new_pool thread_number max_requests max_thread_number idle_timeout mode created =
     (if thread_number \<le> 0 \<or> max_requests \<le> 0 then None
      else
        let most = (if max_thread_number > 0 then max_thread_number else thread_number * 2);
            p = \<lparr>tp_min = thread_number, tp_max = (if most < thread_number then thread_number else most),
                 tp_current = 0, tp_busy = 0, tp_pending = 0,
                 tp_idle_timeout = (if idle_timeout > 0 then idle_timeout else 30),
                 tp_max_requests = max_requests, tp_stop = False, tp_mode = mode, tp_threads = [], tp_queue = [],
                 tp_workqueue = new_mpmc no_task (nat max_requests), tp_sem = 0, tp_accepted = [], tp_started = []\<rparr>
        in spawn_all (nat thread_number) created p)"

text \<open>
  The loop of \<open>maybe_grow_unlocked\<close>: \<open>pending\<close> tasks against the idle threads, until the maximum is
  reached or a thread cannot be created.
\<close>

fun grow :: "bool list \<Rightarrow> int \<Rightarrow> thread_pool \<Rightarrow> thread_pool" where
  "grow [] pending p = p"
| "grow (c # cs) pending p =
     (if pending > tp_current p - tp_busy p \<and> tp_current p < tp_max p
      then (case spawn_worker c p of (False, p1) \<Rightarrow> p1 | (True, p1) \<Rightarrow> grow cs pending p1)
      else p)"

definition maybe_grow :: "bool list \<Rightarrow> thread_pool \<Rightarrow> thread_pool" where
  "maybe_grow cs p =
     (if tp_mode p = queue_mode_mutex then grow cs (int (length (tp_queue p))) p
      else if tp_stop p then p
      else grow cs (tp_pending p) p)"

definition pool_enqueue :: "bool list \<Rightarrow> task \<Rightarrow> thread_pool \<Rightarrow> bool \<times> thread_pool" where
  "pool_enqueue cs t p =
     (if tp_stop p then (False, p)
      else if tp_mode p = queue_mode_lockfree then
        (case mq_enqueue t (tp_workqueue p) of
           (False, q) \<Rightarrow> (False, p\<lparr>tp_workqueue := q\<rparr>)
         | (True, q) \<Rightarrow>
             (let p1 = maybe_grow cs (p\<lparr>tp_workqueue := q, tp_pending := tp_pending p + 1, tp_accepted := tp_accepted p @ [t]\<rparr>)
              in (True, p1\<lparr>tp_sem := tp_sem p1 + 1\<rparr>)))
      else if int (length (tp_queue p)) \<ge> tp_max_requests p then (False, p)
      else (True, maybe_grow cs (p\<lparr>tp_queue := tp_queue p @ [t], tp_accepted := tp_accepted p @ [t]\<rparr>)))"

definition pool_append :: "bool list \<Rightarrow> nat \<Rightarrow> int \<Rightarrow> thread_pool \<Rightarrow> bool \<times> thread_pool" where
  "pool_append cs request state p = pool_enqueue cs \<lparr>tk_request = request, tk_state = state, tk_use_state = True\<rparr> p"

definition pool_append_p :: "bool list \<Rightarrow> nat \<Rightarrow> thread_pool \<Rightarrow> bool \<times> thread_pool" where
  "pool_append_p cs request p = pool_enqueue cs \<lparr>tk_request = request, tk_state = 0, tk_use_state = False\<rparr> p"

text \<open>The deadline of a timed wait.\<close>

definition make_timeout :: "int \<times> int \<Rightarrow> thread_pool \<Rightarrow> int \<times> int" where
  "make_timeout now p = (fst now + tp_idle_timeout p, snd now)"

text \<open>How a wait ends: notified (or posted), the time is up, or another error or signal.\<close>

datatype wake = Notified | TimedOut | Interrupted

text \<open>A worker of the mutex mode at the queue: wait, leave, or take the first task.\<close>

definition at_queue :: "thread_pool \<Rightarrow> worker \<times> thread_pool" where
  "at_queue p =
     (case tp_queue p of
        [] \<Rightarrow>
          (if \<not> tp_stop p then (if tp_current p > tp_min p then WTimed else WWait, p)
           else (WGone, p\<lparr>tp_current := tp_current p - 1\<rparr>))
      | t # ts \<Rightarrow> (WExec t, p\<lparr>tp_queue := ts, tp_busy := tp_busy p + 1, tp_started := tp_started p @ [t]\<rparr>))"

definition mutex_worker :: "wake \<Rightarrow> worker \<Rightarrow> thread_pool \<Rightarrow> worker \<times> thread_pool" where
  "mutex_worker w l p =
     (case l of
        WTop \<Rightarrow> at_queue p
      | WTimed \<Rightarrow>
          (if w = TimedOut \<and> tp_queue p = [] \<and> tp_current p > tp_min p
           then (WGone, p\<lparr>tp_current := tp_current p - 1\<rparr>)
           else at_queue p)
      | WWait \<Rightarrow> at_queue p
      | WExec t \<Rightarrow> (WTop, p\<lparr>tp_busy := tp_busy p - 1\<rparr>)
      | _ \<Rightarrow> (l, p))"

text \<open>
  A worker of the lock-free mode: the checks at the top of the loop, the wait at the semaphore,
  the check after a time-out, the decrement when it leaves, the attempt to dequeue, the counters.
\<close>

definition lockfree_worker :: "wake \<Rightarrow> worker \<Rightarrow> thread_pool \<Rightarrow> worker \<times> thread_pool" where
  "lockfree_worker w l p =
     (case l of
        WTop \<Rightarrow>
          (if tp_stop p \<and> tp_pending p = 0 then (WLeave, p)
           else (if tp_current p > tp_min p then WTimed else WWait, p))
      | WTimed \<Rightarrow>
          (case w of
             Notified \<Rightarrow> if tp_sem p > 0 then (WFetch, p\<lparr>tp_sem := tp_sem p - 1\<rparr>) else (WTimed, p)
           | TimedOut \<Rightarrow> (WCheck, p)
           | Interrupted \<Rightarrow> (WTop, p))
      | WWait \<Rightarrow>
          (case w of
             Notified \<Rightarrow> if tp_sem p > 0 then (WFetch, p\<lparr>tp_sem := tp_sem p - 1\<rparr>) else (WWait, p)
           | _ \<Rightarrow> (WTop, p))
      | WCheck \<Rightarrow> (if tp_pending p = 0 \<and> tp_current p > tp_min p then WLeave else WTop, p)
      | WLeave \<Rightarrow> (WGone, p\<lparr>tp_current := tp_current p - 1\<rparr>)
      | WFetch \<Rightarrow>
          (case mq_dequeue (tp_workqueue p) of
             (Some t, q) \<Rightarrow> (WCount t, p\<lparr>tp_workqueue := q, tp_pending := tp_pending p - 1, tp_started := tp_started p @ [t]\<rparr>)
           | (None, q) \<Rightarrow> (if tp_stop p then WLeave else WTop, p\<lparr>tp_workqueue := q\<rparr>))
      | WCount t \<Rightarrow> (WExec t, p\<lparr>tp_busy := tp_busy p + 1\<rparr>)
      | WExec t \<Rightarrow> (WTop, p\<lparr>tp_busy := tp_busy p - 1\<rparr>)
      | WGone \<Rightarrow> (WGone, p))"

text \<open>One step of worker \<open>i\<close>.\<close>

definition worker_step :: "wake \<Rightarrow> nat \<Rightarrow> thread_pool \<Rightarrow> thread_pool" where
  "worker_step w i p =
     (if i < length (tp_threads p) then
        (case (if tp_mode p = queue_mode_mutex then mutex_worker else lockfree_worker) w (tp_threads p ! i) p of
           (l, p1) \<Rightarrow> p1\<lparr>tp_threads := (tp_threads p1)[i := l]\<rparr>)
      else p)"

text \<open>The destructor up to the joins: the stop flag, and a post for every worker.\<close>

definition pool_stop :: "thread_pool \<Rightarrow> thread_pool" where
  "pool_stop p = p\<lparr>tp_stop := True, tp_sem := (if tp_mode p = queue_mode_lockfree then tp_sem p + tp_current p else tp_sem p)\<rparr>"

subsection \<open>Running a task\<close>

text \<open>
  \<open>execute\<close> on the request \<open>c\<close> of the task, with the operations of the connection as arguments.
  \<open>db\<close> is the connection pool with \<open>GetConnection\<close> and \<open>ReleaseConnection\<close>, as \<open>connectionRAII\<close> calls them.
\<close>

record 'c request_state =
  rq_conn :: 'c
  rq_state :: int
  rq_improv :: int
  rq_timer_flag :: int
  rq_mysql :: "nat option"

record ('c, 'd) request_ops =
  ro_read_once :: "'c \<Rightarrow> bool \<times> 'c"
  ro_write :: "'c \<Rightarrow> bool \<times> 'c"
  ro_process :: "nat option \<Rightarrow> 'c \<Rightarrow> 'c"
  ro_get :: "'d \<Rightarrow> nat option \<times> 'd"
  ro_release :: "nat \<Rightarrow> 'd \<Rightarrow> 'd"

definition with_mysql :: "('c, 'd) request_ops \<Rightarrow> 'c request_state \<times> 'd \<Rightarrow> 'c request_state \<times> 'd" where
  "with_mysql ops rd =
     (case rd of (r, db) \<Rightarrow>
        (case ro_get ops db of (con, db1) \<Rightarrow>
           let c = ro_process ops con (rq_conn r) in
           (case con of
              None \<Rightarrow> (r\<lparr>rq_mysql := None, rq_conn := c\<rparr>, db1)
            | Some k \<Rightarrow> (r\<lparr>rq_mysql := None, rq_conn := c\<rparr>, ro_release ops k db1))))"

definition execute :: "int \<Rightarrow> ('c, 'd) request_ops \<Rightarrow> task \<Rightarrow> 'c request_state \<times> 'd \<Rightarrow> 'c request_state \<times> 'd" where
  "execute actor_model ops t rd =
     (if tk_request t = 0 then rd
      else case rd of (r0, db) \<Rightarrow>
        let r = (if tk_use_state t then r0\<lparr>rq_state := tk_state t\<rparr> else r0) in
        if actor_model = 1 then
          (if rq_state r = 0 then
             (case ro_read_once ops (rq_conn r) of
                (True, c) \<Rightarrow> with_mysql ops (r\<lparr>rq_conn := c, rq_improv := 1\<rparr>, db)
              | (False, c) \<Rightarrow> (r\<lparr>rq_conn := c, rq_improv := 1, rq_timer_flag := 1\<rparr>, db))
           else
             (case ro_write ops (rq_conn r) of
                (True, c) \<Rightarrow> (r\<lparr>rq_conn := c, rq_improv := 1\<rparr>, db)
              | (False, c) \<Rightarrow> (r\<lparr>rq_conn := c, rq_improv := 1, rq_timer_flag := 1\<rparr>, db)))
        else with_mysql ops (r, db))"

subsection \<open>Runs of the pool\<close>

datatype pool_event = Append "bool list" task | Work wake nat | Shutdown

fun pool_exec :: "pool_event list \<Rightarrow> thread_pool \<Rightarrow> thread_pool" where
  "pool_exec [] p = p"
| "pool_exec (Append cs t # es) p = pool_exec es (snd (pool_enqueue cs t p))"
| "pool_exec (Work w i # es) p = pool_exec es (worker_step w i p)"
| "pool_exec (Shutdown # es) p = pool_exec es (pool_stop p)"

definition alive :: "worker \<Rightarrow> bool" where "alive l \<longleftrightarrow> l \<noteq> WGone"
definition executing :: "worker \<Rightarrow> bool" where "executing l \<longleftrightarrow> (case l of WExec _ \<Rightarrow> True | _ \<Rightarrow> False)"

definition count_of :: "(worker \<Rightarrow> bool) \<Rightarrow> thread_pool \<Rightarrow> int" where
  "count_of P p = int (length (filter P (tp_threads p)))"

definition pool_ok :: "thread_pool \<Rightarrow> bool" where
  "pool_ok p \<longleftrightarrow> tp_mode p = queue_mode_mutex \<and> 0 < tp_min p \<and> tp_min p \<le> tp_max p
     \<and> tp_current p = count_of alive p \<and> tp_busy p = count_of executing p \<and> tp_current p \<le> tp_max p
     \<and> (\<not> tp_stop p \<longrightarrow> tp_min p \<le> tp_current p)
     \<and> int (length (tp_queue p)) \<le> tp_max_requests p \<and> tp_accepted p = tp_started p @ tp_queue p
     \<and> (tp_queue p \<noteq> [] \<longrightarrow> 1 \<le> tp_current p)"

lemma count_update:
  "i < length xs \<Longrightarrow> int (length (filter P (xs[i := y]))) =
     int (length (filter P xs)) - (if P (xs ! i) then 1 else 0) + (if P y then 1 else 0)"
proof (induction xs arbitrary: i)
  case (Cons x xs)
  show ?case
  proof (cases i)
    case (Suc k)
    then show ?thesis using Cons.IH [of k] Cons.prems by (auto split: if_splits)
  qed simp
qed simp

text \<open>Growing only adds threads, and not more than the maximum.\<close>

lemma grow_spec:
  assumes "tp_current p = count_of alive p" "tp_current p \<le> tp_max p"
  shows "\<exists>ts n. grow cs k p = p\<lparr>tp_threads := ts, tp_current := n\<rparr> \<and> tp_current p \<le> n \<and> n \<le> tp_max p
    \<and> n = count_of alive (grow cs k p) \<and> count_of executing (grow cs k p) = count_of executing p"
  using assms
proof (induction cs k p rule: grow.induct)
  case (1 k p)
  then show ?case by (intro exI [of _ "tp_threads p"] exI [of _ "tp_current p"]) simp
next
  case (2 c cs k p)
  show ?case
  proof (cases "k > tp_current p - tp_busy p \<and> tp_current p < tp_max p \<and> c")
    case False
    then have "grow (c # cs) k p = p" by (auto simp: spawn_worker_def)
    then show ?thesis using 2(2,3) by (intro exI [of _ "tp_threads p"] exI [of _ "tp_current p"]) simp
  next
    case True
    define p1 where "p1 = p\<lparr>tp_threads := tp_threads p @ [WTop], tp_current := tp_current p + 1\<rparr>"
    have sp: "spawn_worker c p = (True, p1)" using True by (simp add: spawn_worker_def p1_def)
    have g: "grow (c # cs) k p = grow cs k p1" using True sp by simp
    have cnt: "count_of alive p1 = count_of alive p + 1" "count_of executing p1 = count_of executing p"
      by (simp_all add: p1_def count_of_def alive_def executing_def)
    have "tp_current p1 = count_of alive p1" "tp_current p1 \<le> tp_max p1" using cnt 2(2) True by (simp_all add: p1_def)
    then obtain ts n where ih: "grow cs k p1 = p1\<lparr>tp_threads := ts, tp_current := n\<rparr>" "tp_current p1 \<le> n" "n \<le> tp_max p1"
      "n = count_of alive (grow cs k p1)" "count_of executing (grow cs k p1) = count_of executing p1"
      using 2(1) [OF _ sp [symmetric]] True by blast
    then show ?thesis
      unfolding g using cnt by (intro exI [of _ ts] exI [of _ n]) (simp add: p1_def)
  qed
qed

lemma grow_queue: "count_of P (p\<lparr>tp_queue := a, tp_accepted := b\<rparr>) = count_of P p"
  by (simp add: count_of_def)

lemma enqueue_ok:
  assumes "pool_ok p"
  shows "pool_ok (snd (pool_enqueue cs t p))"
proof (cases "tp_stop p \<or> int (length (tp_queue p)) \<ge> tp_max_requests p")
  case True
  then show ?thesis using assms by (auto simp: pool_enqueue_def pool_ok_def)
next
  case False
  let ?p = "p\<lparr>tp_queue := tp_queue p @ [t], tp_accepted := tp_accepted p @ [t]\<rparr>"
  have run: "snd (pool_enqueue cs t p) = grow cs (int (length (tp_queue p @ [t]))) ?p"
    using False assms by (auto simp: pool_enqueue_def pool_ok_def maybe_grow_def)
  have "tp_current ?p = count_of alive ?p" "tp_current ?p \<le> tp_max ?p" using assms by (simp_all add: pool_ok_def grow_queue)
  from grow_spec [OF this, of cs "int (length (tp_queue p @ [t]))"]
  obtain ts n where g: "snd (pool_enqueue cs t p) = ?p\<lparr>tp_threads := ts, tp_current := n\<rparr>" "tp_current p \<le> n" "n \<le> tp_max p"
    "n = count_of alive (snd (pool_enqueue cs t p))" "count_of executing (snd (pool_enqueue cs t p)) = count_of executing ?p"
    unfolding run by auto
  have sel: "tp_current (snd (pool_enqueue cs t p)) = n" "tp_busy (snd (pool_enqueue cs t p)) = tp_busy p"
    "tp_queue (snd (pool_enqueue cs t p)) = tp_queue p @ [t]" "tp_accepted (snd (pool_enqueue cs t p)) = tp_accepted p @ [t]"
    "tp_started (snd (pool_enqueue cs t p)) = tp_started p" "tp_mode (snd (pool_enqueue cs t p)) = tp_mode p"
    "tp_min (snd (pool_enqueue cs t p)) = tp_min p" "tp_max (snd (pool_enqueue cs t p)) = tp_max p"
    "tp_stop (snd (pool_enqueue cs t p)) = tp_stop p" "tp_max_requests (snd (pool_enqueue cs t p)) = tp_max_requests p"
    unfolding g(1) by simp_all
  show ?thesis
    using assms False g(2-5) unfolding pool_ok_def sel grow_queue by auto
qed

text \<open>A step of a worker, with what it does to the two counts.\<close>

lemma mutex_worker_ok:
  assumes ok: "pool_ok p" and i: "i < length (tp_threads p)" and run: "mutex_worker w (tp_threads p ! i) p = (l, p1)"
  shows "pool_ok (p1\<lparr>tp_threads := (tp_threads p1)[i := l]\<rparr>)"
proof -
  let ?old = "tp_threads p ! i"
  have th: "tp_threads p1 = tp_threads p"
    using run by (auto simp: mutex_worker_def at_queue_def split: worker.splits if_splits list.splits)
  have cnt: "count_of P (p1\<lparr>tp_threads := (tp_threads p1)[i := l]\<rparr>) =
      count_of P p - (if P ?old then 1 else 0) + (if P l then 1 else 0)" for P
    using count_update [OF i, of P l] by (simp add: count_of_def th)
  show ?thesis
    using ok run
    unfolding pool_ok_def cnt
    by (cases ?old) (auto simp: mutex_worker_def at_queue_def alive_def executing_def split: if_splits list.splits)
qed

lemma worker_step_ok:
  assumes "pool_ok p"
  shows "pool_ok (worker_step w i p)"
proof (cases "i < length (tp_threads p)")
  case True
  obtain l p1 where run: "mutex_worker w (tp_threads p ! i) p = (l, p1)" by fastforce
  have "tp_mode p = queue_mode_mutex" using assms by (simp add: pool_ok_def)
  then have "worker_step w i p = p1\<lparr>tp_threads := (tp_threads p1)[i := l]\<rparr>" using True run by (simp add: worker_step_def)
  then show ?thesis using mutex_worker_ok [OF assms True run] by simp
next
  case False
  then show ?thesis using assms by (simp add: worker_step_def)
qed

lemma pool_stop_ok: "pool_ok p \<Longrightarrow> pool_ok (pool_stop p)"
  by (auto simp: pool_stop_def pool_ok_def count_of_def)

lemma pool_exec_ok: "pool_ok p \<Longrightarrow> pool_ok (pool_exec es p)"
  by (induction es p rule: pool_exec.induct) (simp_all add: enqueue_ok worker_step_ok pool_stop_ok)

lemma spawn_all_spec:
  assumes "spawn_all n created p = Some p'"
  shows "p' = p\<lparr>tp_threads := tp_threads p @ replicate n WTop, tp_current := tp_current p + int n\<rparr>"
  using assms
proof (induction n created p rule: spawn_all.induct)
  case (2 n created p)
  then show ?case by (auto simp: spawn_worker_def replicate_append_same split: if_splits)
qed simp

lemma new_pool_ok:
  assumes "new_pool tn mr mt it queue_mode_mutex created = Some p"
  shows "pool_ok p \<and> tp_accepted p = []"
proof -
  note spec = spawn_all_spec [of "nat tn" created]
  have "0 < tn" "0 < mr" using assms by (auto simp: new_pool_def split: if_splits)
  then show ?thesis
    using assms by (auto simp: new_pool_def Let_def pool_ok_def count_of_def alive_def executing_def dest!: spec split: if_splits)
qed

text \<open>
  Property C30. In mutex mode, for every sequence of submissions, worker steps (with every way a wait
  can end) and the shutdown: the tasks started are a prefix of the tasks accepted, in their order,
  and the rest is in the queue; the counters are the numbers of live and of executing workers; the
  pool has at least its minimum of threads until it is stopped and never more than its maximum; the
  queue respects its bound; and while a task is queued there is a live worker.
\<close>

theorem pool_runs_tasks_in_order:
  assumes "new_pool tn mr mt it queue_mode_mutex created = Some p0"
  shows "let p = pool_exec es p0 in
      tp_accepted p = tp_started p @ tp_queue p
    \<and> tp_current p = int (length (filter alive (tp_threads p))) \<and> tp_busy p = int (length (filter executing (tp_threads p)))
    \<and> (tp_stop p \<or> tp_min p \<le> tp_current p) \<and> tp_current p \<le> tp_max p
    \<and> int (length (tp_queue p)) \<le> tp_max_requests p \<and> (tp_queue p = [] \<or> 1 \<le> tp_current p)"
  using pool_exec_ok [of p0 es] new_pool_ok [OF assms] by (auto simp: pool_ok_def count_of_def Let_def)

definition pool_demo :: "pool_event list" where
  "pool_demo = [Work Notified 0, Append [True] \<lparr>tk_request = 1, tk_state = 0, tk_use_state = True\<rparr>,
     Append [True] \<lparr>tk_request = 2, tk_state = 0, tk_use_state = True\<rparr>, Work Notified 0]"

theorem pool_runs_tasks_in_order_witness:
  "let p = pool_exec pool_demo (the (new_pool 1 4 2 30 queue_mode_mutex [True])) in
     map tk_request (tp_started p) = [1] \<and> map tk_request (tp_queue p) = [2] \<and> tp_accepted p = tp_started p @ tp_queue p \<and> tp_current p = 2"
proof -
  let ?p0 = "the (new_pool 1 4 2 30 queue_mode_mutex [True])"
  have p0: "new_pool 1 4 2 30 queue_mode_mutex [True] = Some ?p0" by (simp add: new_pool_def Let_def spawn_worker_def)
  have "map tk_request (tp_started (pool_exec pool_demo ?p0)) = [1]" "map tk_request (tp_queue (pool_exec pool_demo ?p0)) = [2]"
    "tp_current (pool_exec pool_demo ?p0) = 2"
    by (simp_all add: pool_demo_def new_pool_def Let_def spawn_worker_def pool_enqueue_def maybe_grow_def worker_step_def
        mutex_worker_def at_queue_def)
  then show ?thesis using pool_runs_tasks_in_order [OF p0, of pool_demo] by (simp add: Let_def)
qed

text \<open>
  In lock-free mode the minimum is not kept: two idle workers that time out together
  both see more threads than the minimum before either of them is subtracted, and both leave. A
  pool of minimum 1 with two workers ends with none.
\<close>

lemma lockfree_pool_below_minimum:
  "\<exists>es. tp_current (pool_exec es (the (new_pool 1 4 2 30 queue_mode_lockfree [True]))) = 0
     \<and> \<not> tp_stop (pool_exec es (the (new_pool 1 4 2 30 queue_mode_lockfree [True])))"
proof -
  let ?t = "\<lparr>tk_request = 1, tk_state = 0, tk_use_state = True\<rparr>"
  let ?es = "[Work Notified 0, Append [True] ?t, Append [True] ?t, Work Notified 0, Work Notified 0, Work Notified 0, Work Notified 0,
      Work Notified 1, Work Notified 1, Work Notified 1, Work Notified 1, Work Notified 1,
      Work Notified 0, Work Notified 1, Work TimedOut 0, Work TimedOut 1, Work TimedOut 0, Work TimedOut 1, Work Notified 0, Work Notified 1]"
  show ?thesis by (rule exI [of _ ?es]) code_simp
qed

end
