(* ===== verification/Config.thy ===== *)
theory Config
  imports Cstring
begin

text \<open>
  The configuration of \<open>app/config.h\<close> and \<open>app/config.cpp\<close>: defaults, the file of
  \<open>key=value\<close> lines, the environment and the options of the command line, in the order in which
  \<open>main\<close> applies them. A \<open>double\<close> is a type parameter, with \<open>atof\<close> as a function into it (a
  literal is what \<open>atof\<close> makes of its digits). The files of the disk and the environment are
  functions; the options are the list of letters and arguments that \<open>getopt\<close> returns.

  Every setting obeys the same laws, which the locale \<open>setting\<close> states and every field of
  the configuration interprets; the theorem on the effective values is proved once inside it.
\<close>

named_theorems setting_laws \<open>how the three sources change a field\<close>

subsection \<open>The data\<close>

type_synonym environ = "string \<Rightarrow> string option"
type_synonym config_files = "string \<Rightarrow> string option"

text \<open>\<open>atoi\<close> of glibc is \<open>(int) strtol\<close>.\<close>

definition atoi :: "string \<Rightarrow> int" where
  "atoi s = narrow_int (atol s)"

record 'd config =
  cf_PORT :: int
  cf_LOGWrite :: int
  cf_log_level :: int
  cf_log_split_lines :: int
  cf_log_queue_size :: int
  cf_TRIGMode :: int
  cf_LISTENTrigmode :: int
  cf_CONNTrigmode :: int
  cf_OPT_LINGER :: int
  cf_sql_num :: int
  cf_thread_num :: int
  cf_close_log :: int
  cf_actor_model :: int
  cf_daemon_mode :: int
  cf_pid_file :: string
  cf_https_enable :: int
  cf_https_cert_file :: string
  cf_https_key_file :: string
  cf_legacy_compat :: int
  cf_db_host :: string
  cf_db_port :: int
  cf_db_user :: string
  cf_db_password :: string
  cf_db_name :: string
  cf_conn_timeout :: int
  cf_threadpool_max_threads :: int
  cf_threadpool_idle_timeout :: int
  cf_mysql_idle_timeout :: int
  cf_upload_max_bytes :: int
  cf_user_storage_quota_bytes :: int
  cf_threadpool_queue_mode :: string
  cf_auth_rate_limit_enabled :: int
  cf_redis_host :: string
  cf_redis_port :: int
  cf_redis_password :: string
  cf_redis_db :: int
  cf_redis_pool_size :: int
  cf_redis_connect_timeout_ms :: int
  cf_redis_socket_timeout_ms :: int
  cf_redis_max_retries :: int
  cf_auth_login_ip_max_tokens :: int
  cf_auth_login_ip_refill_rate :: "'d"
  cf_auth_login_user_max_tokens :: int
  cf_auth_login_user_refill_rate :: "'d"
  cf_auth_register_ip_max_tokens :: int
  cf_auth_register_ip_refill_rate :: "'d"
  cf_auth_rate_limit_fallback_mode :: string
  cf_config_file_path :: string


text \<open>\<open>trim\<close> of the anonymous namespace: four blanks, not all of \<open>isspace\<close>.\<close>

definition is_blank :: "byte \<Rightarrow> bool" where
  "is_blank c \<longleftrightarrow> c = SP \<or> c = TAB \<or> c = CR \<or> c = LF"

definition trim :: "string \<Rightarrow> string" where
  "trim s = rev (dropWhile is_blank (rev (dropWhile is_blank s)))"

subsection \<open>The environment\<close>

text \<open>An empty variable counts as unset.\<close>

definition getenv_value :: "environ \<Rightarrow> string \<Rightarrow> string option" where
  "getenv_value env name = (case env name of None \<Rightarrow> None | Some v \<Rightarrow> if v = [] then None else Some v)"

definition getenv_int_value :: "environ \<Rightarrow> string \<Rightarrow> int \<Rightarrow> int" where
  "getenv_int_value env name fallback = (case getenv_value env name of None \<Rightarrow> fallback | Some v \<Rightarrow> atoi v)"

definition getenv_long_value :: "environ \<Rightarrow> string \<Rightarrow> int \<Rightarrow> int" where
  "getenv_long_value env name fallback = (case getenv_value env name of None \<Rightarrow> fallback | Some v \<Rightarrow> atol v)"

definition getenv_double_value :: "(string \<Rightarrow> 'd) \<Rightarrow> environ \<Rightarrow> string \<Rightarrow> 'd \<Rightarrow> 'd" where
  "getenv_double_value atof env name fallback = (case getenv_value env name of None \<Rightarrow> fallback | Some v \<Rightarrow> atof v)"

definition getenv_string_value :: "environ \<Rightarrow> string \<Rightarrow> string \<Rightarrow> string" where
  "getenv_string_value env name fallback = (case getenv_value env name of None \<Rightarrow> fallback | Some v \<Rightarrow> v)"

definition config_init :: "(string \<Rightarrow> 'd) \<Rightarrow> 'd config" where
  "config_init atof =
     \<lparr>cf_PORT = 9006,
      cf_LOGWrite = 1,
      cf_log_level = 1,
      cf_log_split_lines = 800000,
      cf_log_queue_size = 800,
      cf_TRIGMode = 3,
      cf_LISTENTrigmode = 1,
      cf_CONNTrigmode = 1,
      cf_OPT_LINGER = 0,
      cf_sql_num = 8,
      cf_thread_num = 8,
      cf_close_log = 0,
      cf_actor_model = 0,
      cf_daemon_mode = 0,
      cf_pid_file = ''./atlas-webserver.pid'',
      cf_https_enable = 0,
      cf_https_cert_file = ''./certs/server.crt'',
      cf_https_key_file = ''./certs/server.key'',
      cf_legacy_compat = 0,
      cf_db_host = ''127.0.0.1'',
      cf_db_port = 3306,
      cf_db_user = ''root'',
      cf_db_password = [],
      cf_db_name = ''qgydb'',
      cf_conn_timeout = 15,
      cf_threadpool_max_threads = 8,
      cf_threadpool_idle_timeout = 30,
      cf_mysql_idle_timeout = 60,
      cf_upload_max_bytes = 100 * 1024 * 1024,
      cf_user_storage_quota_bytes = 1024 * 1024 * 1024,
      cf_threadpool_queue_mode = ''mutex'',
      cf_auth_rate_limit_enabled = 0,
      cf_redis_host = ''127.0.0.1'',
      cf_redis_port = 6379,
      cf_redis_password = [],
      cf_redis_db = 0,
      cf_redis_pool_size = 4,
      cf_redis_connect_timeout_ms = 80,
      cf_redis_socket_timeout_ms = 80,
      cf_redis_max_retries = 0,
      cf_auth_login_ip_max_tokens = 60,
      cf_auth_login_ip_refill_rate = atof ''1.0'',
      cf_auth_login_user_max_tokens = 10,
      cf_auth_login_user_refill_rate = atof ''0.166667'',
      cf_auth_register_ip_max_tokens = 30,
      cf_auth_register_ip_refill_rate = atof ''0.05'',
      cf_auth_rate_limit_fallback_mode = ''local'',
      cf_config_file_path = ''server.conf''\<rparr>"

subsection \<open>The file\<close>

text \<open>The chain of comparisons on one line of the file.\<close>

definition set_key :: "(string \<Rightarrow> 'd) \<Rightarrow> string \<Rightarrow> string \<Rightarrow> 'd config \<Rightarrow> 'd config" where
  "set_key atof key value c =
     (if key = ''port'' then c\<lparr>cf_PORT := atoi value\<rparr>
      else if key = ''log_write'' then c\<lparr>cf_LOGWrite := atoi value\<rparr>
      else if key = ''log_level'' then c\<lparr>cf_log_level := atoi value\<rparr>
      else if key = ''log_split_lines'' then c\<lparr>cf_log_split_lines := atoi value\<rparr>
      else if key = ''log_queue_size'' then c\<lparr>cf_log_queue_size := atoi value\<rparr>
      else if key = ''trig_mode'' then c\<lparr>cf_TRIGMode := atoi value\<rparr>
      else if key = ''opt_linger'' then c\<lparr>cf_OPT_LINGER := atoi value\<rparr>
      else if key = ''sql_num'' then c\<lparr>cf_sql_num := atoi value\<rparr>
      else if key = ''thread_num'' then c\<lparr>cf_thread_num := atoi value\<rparr>
      else if key = ''close_log'' then c\<lparr>cf_close_log := atoi value\<rparr>
      else if key = ''actor_model'' then c\<lparr>cf_actor_model := atoi value\<rparr>
      else if key = ''daemon_mode'' then c\<lparr>cf_daemon_mode := atoi value\<rparr>
      else if key = ''pid_file'' then c\<lparr>cf_pid_file := value\<rparr>
      else if key = ''https_enable'' then c\<lparr>cf_https_enable := atoi value\<rparr>
      else if key = ''https_cert_file'' then c\<lparr>cf_https_cert_file := value\<rparr>
      else if key = ''https_key_file'' then c\<lparr>cf_https_key_file := value\<rparr>
      else if key = ''legacy_compat'' then c\<lparr>cf_legacy_compat := atoi value\<rparr>
      else if key = ''db_host'' then c\<lparr>cf_db_host := value\<rparr>
      else if key = ''db_port'' then c\<lparr>cf_db_port := atoi value\<rparr>
      else if key = ''db_user'' then c\<lparr>cf_db_user := value\<rparr>
      else if key = ''db_password'' then c\<lparr>cf_db_password := value\<rparr>
      else if key = ''db_name'' then c\<lparr>cf_db_name := value\<rparr>
      else if key = ''conn_timeout'' then c\<lparr>cf_conn_timeout := atoi value\<rparr>
      else if key = ''threadpool_max_threads'' then c\<lparr>cf_threadpool_max_threads := atoi value\<rparr>
      else if key = ''threadpool_idle_timeout'' then c\<lparr>cf_threadpool_idle_timeout := atoi value\<rparr>
      else if key = ''mysql_idle_timeout'' then c\<lparr>cf_mysql_idle_timeout := atoi value\<rparr>
      else if key = ''upload_max_bytes'' then c\<lparr>cf_upload_max_bytes := atoi value\<rparr>
      else if key = ''user_storage_quota_bytes'' then c\<lparr>cf_user_storage_quota_bytes := atol value\<rparr>
      else if key = ''threadpool_queue_mode'' then c\<lparr>cf_threadpool_queue_mode := value\<rparr>
      else if key = ''auth_rate_limit_enabled'' then c\<lparr>cf_auth_rate_limit_enabled := atoi value\<rparr>
      else if key = ''redis_host'' then c\<lparr>cf_redis_host := value\<rparr>
      else if key = ''redis_port'' then c\<lparr>cf_redis_port := atoi value\<rparr>
      else if key = ''redis_password'' then c\<lparr>cf_redis_password := value\<rparr>
      else if key = ''redis_db'' then c\<lparr>cf_redis_db := atoi value\<rparr>
      else if key = ''redis_pool_size'' then c\<lparr>cf_redis_pool_size := atoi value\<rparr>
      else if key = ''redis_connect_timeout_ms'' then c\<lparr>cf_redis_connect_timeout_ms := atoi value\<rparr>
      else if key = ''redis_socket_timeout_ms'' then c\<lparr>cf_redis_socket_timeout_ms := atoi value\<rparr>
      else if key = ''redis_max_retries'' then c\<lparr>cf_redis_max_retries := atoi value\<rparr>
      else if key = ''auth_login_ip_max_tokens'' then c\<lparr>cf_auth_login_ip_max_tokens := atoi value\<rparr>
      else if key = ''auth_login_ip_refill_rate'' then c\<lparr>cf_auth_login_ip_refill_rate := atof value\<rparr>
      else if key = ''auth_login_user_max_tokens'' then c\<lparr>cf_auth_login_user_max_tokens := atoi value\<rparr>
      else if key = ''auth_login_user_refill_rate'' then c\<lparr>cf_auth_login_user_refill_rate := atof value\<rparr>
      else if key = ''auth_register_ip_max_tokens'' then c\<lparr>cf_auth_register_ip_max_tokens := atoi value\<rparr>
      else if key = ''auth_register_ip_refill_rate'' then c\<lparr>cf_auth_register_ip_refill_rate := atof value\<rparr>
      else if key = ''auth_rate_limit_fallback_mode'' then c\<lparr>cf_auth_rate_limit_fallback_mode := value\<rparr>
      else c)"

text \<open>\<open>getline\<close>: the last line counts when it is not empty, with or without its newline.\<close>

fun getlines :: "string \<Rightarrow> string list" where
  "getlines [] = []"
| "getlines s = takeWhile (\<lambda>c. c \<noteq> LF) s # getlines (drop (Suc (length (takeWhile (\<lambda>c. c \<noteq> LF) s))) s)"

definition config_line :: "string \<Rightarrow> (string \<times> string) option" where
  "config_line raw =
     (let line = trim raw in
      if line = [] \<or> hd line = CHR ''#'' then None
      else case find_char (CHR ''='') line of
        None \<Rightarrow> None
      | Some pos \<Rightarrow> Some (trim (take pos line), trim (drop (Suc pos) line)))"

fun load_lines :: "(string \<Rightarrow> 'd) \<Rightarrow> string list \<Rightarrow> 'd config \<Rightarrow> 'd config" where
  "load_lines atof [] c = c"
| "load_lines atof (l # ls) c =
     load_lines atof ls (case config_line l of None \<Rightarrow> c | Some (key, value) \<Rightarrow> set_key atof key value c)"

definition load_file :: "(string \<Rightarrow> 'd) \<Rightarrow> config_files \<Rightarrow> string option \<Rightarrow> 'd config \<Rightarrow> 'd config" where
  "load_file atof files path c =
     (case path of
        None \<Rightarrow> c
      | Some p \<Rightarrow> (case files p of
            None \<Rightarrow> c
          | Some content \<Rightarrow> load_lines atof (getlines content) (c\<lparr>cf_config_file_path := p\<rparr>)))"

definition load_default_file :: "(string \<Rightarrow> 'd) \<Rightarrow> config_files \<Rightarrow> 'd config \<Rightarrow> 'd config" where
  "load_default_file atof files c = load_file atof files (Some (c_str (cf_config_file_path c))) c"

subsection \<open>Environment and options\<close>

definition apply_env_overrides :: "(string \<Rightarrow> 'd) \<Rightarrow> environ \<Rightarrow> 'd config \<Rightarrow> 'd config" where
  "apply_env_overrides atof env c =
     c\<lparr>cf_PORT := getenv_int_value env ''TWS_PORT'' (cf_PORT c),
       cf_LOGWrite := getenv_int_value env ''TWS_LOG_WRITE'' (cf_LOGWrite c),
       cf_log_level := getenv_int_value env ''TWS_LOG_LEVEL'' (cf_log_level c),
       cf_log_split_lines := getenv_int_value env ''TWS_LOG_SPLIT_LINES'' (cf_log_split_lines c),
       cf_log_queue_size := getenv_int_value env ''TWS_LOG_QUEUE_SIZE'' (cf_log_queue_size c),
       cf_TRIGMode := getenv_int_value env ''TWS_TRIG_MODE'' (cf_TRIGMode c),
       cf_OPT_LINGER := getenv_int_value env ''TWS_OPT_LINGER'' (cf_OPT_LINGER c),
       cf_sql_num := getenv_int_value env ''TWS_SQL_NUM'' (cf_sql_num c),
       cf_thread_num := getenv_int_value env ''TWS_THREAD_NUM'' (cf_thread_num c),
       cf_close_log := getenv_int_value env ''TWS_CLOSE_LOG'' (cf_close_log c),
       cf_actor_model := getenv_int_value env ''TWS_ACTOR_MODEL'' (cf_actor_model c),
       cf_daemon_mode := getenv_int_value env ''TWS_DAEMON_MODE'' (cf_daemon_mode c),
       cf_https_enable := getenv_int_value env ''TWS_HTTPS_ENABLE'' (cf_https_enable c),
       cf_legacy_compat := getenv_int_value env ''TWS_LEGACY_COMPAT'' (cf_legacy_compat c),
       cf_db_port := getenv_int_value env ''TWS_DB_PORT'' (cf_db_port c),
       cf_conn_timeout := getenv_int_value env ''TWS_CONN_TIMEOUT'' (cf_conn_timeout c),
       cf_threadpool_max_threads := getenv_int_value env ''TWS_THREADPOOL_MAX_THREADS'' (cf_threadpool_max_threads c),
       cf_threadpool_idle_timeout := getenv_int_value env ''TWS_THREADPOOL_IDLE_TIMEOUT'' (cf_threadpool_idle_timeout c),
       cf_mysql_idle_timeout := getenv_int_value env ''TWS_MYSQL_IDLE_TIMEOUT'' (cf_mysql_idle_timeout c),
       cf_upload_max_bytes := getenv_int_value env ''TWS_UPLOAD_MAX_BYTES'' (cf_upload_max_bytes c),
       cf_user_storage_quota_bytes := getenv_long_value env ''TWS_USER_STORAGE_QUOTA_BYTES'' (cf_user_storage_quota_bytes c),
       cf_threadpool_queue_mode := getenv_string_value env ''TWS_THREADPOOL_QUEUE_MODE'' (cf_threadpool_queue_mode c),
       cf_auth_rate_limit_enabled := getenv_int_value env ''TWS_AUTH_RATE_LIMIT_ENABLED'' (cf_auth_rate_limit_enabled c),
       cf_redis_port := getenv_int_value env ''TWS_REDIS_PORT'' (cf_redis_port c),
       cf_redis_db := getenv_int_value env ''TWS_REDIS_DB'' (cf_redis_db c),
       cf_redis_pool_size := getenv_int_value env ''TWS_REDIS_POOL_SIZE'' (cf_redis_pool_size c),
       cf_redis_connect_timeout_ms := getenv_int_value env ''TWS_REDIS_CONNECT_TIMEOUT_MS'' (cf_redis_connect_timeout_ms c),
       cf_redis_socket_timeout_ms := getenv_int_value env ''TWS_REDIS_SOCKET_TIMEOUT_MS'' (cf_redis_socket_timeout_ms c),
       cf_redis_max_retries := getenv_int_value env ''TWS_REDIS_MAX_RETRIES'' (cf_redis_max_retries c),
       cf_auth_login_ip_max_tokens := getenv_int_value env ''TWS_AUTH_LOGIN_IP_MAX_TOKENS'' (cf_auth_login_ip_max_tokens c),
       cf_auth_login_ip_refill_rate := getenv_double_value atof env ''TWS_AUTH_LOGIN_IP_REFILL_RATE'' (cf_auth_login_ip_refill_rate c),
       cf_auth_login_user_max_tokens := getenv_int_value env ''TWS_AUTH_LOGIN_USER_MAX_TOKENS'' (cf_auth_login_user_max_tokens c),
       cf_auth_login_user_refill_rate := getenv_double_value atof env ''TWS_AUTH_LOGIN_USER_REFILL_RATE'' (cf_auth_login_user_refill_rate c),
       cf_auth_register_ip_max_tokens := getenv_int_value env ''TWS_AUTH_REGISTER_IP_MAX_TOKENS'' (cf_auth_register_ip_max_tokens c),
       cf_auth_register_ip_refill_rate := getenv_double_value atof env ''TWS_AUTH_REGISTER_IP_REFILL_RATE'' (cf_auth_register_ip_refill_rate c),
       cf_auth_rate_limit_fallback_mode := getenv_string_value env ''TWS_AUTH_RATE_LIMIT_FALLBACK_MODE'' (cf_auth_rate_limit_fallback_mode c),
       cf_pid_file := (case getenv_value env ''TWS_PID_FILE'' of None \<Rightarrow> cf_pid_file c | Some value \<Rightarrow> value),
       cf_https_cert_file := (case getenv_value env ''TWS_HTTPS_CERT_FILE'' of None \<Rightarrow> cf_https_cert_file c | Some value \<Rightarrow> value),
       cf_https_key_file := (case getenv_value env ''TWS_HTTPS_KEY_FILE'' of None \<Rightarrow> cf_https_key_file c | Some value \<Rightarrow> value),
       cf_db_host := (case getenv_value env ''TWS_DB_HOST'' of None \<Rightarrow> cf_db_host c | Some value \<Rightarrow> value),
       cf_db_user := (case getenv_value env ''TWS_DB_USER'' of None \<Rightarrow> cf_db_user c | Some value \<Rightarrow> value),
       cf_db_password := (case getenv_value env ''TWS_DB_PASSWORD'' of None \<Rightarrow> cf_db_password c | Some value \<Rightarrow> value),
       cf_db_name := (case getenv_value env ''TWS_DB_NAME'' of None \<Rightarrow> cf_db_name c | Some value \<Rightarrow> value),
       cf_redis_host := (case getenv_value env ''TWS_REDIS_HOST'' of None \<Rightarrow> cf_redis_host c | Some value \<Rightarrow> value),
       cf_redis_password := (case getenv_value env ''TWS_REDIS_PASSWORD'' of None \<Rightarrow> cf_redis_password c | Some value \<Rightarrow> value)\<rparr>"

definition parse_opt :: "(string \<Rightarrow> 'd) \<Rightarrow> config_files \<Rightarrow> char \<times> string \<Rightarrow> 'd config \<Rightarrow> 'd config" where
  "parse_opt atof files = (\<lambda>(opt, optarg) c.
     if opt = CHR ''f'' then load_file atof files (Some optarg) c
     else if opt = CHR ''p'' then c\<lparr>cf_PORT := atoi optarg\<rparr>
     else if opt = CHR ''l'' then c\<lparr>cf_LOGWrite := atoi optarg\<rparr>
     else if opt = CHR ''m'' then c\<lparr>cf_TRIGMode := atoi optarg\<rparr>
     else if opt = CHR ''o'' then c\<lparr>cf_OPT_LINGER := atoi optarg\<rparr>
     else if opt = CHR ''s'' then c\<lparr>cf_sql_num := atoi optarg\<rparr>
     else if opt = CHR ''t'' then c\<lparr>cf_thread_num := atoi optarg\<rparr>
     else if opt = CHR ''c'' then c\<lparr>cf_close_log := atoi optarg\<rparr>
     else if opt = CHR ''a'' then c\<lparr>cf_actor_model := atoi optarg\<rparr>
     else if opt = CHR ''d'' then c\<lparr>cf_daemon_mode := atoi optarg\<rparr>
     else c)"

definition parse_arg :: "(string \<Rightarrow> 'd) \<Rightarrow> config_files \<Rightarrow> (char \<times> string) list \<Rightarrow> 'd config \<Rightarrow> 'd config" where
  "parse_arg atof files opts c = fold (parse_opt atof files) opts c"

text \<open>The first four statements of \<open>main\<close>.\<close>

definition main_config :: "(string \<Rightarrow> 'd) \<Rightarrow> config_files \<Rightarrow> environ \<Rightarrow> (char \<times> string) list \<Rightarrow> 'd config" where
  "main_config atof files env opts =
     apply_env_overrides atof env
       (parse_arg atof files opts
         (apply_env_overrides atof env (load_default_file atof files (config_init atof))))"

subsection \<open>Assignments\<close>

text \<open>
  The reference: a file and an option are lists of assignments of texts to keys, and the last
  assignment to a key counts.
\<close>

definition file_pairs :: "config_files \<Rightarrow> string \<Rightarrow> (string \<times> string) list" where
  "file_pairs files p =
     (case files p of None \<Rightarrow> [] | Some content \<Rightarrow> List.map_filter config_line (getlines content))"

definition opt_key :: "char \<Rightarrow> string option" where
  "opt_key = map_of
     [(CHR ''p'', ''port''), (CHR ''l'', ''log_write''), (CHR ''m'', ''trig_mode''), (CHR ''o'', ''opt_linger''),
      (CHR ''s'', ''sql_num''), (CHR ''t'', ''thread_num''), (CHR ''c'', ''close_log''),
      (CHR ''a'', ''actor_model''), (CHR ''d'', ''daemon_mode'')]"

definition opt_pairs :: "config_files \<Rightarrow> char \<times> string \<Rightarrow> (string \<times> string) list" where
  "opt_pairs files = (\<lambda>(opt, optarg).
     if opt = CHR ''f'' then file_pairs files optarg
     else case opt_key opt of None \<Rightarrow> [] | Some k \<Rightarrow> [(k, optarg)])"

definition all_pairs :: "config_files \<Rightarrow> (char \<times> string) list \<Rightarrow> (string \<times> string) list" where
  "all_pairs files opts = file_pairs files ''server.conf'' @ concat (map (opt_pairs files) opts)"

definition last_value :: "string \<Rightarrow> (string \<times> string) list \<Rightarrow> string option" where
  "last_value key kvs = map_of (rev kvs) key"

lemma load_lines_pairs:
  "load_lines atof ls c = fold (\<lambda>(k, v). set_key atof k v) (List.map_filter config_line ls) c"
  by (induction ls arbitrary: c) (auto simp: map_filter_simps split: option.splits)

lemma load_file_pairs:
  "\<exists>p'. load_file atof files (Some p) c =
     fold (\<lambda>(k, v). set_key atof k v) (file_pairs files p) (c\<lparr>cf_config_file_path := p'\<rparr>)"
proof (cases "files p")
  case None
  then show ?thesis
    by (intro exI [of _ "cf_config_file_path c"]) (simp add: load_file_def file_pairs_def)
next
  case (Some content)
  then show ?thesis
    by (intro exI [of _ p]) (simp add: load_file_def file_pairs_def load_lines_pairs)
qed

text \<open>An option of one letter does what a line with its key does.\<close>

lemma set_key_options:
  "set_key atof ''port'' v c = c\<lparr>cf_PORT := atoi v\<rparr>"
  "set_key atof ''log_write'' v c = c\<lparr>cf_LOGWrite := atoi v\<rparr>"
  "set_key atof ''trig_mode'' v c = c\<lparr>cf_TRIGMode := atoi v\<rparr>"
  "set_key atof ''opt_linger'' v c = c\<lparr>cf_OPT_LINGER := atoi v\<rparr>"
  "set_key atof ''sql_num'' v c = c\<lparr>cf_sql_num := atoi v\<rparr>"
  "set_key atof ''thread_num'' v c = c\<lparr>cf_thread_num := atoi v\<rparr>"
  "set_key atof ''close_log'' v c = c\<lparr>cf_close_log := atoi v\<rparr>"
  "set_key atof ''actor_model'' v c = c\<lparr>cf_actor_model := atoi v\<rparr>"
  "set_key atof ''daemon_mode'' v c = c\<lparr>cf_daemon_mode := atoi v\<rparr>"
  by (simp_all add: set_key_def)

lemma parse_opt_key:
  assumes "opt \<noteq> CHR ''f''"
  shows "parse_opt atof files (opt, v) c =
     (case opt_key opt of None \<Rightarrow> c | Some k \<Rightarrow> set_key atof k v c)"
  using assms by (simp add: parse_opt_def opt_key_def set_key_options)

lemma last_value_simps [simp]:
  "last_value key [] = None"
  "last_value key (kvs @ lvs) = (case last_value key lvs of None \<Rightarrow> last_value key kvs | Some v \<Rightarrow> Some v)"
  "last_value key [(k, v)] = (if k = key then Some v else None)"
  by (auto simp: last_value_def map_add_def split: option.splits)

subsection \<open>The contract of a setting\<close>

locale setting =
  fixes atof :: "string \<Rightarrow> 'd" and get :: "'d config \<Rightarrow> 'v" and key :: string and var :: string
    and parse :: "string \<Rightarrow> 'v"
  assumes key_law: "get (set_key atof k v c) = (if k = key then parse v else get c)"
    and env_law: "get (apply_env_overrides atof env c) =
      (case getenv_value env var of None \<Rightarrow> get c | Some v \<Rightarrow> parse v)"
    and path_law: "get (c\<lparr>cf_config_file_path := p\<rparr>) = get c"
begin

abbreviation chosen :: "(string \<times> string) list \<Rightarrow> 'v \<Rightarrow> 'v" where
  "chosen kvs d \<equiv> (case last_value key kvs of None \<Rightarrow> d | Some v \<Rightarrow> parse v)"

lemma get_pairs: "get (fold (\<lambda>(k, v). set_key atof k v) kvs c) = chosen kvs (get c)"
  by (induction kvs rule: rev_induct) (auto simp: key_law split: option.splits)

lemma get_file: "get (load_file atof files (Some p) c) = chosen (file_pairs files p) (get c)"
  using load_file_pairs [of atof files p c] by (auto simp: get_pairs path_law split: option.split)

lemma get_opt: "get (parse_opt atof files ov c) = chosen (opt_pairs files ov) (get c)"
proof (cases ov)
  case (Pair opt v)
  show ?thesis
  proof (cases "opt = CHR ''f''")
    case True
    with Pair show ?thesis by (simp add: parse_opt_def opt_pairs_def get_file)
  next
    case False
    with Pair parse_opt_key [OF False, of atof files v c] show ?thesis
      by (simp add: opt_pairs_def key_law split: option.splits)
  qed
qed

lemma get_args: "get (parse_arg atof files opts c) = chosen (concat (map (opt_pairs files) opts)) (get c)"
  unfolding parse_arg_def
  by (induction opts rule: rev_induct) (auto simp: get_opt split: option.splits)

lemma effective:
  "get (main_config atof files env opts) =
     (case getenv_value env var of
        Some v \<Rightarrow> parse v
      | None \<Rightarrow> chosen (all_pairs files opts) (get (config_init atof)))"
proof -
  have "c_str (cf_config_file_path (config_init atof)) = ''server.conf''"
    by (simp add: config_init_def c_str_def)
  then show ?thesis
    by (simp add: main_config_def all_pairs_def env_law get_args load_default_file_def get_file split: option.split)
qed

end

lemmas config_env_defs [setting_laws] =
  apply_env_overrides_def getenv_int_value_def getenv_long_value_def
  getenv_double_value_def getenv_string_value_def

interpretation port_setting: setting atof "cf_PORT" "''port''" "''TWS_PORT''" "atoi" for atof :: "string \<Rightarrow> 'd"
proof unfold_locales
  show "cf_PORT (set_key atof k v c) = (if k = ''port'' then atoi v else cf_PORT c)" for k v c
    by (cases "k = ''port''") (simp_all add: set_key_def if_distrib [of cf_PORT] cong: if_cong split del: if_split)
qed (simp_all add: setting_laws)

interpretation log_write_setting: setting atof "cf_LOGWrite" "''log_write''" "''TWS_LOG_WRITE''" "atoi" for atof :: "string \<Rightarrow> 'd"
proof unfold_locales
  show "cf_LOGWrite (set_key atof k v c) = (if k = ''log_write'' then atoi v else cf_LOGWrite c)" for k v c
    by (cases "k = ''log_write''") (simp_all add: set_key_def if_distrib [of cf_LOGWrite] cong: if_cong split del: if_split)
qed (simp_all add: setting_laws)

interpretation log_level_setting: setting atof "cf_log_level" "''log_level''" "''TWS_LOG_LEVEL''" "atoi" for atof :: "string \<Rightarrow> 'd"
proof unfold_locales
  show "cf_log_level (set_key atof k v c) = (if k = ''log_level'' then atoi v else cf_log_level c)" for k v c
    by (cases "k = ''log_level''") (simp_all add: set_key_def if_distrib [of cf_log_level] cong: if_cong split del: if_split)
qed (simp_all add: setting_laws)

interpretation log_split_lines_setting: setting atof "cf_log_split_lines" "''log_split_lines''" "''TWS_LOG_SPLIT_LINES''" "atoi" for atof :: "string \<Rightarrow> 'd"
proof unfold_locales
  show "cf_log_split_lines (set_key atof k v c) = (if k = ''log_split_lines'' then atoi v else cf_log_split_lines c)" for k v c
    by (cases "k = ''log_split_lines''") (simp_all add: set_key_def if_distrib [of cf_log_split_lines] cong: if_cong split del: if_split)
qed (simp_all add: setting_laws)

interpretation log_queue_size_setting: setting atof "cf_log_queue_size" "''log_queue_size''" "''TWS_LOG_QUEUE_SIZE''" "atoi" for atof :: "string \<Rightarrow> 'd"
proof unfold_locales
  show "cf_log_queue_size (set_key atof k v c) = (if k = ''log_queue_size'' then atoi v else cf_log_queue_size c)" for k v c
    by (cases "k = ''log_queue_size''") (simp_all add: set_key_def if_distrib [of cf_log_queue_size] cong: if_cong split del: if_split)
qed (simp_all add: setting_laws)

interpretation trig_mode_setting: setting atof "cf_TRIGMode" "''trig_mode''" "''TWS_TRIG_MODE''" "atoi" for atof :: "string \<Rightarrow> 'd"
proof unfold_locales
  show "cf_TRIGMode (set_key atof k v c) = (if k = ''trig_mode'' then atoi v else cf_TRIGMode c)" for k v c
    by (cases "k = ''trig_mode''") (simp_all add: set_key_def if_distrib [of cf_TRIGMode] cong: if_cong split del: if_split)
qed (simp_all add: setting_laws)

interpretation opt_linger_setting: setting atof "cf_OPT_LINGER" "''opt_linger''" "''TWS_OPT_LINGER''" "atoi" for atof :: "string \<Rightarrow> 'd"
proof unfold_locales
  show "cf_OPT_LINGER (set_key atof k v c) = (if k = ''opt_linger'' then atoi v else cf_OPT_LINGER c)" for k v c
    by (cases "k = ''opt_linger''") (simp_all add: set_key_def if_distrib [of cf_OPT_LINGER] cong: if_cong split del: if_split)
qed (simp_all add: setting_laws)

interpretation sql_num_setting: setting atof "cf_sql_num" "''sql_num''" "''TWS_SQL_NUM''" "atoi" for atof :: "string \<Rightarrow> 'd"
proof unfold_locales
  show "cf_sql_num (set_key atof k v c) = (if k = ''sql_num'' then atoi v else cf_sql_num c)" for k v c
    by (cases "k = ''sql_num''") (simp_all add: set_key_def if_distrib [of cf_sql_num] cong: if_cong split del: if_split)
qed (simp_all add: setting_laws)

interpretation thread_num_setting: setting atof "cf_thread_num" "''thread_num''" "''TWS_THREAD_NUM''" "atoi" for atof :: "string \<Rightarrow> 'd"
proof unfold_locales
  show "cf_thread_num (set_key atof k v c) = (if k = ''thread_num'' then atoi v else cf_thread_num c)" for k v c
    by (cases "k = ''thread_num''") (simp_all add: set_key_def if_distrib [of cf_thread_num] cong: if_cong split del: if_split)
qed (simp_all add: setting_laws)

interpretation close_log_setting: setting atof "cf_close_log" "''close_log''" "''TWS_CLOSE_LOG''" "atoi" for atof :: "string \<Rightarrow> 'd"
proof unfold_locales
  show "cf_close_log (set_key atof k v c) = (if k = ''close_log'' then atoi v else cf_close_log c)" for k v c
    by (cases "k = ''close_log''") (simp_all add: set_key_def if_distrib [of cf_close_log] cong: if_cong split del: if_split)
qed (simp_all add: setting_laws)

interpretation actor_model_setting: setting atof "cf_actor_model" "''actor_model''" "''TWS_ACTOR_MODEL''" "atoi" for atof :: "string \<Rightarrow> 'd"
proof unfold_locales
  show "cf_actor_model (set_key atof k v c) = (if k = ''actor_model'' then atoi v else cf_actor_model c)" for k v c
    by (cases "k = ''actor_model''") (simp_all add: set_key_def if_distrib [of cf_actor_model] cong: if_cong split del: if_split)
qed (simp_all add: setting_laws)

interpretation daemon_mode_setting: setting atof "cf_daemon_mode" "''daemon_mode''" "''TWS_DAEMON_MODE''" "atoi" for atof :: "string \<Rightarrow> 'd"
proof unfold_locales
  show "cf_daemon_mode (set_key atof k v c) = (if k = ''daemon_mode'' then atoi v else cf_daemon_mode c)" for k v c
    by (cases "k = ''daemon_mode''") (simp_all add: set_key_def if_distrib [of cf_daemon_mode] cong: if_cong split del: if_split)
qed (simp_all add: setting_laws)

interpretation pid_file_setting: setting atof "cf_pid_file" "''pid_file''" "''TWS_PID_FILE''" "\<lambda>v. v" for atof :: "string \<Rightarrow> 'd"
proof unfold_locales
  show "cf_pid_file (set_key atof k v c) = (if k = ''pid_file'' then v else cf_pid_file c)" for k v c
    by (cases "k = ''pid_file''") (simp_all add: set_key_def if_distrib [of cf_pid_file] cong: if_cong split del: if_split)
qed (simp_all add: setting_laws)

interpretation https_enable_setting: setting atof "cf_https_enable" "''https_enable''" "''TWS_HTTPS_ENABLE''" "atoi" for atof :: "string \<Rightarrow> 'd"
proof unfold_locales
  show "cf_https_enable (set_key atof k v c) = (if k = ''https_enable'' then atoi v else cf_https_enable c)" for k v c
    by (cases "k = ''https_enable''") (simp_all add: set_key_def if_distrib [of cf_https_enable] cong: if_cong split del: if_split)
qed (simp_all add: setting_laws)

interpretation https_cert_file_setting: setting atof "cf_https_cert_file" "''https_cert_file''" "''TWS_HTTPS_CERT_FILE''" "\<lambda>v. v" for atof :: "string \<Rightarrow> 'd"
proof unfold_locales
  show "cf_https_cert_file (set_key atof k v c) = (if k = ''https_cert_file'' then v else cf_https_cert_file c)" for k v c
    by (cases "k = ''https_cert_file''") (simp_all add: set_key_def if_distrib [of cf_https_cert_file] cong: if_cong split del: if_split)
qed (simp_all add: setting_laws)

interpretation https_key_file_setting: setting atof "cf_https_key_file" "''https_key_file''" "''TWS_HTTPS_KEY_FILE''" "\<lambda>v. v" for atof :: "string \<Rightarrow> 'd"
proof unfold_locales
  show "cf_https_key_file (set_key atof k v c) = (if k = ''https_key_file'' then v else cf_https_key_file c)" for k v c
    by (cases "k = ''https_key_file''") (simp_all add: set_key_def if_distrib [of cf_https_key_file] cong: if_cong split del: if_split)
qed (simp_all add: setting_laws)

interpretation legacy_compat_setting: setting atof "cf_legacy_compat" "''legacy_compat''" "''TWS_LEGACY_COMPAT''" "atoi" for atof :: "string \<Rightarrow> 'd"
proof unfold_locales
  show "cf_legacy_compat (set_key atof k v c) = (if k = ''legacy_compat'' then atoi v else cf_legacy_compat c)" for k v c
    by (cases "k = ''legacy_compat''") (simp_all add: set_key_def if_distrib [of cf_legacy_compat] cong: if_cong split del: if_split)
qed (simp_all add: setting_laws)

interpretation db_host_setting: setting atof "cf_db_host" "''db_host''" "''TWS_DB_HOST''" "\<lambda>v. v" for atof :: "string \<Rightarrow> 'd"
proof unfold_locales
  show "cf_db_host (set_key atof k v c) = (if k = ''db_host'' then v else cf_db_host c)" for k v c
    by (cases "k = ''db_host''") (simp_all add: set_key_def if_distrib [of cf_db_host] cong: if_cong split del: if_split)
qed (simp_all add: setting_laws)

interpretation db_port_setting: setting atof "cf_db_port" "''db_port''" "''TWS_DB_PORT''" "atoi" for atof :: "string \<Rightarrow> 'd"
proof unfold_locales
  show "cf_db_port (set_key atof k v c) = (if k = ''db_port'' then atoi v else cf_db_port c)" for k v c
    by (cases "k = ''db_port''") (simp_all add: set_key_def if_distrib [of cf_db_port] cong: if_cong split del: if_split)
qed (simp_all add: setting_laws)

interpretation db_user_setting: setting atof "cf_db_user" "''db_user''" "''TWS_DB_USER''" "\<lambda>v. v" for atof :: "string \<Rightarrow> 'd"
proof unfold_locales
  show "cf_db_user (set_key atof k v c) = (if k = ''db_user'' then v else cf_db_user c)" for k v c
    by (cases "k = ''db_user''") (simp_all add: set_key_def if_distrib [of cf_db_user] cong: if_cong split del: if_split)
qed (simp_all add: setting_laws)

interpretation db_password_setting: setting atof "cf_db_password" "''db_password''" "''TWS_DB_PASSWORD''" "\<lambda>v. v" for atof :: "string \<Rightarrow> 'd"
proof unfold_locales
  show "cf_db_password (set_key atof k v c) = (if k = ''db_password'' then v else cf_db_password c)" for k v c
    by (cases "k = ''db_password''") (simp_all add: set_key_def if_distrib [of cf_db_password] cong: if_cong split del: if_split)
qed (simp_all add: setting_laws)

interpretation db_name_setting: setting atof "cf_db_name" "''db_name''" "''TWS_DB_NAME''" "\<lambda>v. v" for atof :: "string \<Rightarrow> 'd"
proof unfold_locales
  show "cf_db_name (set_key atof k v c) = (if k = ''db_name'' then v else cf_db_name c)" for k v c
    by (cases "k = ''db_name''") (simp_all add: set_key_def if_distrib [of cf_db_name] cong: if_cong split del: if_split)
qed (simp_all add: setting_laws)

interpretation conn_timeout_setting: setting atof "cf_conn_timeout" "''conn_timeout''" "''TWS_CONN_TIMEOUT''" "atoi" for atof :: "string \<Rightarrow> 'd"
proof unfold_locales
  show "cf_conn_timeout (set_key atof k v c) = (if k = ''conn_timeout'' then atoi v else cf_conn_timeout c)" for k v c
    by (cases "k = ''conn_timeout''") (simp_all add: set_key_def if_distrib [of cf_conn_timeout] cong: if_cong split del: if_split)
qed (simp_all add: setting_laws)

interpretation threadpool_max_threads_setting: setting atof "cf_threadpool_max_threads" "''threadpool_max_threads''" "''TWS_THREADPOOL_MAX_THREADS''" "atoi" for atof :: "string \<Rightarrow> 'd"
proof unfold_locales
  show "cf_threadpool_max_threads (set_key atof k v c) = (if k = ''threadpool_max_threads'' then atoi v else cf_threadpool_max_threads c)" for k v c
    by (cases "k = ''threadpool_max_threads''") (simp_all add: set_key_def if_distrib [of cf_threadpool_max_threads] cong: if_cong split del: if_split)
qed (simp_all add: setting_laws)

interpretation threadpool_idle_timeout_setting: setting atof "cf_threadpool_idle_timeout" "''threadpool_idle_timeout''" "''TWS_THREADPOOL_IDLE_TIMEOUT''" "atoi" for atof :: "string \<Rightarrow> 'd"
proof unfold_locales
  show "cf_threadpool_idle_timeout (set_key atof k v c) = (if k = ''threadpool_idle_timeout'' then atoi v else cf_threadpool_idle_timeout c)" for k v c
    by (cases "k = ''threadpool_idle_timeout''") (simp_all add: set_key_def if_distrib [of cf_threadpool_idle_timeout] cong: if_cong split del: if_split)
qed (simp_all add: setting_laws)

interpretation mysql_idle_timeout_setting: setting atof "cf_mysql_idle_timeout" "''mysql_idle_timeout''" "''TWS_MYSQL_IDLE_TIMEOUT''" "atoi" for atof :: "string \<Rightarrow> 'd"
proof unfold_locales
  show "cf_mysql_idle_timeout (set_key atof k v c) = (if k = ''mysql_idle_timeout'' then atoi v else cf_mysql_idle_timeout c)" for k v c
    by (cases "k = ''mysql_idle_timeout''") (simp_all add: set_key_def if_distrib [of cf_mysql_idle_timeout] cong: if_cong split del: if_split)
qed (simp_all add: setting_laws)

interpretation upload_max_bytes_setting: setting atof "cf_upload_max_bytes" "''upload_max_bytes''" "''TWS_UPLOAD_MAX_BYTES''" "atoi" for atof :: "string \<Rightarrow> 'd"
proof unfold_locales
  show "cf_upload_max_bytes (set_key atof k v c) = (if k = ''upload_max_bytes'' then atoi v else cf_upload_max_bytes c)" for k v c
    by (cases "k = ''upload_max_bytes''") (simp_all add: set_key_def if_distrib [of cf_upload_max_bytes] cong: if_cong split del: if_split)
qed (simp_all add: setting_laws)

interpretation user_storage_quota_bytes_setting: setting atof "cf_user_storage_quota_bytes" "''user_storage_quota_bytes''" "''TWS_USER_STORAGE_QUOTA_BYTES''" "atol" for atof :: "string \<Rightarrow> 'd"
proof unfold_locales
  show "cf_user_storage_quota_bytes (set_key atof k v c) = (if k = ''user_storage_quota_bytes'' then atol v else cf_user_storage_quota_bytes c)" for k v c
    by (cases "k = ''user_storage_quota_bytes''") (simp_all add: set_key_def if_distrib [of cf_user_storage_quota_bytes] cong: if_cong split del: if_split)
qed (simp_all add: setting_laws)

interpretation threadpool_queue_mode_setting: setting atof "cf_threadpool_queue_mode" "''threadpool_queue_mode''" "''TWS_THREADPOOL_QUEUE_MODE''" "\<lambda>v. v" for atof :: "string \<Rightarrow> 'd"
proof unfold_locales
  show "cf_threadpool_queue_mode (set_key atof k v c) = (if k = ''threadpool_queue_mode'' then v else cf_threadpool_queue_mode c)" for k v c
    by (cases "k = ''threadpool_queue_mode''") (simp_all add: set_key_def if_distrib [of cf_threadpool_queue_mode] cong: if_cong split del: if_split)
qed (simp_all add: setting_laws)

interpretation auth_rate_limit_enabled_setting: setting atof "cf_auth_rate_limit_enabled" "''auth_rate_limit_enabled''" "''TWS_AUTH_RATE_LIMIT_ENABLED''" "atoi" for atof :: "string \<Rightarrow> 'd"
proof unfold_locales
  show "cf_auth_rate_limit_enabled (set_key atof k v c) = (if k = ''auth_rate_limit_enabled'' then atoi v else cf_auth_rate_limit_enabled c)" for k v c
    by (cases "k = ''auth_rate_limit_enabled''") (simp_all add: set_key_def if_distrib [of cf_auth_rate_limit_enabled] cong: if_cong split del: if_split)
qed (simp_all add: setting_laws)

interpretation redis_host_setting: setting atof "cf_redis_host" "''redis_host''" "''TWS_REDIS_HOST''" "\<lambda>v. v" for atof :: "string \<Rightarrow> 'd"
proof unfold_locales
  show "cf_redis_host (set_key atof k v c) = (if k = ''redis_host'' then v else cf_redis_host c)" for k v c
    by (cases "k = ''redis_host''") (simp_all add: set_key_def if_distrib [of cf_redis_host] cong: if_cong split del: if_split)
qed (simp_all add: setting_laws)

interpretation redis_port_setting: setting atof "cf_redis_port" "''redis_port''" "''TWS_REDIS_PORT''" "atoi" for atof :: "string \<Rightarrow> 'd"
proof unfold_locales
  show "cf_redis_port (set_key atof k v c) = (if k = ''redis_port'' then atoi v else cf_redis_port c)" for k v c
    by (cases "k = ''redis_port''") (simp_all add: set_key_def if_distrib [of cf_redis_port] cong: if_cong split del: if_split)
qed (simp_all add: setting_laws)

interpretation redis_password_setting: setting atof "cf_redis_password" "''redis_password''" "''TWS_REDIS_PASSWORD''" "\<lambda>v. v" for atof :: "string \<Rightarrow> 'd"
proof unfold_locales
  show "cf_redis_password (set_key atof k v c) = (if k = ''redis_password'' then v else cf_redis_password c)" for k v c
    by (cases "k = ''redis_password''") (simp_all add: set_key_def if_distrib [of cf_redis_password] cong: if_cong split del: if_split)
qed (simp_all add: setting_laws)

interpretation redis_db_setting: setting atof "cf_redis_db" "''redis_db''" "''TWS_REDIS_DB''" "atoi" for atof :: "string \<Rightarrow> 'd"
proof unfold_locales
  show "cf_redis_db (set_key atof k v c) = (if k = ''redis_db'' then atoi v else cf_redis_db c)" for k v c
    by (cases "k = ''redis_db''") (simp_all add: set_key_def if_distrib [of cf_redis_db] cong: if_cong split del: if_split)
qed (simp_all add: setting_laws)

interpretation redis_pool_size_setting: setting atof "cf_redis_pool_size" "''redis_pool_size''" "''TWS_REDIS_POOL_SIZE''" "atoi" for atof :: "string \<Rightarrow> 'd"
proof unfold_locales
  show "cf_redis_pool_size (set_key atof k v c) = (if k = ''redis_pool_size'' then atoi v else cf_redis_pool_size c)" for k v c
    by (cases "k = ''redis_pool_size''") (simp_all add: set_key_def if_distrib [of cf_redis_pool_size] cong: if_cong split del: if_split)
qed (simp_all add: setting_laws)

interpretation redis_connect_timeout_ms_setting: setting atof "cf_redis_connect_timeout_ms" "''redis_connect_timeout_ms''" "''TWS_REDIS_CONNECT_TIMEOUT_MS''" "atoi" for atof :: "string \<Rightarrow> 'd"
proof unfold_locales
  show "cf_redis_connect_timeout_ms (set_key atof k v c) = (if k = ''redis_connect_timeout_ms'' then atoi v else cf_redis_connect_timeout_ms c)" for k v c
    by (cases "k = ''redis_connect_timeout_ms''") (simp_all add: set_key_def if_distrib [of cf_redis_connect_timeout_ms] cong: if_cong split del: if_split)
qed (simp_all add: setting_laws)

interpretation redis_socket_timeout_ms_setting: setting atof "cf_redis_socket_timeout_ms" "''redis_socket_timeout_ms''" "''TWS_REDIS_SOCKET_TIMEOUT_MS''" "atoi" for atof :: "string \<Rightarrow> 'd"
proof unfold_locales
  show "cf_redis_socket_timeout_ms (set_key atof k v c) = (if k = ''redis_socket_timeout_ms'' then atoi v else cf_redis_socket_timeout_ms c)" for k v c
    by (cases "k = ''redis_socket_timeout_ms''") (simp_all add: set_key_def if_distrib [of cf_redis_socket_timeout_ms] cong: if_cong split del: if_split)
qed (simp_all add: setting_laws)

interpretation redis_max_retries_setting: setting atof "cf_redis_max_retries" "''redis_max_retries''" "''TWS_REDIS_MAX_RETRIES''" "atoi" for atof :: "string \<Rightarrow> 'd"
proof unfold_locales
  show "cf_redis_max_retries (set_key atof k v c) = (if k = ''redis_max_retries'' then atoi v else cf_redis_max_retries c)" for k v c
    by (cases "k = ''redis_max_retries''") (simp_all add: set_key_def if_distrib [of cf_redis_max_retries] cong: if_cong split del: if_split)
qed (simp_all add: setting_laws)

interpretation auth_login_ip_max_tokens_setting: setting atof "cf_auth_login_ip_max_tokens" "''auth_login_ip_max_tokens''" "''TWS_AUTH_LOGIN_IP_MAX_TOKENS''" "atoi" for atof :: "string \<Rightarrow> 'd"
proof unfold_locales
  show "cf_auth_login_ip_max_tokens (set_key atof k v c) = (if k = ''auth_login_ip_max_tokens'' then atoi v else cf_auth_login_ip_max_tokens c)" for k v c
    by (cases "k = ''auth_login_ip_max_tokens''") (simp_all add: set_key_def if_distrib [of cf_auth_login_ip_max_tokens] cong: if_cong split del: if_split)
qed (simp_all add: setting_laws)

interpretation auth_login_ip_refill_rate_setting: setting atof "cf_auth_login_ip_refill_rate" "''auth_login_ip_refill_rate''" "''TWS_AUTH_LOGIN_IP_REFILL_RATE''" "atof" for atof :: "string \<Rightarrow> 'd"
proof unfold_locales
  show "cf_auth_login_ip_refill_rate (set_key atof k v c) = (if k = ''auth_login_ip_refill_rate'' then atof v else cf_auth_login_ip_refill_rate c)" for k v c
    by (cases "k = ''auth_login_ip_refill_rate''") (simp_all add: set_key_def if_distrib [of cf_auth_login_ip_refill_rate] cong: if_cong split del: if_split)
qed (simp_all add: setting_laws)

interpretation auth_login_user_max_tokens_setting: setting atof "cf_auth_login_user_max_tokens" "''auth_login_user_max_tokens''" "''TWS_AUTH_LOGIN_USER_MAX_TOKENS''" "atoi" for atof :: "string \<Rightarrow> 'd"
proof unfold_locales
  show "cf_auth_login_user_max_tokens (set_key atof k v c) = (if k = ''auth_login_user_max_tokens'' then atoi v else cf_auth_login_user_max_tokens c)" for k v c
    by (cases "k = ''auth_login_user_max_tokens''") (simp_all add: set_key_def if_distrib [of cf_auth_login_user_max_tokens] cong: if_cong split del: if_split)
qed (simp_all add: setting_laws)

interpretation auth_login_user_refill_rate_setting: setting atof "cf_auth_login_user_refill_rate" "''auth_login_user_refill_rate''" "''TWS_AUTH_LOGIN_USER_REFILL_RATE''" "atof" for atof :: "string \<Rightarrow> 'd"
proof unfold_locales
  show "cf_auth_login_user_refill_rate (set_key atof k v c) = (if k = ''auth_login_user_refill_rate'' then atof v else cf_auth_login_user_refill_rate c)" for k v c
    by (cases "k = ''auth_login_user_refill_rate''") (simp_all add: set_key_def if_distrib [of cf_auth_login_user_refill_rate] cong: if_cong split del: if_split)
qed (simp_all add: setting_laws)

interpretation auth_register_ip_max_tokens_setting: setting atof "cf_auth_register_ip_max_tokens" "''auth_register_ip_max_tokens''" "''TWS_AUTH_REGISTER_IP_MAX_TOKENS''" "atoi" for atof :: "string \<Rightarrow> 'd"
proof unfold_locales
  show "cf_auth_register_ip_max_tokens (set_key atof k v c) = (if k = ''auth_register_ip_max_tokens'' then atoi v else cf_auth_register_ip_max_tokens c)" for k v c
    by (cases "k = ''auth_register_ip_max_tokens''") (simp_all add: set_key_def if_distrib [of cf_auth_register_ip_max_tokens] cong: if_cong split del: if_split)
qed (simp_all add: setting_laws)

interpretation auth_register_ip_refill_rate_setting: setting atof "cf_auth_register_ip_refill_rate" "''auth_register_ip_refill_rate''" "''TWS_AUTH_REGISTER_IP_REFILL_RATE''" "atof" for atof :: "string \<Rightarrow> 'd"
proof unfold_locales
  show "cf_auth_register_ip_refill_rate (set_key atof k v c) = (if k = ''auth_register_ip_refill_rate'' then atof v else cf_auth_register_ip_refill_rate c)" for k v c
    by (cases "k = ''auth_register_ip_refill_rate''") (simp_all add: set_key_def if_distrib [of cf_auth_register_ip_refill_rate] cong: if_cong split del: if_split)
qed (simp_all add: setting_laws)

interpretation auth_rate_limit_fallback_mode_setting: setting atof "cf_auth_rate_limit_fallback_mode" "''auth_rate_limit_fallback_mode''" "''TWS_AUTH_RATE_LIMIT_FALLBACK_MODE''" "\<lambda>v. v" for atof :: "string \<Rightarrow> 'd"
proof unfold_locales
  show "cf_auth_rate_limit_fallback_mode (set_key atof k v c) = (if k = ''auth_rate_limit_fallback_mode'' then v else cf_auth_rate_limit_fallback_mode c)" for k v c
    by (cases "k = ''auth_rate_limit_fallback_mode''") (simp_all add: set_key_def if_distrib [of cf_auth_rate_limit_fallback_mode] cong: if_cong split del: if_split)
qed (simp_all add: setting_laws)

subsection \<open>Properties\<close>

text \<open>The settings by their type, with their keys and variables.\<close>

definition int_settings :: "(string \<times> string \<times> ('d config \<Rightarrow> int)) list" where
  "int_settings =
     [(''port'', ''TWS_PORT'', cf_PORT),
      (''log_write'', ''TWS_LOG_WRITE'', cf_LOGWrite),
      (''log_level'', ''TWS_LOG_LEVEL'', cf_log_level),
      (''log_split_lines'', ''TWS_LOG_SPLIT_LINES'', cf_log_split_lines),
      (''log_queue_size'', ''TWS_LOG_QUEUE_SIZE'', cf_log_queue_size),
      (''trig_mode'', ''TWS_TRIG_MODE'', cf_TRIGMode),
      (''opt_linger'', ''TWS_OPT_LINGER'', cf_OPT_LINGER),
      (''sql_num'', ''TWS_SQL_NUM'', cf_sql_num),
      (''thread_num'', ''TWS_THREAD_NUM'', cf_thread_num),
      (''close_log'', ''TWS_CLOSE_LOG'', cf_close_log),
      (''actor_model'', ''TWS_ACTOR_MODEL'', cf_actor_model),
      (''daemon_mode'', ''TWS_DAEMON_MODE'', cf_daemon_mode),
      (''https_enable'', ''TWS_HTTPS_ENABLE'', cf_https_enable),
      (''legacy_compat'', ''TWS_LEGACY_COMPAT'', cf_legacy_compat),
      (''db_port'', ''TWS_DB_PORT'', cf_db_port),
      (''conn_timeout'', ''TWS_CONN_TIMEOUT'', cf_conn_timeout),
      (''threadpool_max_threads'', ''TWS_THREADPOOL_MAX_THREADS'', cf_threadpool_max_threads),
      (''threadpool_idle_timeout'', ''TWS_THREADPOOL_IDLE_TIMEOUT'', cf_threadpool_idle_timeout),
      (''mysql_idle_timeout'', ''TWS_MYSQL_IDLE_TIMEOUT'', cf_mysql_idle_timeout),
      (''upload_max_bytes'', ''TWS_UPLOAD_MAX_BYTES'', cf_upload_max_bytes),
      (''auth_rate_limit_enabled'', ''TWS_AUTH_RATE_LIMIT_ENABLED'', cf_auth_rate_limit_enabled),
      (''redis_port'', ''TWS_REDIS_PORT'', cf_redis_port),
      (''redis_db'', ''TWS_REDIS_DB'', cf_redis_db),
      (''redis_pool_size'', ''TWS_REDIS_POOL_SIZE'', cf_redis_pool_size),
      (''redis_connect_timeout_ms'', ''TWS_REDIS_CONNECT_TIMEOUT_MS'', cf_redis_connect_timeout_ms),
      (''redis_socket_timeout_ms'', ''TWS_REDIS_SOCKET_TIMEOUT_MS'', cf_redis_socket_timeout_ms),
      (''redis_max_retries'', ''TWS_REDIS_MAX_RETRIES'', cf_redis_max_retries),
      (''auth_login_ip_max_tokens'', ''TWS_AUTH_LOGIN_IP_MAX_TOKENS'', cf_auth_login_ip_max_tokens),
      (''auth_login_user_max_tokens'', ''TWS_AUTH_LOGIN_USER_MAX_TOKENS'', cf_auth_login_user_max_tokens),
      (''auth_register_ip_max_tokens'', ''TWS_AUTH_REGISTER_IP_MAX_TOKENS'', cf_auth_register_ip_max_tokens)]"

definition string_settings :: "(string \<times> string \<times> ('d config \<Rightarrow> string)) list" where
  "string_settings =
     [(''pid_file'', ''TWS_PID_FILE'', cf_pid_file),
      (''https_cert_file'', ''TWS_HTTPS_CERT_FILE'', cf_https_cert_file),
      (''https_key_file'', ''TWS_HTTPS_KEY_FILE'', cf_https_key_file),
      (''db_host'', ''TWS_DB_HOST'', cf_db_host),
      (''db_user'', ''TWS_DB_USER'', cf_db_user),
      (''db_password'', ''TWS_DB_PASSWORD'', cf_db_password),
      (''db_name'', ''TWS_DB_NAME'', cf_db_name),
      (''threadpool_queue_mode'', ''TWS_THREADPOOL_QUEUE_MODE'', cf_threadpool_queue_mode),
      (''redis_host'', ''TWS_REDIS_HOST'', cf_redis_host),
      (''redis_password'', ''TWS_REDIS_PASSWORD'', cf_redis_password),
      (''auth_rate_limit_fallback_mode'', ''TWS_AUTH_RATE_LIMIT_FALLBACK_MODE'', cf_auth_rate_limit_fallback_mode)]"

definition double_settings :: "(string \<times> string \<times> ('d config \<Rightarrow> 'd)) list" where
  "double_settings =
     [(''auth_login_ip_refill_rate'', ''TWS_AUTH_LOGIN_IP_REFILL_RATE'', cf_auth_login_ip_refill_rate),
      (''auth_login_user_refill_rate'', ''TWS_AUTH_LOGIN_USER_REFILL_RATE'', cf_auth_login_user_refill_rate),
      (''auth_register_ip_refill_rate'', ''TWS_AUTH_REGISTER_IP_REFILL_RATE'', cf_auth_register_ip_refill_rate)]"

text \<open>
  The effective value of a setting by the reference: a variable of the environment that is not
  empty, else the last assignment in \<open>server.conf\<close> and the options, else the default.
\<close>

definition effective_value ::
  "(string \<Rightarrow> 'v) \<Rightarrow> config_files \<Rightarrow> environ \<Rightarrow> (char \<times> string) list \<Rightarrow> string \<Rightarrow> string \<Rightarrow> 'v \<Rightarrow> 'v" where
  "effective_value parse files env opts key var dflt =
     (case getenv_value env var of
        Some v \<Rightarrow> parse v
      | None \<Rightarrow> (case last_value key (all_pairs files opts) of None \<Rightarrow> dflt | Some v \<Rightarrow> parse v))"

lemmas effective_facts =
  port_setting.effective log_write_setting.effective log_level_setting.effective
  log_split_lines_setting.effective log_queue_size_setting.effective trig_mode_setting.effective
  opt_linger_setting.effective sql_num_setting.effective thread_num_setting.effective
  close_log_setting.effective actor_model_setting.effective daemon_mode_setting.effective
  https_enable_setting.effective legacy_compat_setting.effective db_port_setting.effective
  conn_timeout_setting.effective threadpool_max_threads_setting.effective threadpool_idle_timeout_setting.effective
  mysql_idle_timeout_setting.effective upload_max_bytes_setting.effective user_storage_quota_bytes_setting.effective
  auth_rate_limit_enabled_setting.effective redis_port_setting.effective redis_db_setting.effective
  redis_pool_size_setting.effective redis_connect_timeout_ms_setting.effective redis_socket_timeout_ms_setting.effective
  redis_max_retries_setting.effective auth_login_ip_max_tokens_setting.effective auth_login_user_max_tokens_setting.effective
  auth_register_ip_max_tokens_setting.effective pid_file_setting.effective https_cert_file_setting.effective
  https_key_file_setting.effective db_host_setting.effective db_user_setting.effective
  db_password_setting.effective db_name_setting.effective threadpool_queue_mode_setting.effective
  redis_host_setting.effective redis_password_setting.effective auth_rate_limit_fallback_mode_setting.effective
  auth_login_ip_refill_rate_setting.effective auth_login_user_refill_rate_setting.effective auth_register_ip_refill_rate_setting.effective


end
