(* ===== verification/Supervisor.thy ===== *)
theory Supervisor
  imports Cstring
begin

text \<open>
  The supervisor of \<open>app/main.cpp\<close>: the pid file, the start as a daemon, and the loop that
  forks the server, waits for it and starts it again. The loop is a state machine whose
  events are the results of the system calls and the signals; a signal may arrive in every
  state, also between two statements. What \<open>kill\<close> is called with and how long the process
  sleeps is recorded in the state. The worker's side (\<open>run_server_process\<close> and its signal
  handler) is in the theory of the web server.
\<close>

subsection \<open>The pid file\<close>

type_synonym pid_files = "string \<rightharpoonup> string"

text \<open>
  \<open>kill(pid, 0)\<close> succeeds, or fails with another error than \<open>ESRCH\<close>: \<open>alive pid\<close>.
\<close>

definition process_exists :: "(int \<Rightarrow> bool) \<Rightarrow> int \<Rightarrow> bool" where
  "process_exists alive pid \<longleftrightarrow> 0 < pid \<and> alive pid"

definition write_pid_file :: "bool \<Rightarrow> string \<Rightarrow> int \<Rightarrow> pid_files \<Rightarrow> bool \<times> pid_files" where
  "write_pid_file writable f pid files =
     (if writable then (True, files(f \<mapsto> int_to_string pid @ [LF])) else (False, files))"

text \<open>
  \<open>in >> pid\<close> reads like \<open>strtol\<close>; when it fails, the value is not positive or saturated,
  and both are answered with -1. The conversion to \<open>pid_t\<close> narrows.
\<close>

definition read_pid_file :: "string \<Rightarrow> pid_files \<Rightarrow> int" where
  "read_pid_file f files =
     (case files f of
        None \<Rightarrow> -1
      | Some s \<Rightarrow> (let pid = fst (strtol10 s) in if 0 < pid then narrow_int pid else -1))"

definition remove_pid_file_if_match :: "string \<Rightarrow> int \<Rightarrow> pid_files \<Rightarrow> pid_files" where
  "remove_pid_file_if_match f pid files = (if read_pid_file f files = pid then files(f := None) else files)"

definition check_existing_supervisor :: "(int \<Rightarrow> bool) \<Rightarrow> string \<Rightarrow> pid_files \<Rightarrow> bool \<times> pid_files" where
  "check_existing_supervisor alive f files =
     (let existing = read_pid_file f files in
      if existing \<le> 0 then (False, files)
      else if process_exists alive existing then (True, files)
      else (False, files(f := None)))"

subsection \<open>Becoming a daemon\<close>

datatype daemonized = ParentExits | DaemonFails | IsDaemon

text \<open>The results of the two forks, \<open>setsid\<close>, \<open>open\<close> of the null device and the three \<open>dup2\<close>.\<close>

definition daemonize_process :: "int \<Rightarrow> int \<Rightarrow> int \<Rightarrow> int \<Rightarrow> bool \<Rightarrow> daemonized" where
  "daemonize_process fork1 setsid fork2 null_fd dup2_ok =
     (if fork1 < 0 then DaemonFails
      else if 0 < fork1 then ParentExits
      else if setsid < 0 then DaemonFails
      else if fork2 < 0 then DaemonFails
      else if 0 < fork2 then ParentExits
      else if null_fd < 0 then DaemonFails
      else if \<not> dup2_ok then DaemonFails
      else IsDaemon)"

subsection \<open>The loop\<close>

datatype signal_no = SIGTERM | SIGINT | SIGHUP | OtherSignal int

datatype wait_status = Exited int | Killed signal_no

definition DAEMON_RESTART_MAX_TIMES :: int where "DAEMON_RESTART_MAX_TIMES = 5"
definition DAEMON_RESTART_WINDOW_SECONDS :: int where "DAEMON_RESTART_WINDOW_SECONDS = 60"
definition DAEMON_RESTART_DELAY_SECONDS :: int where "DAEMON_RESTART_DELAY_SECONDS = 2"
definition EXIT_CODE_RELOAD :: int where "EXIT_CODE_RELOAD = 3"

lemmas daemon_constants = DAEMON_RESTART_MAX_TIMES_def DAEMON_RESTART_WINDOW_SECONDS_def
  DAEMON_RESTART_DELAY_SECONDS_def EXIT_CODE_RELOAD_def

text \<open>
  Where the process is: at the test of the loop; before \<open>fork\<close>; after \<open>fork\<close> and before the
  assignment of \<open>g_supervisor_worker_pid\<close>; in \<open>waitpid\<close>; in the child, which becomes the
  server; at the end with its exit code.
\<close>

datatype sup_phase = LoopTest | BeforeFork | HasForked int | Waiting int | InChild | Ended int

record supervisor =
  sv_pid :: int
  sv_pid_file :: string
  sv_files :: pid_files
  sv_stop :: bool
  sv_worker :: int
  sv_restart_count :: int
  sv_window_start :: int
  sv_phase :: sup_phase
  sv_kills :: "(int \<times> signal_no) list"
  sv_sleeps :: "int list"

datatype sup_event =
    Signal signal_no
  | TestLoop
  | Fork int
  | SetWorker
  | WaitEintr
  | WaitFails
  | WaitReturns wait_status int

definition supervisor_signal_handler :: "signal_no \<Rightarrow> supervisor \<Rightarrow> supervisor" where
  "supervisor_signal_handler sig s =
     (let s = s\<lparr>sv_stop := True\<rparr> in
      if 0 < sv_worker s
      then s\<lparr>sv_kills := sv_kills s @ [(sv_worker s, if sig = SIGHUP then SIGHUP else SIGTERM)]\<rparr>
      else s)"

definition finish :: "int \<Rightarrow> supervisor \<Rightarrow> supervisor" where
  "finish code s =
     s\<lparr>sv_files := remove_pid_file_if_match (sv_pid_file s) (sv_pid s) (sv_files s), sv_phase := Ended code\<rparr>"

text \<open>From the return of \<open>waitpid\<close> to the next test of the loop; \<open>now\<close> is the answer of \<open>time\<close>.\<close>

definition after_wait :: "wait_status \<Rightarrow> int \<Rightarrow> supervisor \<Rightarrow> supervisor" where
  "after_wait status now s =
     (let s = s\<lparr>sv_worker := -1\<rparr> in
      if sv_stop s then finish 0 s
      else if status = Exited 0 then s\<lparr>sv_phase := Ended 0\<rparr>
      else if status = Exited EXIT_CODE_RELOAD then
        s\<lparr>sv_restart_count := 0, sv_window_start := 0, sv_sleeps := sv_sleeps s @ [1], sv_phase := LoopTest\<rparr>
      else
        let s = (if sv_window_start s = 0 \<or> now - sv_window_start s > DAEMON_RESTART_WINDOW_SECONDS
                 then s\<lparr>sv_window_start := now, sv_restart_count := 0\<rparr> else s);
            s = s\<lparr>sv_restart_count := sv_restart_count s + 1\<rparr>
        in if sv_restart_count s > DAEMON_RESTART_MAX_TIMES then finish 1 s
           else s\<lparr>sv_sleeps := sv_sleeps s @ [DAEMON_RESTART_DELAY_SECONDS], sv_phase := LoopTest\<rparr>)"

text \<open>One event; \<open>None\<close> when it cannot happen in the state.\<close>

fun sup_step :: "sup_event \<Rightarrow> supervisor \<Rightarrow> supervisor option" where
  "sup_step (Signal sig) s =
     (case sv_phase s of
        InChild \<Rightarrow> None | Ended _ \<Rightarrow> None | _ \<Rightarrow> Some (supervisor_signal_handler sig s))"
| "sup_step TestLoop s =
     (if sv_phase s = LoopTest
      then Some (if sv_stop s then finish 0 s else s\<lparr>sv_phase := BeforeFork\<rparr>) else None)"
| "sup_step (Fork pid) s =
     (if sv_phase s = BeforeFork
      then Some (if pid < 0 then s\<lparr>sv_sleeps := sv_sleeps s @ [1], sv_phase := LoopTest\<rparr>
                 else if pid = 0 then s\<lparr>sv_phase := InChild\<rparr>
                 else s\<lparr>sv_phase := HasForked pid\<rparr>) else None)"
| "sup_step SetWorker s =
     (case sv_phase s of HasForked pid \<Rightarrow> Some (s\<lparr>sv_worker := pid, sv_phase := Waiting pid\<rparr>) | _ \<Rightarrow> None)"
| "sup_step WaitEintr s =
     (case sv_phase s of
        Waiting pid \<Rightarrow> Some (if sv_stop s \<and> 0 < sv_worker s
                              then s\<lparr>sv_kills := sv_kills s @ [(sv_worker s, SIGTERM)]\<rparr> else s)
      | _ \<Rightarrow> None)"
| "sup_step WaitFails s =
     (case sv_phase s of Waiting pid \<Rightarrow> Some (s\<lparr>sv_phase := Ended 1\<rparr>) | _ \<Rightarrow> None)"
| "sup_step (WaitReturns status now) s =
     (case sv_phase s of Waiting pid \<Rightarrow> Some (after_wait status now s) | _ \<Rightarrow> None)"

fun sup_run :: "sup_event list \<Rightarrow> supervisor \<Rightarrow> supervisor option" where
  "sup_run [] s = Some s"
| "sup_run (e # es) s = (case sup_step e s of None \<Rightarrow> None | Some s \<Rightarrow> sup_run es s)"

text \<open>
  \<open>run_daemon_supervisor\<close> up to its loop: \<open>Inl\<close> is the exit code of a process that does not
  reach it.
\<close>

definition run_daemon_supervisor ::
  "(int \<Rightarrow> bool) \<Rightarrow> daemonized \<Rightarrow> bool \<Rightarrow> int \<Rightarrow> string \<Rightarrow> pid_files \<Rightarrow> int + supervisor" where
  "run_daemon_supervisor alive d writable pid f files =
     (let (existing, files) = check_existing_supervisor alive f files in
      if existing then Inl 1
      else case d of
        DaemonFails \<Rightarrow> Inl 1
      | ParentExits \<Rightarrow> Inl 0
      | IsDaemon \<Rightarrow>
          (let (ok, files) = write_pid_file writable f pid files in
           if \<not> ok then Inl 1
           else Inr \<lparr>sv_pid = pid, sv_pid_file = f, sv_files = files, sv_stop = False, sv_worker = -1,
                     sv_restart_count = 0, sv_window_start = 0, sv_phase = LoopTest, sv_kills = [],
                     sv_sleeps = []\<rparr>))"

subsection \<open>Lemmas\<close>

lemma read_pid_written:
  assumes "0 < pid" and "pid \<le> 2147483647"
  shows "read_pid_file f (files(f \<mapsto> int_to_string pid @ [LF])) = pid"
proof -
  have "long_ok (int (nat pid))" using assms by (simp add: long_ok_def LONG_MAX_def LONG_MIN_def)
  moreover have "\<not> isdigit LF" by (simp add: isdigit_def)
  ultimately have "strtol10 (nat_to_string (nat pid) @ [LF]) = (int (nat pid), [LF])"
    using assms by (intro strtol10_nat_to_string) (auto simp: long_ok_def)
  with assms show ?thesis
    by (simp add: read_pid_file_def int_to_string_def narrow_int_id)
qed

lemma sup_run_snoc: "sup_run (es @ [e]) s = Option.bind (sup_run es s) (sup_step e)"
  by (induction es arbitrary: s) (auto split: option.splits)

text \<open>The times of the crashes since the last reload.\<close>

definition crash_add :: "sup_event \<Rightarrow> int list \<Rightarrow> int list" where
  "crash_add e ts =
     (case e of
        WaitReturns status now \<Rightarrow> if status = Exited EXIT_CODE_RELOAD then [] else ts @ [now]
      | _ \<Rightarrow> ts)"

definition crash_times :: "sup_event list \<Rightarrow> int list" where
  "crash_times es = fold crash_add es []"

text \<open>
  The invariant of the loop: the last \<open>restart_count\<close> crashes are within the window, which
  begins with the first of them.
\<close>

definition window_of :: "supervisor \<Rightarrow> int list \<Rightarrow> int list" where
  "window_of s ts = drop (length ts - nat (sv_restart_count s)) ts"

definition window_ok :: "int list \<Rightarrow> supervisor \<Rightarrow> bool" where
  "window_ok ts s \<longleftrightarrow>
     0 \<le> sv_restart_count s \<and> sv_restart_count s \<le> int (length ts) \<and>
     (sv_restart_count s = 0 \<longrightarrow> sv_window_start s = 0) \<and>
     (sv_restart_count s \<noteq> 0 \<longrightarrow> hd (window_of s ts) = sv_window_start s) \<and>
     (\<forall>t \<in> set (window_of s ts). t \<le> sv_window_start s + DAEMON_RESTART_WINDOW_SECONDS)"

definition sup_ok :: "string \<Rightarrow> int \<Rightarrow> int list \<Rightarrow> supervisor \<Rightarrow> bool" where
  "sup_ok f pid ts s \<longleftrightarrow>
     sv_pid_file s = f \<and> sv_pid s = pid \<and>
     (case sv_phase s of
        Ended code \<Rightarrow> code = 1 \<longrightarrow> window_ok ts s \<and> sv_restart_count s = 6 \<and> sv_files s f = None
      | _ \<Rightarrow> window_ok ts s \<and> sv_restart_count s \<le> 5 \<and> sv_files s f = Some (int_to_string pid @ [LF]))"

lemma finish_removes:
  assumes "0 < sv_pid s" "sv_pid s \<le> 2147483647" "sv_files s (sv_pid_file s) = Some (int_to_string (sv_pid s) @ [LF])"
  shows "sv_files (finish code s) (sv_pid_file s) = None"
proof -
  have "read_pid_file (sv_pid_file s) (sv_files s) = sv_pid s"
    using read_pid_written [OF assms(1,2), of "sv_pid_file s" "sv_files s"] assms(3)
    by (simp add: read_pid_file_def)
  then show ?thesis by (simp add: finish_def remove_pid_file_if_match_def)
qed

lemma finish_simps [simp]:
  "sv_phase (finish code s) = Ended code" "sv_restart_count (finish code s) = sv_restart_count s"
  "sv_window_start (finish code s) = sv_window_start s" "sv_pid_file (finish code s) = sv_pid_file s"
  "sv_pid (finish code s) = sv_pid s" "window_of (finish code s) ts = window_of s ts"
  by (simp_all add: finish_def window_of_def)

lemma window_snoc:
  assumes "0 \<le> sv_restart_count s" "sv_restart_count s \<le> int (length ts)"
    and "sv_restart_count s' = sv_restart_count s + 1"
  shows "window_of s' (ts @ [now]) = window_of s ts @ [now]"
  using assms by (simp add: window_of_def nat_add_distrib Suc_diff_le)

lemma window_one: "sv_restart_count s = 1 \<Longrightarrow> window_of s (ts @ [now]) = [now]"
  by (simp add: window_of_def)

lemma window_ok_links [simp]:
  "window_ok ts (s\<lparr>sv_phase := p\<rparr>) = window_ok ts s" "window_ok ts (s\<lparr>sv_worker := w\<rparr>) = window_ok ts s"
  "window_ok ts (s\<lparr>sv_stop := b\<rparr>) = window_ok ts s" "window_ok ts (s\<lparr>sv_kills := ks\<rparr>) = window_ok ts s"
  "window_ok ts (s\<lparr>sv_sleeps := sl\<rparr>) = window_ok ts s" "window_ok ts (finish c s) = window_ok ts s"
  by (simp_all add: window_ok_def window_of_def)

lemma handler_simps [simp]:
  "sv_phase (supervisor_signal_handler sig s) = sv_phase s" "sv_pid (supervisor_signal_handler sig s) = sv_pid s"
  "sv_pid_file (supervisor_signal_handler sig s) = sv_pid_file s" "sv_files (supervisor_signal_handler sig s) = sv_files s"
  "sv_restart_count (supervisor_signal_handler sig s) = sv_restart_count s"
  "sv_stop (supervisor_signal_handler sig s)" "sv_worker (supervisor_signal_handler sig s) = sv_worker s"
  "window_ok ts (supervisor_signal_handler sig s) = window_ok ts s"
  by (simp_all add: supervisor_signal_handler_def Let_def)

text \<open>A crash starts a window or is counted in the one that is open.\<close>

definition count_crash :: "int \<Rightarrow> supervisor \<Rightarrow> supervisor" where
  "count_crash now s =
     (let s = (if sv_window_start s = 0 \<or> now - sv_window_start s > DAEMON_RESTART_WINDOW_SECONDS
               then s\<lparr>sv_window_start := now, sv_restart_count := 0\<rparr> else s)
      in s\<lparr>sv_restart_count := sv_restart_count s + 1\<rparr>)"

lemma count_crash_ok:
  assumes ok: "window_ok ts s" and now: "now \<noteq> 0"
  shows "window_ok (ts @ [now]) (count_crash now s)"
proof (cases "sv_window_start s = 0 \<or> now - sv_window_start s > DAEMON_RESTART_WINDOW_SECONDS")
  case True
  then have "sv_restart_count (count_crash now s) = 1" "sv_window_start (count_crash now s) = now"
    by (simp_all add: count_crash_def)
  then show ?thesis using now
    by (simp add: window_ok_def window_one DAEMON_RESTART_WINDOW_SECONDS_def)
next
  case False
  let ?s = "count_crash now s"
  have c: "sv_restart_count ?s = sv_restart_count s + 1" "sv_window_start ?s = sv_window_start s"
    using False by (simp_all add: count_crash_def)
  have w: "window_of ?s (ts @ [now]) = window_of s ts @ [now]"
    using ok c(1) by (intro window_snoc) (auto simp: window_ok_def)
  have "sv_restart_count s \<noteq> 0" using ok False by (auto simp: window_ok_def)
  then have "window_of s ts \<noteq> []" using ok by (auto simp: window_ok_def window_of_def)
  with ok False c w \<open>sv_restart_count s \<noteq> 0\<close> show ?thesis by (auto simp: window_ok_def)
qed

lemma after_wait_cases:
  "after_wait status now s =
     (let s = s\<lparr>sv_worker := -1\<rparr> in
      if sv_stop s then finish 0 s
      else if status = Exited 0 then s\<lparr>sv_phase := Ended 0\<rparr>
      else if status = Exited EXIT_CODE_RELOAD then
        s\<lparr>sv_restart_count := 0, sv_window_start := 0, sv_sleeps := sv_sleeps s @ [1], sv_phase := LoopTest\<rparr>
      else let s = count_crash now s in
        if sv_restart_count s > DAEMON_RESTART_MAX_TIMES then finish 1 s
        else s\<lparr>sv_sleeps := sv_sleeps s @ [DAEMON_RESTART_DELAY_SECONDS], sv_phase := LoopTest\<rparr>)"
  unfolding after_wait_def count_crash_def Let_def ..

lemma count_crash_simps [simp]:
  "sv_pid_file (count_crash now s) = sv_pid_file s" "sv_pid (count_crash now s) = sv_pid s"
  "sv_files (count_crash now s) = sv_files s"
  by (simp_all add: count_crash_def Let_def)

lemma count_crash_le: "sv_restart_count s \<le> 5 \<Longrightarrow> sv_restart_count (count_crash now s) \<le> 6"
  by (simp add: count_crash_def Let_def)

lemma after_wait_ok:
  assumes ok: "sup_ok f pid ts s" and ph: "sv_phase s = Waiting p" and now: "now \<noteq> 0"
    and pid: "0 < pid" "pid \<le> 2147483647"
  shows "sup_ok f pid (crash_add (WaitReturns status now) ts) (after_wait status now s)"
proof -
  have w: "window_ok ts s" "sv_restart_count s \<le> 5" "sv_files s f = Some (int_to_string pid @ [LF])"
    "sv_pid_file s = f" "sv_pid s = pid" using ok ph by (simp_all add: sup_ok_def)
  let ?s = "count_crash now (s\<lparr>sv_worker := -1\<rparr>)"
  have c: "window_ok (ts @ [now]) ?s" "sv_restart_count ?s \<le> 6"
    using count_crash_ok [of ts "s\<lparr>sv_worker := -1\<rparr>" now] count_crash_le [of "s\<lparr>sv_worker := -1\<rparr>" now] w now
    by simp_all
  have "sv_files (finish 1 ?s) f = None"
    using finish_removes [of ?s 1] w pid by simp
  then show ?thesis using w c
    by (auto simp: after_wait_cases Let_def sup_ok_def crash_add_def daemon_constants window_ok_def window_of_def)
qed

lemma sup_step_ok:
  assumes ok: "sup_ok f pid ts s" and step: "sup_step e s = Some s'" and e: "e \<noteq> WaitFails"
    and now: "\<And>status now. e = WaitReturns status now \<Longrightarrow> now \<noteq> 0" and pid: "0 < pid" "pid \<le> 2147483647"
  shows "sup_ok f pid (crash_add e ts) s'"
proof (cases e)
  case (WaitReturns status t)
  then obtain p where "sv_phase s = Waiting p" "s' = after_wait status t s"
    using step by (auto split: sup_phase.splits)
  with after_wait_ok [OF ok _ _ pid] now WaitReturns show ?thesis by simp
next
  case (Signal sig)
  with ok step show ?thesis
    by (auto simp: sup_ok_def crash_add_def split: sup_phase.splits)
next
  case TestLoop
  with ok step show ?thesis by (auto simp: sup_ok_def crash_add_def split: if_splits)
next
  case (Fork q)
  with ok step show ?thesis by (auto simp: sup_ok_def crash_add_def split: if_splits)
next
  case SetWorker
  with ok step show ?thesis by (auto simp: sup_ok_def crash_add_def split: sup_phase.splits)
next
  case WaitEintr
  with ok step show ?thesis by (auto simp: sup_ok_def crash_add_def split: sup_phase.splits if_splits)
qed (use e in simp)

text \<open>Results of \<open>time\<close> are not zero.\<close>

fun times_set :: "sup_event list \<Rightarrow> bool" where
  "times_set [] \<longleftrightarrow> True"
| "times_set (WaitReturns status now # es) \<longleftrightarrow> now \<noteq> 0 \<and> times_set es"
| "times_set (e # es) \<longleftrightarrow> times_set es"

lemma times_set_iff: "times_set es \<longleftrightarrow> (\<forall>status now. WaitReturns status now \<in> set es \<longrightarrow> now \<noteq> 0)"
  by (induction es rule: times_set.induct) auto

lemma sup_run_ok:
  assumes "sup_ok f pid [] s0" "0 < pid" "pid \<le> 2147483647"
  shows "sup_run es s0 = Some s \<Longrightarrow> WaitFails \<notin> set es \<Longrightarrow> times_set es \<Longrightarrow> sup_ok f pid (crash_times es) s"
proof (induction es arbitrary: s rule: rev_induct)
  case Nil
  with assms show ?case by (simp add: crash_times_def)
next
  case (snoc e es)
  then obtain s1 where s1: "sup_run es s0 = Some s1" "sup_step e s1 = Some s"
    by (auto simp: sup_run_snoc bind_eq_Some_conv)
  with snoc have "sup_ok f pid (crash_times es) s1" by (auto simp: times_set_iff)
  with s1(2) snoc.prems assms(2,3) have "sup_ok f pid (crash_add e (crash_times es)) s"
    by (intro sup_step_ok [of f pid _ s1]) (auto simp: times_set_iff)
  then show ?case by (simp add: crash_times_def)
qed

lemma start_ok:
  assumes "run_daemon_supervisor alive d writable pid f files = Inr s0"
  shows "sup_ok f pid [] s0"
proof -
  obtain ex fs where c: "check_existing_supervisor alive f files = (ex, fs)" by (rule prod.exhaust)
  with assms show ?thesis
    by (auto simp: run_daemon_supervisor_def write_pid_file_def sup_ok_def window_ok_def window_of_def
        split: if_splits daemonized.splits)
qed

subsection \<open>Properties\<close>

text \<open>
  Property C17. The supervisor gives up (ends with code 1, waiting having worked) only after
  six crashes of the worker since the last reload, the sixth and all between within sixty
  seconds of the first of these six, and it has then removed its pid file.
\<close>

theorem supervisor_gives_up_on_crash_loop:
  assumes start: "run_daemon_supervisor alive d writable pid f files = Inr s0"
    and run: "sup_run es s0 = Some s" and ended: "sv_phase s = Ended 1" and waits: "WaitFails \<notin> set es"
    and clock: "times_set es" and pid: "0 < pid" "pid \<le> 2147483647"
  shows "(let w = drop (length (crash_times es) - 6) (crash_times es)
          in length w = 6 \<and> (\<forall>t \<in> set w. t \<le> hd w + 60)) \<and> sv_files s f = None"
proof -
  have "sup_ok f pid (crash_times es) s"
    by (rule sup_run_ok [OF start_ok [OF start] pid run waits clock])
  with ended show ?thesis
    by (auto simp: sup_ok_def window_ok_def window_of_def DAEMON_RESTART_WINDOW_SECONDS_def Let_def)
qed

text \<open>One turn of the loop in which the worker is killed by a fault at a given time.\<close>

definition crash_round :: "int \<Rightarrow> int \<Rightarrow> sup_event list" where
  "crash_round pid now = [TestLoop, Fork pid, SetWorker, WaitReturns (Killed (OtherSignal 11)) now]"

definition crash_loop :: "sup_event list" where
  "crash_loop = concat (map (\<lambda>i. crash_round (100 + i) (1000 + 10 * i)) [0, 1, 2, 3, 4, 5])"

definition fresh_start :: "int + supervisor" where
  "fresh_start = run_daemon_supervisor (\<lambda>_. False) IsDaemon True 42 ''a.pid'' Map.empty"

lemma crash_loop_ends:
  "\<exists>s0 s. fresh_start = Inr s0 \<and> sup_run crash_loop s0 = Some s \<and> sv_phase s = Ended 1"
proof -
  obtain s0 where s0: "fresh_start = Inr s0" "sv_phase s0 = LoopTest" "\<not> sv_stop s0" "sv_restart_count s0 = 0"
    "sv_window_start s0 = 0"
    by (auto simp: fresh_start_def run_daemon_supervisor_def check_existing_supervisor_def read_pid_file_def
        write_pid_file_def)
  have "\<exists>s. sup_run crash_loop s0 = Some s \<and> sv_phase s = Ended 1"
    using s0 by (simp add: crash_loop_def crash_round_def after_wait_def Let_def daemon_constants)
  with s0(1) show ?thesis by blast
qed

theorem supervisor_gives_up_on_crash_loop_witness:
  "\<exists>s0 s. fresh_start = Inr s0 \<and> sup_run crash_loop s0 = Some s \<and> sv_phase s = Ended 1 \<and> sv_files s ''a.pid'' = None"
proof -
  obtain s0 s where s: "fresh_start = Inr s0" "sup_run crash_loop s0 = Some s" "sv_phase s = Ended 1"
    using crash_loop_ends by blast
  have "WaitFails \<notin> set crash_loop" "times_set crash_loop"
    by (simp_all add: crash_loop_def crash_round_def)
  with supervisor_gives_up_on_crash_loop [OF s(1) [unfolded fresh_start_def] s(2,3)]
  have "sv_files s ''a.pid'' = None" by simp
  with s show ?thesis by blast
qed

lemma stopped_step:
  assumes "sup_step e s = Some s'" "sv_stop s" "sv_phase s = Waiting p \<or> (\<exists>c. sv_phase s = Ended c)"
  shows "sv_stop s' \<and> (sv_phase s' = Waiting p \<or> (\<exists>c. sv_phase s' = Ended c)) \<and>
         (sv_phase s = Waiting p \<longrightarrow> sv_phase s' \<noteq> Waiting p \<longrightarrow> e \<noteq> WaitFails \<longrightarrow> sv_phase s' = Ended 0)"
  using assms
  by (cases e) (auto simp: after_wait_def Let_def finish_def split: sup_phase.splits if_splits)

lemma ended_stuck: "sv_phase s = Ended c \<Longrightarrow> sup_step e s = None"
  by (cases e) auto

lemma stopped_run:
  "sup_run es s = Some s' \<Longrightarrow> WaitFails \<notin> set es \<Longrightarrow> sv_stop s \<Longrightarrow> sv_phase s = Waiting p \<Longrightarrow>
   sv_phase s' = Waiting p \<or> sv_phase s' = Ended 0"
proof (induction es arbitrary: s)
  case (Cons e es)
  then obtain s1 where s1: "sup_step e s = Some s1" "sup_run es s1 = Some s'" by (auto split: option.splits)
  have st: "sv_stop s1" "sv_phase s1 = Waiting p \<or> sv_phase s1 = Ended 0"
    using stopped_step [OF s1(1) Cons.prems(3), of p] Cons.prems(2,4) by auto
  show ?case
  proof (cases "sv_phase s1 = Waiting p")
    case True
    with Cons.IH [OF s1(2)] Cons.prems(2) st(1) show ?thesis by simp
  next
    case False
    with st have "sv_phase s1 = Ended 0" by simp
    with s1(2) ended_stuck [of s1 0] show ?thesis by (cases es) auto
  qed
qed simp

text \<open>
  Property C37. \<open>SIGHUP\<close>, which asks for a reload, ends the service when it is sent to the
  process of the pid file: the supervisor passes it on, sends \<open>SIGTERM\<close> after it when
  \<open>waitpid\<close> is interrupted, and whatever follows it never starts another worker; when this
  worker ends it removes the pid file and exits with 0.
\<close>

theorem reload_signal_stops_server:
  assumes "sv_phase s = Waiting p" and "sv_worker s = p" and "0 < p"
  shows "(\<exists>s'. sup_run [Signal SIGHUP, WaitEintr, WaitReturns (Exited 3) now] s = Some s' \<and>
            sv_phase s' = Ended 0 \<and> sv_kills s' = sv_kills s @ [(p, SIGHUP), (p, SIGTERM)]) \<and>
         (\<forall>es s'. sup_run (Signal SIGHUP # es) s = Some s' \<longrightarrow> WaitFails \<notin> set es \<longrightarrow>
            sv_phase s' = Waiting p \<or> sv_phase s' = Ended 0)"
proof -
  have "sup_step (Signal SIGHUP) s = Some (supervisor_signal_handler SIGHUP s)" using assms by simp
  moreover have "sv_phase s' = Waiting p \<or> sv_phase s' = Ended 0"
    if "sup_run es (supervisor_signal_handler SIGHUP s) = Some s'" "WaitFails \<notin> set es" for es s'
    using stopped_run [OF that] assms(1) by simp
  moreover have "\<exists>s'. sup_run [Signal SIGHUP, WaitEintr, WaitReturns (Exited 3) now] s = Some s' \<and>
            sv_phase s' = Ended 0 \<and> sv_kills s' = sv_kills s @ [(p, SIGHUP), (p, SIGTERM)]"
    using assms by (simp add: after_wait_def finish_def supervisor_signal_handler_def Let_def)
  ultimately show ?thesis by auto
qed

definition running_supervisor :: supervisor where
  "running_supervisor =
     \<lparr>sv_pid = 42, sv_pid_file = ''a.pid'', sv_files = [''a.pid'' \<mapsto> ''42'' @ [LF]], sv_stop = False, sv_worker = 43,
      sv_restart_count = 0, sv_window_start = 0, sv_phase = Waiting 43, sv_kills = [], sv_sleeps = []\<rparr>"

theorem reload_signal_stops_server_witness:
  "\<exists>s'. sup_run [Signal SIGHUP, WaitEintr, WaitReturns (Exited 3) 1000] running_supervisor = Some s' \<and>
        sv_phase s' = Ended 0 \<and> sv_kills s' = [(43, SIGHUP), (43, SIGTERM)]"
  using reload_signal_stops_server [of running_supervisor 43 1000] by (simp add: running_supervisor_def)

text \<open>
  A worker that ends with code 0, as it does on a \<open>SIGTERM\<close> of its own, ends the supervisor
  too, but leaves the pid file; as soon as the number belongs to some process again, the next
  start refuses.
\<close>

lemma exit_zero_leaves_pid_file:
  assumes "sv_phase s = Waiting p" and "\<not> sv_stop s" and "sv_files s f = Some (int_to_string pid @ [LF])"
    and "0 < pid" and "pid \<le> 2147483647" and "alive pid"
  shows "\<exists>s'. sup_step (WaitReturns (Exited 0) now) s = Some s' \<and> sv_phase s' = Ended 0 \<and>
              run_daemon_supervisor alive d writable pid2 f (sv_files s') = Inl 1"
proof -
  have r: "read_pid_file f (sv_files s) = pid"
    using read_pid_written [OF assms(4,5), of f "sv_files s"] assms(3) by (simp add: read_pid_file_def)
  with assms show ?thesis
    by (simp add: after_wait_def Let_def run_daemon_supervisor_def check_existing_supervisor_def process_exists_def)
qed

text \<open>
  A signal between \<open>fork\<close> and the assignment of \<open>g_supervisor_worker_pid\<close> does not reach the
  worker: the supervisor goes on to wait without having sent anything.
\<close>

lemma early_signal_not_forwarded:
  assumes "sv_phase s = HasForked p" and "sv_worker s \<le> 0"
  shows "\<exists>s'. sup_run [Signal SIGTERM, SetWorker] s = Some s' \<and> sv_phase s' = Waiting p \<and>
              sv_stop s' \<and> sv_kills s' = sv_kills s"
  using assms by (simp add: supervisor_signal_handler_def Let_def)

end
