(* ===== verification/Rate_Limiter.thy ===== *)
theory Rate_Limiter
  imports Http_Message "HOL-Library.Word"
begin

text \<open>
  The rate limiter for logins and registrations (src/service/rate_limit/auth_rate_limiter.cpp). The
  token buckets themselves belong to a library that keeps them in Redis: a bucket's answer is an
  argument that may depend on all questions asked before. Refill rates, which the program only
  compares with zero and hands on, are in millionths of a token per second.
\<close>

unbundle bit_operations_syntax

subsection \<open>Settings\<close>

record bucket_settings =
  bk_max_tokens :: int
  bk_refill_rate :: int

record redis_settings =
  rd_host :: string
  rd_port :: int
  rd_password :: string
  rd_db :: int
  rd_pool_size :: int
  rd_connect_timeout_ms :: int
  rd_socket_timeout_ms :: int
  rd_max_retries :: int

record rate_limit_settings =
  rl_enabled :: bool
  rl_redis :: redis_settings
  rl_login_ip :: bucket_settings
  rl_login_user :: bucket_settings
  rl_register_ip :: bucket_settings
  rl_fallback_mode :: string

definition default_login_ip :: bucket_settings where
  "default_login_ip = \<lparr>bk_max_tokens = 60, bk_refill_rate = 1000000\<rparr>"

definition default_login_user :: bucket_settings where
  "default_login_user = \<lparr>bk_max_tokens = 10, bk_refill_rate = 166667\<rparr>"

definition default_register_ip :: bucket_settings where
  "default_register_ip = \<lparr>bk_max_tokens = 30, bk_refill_rate = 50000\<rparr>"

definition default_redis :: redis_settings where
  "default_redis = \<lparr>rd_host = ''127.0.0.1'', rd_port = 6379, rd_password = [], rd_db = 0, rd_pool_size = 4,
     rd_connect_timeout_ms = 80, rd_socket_timeout_ms = 80, rd_max_retries = 0\<rparr>"

definition default_settings :: rate_limit_settings where
  "default_settings = \<lparr>rl_enabled = False, rl_redis = default_redis, rl_login_ip = default_login_ip,
     rl_login_user = default_login_user, rl_register_ip = default_register_ip, rl_fallback_mode = ''local''\<rparr>"

definition normalize_bucket :: "bucket_settings \<Rightarrow> bucket_settings \<Rightarrow> bucket_settings" where
  "normalize_bucket fallback b =
     \<lparr>bk_max_tokens = (if bk_max_tokens b \<le> 0 then bk_max_tokens fallback else bk_max_tokens b),
      bk_refill_rate = (if bk_refill_rate b \<le> 0 then bk_refill_rate fallback else bk_refill_rate b)\<rparr>"

definition redis_config :: "redis_settings \<Rightarrow> redis_settings" where
  "redis_config r =
     \<lparr>rd_host = (if rd_host r = [] then ''127.0.0.1'' else rd_host r), rd_port = (if rd_port r > 0 then rd_port r else 6379),
      rd_password = rd_password r, rd_db = max 0 (rd_db r), rd_pool_size = max 1 (rd_pool_size r),
      rd_connect_timeout_ms = max 1 (rd_connect_timeout_ms r), rd_socket_timeout_ms = max 1 (rd_socket_timeout_ms r),
      rd_max_retries = max 0 (rd_max_retries r)\<rparr>"

datatype fallback_mode = FailOpen | FailClosed | LocalTokenBucket

definition parse_fallback_mode :: "string \<Rightarrow> fallback_mode" where
  "parse_fallback_mode value =
     (if value = ''fail_open'' \<or> value = ''open'' then FailOpen
      else if value = ''fail_closed'' \<or> value = ''closed'' then FailClosed
      else LocalTokenBucket)"

subsection \<open>Keys\<close>

text \<open>The FNV-1a hash, in the 64 bits of \<open>unsigned long long\<close>, and its 16 hexadecimal digits.\<close>

definition stable_hash :: "string \<Rightarrow> 64 word" where
  "stable_hash value = foldl (\<lambda>hash c. (hash XOR word_of_nat (of_char c)) * 1099511628211) 1469598103934665603 value"

fun hex_digits :: "nat \<Rightarrow> nat \<Rightarrow> string" where
  "hex_digits 0 n = []"
| "hex_digits (Suc k) n = hex_digits k (n div 16) @ [hex_lower (n mod 16)]"

definition stable_hash_hex :: "string \<Rightarrow> string" where
  "stable_hash_hex value = hex_digits 16 (unat (stable_hash value))"

definition key_char :: "byte \<Rightarrow> bool" where
  "key_char c \<longleftrightarrow> isalnum c \<or> c = CHR ''.'' \<or> c = CHR '':'' \<or> c = CHR ''_'' \<or> c = CHR ''-''"

definition encode_key_char :: "byte \<Rightarrow> string" where
  "encode_key_char c = (if key_char c then [c] else [CHR ''%'', hex_lower (of_char c div 16), hex_lower (of_char c mod 16)])"

definition key_component :: "string \<Rightarrow> string" where
  "key_component value =
     (if value = [] then ''unknown''
      else let encoded = concat (map encode_key_char value) in
           if length encoded > 160 then ''h'' @ stable_hash_hex value else encoded)"

subsection \<open>The limiter\<close>

datatype rate_action = Login | Register

datatype backend_status = Healthy | Fallback | Unavailable

record remote_limiter =
  rm_redis :: redis_settings
  rm_settings :: bucket_settings
  rm_prefix :: string
  rm_fallback :: fallback_mode

record remote_result =
  rr_allowed :: bool
  rr_retry_after_ms :: int
  rr_status :: backend_status

text \<open>The answer of a bucket for a key, after the questions (prefix and key) in the list.\<close>

type_synonym bucket_answer = "remote_limiter \<Rightarrow> (string \<times> string) list \<Rightarrow> string \<Rightarrow> remote_result"

record decision =
  dc_allowed :: bool
  dc_retry_after_ms :: int
  dc_scope :: string
  dc_backend :: string

definition no_decision :: decision where
  "no_decision = \<lparr>dc_allowed = True, dc_retry_after_ms = 0, dc_scope = ''none'', dc_backend = ''disabled''\<rparr>"

record limiter =
  li_enabled :: bool
  li_login_ip :: "remote_limiter option"
  li_login_user :: "remote_limiter option"
  li_register_ip :: "remote_limiter option"

definition make_remote_limiter :: "redis_settings \<Rightarrow> bucket_settings \<Rightarrow> string \<Rightarrow> fallback_mode \<Rightarrow> remote_limiter" where
  "make_remote_limiter pool settings prefix fallback =
     \<lparr>rm_redis = pool, rm_settings = settings, rm_prefix = prefix, rm_fallback = fallback\<rparr>"

text \<open>\<open>with_redis\<close>: the build has \<open>ATLAS_WITH_REDIS_LIMITER\<close>.\<close>

definition new_limiter :: "bool \<Rightarrow> rate_limit_settings \<Rightarrow> limiter" where
  "new_limiter with_redis settings =
     (let remote = (\<lambda>bucket fallback prefix.
            if rl_enabled settings \<and> with_redis
            then Some (make_remote_limiter (redis_config (rl_redis settings)) (normalize_bucket fallback bucket) prefix
                         (parse_fallback_mode (rl_fallback_mode settings)))
            else None)
      in \<lparr>li_enabled = rl_enabled settings,
          li_login_ip = remote (rl_login_ip settings) default_login_ip ''atlas:auth:login:ip:'',
          li_login_user = remote (rl_login_user settings) default_login_user ''atlas:auth:login:user:'',
          li_register_ip = remote (rl_register_ip settings) default_register_ip ''atlas:auth:register:ip:''\<rparr>)"

fun backend_name :: "backend_status \<Rightarrow> string" where
  "backend_name Healthy = ''redis''"
| "backend_name Fallback = ''fallback''"
| "backend_name Unavailable = ''unavailable''"

definition from_remote_result :: "remote_result \<Rightarrow> string \<Rightarrow> decision" where
  "from_remote_result r scope =
     \<lparr>dc_allowed = rr_allowed r, dc_retry_after_ms = rr_retry_after_ms r, dc_scope = scope, dc_backend = backend_name (rr_status r)\<rparr>"

text \<open>\<open>allow_login_ip\<close>, \<open>allow_login_user\<close> and \<open>allow_register_ip\<close>: one question to one bucket.\<close>

definition allow_bucket :: "bucket_answer \<Rightarrow> remote_limiter option \<Rightarrow> string \<Rightarrow> string
    \<Rightarrow> (string \<times> string) list \<Rightarrow> decision \<times> (string \<times> string) list" where
  "allow_bucket ask remote scope key asked =
     (case remote of
        None \<Rightarrow> (no_decision, asked)
      | Some m \<Rightarrow> (from_remote_result (ask m asked key) scope, (rm_prefix m, key) # asked))"

definition limiter_check :: "bucket_answer \<Rightarrow> limiter \<Rightarrow> rate_action \<Rightarrow> string \<Rightarrow> string
    \<Rightarrow> (string \<times> string) list \<Rightarrow> decision \<times> (string \<times> string) list" where
  "limiter_check ask l action username ip asked =
     (if \<not> li_enabled l then (no_decision, asked)
      else case action of
        Login \<Rightarrow>
          (case allow_bucket ask (li_login_ip l) ''login_ip'' (key_component ip) asked of
             (d, asked1) \<Rightarrow>
               if \<not> dc_allowed d then (d, asked1)
               else allow_bucket ask (li_login_user l) ''login_user'' (key_component username) asked1)
      | Register \<Rightarrow> allow_bucket ask (li_register_ip l) ''register_ip'' (key_component ip) asked)"

text \<open>\<open>g_limiter\<close> is null until \<open>configure_auth_rate_limiter\<close> was called.\<close>

definition configure_auth_rate_limiter :: "bool \<Rightarrow> rate_limit_settings \<Rightarrow> limiter option" where
  "configure_auth_rate_limiter with_redis settings = Some (new_limiter with_redis settings)"

definition check_auth_rate_limit :: "bucket_answer \<Rightarrow> limiter option \<Rightarrow> rate_action \<Rightarrow> string \<Rightarrow> string
    \<Rightarrow> (string \<times> string) list \<Rightarrow> decision \<times> (string \<times> string) list" where
  "check_auth_rate_limit ask g action username ip asked =
     (case g of None \<Rightarrow> (no_decision, asked) | Some l \<Rightarrow> limiter_check ask l action username ip asked)"

subsection \<open>What the keys are\<close>

lemma length_hex_digits [simp]: "length (hex_digits k n) = k"
  by (induction k arbitrary: n) simp_all

lemma hex_lower_key: "d < 16 \<Longrightarrow> key_char (hex_lower d)"
  by (simp add: hex_lower_def key_char_def isalnum_def isdigit_def isupper_def islower_def)

lemma hex_lower_inj: "d < 16 \<Longrightarrow> e < 16 \<Longrightarrow> hex_lower d = hex_lower e \<Longrightarrow> d = e"
  by (auto simp: hex_lower_def split: if_splits)

lemma hex_digits_key: "list_all key_char (hex_digits k n)"
  by (induction k arbitrary: n) (simp_all add: hex_lower_key)

text \<open>The characters of an encoded value can be read off from the left.\<close>

lemma percent_not_key: "\<not> key_char (CHR ''%'')"
  by code_simp

lemma hex_pair_inj:
  assumes "hex_lower (of_char a div 16) = hex_lower (of_char b div 16)" "hex_lower (of_char a mod 16) = hex_lower (of_char b mod 16)"
  shows "a = (b :: byte)"
proof -
  have lt: "of_char c div 16 < (16 :: nat)" for c :: byte using of_char_less[of c] by simp
  have "of_char a div 16 = (of_char b div 16 :: nat)" "of_char a mod 16 = (of_char b mod 16 :: nat)"
    using hex_lower_inj[OF lt lt assms(1)] hex_lower_inj[OF _ _ assms(2)] by simp_all
  then have "of_char a = (of_char b :: nat)" by (metis div_mult_mod_eq)
  then show ?thesis by simp
qed

lemma encode_key_char_cancel: "encode_key_char a @ xs = encode_key_char b @ ys \<Longrightarrow> a = b \<and> xs = ys"
  using percent_not_key by (auto simp: encode_key_char_def split: if_splits dest: hex_pair_inj)

lemma encode_key_inj: "concat (map encode_key_char a) = concat (map encode_key_char b) \<Longrightarrow> a = b"
proof (induction a arbitrary: b)
  case Nil
  then show ?case by (cases b) (auto simp: encode_key_char_def split: if_splits)
next
  case (Cons x a)
  then obtain y b' where b: "b = y # b'" by (cases b) (auto simp: encode_key_char_def split: if_splits)
  then show ?case using Cons.prems encode_key_char_cancel[of x _ y] Cons.IH by auto
qed

lemma length_encode_key: "length (concat (map encode_key_char a)) \<le> 3 * length a"
  by (induction a) (auto simp: encode_key_char_def)

lemma encode_key_chars: "list_all (\<lambda>c. key_char c \<or> c = CHR ''%'') (concat (map encode_key_char a))"
  by (induction a) (auto simp: encode_key_char_def hex_lower_key)

lemma key_chars_mono: "list_all key_char xs \<Longrightarrow> list_all (\<lambda>c. key_char c \<or> c = CHR ''%'') xs"
  by (auto simp: list_all_iff)

text \<open>
  Keys of the rate limiter are well-formed and apart: a key is a short text without
  spaces, quotes and control characters, whatever a client sends as its name or address, and two
  different names of up to 53 bytes (an account name has at most 50 characters) never share one
  bucket, unless one of them is empty.
\<close>

lemma key_component_safe:
  "key_component a \<noteq> [] \<and> length (key_component a) \<le> 160 \<and> list_all (\<lambda>c. key_char c \<or> c = CHR ''%'') (key_component a)
   \<and> (a \<noteq> [] \<and> b \<noteq> [] \<and> length a \<le> 53 \<and> length b \<le> 53 \<and> key_component a = key_component b \<longrightarrow> a = b)"
proof -
  have e: "a \<noteq> [] \<Longrightarrow> concat (map encode_key_char a) \<noteq> []" by (cases a) (auto simp: encode_key_char_def)
  have h: "list_all (\<lambda>c. key_char c \<or> c = CHR ''%'') (''h'' @ stable_hash_hex a)"
    using key_chars_mono[OF hex_digits_key[of 16 "unat (stable_hash a)"]]
    by (simp add: stable_hash_hex_def key_char_def isalnum_def islower_def)
  have u: "list_all key_char ''unknown''" by code_simp
  have short: "key_component x = concat (map encode_key_char x)" if "x \<noteq> []" "length x \<le> 53" for x
    using that length_encode_key[of x] by (simp add: key_component_def Let_def)
  have "list_all (\<lambda>c. key_char c \<or> c = CHR ''%'') (key_component a)"
    using h encode_key_chars[of a] key_chars_mono[OF u] by (simp add: key_component_def Let_def)
  moreover have "key_component a \<noteq> []" "length (key_component a) \<le> 160"
    using e by (auto simp: key_component_def Let_def stable_hash_hex_def)
  ultimately show ?thesis using short encode_key_inj by metis
qed

lemma key_component_safe_witness:
  "key_component ''bob'' = ''bob'' \<and> key_component ''b b'' = ''b%20b'' \<and> key_component ''b b'' \<noteq> key_component ''b%20b''"
proof -
  have "key_component ''bob'' = ''bob''" "key_component ''b b'' = ''b%20b''" by code_simp+
  then show ?thesis using key_component_safe[of "''b b''" "''b%20b''"] by auto
qed

end
