(* ===== verification/Web_Server.thy ===== *)
theory Web_Server
  imports Reactor Conn_Runtime Thread_Pool Config Supervisor Rate_Limiter
begin

text \<open>
  The server object of \<open>app/webserver.h\<close> and \<open>app/webserver.cpp\<close> and the worker process of
  \<open>app/main.cpp\<close>: the settings taken over from the configuration, the choice of the trigger
  modes and of the queue, the check of the schema, the accept loop of the main reactor with
  its sub reactors, the dispatch of read and write events to the pool for both actor models,
  the event loop, and the exit code of the worker. Sockets, the TLS context and threads are
  set up by system calls, of which only success or failure is seen here.

  A round of the accept loop is described by what the system answers in it: the result of
  \<open>accept\<close>, the count of connections at that moment (the sub reactors change it) and the
  writes that notify the sub reactor.
\<close>

definition MAX_FD :: nat where "MAX_FD = 65536"

subsection \<open>Settings\<close>

record web_server =
  ws_port :: int
  ws_user :: string
  ws_passWord :: string
  ws_databaseName :: string
  ws_dbHost :: string
  ws_dbPort :: int
  ws_sql_num :: int
  ws_mysql_idle_timeout :: int
  ws_upload_max_bytes :: int
  ws_user_storage_quota_bytes :: int
  ws_thread_num :: int
  ws_threadpool_max_threads :: int
  ws_threadpool_idle_timeout :: int
  ws_threadpool_queue_mode :: string
  ws_log_write :: int
  ws_log_level :: int
  ws_log_split_lines :: int
  ws_log_queue_size :: int
  ws_OPT_LINGER :: int
  ws_TRIGMode :: int
  ws_close_log :: int
  ws_actormodel :: int
  ws_https_enable :: int
  ws_https_cert_file :: string
  ws_https_key_file :: string
  ws_conn_timeout :: int
  ws_sub_reactor_num :: int
  ws_next_sub_reactor :: int
  ws_LISTENTrigmode :: "int option"
  ws_CONNTrigmode :: "int option"
  ws_legacy_compat :: bool

text \<open>
  \<open>init\<close>, with the arguments that \<open>run_server_process\<close> takes from the configuration. The
  trigger modes of the sockets have no value yet.
\<close>

definition web_server_init :: "'d config \<Rightarrow> web_server" where
  "web_server_init c =
     \<lparr>ws_port = cf_PORT c, ws_user = cf_db_user c, ws_passWord = cf_db_password c,
      ws_databaseName = cf_db_name c, ws_dbHost = cf_db_host c, ws_dbPort = cf_db_port c,
      ws_sql_num = cf_sql_num c, ws_mysql_idle_timeout = cf_mysql_idle_timeout c,
      ws_upload_max_bytes = (if cf_upload_max_bytes c > 0 then cf_upload_max_bytes c else 100 * 1024 * 1024),
      ws_user_storage_quota_bytes =
        (if cf_user_storage_quota_bytes c \<ge> 0 then cf_user_storage_quota_bytes c else 1024 * 1024 * 1024),
      ws_thread_num = cf_thread_num c, ws_threadpool_max_threads = cf_threadpool_max_threads c,
      ws_threadpool_idle_timeout = cf_threadpool_idle_timeout c,
      ws_threadpool_queue_mode = cf_threadpool_queue_mode c, ws_log_write = cf_LOGWrite c,
      ws_log_level = cf_log_level c, ws_log_split_lines = cf_log_split_lines c,
      ws_log_queue_size = cf_log_queue_size c, ws_OPT_LINGER = cf_OPT_LINGER c, ws_TRIGMode = cf_TRIGMode c,
      ws_close_log = cf_close_log c, ws_actormodel = cf_actor_model c, ws_https_enable = cf_https_enable c,
      ws_https_cert_file = cf_https_cert_file c, ws_https_key_file = cf_https_key_file c,
      ws_conn_timeout = (if cf_conn_timeout c > 0 then cf_conn_timeout c else 15),
      ws_sub_reactor_num = (if cf_thread_num c > 0 then cf_thread_num c else 1), ws_next_sub_reactor = 0,
      ws_LISTENTrigmode = None, ws_CONNTrigmode = None, ws_legacy_compat = (cf_legacy_compat c \<noteq> 0)\<rparr>"

definition trig_mode :: "web_server \<Rightarrow> web_server" where
  "trig_mode w =
     (if ws_TRIGMode w = 0 then w\<lparr>ws_LISTENTrigmode := Some 0, ws_CONNTrigmode := Some 0\<rparr>
      else if ws_TRIGMode w = 1 then w\<lparr>ws_LISTENTrigmode := Some 0, ws_CONNTrigmode := Some 1\<rparr>
      else if ws_TRIGMode w = 2 then w\<lparr>ws_LISTENTrigmode := Some 1, ws_CONNTrigmode := Some 0\<rparr>
      else if ws_TRIGMode w = 3 then w\<lparr>ws_LISTENTrigmode := Some 1, ws_CONNTrigmode := Some 1\<rparr>
      else w)"

text \<open>The arguments of \<open>Log::init\<close>: file, buffer size, lines, queue, level; \<open>None\<close>: not called.\<close>

definition log_write :: "web_server \<Rightarrow> (string \<times> int \<times> int \<times> int \<times> int) option" where
  "log_write w =
     (if ws_close_log w = 0
      then Some (''./ServerLog'', 2000, ws_log_split_lines w,
                 if ws_log_write w = 1 then ws_log_queue_size w else 0, ws_log_level w)
      else None)"

text \<open>
  \<open>tls_init\<close>: the results of the calls of OpenSSL in their order; only the answer counts here.
\<close>

definition tls_init :: "web_server \<Rightarrow> bool \<Rightarrow> bool \<Rightarrow> bool \<Rightarrow> bool \<Rightarrow> bool" where
  "tls_init w ctx_ok cert_ok key_ok check_ok =
     (if ws_https_enable w = 0 then True
      else if \<not> ctx_ok then False
      else if \<not> cert_ok then False
      else if \<not> key_ok then False
      else check_ok)"

text \<open>
  The part of \<open>sql_pool\<close> after the initialisation of the pool: the lines that are logged as
  errors when a table or the migration is missing. \<open>row q\<close> is the answer of
  \<open>query_returns_row\<close> for the query.
\<close>

definition schema_table_query :: "string \<Rightarrow> string" where
  "schema_table_query table =
     take 255 (''SELECT 1 FROM information_schema.TABLES WHERE TABLE_SCHEMA=DATABASE() AND TABLE_NAME='' @
               [CHR 0x27] @ table @ [CHR 0x27] @ '' LIMIT 1'')"

definition schema_migration_query :: "string \<Rightarrow> string" where
  "schema_migration_query version =
     take 255 (''SELECT 1 FROM schema_migrations WHERE version='' @ [CHR 0x27] @ version @ [CHR 0x27] @ '' LIMIT 1'')"

definition required_tables :: "string list" where
  "required_tables =
     [''users'', ''user_sessions'', ''files'', ''folders'', ''physical_files'', ''file_shares'',
      ''operation_logs'', ''schema_migrations'']"

definition schema_errors :: "(string \<Rightarrow> bool) \<Rightarrow> string list" where
  "schema_errors row =
     (case find (\<lambda>t. \<not> row (schema_table_query t)) required_tables of
        None \<Rightarrow> []
      | Some t \<Rightarrow> [''database schema is not migrated; missing table='' @ t @ '', run scripts/migrate_db.sh'']) @
     (if row (schema_migration_query ''005_normalize_schema'') then []
      else [''database schema migration 005_normalize_schema is not applied; run scripts/migrate_db.sh''])"

text \<open>The pool of \<open>thread_pool\<close>; \<open>None\<close> is the exception of its constructor, which nothing catches.\<close>

definition start_thread_pool :: "web_server \<Rightarrow> bool list \<Rightarrow> thread_pool option" where
  "start_thread_pool w created =
     new_pool (ws_thread_num w) 10000 (ws_threadpool_max_threads w) (ws_threadpool_idle_timeout w)
       (if ws_threadpool_queue_mode w = ''lockfree'' then queue_mode_lockfree else queue_mode_mutex) created"

subsection \<open>Accepting connections\<close>

datatype accept_result = Accepted nat string | AcceptAgain | AcceptError

record accept_round =
  ar_result :: accept_result
  ar_user_count :: int
  ar_notify :: "notify_write list"

text \<open>
  The state of the main reactor: the sub reactors, the next of them, the addresses of pending
  connections, and the connections that were answered with an error text and closed.
\<close>

record acceptor =
  ac_reactors :: "reactor list"
  ac_next :: nat
  ac_addresses :: "string list"
  ac_refused :: "(nat \<times> string) list"

definition show_error :: "nat \<Rightarrow> string \<Rightarrow> acceptor \<Rightarrow> acceptor" where
  "show_error fd info a = a\<lparr>ac_refused := ac_refused a @ [(fd, info)]\<rparr>"

text \<open>
  What is done with an accepted connection: \<open>Inr (accepted, state)\<close>. \<open>m_pending_addresses\<close> has
  \<open>MAX_FD\<close> elements and is indexed without a check.
\<close>

definition take_connection ::
  "nat \<Rightarrow> string \<Rightarrow> int \<Rightarrow> notify_write list \<Rightarrow> acceptor \<Rightarrow> (bool \<times> acceptor) cxx option" where
  "take_connection fd addr user_count ws a =
     (if user_count \<ge> int MAX_FD then Some (Inr (False, show_error fd ''Internal server busy'' a))
      else if ac_next a \<ge> length (ac_reactors a) then Some (Inl OutOfBounds)
      else
        let i = ac_next a; a = a\<lparr>ac_next := (ac_next a + 1) mod length (ac_reactors a)\<rparr> in
        if fd \<ge> length (ac_addresses a) then Some (Inl OutOfBounds)
        else
          let a = a\<lparr>ac_addresses := (ac_addresses a)[fd := addr]\<rparr> in
          case dispatch ws (int fd) (ac_reactors a ! i) of
            None \<Rightarrow> None
          | Some (ok, r) \<Rightarrow>
              let a = a\<lparr>ac_reactors := (ac_reactors a)[i := r]\<rparr> in
              if ok then Some (Inr (True, a))
              else Some (Inr (False, show_error fd ''Dispatch connection failed'' a)))"

text \<open>The loop; \<open>et\<close> is \<open>m_LISTENTrigmode\<close>. \<open>None\<close>: the rounds listed do not end it.\<close>

fun dealclientdata ::
  "int \<Rightarrow> accept_round list \<Rightarrow> bool \<Rightarrow> acceptor \<Rightarrow> (bool \<times> acceptor) cxx option" where
  "dealclientdata et [] accepted a = None"
| "dealclientdata et (x # xs) accepted a =
     (case ar_result x of
        AcceptAgain \<Rightarrow> Some (Inr (accepted, a))
      | AcceptError \<Rightarrow> Some (Inr (accepted, a))
      | Accepted fd addr \<Rightarrow>
          (case take_connection fd addr (ar_user_count x) (ar_notify x) a of
             None \<Rightarrow> None
           | Some (Inl u) \<Rightarrow> Some (Inl u)
           | Some (Inr (ok, a)) \<Rightarrow>
               if et = 0 then Some (Inr (accepted \<or> ok, a)) else dealclientdata et xs (accepted \<or> ok) a))"

subsection \<open>Events of a connection\<close>

text \<open>
  \<open>ok\<close> and \<open>e\<close> are the results of \<open>SSL_accept\<close>, \<open>cs\<close> those of the creation of threads, \<open>fs\<close>
  those of \<open>recv\<close>, \<open>ks\<close> those of the calls of \<open>write\<close>. A connection is known to the pool by a
  number.
\<close>

definition tls_event :: "bool \<Rightarrow> ssl_error \<Rightarrow> http_conn \<Rightarrow> http_conn" where
  "tls_event ok e c =
     (case do_tls_handshake ok e c of (r, c) \<Rightarrow> if r < 0 then close_conn_locked c else c)"

definition dealwithread ::
  "conn_env \<Rightarrow> (http_conn \<Rightarrow> outcome) \<Rightarrow> bool \<Rightarrow> int \<Rightarrow> bool \<Rightarrow> ssl_error \<Rightarrow> bool list \<Rightarrow> recv_call list \<Rightarrow>
   nat \<Rightarrow> http_conn \<times> thread_pool \<Rightarrow> (http_conn \<times> thread_pool) cxx option" where
  "dealwithread env app et actormodel ok e cs fs req = (\<lambda>(c, p).
     if needs_tls_handshake c then Some (Inr (tls_event ok e c, p))
     else if actormodel = 1 then
       (case pool_append cs req 0 p of (b, p) \<Rightarrow> Some (Inr (if b then c else close_conn_locked c, p)))
     else case read_once env app et fs c of
       None \<Rightarrow> None
     | Some (Inl u) \<Rightarrow> Some (Inl u)
     | Some (Inr (rd, c)) \<Rightarrow>
         if rd then
           (case pool_append_p cs req p of (b, p) \<Rightarrow> Some (Inr (if b then c else close_conn_locked c, p)))
         else Some (Inr (close_conn_locked c, p)))"

definition dealwithwrite ::
  "int \<Rightarrow> bool \<Rightarrow> ssl_error \<Rightarrow> bool list \<Rightarrow> sys_call list \<Rightarrow> nat \<Rightarrow> http_conn \<times> thread_pool \<Rightarrow>
   (string \<times> http_conn \<times> thread_pool) cxx option" where
  "dealwithwrite actormodel ok e cs ks req = (\<lambda>(c, p).
     if needs_tls_handshake c then Some (Inr ([], tls_event ok e c, p))
     else if actormodel = 1 then
       (case pool_append cs req 1 p of (b, p) \<Rightarrow> Some (Inr ([], if b then c else close_conn_locked c, p)))
     else case write_conn ks c of
       None \<Rightarrow> None
     | Some (out, Inl u) \<Rightarrow> Some (Inl u)
     | Some (out, Inr (wr, c)) \<Rightarrow> Some (Inr (out, if wr then c else close_conn_locked c, p)))"

subsection \<open>The worker process\<close>

text \<open>The flags that the signal handler of the worker sets and the loops read.\<close>

record worker_flags =
  g_server_stop :: bool
  g_server_reload :: bool
  g_worker_exit_signal :: "signal_no option"

definition worker_term_handler :: "signal_no \<Rightarrow> worker_flags \<Rightarrow> worker_flags" where
  "worker_term_handler sig f =
     (if sig = SIGHUP then f\<lparr>g_server_reload := True\<rparr>
      else f\<lparr>g_server_stop := True, g_worker_exit_signal := Some sig\<rparr>)"

text \<open>
  One turn of the event loop: the signals that arrive before the test of the loop and during
  \<open>epoll_wait\<close>, and what \<open>epoll_wait\<close> returns: the ready descriptors, each event on the
  listening socket with its rounds of \<open>accept\<close>.
\<close>

datatype epoll_result = Ready "(nat \<times> accept_round list) list" | EpollEintr | EpollFailed

record loop_turn =
  lt_signals_before :: "signal_no list"
  lt_signals_in_wait :: "signal_no list"
  lt_wait :: epoll_result

fun handle_ready ::
  "int \<Rightarrow> nat \<Rightarrow> (nat \<times> accept_round list) list \<Rightarrow> acceptor \<Rightarrow> acceptor cxx option" where
  "handle_ready et listenfd [] a = Some (Inr a)"
| "handle_ready et listenfd ((fd, xs) # es) a =
     (if fd = listenfd then
        (case dealclientdata et xs False a of
           None \<Rightarrow> None
         | Some (Inl u) \<Rightarrow> Some (Inl u)
         | Some (Inr (_, a)) \<Rightarrow> handle_ready et listenfd es a)
      else handle_ready et listenfd es a)"

fun eventLoop ::
  "int \<Rightarrow> nat \<Rightarrow> loop_turn list \<Rightarrow> worker_flags \<times> acceptor \<Rightarrow> (worker_flags \<times> acceptor) cxx option" where
  "eventLoop et listenfd [] s = None"
| "eventLoop et listenfd (t # ts) (f, a) =
     (let f = fold worker_term_handler (lt_signals_before t) f in
      if g_server_stop f \<or> g_server_reload f then Some (Inr (f, a))
      else
        let f = fold worker_term_handler (lt_signals_in_wait t) f in
        case lt_wait t of
          EpollEintr \<Rightarrow> if g_server_stop f \<or> g_server_reload f then Some (Inr (f, a))
                        else eventLoop et listenfd ts (f, a)
        | EpollFailed \<Rightarrow> Some (Inr (f, a))
        | Ready es \<Rightarrow>
            (case handle_ready et listenfd es a of
               None \<Rightarrow> None
             | Some (Inl u) \<Rightarrow> Some (Inl u)
             | Some (Inr a) \<Rightarrow> eventLoop et listenfd ts (f, a)))"

text \<open>The settings of the rate limiter, with a \<open>double\<close> as a number of millionths.\<close>

definition rate_limit_settings_of :: "int config \<Rightarrow> rate_limit_settings" where
  "rate_limit_settings_of c =
     \<lparr>rl_enabled = (cf_auth_rate_limit_enabled c \<noteq> 0),
      rl_redis = \<lparr>rd_host = cf_redis_host c, rd_port = cf_redis_port c, rd_password = cf_redis_password c,
        rd_db = cf_redis_db c, rd_pool_size = cf_redis_pool_size c,
        rd_connect_timeout_ms = cf_redis_connect_timeout_ms c, rd_socket_timeout_ms = cf_redis_socket_timeout_ms c,
        rd_max_retries = cf_redis_max_retries c\<rparr>,
      rl_login_ip = \<lparr>bk_max_tokens = cf_auth_login_ip_max_tokens c, bk_refill_rate = cf_auth_login_ip_refill_rate c\<rparr>,
      rl_login_user =
        \<lparr>bk_max_tokens = cf_auth_login_user_max_tokens c, bk_refill_rate = cf_auth_login_user_refill_rate c\<rparr>,
      rl_register_ip =
        \<lparr>bk_max_tokens = cf_auth_register_ip_max_tokens c, bk_refill_rate = cf_auth_register_ip_refill_rate c\<rparr>,
      rl_fallback_mode = cf_auth_rate_limit_fallback_mode c\<rparr>"

text \<open>
  What the system answers to a worker: its pid, the results of the TLS calls, whether a
  database connection is there and what its queries return, the creation of threads, whether
  the sockets and sub reactors can be set up (assertions otherwise), the listening socket, the
  turns of the event loop, and the value a trigger mode has that was never assigned.
\<close>

record worker_env =
  we_pid :: int
  we_with_redis :: bool
  we_tls_ctx :: bool
  we_tls_cert :: bool
  we_tls_key :: bool
  we_tls_check :: bool
  we_mysql :: bool
  we_row :: "string \<Rightarrow> bool"
  we_created :: "bool list"
  we_listen_ok :: bool
  we_listenfd :: nat
  we_reactor :: reactor
  we_turns :: "loop_turn list"
  we_unassigned :: int

text \<open>The end of a worker: it returns a code, or an exception or assertion aborts it.\<close>

datatype worker_end = Exits int | Aborts

definition signal_number :: "signal_no \<Rightarrow> int" where
  "signal_number sig = (case sig of SIGTERM \<Rightarrow> 15 | SIGINT \<Rightarrow> 2 | SIGHUP \<Rightarrow> 1 | OtherSignal n \<Rightarrow> n)"

definition started_message :: "int \<Rightarrow> 'd config \<Rightarrow> int \<times> string" where
  "started_message pid c =
     (1, ''server worker started, pid='' @ int_to_string pid @ '', port='' @ int_to_string (cf_PORT c) @ '', daemon='' @
         int_to_string (cf_daemon_mode c))"

definition stopped_message :: "int \<Rightarrow> worker_flags \<Rightarrow> int \<times> string" where
  "stopped_message pid f =
     (if g_server_reload f then (2, ''server worker reload requested, pid='' @ int_to_string pid)
      else case g_worker_exit_signal f of
        Some sig \<Rightarrow> (2, ''server worker stopping by signal '' @ int_to_string (signal_number sig) @ '', pid='' @ int_to_string pid)
      | None \<Rightarrow> (1, ''server worker stopped normally, pid='' @ int_to_string pid))"

definition new_acceptor :: "web_server \<Rightarrow> reactor \<Rightarrow> acceptor" where
  "new_acceptor w r =
     \<lparr>ac_reactors = replicate (nat (ws_sub_reactor_num w)) r, ac_next = nat (ws_next_sub_reactor w),
      ac_addresses = replicate MAX_FD [], ac_refused = []\<rparr>"

text \<open>
  \<open>run_server_process\<close>: the limiter it configures, the messages it logs with their levels, and
  its end.
\<close>

definition run_server_process ::
  "int config \<Rightarrow> worker_env \<Rightarrow> (limiter option \<times> (int \<times> string) list \<times> worker_end) cxx option" where
  "run_server_process c env =
     (let limiter = configure_auth_rate_limiter (we_with_redis env) (rate_limit_settings_of c);
          w = web_server_init c;
          logs = (if cf_close_log c = 0 then [started_message (we_pid env) c] else [])
      in if \<not> tls_init w (we_tls_ctx env) (we_tls_cert env) (we_tls_key env) (we_tls_check env)
         then Some (Inr (limiter, logs, Exits 1))
         else
           let logs = logs @ (if we_mysql env \<and> ws_close_log w = 0 then map (Pair 3) (schema_errors (we_row env)) else [])
           in case start_thread_pool w (we_created env) of
                None \<Rightarrow> Some (Inr (limiter, logs, Aborts))
              | Some p \<Rightarrow>
                  (let w = trig_mode w in
                   if \<not> we_listen_ok env then Some (Inr (limiter, logs, Aborts))
                   else case eventLoop (case ws_LISTENTrigmode w of None \<Rightarrow> we_unassigned env | Some v \<Rightarrow> v)
                               (we_listenfd env) (we_turns env)
                               (\<lparr>g_server_stop = False, g_server_reload = False, g_worker_exit_signal = None\<rparr>,
                                new_acceptor w (we_reactor env)) of
                     None \<Rightarrow> None
                   | Some (Inl u) \<Rightarrow> Some (Inl u)
                   | Some (Inr (f, a)) \<Rightarrow>
                       Some (Inr (limiter, logs @ (if cf_close_log c = 0 then [stopped_message (we_pid env) f] else []),
                                  Exits (if g_server_reload f then EXIT_CODE_RELOAD else 0)))))"

text \<open>
  The choice of \<open>main\<close> after the configuration: the supervisor with its pid file, or the server
  in this process.
\<close>

definition main_program ::
  "(string \<Rightarrow> int) \<Rightarrow> config_files \<Rightarrow> environ \<Rightarrow> (char \<times> string) list \<Rightarrow> (int config \<Rightarrow> 'r) \<Rightarrow> (int config \<Rightarrow> 'r) \<Rightarrow> 'r" where
  "main_program atof files env opts supervisor server =
     (let config = main_config atof files env opts in
      if cf_daemon_mode config \<noteq> 0 then supervisor config else server config)"

lemma worker_exit_codes:
  "run_server_process c env = Some (Inr (limiter, logs, Exits code)) \<Longrightarrow> code \<in> {0, 1, 3}"
  by (auto simp: run_server_process_def Let_def EXIT_CODE_RELOAD_def
      split: if_splits option.splits sum.splits prod.splits)

text \<open>The flags and the sub reactors are set up as the accept loop needs them.\<close>

lemma new_acceptor_ok:
  "ac_next (new_acceptor (trig_mode (web_server_init c)) r) < length (ac_reactors (new_acceptor (trig_mode (web_server_init c)) r)) \<and>
   length (ac_addresses (new_acceptor (trig_mode (web_server_init c)) r)) = MAX_FD"
  by (simp add: new_acceptor_def trig_mode_def web_server_init_def)

subsection \<open>What the accept loop does\<close>

definition is_accept :: "accept_round \<Rightarrow> bool" where
  "is_accept x \<longleftrightarrow> (case ar_result x of Accepted _ _ \<Rightarrow> True | _ \<Rightarrow> False)"

definition round_fd :: "accept_round \<Rightarrow> nat" where
  "round_fd x = (case ar_result x of Accepted fd _ \<Rightarrow> fd | _ \<Rightarrow> 0)"

definition busy :: "accept_round \<Rightarrow> bool" where
  "busy x \<longleftrightarrow> ar_user_count x \<ge> int MAX_FD"

definition notified :: "accept_round \<Rightarrow> bool" where
  "notified x \<longleftrightarrow> notify_loop (ar_notify x) = Some True"

text \<open>The connections that one call takes.\<close>

definition taken :: "int \<Rightarrow> accept_round list \<Rightarrow> accept_round list" where
  "taken et xs = takeWhile is_accept (if et = 0 then take 1 xs else xs)"

text \<open>
  The reference: connections that are not refused for the limit are numbered; the \<open>j\<close>-th goes
  to the sub reactor \<open>j\<close> places after the first, around the circle.
\<close>

definition dealt_to :: "nat \<Rightarrow> nat \<Rightarrow> nat \<Rightarrow> nat \<Rightarrow> accept_round list \<Rightarrow> int list" where
  "dealt_to n first k i cs =
     map (\<lambda>(j, x). int (round_fd x))
       (filter (\<lambda>(j, x). (first + j) mod n = i \<and> notified x) (enumerate k (filter (Not \<circ> busy) cs)))"

definition refusals :: "accept_round list \<Rightarrow> (nat \<times> string) list" where
  "refusals cs =
     map (\<lambda>x. (round_fd x, if busy x then ''Internal server busy'' else ''Dispatch connection failed''))
       (filter (\<lambda>x. busy x \<or> \<not> notified x) cs)"

definition round_ok :: "accept_round \<Rightarrow> bool" where
  "round_ok x \<longleftrightarrow> round_fd x < MAX_FD \<and> notify_loop (ar_notify x) \<noteq> None"

lemma dispatch_pending:
  assumes "notify_loop ws \<noteq> None"
  shows "\<exists>r'. dispatch ws fd r = Some (notify_loop ws = Some True, r') \<and>
     m_pending_connections r' = m_pending_connections r @ (if notify_loop ws = Some True then [fd] else [])"
  using assms by (auto simp: dispatch_def split: option.splits)

lemma take_connection_busy:
  "busy x \<Longrightarrow> take_connection fd addr (ar_user_count x) ws a =
     Some (Inr (False, show_error fd ''Internal server busy'' a))"
  by (simp add: take_connection_def busy_def)

lemma take_connection_deals:
  assumes "\<not> busy x" and "ac_next a < length (ac_reactors a)" and "fd < length (ac_addresses a)"
    and "notify_loop (ar_notify x) \<noteq> None"
  shows "\<exists>a'. take_connection fd addr (ar_user_count x) (ar_notify x) a = Some (Inr (notified x, a')) \<and>
     length (ac_reactors a') = length (ac_reactors a) \<and> length (ac_addresses a') = length (ac_addresses a) \<and>
     ac_next a' = (ac_next a + 1) mod length (ac_reactors a) \<and> ac_addresses a' ! fd = addr \<and>
     ac_refused a' = ac_refused a @ (if notified x then [] else [(fd, ''Dispatch connection failed'')]) \<and>
     (\<forall>i < length (ac_reactors a). m_pending_connections (ac_reactors a' ! i) =
        m_pending_connections (ac_reactors a ! i) @ (if i = ac_next a \<and> notified x then [int fd] else []))"
proof -
  obtain r' where r': "dispatch (ar_notify x) (int fd) (ac_reactors a ! ac_next a) = Some (notified x, r')"
    "m_pending_connections r' = m_pending_connections (ac_reactors a ! ac_next a) @ (if notified x then [int fd] else [])"
    using dispatch_pending [OF assms(4), of "int fd" "ac_reactors a ! ac_next a"] unfolding notified_def by blast
  from assms r' show ?thesis
    by (auto simp: take_connection_def busy_def show_error_def Let_def nth_list_update)
qed

lemma dealt_to_Cons:
  "dealt_to n first k i (x # cs) =
     (if busy x then dealt_to n first k i cs
      else (if (first + k) mod n = i \<and> notified x then [int (round_fd x)] else []) @ dealt_to n first (Suc k) i cs)"
  by (simp add: dealt_to_def)

lemma refusals_Cons:
  "refusals (x # cs) =
     (if busy x then [(round_fd x, ''Internal server busy'')]
      else if notified x then [] else [(round_fd x, ''Dispatch connection failed'')]) @ refusals cs"
  by (simp add: refusals_def)

definition ends :: "int \<Rightarrow> accept_round list \<Rightarrow> bool" where
  "ends et xs \<longleftrightarrow> (if et = 0 then xs \<noteq> [] else \<not> list_all is_accept xs)"

lemma taken_Cons: "is_accept x \<Longrightarrow> taken et (x # xs) = x # (if et = 0 then [] else taken et xs)"
  by (simp add: taken_def)

text \<open>The state after a call, in terms of the reference.\<close>

definition dealt :: "nat \<Rightarrow> nat \<Rightarrow> accept_round list \<Rightarrow> acceptor \<Rightarrow> acceptor \<Rightarrow> bool" where
  "dealt first k cs a a' \<longleftrightarrow>
     length (ac_reactors a') = length (ac_reactors a) \<and> length (ac_addresses a') = length (ac_addresses a) \<and>
     ac_next a' = (first + k + length (filter (Not \<circ> busy) cs)) mod length (ac_reactors a) \<and>
     ac_refused a' = ac_refused a @ refusals cs \<and>
     (\<forall>i < length (ac_reactors a). m_pending_connections (ac_reactors a' ! i) =
        m_pending_connections (ac_reactors a ! i) @ dealt_to (length (ac_reactors a)) first k i cs)"

lemma dealt_Nil: "ac_next a = (first + k) mod length (ac_reactors a) \<Longrightarrow> dealt first k [] a a"
  by (simp add: dealt_def refusals_def dealt_to_def)

lemma dealt_step:
  assumes n: "ac_next a < length (ac_reactors a)" and a: "length (ac_addresses a) = MAX_FD"
    and k: "ac_next a = (first + k) mod length (ac_reactors a)"
    and x: "round_ok x" "ar_result x = Accepted fd addr"
  shows "\<exists>a1. take_connection fd addr (ar_user_count x) (ar_notify x) a = Some (Inr (\<not> busy x \<and> notified x, a1)) \<and>
     ac_next a1 < length (ac_reactors a1) \<and> length (ac_addresses a1) = MAX_FD \<and>
     ac_next a1 = (first + (if busy x then k else Suc k)) mod length (ac_reactors a1) \<and>
     (\<forall>cs a'. dealt first (if busy x then k else Suc k) cs a1 a' \<longrightarrow> dealt first k (x # cs) a a')"
proof (cases "busy x")
  case True
  have "round_fd x = fd" using x(2) by (simp add: round_fd_def)
  with True n a k show ?thesis
    by (auto simp: take_connection_busy show_error_def dealt_def refusals_Cons dealt_to_Cons)
next
  case False
  have fd: "round_fd x = fd" "fd < length (ac_addresses a)" using x a by (auto simp: round_fd_def round_ok_def)
  obtain a1 where a1: "take_connection fd addr (ar_user_count x) (ar_notify x) a = Some (Inr (notified x, a1))"
    "length (ac_reactors a1) = length (ac_reactors a)" "length (ac_addresses a1) = length (ac_addresses a)"
    "ac_next a1 = (ac_next a + 1) mod length (ac_reactors a)"
    "ac_refused a1 = ac_refused a @ (if notified x then [] else [(fd, ''Dispatch connection failed'')])"
    "\<forall>i < length (ac_reactors a). m_pending_connections (ac_reactors a1 ! i) =
        m_pending_connections (ac_reactors a ! i) @ (if i = ac_next a \<and> notified x then [int fd] else [])"
    using take_connection_deals [OF False n fd(2)] x(1) by (auto simp: round_ok_def)
  have nx: "ac_next a1 = (first + Suc k) mod length (ac_reactors a)"
    using a1(4) k by (simp add: mod_simps)
  have "dealt first k (x # cs) a a'" if "dealt first (Suc k) cs a1 a'" for cs a'
    using that False fd(1) a1(2,3,5,6) k
    by (auto simp: dealt_def refusals_Cons dealt_to_Cons)
  moreover have "0 < length (ac_reactors a)" using n by auto
  then have "ac_next a1 < length (ac_reactors a1)" using nx a1(2) by simp
  ultimately show ?thesis using False a1(1,2,3) nx a by (auto intro!: exI [of _ a1])
qed

lemma dealclientdata_deals:
  assumes "\<forall>x \<in> set xs. is_accept x \<longrightarrow> round_ok x" and "ends et xs" and "ac_next a < length (ac_reactors a)"
    and "length (ac_addresses a) = MAX_FD" and "ac_next a = (first + k) mod length (ac_reactors a)"
  shows "\<exists>a'. dealclientdata et xs acc a =
            Some (Inr (acc \<or> (\<exists>x \<in> set (taken et xs). \<not> busy x \<and> notified x), a')) \<and> dealt first k (taken et xs) a a'"
  using assms
proof (induction xs arbitrary: acc a k)
  case Nil
  then show ?case by (simp add: ends_def split: if_splits)
next
  case (Cons x xs)
  show ?case
  proof (cases "is_accept x")
    case False
    then have "taken et (x # xs) = []" by (simp add: taken_def)
    with False Cons.prems(5) show ?thesis
      by (auto simp: is_accept_def dealt_Nil split: accept_result.splits)
  next
    case True
    then obtain fd addr where x: "ar_result x = Accepted fd addr" by (auto simp: is_accept_def split: accept_result.splits)
    from True Cons.prems(1) have "round_ok x" by simp
    from dealt_step [OF Cons.prems(3,4,5) this x] obtain a1 where
      a1: "take_connection fd addr (ar_user_count x) (ar_notify x) a = Some (Inr (\<not> busy x \<and> notified x, a1))"
      "ac_next a1 < length (ac_reactors a1)" "length (ac_addresses a1) = MAX_FD"
      "ac_next a1 = (first + (if busy x then k else Suc k)) mod length (ac_reactors a1)"
      "\<And>cs a'. dealt first (if busy x then k else Suc k) cs a1 a' \<Longrightarrow> dealt first k (x # cs) a a'" by blast
    show ?thesis
    proof (cases "et = 0")
      case et: True
      then have "dealt first k (taken et (x # xs)) a a1"
        using True a1(5) [OF dealt_Nil [OF a1(4)]] by (simp add: taken_Cons)
      with et True x a1(1) show ?thesis by (simp add: taken_Cons)
    next
      case et: False
      then have "ends et xs" using True Cons.prems(2) by (simp add: ends_def)
      from Cons.IH [OF _ this a1(2,3,4), of "acc \<or> \<not> busy x \<and> notified x"] Cons.prems(1) obtain a' where
        a': "dealclientdata et xs (acc \<or> \<not> busy x \<and> notified x) a1 =
          Some (Inr ((acc \<or> \<not> busy x \<and> notified x) \<or> (\<exists>x \<in> set (taken et xs). \<not> busy x \<and> notified x), a'))"
        "dealt first (if busy x then k else Suc k) (taken et xs) a1 a'" by auto
      from a1(5) [OF a'(2)] have "dealt first k (taken et (x # xs)) a a'" using True et by (simp add: taken_Cons)
      with et True x a1(1) a'(1) show ?thesis by (auto simp: taken_Cons)
    qed
  qed
qed

subsection \<open>Properties\<close>

text \<open>
  Property C15. A call of the accept loop returns once \<open>accept\<close> has nothing more (after one
  connection in level-triggered mode), and no connection it accepts is lost or handed out
  twice: those over the limit and those whose sub reactor cannot be notified are answered
  with an error and closed, in their order; of the others the \<open>j\<close>-th is queued at the sub
  reactor \<open>j\<close> places after the one whose turn it is, around the circle, and nothing else is
  added to any queue.
\<close>

theorem accept_deals_round_robin:
  assumes "\<forall>x \<in> set xs. is_accept x \<longrightarrow> round_ok x" and "ends et xs"
    and "ac_next a < length (ac_reactors a)" and "length (ac_addresses a) = MAX_FD"
  shows "\<exists>acc a'. dealclientdata et xs False a = Some (Inr (acc, a')) \<and>
     (acc \<longleftrightarrow> (\<exists>x \<in> set (taken et xs). \<not> busy x \<and> notified x)) \<and>
     ac_refused a' = ac_refused a @ refusals (taken et xs) \<and>
     (\<forall>i < length (ac_reactors a). m_pending_connections (ac_reactors a' ! i) =
        m_pending_connections (ac_reactors a ! i) @
        dealt_to (length (ac_reactors a)) (ac_next a) 0 i (taken et xs)) \<and>
     ac_next a' = (ac_next a + length (filter (Not \<circ> busy) (taken et xs))) mod length (ac_reactors a)"
  using dealclientdata_deals [OF assms, of "ac_next a" 0 False] assms(3) by (auto simp: dealt_def)

definition sample_acceptor :: acceptor where
  "sample_acceptor =
     \<lparr>ac_reactors = replicate 2 \<lparr>m_timer_heap = \<lparr>m_heap = [], m_index = Map.empty\<rparr>, m_pending_connections = [],
        m_table = \<lparr>users = (\<lambda>_. \<lparr>u_sockfd = -1, u_last_active = 0\<rparr>), m_user_count = 0\<rparr>\<rparr>,
      ac_next = 1, ac_addresses = replicate MAX_FD [], ac_refused = []\<rparr>"

definition sample_rounds :: "accept_round list" where
  "sample_rounds =
     [\<lparr>ar_result = Accepted 7 ''a'', ar_user_count = 0, ar_notify = [Written]\<rparr>,
      \<lparr>ar_result = Accepted 8 ''b'', ar_user_count = 70000, ar_notify = [Written]\<rparr>,
      \<lparr>ar_result = Accepted 9 ''c'', ar_user_count = 1, ar_notify = [Reactor.Interrupted, Written]\<rparr>,
      \<lparr>ar_result = AcceptAgain, ar_user_count = 2, ar_notify = []\<rparr>]"

theorem accept_deals_round_robin_witness:
  "\<exists>a'. dealclientdata 1 sample_rounds False sample_acceptor = Some (Inr (True, a')) \<and>
        ac_refused a' = [(8, ''Internal server busy'')] \<and>
        m_pending_connections (ac_reactors a' ! 1) = [7] \<and> m_pending_connections (ac_reactors a' ! 0) = [9] \<and>
        ac_next a' = 1"
proof -
  have t: "taken 1 sample_rounds = take 3 sample_rounds"
    by (simp add: taken_def sample_rounds_def is_accept_def)
  have ok: "\<forall>x \<in> set sample_rounds. is_accept x \<longrightarrow> round_ok x" "ends 1 sample_rounds"
    "ac_next sample_acceptor < length (ac_reactors sample_acceptor)" "length (ac_addresses sample_acceptor) = MAX_FD"
    by (auto simp: sample_rounds_def is_accept_def round_ok_def round_fd_def MAX_FD_def ends_def sample_acceptor_def)
  obtain acc a' where a': "dealclientdata 1 sample_rounds False sample_acceptor = Some (Inr (acc, a'))"
    "acc \<longleftrightarrow> (\<exists>x \<in> set (take 3 sample_rounds). \<not> busy x \<and> notified x)"
    "ac_refused a' = ac_refused sample_acceptor @ refusals (take 3 sample_rounds)"
    "\<And>i. i < 2 \<Longrightarrow> m_pending_connections (ac_reactors a' ! i) =
        m_pending_connections (ac_reactors sample_acceptor ! i) @ dealt_to 2 1 0 i (take 3 sample_rounds)"
    "ac_next a' = (1 + length (filter (Not \<circ> busy) (take 3 sample_rounds))) mod 2"
    using accept_deals_round_robin [OF ok] by (auto simp: t sample_acceptor_def)
  then show ?thesis
    by (auto simp: sample_rounds_def sample_acceptor_def busy_def notified_def MAX_FD_def refusals_def
        round_fd_def dealt_to_def)
qed

text \<open>
  The limit is on the number of connections, not on the number of the descriptor: a
  descriptor beyond the table of addresses is written outside of it.
\<close>

lemma large_descriptor_out_of_bounds:
  assumes "ar_result x = Accepted fd addr" "fd \<ge> MAX_FD" "ar_user_count x < int MAX_FD"
    and "ac_next a < length (ac_reactors a)" "length (ac_addresses a) = MAX_FD"
  shows "dealclientdata et (x # xs) acc a = Some (Inl OutOfBounds)"
  using assms by (simp add: take_connection_def Let_def)

text \<open>
  In edge-triggered mode an error of \<open>accept\<close> for one connection (\<open>ECONNABORTED\<close>) ends the loop
  like \<open>EAGAIN\<close> does: the connections behind it stay in the backlog until the next event.
\<close>

lemma accept_error_leaves_backlog:
  assumes "ar_result x = AcceptError"
  shows "dealclientdata 1 (x # xs) acc a = Some (Inr (acc, a))"
  using assms by simp

text \<open>
  The pool is given \<open>thread_num\<close> as it is, unlike the number of sub reactors: a value that is
  not positive ends the program with an exception.
\<close>

lemma no_threads_no_server:
  assumes "cf_thread_num c \<le> 0"
  shows "start_thread_pool (web_server_init c) created = None"
  using assms by (simp add: start_thread_pool_def web_server_init_def new_pool_def)

text \<open>A value of \<open>trig_mode\<close> outside 0 to 3 leaves both trigger modes without a value.\<close>

lemma trig_mode_unset:
  assumes "cf_TRIGMode c < 0 \<or> cf_TRIGMode c > 3"
  shows "ws_LISTENTrigmode (trig_mode (web_server_init c)) = None"
  using assms by (auto simp: trig_mode_def web_server_init_def)

lemma grow_accepted [simp]: "tp_accepted (grow cs k p) = tp_accepted p"
  by (induction cs k p rule: grow.induct) (auto simp: spawn_worker_def)

lemma maybe_grow_accepted [simp]: "tp_accepted (maybe_grow cs p) = tp_accepted p"
  by (simp add: maybe_grow_def)

lemma pool_enqueue_accepted:
  "pool_enqueue cs t p = (b, p') \<Longrightarrow> tp_accepted p' = tp_accepted p @ (if b then [t] else [])"
  by (auto simp: pool_enqueue_def Let_def split: if_splits prod.splits bool.splits)

lemma tls_event_cases: "needs_tls_handshake c \<Longrightarrow> m_armed (tls_event ok e c) \<noteq> None \<or> \<not> m_sock_open (tls_event ok e c)"
  by (auto simp: tls_event_def do_tls_handshake_def needs_tls_handshake_def modfd_def close_conn_locked_def
      release_connection_memory_def split: ssl_error.splits)

lemma close_conn_locked_closes [simp]: "\<not> m_sock_open (close_conn_locked c)"
  by (simp add: close_conn_locked_def release_connection_memory_def)

text \<open>
  Property C36. After a read event the connection is not forgotten, whichever actor model is
  used and whatever the system calls answer: it is closed; or it is armed for another event of
  its TLS handshake and the pool is unchanged; or exactly one task for it has been accepted by
  the pool.
\<close>

theorem read_event_accounted:
  assumes "dealwithread env app et actormodel ok e cs fs req (c, p) = Some (Inr (c', p'))"
  shows "\<not> m_sock_open c' \<and> tp_accepted p' = tp_accepted p \<or>
         needs_tls_handshake c \<and> m_armed c' \<noteq> None \<and> p' = p \<or>
         (\<exists>t. tp_accepted p' = tp_accepted p @ [t] \<and> tk_request t = req \<and> tk_use_state t = (actormodel = 1))"
proof -
  have queue: "\<not> m_sock_open c' \<and> tp_accepted p' = tp_accepted p \<or>
      (\<exists>t. tp_accepted p' = tp_accepted p @ [t] \<and> tk_request t = req \<and> tk_use_state t = (actormodel = 1))"
    if "(case pool_enqueue cs t p of (b, p) \<Rightarrow> Some (Inr (if b then d else close_conn_locked d, p))) = Some (Inr (c', p'))"
      "tk_request t = req" "tk_use_state t = (actormodel = 1)" for t d
  proof (cases "pool_enqueue cs t p")
    case (Pair b p2)
    with that pool_enqueue_accepted [OF Pair] show ?thesis by (cases b) auto
  qed
  show ?thesis
  proof (cases "needs_tls_handshake c")
    case True
    with assms tls_event_cases [OF True, of ok e] show ?thesis by (auto simp: dealwithread_def)
  next
    case False
    have "\<not> m_sock_open c' \<and> tp_accepted p' = tp_accepted p \<or>
      (\<exists>t. tp_accepted p' = tp_accepted p @ [t] \<and> tk_request t = req \<and> tk_use_state t = (actormodel = 1))"
    proof (cases "actormodel = 1")
      case True
      show ?thesis
        by (rule queue [where t = "\<lparr>tk_request = req, tk_state = 0, tk_use_state = True\<rparr>" and d = c])
          (use True False assms in \<open>simp_all add: dealwithread_def pool_append_def\<close>)
    next
      case act: False
      with False assms obtain rd c2 where r: "read_once env app et fs c = Some (Inr (rd, c2))"
        by (auto simp: dealwithread_def split: option.splits sum.splits)
      show ?thesis
      proof (cases rd)
        case True
        show ?thesis
          by (rule queue [where t = "\<lparr>tk_request = req, tk_state = 0, tk_use_state = False\<rparr>" and d = c2])
            (use True False act r assms in \<open>simp_all add: dealwithread_def pool_append_p_def\<close>)
      next
        case rd: False
        with False act r assms show ?thesis by (auto simp: dealwithread_def)
      qed
    qed
    then show ?thesis by blast
  qed
qed

definition one_thread_pool :: thread_pool where
  "one_thread_pool = the (new_pool 1 10 1 1 queue_mode_mutex [True])"

theorem read_event_accounted_witness:
  "\<exists>p'. dealwithread sample_env (do_request sample_app) True 1 False SSL_ERROR_WANT_READ [] [] 7
            (sample_sending, one_thread_pool) = Some (Inr (sample_sending, p')) \<and>
        (\<exists>t. tp_accepted p' = [t] \<and> tk_request t = 7)"
proof -
  have n: "\<not> needs_tls_handshake sample_sending" "m_sock_open sample_sending" "tp_accepted one_thread_pool = []"
    by code_simp+
  have "fst (pool_append [] 7 0 one_thread_pool)"
    by (simp add: one_thread_pool_def new_pool_def spawn_worker_def pool_append_def pool_enqueue_def maybe_grow_def Let_def)
  then have r: "dealwithread sample_env (do_request sample_app) True 1 False SSL_ERROR_WANT_READ [] [] 7
     (sample_sending, one_thread_pool) = Some (Inr (sample_sending, snd (pool_append [] 7 0 one_thread_pool)))"
    using n(1) by (cases "pool_append [] 7 0 one_thread_pool") (simp add: dealwithread_def)
  from read_event_accounted [OF r] n show ?thesis using r by auto
qed

end
