(* ===== verification/Auth_Store.thy ===== *)
theory Auth_Store
  imports Http_Message
begin

text \<open>
  The user and session repositories (src/repo/mysql/user_repository.cpp and session_repository.cpp):
  what their SQL statements do to the tables \<open>users\<close> and \<open>user_sessions\<close> of src/docker/mysql/init.sql.

  The server is outside: whether a statement fails and with which error number, its clock, and how
  its collation compares two strings (the schema is created with a case-insensitive one) are
  arguments. Values reach the statements through \<open>escape\<close>, so a statement is about the value itself.
\<close>

record user_row =
  u_id :: int
  u_name :: string
  u_hash :: string
  u_disabled :: bool
  u_last_login :: "int option"

record session_row =
  s_token :: string
  s_user_id :: int
  s_expires :: int

record auth_db =
  db_users :: "user_row list"
  db_sessions :: "session_row list"
  db_errno :: int
  db_next_id :: int

text \<open>\<open>sq_error f\<close> is the error of the statement of the repository function \<open>f\<close>; 0 is success.\<close>

record sql_env =
  sq_error :: "string \<Rightarrow> int"
  sq_now :: int
  sq_eq :: "string \<Rightarrow> string \<Rightarrow> bool"

text \<open>A statement: it fails with its error number, or does its work.\<close>

definition statement :: "sql_env \<Rightarrow> string \<Rightarrow> (auth_db \<Rightarrow> 'a \<times> auth_db) \<Rightarrow> 'a \<Rightarrow> auth_db \<Rightarrow> 'a \<times> auth_db" where
  "statement env f work failed db =
     (if sq_error env f \<noteq> 0 then (failed, db\<lparr>db_errno := sq_error env f\<rparr>)
      else work (db\<lparr>db_errno := 0\<rparr>))"

definition active_user :: "sql_env \<Rightarrow> string \<Rightarrow> auth_db \<Rightarrow> user_row option" where
  "active_user env name db = find (\<lambda>u. sq_eq env (u_name u) name \<and> \<not> u_disabled u) (db_users db)"

definition user_of_id :: "int \<Rightarrow> auth_db \<Rightarrow> user_row option" where
  "user_of_id i db = find (\<lambda>u. u_id u = i) (db_users db)"

subsection \<open>Users\<close>

text \<open>\<open>INSERT INTO users\<close>: error 1062 when the unique key on the name is violated.\<close>

definition insert_user :: "sql_env \<Rightarrow> bool \<Rightarrow> string \<Rightarrow> string \<Rightarrow> auth_db \<Rightarrow> bool \<times> auth_db" where
  "insert_user env mysql name password_record db =
     (if \<not> mysql \<or> name = [] \<or> password_record = [] then (False, db)
      else statement env ''insert_user''
        (\<lambda>db. if list_ex (\<lambda>u. sq_eq env (u_name u) name) (db_users db) then (False, db\<lparr>db_errno := 1062\<rparr>)
               else (True, db\<lparr>db_users := db_users db @ [\<lparr>u_id = db_next_id db, u_name = name, u_hash = password_record,
                                u_disabled = False, u_last_login = None\<rparr>], db_next_id := db_next_id db + 1\<rparr>))
        False db)"

definition fetch_user_password :: "sql_env \<Rightarrow> bool \<Rightarrow> string \<Rightarrow> auth_db \<Rightarrow> string option \<times> auth_db" where
  "fetch_user_password env mysql name db =
     (if \<not> mysql \<or> name = [] then (None, db)
      else statement env ''fetch_user_password'' (\<lambda>db. (map_option u_hash (active_user env name db), db)) None db)"

definition update_user_password :: "sql_env \<Rightarrow> bool \<Rightarrow> string \<Rightarrow> string \<Rightarrow> auth_db \<Rightarrow> bool \<times> auth_db" where
  "update_user_password env mysql name password_record db =
     (if \<not> mysql \<or> name = [] \<or> password_record = [] then (False, db)
      else statement env ''update_user_password''
        (\<lambda>db. (True, db\<lparr>db_users := map (\<lambda>u. if sq_eq env (u_name u) name \<and> \<not> u_disabled u
                                                then u\<lparr>u_hash := password_record\<rparr> else u) (db_users db)\<rparr>))
        False db)"

definition fetch_all_user_passwords :: "sql_env \<Rightarrow> bool \<Rightarrow> auth_db \<Rightarrow> smap option \<times> auth_db" where
  "fetch_all_user_passwords env mysql db =
     (if \<not> mysql then (None, db)
      else statement env ''fetch_all_user_passwords''
        (\<lambda>db. (Some (fold (\<lambda>u m. if u_name u \<noteq> [] then smap_set (u_name u) (u_hash u) m else m)
                        (filter (\<lambda>u. \<not> u_disabled u) (db_users db)) []), db))
        None db)"

definition mark_user_login :: "sql_env \<Rightarrow> bool \<Rightarrow> string \<Rightarrow> auth_db \<Rightarrow> bool \<times> auth_db" where
  "mark_user_login env mysql name db =
     (if \<not> mysql \<or> name = [] then (False, db)
      else statement env ''mark_user_login''
        (\<lambda>db. (True, db\<lparr>db_users := map (\<lambda>u. if sq_eq env (u_name u) name \<and> \<not> u_disabled u
                                                then u\<lparr>u_last_login := Some (sq_now env)\<rparr> else u) (db_users db)\<rparr>))
        False db)"

subsection \<open>Sessions\<close>

text \<open>The row joined with its user: the name, the end, if the session is active.\<close>

definition find_active_session :: "sql_env \<Rightarrow> bool \<Rightarrow> string \<Rightarrow> auth_db \<Rightarrow> (string \<times> int) option \<times> auth_db" where
  "find_active_session env mysql token db =
     (if \<not> mysql \<or> token = [] then (None, db)
      else statement env ''find_active_session''
        (\<lambda>db. (case find (\<lambda>s. sq_eq env (s_token s) token \<and> s_expires s > sq_now env
                     \<and> (case user_of_id (s_user_id s) db of None \<Rightarrow> False | Some u \<Rightarrow> \<not> u_disabled u)) (db_sessions db) of
                 None \<Rightarrow> None
               | Some s \<Rightarrow> map_option (\<lambda>u. (u_name u, s_expires s)) (user_of_id (s_user_id s) db), db))
        None db)"

definition cleanup_session_token_or_expired :: "sql_env \<Rightarrow> bool \<Rightarrow> string \<Rightarrow> auth_db \<Rightarrow> bool \<times> auth_db" where
  "cleanup_session_token_or_expired env mysql token db =
     (if \<not> mysql then (False, db)
      else statement env ''cleanup_session_token_or_expired''
        (\<lambda>db. (True, db\<lparr>db_sessions := filter (\<lambda>s. \<not> (sq_eq env (s_token s) token \<or> s_expires s \<le> sq_now env)) (db_sessions db)\<rparr>))
        False db)"

text \<open>
  \<open>INSERT ... SELECT ... ON DUPLICATE KEY UPDATE\<close>: the number of affected rows is 1 for an insert, 2
  for an update that changes the row, 0 otherwise.
\<close>

definition upsert_session :: "sql_env \<Rightarrow> bool \<Rightarrow> string \<Rightarrow> string \<Rightarrow> int \<Rightarrow> auth_db \<Rightarrow> bool \<times> auth_db" where
  "upsert_session env mysql token name ttl db =
     (if \<not> mysql \<or> token = [] \<or> name = [] \<or> ttl \<le> 0 then (False, db)
      else statement env ''upsert_session''
        (\<lambda>db. case active_user env name db of
                None \<Rightarrow> (False, db)
              | Some u \<Rightarrow>
                  let row = \<lparr>s_token = token, s_user_id = u_id u, s_expires = sq_now env + ttl\<rparr> in
                  (case find (\<lambda>s. sq_eq env (s_token s) token) (db_sessions db) of
                     None \<Rightarrow> (True, db\<lparr>db_sessions := db_sessions db @ [row]\<rparr>)
                   | Some old \<Rightarrow>
                       (s_user_id old \<noteq> u_id u \<or> s_expires old \<noteq> sq_now env + ttl,
                        db\<lparr>db_sessions := map (\<lambda>s. if sq_eq env (s_token s) token
                             then s\<lparr>s_user_id := u_id u, s_expires := sq_now env + ttl\<rparr> else s) (db_sessions db)\<rparr>)))
        False db)"

text \<open>The result: whether the statement succeeded, and whether it changed a row.\<close>

definition refresh_session_row :: "sql_env \<Rightarrow> bool \<Rightarrow> string \<Rightarrow> string \<Rightarrow> int \<Rightarrow> auth_db \<Rightarrow> (bool \<times> bool) \<times> auth_db" where
  "refresh_session_row env mysql token name ttl db =
     (if \<not> mysql \<or> token = [] \<or> name = [] \<or> ttl \<le> 0 then ((False, False), db)
      else statement env ''refresh_session''
        (\<lambda>db. let hit = (\<lambda>s. sq_eq env (s_token s) token \<and> s_expires s > sq_now env
                     \<and> (case user_of_id (s_user_id s) db of None \<Rightarrow> False | Some u \<Rightarrow> sq_eq env (u_name u) name \<and> \<not> u_disabled u))
              in ((True, list_ex (\<lambda>s. hit s \<and> s_expires s \<noteq> sq_now env + ttl) (db_sessions db)),
                  db\<lparr>db_sessions := map (\<lambda>s. if hit s then s\<lparr>s_expires := sq_now env + ttl\<rparr> else s) (db_sessions db)\<rparr>))
        (False, False) db)"

definition delete_session :: "sql_env \<Rightarrow> bool \<Rightarrow> string \<Rightarrow> auth_db \<Rightarrow> bool \<times> auth_db" where
  "delete_session env mysql token db =
     (if \<not> mysql \<or> token = [] then (False, db)
      else statement env ''delete_session''
        (\<lambda>db. (True, db\<lparr>db_sessions := filter (\<lambda>s. \<not> sq_eq env (s_token s) token) (db_sessions db)\<rparr>)) False db)"

definition delete_user_sessions :: "sql_env \<Rightarrow> bool \<Rightarrow> string \<Rightarrow> string \<Rightarrow> auth_db \<Rightarrow> bool \<times> auth_db" where
  "delete_user_sessions env mysql name except_token db =
     (if \<not> mysql \<or> name = [] then (False, db)
      else statement env ''delete_user_sessions''
        (\<lambda>db. (True, db\<lparr>db_sessions := filter (\<lambda>s. \<not> ((case user_of_id (s_user_id s) db of None \<Rightarrow> False | Some u \<Rightarrow> sq_eq env (u_name u) name)
                                \<and> (except_token = [] \<or> \<not> sq_eq env (s_token s) except_token))) (db_sessions db)\<rparr>)) False db)"

subsection \<open>What the statements promise\<close>

text \<open>Rows of one user: the keys of the two tables, and no other user behind a name.\<close>

definition tables_ok :: "sql_env \<Rightarrow> auth_db \<Rightarrow> bool" where
  "tables_ok env db \<longleftrightarrow> distinct (map u_id (db_users db)) \<and> distinct (map u_name (db_users db)) \<and> distinct (map s_token (db_sessions db))"

text \<open>The session a token stands for in the tables.\<close>

definition session_of :: "sql_env \<Rightarrow> string \<Rightarrow> auth_db \<Rightarrow> session_row option" where
  "session_of env token db = find (\<lambda>s. sq_eq env (s_token s) token) (db_sessions db)"

lemma find_SomeD: "find P xs = Some x \<Longrightarrow> x \<in> set xs \<and> P x"
  by (induction xs) (auto split: if_splits)

text \<open>Once its row is deleted a token is not active any more.\<close>

lemma delete_session_ends:
  assumes "delete_session env True token db = (True, db')"
  shows "fst (find_active_session env mysql token db') = None"
proof -
  have "db_sessions db' = filter (\<lambda>s. \<not> sq_eq env (s_token s) token) (db_sessions db)"
    using assms by (auto simp: delete_session_def statement_def split: if_splits)
  then have "find (\<lambda>s. sq_eq env (s_token s) token \<and> P s) (db_sessions db') = None" for P
    by (auto simp: find_None_iff)
  then show ?thesis by (simp add: find_active_session_def statement_def)
qed

text \<open>A refresh changes the ends of sessions only.\<close>

lemma refresh_keeps_keys:
  assumes "refresh_session_row env mysql token name ttl db = (r, db')"
  shows "db_users db' = db_users db"
    "map (\<lambda>s. (s_token s, s_user_id s)) (db_sessions db') = map (\<lambda>s. (s_token s, s_user_id s)) (db_sessions db)"
  using assms by (auto simp: refresh_session_row_def statement_def Let_def split: if_splits)

end
