(* ===== verification/Drive_Store.thy ===== *)
theory Drive_Store
  imports Auth_Store File_Helpers
begin

text \<open>
  The file repository (src/repo/mysql/file_repository.cpp and mysql_utils.cpp): what its SQL
  statements do to the tables \<open>files\<close>, \<open>physical_files\<close>, \<open>folders\<close> and \<open>file_shares\<close> of
  src/docker/mysql/init.sql, with their unique and foreign keys, the cascade from a file to its
  shares and the two triggers that count the references to a physical file.

  The server is outside: the error of each statement (by its number in the sequence of statements,
  so that any statement may fail at any time), its clock, its collation and its date format are
  arguments. A statement that fails changes nothing, and a statement cut by the buffer it is
  formatted into is one that fails.
\<close>

subsection \<open>Tables\<close>

record file_row =
  fr_id :: int
  fr_user :: int
  fr_stored :: string
  fr_physical :: int
  fr_name :: string
  fr_type :: string
  fr_folder :: "int option"
  fr_size :: int
  fr_public :: bool
  fr_sha :: string
  fr_marker :: int
  fr_deleted :: "int option"
  fr_created :: int

record physical_row =
  pr_id :: int
  pr_sha :: string
  pr_stored :: string
  pr_size :: int
  pr_refs :: int

record folder_row =
  fo_id :: int
  fo_user :: int
  fo_parent :: "int option"
  fo_name :: string
  fo_marker :: int
  fo_deleted :: "int option"
  fo_created :: int

record share_row =
  sh_token :: string
  sh_file :: int
  sh_user :: int
  sh_code :: string
  sh_expires :: "int option"
  sh_max :: int
  sh_count :: int

record drive_tables =
  t_files :: "file_row list"
  t_physical :: "physical_row list"
  t_folders :: "folder_row list"
  t_shares :: "share_row list"

text \<open>
  \<open>dv_saved\<close>: the tables at the start of the open transaction. The counters of the generated keys
  are not rolled back.
\<close>

record drive_db =
  dv_auth :: auth_db
  dv_tables :: drive_tables
  dv_saved :: "drive_tables option"
  dv_next_file :: int
  dv_next_physical :: int
  dv_next_folder :: int
  dv_calls :: nat
  dv_errno :: int

record drive_env =
  dq_error :: "nat \<Rightarrow> int"
  dq_now :: "nat \<Rightarrow> int"
  dq_eq :: "string \<Rightarrow> string \<Rightarrow> bool"
  dq_less :: "string \<Rightarrow> string \<Rightarrow> bool"
  dq_date :: "int \<Rightarrow> string"

definition query :: "drive_env \<Rightarrow> 'a \<Rightarrow> (int \<Rightarrow> drive_db \<Rightarrow> 'a \<times> drive_db) \<Rightarrow> drive_db \<Rightarrow> 'a \<times> drive_db" where
  "query env failed work db =
     (let n = dv_calls db; e = dq_error env n; db1 = db\<lparr>dv_calls := Suc n, dv_errno := e\<rparr> in
      if e \<noteq> 0 then (failed, db1) else work (dq_now env n) db1)"

text \<open>A statement that only reads.\<close>

definition select_query :: "drive_env \<Rightarrow> 'a \<Rightarrow> (int \<Rightarrow> drive_db \<Rightarrow> 'a) \<Rightarrow> drive_db \<Rightarrow> 'a \<times> drive_db" where
  "select_query env failed f = query env failed (\<lambda>now db. (f now db, db))"

text \<open>\<open>user_id_subquery\<close>: the user behind a name, unless disabled.\<close>

definition user_id_subquery :: "drive_env \<Rightarrow> string \<Rightarrow> drive_db \<Rightarrow> int option" where
  "user_id_subquery env username db =
     map_option u_id (find (\<lambda>u. dq_eq env (u_name u) username \<and> \<not> u_disabled u) (db_users (dv_auth db)))"

text \<open>The join of a row with its user.\<close>

definition username_of :: "int \<Rightarrow> drive_db \<Rightarrow> string option" where
  "username_of uid db = map_option u_name (user_of_id uid (dv_auth db))"

definition nullable_id :: "int \<Rightarrow> int option" where
  "nullable_id i = (if i > 0 then Some i else None)"

definition coalesce0 :: "int option \<Rightarrow> int" where
  "coalesce0 i = (case i of None \<Rightarrow> 0 | Some n \<Rightarrow> n)"

definition begin_transaction :: "drive_env \<Rightarrow> bool \<Rightarrow> drive_db \<Rightarrow> bool \<times> drive_db" where
  "begin_transaction env mysql db =
     (if \<not> mysql then (False, db)
      else query env False (\<lambda>_ db. (True, db\<lparr>dv_saved := Some (dv_tables db)\<rparr>)) db)"

definition commit_transaction :: "drive_env \<Rightarrow> bool \<Rightarrow> drive_db \<Rightarrow> bool \<times> drive_db" where
  "commit_transaction env mysql db =
     (if \<not> mysql then (False, db)
      else query env False (\<lambda>_ db. (True, db\<lparr>dv_saved := None\<rparr>)) db)"

text \<open>
  A transaction is rolled back also when the statement fails: the connection is lost then, and the
  server ends its transaction.
\<close>

definition rollback_transaction :: "drive_env \<Rightarrow> bool \<Rightarrow> drive_db \<Rightarrow> drive_db" where
  "rollback_transaction env mysql db =
     (if \<not> mysql then db
      else db\<lparr>dv_calls := Suc (dv_calls db), dv_errno := dq_error env (dv_calls db),
              dv_tables := (case dv_saved db of None \<Rightarrow> dv_tables db | Some t \<Rightarrow> t), dv_saved := None\<rparr>)"

subsection \<open>Files\<close>

record managed_file =
  mf_id :: int
  mf_folder :: int
  mf_physical :: int
  mf_size :: int
  mf_public :: bool
  mf_is_deleted :: bool
  mf_owner :: string
  mf_stored :: string
  mf_name :: string
  mf_type :: string
  mf_sha :: string
  mf_deleted_at :: string

definition deleted_text :: "drive_env \<Rightarrow> file_row \<Rightarrow> string" where
  "deleted_text env f = (case fr_deleted f of None \<Rightarrow> [] | Some t \<Rightarrow> dq_date env t)"

definition physical_of :: "int \<Rightarrow> drive_tables \<Rightarrow> physical_row option" where
  "physical_of i t = find (\<lambda>p. pr_id p = i) (t_physical t)"

text \<open>The row joined with its user and its physical file.\<close>

definition fill_file_record_from_row :: "drive_env \<Rightarrow> file_row \<Rightarrow> drive_db \<Rightarrow> managed_file option" where
  "fill_file_record_from_row env f db =
     (case (username_of (fr_user f) db, physical_of (fr_physical f) (dv_tables db)) of
        (Some owner, Some p) \<Rightarrow>
          Some \<lparr>mf_id = fr_id f, mf_folder = coalesce0 (fr_folder f), mf_physical = fr_physical f, mf_size = fr_size f,
                mf_public = fr_public f, mf_is_deleted = (deleted_text env f \<noteq> []), mf_owner = owner,
                mf_stored = (if pr_stored p = [] then fr_stored f else pr_stored p), mf_name = fr_name f,
                mf_type = fr_type f, mf_sha = fr_sha f, mf_deleted_at = deleted_text env f\<rparr>
      | _ \<Rightarrow> None)"

definition file_of :: "int \<Rightarrow> drive_tables \<Rightarrow> file_row option" where
  "file_of i t = find (\<lambda>f. fr_id f = i) (t_files t)"

text \<open>\<open>fetch_file_record\<close>, and with its row locked \<open>fetch_file_record_for_update\<close>.\<close>

definition fetch_file_record :: "drive_env \<Rightarrow> bool \<Rightarrow> int \<Rightarrow> bool \<Rightarrow> drive_db \<Rightarrow> managed_file option \<times> drive_db" where
  "fetch_file_record env mysql file_id include_deleted db =
     (if \<not> mysql then (None, db)
      else select_query env None (\<lambda>_ db.
             case file_of file_id (dv_tables db) of
               None \<Rightarrow> None
             | Some f \<Rightarrow> if \<not> include_deleted \<and> fr_deleted f \<noteq> None then None else fill_file_record_from_row env f db) db)"

definition lock_user_for_update :: "drive_env \<Rightarrow> bool \<Rightarrow> string \<Rightarrow> drive_db \<Rightarrow> bool \<times> drive_db" where
  "lock_user_for_update env mysql owner db =
     (if \<not> mysql \<or> owner = [] then (False, db)
      else select_query env False (\<lambda>_ db. user_id_subquery env owner db \<noteq> None) db)"

definition fetch_physical_file_by_sha256 :: "drive_env \<Rightarrow> bool \<Rightarrow> string \<Rightarrow> drive_db \<Rightarrow> physical_row option \<times> drive_db" where
  "fetch_physical_file_by_sha256 env mysql sha256 db =
     (if \<not> mysql \<or> sha256 = [] then (None, db)
      else select_query env None (\<lambda>_ db.
             case find (\<lambda>p. dq_eq env (pr_sha p) sha256) (t_physical (dv_tables db)) of
               None \<Rightarrow> None
             | Some p \<Rightarrow> if pr_id p > 0 \<and> pr_stored p \<noteq> [] then Some p else None) db)"

text \<open>The errors of the server for a duplicate key, a missing parent row and a failed check.\<close>

definition ER_DUP_ENTRY :: int where "ER_DUP_ENTRY = 1062"
definition ER_NO_REFERENCED_ROW :: int where "ER_NO_REFERENCED_ROW = 1452"
definition ER_CHECK_CONSTRAINT :: int where "ER_CHECK_CONSTRAINT = 3819"

definition insert_physical_file :: "drive_env \<Rightarrow> bool \<Rightarrow> string \<Rightarrow> string \<Rightarrow> int \<Rightarrow> drive_db \<Rightarrow> int option \<times> drive_db" where
  "insert_physical_file env mysql sha256 stored_name bytes db =
     (if \<not> mysql \<or> sha256 = [] \<or> stored_name = [] then (None, db)
      else query env None (\<lambda>_ db.
        if list_ex (\<lambda>p. dq_eq env (pr_sha p) sha256 \<or> dq_eq env (pr_stored p) stored_name) (t_physical (dv_tables db))
        then (None, db\<lparr>dv_errno := ER_DUP_ENTRY\<rparr>)
        else if bytes < 0 then (None, db\<lparr>dv_errno := ER_CHECK_CONSTRAINT\<rparr>)
        else (Some (dv_next_physical db),
              db\<lparr>dv_tables := (dv_tables db)\<lparr>t_physical := t_physical (dv_tables db) @
                   [\<lparr>pr_id = dv_next_physical db, pr_sha = sha256, pr_stored = stored_name, pr_size = bytes, pr_refs = 0\<rparr>]\<rparr>,
                 dv_next_physical := dv_next_physical db + 1\<rparr>)) db)"

text \<open>The result: whether the statement succeeded, and whether it deleted the row.\<close>

definition delete_physical_file_if_unreferenced :: "drive_env \<Rightarrow> bool \<Rightarrow> int \<Rightarrow> drive_db \<Rightarrow> (bool \<times> bool) \<times> drive_db" where
  "delete_physical_file_if_unreferenced env mysql physical_id db =
     (if \<not> mysql \<or> physical_id \<le> 0 then ((True, False), db)
      else query env (False, False) (\<lambda>_ db.
        let t = dv_tables db;
            gone = (\<lambda>p. pr_id p = physical_id \<and> pr_refs p = 0 \<and> \<not> list_ex (\<lambda>f. fr_physical f = physical_id) (t_files t))
        in ((True, list_ex gone (t_physical t)),
            db\<lparr>dv_tables := t\<lparr>t_physical := filter (\<lambda>p. \<not> gone p) (t_physical t)\<rparr>\<rparr>)) db)"

text \<open>Another file of the owner under the name in the folder; \<open>None\<close> when the statement fails.\<close>

definition original_name_exists :: "drive_env \<Rightarrow> bool \<Rightarrow> string \<Rightarrow> string \<Rightarrow> int \<Rightarrow> int \<Rightarrow> drive_db \<Rightarrow> bool option \<times> drive_db" where
  "original_name_exists env mysql owner original_name folder_id ignore_file_id db =
     (if \<not> mysql \<or> owner = [] \<or> original_name = [] then (None, db)
      else select_query env None (\<lambda>_ db.
        Some (list_ex (\<lambda>f. Some (fr_user f) = user_id_subquery env owner db \<and> dq_eq env (fr_name f) original_name
                          \<and> fr_folder f = nullable_id folder_id \<and> fr_deleted f = None
                          \<and> \<not> (ignore_file_id > 0 \<and> fr_id f = ignore_file_id)) (t_files (dv_tables db)))) db)"

text \<open>The unique key of active names, and the trigger on the reference count.\<close>

definition name_taken :: "drive_env \<Rightarrow> int \<Rightarrow> int \<Rightarrow> int option \<Rightarrow> string \<Rightarrow> drive_tables \<Rightarrow> bool" where
  "name_taken env ignored user folder name t \<longleftrightarrow>
     list_ex (\<lambda>f. fr_id f \<noteq> ignored \<and> fr_user f = user \<and> coalesce0 (fr_folder f) = coalesce0 folder
                  \<and> dq_eq env (fr_name f) name \<and> fr_marker f = 0) (t_files t)"

definition count_reference :: "int \<Rightarrow> int \<Rightarrow> drive_tables \<Rightarrow> drive_tables" where
  "count_reference physical_id n t =
     t\<lparr>t_physical := map (\<lambda>p. if pr_id p = physical_id then p\<lparr>pr_refs := max (pr_refs p + n) 0\<rparr> else p) (t_physical t)\<rparr>"

record file_create =
  fc_owner :: string
  fc_stored :: string
  fc_name :: string
  fc_type :: string
  fc_physical :: int
  fc_folder :: int
  fc_size :: int
  fc_public :: bool
  fc_sha :: string

definition new_file_row :: "file_create \<Rightarrow> int \<Rightarrow> int \<Rightarrow> int \<Rightarrow> file_row" where
  "new_file_row r file_id user now =
     \<lparr>fr_id = file_id, fr_user = user, fr_stored = fc_stored r, fr_physical = fc_physical r, fr_name = fc_name r,
      fr_type = fc_type r, fr_folder = nullable_id (fc_folder r), fr_size = fc_size r, fr_public = fc_public r,
      fr_sha = fc_sha r, fr_marker = 0, fr_deleted = None, fr_created = now\<rparr>"

definition folder_of :: "int \<Rightarrow> drive_tables \<Rightarrow> folder_row option" where
  "folder_of i t = find (\<lambda>g. fo_id g = i) (t_folders t)"

definition insert_file :: "drive_env \<Rightarrow> bool \<Rightarrow> file_create \<Rightarrow> drive_db \<Rightarrow> int option \<times> drive_db" where
  "insert_file env mysql r db =
     (if \<not> mysql \<or> fc_owner r = [] \<or> fc_stored r = [] \<or> fc_name r = [] then (None, db)
      else query env None (\<lambda>now db.
        case user_id_subquery env (fc_owner r) db of
          None \<Rightarrow> (None, db)
        | Some user \<Rightarrow>
            if name_taken env 0 user (nullable_id (fc_folder r)) (fc_name r) (dv_tables db)
              then (None, db\<lparr>dv_errno := ER_DUP_ENTRY\<rparr>)
            else if physical_of (fc_physical r) (dv_tables db) = None
                 \<or> (fc_folder r > 0 \<and> folder_of (fc_folder r) (dv_tables db) = None)
              then (None, db\<lparr>dv_errno := ER_NO_REFERENCED_ROW\<rparr>)
            else if fc_size r < 0 then (None, db\<lparr>dv_errno := ER_CHECK_CONSTRAINT\<rparr>)
            else (Some (dv_next_file db),
                  db\<lparr>dv_tables := count_reference (fc_physical r) 1
                       ((dv_tables db)\<lparr>t_files := t_files (dv_tables db) @ [new_file_row r (dv_next_file db) user now]\<rparr>),
                     dv_next_file := dv_next_file db + 1\<rparr>)) db)"

definition storage_sum :: "int option \<Rightarrow> drive_tables \<Rightarrow> int" where
  "storage_sum user t = sum_list (map fr_size (filter (\<lambda>f. Some (fr_user f) = user) (t_files t)))"

definition fetch_user_storage_usage :: "drive_env \<Rightarrow> bool \<Rightarrow> string \<Rightarrow> drive_db \<Rightarrow> int option \<times> drive_db" where
  "fetch_user_storage_usage env mysql owner db =
     (if \<not> mysql \<or> owner = [] then (None, db)
      else select_query env None (\<lambda>_ db.
             Some (saturate_long (storage_sum (user_id_subquery env owner db) (dv_tables db)))) db)"

subsection \<open>Folders\<close>

text \<open>The root folder is 0 and always exists; \<open>None\<close> when the statement fails.\<close>

definition folder_exists :: "drive_env \<Rightarrow> bool \<Rightarrow> string \<Rightarrow> int \<Rightarrow> drive_db \<Rightarrow> bool option \<times> drive_db" where
  "folder_exists env mysql owner folder_id db =
     (if folder_id = 0 then (Some True, db)
      else if \<not> mysql \<or> owner = [] \<or> folder_id < 0 then (None, db)
      else select_query env None (\<lambda>_ db.
             Some (list_ex (\<lambda>g. fo_id g = folder_id \<and> Some (fo_user g) = user_id_subquery env owner db \<and> fo_deleted g = None)
                     (t_folders (dv_tables db)))) db)"

definition folder_name_exists :: "drive_env \<Rightarrow> bool \<Rightarrow> string \<Rightarrow> int \<Rightarrow> string \<Rightarrow> drive_db \<Rightarrow> bool option \<times> drive_db" where
  "folder_name_exists env mysql owner parent_id name db =
     (if \<not> mysql \<or> owner = [] \<or> name = [] \<or> parent_id < 0 then (None, db)
      else select_query env None (\<lambda>_ db.
             Some (list_ex (\<lambda>g. Some (fo_user g) = user_id_subquery env owner db \<and> fo_parent g = nullable_id parent_id
                              \<and> dq_eq env (fo_name g) name \<and> fo_deleted g = None) (t_folders (dv_tables db)))) db)"

definition folder_taken :: "drive_env \<Rightarrow> int \<Rightarrow> int option \<Rightarrow> string \<Rightarrow> drive_tables \<Rightarrow> bool" where
  "folder_taken env user parent name t \<longleftrightarrow>
     list_ex (\<lambda>g. fo_user g = user \<and> coalesce0 (fo_parent g) = coalesce0 parent \<and> dq_eq env (fo_name g) name \<and> fo_marker g = 0)
       (t_folders t)"

definition insert_folder :: "drive_env \<Rightarrow> bool \<Rightarrow> string \<Rightarrow> int \<Rightarrow> string \<Rightarrow> drive_db \<Rightarrow> int option \<times> drive_db" where
  "insert_folder env mysql owner parent_id name db =
     (if \<not> mysql \<or> owner = [] \<or> name = [] \<or> parent_id < 0 then (None, db)
      else query env None (\<lambda>now db.
        case user_id_subquery env owner db of
          None \<Rightarrow> (None, db)
        | Some user \<Rightarrow>
            if folder_taken env user (nullable_id parent_id) name (dv_tables db) then (None, db\<lparr>dv_errno := ER_DUP_ENTRY\<rparr>)
            else if parent_id > 0 \<and> folder_of parent_id (dv_tables db) = None then (None, db\<lparr>dv_errno := ER_NO_REFERENCED_ROW\<rparr>)
            else (Some (dv_next_folder db),
                  db\<lparr>dv_tables := (dv_tables db)\<lparr>t_folders := t_folders (dv_tables db) @
                       [\<lparr>fo_id = dv_next_folder db, fo_user = user, fo_parent = nullable_id parent_id, fo_name = name,
                         fo_marker = 0, fo_deleted = None, fo_created = now\<rparr>]\<rparr>,
                     dv_next_folder := dv_next_folder db + 1\<rparr>)) db)"

record folder_item =
  fd_id :: int
  fd_parent :: int
  fd_name :: string
  fd_created_at :: string

definition folder_item_of :: "drive_env \<Rightarrow> folder_row \<Rightarrow> folder_item" where
  "folder_item_of env g = \<lparr>fd_id = fo_id g, fd_parent = coalesce0 (fo_parent g), fd_name = fo_name g,
     fd_created_at = dq_date env (fo_created g)\<rparr>"

definition fetch_folder :: "drive_env \<Rightarrow> bool \<Rightarrow> string \<Rightarrow> int \<Rightarrow> drive_db \<Rightarrow> folder_item option \<times> drive_db" where
  "fetch_folder env mysql owner folder_id db =
     (if \<not> mysql \<or> owner = [] \<or> folder_id \<le> 0 then (None, db)
      else select_query env None (\<lambda>_ db.
             map_option (folder_item_of env)
               (find (\<lambda>g. fo_id g = folder_id \<and> Some (fo_user g) = user_id_subquery env owner db \<and> fo_deleted g = None)
                  (t_folders (dv_tables db)))) db)"

definition folder_has_active_children :: "drive_env \<Rightarrow> bool \<Rightarrow> string \<Rightarrow> int \<Rightarrow> drive_db \<Rightarrow> bool option \<times> drive_db" where
  "folder_has_active_children env mysql owner folder_id db =
     (if \<not> mysql \<or> owner = [] \<or> folder_id \<le> 0 then (None, db)
      else (case select_query env None (\<lambda>_ db.
               Some (list_ex (\<lambda>g. Some (fo_user g) = user_id_subquery env owner db \<and> fo_parent g = Some folder_id \<and> fo_deleted g = None)
                       (t_folders (dv_tables db)))) db of
              (None, db1) \<Rightarrow> (None, db1)
            | (Some True, db1) \<Rightarrow> (Some True, db1)
            | (Some False, db1) \<Rightarrow>
                select_query env None (\<lambda>_ db.
                  Some (list_ex (\<lambda>f. Some (fr_user f) = user_id_subquery env owner db \<and> fr_folder f = Some folder_id \<and> fr_deleted f = None)
                          (t_files (dv_tables db)))) db1))"

definition soft_delete_folder :: "drive_env \<Rightarrow> bool \<Rightarrow> string \<Rightarrow> int \<Rightarrow> drive_db \<Rightarrow> bool \<times> drive_db" where
  "soft_delete_folder env mysql owner folder_id db =
     (if \<not> mysql \<or> owner = [] \<or> folder_id \<le> 0 then (False, db)
      else query env False (\<lambda>now db.
        let t = dv_tables db;
            hit = (\<lambda>g. fo_id g = folder_id \<and> Some (fo_user g) = user_id_subquery env owner db \<and> fo_deleted g = None)
        in (list_ex hit (t_folders t),
            db\<lparr>dv_tables := t\<lparr>t_folders := map (\<lambda>g. if hit g then g\<lparr>fo_deleted := Some now, fo_marker := fo_id g\<rparr> else g)
                                              (t_folders t)\<rparr>\<rparr>)) db)"

subsection \<open>Lists\<close>

text \<open>\<open>ORDER BY\<close>: a stable insertion sort by the given order.\<close>

fun insert_by :: "('a \<Rightarrow> 'a \<Rightarrow> bool) \<Rightarrow> 'a \<Rightarrow> 'a list \<Rightarrow> 'a list" where
  "insert_by le x [] = [x]"
| "insert_by le x (y # ys) = (if le x y then x # y # ys else y # insert_by le x ys)"

definition order_by :: "('a \<Rightarrow> 'a \<Rightarrow> bool) \<Rightarrow> 'a list \<Rightarrow> 'a list" where
  "order_by le xs = foldr (insert_by le) xs []"

definition by_name :: "drive_env \<Rightarrow> ('a \<Rightarrow> string) \<Rightarrow> ('a \<Rightarrow> int) \<Rightarrow> 'a \<Rightarrow> 'a \<Rightarrow> bool" where
  "by_name env name ident a b \<longleftrightarrow> dq_less env (name a) (name b) \<or> (\<not> dq_less env (name b) (name a) \<and> ident a \<le> ident b)"

definition newest_deleted :: "file_row \<Rightarrow> file_row \<Rightarrow> bool" where
  "newest_deleted a b \<longleftrightarrow> coalesce0 (fr_deleted a) > coalesce0 (fr_deleted b)
     \<or> (coalesce0 (fr_deleted a) = coalesce0 (fr_deleted b) \<and> fr_id a \<ge> fr_id b)"

record file_item =
  fi_id :: int
  fi_folder :: int
  fi_size :: int
  fi_public :: bool
  fi_name :: string
  fi_type :: string
  fi_owner :: string
  fi_created_at :: string
  fi_deleted_at :: string

definition fetch_drive_folders :: "drive_env \<Rightarrow> bool \<Rightarrow> string \<Rightarrow> int \<Rightarrow> drive_db \<Rightarrow> folder_item list option \<times> drive_db" where
  "fetch_drive_folders env mysql owner parent_id db =
     (if \<not> mysql \<or> owner = [] \<or> parent_id < 0 then (None, db)
      else select_query env None (\<lambda>_ db.
             Some (map (folder_item_of env) (order_by (by_name env fo_name fo_id)
               (filter (\<lambda>g. Some (fo_user g) = user_id_subquery env owner db \<and> fo_parent g = nullable_id parent_id \<and> fo_deleted g = None)
                  (t_folders (dv_tables db)))))) db)"

definition fetch_drive_files :: "drive_env \<Rightarrow> bool \<Rightarrow> string \<Rightarrow> int \<Rightarrow> drive_db \<Rightarrow> file_item list option \<times> drive_db" where
  "fetch_drive_files env mysql owner folder_id db =
     (if \<not> mysql \<or> owner = [] \<or> folder_id < 0 then (None, db)
      else select_query env None (\<lambda>_ db.
             Some (map (\<lambda>f. \<lparr>fi_id = fr_id f, fi_folder = coalesce0 (fr_folder f), fi_size = fr_size f, fi_public = fr_public f,
                              fi_name = fr_name f, fi_type = fr_type f, fi_owner = [], fi_created_at = dq_date env (fr_created f),
                              fi_deleted_at = []\<rparr>)
               (order_by (by_name env fr_name fr_id)
               (filter (\<lambda>f. Some (fr_user f) = user_id_subquery env owner db \<and> fr_folder f = nullable_id folder_id \<and> fr_deleted f = None)
                  (t_files (dv_tables db)))))) db)"

definition trash_rows :: "drive_env \<Rightarrow> string \<Rightarrow> drive_db \<Rightarrow> file_row list" where
  "trash_rows env owner db =
     order_by newest_deleted
       (filter (\<lambda>f. Some (fr_user f) = user_id_subquery env owner db \<and> fr_deleted f \<noteq> None) (t_files (dv_tables db)))"

definition fetch_trash_files :: "drive_env \<Rightarrow> bool \<Rightarrow> string \<Rightarrow> drive_db \<Rightarrow> file_item list option \<times> drive_db" where
  "fetch_trash_files env mysql owner db =
     (if \<not> mysql \<or> owner = [] then (None, db)
      else select_query env None (\<lambda>_ db.
             Some (map (\<lambda>f. \<lparr>fi_id = fr_id f, fi_folder = coalesce0 (fr_folder f), fi_size = fr_size f, fi_public = False,
                              fi_name = fr_name f, fi_type = fr_type f, fi_owner = [], fi_created_at = dq_date env (fr_created f),
                              fi_deleted_at = deleted_text env f\<rparr>) (trash_rows env owner db))) db)"

definition fetch_trash_file_ids :: "drive_env \<Rightarrow> bool \<Rightarrow> string \<Rightarrow> drive_db \<Rightarrow> int list option \<times> drive_db" where
  "fetch_trash_file_ids env mysql owner db =
     (if \<not> mysql \<or> owner = [] then (None, db)
      else select_query env None (\<lambda>_ db. Some (filter (\<lambda>i. i > 0) (map fr_id (trash_rows env owner db)))) db)"

text \<open>The ids of a page and the cursor of the next one, from the rows of the query.\<close>

definition fetch_page_ids :: "int \<Rightarrow> int list \<Rightarrow> int list \<times> int" where
  "fetch_page_ids limit rows =
     (take (nat limit) rows, if nat limit < length rows then rows ! nat limit else 0)"

definition fetch_public_file_page_ids :: "drive_env \<Rightarrow> bool \<Rightarrow> int \<Rightarrow> int \<Rightarrow> drive_db \<Rightarrow> (int list \<times> int) option \<times> drive_db" where
  "fetch_public_file_page_ids env mysql cursor limit db =
     (if \<not> mysql \<or> limit \<le> 0 then (None, db)
      else select_query env None (\<lambda>_ db.
             Some (fetch_page_ids limit (take (nat (limit + 1)) (order_by (\<ge>) (map fr_id
               (filter (\<lambda>f. fr_public f \<and> fr_deleted f = None \<and> (cursor > 0 \<longrightarrow> fr_id f < cursor)) (t_files (dv_tables db)))))))) db)"

definition fetch_public_file_list :: "drive_env \<Rightarrow> bool \<Rightarrow> int list \<Rightarrow> drive_db \<Rightarrow> file_item list option \<times> drive_db" where
  "fetch_public_file_list env mysql ids db =
     (if \<not> mysql then (None, db)
      else if ids = [] then (Some [], db)
      else select_query env None (\<lambda>_ db.
             Some (List.map_filter (\<lambda>f. map_option (\<lambda>owner. \<lparr>fi_id = fr_id f, fi_folder = 0, fi_size = fr_size f, fi_public = False,
                              fi_name = fr_name f, fi_type = fr_type f, fi_owner = owner, fi_created_at = dq_date env (fr_created f),
                              fi_deleted_at = []\<rparr>) (username_of (fr_user f) db))
               (order_by (\<lambda>a b. fr_id a \<ge> fr_id b) (filter (\<lambda>f. fr_id f \<in> set ids) (t_files (dv_tables db)))))) db)"

subsection \<open>Recycle bin and visibility\<close>

definition repo_soft_delete_file :: "drive_env \<Rightarrow> bool \<Rightarrow> int \<Rightarrow> drive_db \<Rightarrow> bool \<times> drive_db" where
  "repo_soft_delete_file env mysql file_id db =
     (if \<not> mysql then (False, db)
      else query env False (\<lambda>now db.
        (True, db\<lparr>dv_tables := (dv_tables db)\<lparr>t_files := map (\<lambda>f. if fr_id f = file_id \<and> fr_deleted f = None
             then f\<lparr>fr_deleted := Some now, fr_marker := fr_id f, fr_public := False\<rparr> else f) (t_files (dv_tables db))\<rparr>\<rparr>)) db)"

definition in_trash :: "drive_env \<Rightarrow> string \<Rightarrow> int \<Rightarrow> drive_db \<Rightarrow> file_row \<Rightarrow> bool" where
  "in_trash env owner file_id db f \<longleftrightarrow> fr_id f = file_id \<and> Some (fr_user f) = user_id_subquery env owner db \<and> fr_deleted f \<noteq> None"

definition restored_row :: "int \<Rightarrow> string \<Rightarrow> file_row \<Rightarrow> file_row" where
  "restored_row folder_id original_name f =
     f\<lparr>fr_deleted := None, fr_marker := 0, fr_folder := nullable_id folder_id, fr_name := original_name, fr_public := False\<rparr>"

definition repo_restore_file :: "drive_env \<Rightarrow> bool \<Rightarrow> string \<Rightarrow> int \<Rightarrow> int \<Rightarrow> string \<Rightarrow> drive_db \<Rightarrow> bool \<times> drive_db" where
  "repo_restore_file env mysql owner file_id folder_id original_name db =
     (if \<not> mysql \<or> owner = [] \<or> file_id \<le> 0 \<or> folder_id < 0 \<or> original_name = [] then (False, db)
      else query env False (\<lambda>_ db.
        let t = dv_tables db; hit = in_trash env owner file_id db
        in if list_ex (\<lambda>f. hit f \<and> name_taken env file_id (fr_user f) (nullable_id folder_id) original_name t) (t_files t)
             then (False, db\<lparr>dv_errno := ER_DUP_ENTRY\<rparr>)
           else if list_ex hit (t_files t) \<and> folder_id > 0 \<and> folder_of folder_id t = None
             then (False, db\<lparr>dv_errno := ER_NO_REFERENCED_ROW\<rparr>)
           else (list_ex hit (t_files t),
                 db\<lparr>dv_tables := t\<lparr>t_files := map (\<lambda>f. if hit f then restored_row folder_id original_name f else f) (t_files t)\<rparr>\<rparr>)) db)"

text \<open>The row goes, its shares with it, and the trigger counts the reference down.\<close>

definition drop_file_rows :: "(file_row \<Rightarrow> bool) \<Rightarrow> drive_tables \<Rightarrow> drive_tables" where
  "drop_file_rows hit t =
     foldr (\<lambda>f. count_reference (fr_physical f) (- 1)) (filter hit (t_files t))
       (t\<lparr>t_files := filter (\<lambda>f. \<not> hit f) (t_files t),
          t_shares := filter (\<lambda>s. \<not> list_ex (\<lambda>f. hit f \<and> fr_id f = sh_file s) (t_files t)) (t_shares t)\<rparr>)"

definition repo_hard_delete_file :: "drive_env \<Rightarrow> bool \<Rightarrow> string \<Rightarrow> int \<Rightarrow> drive_db \<Rightarrow> bool \<times> drive_db" where
  "repo_hard_delete_file env mysql owner file_id db =
     (if \<not> mysql \<or> owner = [] \<or> file_id \<le> 0 then (False, db)
      else query env False (\<lambda>_ db.
        let hit = in_trash env owner file_id db
        in (list_ex hit (t_files (dv_tables db)), db\<lparr>dv_tables := drop_file_rows hit (dv_tables db)\<rparr>)) db)"

definition repo_update_file_visibility :: "drive_env \<Rightarrow> bool \<Rightarrow> int \<Rightarrow> bool \<Rightarrow> drive_db \<Rightarrow> bool \<times> drive_db" where
  "repo_update_file_visibility env mysql file_id is_public db =
     (if \<not> mysql then (False, db)
      else query env False (\<lambda>_ db.
        (True, db\<lparr>dv_tables := (dv_tables db)\<lparr>t_files := map (\<lambda>f. if fr_id f = file_id then f\<lparr>fr_public := is_public\<rparr> else f)
                                  (t_files (dv_tables db))\<rparr>\<rparr>)) db)"

subsection \<open>Shares\<close>

record share_create =
  sc_token :: string
  sc_file :: int
  sc_owner :: string
  sc_code :: string
  sc_expires_in :: int
  sc_max :: int

definition ensure_file_shares_table :: "bool \<Rightarrow> bool" where
  "ensure_file_shares_table mysql = mysql"

definition insert_file_share :: "drive_env \<Rightarrow> bool \<Rightarrow> share_create \<Rightarrow> drive_db \<Rightarrow> bool \<times> drive_db" where
  "insert_file_share env mysql r db =
     (if \<not> mysql \<or> sc_token r = [] \<or> sc_file r \<le> 0 \<or> sc_owner r = [] \<or> sc_expires_in r < 0 \<or> sc_max r < 0 then (False, db)
      else if \<not> ensure_file_shares_table mysql then (False, db)
      else query env False (\<lambda>now db.
        case user_id_subquery env (sc_owner r) db of
          None \<Rightarrow> (False, db)
        | Some user \<Rightarrow>
            if list_ex (\<lambda>s. dq_eq env (sh_token s) (sc_token r)) (t_shares (dv_tables db)) then (False, db\<lparr>dv_errno := ER_DUP_ENTRY\<rparr>)
            else if file_of (sc_file r) (dv_tables db) = None then (False, db\<lparr>dv_errno := ER_NO_REFERENCED_ROW\<rparr>)
            else (True, db\<lparr>dv_tables := (dv_tables db)\<lparr>t_shares := t_shares (dv_tables db) @
                    [\<lparr>sh_token = sc_token r, sh_file = sc_file r, sh_user = user, sh_code = sc_code r,
                      sh_expires = (if sc_expires_in r > 0 then Some (now + sc_expires_in r) else None),
                      sh_max = sc_max r, sh_count = 0\<rparr>]\<rparr>\<rparr>)) db)"

record share_record =
  sr_token :: string
  sr_file_id :: int
  sr_owner :: string
  sr_code :: string
  sr_expires_at :: string
  sr_max :: int
  sr_count :: int
  sr_is_expired :: bool
  sr_file :: managed_file

definition share_expired :: "int \<Rightarrow> share_row \<Rightarrow> bool" where
  "share_expired now s \<longleftrightarrow> (case sh_expires s of None \<Rightarrow> False | Some e \<Rightarrow> e \<le> now)"

text \<open>The row joined with its user, its file and the owner of the file. The physical id is not read.\<close>

definition fetch_file_share :: "drive_env \<Rightarrow> bool \<Rightarrow> string \<Rightarrow> drive_db \<Rightarrow> share_record option \<times> drive_db" where
  "fetch_file_share env mysql token db =
     (if \<not> mysql \<or> token = [] then (None, db)
      else if \<not> ensure_file_shares_table mysql then (None, db)
      else select_query env None (\<lambda>now db.
        case find (\<lambda>s. dq_eq env (sh_token s) token) (t_shares (dv_tables db)) of
          None \<Rightarrow> None
        | Some s \<Rightarrow>
            (case (username_of (sh_user s) db, file_of (sh_file s) (dv_tables db)) of
               (Some sharer, Some f) \<Rightarrow>
                 map_option (\<lambda>owner. \<lparr>sr_token = sh_token s, sr_file_id = sh_file s, sr_owner = sharer, sr_code = sh_code s,
                     sr_expires_at = (case sh_expires s of None \<Rightarrow> [] | Some e \<Rightarrow> dq_date env e), sr_max = sh_max s,
                     sr_count = sh_count s, sr_is_expired = share_expired now s,
                     sr_file = \<lparr>mf_id = sh_file s, mf_folder = coalesce0 (fr_folder f), mf_physical = 0, mf_size = fr_size f,
                       mf_public = fr_public f, mf_is_deleted = (fr_deleted f \<noteq> None), mf_owner = owner, mf_stored = fr_stored f,
                       mf_name = fr_name f, mf_type = fr_type f, mf_sha = fr_sha f, mf_deleted_at = deleted_text env f\<rparr>\<rparr>)
                   (username_of (fr_user f) db)
             | _ \<Rightarrow> None)) db)"

definition increment_file_share_download_count :: "drive_env \<Rightarrow> bool \<Rightarrow> string \<Rightarrow> drive_db \<Rightarrow> bool \<times> drive_db" where
  "increment_file_share_download_count env mysql token db =
     (if \<not> mysql \<or> token = [] then (False, db)
      else if \<not> ensure_file_shares_table mysql then (False, db)
      else query env False (\<lambda>now db.
        let t = dv_tables db;
            hit = (\<lambda>s. dq_eq env (sh_token s) token \<and> \<not> share_expired now s \<and> (sh_max s = 0 \<or> sh_count s < sh_max s))
        in (length (filter hit (t_shares t)) = 1,
            db\<lparr>dv_tables := t\<lparr>t_shares := map (\<lambda>s. if hit s then s\<lparr>sh_count := sh_count s + 1\<rparr> else s) (t_shares t)\<rparr>\<rparr>)) db)"

subsection \<open>The well-formed store\<close>

text \<open>
  Every file row is linked to a physical row with its digest and its stored name; the reference
  counts are the numbers of file rows; no two active files of a user share a name in a folder.
  \<open>nf\<close> and \<open>np\<close> bound the keys in use.
\<close>

definition hex_text :: "string \<Rightarrow> bool" where
  "hex_text s \<longleftrightarrow> s \<noteq> [] \<and> list_all (\<lambda>c. isdigit c \<or> c \<in> set ''abcdef'') s"

definition refs :: "int \<Rightarrow> file_row list \<Rightarrow> int" where
  "refs i fs = int (length (filter (\<lambda>f. fr_physical f = i) fs))"

definition file_ok :: "int \<Rightarrow> file_row \<Rightarrow> bool" where
  "file_ok nf f \<longleftrightarrow> 0 < fr_id f \<and> fr_id f < nf \<and> 0 \<le> fr_size f \<and> fr_marker f = (if fr_deleted f = None then 0 else fr_id f)"

definition physical_ok :: "int \<Rightarrow> physical_row \<Rightarrow> bool" where
  "physical_ok np p \<longleftrightarrow> 0 < pr_id p \<and> pr_id p < np \<and> pr_stored p \<noteq> [] \<and> CHR ''/'' \<notin> set (pr_stored p) \<and> hex_text (pr_sha p)"

definition linked :: "file_row \<Rightarrow> physical_row \<Rightarrow> bool" where
  "linked f p \<longleftrightarrow> pr_id p = fr_physical f \<and> pr_sha p = fr_sha f \<and> pr_stored p = fr_stored f"

definition same_place :: "drive_env \<Rightarrow> file_row \<Rightarrow> file_row \<Rightarrow> bool" where
  "same_place env f g \<longleftrightarrow> fr_deleted f = None \<and> fr_deleted g = None \<and> fr_user f = fr_user g
     \<and> coalesce0 (fr_folder f) = coalesce0 (fr_folder g) \<and> dq_eq env (fr_name f) (fr_name g)"

definition names_ok :: "drive_env \<Rightarrow> file_row list \<Rightarrow> bool" where
  "names_ok env fs \<longleftrightarrow> (\<forall>f\<in>set fs. \<forall>g\<in>set fs. same_place env f g \<longrightarrow> fr_id f = fr_id g)"

definition store_ok :: "drive_env \<Rightarrow> int \<Rightarrow> int \<Rightarrow> file_row list \<Rightarrow> physical_row list \<Rightarrow> bool" where
  "store_ok env nf np fs ps \<longleftrightarrow> distinct (map fr_id fs) \<and> distinct (map pr_id ps) \<and> distinct (map pr_stored ps)
     \<and> (\<forall>f\<in>set fs. file_ok nf f \<and> (\<exists>p\<in>set ps. linked f p))
     \<and> (\<forall>p\<in>set ps. physical_ok np p \<and> pr_refs p = refs (pr_id p) fs)
     \<and> names_ok env fs"

text \<open>What is documented of the collation: an equivalence that tells lower case hexadecimal texts apart.\<close>

definition collation_ok :: "drive_env \<Rightarrow> bool" where
  "collation_ok env \<longleftrightarrow> (\<forall>a. dq_eq env a a) \<and> (\<forall>a b. dq_eq env a b \<longrightarrow> dq_eq env b a)
     \<and> (\<forall>a b c. dq_eq env a b \<longrightarrow> dq_eq env b c \<longrightarrow> dq_eq env a c)
     \<and> (\<forall>a b. hex_text a \<longrightarrow> hex_text b \<longrightarrow> dq_eq env a b \<longrightarrow> a = b)"

lemma collation_refl: "collation_ok env \<Longrightarrow> dq_eq env a a"
  unfolding collation_ok_def by blast

lemma collation_sym: "collation_ok env \<Longrightarrow> dq_eq env a b \<Longrightarrow> dq_eq env b a"
  unfolding collation_ok_def by blast

lemma collation_hex: "collation_ok env \<Longrightarrow> dq_eq env a b \<Longrightarrow> hex_text a \<Longrightarrow> hex_text b \<Longrightarrow> a = b"
  unfolding collation_ok_def by blast

lemma store_okD:
  assumes "store_ok env nf np fs ps"
  shows "distinct (map fr_id fs)" "distinct (map pr_id ps)" "distinct (map pr_stored ps)"
    "f \<in> set fs \<Longrightarrow> file_ok nf f" "f \<in> set fs \<Longrightarrow> \<exists>p\<in>set ps. linked f p"
    "p \<in> set ps \<Longrightarrow> physical_ok np p" "p \<in> set ps \<Longrightarrow> pr_refs p = refs (pr_id p) fs" "names_ok env fs"
  using assms by (auto simp: store_ok_def)

lemma store_ok_mono:
  "store_ok env nf np fs ps \<Longrightarrow> nf \<le> nf' \<Longrightarrow> np \<le> np' \<Longrightarrow> store_ok env nf' np' fs ps"
  by (fastforce simp: store_ok_def file_ok_def physical_ok_def)

lemma refs_fresh:
  assumes "store_ok env nf np fs ps" "np \<le> i"
  shows "refs i fs = 0"
proof -
  have "fr_physical f \<noteq> i" if "f \<in> set fs" for f
    using store_okD(5,6)[OF assms(1)] assms(2) that by (fastforce simp: linked_def physical_ok_def)
  then show ?thesis by (simp add: refs_def filter_empty_conv)
qed

lemma store_ok_add_physical:
  assumes ok: "store_ok env nf np fs ps" and p: "pr_id p = np" "physical_ok (np + 1) p" "pr_refs p = 0"
    and new: "pr_stored p \<notin> pr_stored ` set ps"
  shows "store_ok env nf (np + 1) fs (ps @ [p])"
proof -
  have "pr_id q < np" if "q \<in> set ps" for q using store_okD(6)[OF ok that] by (simp add: physical_ok_def)
  then have "np \<notin> pr_id ` set ps" by force
  then show ?thesis
    using ok new p refs_fresh[OF ok, of np] store_ok_mono[OF ok, of nf "np + 1"]
    by (auto simp: store_ok_def)
qed

lemma refs_append: "refs i (fs @ [f]) = refs i fs + (if fr_physical f = i then 1 else 0)"
  by (simp add: refs_def)

lemma refs_nonneg: "0 \<le> refs i fs"
  by (simp add: refs_def)

definition counted :: "int \<Rightarrow> int \<Rightarrow> physical_row list \<Rightarrow> physical_row list" where
  "counted i n ps = map (\<lambda>p. if pr_id p = i then p\<lparr>pr_refs := max (pr_refs p + n) 0\<rparr> else p) ps"

lemma count_reference_tables:
  "t_physical (count_reference i n t) = counted i n (t_physical t)" "t_files (count_reference i n t) = t_files t"
  "t_folders (count_reference i n t) = t_folders t" "t_shares (count_reference i n t) = t_shares t"
  by (simp_all add: count_reference_def counted_def)

lemma counted_maps:
  "map pr_id (counted i n ps) = map pr_id ps" "map pr_stored (counted i n ps) = map pr_stored ps"
  by (induction ps) (simp_all add: counted_def)

lemma counted_linked: "(\<exists>p\<in>set (counted i n ps). linked f p) \<longleftrightarrow> (\<exists>p\<in>set ps. linked f p)"
  by (induction ps) (auto simp: counted_def linked_def)

lemma counted_physical: "(\<forall>p\<in>set (counted i n ps). physical_ok np p) \<longleftrightarrow> (\<forall>p\<in>set ps. physical_ok np p)"
  by (induction ps) (auto simp: counted_def physical_ok_def)

lemma counted_refs:
  assumes "\<forall>p\<in>set ps. pr_refs p = refs (pr_id p) fs"
    and "\<And>j. refs j gs = (if j = i then max (refs j fs + n) 0 else refs j fs)"
  shows "\<forall>p\<in>set (counted i n ps). pr_refs p = refs (pr_id p) gs"
  using assms by (auto simp: counted_def)

lemma store_ok_add_file:
  assumes ok: "store_ok env nf np fs ps" and f: "fr_id f = nf" "file_ok (nf + 1) f" "\<exists>p\<in>set ps. linked f p"
    and free: "\<And>g. g \<in> set fs \<Longrightarrow> \<not> same_place env g f \<and> \<not> same_place env f g"
  shows "store_ok env (nf + 1) np (fs @ [f]) (counted (fr_physical f) 1 ps)"
proof -
  have "fr_id g < nf" if "g \<in> set fs" for g using store_okD(4)[OF ok that] by (simp add: file_ok_def)
  then have "nf \<notin> fr_id ` set fs" by force
  moreover have "\<forall>p\<in>set (counted (fr_physical f) 1 ps). pr_refs p = refs (pr_id p) (fs @ [f])"
    using store_okD(7)[OF ok] refs_nonneg[of "fr_physical f" fs]
    by (intro counted_refs[where fs = fs]) (auto simp: refs_append)
  moreover have "names_ok env (fs @ [f])" using store_okD(8)[OF ok] free by (auto simp: names_ok_def)
  ultimately show ?thesis
    using store_ok_mono[OF ok, of "nf + 1" np] f counted_linked counted_physical
    by (simp add: store_ok_def counted_maps)
qed

text \<open>An update of file rows that keeps their keys and links.\<close>

lemma refs_map: "(\<And>f. fr_physical (h f) = fr_physical f) \<Longrightarrow> refs i (map h fs) = refs i fs"
  by (induction fs) (simp_all add: refs_def)

lemma store_ok_map_files:
  assumes ok: "store_ok env nf np fs ps"
    and keep: "\<And>f. fr_id (h f) = fr_id f \<and> fr_physical (h f) = fr_physical f \<and> fr_sha (h f) = fr_sha f \<and> fr_stored (h f) = fr_stored f"
    and rows: "\<And>f. f \<in> set fs \<Longrightarrow> file_ok nf (h f)" and names: "names_ok env (map h fs)"
  shows "store_ok env nf np (map h fs) ps"
proof -
  have "map (fr_id \<circ> h) fs = map fr_id fs" using keep by simp
  moreover have "linked (h f) p = linked f p" for f p using keep by (simp add: linked_def)
  ultimately show ?thesis
    using ok rows names keep by (simp add: store_ok_def refs_map del: map_eq_conv)
qed

lemma at_most_one:
  "distinct (map k xs) \<Longrightarrow> (\<And>x. x \<in> set xs \<Longrightarrow> k x = i) \<Longrightarrow> xs = [] \<or> (\<exists>x. xs = [x])"
  by (cases xs; cases "tl xs") fastforce+

lemma drop_one:
  assumes "distinct (map fr_id fs)" "\<And>f. hit f \<Longrightarrow> fr_id f = i"
  obtains "filter hit fs = []" | f where "filter hit fs = [f]" "f \<in> set fs" "hit f"
proof -
  have d: "distinct (map fr_id (filter hit fs))" using assms(1) by (rule distinct_map_filter)
  have mem: "f \<in> set fs \<and> hit f" if "filter hit fs = [f]" for f
    using that by (auto simp: filter_eq_Cons_iff)
  have "filter hit fs = [] \<or> (\<exists>f. filter hit fs = [f])" using assms(2) by (intro at_most_one[OF d]) simp
  then show thesis using mem that by blast
qed

lemma refs_split: "refs i fs = refs i (filter (\<lambda>f. \<not> hit f) fs) + refs i (filter hit fs)"
  by (induction fs) (simp_all add: refs_def)

lemma store_ok_drop_file:
  assumes ok: "store_ok env nf np fs ps" and one: "filter hit fs = [f]"
  shows "store_ok env nf np (filter (\<lambda>g. \<not> hit g) fs) (counted (fr_physical f) (- 1) ps)"
proof -
  have "refs i fs = refs i (filter (\<lambda>g. \<not> hit g) fs) + (if fr_physical f = i then 1 else 0)" for i
    using refs_split[of i fs hit] one by (simp add: refs_def)
  then have "\<forall>p\<in>set (counted (fr_physical f) (- 1) ps). pr_refs p = refs (pr_id p) (filter (\<lambda>g. \<not> hit g) fs)"
    using store_okD(7)[OF ok] refs_nonneg by (intro counted_refs[where fs = fs]) auto
  moreover have "names_ok env (filter (\<lambda>g. \<not> hit g) fs)" using store_okD(8)[OF ok] by (simp add: names_ok_def)
  ultimately show ?thesis
    using ok counted_linked counted_physical by (simp add: store_ok_def counted_maps distinct_map_filter)
qed

lemma store_ok_drop_physical:
  assumes ok: "store_ok env nf np fs ps" and gone: "\<And>p. gone p \<Longrightarrow> \<not> list_ex (\<lambda>f. fr_physical f = pr_id p) fs"
  shows "store_ok env nf np fs (filter (\<lambda>p. \<not> gone p) ps)"
proof -
  have "\<exists>p\<in>set (filter (\<lambda>p. \<not> gone p) ps). linked f p" if f: "f \<in> set fs" for f
  proof -
    obtain p where p: "p \<in> set ps" "linked f p" using store_okD(5)[OF ok f] by blast
    then have "\<not> gone p" using gone[of p] f by (auto simp: linked_def list_ex_iff)
    then show ?thesis using p by auto
  qed
  then show ?thesis using ok by (simp add: store_ok_def distinct_map_filter)
qed

subsection \<open>What the statements keep\<close>

definition db_ok :: "drive_env \<Rightarrow> drive_db \<Rightarrow> bool" where
  "db_ok env db \<longleftrightarrow> 0 < dv_next_file db \<and> 0 < dv_next_physical db
     \<and> store_ok env (dv_next_file db) (dv_next_physical db) (t_files (dv_tables db)) (t_physical (dv_tables db))
     \<and> (\<forall>t. dv_saved db = Some t \<longrightarrow> store_ok env (dv_next_file db) (dv_next_physical db) (t_files t) (t_physical t))"

text \<open>
  A well-formed database with the given users, open transaction and physical files. Most statements
  keep all of it.
\<close>

definition physical_key :: "physical_row \<Rightarrow> int \<times> string \<times> string" where
  "physical_key p = (pr_id p, pr_sha p, pr_stored p)"

definition steady :: "drive_env \<Rightarrow> auth_db \<Rightarrow> drive_tables option \<Rightarrow> (int \<times> string \<times> string) list \<Rightarrow> drive_db \<Rightarrow> bool" where
  "steady env A sv K db \<longleftrightarrow> db_ok env db \<and> dv_auth db = A \<and> dv_saved db = sv
     \<and> map physical_key (t_physical (dv_tables db)) = K"

named_theorems keeps_steady \<open>a statement leaves a steady database steady\<close>

lemma steady_calls:
  "steady env A sv K db \<Longrightarrow> steady env A sv K (db\<lparr>dv_calls := n, dv_errno := e\<rparr>)"
  "steady env A sv K db \<Longrightarrow> steady env A sv K (db\<lparr>dv_errno := e\<rparr>)"
  by (simp_all add: steady_def db_ok_def)

lemma steady_query:
  assumes "steady env A sv K db" "query env failed work db = (r, db')"
    and "\<And>now db1. steady env A sv K db1 \<Longrightarrow> work now db1 = (r, db') \<Longrightarrow> steady env A sv K db'"
  shows "steady env A sv K db'"
  using assms steady_calls(1)[OF assms(1), where n = "Suc (dv_calls db)" and e = "dq_error env (dv_calls db)"]
  by (auto simp: query_def Let_def split: if_splits)

lemma steady_select [keeps_steady]:
  "steady env A sv K db \<Longrightarrow> select_query env failed f db = (r, db') \<Longrightarrow> steady env A sv K db'"
  unfolding select_query_def by (erule (1) steady_query) simp

lemma steady_tablesI:
  assumes "steady env A sv K db"
    and "store_ok env (dv_next_file db) (dv_next_physical db) (t_files t) (t_physical t)"
    and "map physical_key (t_physical t) = K"
  shows "steady env A sv K (db\<lparr>dv_tables := t\<rparr>)"
  using assms by (simp add: steady_def db_ok_def)

lemma steady_store:
  assumes "steady env A sv K db"
  shows "store_ok env (dv_next_file db) (dv_next_physical db) (t_files (dv_tables db)) (t_physical (dv_tables db))"
    "map physical_key (t_physical (dv_tables db)) = K"
  using assms by (simp_all add: steady_def db_ok_def)

lemma steady_other_tables:
  assumes "steady env A sv K db"
  shows "steady env A sv K (db\<lparr>dv_tables := (dv_tables db)\<lparr>t_folders := gs\<rparr>\<rparr>)"
    "steady env A sv K (db\<lparr>dv_tables := (dv_tables db)\<lparr>t_folders := gs\<rparr>, dv_next_folder := n\<rparr>)"
    "steady env A sv K (db\<lparr>dv_tables := (dv_tables db)\<lparr>t_shares := ss\<rparr>\<rparr>)"
  using assms by (simp_all add: steady_def db_ok_def)

text \<open>Reads.\<close>

lemmas read_defs = fetch_file_record_def lock_user_for_update_def fetch_physical_file_by_sha256_def original_name_exists_def
  fetch_user_storage_usage_def folder_exists_def folder_name_exists_def fetch_folder_def fetch_drive_folders_def
  fetch_drive_files_def fetch_trash_files_def fetch_trash_file_ids_def fetch_public_file_page_ids_def
  fetch_public_file_list_def fetch_file_share_def

lemma steady_reads [keeps_steady]:
  assumes "steady env A sv K db"
  shows "fetch_file_record env mysql i incl db = (r1, db') \<Longrightarrow> steady env A sv K db'"
    "lock_user_for_update env mysql owner db = (r2, db') \<Longrightarrow> steady env A sv K db'"
    "fetch_physical_file_by_sha256 env mysql sha db = (r3, db') \<Longrightarrow> steady env A sv K db'"
    "original_name_exists env mysql owner name folder ign db = (r4, db') \<Longrightarrow> steady env A sv K db'"
    "fetch_user_storage_usage env mysql owner db = (r5, db') \<Longrightarrow> steady env A sv K db'"
    "folder_exists env mysql owner folder db = (r6, db') \<Longrightarrow> steady env A sv K db'"
    "folder_name_exists env mysql owner folder name db = (r7, db') \<Longrightarrow> steady env A sv K db'"
    "fetch_folder env mysql owner folder db = (r8, db') \<Longrightarrow> steady env A sv K db'"
    "fetch_drive_folders env mysql owner folder db = (r9, db') \<Longrightarrow> steady env A sv K db'"
    "fetch_drive_files env mysql owner folder db = (r10, db') \<Longrightarrow> steady env A sv K db'"
    "fetch_trash_files env mysql owner db = (r11, db') \<Longrightarrow> steady env A sv K db'"
    "fetch_trash_file_ids env mysql owner db = (r12, db') \<Longrightarrow> steady env A sv K db'"
    "fetch_public_file_page_ids env mysql cursor limit db = (r13, db') \<Longrightarrow> steady env A sv K db'"
    "fetch_public_file_list env mysql ids db = (r14, db') \<Longrightarrow> steady env A sv K db'"
    "fetch_file_share env mysql token db = (r15, db') \<Longrightarrow> steady env A sv K db'"
  using assms steady_select[OF assms] by (auto simp: read_defs split: if_splits)

lemma steady_children [keeps_steady]:
  assumes "steady env A sv K db" "folder_has_active_children env mysql owner folder db = (r, db')"
  shows "steady env A sv K db'"
  using assms by (auto simp: folder_has_active_children_def split: if_splits prod.splits option.splits bool.splits
      dest: steady_select)

text \<open>Folders and shares.\<close>

lemma steady_guarded:
  assumes "steady env A sv K db" "(if c then (failed, db) else query env failed work db) = (r, db')"
    and "\<And>now db1. steady env A sv K db1 \<Longrightarrow> work now db1 = (r, db') \<Longrightarrow> steady env A sv K db'"
  shows "steady env A sv K db'"
  using assms(1,2) by (cases c) (auto intro: steady_query[OF _ _ assms(3)])

lemma share_guard:
  "(if \<not> mysql \<or> c then x else if \<not> ensure_file_shares_table mysql then x else y) = (if \<not> mysql \<or> c then x else y)"
  by (simp add: ensure_file_shares_table_def)

lemma steady_insert_folder [keeps_steady]:
  assumes "steady env A sv K db" "insert_folder env mysql owner parent name db = (r, db')"
  shows "steady env A sv K db'"
  using assms(2) unfolding insert_folder_def
  by (rule steady_guarded[OF assms(1)]) (auto split: if_splits option.splits intro: steady_other_tables steady_calls)

lemma steady_soft_delete_folder [keeps_steady]:
  assumes "steady env A sv K db" "soft_delete_folder env mysql owner folder db = (r, db')"
  shows "steady env A sv K db'"
  using assms(2) unfolding soft_delete_folder_def
  by (rule steady_guarded[OF assms(1)]) (auto simp: Let_def intro: steady_other_tables)

lemma steady_insert_share [keeps_steady]:
  assumes "steady env A sv K db" "insert_file_share env mysql share db = (r, db')"
  shows "steady env A sv K db'"
  using assms(2) unfolding insert_file_share_def share_guard
  by (rule steady_guarded[OF assms(1)]) (auto split: if_splits option.splits intro: steady_other_tables steady_calls)

lemma steady_increment [keeps_steady]:
  assumes "steady env A sv K db" "increment_file_share_download_count env mysql token db = (r, db')"
  shows "steady env A sv K db'"
  using assms(2) unfolding increment_file_share_download_count_def share_guard
  by (rule steady_guarded[OF assms(1)]) (auto simp: Let_def intro: steady_other_tables)

text \<open>Updates of file rows.\<close>

lemma steady_map_files:
  assumes "steady env A sv K db"
    and "\<And>f. fr_id (h f) = fr_id f \<and> fr_physical (h f) = fr_physical f \<and> fr_sha (h f) = fr_sha f \<and> fr_stored (h f) = fr_stored f"
    and "\<And>f. f \<in> set (t_files (dv_tables db)) \<Longrightarrow> file_ok (dv_next_file db) f \<Longrightarrow> file_ok (dv_next_file db) (h f)"
    and "names_ok env (map h (t_files (dv_tables db)))"
  shows "steady env A sv K (db\<lparr>dv_tables := (dv_tables db)\<lparr>t_files := map h (t_files (dv_tables db))\<rparr>\<rparr>)"
proof -
  note store = steady_store[OF assms(1)]
  have "store_ok env (dv_next_file db) (dv_next_physical db) (map h (t_files (dv_tables db))) (t_physical (dv_tables db))"
    using assms(2-4) store_okD(4)[OF store(1)] by (intro store_ok_map_files[OF store(1)]) auto
  then show ?thesis using store(2) by (intro steady_tablesI[OF assms(1)]) simp_all
qed

lemma names_ok_map:
  assumes "names_ok env fs" "\<And>f. fr_id (h f) = fr_id f" "\<And>f g. same_place env (h f) (h g) \<Longrightarrow> same_place env f g"
  shows "names_ok env (map h fs)"
  using assms by (auto simp: names_ok_def)

lemma steady_soft_delete [keeps_steady]:
  assumes "steady env A sv K db" "repo_soft_delete_file env mysql i db = (r, db')"
  shows "steady env A sv K db'"
  using assms(2) unfolding repo_soft_delete_file_def
proof (rule steady_guarded[OF assms(1)])
  fix now db1
  assume s: "steady env A sv K db1"
  let ?h = "\<lambda>f. if fr_id f = i \<and> fr_deleted f = None then f\<lparr>fr_deleted := Some now, fr_marker := fr_id f, fr_public := False\<rparr> else f"
  have "names_ok env (map ?h (t_files (dv_tables db1)))"
    using store_okD(8)[OF steady_store(1)[OF s]] by (rule names_ok_map) (auto simp: same_place_def split: if_splits)
  then have "steady env A sv K (db1\<lparr>dv_tables := (dv_tables db1)\<lparr>t_files := map ?h (t_files (dv_tables db1))\<rparr>\<rparr>)"
    by (intro steady_map_files[OF s]) (auto simp: file_ok_def)
  then show "(True, db1\<lparr>dv_tables := (dv_tables db1)\<lparr>t_files := map ?h (t_files (dv_tables db1))\<rparr>\<rparr>) = (r, db')
      \<Longrightarrow> steady env A sv K db'" by simp
qed

lemma steady_visibility [keeps_steady]:
  assumes "steady env A sv K db" "repo_update_file_visibility env mysql i b db = (r, db')"
  shows "steady env A sv K db'"
  using assms(2) unfolding repo_update_file_visibility_def
proof (rule steady_guarded[OF assms(1)])
  fix now db1
  assume s: "steady env A sv K db1"
  let ?h = "\<lambda>f. if fr_id f = i then f\<lparr>fr_public := b\<rparr> else f"
  have "names_ok env (map ?h (t_files (dv_tables db1)))"
    using store_okD(8)[OF steady_store(1)[OF s]] by (rule names_ok_map) (auto simp: same_place_def split: if_splits)
  then have "steady env A sv K (db1\<lparr>dv_tables := (dv_tables db1)\<lparr>t_files := map ?h (t_files (dv_tables db1))\<rparr>\<rparr>)"
    by (intro steady_map_files[OF s]) (auto simp: file_ok_def)
  then show "(True, db1\<lparr>dv_tables := (dv_tables db1)\<lparr>t_files := map ?h (t_files (dv_tables db1))\<rparr>\<rparr>) = (r, db')
      \<Longrightarrow> steady env A sv K db'" by simp
qed

text \<open>A name that is free in a folder.\<close>

lemma same_place_sym: "collation_ok env \<Longrightarrow> same_place env f g \<Longrightarrow> same_place env g f"
  using collation_sym by (auto simp: same_place_def)

lemma not_taken:
  assumes "collation_ok env" "\<not> name_taken env i user folder name t" "\<forall>g\<in>set (t_files t). file_ok nf g"
    and "g \<in> set (t_files t)" "fr_id g \<noteq> i" "fr_user f = user" "fr_folder f = folder" "fr_name f = name"
  shows "\<not> same_place env g f \<and> \<not> same_place env f g"
proof -
  have "\<not> same_place env g f"
    using assms(2-) by (auto simp: name_taken_def list_ex_iff same_place_def file_ok_def)
  then show ?thesis using same_place_sym[OF assms(1)] by blast
qed

lemma names_ok_update:
  assumes "names_ok env fs" "\<And>f. fr_id (u f) = fr_id f" "\<And>f. hit f \<Longrightarrow> fr_id f = i"
    and apart: "\<And>f g. f \<in> set fs \<Longrightarrow> hit f \<Longrightarrow> g \<in> set fs \<Longrightarrow> fr_id g \<noteq> i \<Longrightarrow> \<not> same_place env g (u f) \<and> \<not> same_place env (u f) g"
  shows "names_ok env (map (\<lambda>f. if hit f then u f else f) fs)"
  unfolding names_ok_def
proof (intro ballI impI)
  fix f' g'
  assume mem: "f' \<in> set (map (\<lambda>f. if hit f then u f else f) fs)" "g' \<in> set (map (\<lambda>f. if hit f then u f else f) fs)"
    and same: "same_place env f' g'"
  obtain f g where f: "f \<in> set fs" "f' = (if hit f then u f else f)" and g: "g \<in> set fs" "g' = (if hit g then u g else g)"
    using mem by auto
  have ids: "fr_id f' = fr_id f" "fr_id g' = fr_id g" using f g assms(2) by simp_all
  show "fr_id f' = fr_id g'"
  proof (cases "hit f"; cases "hit g")
    assume h: "hit f" "\<not> hit g"
    then have "fr_id g = i" using apart[OF f(1) _ g(1)] f(2) g(2) same by auto
    then show ?thesis using assms(3)[OF h(1)] ids by simp
  next
    assume h: "\<not> hit f" "hit g"
    then have "fr_id f = i" using apart[OF g(1) _ f(1)] f(2) g(2) same by auto
    then show ?thesis using assms(3)[OF h(2)] ids by simp
  next
    assume "\<not> hit f" "\<not> hit g"
    then show ?thesis using assms(1) f g same by (auto simp: names_ok_def)
  qed (use ids assms(3) in simp)
qed

lemma restored_row_sel:
  "fr_id (restored_row i n f) = fr_id f" "fr_physical (restored_row i n f) = fr_physical f" "fr_sha (restored_row i n f) = fr_sha f"
  "fr_stored (restored_row i n f) = fr_stored f" "fr_user (restored_row i n f) = fr_user f" "fr_name (restored_row i n f) = n"
  "fr_folder (restored_row i n f) = nullable_id i" "fr_size (restored_row i n f) = fr_size f"
  "fr_marker (restored_row i n f) = 0" "fr_deleted (restored_row i n f) = None"
  by (simp_all add: restored_row_def)

lemma steady_restored_rows:
  assumes s: "steady env A sv K db" and c: "collation_ok env"
    and free: "\<not> list_ex (\<lambda>f. in_trash env owner i db f \<and> name_taken env i (fr_user f) (nullable_id folder) name (dv_tables db))
                 (t_files (dv_tables db))"
  shows "steady env A sv K (db\<lparr>dv_tables := (dv_tables db)\<lparr>t_files :=
           map (\<lambda>f. if in_trash env owner i db f then restored_row folder name f else f) (t_files (dv_tables db))\<rparr>\<rparr>)"
proof (rule steady_map_files[OF s])
  have rows: "\<forall>g\<in>set (t_files (dv_tables db)). file_ok (dv_next_file db) g" using store_okD(4)[OF steady_store(1)[OF s]] by blast
  show "names_ok env (map (\<lambda>f. if in_trash env owner i db f then restored_row folder name f else f) (t_files (dv_tables db)))"
  proof (rule names_ok_update[OF store_okD(8)[OF steady_store(1)[OF s]]])
    fix f g
    assume f: "f \<in> set (t_files (dv_tables db))" "in_trash env owner i db f"
      and g: "g \<in> set (t_files (dv_tables db))" "fr_id g \<noteq> i"
    have "\<not> name_taken env i (fr_user f) (nullable_id folder) name (dv_tables db)" using free f by (auto simp: list_ex_iff)
    then show "\<not> same_place env g (restored_row folder name f) \<and> \<not> same_place env (restored_row folder name f) g"
      by (rule not_taken[OF c _ rows g]) (simp_all add: restored_row_sel)
  qed (auto simp: restored_row_sel in_trash_def)
qed (auto simp: file_ok_def restored_row_sel)

lemma steady_restore [keeps_steady]:
  assumes "steady env A sv K db" "repo_restore_file env mysql owner i folder name db = (r, db')" "collation_ok env"
  shows "steady env A sv K db'"
  using assms(2) unfolding repo_restore_file_def
proof (rule steady_guarded[OF assms(1)], goal_cases)
  case (1 now db1)
  then show ?case
    using steady_restored_rows[OF 1(1) assms(3)] steady_calls(2)[OF 1(1)]
    by (simp add: Let_def split: if_splits) blast+
qed

text \<open>New rows. A physical row adds its key; a file row needs the key it refers to.\<close>

lemma steady_step:
  assumes "(if c then (failed, db) else query env failed work db) = (r, db')" "r \<noteq> failed" "steady env A sv K db"
  obtains now db1 where "steady env A sv K db1" "work now db1 = (r, db')" "dv_tables db1 = dv_tables db" "\<not> c"
proof -
  let ?db1 = "db\<lparr>dv_calls := Suc (dv_calls db), dv_errno := dq_error env (dv_calls db)\<rparr>"
  have "work (dq_now env (dv_calls db)) ?db1 = (r, db')" "\<not> c"
    using assms(1,2) by (auto simp: query_def Let_def split: if_splits)
  then show thesis using that[OF steady_calls(1)[OF assms(3)]] by simp
qed

lemma steady_insert_physical:
  assumes "steady env A sv K db" "insert_physical_file env mysql sha stored n db = (Some i, db')"
    and "collation_ok env" "hex_text sha" "CHR ''/'' \<notin> set stored"
  shows "steady env A sv (K @ [(i, sha, stored)]) db'" "t_files (dv_tables db') = t_files (dv_tables db)"
proof -
  from assms(2) obtain db1 where s: "steady env A sv K db1" and t: "dv_tables db1 = dv_tables db" and ne: "stored \<noteq> []"
    and new: "\<forall>p\<in>set (t_physical (dv_tables db1)). \<not> dq_eq env (pr_stored p) stored" and i: "i = dv_next_physical db1"
    and db': "db' = db1\<lparr>dv_tables := (dv_tables db1)\<lparr>t_physical := t_physical (dv_tables db1) @
                   [\<lparr>pr_id = i, pr_sha = sha, pr_stored = stored, pr_size = n, pr_refs = 0\<rparr>]\<rparr>,
                 dv_next_physical := i + 1\<rparr>"
    unfolding insert_physical_file_def
    by (rule steady_step[OF _ _ assms(1)]) (auto simp: list_ex_iff split: if_splits)
  have pos: "0 < dv_next_physical db1" using s by (simp add: steady_def db_ok_def)
  have "stored \<notin> pr_stored ` set (t_physical (dv_tables db1))" using new collation_refl[OF assms(3)] by auto
  then have "store_ok env (dv_next_file db1) (i + 1) (t_files (dv_tables db1))
      (t_physical (dv_tables db1) @ [\<lparr>pr_id = i, pr_sha = sha, pr_stored = stored, pr_size = n, pr_refs = 0\<rparr>])"
    using assms(4,5) ne pos i by (intro store_ok_add_physical) (auto simp: physical_ok_def steady_store(1)[OF s])
  moreover have "store_ok env (dv_next_file db1) (i + 1) (t_files t) (t_physical t)" if "dv_saved db1 = Some t" for t
    using s that i by (auto simp: steady_def db_ok_def intro: store_ok_mono)
  ultimately show "steady env A sv (K @ [(i, sha, stored)]) db'"
    using s pos i unfolding db' steady_def db_ok_def by (simp add: physical_key_def)
  show "t_files (dv_tables db') = t_files (dv_tables db)" unfolding db' using t by simp
qed

lemma steady_insert_physical_fails [keeps_steady]:
  assumes "steady env A sv K db" "insert_physical_file env mysql sha stored n db = (None, db')"
  shows "steady env A sv K db'"
  using assms(2) unfolding insert_physical_file_def
  by (rule steady_guarded[OF assms(1)]) (auto split: if_splits intro: steady_calls)

lemma steady_insert_file:
  assumes "steady env A sv K db" "insert_file env mysql r db = (Some i, db')" "collation_ok env"
    and key: "(fc_physical r, fc_sha r, fc_stored r) \<in> set K"
  obtains user now where "steady env A sv K db'"
    "t_files (dv_tables db') = t_files (dv_tables db) @ [new_file_row r i user now]"
    "user_id_subquery env (fc_owner r) db = Some user"
proof -
  from assms(2) obtain now db1 user where s: "steady env A sv K db1" and t: "dv_tables db1 = dv_tables db"
    and free: "\<not> name_taken env 0 user (nullable_id (fc_folder r)) (fc_name r) (dv_tables db1)" and size: "0 \<le> fc_size r"
    and i: "i = dv_next_file db1" and user: "user_id_subquery env (fc_owner r) db1 = Some user"
    and db': "db' = db1\<lparr>dv_tables := count_reference (fc_physical r) 1
                       ((dv_tables db1)\<lparr>t_files := t_files (dv_tables db1) @ [new_file_row r i user now]\<rparr>),
                     dv_next_file := i + 1\<rparr>"
    unfolding insert_file_def
    by (rule steady_step[OF _ _ assms(1)]) (auto split: if_splits option.splits)
  let ?f = "new_file_row r i user now"
  have pos: "0 < dv_next_file db1" using s by (simp add: steady_def db_ok_def)
  obtain p where p: "p \<in> set (t_physical (dv_tables db1))" "physical_key p = (fc_physical r, fc_sha r, fc_stored r)"
    using key steady_store(2)[OF s] by (metis imageE list.set_map)
  have rows: "\<forall>g\<in>set (t_files (dv_tables db1)). file_ok (dv_next_file db1) g" using store_okD(4)[OF steady_store(1)[OF s]] by blast
  have "store_ok env (i + 1) (dv_next_physical db1) (t_files (dv_tables db1) @ [?f])
      (counted (fr_physical ?f) 1 (t_physical (dv_tables db1)))"
  proof (rule store_ok_add_file)
    show "store_ok env i (dv_next_physical db1) (t_files (dv_tables db1)) (t_physical (dv_tables db1))"
      using steady_store(1)[OF s] i by simp
    show "\<exists>p\<in>set (t_physical (dv_tables db1)). linked ?f p"
      using p by (auto simp: linked_def new_file_row_def physical_key_def)
    fix g assume g: "g \<in> set (t_files (dv_tables db1))"
    then have "fr_id g \<noteq> 0" using rows by (auto simp: file_ok_def)
    then show "\<not> same_place env g ?f \<and> \<not> same_place env ?f g"
      by (rule not_taken[OF assms(3) free rows g]) (simp_all add: new_file_row_def)
  qed (use i pos size in \<open>auto simp: new_file_row_def file_ok_def\<close>)
  moreover have "store_ok env (i + 1) (dv_next_physical db1) (t_files t) (t_physical t)" if "dv_saved db1 = Some t" for t
    using s that i by (auto simp: steady_def db_ok_def intro: store_ok_mono)
  moreover have "map physical_key (counted j n ps) = map physical_key ps" for j n ps
    by (simp add: counted_def physical_key_def)
  ultimately have "steady env A sv K db'"
    using s pos i unfolding db' steady_def db_ok_def
    by (simp add: count_reference_tables new_file_row_def)
  moreover have "user_id_subquery env (fc_owner r) db = Some user"
    using user s assms(1) by (simp add: user_id_subquery_def steady_def)
  ultimately show thesis using t by (intro that) (auto simp: db' count_reference_tables)
qed

lemma steady_insert_file_fails [keeps_steady]:
  assumes "steady env A sv K db" "insert_file env mysql r db = (None, db')"
  shows "steady env A sv K db'"
  using assms(2) unfolding insert_file_def
  by (rule steady_guarded[OF assms(1)]) (auto split: if_splits option.splits intro: steady_calls)

text \<open>Deletions.\<close>

lemma drop_file_rows_one:
  assumes "filter hit (t_files t) = [f]"
  shows "t_files (drop_file_rows hit t) = filter (\<lambda>g. \<not> hit g) (t_files t)"
    "t_physical (drop_file_rows hit t) = counted (fr_physical f) (- 1) (t_physical t)"
  using assms by (simp_all add: drop_file_rows_def count_reference_tables)

lemma drop_file_rows_none:
  assumes "filter hit (t_files t) = []"
  shows "t_files (drop_file_rows hit t) = t_files t" "t_physical (drop_file_rows hit t) = t_physical t"
  using assms by (simp_all add: drop_file_rows_def filter_empty_conv)

lemma counted_keys: "map physical_key (counted i n ps) = map physical_key ps"
  by (simp add: counted_def physical_key_def)

lemma steady_hard_delete [keeps_steady]:
  assumes "steady env A sv K db" "repo_hard_delete_file env mysql owner i db = (r, db')"
  shows "steady env A sv K db'"
  using assms(2) unfolding repo_hard_delete_file_def
proof (rule steady_guarded[OF assms(1)], goal_cases)
  case (1 now db1)
  let ?t = "drop_file_rows (in_trash env owner i db1) (dv_tables db1)"
  note store = steady_store[OF 1(1)]
  have "store_ok env (dv_next_file db1) (dv_next_physical db1) (t_files ?t) (t_physical ?t)
      \<and> map physical_key (t_physical ?t) = K"
  proof (rule drop_one[OF store_okD(1)[OF store(1)], of "in_trash env owner i db1" i])
    assume "filter (in_trash env owner i db1) (t_files (dv_tables db1)) = []"
    from drop_file_rows_none[OF this] show ?thesis using store by simp
  next
    fix f assume one: "filter (in_trash env owner i db1) (t_files (dv_tables db1)) = [f]"
    from drop_file_rows_one[OF this] store_ok_drop_file[OF store(1) one] show ?thesis
      using store(2) by (simp add: counted_keys)
  qed (simp add: in_trash_def)
  then show ?case using 1 by (auto simp: Let_def intro: steady_tablesI)
qed

lemma steady_delete_physical:
  assumes "steady env A sv K db" "delete_physical_file_if_unreferenced env mysql i db = ((ok, deleted), db')"
  shows "steady env A sv (if deleted then filter (\<lambda>k. fst k \<noteq> i) K else K) db'"
proof (cases "mysql \<and> 0 < i \<and> dq_error env (dv_calls db) = 0")
  case False
  then show ?thesis
    using assms by (auto simp: delete_physical_file_if_unreferenced_def query_def Let_def split: if_splits intro: steady_calls)
next
  case True
  let ?db1 = "db\<lparr>dv_calls := Suc (dv_calls db), dv_errno := 0\<rparr>" and ?t = "dv_tables db"
  let ?gone = "\<lambda>p. pr_id p = i \<and> pr_refs p = 0 \<and> \<not> list_ex (\<lambda>f. fr_physical f = i) (t_files ?t)"
  have db': "db' = ?db1\<lparr>dv_tables := ?t\<lparr>t_physical := filter (\<lambda>p. \<not> ?gone p) (t_physical ?t)\<rparr>\<rparr>"
    and deleted: "deleted = list_ex ?gone (t_physical ?t)"
    using assms(2) True by (auto simp: delete_physical_file_if_unreferenced_def query_def Let_def)
  have s: "steady env A sv K ?db1" by (rule steady_calls(1)[OF assms(1)])
  note store = steady_store[OF assms(1)]
  have "store_ok env (dv_next_file db) (dv_next_physical db) (t_files ?t) (filter (\<lambda>p. \<not> ?gone p) (t_physical ?t))"
    by (rule store_ok_drop_physical[OF store(1)]) auto
  moreover have "?gone p = (pr_id p = i)" if "deleted" "p \<in> set (t_physical ?t)" for p
    using that store_okD(2)[OF store(1)] unfolding deleted by (auto simp: list_ex_iff distinct_map dest: inj_onD)
  then have "map physical_key (filter (\<lambda>p. \<not> ?gone p) (t_physical ?t)) = (if deleted then filter (\<lambda>k. fst k \<noteq> i) K else K)"
    using store(2) deleted
    by (auto simp: filter_map o_def physical_key_def list_ex_iff simp flip: store(2) intro!: filter_cong arg_cong[where f = "map physical_key"] filter_True)
  ultimately show ?thesis
    using s unfolding db' steady_def db_ok_def by simp
qed

text \<open>Transactions.\<close>

lemma steady_begin:
  assumes "steady env A None K db" "begin_transaction env mysql db = (b, db')"
  shows "steady env A (if b then Some (dv_tables db) else None) K db'"
  using assms by (auto simp: begin_transaction_def query_def Let_def steady_def db_ok_def split: if_splits)

lemma steady_commit:
  assumes "steady env A sv K db" "commit_transaction env mysql db = (b, db')"
  shows "steady env A (if b then None else sv) K db'" "dv_tables db' = dv_tables db"
  using assms by (auto simp: commit_transaction_def query_def Let_def steady_def db_ok_def split: if_splits)

lemma steady_rollback:
  assumes "steady env A (Some t) K db"
  shows "steady env A None (map physical_key (t_physical t)) (rollback_transaction env True db)"
  using assms by (auto simp: rollback_transaction_def steady_def db_ok_def)

end
