(* ===== verification/File_Service.thy ===== *)
theory File_Service
  imports Drive_Store Storage
begin

text \<open>
  The file service (src/service/files/file_service.cpp): folders, the recycle bin, public files and
  the bodies of its replies. A service call that returns false gives \<open>Inl\<close> with the error it set;
  an error that was not set is an internal one without a message.
\<close>

datatype error_code = ErrNone | ErrInvalidArgument | ErrForbidden | ErrNotFound | ErrConflict | ErrGone
  | ErrTooManyRequests | ErrPayloadTooLarge | ErrInternal

record service_error =
  se_code :: error_code
  se_message :: string

definition service_fail :: "error_code \<Rightarrow> string \<Rightarrow> service_error" where
  "service_fail c m = \<lparr>se_code = c, se_message = m\<rparr>"

definition unset_error :: service_error where
  "unset_error = service_fail ErrInternal []"

subsection \<open>Names\<close>

definition kFilenameMaxLength :: nat where "kFilenameMaxLength = 80"

text \<open>The unsigned length left for the stem wraps to a huge value when the extension is too long; the stem is kept whole then.\<close>

definition duplicate_filename_candidate :: "string \<Rightarrow> nat \<Rightarrow> string" where
  "duplicate_filename_candidate name index =
     (if index = 0 then name
      else let ext = file_extension name;
               stem = take (length name - length ext) name;
               suffix = '' ('' @ nat_to_string index @ '')'';
               max_stem = int kFilenameMaxLength - int (length suffix) - int (length ext);
               stem' = (if length stem + length suffix + length ext > kFilenameMaxLength \<and> max_stem \<ge> 0
                        then take (nat max_stem) stem else stem)
           in stem' @ suffix @ ext)"

definition folder_char :: "byte \<Rightarrow> bool" where
  "folder_char c \<longleftrightarrow> c \<noteq> CHR ''/'' \<and> c \<noteq> BACKSLASH \<and> 32 \<le> (of_char c :: nat)"

text \<open>The loop stops at 80 characters; what it skips does not count.\<close>

definition sanitize_folder_name :: "string \<Rightarrow> string" where
  "sanitize_folder_name name = take 80 (filter folder_char (trim_spaces name))"

definition parse_public_flag :: "string \<Rightarrow> bool" where
  "parse_public_flag value \<longleftrightarrow> value = ''1'' \<or> value = ''true'' \<or> value = ''TRUE'' \<or> value = ''yes'' \<or> value = ''on''"

subsection \<open>Transactions\<close>

text \<open>
  \<open>MysqlTransaction\<close> around a piece of work that fails (\<open>Inl\<close>) or ends in a commit: the destructor
  rolls back unless the commit succeeded. The work may use the disk.
\<close>

definition with_transaction :: "drive_env \<Rightarrow> bool \<Rightarrow> (drive_db \<Rightarrow> disk \<Rightarrow> (service_error + 'a) \<times> drive_db \<times> disk)
    \<Rightarrow> drive_db \<Rightarrow> disk \<Rightarrow> (service_error + 'a) \<times> drive_db \<times> disk" where
  "with_transaction env mysql work db d =
     (case begin_transaction env mysql db of
        (False, db1) \<Rightarrow> (Inl unset_error, db1, d)
      | (True, db1) \<Rightarrow>
          (case work db1 d of
             (Inl e, db2, d2) \<Rightarrow> (Inl e, rollback_transaction env mysql db2, d2)
           | (Inr r, db2, d2) \<Rightarrow>
               (case commit_transaction env mysql db2 of
                  (False, db3) \<Rightarrow> (Inl unset_error, rollback_transaction env mysql db3, d2)
                | (True, db3) \<Rightarrow> (Inr r, db3, d2))))"

subsection \<open>Replies\<close>

definition quoted :: "string \<Rightarrow> string" where
  "quoted s = [QUOTE] @ s @ [QUOTE]"

definition text_field :: "string \<Rightarrow> string \<Rightarrow> string" where
  "text_field key value = quoted key @ '':'' @ quoted (json_escape value)"

definition number_field :: "string \<Rightarrow> int \<Rightarrow> string" where
  "number_field key n = quoted key @ '':'' @ int_to_string n"

definition flag_field :: "string \<Rightarrow> bool \<Rightarrow> string" where
  "flag_field key b = quoted key @ '':'' @ (if b then ''true'' else ''false'')"

fun comma_list :: "string list \<Rightarrow> string" where
  "comma_list [] = []"
| "comma_list [x] = x"
| "comma_list (x # y # ys) = x @ '','' @ comma_list (y # ys)"

definition build_empty_public_file_list_json :: "int \<Rightarrow> string" where
  "build_empty_public_file_list_json limit =
     ''{'' @ number_field ''code'' 0 @ '','' @ quoted ''files'' @ '':[],'' @ quoted ''pagination'' @ '':{''
       @ number_field ''limit'' limit @ '','' @ number_field ''next_cursor'' 0 @ '','' @ flag_field ''has_more'' False @ ''}}''"

definition folder_json :: "folder_item \<Rightarrow> string" where
  "folder_json g = ''{'' @ number_field ''id'' (fd_id g) @ '','' @ number_field ''parent_id'' (fd_parent g) @ '',''
     @ text_field ''name'' (fd_name g) @ '','' @ text_field ''created_at'' (fd_created_at g) @ ''}''"

definition build_folder_created_json :: "folder_item \<Rightarrow> string" where
  "build_folder_created_json g =
     ''{'' @ number_field ''code'' 0 @ '','' @ quoted ''message'' @ '':'' @ quoted ''folder created'' @ '',''
       @ quoted ''folder'' @ '':'' @ folder_json g @ ''}''"

definition drive_file_json :: "file_item \<Rightarrow> string" where
  "drive_file_json f = ''{'' @ number_field ''id'' (fi_id f) @ '','' @ number_field ''folder_id'' (fi_folder f) @ '',''
     @ text_field ''filename'' (fi_name f) @ '','' @ text_field ''content_type'' (fi_type f) @ '',''
     @ number_field ''size'' (fi_size f) @ '','' @ flag_field ''is_public'' (fi_public f) @ '',''
     @ text_field ''created_at'' (fi_created_at f) @ '','' @ quoted ''download_url'' @ '':''
     @ quoted (''/api/drive/files/'' @ int_to_string (fi_id f) @ ''/download'') @ ''}''"

definition build_drive_items_json :: "int \<Rightarrow> folder_item list \<Rightarrow> file_item list \<Rightarrow> string" where
  "build_drive_items_json folder_id folders files =
     ''{'' @ number_field ''code'' 0 @ '','' @ number_field ''folder_id'' folder_id @ '','' @ quoted ''folders'' @ '':[''
       @ comma_list (map folder_json folders) @ ''],'' @ quoted ''files'' @ '':['' @ comma_list (map drive_file_json files) @ '']}''"

definition trash_file_json :: "file_item \<Rightarrow> string" where
  "trash_file_json f = ''{'' @ number_field ''id'' (fi_id f) @ '','' @ number_field ''folder_id'' (fi_folder f) @ '',''
     @ text_field ''filename'' (fi_name f) @ '','' @ text_field ''content_type'' (fi_type f) @ '',''
     @ number_field ''size'' (fi_size f) @ '','' @ text_field ''created_at'' (fi_created_at f) @ '',''
     @ text_field ''deleted_at'' (fi_deleted_at f) @ ''}''"

definition build_trash_items_json :: "file_item list \<Rightarrow> string" where
  "build_trash_items_json files =
     ''{'' @ number_field ''code'' 0 @ '','' @ quoted ''files'' @ '':['' @ comma_list (map trash_file_json files) @ '']}''"

definition build_file_restored_json :: "managed_file \<Rightarrow> string" where
  "build_file_restored_json r =
     ''{'' @ number_field ''code'' 0 @ '','' @ quoted ''message'' @ '':'' @ quoted ''file restored'' @ '','' @ quoted ''file'' @ '':{''
       @ number_field ''id'' (mf_id r) @ '','' @ number_field ''folder_id'' (mf_folder r) @ '',''
       @ text_field ''filename'' (mf_name r) @ '','' @ text_field ''content_type'' (mf_type r) @ '',''
       @ number_field ''size'' (mf_size r) @ '','' @ flag_field ''is_public'' (mf_public r) @ ''}}''"

definition public_file_json :: "file_item \<Rightarrow> string" where
  "public_file_json f = ''{'' @ number_field ''id'' (fi_id f) @ '','' @ text_field ''filename'' (fi_name f) @ '',''
     @ text_field ''content_type'' (fi_type f) @ '','' @ number_field ''size'' (fi_size f) @ '',''
     @ text_field ''owner'' (fi_owner f) @ '','' @ text_field ''created_at'' (fi_created_at f) @ ''}''"

definition build_public_file_list_json :: "file_item list \<Rightarrow> int \<Rightarrow> int \<Rightarrow> string" where
  "build_public_file_list_json files next_cursor limit =
     ''{'' @ number_field ''code'' 0 @ '','' @ quoted ''files'' @ '':['' @ comma_list (map public_file_json files) @ ''],''
       @ quoted ''pagination'' @ '':{'' @ number_field ''limit'' limit @ '','' @ number_field ''next_cursor'' next_cursor @ '',''
       @ flag_field ''has_more'' (next_cursor > 0) @ ''}}''"

definition build_public_file_detail_json :: "managed_file \<Rightarrow> int \<Rightarrow> string" where
  "build_public_file_detail_json r actual_size =
     ''{'' @ number_field ''code'' 0 @ '','' @ quoted ''file'' @ '':{'' @ number_field ''id'' (mf_id r) @ '',''
       @ text_field ''filename'' (mf_name r) @ '','' @ text_field ''content_type'' (mf_type r) @ '',''
       @ number_field ''size'' actual_size @ '','' @ text_field ''owner'' (mf_owner r) @ '',''
       @ flag_field ''is_public'' True @ '','' @ text_field ''sha256'' (mf_sha r) @ '','' @ quoted ''download_url'' @ '':''
       @ quoted (''/api/files/public/'' @ int_to_string (mf_id r) @ ''/download'') @ ''}}''"

subsection \<open>Reading\<close>

definition load_owned_file_record :: "drive_env \<Rightarrow> bool \<Rightarrow> string \<Rightarrow> int \<Rightarrow> bool \<Rightarrow> drive_db
    \<Rightarrow> (service_error + managed_file) \<times> drive_db" where
  "load_owned_file_record env mysql owner file_id include_deleted db =
     (case fetch_file_record env mysql file_id include_deleted db of
        (None, db1) \<Rightarrow> (Inl (service_fail ErrNotFound ''file not found''), db1)
      | (Some r, db1) \<Rightarrow>
          (if mf_owner r \<noteq> owner then Inl (service_fail ErrForbidden ''forbidden'') else Inr r, db1))"

definition list_public_files :: "drive_env \<Rightarrow> bool \<Rightarrow> int \<Rightarrow> int \<Rightarrow> drive_db \<Rightarrow> string option \<times> drive_db" where
  "list_public_files env mysql cursor limit db =
     (case fetch_public_file_page_ids env mysql cursor limit db of
        (None, db1) \<Rightarrow> (None, db1)
      | (Some (ids, next_cursor), db1) \<Rightarrow>
          if ids = [] then (Some (build_empty_public_file_list_json limit), db1)
          else (case fetch_public_file_list env mysql ids db1 of
                  (None, db2) \<Rightarrow> (None, db2)
                | (Some files, db2) \<Rightarrow> (Some (build_public_file_list_json files next_cursor (narrow_int limit)), db2)))"

definition load_public_file_record :: "drive_env \<Rightarrow> bool \<Rightarrow> int \<Rightarrow> drive_db \<Rightarrow> (service_error + managed_file) \<times> drive_db" where
  "load_public_file_record env mysql file_id db =
     (case fetch_file_record env mysql file_id False db of
        (None, db1) \<Rightarrow> (Inl (service_fail ErrNotFound ''file not found''), db1)
      | (Some r, db1) \<Rightarrow> (if \<not> mf_public r then Inl (service_fail ErrForbidden ''file is private'') else Inr r, db1))"

definition load_public_file_detail :: "drive_env \<Rightarrow> bool \<Rightarrow> string \<Rightarrow> int \<Rightarrow> drive_db \<Rightarrow> disk
    \<Rightarrow> (service_error + managed_file \<times> int) \<times> drive_db" where
  "load_public_file_detail env mysql doc_root file_id db d =
     (case load_public_file_record env mysql file_id db of
        (Inl e, db1) \<Rightarrow> (Inl e, db1)
      | (Inr r, db1) \<Rightarrow>
          let disk_path = build_file_disk_path doc_root (mf_stored r) in
          (if \<not> file_exists disk_path d then Inl (service_fail ErrNotFound ''file content not found'')
           else Inr (r, case file_size disk_path d of None \<Rightarrow> mf_size r | Some n \<Rightarrow> n), db1))"

text \<open>The loop over the candidates from \<open>index\<close> on, with \<open>left\<close> rounds of the 1000 to go.\<close>

fun unique_name_loop :: "drive_env \<Rightarrow> bool \<Rightarrow> string \<Rightarrow> string \<Rightarrow> int \<Rightarrow> int \<Rightarrow> nat \<Rightarrow> nat \<Rightarrow> drive_db \<Rightarrow> string \<times> drive_db" where
  "unique_name_loop env mysql owner base folder_id ignore_file_id index 0 db = (duplicate_filename_candidate base 1000, db)"
| "unique_name_loop env mysql owner base folder_id ignore_file_id index (Suc left) db =
     (let candidate = duplicate_filename_candidate base index in
      case original_name_exists env mysql owner candidate folder_id ignore_file_id db of
        (None, db1) \<Rightarrow> (candidate, db1)
      | (Some False, db1) \<Rightarrow> (candidate, db1)
      | (Some True, db1) \<Rightarrow> unique_name_loop env mysql owner base folder_id ignore_file_id (Suc index) left db1)"

definition ensure_unique_owned_filename :: "drive_env \<Rightarrow> bool \<Rightarrow> string \<Rightarrow> string \<Rightarrow> int \<Rightarrow> int \<Rightarrow> drive_db \<Rightarrow> string \<times> drive_db" where
  "ensure_unique_owned_filename env mysql owner requested_name folder_id ignore_file_id db =
     (let sanitized = sanitize_filename requested_name;
          base = (if sanitized = [] then ''file.txt'' else sanitized)
      in unique_name_loop env mysql owner base folder_id ignore_file_id 0 1000 db)"

subsection \<open>Folders\<close>

definition create_folder :: "drive_env \<Rightarrow> bool \<Rightarrow> string \<Rightarrow> int \<Rightarrow> string \<Rightarrow> drive_db \<Rightarrow> (service_error + folder_item) \<times> drive_db" where
  "create_folder env mysql owner parent_id name db =
     (let safe_name = sanitize_folder_name name in
      if safe_name = [] then (Inl (service_fail ErrInvalidArgument ''folder name is required''), db)
      else if parent_id < 0 then (Inl (service_fail ErrInvalidArgument ''invalid parent_id''), db)
      else (case folder_exists env mysql owner parent_id db of
        (None, db1) \<Rightarrow> (Inl unset_error, db1)
      | (Some False, db1) \<Rightarrow> (Inl (service_fail ErrNotFound ''parent folder not found''), db1)
      | (Some True, db1) \<Rightarrow>
          (case folder_name_exists env mysql owner parent_id safe_name db1 of
             (None, db2) \<Rightarrow> (Inl unset_error, db2)
           | (Some True, db2) \<Rightarrow> (Inl (service_fail ErrConflict ''folder name already exists''), db2)
           | (Some False, db2) \<Rightarrow>
               (case insert_folder env mysql owner parent_id safe_name db2 of
                  (None, db3) \<Rightarrow>
                    (Inl (if dv_errno db3 = ER_DUP_ENTRY then service_fail ErrConflict ''folder name already exists'' else unset_error), db3)
                | (Some folder_id, db3) \<Rightarrow>
                    (case fetch_folder env mysql owner folder_id db3 of
                       (Some g, db4) \<Rightarrow> (Inr g, db4)
                     | (None, db4) \<Rightarrow>
                         (Inr \<lparr>fd_id = folder_id, fd_parent = parent_id, fd_name = safe_name, fd_created_at = []\<rparr>, db4))))))"

definition delete_empty_folder :: "drive_env \<Rightarrow> bool \<Rightarrow> string \<Rightarrow> int \<Rightarrow> drive_db \<Rightarrow> (service_error + folder_item) \<times> drive_db" where
  "delete_empty_folder env mysql owner folder_id db =
     (if folder_id \<le> 0 then (Inl (service_fail ErrInvalidArgument ''root folder cannot be deleted''), db)
      else (case fetch_folder env mysql owner folder_id db of
        (None, db1) \<Rightarrow> (Inl (service_fail ErrNotFound ''folder not found''), db1)
      | (Some g, db1) \<Rightarrow>
          (case folder_has_active_children env mysql owner folder_id db1 of
             (None, db2) \<Rightarrow> (Inl unset_error, db2)
           | (Some True, db2) \<Rightarrow> (Inl (service_fail ErrConflict ''folder is not empty''), db2)
           | (Some False, db2) \<Rightarrow>
               (case soft_delete_folder env mysql owner folder_id db2 of
                  (False, db3) \<Rightarrow> (Inl unset_error, db3)
                | (True, db3) \<Rightarrow> (Inr g, db3)))))"

definition list_drive_items :: "drive_env \<Rightarrow> bool \<Rightarrow> string \<Rightarrow> int \<Rightarrow> drive_db \<Rightarrow> (service_error + string) \<times> drive_db" where
  "list_drive_items env mysql owner folder_id db =
     (if folder_id < 0 then (Inl (service_fail ErrInvalidArgument ''invalid folder_id''), db)
      else (case folder_exists env mysql owner folder_id db of
        (None, db1) \<Rightarrow> (Inl unset_error, db1)
      | (Some False, db1) \<Rightarrow> (Inl (service_fail ErrNotFound ''folder not found''), db1)
      | (Some True, db1) \<Rightarrow>
          (case fetch_drive_folders env mysql owner folder_id db1 of
             (None, db2) \<Rightarrow> (Inl unset_error, db2)
           | (Some folders, db2) \<Rightarrow>
               (case fetch_drive_files env mysql owner folder_id db2 of
                  (None, db3) \<Rightarrow> (Inl unset_error, db3)
                | (Some files, db3) \<Rightarrow> (Inr (build_drive_items_json folder_id folders files), db3)))))"

subsection \<open>Recycle bin and visibility\<close>

definition list_trash_items :: "drive_env \<Rightarrow> bool \<Rightarrow> string \<Rightarrow> drive_db \<Rightarrow> string option \<times> drive_db" where
  "list_trash_items env mysql owner db =
     (case fetch_trash_files env mysql owner db of (files, db1) \<Rightarrow> (map_option build_trash_items_json files, db1))"

definition soft_delete_file :: "drive_env \<Rightarrow> bool \<Rightarrow> string \<Rightarrow> int \<Rightarrow> drive_db \<Rightarrow> (service_error + managed_file) \<times> drive_db" where
  "soft_delete_file env mysql owner file_id db =
     (case load_owned_file_record env mysql owner file_id False db of
        (Inl e, db1) \<Rightarrow> (Inl e, db1)
      | (Inr r, db1) \<Rightarrow>
          (case repo_soft_delete_file env mysql file_id db1 of
             (False, db2) \<Rightarrow> (Inl unset_error, db2)
           | (True, db2) \<Rightarrow> (Inr r, db2)))"

definition restore_file :: "drive_env \<Rightarrow> bool \<Rightarrow> string \<Rightarrow> int \<Rightarrow> drive_db \<Rightarrow> (service_error + managed_file) \<times> drive_db" where
  "restore_file env mysql owner file_id db =
     (case load_owned_file_record env mysql owner file_id True db of
        (Inl e, db1) \<Rightarrow> (Inl e, db1)
      | (Inr r, db1) \<Rightarrow>
          if \<not> mf_is_deleted r then (Inl (service_fail ErrConflict ''file is not in recycle bin''), db1)
          else (case folder_exists env mysql owner (mf_folder r) db1 of
            (None, db2) \<Rightarrow> (Inl unset_error, db2)
          | (Some found, db2) \<Rightarrow>
              let restore_folder_id = (if found then mf_folder r else 0) in
              (case ensure_unique_owned_filename env mysql owner (mf_name r) restore_folder_id (mf_id r) db2 of
                 (restored_name, db3) \<Rightarrow>
                   (case repo_restore_file env mysql owner file_id restore_folder_id restored_name db3 of
                      (False, db4) \<Rightarrow> (Inl unset_error, db4)
                    | (True, db4) \<Rightarrow>
                        (Inr (r\<lparr>mf_folder := restore_folder_id, mf_name := restored_name, mf_public := False,
                                mf_is_deleted := False, mf_deleted_at := []\<rparr>), db4)))))"

definition validate_hard_delete_candidate :: "managed_file \<Rightarrow> string \<Rightarrow> service_error option" where
  "validate_hard_delete_candidate r owner =
     (if mf_owner r \<noteq> owner then Some (service_fail ErrForbidden ''forbidden'')
      else if \<not> mf_is_deleted r
        then Some (service_fail ErrConflict ''file must be moved to recycle bin before permanent deletion'')
      else None)"

text \<open>The work of the transaction: the record and whether the physical row was deleted.\<close>

definition hard_delete_work :: "drive_env \<Rightarrow> bool \<Rightarrow> string \<Rightarrow> int \<Rightarrow> drive_db \<Rightarrow> (service_error + managed_file \<times> bool) \<times> drive_db" where
  "hard_delete_work env mysql owner file_id db =
     (case fetch_file_record env mysql file_id True db of
        (None, db1) \<Rightarrow> (Inl (service_fail ErrNotFound ''file not found''), db1)
      | (Some r, db1) \<Rightarrow>
          (case validate_hard_delete_candidate r owner of
             Some e \<Rightarrow> (Inl e, db1)
           | None \<Rightarrow>
               (case repo_hard_delete_file env mysql owner file_id db1 of
                  (False, db2) \<Rightarrow> (Inl unset_error, db2)
                | (True, db2) \<Rightarrow>
                    if mf_physical r > 0 then
                      (case delete_physical_file_if_unreferenced env mysql (mf_physical r) db2 of
                         ((False, _), db3) \<Rightarrow> (Inl unset_error, db3)
                       | ((True, physical_deleted), db3) \<Rightarrow> (Inr (r, physical_deleted), db3))
                    else (Inr (r, False), db2))))"

definition hard_delete_file :: "drive_env \<Rightarrow> disk_env \<Rightarrow> bool \<Rightarrow> string \<Rightarrow> string \<Rightarrow> int \<Rightarrow> drive_db \<Rightarrow> disk
    \<Rightarrow> (service_error + managed_file) \<times> drive_db \<times> disk" where
  "hard_delete_file env denv mysql doc_root owner file_id db d =
     (case with_transaction env mysql (\<lambda>db d. case hard_delete_work env mysql owner file_id db of (r, db1) \<Rightarrow> (r, db1, d)) db d of
        (Inl e, db1, d1) \<Rightarrow> (Inl e, db1, d1)
      | (Inr (r, physical_deleted), db1, d1) \<Rightarrow>
          (Inr r, db1, if physical_deleted \<and> mf_stored r \<noteq> []
                       then snd (remove_file denv (build_file_disk_path doc_root (mf_stored r)) d1) else d1))"

text \<open>The files are deleted one by one; the first failure ends the loop.\<close>

fun empty_trash_loop :: "drive_env \<Rightarrow> disk_env \<Rightarrow> bool \<Rightarrow> string \<Rightarrow> string \<Rightarrow> int list \<Rightarrow> int \<Rightarrow> drive_db \<Rightarrow> disk
    \<Rightarrow> (service_error + int) \<times> drive_db \<times> disk" where
  "empty_trash_loop env denv mysql doc_root owner [] count db d = (Inr count, db, d)"
| "empty_trash_loop env denv mysql doc_root owner (i # is) count db d =
     (case hard_delete_file env denv mysql doc_root owner i db d of
        (Inl e, db1, d1) \<Rightarrow> (Inl e, db1, d1)
      | (Inr _, db1, d1) \<Rightarrow> empty_trash_loop env denv mysql doc_root owner is (count + 1) db1 d1)"

definition empty_trash :: "drive_env \<Rightarrow> disk_env \<Rightarrow> bool \<Rightarrow> string \<Rightarrow> string \<Rightarrow> drive_db \<Rightarrow> disk
    \<Rightarrow> (service_error + int) \<times> drive_db \<times> disk" where
  "empty_trash env denv mysql doc_root owner db d =
     (case fetch_trash_file_ids env mysql owner db of
        (None, db1) \<Rightarrow> (Inl unset_error, db1, d)
      | (Some ids, db1) \<Rightarrow> empty_trash_loop env denv mysql doc_root owner ids 0 db1 d)"

definition update_file_visibility :: "drive_env \<Rightarrow> bool \<Rightarrow> string \<Rightarrow> int \<Rightarrow> bool \<Rightarrow> drive_db \<Rightarrow> (service_error + managed_file) \<times> drive_db" where
  "update_file_visibility env mysql owner file_id is_public db =
     (case load_owned_file_record env mysql owner file_id False db of
        (Inl e, db1) \<Rightarrow> (Inl e, db1)
      | (Inr r, db1) \<Rightarrow>
          (case repo_update_file_visibility env mysql file_id is_public db1 of
             (False, db2) \<Rightarrow> (Inl unset_error, db2)
           | (True, db2) \<Rightarrow> (Inr r, db2)))"

end
