(* ===== verification/Upload_Service.thy ===== *)
theory Upload_Service
  imports File_Service
begin

text \<open>
  The upload service (src/service/files/upload_service.cpp): the quota, and the upload itself, which
  stores the content once per digest and the file row that refers to it, in one transaction.
\<close>

record upload_payload =
  pl_filename :: string
  pl_content :: string
  pl_type :: string
  pl_temp_path :: string
  pl_sha :: string
  pl_folder :: int
  pl_size :: int
  pl_use_temp :: bool

record upload_result =
  ur_file_id :: int
  ur_folder :: int
  ur_physical :: int
  ur_filename :: string
  ur_size :: int
  ur_public :: bool
  ur_deduplicated :: bool
  ur_sha :: string

record upload_quota =
  uq_max_single :: int
  uq_max_total :: int

record quota_status =
  qs_requested :: int
  qs_used :: int
  qs_remaining :: int
  qs_max_single :: int
  qs_max_total :: int
  qs_allowed :: bool
  qs_reason :: string

definition kStoredNamePrefixLength :: nat where "kStoredNamePrefixLength = 24"

definition build_upload_success_json :: "upload_result \<Rightarrow> string" where
  "build_upload_success_json r =
     ''{'' @ number_field ''code'' 0 @ '','' @ quoted ''message'' @ '':'' @ quoted ''upload success'' @ '','' @ quoted ''file'' @ '':{''
       @ number_field ''id'' (ur_file_id r) @ '','' @ text_field ''filename'' (ur_filename r) @ '',''
       @ number_field ''folder_id'' (ur_folder r) @ '','' @ number_field ''physical_id'' (ur_physical r) @ '',''
       @ number_field ''size'' (ur_size r) @ '','' @ flag_field ''is_public'' (ur_public r) @ '',''
       @ flag_field ''deduplicated'' (ur_deduplicated r) @ '','' @ text_field ''sha256'' (ur_sha r) @ ''}}''"

definition build_upload_preflight_json :: "quota_status \<Rightarrow> string" where
  "build_upload_preflight_json s =
     ''{'' @ number_field ''code'' 0 @ '','' @ flag_field ''allowed'' (qs_allowed s) @ '',''
       @ number_field ''requested_bytes'' (qs_requested s) @ '','' @ number_field ''used_bytes'' (qs_used s) @ '',''
       @ number_field ''remaining_bytes'' (qs_remaining s) @ '','' @ number_field ''max_single_file_bytes'' (qs_max_single s) @ '',''
       @ number_field ''max_total_bytes'' (qs_max_total s) @ '','' @ quoted ''reason'' @ '':''
       @ (if qs_reason s = [] then ''null'' else quoted (json_escape (qs_reason s))) @ ''}''"

subsection \<open>Quota\<close>

text \<open>
  The answer, the status and the error that was set, if any: a request that is not allowed is
  answered with true, a status that says so and an error.
\<close>

definition evaluate_upload_quota :: "int \<Rightarrow> int \<Rightarrow> upload_quota \<Rightarrow> bool \<times> quota_status \<times> service_error" where
  "evaluate_upload_quota requested_bytes used_bytes quota =
     (let s0 = \<lparr>qs_requested = requested_bytes, qs_used = used_bytes, qs_remaining = 0, qs_max_single = uq_max_single quota,
               qs_max_total = uq_max_total quota, qs_allowed = False, qs_reason = []\<rparr>;
          remaining = (if uq_max_total quota > 0 \<and> used_bytes < uq_max_total quota then uq_max_total quota - used_bytes else 0);
          s = s0\<lparr>qs_remaining := remaining\<rparr>
      in if requested_bytes < 0 then (False, s0\<lparr>qs_reason := ''invalid file size''\<rparr>, service_fail ErrInvalidArgument ''invalid file size'')
         else if uq_max_single quota > 0 \<and> requested_bytes > uq_max_single quota then
           (let reason = ''file exceeds single file limit of '' @ int_to_string (uq_max_single quota) @ '' bytes''
            in (True, s\<lparr>qs_reason := reason\<rparr>, service_fail ErrPayloadTooLarge reason))
         else if uq_max_total quota > 0 \<and> requested_bytes > remaining then
           (True, s\<lparr>qs_reason := ''user storage quota exceeded''\<rparr>, service_fail ErrConflict ''user storage quota exceeded'')
         else (True, s\<lparr>qs_allowed := True\<rparr>, unset_error))"

definition inspect_upload_quota :: "drive_env \<Rightarrow> bool \<Rightarrow> string \<Rightarrow> int \<Rightarrow> upload_quota \<Rightarrow> drive_db
    \<Rightarrow> (service_error + quota_status \<times> service_error) \<times> drive_db" where
  "inspect_upload_quota env mysql owner requested_bytes quota db =
     (let answer = (\<lambda>(ok, s, e). if ok then Inr (s, e) else Inl e) in
      if requested_bytes < 0 then (answer (evaluate_upload_quota requested_bytes 0 quota), db)
      else (case fetch_user_storage_usage env mysql owner db of
              (None, db1) \<Rightarrow> (Inl unset_error, db1)
            | (Some used, db1) \<Rightarrow> (answer (evaluate_upload_quota requested_bytes used quota), db1)))"

subsection \<open>Upload\<close>

definition materialize_upload_payload :: "disk_env \<Rightarrow> upload_payload \<Rightarrow> string \<Rightarrow> disk \<Rightarrow> bool \<times> disk" where
  "materialize_upload_payload denv p disk_path d =
     (if pl_use_temp p then move_file_or_copy denv (pl_temp_path p) disk_path d
      else write_file denv disk_path (pl_content p) d)"

text \<open>
  The content of a physical row that is already there: if its file exists the upload shares it and
  its own temporary file is dropped; else the content is put back. The result: whether the content
  was shared, unless the disk failed.
\<close>

definition reuse_physical :: "disk_env \<Rightarrow> string \<Rightarrow> upload_payload \<Rightarrow> physical_row \<Rightarrow> disk \<Rightarrow> bool option \<times> disk" where
  "reuse_physical denv doc_root p ph d =
     (let disk_path = build_file_disk_path doc_root (pr_stored ph) in
      if file_exists disk_path d
      then (Some True, if pl_use_temp p then snd (remove_file denv (pl_temp_path p) d) else d)
      else (case materialize_upload_payload denv p disk_path d of
              (False, d1) \<Rightarrow> (None, d1)
            | (True, d1) \<Rightarrow> (Some False, d1)))"

definition new_stored_name :: "string \<Rightarrow> upload_payload \<Rightarrow> string" where
  "new_stored_name stored_name_prefix p =
     take kStoredNamePrefixLength stored_name_prefix
       @ (if pl_sha p = [] then [] else ''_'' @ take 12 (pl_sha p)) @ file_extension (pl_filename p)"

text \<open>
  The physical file of the upload: its row, whether its content was shared, and the path of the
  content if the row is new.
\<close>

definition upload_physical :: "drive_env \<Rightarrow> disk_env \<Rightarrow> bool \<Rightarrow> string \<Rightarrow> string \<Rightarrow> upload_payload \<Rightarrow> drive_db \<Rightarrow> disk
    \<Rightarrow> (physical_row \<times> bool \<times> string option) option \<times> drive_db \<times> disk" where
  "upload_physical env denv mysql doc_root stored_name_prefix p db d =
     (case fetch_physical_file_by_sha256 env mysql (pl_sha p) db of
        (Some ph, db1) \<Rightarrow>
          (case reuse_physical denv doc_root p ph d of (r, d1) \<Rightarrow> (map_option (\<lambda>dedup. (ph, dedup, None)) r, db1, d1))
      | (None, db1) \<Rightarrow>
          let stored_name = new_stored_name stored_name_prefix p in
          (case insert_physical_file env mysql (pl_sha p) stored_name (pl_size p) db1 of
             (None, db2) \<Rightarrow>
               if dv_errno db2 = ER_DUP_ENTRY then
                 (case fetch_physical_file_by_sha256 env mysql (pl_sha p) db2 of
                    (Some ph, db3) \<Rightarrow>
                      (case reuse_physical denv doc_root p ph d of (r, d1) \<Rightarrow> (map_option (\<lambda>dedup. (ph, dedup, None)) r, db3, d1))
                  | (None, db3) \<Rightarrow> (None, db3, d))
               else (None, db2, d)
           | (Some physical_id, db2) \<Rightarrow>
               let disk_path = build_file_disk_path doc_root stored_name in
               (case materialize_upload_payload denv p disk_path d of
                  (False, d1) \<Rightarrow> (None, db2, d1)
                | (True, d1) \<Rightarrow>
                    (Some (\<lparr>pr_id = physical_id, pr_sha = pl_sha p, pr_stored = stored_name, pr_size = pl_size p, pr_refs = 0\<rparr>,
                           False, Some disk_path), db2, d1))))"

definition file_create_of :: "string \<Rightarrow> upload_payload \<Rightarrow> physical_row \<Rightarrow> bool \<Rightarrow> file_create" where
  "file_create_of owner p ph is_public =
     \<lparr>fc_owner = owner, fc_stored = pr_stored ph, fc_name = pl_filename p, fc_type = pl_type p, fc_physical = pr_id ph,
      fc_folder = pl_folder p, fc_size = pl_size p, fc_public = is_public, fc_sha = pl_sha p\<rparr>"

definition drop_new_content :: "disk_env \<Rightarrow> string option \<Rightarrow> disk \<Rightarrow> disk" where
  "drop_new_content denv created d = (case created of None \<Rightarrow> d | Some path \<Rightarrow> snd (remove_file denv path d))"

text \<open>The file row, once the physical file is there. \<open>failpoint\<close>: \<open>TWS_TEST_FAIL_UPLOAD_BEFORE_COMMIT\<close> is set.\<close>

definition upload_file_row :: "drive_env \<Rightarrow> disk_env \<Rightarrow> bool \<Rightarrow> string \<Rightarrow> upload_payload \<Rightarrow> bool \<Rightarrow> bool
    \<Rightarrow> physical_row \<times> bool \<times> string option \<Rightarrow> drive_db \<Rightarrow> disk \<Rightarrow> (service_error + upload_result) \<times> drive_db \<times> disk" where
  "upload_file_row env denv mysql owner p is_public failpoint stored db d =
     (case stored of (ph, dedup, created) \<Rightarrow>
        (case insert_file env mysql (file_create_of owner p ph is_public) db of
           (None, db1) \<Rightarrow>
             (Inl (if dv_errno db1 = ER_DUP_ENTRY then service_fail ErrConflict ''file name already exists'' else unset_error),
              db1, drop_new_content denv created d)
         | (Some file_id, db1) \<Rightarrow>
             if created \<noteq> None \<and> failpoint
             then (Inl (service_fail ErrConflict ''test failpoint before upload commit''), db1, drop_new_content denv created d)
             else (Inr \<lparr>ur_file_id = file_id, ur_folder = pl_folder p, ur_physical = pr_id ph, ur_filename = pl_filename p,
                        ur_size = pl_size p, ur_public = is_public, ur_deduplicated = dedup, ur_sha = pl_sha p\<rparr>, db1, d)))"

text \<open>The work of the transaction.\<close>

definition upload_work :: "drive_env \<Rightarrow> disk_env \<Rightarrow> bool \<Rightarrow> string \<Rightarrow> string \<Rightarrow> string \<Rightarrow> upload_payload \<Rightarrow> bool \<Rightarrow> upload_quota \<Rightarrow> bool
    \<Rightarrow> drive_db \<Rightarrow> disk \<Rightarrow> (service_error + upload_result) \<times> drive_db \<times> disk" where
  "upload_work env denv mysql doc_root owner stored_name_prefix p is_public quota failpoint db d =
     (case lock_user_for_update env mysql owner db of
        (False, db1) \<Rightarrow> (Inl unset_error, db1, d)
      | (True, db1) \<Rightarrow>
          (case inspect_upload_quota env mysql owner (pl_size p) quota db1 of
             (Inl _, db2) \<Rightarrow> (Inl unset_error, db2, d)
           | (Inr (status, e), db2) \<Rightarrow>
               if \<not> qs_allowed status then (Inl e, db2, d)
               else (case folder_exists env mysql owner (pl_folder p) db2 of
                 (None, db3) \<Rightarrow> (Inl unset_error, db3, d)
               | (Some False, db3) \<Rightarrow> (Inl (service_fail ErrNotFound ''folder not found''), db3, d)
               | (Some True, db3) \<Rightarrow>
                   (case ensure_unique_owned_filename env mysql owner (pl_filename p) (pl_folder p) 0 db3 of
                      (name, db4) \<Rightarrow>
                        let p1 = p\<lparr>pl_filename := name\<rparr> in
                        (case upload_physical env denv mysql doc_root stored_name_prefix p1 db4 d of
                           (None, db5, d1) \<Rightarrow> (Inl unset_error, db5, d1)
                         | (Some stored, db5, d1) \<Rightarrow> upload_file_row env denv mysql owner p1 is_public failpoint stored db5 d1)))))"

text \<open>\<open>sha\<close> is the digest; an empty digest of the payload is computed from its content.\<close>

definition create_uploaded_file :: "drive_env \<Rightarrow> disk_env \<Rightarrow> (string \<Rightarrow> string) \<Rightarrow> bool \<Rightarrow> bool \<Rightarrow> string \<Rightarrow> string \<Rightarrow> string
    \<Rightarrow> upload_payload \<Rightarrow> bool \<Rightarrow> upload_quota \<Rightarrow> drive_db \<Rightarrow> disk \<Rightarrow> (service_error + upload_result) \<times> drive_db \<times> disk" where
  "create_uploaded_file env denv sha failpoint mysql doc_root owner stored_name_prefix payload is_public quota db d =
     (case disk_ensure_directory denv (file_storage_root doc_root) d of
        (False, d1) \<Rightarrow> (Inl unset_error, db, d1)
      | (True, d1) \<Rightarrow>
          let p = (if pl_sha payload = [] \<and> pl_content payload \<noteq> [] then payload\<lparr>pl_sha := sha256_hex sha (pl_content payload)\<rparr>
                   else payload)
          in if pl_sha p = [] then (Inl unset_error, db, d1)
             else with_transaction env mysql (upload_work env denv mysql doc_root owner stored_name_prefix p is_public quota failpoint) db d1)"

end
