(* ===== verification/Share_Service.thy ===== *)
theory Share_Service
  imports File_Service
begin

text \<open>
  The share service (src/service/files/share_service.cpp): links to a file with an access code, an
  end and a number of downloads. The random bytes of the tokens are arguments, one per attempt.
\<close>

record share_options =
  so_code :: string
  so_expires_in :: int
  so_max :: int

record share_result =
  sx_token :: string
  sx_file_id :: int
  sx_filename :: string
  sx_type :: string
  sx_size :: int
  sx_sha :: string
  sx_has_code :: bool
  sx_expires_at :: string
  sx_max :: int
  sx_count :: int

definition make_share_token :: "string option \<Rightarrow> string" where
  "make_share_token bytes = (case bytes of None \<Rightarrow> [] | Some b \<Rightarrow> encode_hex b)"

definition access_code_hash :: "(string \<Rightarrow> string) \<Rightarrow> string \<Rightarrow> string" where
  "access_code_hash sha access_code = (if access_code = [] then [] else sha256_hex sha access_code)"

definition fill_share_result :: "share_record \<Rightarrow> share_result" where
  "fill_share_result r = \<lparr>sx_token = sr_token r, sx_file_id = sr_file_id r, sx_filename = mf_name (sr_file r),
     sx_type = mf_type (sr_file r), sx_size = mf_size (sr_file r), sx_sha = mf_sha (sr_file r),
     sx_has_code = (sr_code r \<noteq> []), sx_expires_at = sr_expires_at r, sx_max = sr_max r, sx_count = sr_count r\<rparr>"

definition load_shareable_file_record :: "drive_env \<Rightarrow> bool \<Rightarrow> string \<Rightarrow> int \<Rightarrow> drive_db \<Rightarrow> (service_error + managed_file) \<times> drive_db" where
  "load_shareable_file_record env mysql requester file_id db =
     (case fetch_file_record env mysql file_id False db of
        (None, db1) \<Rightarrow> (Inl (service_fail ErrNotFound ''file not found''), db1)
      | (Some r, db1) \<Rightarrow>
          (if mf_owner r \<noteq> requester \<and> \<not> mf_public r then Inl (service_fail ErrForbidden ''forbidden'') else Inr r, db1))"

definition build_share_json :: "share_result \<Rightarrow> string" where
  "build_share_json s =
     ''{'' @ number_field ''code'' 0 @ '','' @ quoted ''share'' @ '':{'' @ text_field ''token'' (sx_token s) @ '',''
       @ number_field ''file_id'' (sx_file_id s) @ '','' @ text_field ''filename'' (sx_filename s) @ '',''
       @ text_field ''content_type'' (sx_type s) @ '','' @ number_field ''size'' (sx_size s) @ '','' @ text_field ''sha256'' (sx_sha s) @ '',''
       @ flag_field ''has_access_code'' (sx_has_code s) @ '','' @ quoted ''expires_at'' @ '':''
       @ (if sx_expires_at s = [] then ''null'' else quoted (json_escape (sx_expires_at s))) @ '',''
       @ number_field ''max_downloads'' (sx_max s) @ '','' @ number_field ''download_count'' (sx_count s) @ '',''
       @ quoted ''share_url'' @ '':'' @ quoted (''/share?token='' @ json_escape (sx_token s)) @ '',''
       @ quoted ''detail_url'' @ '':'' @ quoted (''/api/share/'' @ json_escape (sx_token s)) @ '',''
       @ quoted ''download_url'' @ '':'' @ quoted (''/api/share/'' @ json_escape (sx_token s) @ ''/download'') @ ''}}''"

definition validate_share_options :: "share_options \<Rightarrow> service_error option" where
  "validate_share_options options =
     (if so_expires_in options < 0 \<or> so_max options < 0 then Some (service_fail ErrInvalidArgument ''invalid share limits'')
      else if length (so_code options) > 32 then Some (service_fail ErrInvalidArgument ''access code is too long'')
      else None)"

definition validate_share_access_candidate :: "(string \<Rightarrow> string) \<Rightarrow> share_record \<Rightarrow> string \<Rightarrow> service_error option" where
  "validate_share_access_candidate sha r access_code =
     (if mf_is_deleted (sr_file r) then Some (service_fail ErrNotFound ''shared file not found'')
      else if sr_is_expired r then Some (service_fail ErrGone ''share link expired'')
      else if sr_max r > 0 \<and> sr_count r \<ge> sr_max r then Some (service_fail ErrTooManyRequests ''share download limit reached'')
      else if sr_code r \<noteq> [] then
        (if access_code = [] then Some (service_fail ErrForbidden ''access code required'')
         else if access_code_hash sha access_code \<noteq> sr_code r then Some (service_fail ErrForbidden ''invalid access code'')
         else None)
      else None)"

text \<open>The attempts with a new token each; the list holds the random bytes of the attempts left.\<close>

fun share_attempts :: "drive_env \<Rightarrow> bool \<Rightarrow> share_create \<Rightarrow> string option list \<Rightarrow> drive_db \<Rightarrow> (service_error + share_result) \<times> drive_db" where
  "share_attempts env mysql share [] db = (Inl unset_error, db)"
| "share_attempts env mysql share (bytes # others) db =
     (let token = make_share_token bytes in
      if token = [] then (Inl unset_error, db)
      else (case insert_file_share env mysql (share\<lparr>sc_token := token\<rparr>) db of
        (True, db1) \<Rightarrow>
          (case fetch_file_share env mysql token db1 of
             (None, db2) \<Rightarrow> (Inl unset_error, db2)
           | (Some stored, db2) \<Rightarrow> (Inr (fill_share_result stored), db2))
      | (False, db1) \<Rightarrow> share_attempts env mysql share others db1))"

definition create_share_link :: "drive_env \<Rightarrow> (string \<Rightarrow> string) \<Rightarrow> string option list \<Rightarrow> bool \<Rightarrow> string \<Rightarrow> int \<Rightarrow> share_options \<Rightarrow> drive_db
    \<Rightarrow> (service_error + share_result) \<times> drive_db" where
  "create_share_link env sha rand mysql owner file_id options db =
     (case validate_share_options options of
        Some e \<Rightarrow> (Inl e, db)
      | None \<Rightarrow>
          (case load_shareable_file_record env mysql owner file_id db of
             (Inl e, db1) \<Rightarrow> (Inl e, db1)
           | (Inr _, db1) \<Rightarrow>
               share_attempts env mysql
                 \<lparr>sc_token = [], sc_file = file_id, sc_owner = owner, sc_code = access_code_hash sha (so_code options),
                  sc_expires_in = so_expires_in options, sc_max = so_max options\<rparr> (take 3 rand) db1))"

definition load_share_detail :: "drive_env \<Rightarrow> (string \<Rightarrow> string) \<Rightarrow> bool \<Rightarrow> string \<Rightarrow> string \<Rightarrow> drive_db \<Rightarrow> (service_error + share_result) \<times> drive_db" where
  "load_share_detail env sha mysql token access_code db =
     (case fetch_file_share env mysql token db of
        (None, db1) \<Rightarrow> (Inl (service_fail ErrNotFound ''share link not found''), db1)
      | (Some share, db1) \<Rightarrow>
          (case validate_share_access_candidate sha share access_code of
             Some e \<Rightarrow> (Inl e, db1)
           | None \<Rightarrow> (Inr (fill_share_result share), db1)))"

definition load_share_download :: "drive_env \<Rightarrow> (string \<Rightarrow> string) \<Rightarrow> bool \<Rightarrow> string \<Rightarrow> string \<Rightarrow> drive_db
    \<Rightarrow> (service_error + managed_file \<times> share_result) \<times> drive_db" where
  "load_share_download env sha mysql token access_code db =
     (case fetch_file_share env mysql token db of
        (None, db1) \<Rightarrow> (Inl (service_fail ErrNotFound ''share link not found''), db1)
      | (Some share, db1) \<Rightarrow>
          (case validate_share_access_candidate sha share access_code of
             Some e \<Rightarrow> (Inl e, db1)
           | None \<Rightarrow>
               (case increment_file_share_download_count env mysql token db1 of
                  (False, db2) \<Rightarrow> (Inl (service_fail ErrTooManyRequests ''share download limit reached''), db2)
                | (True, db2) \<Rightarrow>
                    let share1 = share\<lparr>sr_count := sr_count share + 1\<rparr>
                    in (Inr (sr_file share1, fill_share_result share1), db2))))"

end
