(* ===== verification/Drive.thy ===== *)
theory Drive
  imports Upload_Service Share_Service
begin

text \<open>
  The drive as a whole: every call of the file, upload and share services on the tables and the
  disk, in any order and with any failure of the database or the disk, and what holds of every
  state they reach.
\<close>

subsection \<open>Services that leave the physical files\<close>

text \<open>
  \<open>keeps P x\<close>: the state after the call \<open>x\<close> has \<open>P\<close>. The rules follow the shape of the service
  functions, one per construct of the model and one per statement.
\<close>

definition keeps :: "('s \<Rightarrow> bool) \<Rightarrow> 'r \<times> 's \<Rightarrow> bool" where
  "keeps P x \<longleftrightarrow> P (snd x)"

named_theorems keeps_intros \<open>rules for keeps, one per construct\<close>

lemma keeps_constructs [keeps_intros]:
  "P db \<Longrightarrow> keeps P (r, db)"
  "keeps P x \<Longrightarrow> (\<And>r db. P db \<Longrightarrow> keeps P (h r db)) \<Longrightarrow> keeps P (case x of (r, db) \<Rightarrow> h r db)"
  "keeps P a \<Longrightarrow> (\<And>v. keeps P (g v)) \<Longrightarrow> keeps P (case o1 of None \<Rightarrow> a | Some v \<Rightarrow> g v)"
  "(\<And>u. keeps P (g1 u)) \<Longrightarrow> (\<And>v. keeps P (g2 v)) \<Longrightarrow> keeps P (case s1 of Inl u \<Rightarrow> g1 u | Inr v \<Rightarrow> g2 v)"
  "keeps P a \<Longrightarrow> keeps P b \<Longrightarrow> keeps P (if c then a else b)"
  "keeps P a \<Longrightarrow> keeps P b \<Longrightarrow> keeps P (case c of True \<Rightarrow> a | False \<Rightarrow> b)"
  by (auto simp: keeps_def split: prod.splits option.splits sum.splits bool.splits)

lemma keepsI: "(\<And>r db. x = (r, db) \<Longrightarrow> P db) \<Longrightarrow> keeps P x"
  by (cases x) (simp add: keeps_def)

lemma keepsD: "keeps P x \<Longrightarrow> x = (r, db) \<Longrightarrow> P db"
  by (simp add: keeps_def)

lemma keeps_statements [keeps_intros]:
  assumes s: "steady env A sv K db"
  shows "keeps (steady env A sv K) (fetch_file_record env mysql i incl db)"
    "keeps (steady env A sv K) (original_name_exists env mysql owner name folder ign db)"
    "keeps (steady env A sv K) (folder_exists env mysql owner folder db)"
    "keeps (steady env A sv K) (folder_name_exists env mysql owner folder name db)"
    "keeps (steady env A sv K) (fetch_folder env mysql owner folder db)"
    "keeps (steady env A sv K) (folder_has_active_children env mysql owner folder db)"
    "keeps (steady env A sv K) (fetch_file_share env mysql token db)"
    "keeps (steady env A sv K) (insert_folder env mysql owner folder name db)"
    "keeps (steady env A sv K) (soft_delete_folder env mysql owner folder db)"
    "keeps (steady env A sv K) (insert_file_share env mysql share db)"
    "keeps (steady env A sv K) (increment_file_share_download_count env mysql token db)"
    "keeps (steady env A sv K) (repo_soft_delete_file env mysql i db)"
    "keeps (steady env A sv K) (repo_update_file_visibility env mysql i b db)"
    "keeps (steady env A sv K) (repo_hard_delete_file env mysql owner i db)"
    "keeps (steady env A sv K) (lock_user_for_update env mysql owner db)"
    "keeps (steady env A sv K) (fetch_user_storage_usage env mysql owner db)"
    "keeps (steady env A sv K) (fetch_physical_file_by_sha256 env mysql sha256 db)"
    "keeps (steady env A sv K) (fetch_trash_file_ids env mysql owner db)"
    "keeps (steady env A sv K) (fetch_trash_files env mysql owner db)"
    "keeps (steady env A sv K) (fetch_drive_files env mysql owner folder db)"
    "keeps (steady env A sv K) (fetch_drive_folders env mysql owner folder db)"
    "keeps (steady env A sv K) (fetch_public_file_page_ids env mysql cursor limit db)"
    "keeps (steady env A sv K) (fetch_public_file_list env mysql ids db)"
    "collation_ok env \<Longrightarrow> keeps (steady env A sv K) (repo_restore_file env mysql owner i folder name db)"
  by (rule keepsI, erule keeps_steady[OF s]; assumption)+

lemma keeps_unique_name [keeps_intros]:
  "steady env A sv K db \<Longrightarrow> keeps (steady env A sv K) (unique_name_loop env mysql owner base folder ign index left db)"
proof (induction left arbitrary: index db)
  case (Suc left)
  show ?case unfolding unique_name_loop.simps Let_def by (intro keeps_intros Suc)
qed (simp add: keeps_def)

lemma keeps_ensure_unique [keeps_intros]:
  "steady env A sv K db \<Longrightarrow> keeps (steady env A sv K) (ensure_unique_owned_filename env mysql owner base folder ign db)"
  unfolding ensure_unique_owned_filename_def Let_def by (rule keeps_unique_name)

lemma keeps_load_owned [keeps_intros]:
  "steady env A sv K db \<Longrightarrow> keeps (steady env A sv K) (load_owned_file_record env mysql owner i incl db)"
  unfolding load_owned_file_record_def by (intro keeps_intros; assumption)

lemma keeps_share_attempts [keeps_intros]:
  "steady env A sv K db \<Longrightarrow> keeps (steady env A sv K) (share_attempts env mysql share rand db)"
proof (induction rand arbitrary: db)
  case (Cons bytes rand)
  show ?case unfolding share_attempts.simps Let_def by (intro keeps_intros Cons)
qed (simp add: keeps_def)

lemma keeps_services:
  assumes s: "steady env A sv K db" and c: "collation_ok env"
  shows "keeps (steady env A sv K) (create_folder env mysql owner parent name db)"
    "keeps (steady env A sv K) (delete_empty_folder env mysql owner folder db)"
    "keeps (steady env A sv K) (list_drive_items env mysql owner folder db)"
    "keeps (steady env A sv K) (list_trash_items env mysql owner db)"
    "keeps (steady env A sv K) (load_public_file_record env mysql i db)"
    "keeps (steady env A sv K) (soft_delete_file env mysql owner i db)"
    "keeps (steady env A sv K) (restore_file env mysql owner i db)"
    "keeps (steady env A sv K) (update_file_visibility env mysql owner i b db)"
    "keeps (steady env A sv K) (create_share_link env sha rand mysql owner i options db)"
    "keeps (steady env A sv K) (load_share_detail env sha mysql token code db)"
    "keeps (steady env A sv K) (load_share_download env sha mysql token code db)"
  unfolding create_folder_def delete_empty_folder_def list_drive_items_def list_trash_items_def
    load_public_file_record_def soft_delete_file_def restore_file_def update_file_visibility_def create_share_link_def
    load_shareable_file_record_def load_share_detail_def load_share_download_def Let_def
  by (intro keeps_intros s c; assumption)+

lemma keeps_pair: "(\<And>a b. keeps P (h a b)) \<Longrightarrow> keeps P (case v of (a, b) \<Rightarrow> h a b)"
  by (cases v) simp

lemma keeps_list_public:
  assumes s: "steady env A sv K db"
  shows "keeps (steady env A sv K) (list_public_files env mysql cursor limit db)"
  unfolding list_public_files_def
  by (intro keeps_intros s; (assumption | (rule keeps_pair, intro keeps_intros; assumption)))

subsection \<open>Contents on the disk\<close>

text \<open>
  The system opens no directory for writing and renames nothing onto one, so far as the paths of the
  store are concerned.
\<close>

definition in_store :: "string \<Rightarrow> string \<Rightarrow> bool" where
  "in_store root path \<longleftrightarrow> (\<exists>s. CHR ''/'' \<notin> set s \<and> path = build_file_disk_path root s)"

definition os_ok :: "disk_env \<Rightarrow> string \<Rightarrow> disk \<Rightarrow> bool" where
  "os_ok denv root d \<longleftrightarrow> (\<forall>p. in_store root p \<and> d_dirs d p \<longrightarrow> \<not> de_open_out denv p \<and> (\<forall>q. de_rename denv q p \<noteq> RenameOk))"

lemma in_store_code [code]:
  "in_store root path \<longleftrightarrow> (let base = build_file_disk_path root [] in
     take (length base) path = base \<and> CHR ''/'' \<notin> set (drop (length base) path))"
proof -
  have "path = build_file_disk_path root s \<longleftrightarrow> take (length (build_file_disk_path root [])) path = build_file_disk_path root []
      \<and> drop (length (build_file_disk_path root [])) path = s" for s
    by (metis append_eq_conv_conj append_take_drop_id append_assoc append_Nil2 build_file_disk_path_def)
  then show ?thesis by (auto simp: in_store_def Let_def)
qed

text \<open>Every physical row has its content, with the digest of the row.\<close>

definition holds_content :: "(string \<Rightarrow> string) \<Rightarrow> string \<Rightarrow> string \<Rightarrow> disk \<Rightarrow> bool" where
  "holds_content sha path digest d \<longleftrightarrow> (\<exists>c. d_files d path = Some c \<and> sha256_hex sha c = digest)"

lemma holds_content_code [code]:
  "holds_content sha path digest d \<longleftrightarrow> (case d_files d path of None \<Rightarrow> False | Some c \<Rightarrow> sha256_hex sha c = digest)"
  by (simp add: holds_content_def split: option.splits)

definition contents_ok :: "(string \<Rightarrow> string) \<Rightarrow> string \<Rightarrow> (int \<times> string \<times> string) list \<Rightarrow> disk \<Rightarrow> bool" where
  "contents_ok sha root K d \<longleftrightarrow> disk_ok d \<and> (\<forall>(i, h, s)\<in>set K. CHR ''/'' \<notin> set s \<and> holds_content sha (build_file_disk_path root s) h d)"

lemma path_inj: "build_file_disk_path root s = build_file_disk_path root s' \<longleftrightarrow> s = s'"
  by (simp add: build_file_disk_path_def)

lemma contents_ok_frame:
  assumes "contents_ok sha root K d" "disk_ok d'"
    and "\<And>i h s. (i, h, s) \<in> set K \<Longrightarrow> d_files d' (build_file_disk_path root s) = d_files d (build_file_disk_path root s)"
  shows "contents_ok sha root K d'"
  using assms by (fastforce simp: contents_ok_def holds_content_def)

lemma contents_ok_subset: "contents_ok sha root K d \<Longrightarrow> set K' \<subseteq> set K \<Longrightarrow> contents_ok sha root K' d"
  unfolding contents_ok_def by blast

text \<open>Writing the content of an upload: only its target and its own temporary file change.\<close>

definition payload_ok :: "(string \<Rightarrow> string) \<Rightarrow> string \<Rightarrow> upload_payload \<Rightarrow> disk \<Rightarrow> bool" where
  "payload_ok sha root p d \<longleftrightarrow> hex_text (pl_sha p) \<and>
     (if pl_use_temp p then \<not> in_store root (pl_temp_path p) \<and> holds_content sha (pl_temp_path p) (pl_sha p) d
      else sha256_hex sha (pl_content p) = pl_sha p)"

lemma payload_ok_cong: "d_files d' = d_files d \<Longrightarrow> payload_ok sha root p d' = payload_ok sha root p d"
  by (simp add: payload_ok_def holds_content_def)

lemma move_into_store:
  assumes "disk_ok d" "d_files d source = Some c" "source \<noteq> target" "\<not> d_dirs d target" "target \<noteq> []"
    and "move_file_or_copy denv source target d = (b, d')"
  shows "disk_ok d'" "b \<Longrightarrow> d_files d' target = Some c" "q \<noteq> source \<Longrightarrow> q \<noteq> target \<Longrightarrow> d_files d' q = d_files d q"
  using assms
  by (auto simp: move_file_or_copy_def put_file_def remove_file_def disk_ok_def Let_def
      split: rename_result.splits if_splits prod.splits)

lemma write_into_store:
  assumes "disk_ok d" "\<not> d_dirs d target" "target \<noteq> []" "write_file denv target c d = (b, d')"
  shows "disk_ok d'" "b \<Longrightarrow> d_files d' target = Some c" "q \<noteq> target \<Longrightarrow> d_files d' q = d_files d q"
  using assms
  by (auto simp: write_file_def put_file_def remove_file_def disk_ok_def split: if_splits prod.splits)

lemma materialize_spec:
  assumes "disk_ok d" "os_ok denv root d" "payload_ok sha root p d" "in_store root target"
    and m: "materialize_upload_payload denv p target d = (b, d')"
  shows "disk_ok d'" "b \<Longrightarrow> holds_content sha target (pl_sha p) d'"
    "in_store root q \<Longrightarrow> q \<noteq> target \<Longrightarrow> d_files d' q = d_files d q"
proof -
  have ne: "target \<noteq> []" using assms(4) by (auto simp: in_store_def build_file_disk_path_def)
  have "disk_ok d' \<and> (b \<longrightarrow> holds_content sha target (pl_sha p) d')
    \<and> (in_store root q \<longrightarrow> q \<noteq> target \<longrightarrow> d_files d' q = d_files d q)"
  proof (cases "d_dirs d target")
    case True
    then have "\<not> de_open_out denv target" "\<And>q. de_rename denv q target \<noteq> RenameOk" using assms(2,4) by (auto simp: os_ok_def)
    then have "(b, d') = (False, d)"
      using m by (auto simp: materialize_upload_payload_def move_file_or_copy_def write_file_def Let_def
          split: if_splits option.splits rename_result.splits)
    then show ?thesis using assms(1) by simp
  next
    case False
    show ?thesis
    proof (cases "pl_use_temp p")
      case True
      then obtain c where c: "d_files d (pl_temp_path p) = Some c" "sha256_hex sha c = pl_sha p" and out: "\<not> in_store root (pl_temp_path p)"
        using assms(3) by (auto simp: payload_ok_def holds_content_def)
      have mv: "move_file_or_copy denv (pl_temp_path p) target d = (b, d')" using m True by (simp add: materialize_upload_payload_def)
      have apart: "pl_temp_path p \<noteq> target" using out assms(4) by auto
      note spec = move_into_store[OF assms(1) c(1) apart False ne mv]
      show ?thesis
        using spec(1,2) spec(3)[of q] c out by (cases "q = pl_temp_path p") (auto simp: holds_content_def)
    next
      case temp: False
      have wr: "write_file denv target (pl_content p) d = (b, d')" using m temp by (simp add: materialize_upload_payload_def)
      from write_into_store[OF assms(1) False ne wr] show ?thesis
        using assms(3) temp by (auto simp: holds_content_def payload_ok_def)
    qed
  qed
  then show "disk_ok d'" "b \<Longrightarrow> holds_content sha target (pl_sha p) d'"
    "in_store root q \<Longrightarrow> q \<noteq> target \<Longrightarrow> d_files d' q = d_files d q" by blast+
qed

subsection \<open>Uploads\<close>

lemma extension_no_slash: "CHR ''/'' \<notin> set (file_extension name)"
proof (cases "find_last_of [CHR ''/'', BACKSLASH] name")
  case None
  then have "CHR ''/'' \<notin> set name" by (auto simp: find_last_of_None)
  then show ?thesis by (auto simp: file_extension_def Let_def split: option.splits dest: in_set_dropD)
next
  case (Some k)
  have "CHR ''/'' \<notin> set (drop d name)" if "k + 1 \<le> d" for d
    using find_last_of_Some[OF Some] set_drop_subset_set_drop[of "Suc k" d name] that by auto
  then show ?thesis using Some by (auto simp: file_extension_def Let_def split: option.splits)
qed

lemma hex_no_slash: "hex_text h \<Longrightarrow> CHR ''/'' \<notin> set h"
  by (auto simp: hex_text_def list_all_iff isdigit_def)

lemma stored_no_slash:
  assumes "CHR ''/'' \<notin> set prefix" "hex_text (pl_sha p)"
  shows "CHR ''/'' \<notin> set (new_stored_name prefix p)"
  using assms hex_no_slash[OF assms(2)] extension_no_slash[of "pl_filename p"]
  by (auto simp: new_stored_name_def dest: in_set_takeD)

lemma steady_distinct:
  assumes "steady env A sv K db"
  shows "distinct (map (\<lambda>k. snd (snd k)) K)" "distinct (map fst K)"
  using store_okD(2,3)[OF steady_store(1)[OF assms]]
  unfolding steady_store(2)[OF assms, symmetric] by (simp_all add: physical_key_def o_def)

lemma found_physical:
  assumes s: "steady env A sv K db" and c: "collation_ok env" "hex_text h"
    and f: "fetch_physical_file_by_sha256 env mysql h db = (Some ph, db')"
  shows "physical_key ph \<in> set K" "pr_sha ph = h" "steady env A sv K db'"
proof -
  show "steady env A sv K db'" by (rule steady_reads(3)[OF s f])
  have found: "ph \<in> set (t_physical (dv_tables db))" "dq_eq env (pr_sha ph) h"
    using f by (auto simp: fetch_physical_file_by_sha256_def select_query_def query_def Let_def
        split: if_splits option.splits dest!: find_SomeD)
  then show "physical_key ph \<in> set K" using steady_store(2)[OF s] by (metis image_eqI list.set_map)
  have "hex_text (pr_sha ph)" using store_okD(6)[OF steady_store(1)[OF s] found(1)] by (simp add: physical_ok_def)
  then show "pr_sha ph = h" using collation_hex[OF c(1) found(2) _ c(2)] by simp
qed

lemma reuse_spec:
  assumes "contents_ok sha root K d" "physical_key ph \<in> set K" "payload_ok sha root p d"
    and "reuse_physical denv root p ph d = (r, d')"
  shows "r = Some True" "contents_ok sha root K d'"
proof -
  have ok: "disk_ok d" using assms(1) by (simp add: contents_ok_def)
  have c: "d_files d (build_file_disk_path root (pr_stored ph)) \<noteq> None"
    using assms(1,2) by (fastforce simp: contents_ok_def physical_key_def holds_content_def)
  then have e: "file_exists (build_file_disk_path root (pr_stored ph)) d"
    using ok by (auto simp: file_exists_def disk_ok_def)
  then show "r = Some True" using assms(4) by (simp add: reuse_physical_def)
  have d': "d' = (if pl_use_temp p then snd (remove_file denv (pl_temp_path p) d) else d)"
    using e assms(4) by (simp add: reuse_physical_def)
  show "contents_ok sha root K d'"
  proof (cases "pl_use_temp p")
    case True
    then have out: "\<not> in_store root (pl_temp_path p)" using assms(3) by (simp add: payload_ok_def)
    obtain b where rm: "remove_file denv (pl_temp_path p) d = (b, d')" using d' True by (metis prod.collapse)
    show ?thesis
    proof (rule contents_ok_frame[OF assms(1) remove_file_spec(1)[OF ok rm]])
      fix i h s assume "(i, h, s) \<in> set K"
      then have "build_file_disk_path root s \<noteq> pl_temp_path p" using out assms(1) by (force simp: in_store_def contents_ok_def)
      then show "d_files d' (build_file_disk_path root s) = d_files d (build_file_disk_path root s)"
        by (rule remove_file_spec(2)[OF ok rm])
    qed
  qed (use d' assms(1) in simp)
qed

definition fresh_path :: "string \<Rightarrow> (int \<times> string \<times> string) list \<Rightarrow> string option \<Rightarrow> bool" where
  "fresh_path root K created \<longleftrightarrow> (\<forall>path. created = Some path \<longrightarrow> in_store root path \<and> (\<forall>k\<in>set K. path \<noteq> build_file_disk_path root (snd (snd k))))"

text \<open>The physical file of an upload: the old contents are kept, and on success the new one is there.\<close>

lemma upload_physical_spec:
  assumes s: "steady env A sv K db" and k: "contents_ok sha root K d" and c: "collation_ok env" and o: "os_ok denv root d"
    and p: "payload_ok sha root p d" and prefix: "CHR ''/'' \<notin> set prefix"
    and up: "upload_physical env denv mysql root prefix p db d = (r, db', d')"
  obtains K' where "steady env A sv K' db'" "contents_ok sha root K d'"
    "\<And>ph dedup created. r = Some (ph, dedup, created) \<Longrightarrow> physical_key ph \<in> set K' \<and> pr_sha ph = pl_sha p
       \<and> contents_ok sha root K' d' \<and> set K \<subseteq> set K' \<and> fresh_path root K created"
proof -
  note result = that
  have hex: "hex_text (pl_sha p)" using p by (simp add: payload_ok_def)
  have reused: thesis
    if ph: "fetch_physical_file_by_sha256 env mysql (pl_sha p) db0 = (Some ph, db')" and s0: "steady env A sv K db0"
      and re: "reuse_physical denv root p ph d = (x, d')" and r: "r = map_option (\<lambda>dedup. (ph, dedup, None)) x" for db0 ph x
  proof -
    note f = found_physical[OF s0 c hex ph]
    note u = reuse_spec[OF k f(1) p re]
    show thesis using result[OF f(3) u(2)] f u r by (simp add: fresh_path_def)
  qed
  obtain found db1 where f1: "fetch_physical_file_by_sha256 env mysql (pl_sha p) db = (found, db1)" by force
  show thesis
  proof (cases found)
    case (Some ph)
    then show ?thesis
      using up f1 by (auto simp: upload_physical_def split: prod.splits intro: reused[OF _ s])
  next
    case None
    have s1: "steady env A sv K db1" using steady_reads(3)[OF s f1] .
    let ?stored = "new_stored_name prefix p"
    let ?path = "build_file_disk_path root ?stored"
    have slash: "CHR ''/'' \<notin> set ?stored" by (rule stored_no_slash[OF prefix hex])
    then have store: "in_store root ?path" by (auto simp: in_store_def)
    obtain x db2 where ins: "insert_physical_file env mysql (pl_sha p) ?stored (pl_size p) db1 = (x, db2)" by force
    show ?thesis
    proof (cases x)
      case X: None
      have s2: "steady env A sv K db2" using steady_insert_physical_fails[OF s1 ins[unfolded X]] .
      show ?thesis
      proof (cases "dv_errno db2 = ER_DUP_ENTRY")
        case True
        then show ?thesis
          using up f1 None ins X k
          by (auto simp: upload_physical_def Let_def split: prod.splits option.splits
              intro: reused[OF _ s2] result[OF steady_reads(3)[OF s2]])
      next
        case False
        then have "r = None" "db' = db2" "d' = d"
          using up f1 None ins X by (auto simp: upload_physical_def Let_def)
        then show ?thesis using result[of K] s2 k by simp
      qed
    next
      case X: (Some i)
      note s2 = steady_insert_physical(1)[OF s1 ins[unfolded X] c hex slash]
      have new: "\<forall>k\<in>set K. ?stored \<noteq> snd (snd k)"
        using steady_distinct(1)[OF s2] by force
      obtain b d1 where m: "materialize_upload_payload denv p ?path d = (b, d1)" by force
      have dok: "disk_ok d" using k by (simp add: contents_ok_def)
      note spec = materialize_spec[OF dok o p store m]
      have old: "contents_ok sha root K d1"
      proof (rule contents_ok_frame[OF k spec(1)])
        fix i h s assume "(i, h, s) \<in> set K"
        then show "d_files d1 (build_file_disk_path root s) = d_files d (build_file_disk_path root s)"
          using new k by (intro spec(3)) (force simp: in_store_def contents_ok_def path_inj)+
      qed
      show ?thesis
      proof (cases b)
        case True
        then have "r = Some (\<lparr>pr_id = i, pr_sha = pl_sha p, pr_stored = ?stored, pr_size = pl_size p, pr_refs = 0\<rparr>, False, Some ?path)"
          "db' = db2" "d' = d1"
          using up f1 None ins X m by (auto simp: upload_physical_def Let_def)
        then show ?thesis
          using result[of "K @ [(i, pl_sha p, ?stored)]"] s2 old spec(2)[OF True] slash new store
          by (simp add: physical_key_def contents_ok_def fresh_path_def path_inj) blast
      next
        case False
        then have "r = None" "db' = db2" "d' = d1"
          using up f1 None ins X m by (auto simp: upload_physical_def Let_def)
        then show ?thesis using result[of "K @ [(i, pl_sha p, ?stored)]"] s2 old by simp
      qed
    qed
  qed
qed

lemma upload_file_row_spec:
  assumes s: "steady env A sv K' db" and k: "contents_ok sha root K d" "contents_ok sha root K' d" and c: "collation_ok env"
    and ph: "physical_key ph \<in> set K'" "pr_sha ph = pl_sha p" and fresh: "fresh_path root K created"
    and up: "upload_file_row env denv mysql owner p pub failpoint (ph, dedup, created) db d = (r, db', d')"
  shows "steady env A sv K' db'" "contents_ok sha root K d'" "r = Inr x \<Longrightarrow> contents_ok sha root K' d'"
proof -
  obtain y db1 where ins: "insert_file env mysql (file_create_of owner p ph pub) db = (y, db1)" by force
  have "steady env A sv K' db1"
  proof (cases y)
    case None
    then show ?thesis using steady_insert_file_fails[OF s] ins by simp
  next
    case (Some i)
    have "(fc_physical (file_create_of owner p ph pub), fc_sha (file_create_of owner p ph pub), fc_stored (file_create_of owner p ph pub)) \<in> set K'"
      using ph by (simp add: file_create_of_def physical_key_def)
    then show ?thesis using steady_insert_file[OF s ins[unfolded Some] c] by blast
  qed
  moreover have db': "db' = db1" using up ins by (auto simp: upload_file_row_def split: option.splits if_splits)
  ultimately show "steady env A sv K' db'" by simp
  have drop: "contents_ok sha root K (drop_new_content denv created d)"
  proof (cases created)
    case (Some path)
    obtain b d1 where rm: "remove_file denv path d = (b, d1)" by force
    have ok: "disk_ok d" using k(1) by (simp add: contents_ok_def)
    have "contents_ok sha root K d1"
    proof (rule contents_ok_frame[OF k(1) remove_file_spec(1)[OF ok rm]])
      fix i h s' assume "(i, h, s') \<in> set K"
      then have "build_file_disk_path root s' \<noteq> path" using fresh Some by (force simp: fresh_path_def)
      then show "d_files d1 (build_file_disk_path root s') = d_files d (build_file_disk_path root s')"
        by (rule remove_file_spec(2)[OF ok rm])
    qed
    then show ?thesis using Some rm by (simp add: drop_new_content_def)
  qed (use k in \<open>simp add: drop_new_content_def\<close>)
  show "contents_ok sha root K d'" "r = Inr x \<Longrightarrow> contents_ok sha root K' d'"
    using up ins drop k by (auto simp: upload_file_row_def split: option.splits if_splits)
qed

text \<open>
  A piece of work in a transaction: it leaves the old contents alone, and when it succeeds the new
  ones are there. \<open>Q\<close> is what is known of its result.
\<close>

definition work_ok :: "drive_env \<Rightarrow> (string \<Rightarrow> string) \<Rightarrow> string \<Rightarrow> auth_db \<Rightarrow> drive_tables \<Rightarrow> (int \<times> string \<times> string) list
    \<Rightarrow> ('a \<Rightarrow> (int \<times> string \<times> string) list \<Rightarrow> bool) \<Rightarrow> (service_error + 'a) \<times> drive_db \<times> disk \<Rightarrow> bool" where
  "work_ok env sha root A t K Q = (\<lambda>(r, db, d). \<exists>K'. steady env A (Some t) K' db \<and> contents_ok sha root K d
     \<and> (\<forall>x. r = Inr x \<longrightarrow> contents_ok sha root K' d \<and> Q x K'))"

lemma work_constructs:
  "keeps (steady env A (Some t) K) x \<Longrightarrow> (\<And>r db1. steady env A (Some t) K db1 \<Longrightarrow> work_ok env sha root A t K Q (h r db1))
     \<Longrightarrow> work_ok env sha root A t K Q (case x of (r, db1) \<Rightarrow> h r db1)"
  "work_ok env sha root A t K Q a \<Longrightarrow> (\<And>v. work_ok env sha root A t K Q (g v))
     \<Longrightarrow> work_ok env sha root A t K Q (case o1 of None \<Rightarrow> a | Some v \<Rightarrow> g v)"
  "(\<And>u. work_ok env sha root A t K Q (g1 u)) \<Longrightarrow> (\<And>a b. work_ok env sha root A t K Q (g2 a b))
     \<Longrightarrow> work_ok env sha root A t K Q (case s1 of Inl u \<Rightarrow> g1 u | Inr (a, b) \<Rightarrow> g2 a b)"
  "work_ok env sha root A t K Q a \<Longrightarrow> work_ok env sha root A t K Q b \<Longrightarrow> work_ok env sha root A t K Q (if c then a else b)"
  "work_ok env sha root A t K Q a \<Longrightarrow> work_ok env sha root A t K Q b
     \<Longrightarrow> work_ok env sha root A t K Q (case c of True \<Rightarrow> a | False \<Rightarrow> b)"
  by (auto simp: keeps_def split: prod.splits option.splits sum.splits bool.splits)

lemma keeps_quota:
  "steady env A sv K db \<Longrightarrow> keeps (steady env A sv K) (inspect_upload_quota env mysql owner n quota db)"
  unfolding inspect_upload_quota_def Let_def by (intro keeps_intros; assumption)

lemma upload_work_ok:
  assumes s: "steady env A (Some t) K db" and k: "contents_ok sha root K d" and c: "collation_ok env" and o: "os_ok denv root d"
    and p: "payload_ok sha root p d" and prefix: "CHR ''/'' \<notin> set prefix"
  shows "work_ok env sha root A t K (\<lambda>_ _. True) (upload_work env denv mysql root owner prefix p pub quota failpoint db d)"
proof -
  have stop: "work_ok env sha root A t K (\<lambda>_ _. True) (Inl e, db', d)" if "steady env A (Some t) K db'" for e db'
    using that k by (auto simp: work_ok_def)
  have p1: "payload_ok sha root (p\<lparr>pl_filename := name\<rparr>) d" for name using p by (simp add: payload_ok_def)
  have last: "work_ok env sha root A t K (\<lambda>_ _. True)
      (case upload_physical env denv mysql root prefix (p\<lparr>pl_filename := name\<rparr>) db4 d of
         (None, db5, d1) \<Rightarrow> (Inl unset_error, db5, d1)
       | (Some stored, db5, d1) \<Rightarrow> upload_file_row env denv mysql owner (p\<lparr>pl_filename := name\<rparr>) pub failpoint stored db5 d1)"
    if s4: "steady env A (Some t) K db4" for name db4
  proof -
    obtain x db5 d1 where up: "upload_physical env denv mysql root prefix (p\<lparr>pl_filename := name\<rparr>) db4 d = (x, db5, d1)"
      by (metis prod.collapse)
    from upload_physical_spec[OF s4 k c o p1 prefix up] obtain K' where s5: "steady env A (Some t) K' db5"
      and old: "contents_ok sha root K d1"
      and new: "\<And>ph dedup created. x = Some (ph, dedup, created) \<Longrightarrow> physical_key ph \<in> set K' \<and> pr_sha ph = pl_sha p
         \<and> contents_ok sha root K' d1 \<and> set K \<subseteq> set K' \<and> fresh_path root K created" by auto
    show ?thesis
    proof (cases x)
      case None
      then show ?thesis using up s5 old by (auto simp: work_ok_def)
    next
      case (Some stored)
      obtain ph dedup created where st: "stored = (ph, dedup, created)" by (metis prod.collapse)
      note new = new[OF Some[unfolded st]]
      obtain r db6 d2 where row: "upload_file_row env denv mysql owner (p\<lparr>pl_filename := name\<rparr>) pub failpoint (ph, dedup, created) db5 d1 = (r, db6, d2)"
        by (metis prod.collapse)
      have "pr_sha ph = pl_sha (p\<lparr>pl_filename := name\<rparr>)" using new by simp
      note spec = upload_file_row_spec[OF s5 old _ c _ this _ row]
      show ?thesis using up Some st row new spec by (auto simp: work_ok_def)
    qed
  qed
  show ?thesis
    unfolding upload_work_def Let_def
    by (intro work_constructs keeps_intros keeps_quota stop last s; assumption)
qed

lemma with_transaction_ok:
  assumes s: "steady env A None K db" and k: "contents_ok sha root K d"
    and w: "\<And>db1. steady env A (Some (dv_tables db)) K db1 \<Longrightarrow> work_ok env sha root A (dv_tables db) K Q (work db1 d)"
    and tx: "with_transaction env mysql work db d = (r, db', d')"
  obtains K' where "steady env A None K' db'" "contents_ok sha root K' d'" "\<And>x. r = Inr x \<Longrightarrow> Q x K'"
proof -
  obtain b db1 where beg: "begin_transaction env mysql db = (b, db1)" by force
  note s1 = steady_begin[OF s beg]
  show thesis
  proof (cases b)
    case False
    then show ?thesis using that[of K] s1 k beg tx by (auto simp: with_transaction_def)
  next
    case True
    have mysql: "mysql" using beg True by (auto simp: begin_transaction_def split: if_splits)
    have s1: "steady env A (Some (dv_tables db)) K db1" using s1 True by simp
    obtain y db2 d2 where wk: "work db1 d = (y, db2, d2)" by (metis prod.collapse)
    from w[OF s1] wk obtain K' where s2: "steady env A (Some (dv_tables db)) K' db2" and old: "contents_ok sha root K d2"
      and new: "\<And>x. y = Inr x \<Longrightarrow> contents_ok sha root K' d2 \<and> Q x K'" by (auto simp: work_ok_def)
    have back_to: "steady env A None K (rollback_transaction env mysql db3)" if "steady env A (Some (dv_tables db)) K' db3" for db3
      using steady_rollback[OF that] steady_store(2)[OF s] mysql by simp
    show ?thesis
    proof (cases y)
      case (Inl e)
      then show ?thesis using that[of K] back_to[OF s2] old beg True wk tx by (auto simp: with_transaction_def)
    next
      case (Inr x)
      obtain b3 db3 where com: "commit_transaction env mysql db2 = (b3, db3)" by force
      note s3 = steady_commit(1)[OF s2 com]
      show ?thesis
      proof (cases b3)
        case False
        then show ?thesis using that[of K] back_to s3 old beg True wk Inr com tx by (auto simp: with_transaction_def)
      next
        case b3: True
        then show ?thesis using that[of K'] s3 new[OF Inr] beg True wk Inr com tx by (auto simp: with_transaction_def)
      qed
    qed
  qed
qed

lemma create_uploaded_file_ok:
  assumes s: "steady env A None K db" and k: "contents_ok sha root K d" and c: "collation_ok env" and o: "os_ok denv root d"
    and p: "payload_ok sha root (if pl_sha p = [] \<and> pl_content p \<noteq> [] then p\<lparr>pl_sha := sha256_hex sha (pl_content p)\<rparr> else p) d"
    and prefix: "CHR ''/'' \<notin> set prefix"
    and up: "create_uploaded_file env denv sha failpoint mysql root owner prefix p pub quota db d = (r, db', d')"
  obtains K' where "steady env A None K' db'" "contents_ok sha root K' d'"
proof -
  let ?p = "if pl_sha p = [] \<and> pl_content p \<noteq> [] then p\<lparr>pl_sha := sha256_hex sha (pl_content p)\<rparr> else p"
  obtain b d1 where dir: "disk_ensure_directory denv (file_storage_root root) d = (b, d1)" by force
  have files: "d_files d1 = d_files d" using dir by (auto simp: disk_ensure_directory_def split: if_splits)
  have dirs: "d_dirs d1 q = d_dirs d q" if "in_store root q" for q
    using dir that by (auto simp: disk_ensure_directory_def in_store_def build_file_disk_path_def split: if_splits)
  have dok: "disk_ok d" using k by (simp add: contents_ok_def)
  have "disk_ok d1" using dir dok by (auto simp: disk_ensure_directory_def disk_ok_def split: if_splits)
  then have k1: "contents_ok sha root K d1" using contents_ok_frame[OF k] files by simp
  have o1: "os_ok denv root d1" using o dirs unfolding os_ok_def by blast
  have p1: "payload_ok sha root ?p d1" using p payload_ok_cong[OF files] by simp
  show thesis
  proof (cases "b \<and> pl_sha ?p \<noteq> []")
    case False
    then show ?thesis using that[of K] s k1 up dir by (auto simp: create_uploaded_file_def Let_def split: bool.splits if_splits)
  next
    case True
    then have tx: "with_transaction env mysql (upload_work env denv mysql root owner prefix ?p pub quota failpoint) db d1 = (r, db', d')"
      using up dir by (auto simp: create_uploaded_file_def Let_def split: if_splits)
    show ?thesis
      by (rule with_transaction_ok[OF s k1 upload_work_ok[OF _ k1 c o1 p1 prefix] tx]) (assumption | rule that)+
  qed
qed

subsection \<open>Deletions\<close>

text \<open>The record of a file names a physical file with the digest of the record.\<close>

lemma record_key:
  assumes s: "steady env A sv K db" and f: "fetch_file_record env mysql i incl db = (Some r, db')"
  shows "(mf_physical r, mf_sha r, mf_stored r) \<in> set K"
proof -
  note store = steady_store[OF s]
  obtain f p where f: "f \<in> set (t_files (dv_tables db))" and p: "p \<in> set (t_physical (dv_tables db))" "pr_id p = fr_physical f"
    and r: "mf_physical r = fr_physical f" "mf_sha r = fr_sha f" "mf_stored r = (if pr_stored p = [] then fr_stored f else pr_stored p)"
    using f by (auto simp: fetch_file_record_def select_query_def query_def Let_def fill_file_record_from_row_def physical_of_def file_of_def
        split: if_splits option.splits dest!: find_SomeD)
  obtain q where q: "q \<in> set (t_physical (dv_tables db))" "linked f q" using store_okD(5)[OF store(1) f] by blast
  have "p = q"
    using store_okD(2)[OF store(1)] p q by (auto simp: linked_def distinct_map intro: inj_onD)
  moreover have "pr_stored p \<noteq> []" using store_okD(6)[OF store(1) p(1)] by (simp add: physical_ok_def)
  ultimately have "physical_key p = (mf_physical r, mf_sha r, mf_stored r)" using r q by (simp add: physical_key_def linked_def)
  then show ?thesis using p(1) store(2) by (metis image_eqI list.set_map)
qed

lemma hard_delete_work_ok:
  assumes s: "steady env A (Some t) K db" and k: "contents_ok sha root K d"
  shows "work_ok env sha root A t K
      (\<lambda>(r, gone) K'. (mf_physical r, mf_sha r, mf_stored r) \<in> set K \<and> K' = (if gone then filter (\<lambda>x. fst x \<noteq> mf_physical r) K else K))
      (case hard_delete_work env mysql owner i db of (r, db1) \<Rightarrow> (r, db1, d))"
proof -
  obtain x db1 where f: "fetch_file_record env mysql i True db = (x, db1)" by force
  have s1: "steady env A (Some t) K db1" using steady_reads(1)[OF s f] .
  obtain ok db2 where del: "repo_hard_delete_file env mysql owner i db1 = (ok, db2)" by force
  have s2: "steady env A (Some t) K db2" using steady_hard_delete[OF s1 del] .
  show ?thesis
  proof (cases x)
    case None
    then show ?thesis using f s1 k by (auto simp: hard_delete_work_def work_ok_def)
  next
    case (Some r)
    note key = record_key[OF s f[unfolded Some]]
    obtain ok2 gone db3 where ph: "delete_physical_file_if_unreferenced env mysql (mf_physical r) db2 = ((ok2, gone), db3)"
      by (metis prod.collapse)
    note s3 = steady_delete_physical[OF s2 ph]
    have k': "contents_ok sha root (if gone then filter (\<lambda>x. fst x \<noteq> mf_physical r) K else K) d"
      using contents_ok_subset[OF k] by simp
    show ?thesis
      using f Some s1 s2 s3 k k' key del ph
      by (auto simp: hard_delete_work_def work_ok_def split: option.splits bool.splits if_splits)
  qed
qed

lemma hard_delete_file_ok:
  assumes s: "steady env A None K db" and k: "contents_ok sha root K d"
    and h: "hard_delete_file env denv mysql root owner i db d = (r, db', d')"
  obtains K' where "steady env A None K' db'" "contents_ok sha root K' d'"
proof -
  let ?work = "\<lambda>db d. case hard_delete_work env mysql owner i db of (r, db1) \<Rightarrow> (r, db1, d)"
  obtain y db1 d1 where tx: "with_transaction env mysql ?work db d = (y, db1, d1)" by (metis prod.collapse)
  obtain K' where s1: "steady env A None K' db1" and k1: "contents_ok sha root K' d1"
    and q: "\<And>x gone. y = Inr (x, gone) \<Longrightarrow> (mf_physical x, mf_sha x, mf_stored x) \<in> set K
              \<and> K' = (if gone then filter (\<lambda>z. fst z \<noteq> mf_physical x) K else K)"
    by (rule with_transaction_ok[OF s k _ tx, OF hard_delete_work_ok[OF _ k]]) auto
  show thesis
  proof (cases y)
    case (Inl e)
    then show ?thesis using that[of K'] s1 k1 h tx by (simp add: hard_delete_file_def)
  next
    case (Inr z)
    obtain x gone where z: "z = (x, gone)" by force
    note q = q[OF Inr[unfolded z]]
    have "contents_ok sha root K' d'"
    proof (cases "gone \<and> mf_stored x \<noteq> []")
      case True
      let ?path = "build_file_disk_path root (mf_stored x)"
      obtain b where rm: "remove_file denv ?path d1 = (b, d')" using h tx Inr z True by (auto simp: hard_delete_file_def) (metis prod.collapse)
      have dok: "disk_ok d1" using k1 by (simp add: contents_ok_def)
      show ?thesis
      proof (rule contents_ok_frame[OF k1 remove_file_spec(1)[OF dok rm]])
        fix j g s' assume m: "(j, g, s') \<in> set K'"
        then have m': "(j, g, s') \<in> set K" "j \<noteq> mf_physical x" using q True by auto
        have inj: "inj_on (\<lambda>k. snd (snd k)) (set K)" using steady_distinct(1)[OF s] by (simp add: distinct_map)
        have "s' \<noteq> mf_stored x"
          using inj_onD[OF inj, of "(j, g, s')" "(mf_physical x, mf_sha x, mf_stored x)"] m' q by auto
        then show "d_files d' (build_file_disk_path root s') = d_files d1 (build_file_disk_path root s')"
          by (intro remove_file_spec(2)[OF dok rm]) (simp add: path_inj)
      qed
    qed (use k1 h tx Inr z in \<open>auto simp: hard_delete_file_def\<close>)
    then show ?thesis using that s1 h tx Inr z by (auto simp: hard_delete_file_def)
  qed
qed

lemma empty_trash_loop_ok:
  assumes "steady env A None K db" "contents_ok sha root K d"
    and "empty_trash_loop env denv mysql root owner ids n db d = (r, db', d')"
  obtains K' where "steady env A None K' db'" "contents_ok sha root K' d'"
  using assms
proof (induction ids arbitrary: n db d K)
  case (Cons i ids)
  obtain x db1 d1 where h: "hard_delete_file env denv mysql root owner i db d = (x, db1, d1)" by (metis prod.collapse)
  obtain K1 where k1: "steady env A None K1 db1" "contents_ok sha root K1 d1"
    using hard_delete_file_ok[OF Cons.prems(2,3) h] by blast
  show ?case
  proof (cases x)
    case (Inl e)
    then show ?thesis using Cons.prems h k1 by auto
  next
    case (Inr y)
    then show ?thesis using Cons.IH[OF _ k1] Cons.prems h by simp
  qed
qed auto

subsection \<open>Every reachable state\<close>

text \<open>
  The calls of the services with their arguments. The last argument of an upload is the test
  failpoint; the list of a share holds the random bytes of its attempts.
\<close>

datatype drive_call =
    CallCreateFolder string int string
  | CallDeleteFolder string int
  | CallListDrive string int
  | CallListTrash string
  | CallListPublic int int
  | CallSoftDelete string int
  | CallRestore string int
  | CallHardDelete string int
  | CallEmptyTrash string
  | CallVisibility string int bool
  | CallUpload string string upload_payload bool upload_quota bool
  | CallShare string int share_options "string option list"
  | CallShareDetail string string
  | CallShareDownload string string

fun drive_step :: "drive_env \<Rightarrow> disk_env \<Rightarrow> (string \<Rightarrow> string) \<Rightarrow> bool \<Rightarrow> string \<Rightarrow> drive_call \<Rightarrow> drive_db \<times> disk \<Rightarrow> drive_db \<times> disk" where
  "drive_step env denv sha mysql root (CallCreateFolder owner parent name) (db, d) = (snd (create_folder env mysql owner parent name db), d)"
| "drive_step env denv sha mysql root (CallDeleteFolder owner folder) (db, d) = (snd (delete_empty_folder env mysql owner folder db), d)"
| "drive_step env denv sha mysql root (CallListDrive owner folder) (db, d) = (snd (list_drive_items env mysql owner folder db), d)"
| "drive_step env denv sha mysql root (CallListTrash owner) (db, d) = (snd (list_trash_items env mysql owner db), d)"
| "drive_step env denv sha mysql root (CallListPublic cursor limit) (db, d) = (snd (list_public_files env mysql cursor limit db), d)"
| "drive_step env denv sha mysql root (CallSoftDelete owner i) (db, d) = (snd (soft_delete_file env mysql owner i db), d)"
| "drive_step env denv sha mysql root (CallRestore owner i) (db, d) = (snd (restore_file env mysql owner i db), d)"
| "drive_step env denv sha mysql root (CallHardDelete owner i) (db, d) = snd (hard_delete_file env denv mysql root owner i db d)"
| "drive_step env denv sha mysql root (CallEmptyTrash owner) (db, d) = snd (empty_trash env denv mysql root owner db d)"
| "drive_step env denv sha mysql root (CallVisibility owner i b) (db, d) = (snd (update_file_visibility env mysql owner i b db), d)"
| "drive_step env denv sha mysql root (CallUpload owner prefix p pub quota failpoint) (db, d) =
     snd (create_uploaded_file env denv sha failpoint mysql root owner prefix p pub quota db d)"
| "drive_step env denv sha mysql root (CallShare owner i options rand) (db, d) = (snd (create_share_link env sha rand mysql owner i options db), d)"
| "drive_step env denv sha mysql root (CallShareDetail token code) (db, d) = (snd (load_share_detail env sha mysql token code db), d)"
| "drive_step env denv sha mysql root (CallShareDownload token code) (db, d) = (snd (load_share_download env sha mysql token code db), d)"

text \<open>
  What the controller and the parser promise of an upload: its content, or its temporary file outside
  the store, has the digest of the payload, and the prefix of the stored name is a token.
\<close>

definition with_digest :: "(string \<Rightarrow> string) \<Rightarrow> upload_payload \<Rightarrow> upload_payload" where
  "with_digest sha p = (if pl_sha p = [] \<and> pl_content p \<noteq> [] then p\<lparr>pl_sha := sha256_hex sha (pl_content p)\<rparr> else p)"

fun call_ok :: "(string \<Rightarrow> string) \<Rightarrow> string \<Rightarrow> drive_call \<Rightarrow> disk \<Rightarrow> bool" where
  "call_ok sha root (CallUpload owner prefix p pub quota failpoint) d \<longleftrightarrow>
     payload_ok sha root (with_digest sha p) d \<and> CHR ''/'' \<notin> set prefix"
| "call_ok sha root _ d \<longleftrightarrow> True"

definition fresh_drive :: "auth_db \<Rightarrow> drive_db" where
  "fresh_drive A = \<lparr>dv_auth = A, dv_tables = \<lparr>t_files = [], t_physical = [], t_folders = [], t_shares = []\<rparr>, dv_saved = None,
     dv_next_file = 1, dv_next_physical = 1, dv_next_folder = 1, dv_calls = 0, dv_errno = 0\<rparr>"

text \<open>
  Between the calls the users change, other tables are read and written, and files outside the store
  come and go, such as the temporary files of the upload parser.
\<close>

inductive drive_reachable :: "drive_env \<Rightarrow> (string \<Rightarrow> string) \<Rightarrow> string \<Rightarrow> drive_db \<times> disk \<Rightarrow> bool"
  for env sha root where
  start: "disk_ok d \<Longrightarrow> drive_reachable env sha root (fresh_drive A, d)"
| call: "drive_reachable env sha root (db, d) \<Longrightarrow> call_ok sha root c d \<Longrightarrow> os_ok denv root d
    \<Longrightarrow> drive_reachable env sha root (drive_step env denv sha mysql root c (db, d))"
| users: "drive_reachable env sha root (db, d) \<Longrightarrow> drive_reachable env sha root (db\<lparr>dv_auth := A\<rparr>, d)"
| asked: "drive_reachable env sha root (db, d) \<Longrightarrow> drive_reachable env sha root (db\<lparr>dv_calls := n, dv_errno := e\<rparr>, d)"
| others: "drive_reachable env sha root (db, d) \<Longrightarrow> disk_ok d' \<Longrightarrow> (\<And>q. in_store root q \<Longrightarrow> d_files d' q = d_files d q)
    \<Longrightarrow> drive_reachable env sha root (db, d')"

definition drive_inv :: "drive_env \<Rightarrow> (string \<Rightarrow> string) \<Rightarrow> string \<Rightarrow> drive_db \<times> disk \<Rightarrow> bool" where
  "drive_inv env sha root = (\<lambda>(db, d). \<exists>K. steady env (dv_auth db) None K db \<and> contents_ok sha root K d)"

lemma drive_invI: "steady env A None K db \<Longrightarrow> contents_ok sha root K d \<Longrightarrow> drive_inv env sha root (db, d)"
  by (auto simp: drive_inv_def steady_def)

lemma keeps_inv:
  "keeps (steady env A None K) x \<Longrightarrow> contents_ok sha root K d \<Longrightarrow> drive_inv env sha root (snd x, d)"
  by (auto simp: keeps_def intro: drive_invI)

lemma drive_step_inv:
  assumes i: "drive_inv env sha root (db, d)" and c: "collation_ok env" and call: "call_ok sha root c d" "os_ok denv root d"
  shows "drive_inv env sha root (drive_step env denv sha mysql root c (db, d))"
proof -
  obtain K where s: "steady env (dv_auth db) None K db" and k: "contents_ok sha root K d" using i by (auto simp: drive_inv_def)
  show ?thesis
  proof (cases c)
    case (CallHardDelete owner i)
    obtain r db' d' where h: "hard_delete_file env denv mysql root owner i db d = (r, db', d')" by (metis prod.collapse)
    show ?thesis by (rule hard_delete_file_ok[OF s k h]) (use CallHardDelete h in \<open>auto intro: drive_invI\<close>)
  next
    case (CallEmptyTrash owner)
    obtain x db1 where f: "fetch_trash_file_ids env mysql owner db = (x, db1)" by force
    have s1: "steady env (dv_auth db) None K db1" using steady_reads(12)[OF s f] .
    show ?thesis
    proof (cases x)
      case None
      then show ?thesis using CallEmptyTrash f drive_invI[OF s1 k] by (simp add: empty_trash_def)
    next
      case (Some ids)
      obtain r db' d' where h: "empty_trash_loop env denv mysql root owner ids 0 db1 d = (r, db', d')" by (metis prod.collapse)
      show ?thesis
        by (rule empty_trash_loop_ok[OF s1 k h]) (use CallEmptyTrash f Some h in \<open>auto simp: empty_trash_def intro: drive_invI\<close>)
    qed
  next
    case (CallUpload owner prefix p pub quota failpoint)
    obtain r db' d' where h: "create_uploaded_file env denv sha failpoint mysql root owner prefix p pub quota db d = (r, db', d')"
      by (metis prod.collapse)
    have p: "payload_ok sha root (if pl_sha p = [] \<and> pl_content p \<noteq> [] then p\<lparr>pl_sha := sha256_hex sha (pl_content p)\<rparr> else p) d"
      "CHR ''/'' \<notin> set prefix" using call(1) CallUpload by (simp_all add: with_digest_def)
    show ?thesis
      by (rule create_uploaded_file_ok[OF s k c call(2) p h]) (use CallUpload h in \<open>auto intro: drive_invI\<close>)
  next
    case (CallListPublic cursor limit)
    then show ?thesis using keeps_inv[OF keeps_list_public[OF s] k] by simp
  qed (simp_all add: keeps_services[OF s c, THEN keeps_inv, OF k])
qed

lemma drive_reachable_inv:
  assumes "drive_reachable env sha root s" "collation_ok env"
  shows "drive_inv env sha root s"
  using assms(1)
proof (induction rule: drive_reachable.induct)
  case (start d A)
  have "steady env A None [] (fresh_drive A)"
    by (simp add: fresh_drive_def steady_def db_ok_def store_ok_def names_ok_def)
  then show ?case using start by (intro drive_invI[of _ _ "[]"]) (auto simp: contents_ok_def)
next
  case (call db d c denv mysql)
  then show ?case using drive_step_inv[OF _ assms(2)] by blast
next
  case (users db d A)
  then show ?case by (auto simp: drive_inv_def steady_def db_ok_def)
next
  case (asked db d n e)
  then show ?case by (auto simp: drive_inv_def dest: steady_calls(1))
next
  case (others db d d')
  then obtain K where k: "steady env (dv_auth db) None K db" "contents_ok sha root K d" by (auto simp: drive_inv_def)
  have "contents_ok sha root K d'"
    by (rule contents_ok_frame[OF k(2) others(2)], rule others(3)) (use k(2) in \<open>force simp: contents_ok_def in_store_def\<close>)
  then show ?case by (rule drive_invI[OF k(1)])
qed

text \<open>The file of a share is the file of the record.\<close>

lemma share_key:
  assumes s: "steady env A sv K db" and f: "fetch_file_share env mysql token db = (Some r, db')"
  shows "\<exists>i. (i, mf_sha (sr_file r), mf_stored (sr_file r)) \<in> set K"
proof -
  note store = steady_store[OF s]
  obtain f where f: "f \<in> set (t_files (dv_tables db))" and r: "mf_sha (sr_file r) = fr_sha f" "mf_stored (sr_file r) = fr_stored f"
    using f by (auto simp: fetch_file_share_def select_query_def query_def Let_def file_of_def
        split: if_splits option.splits dest!: find_SomeD)
  obtain p where p: "p \<in> set (t_physical (dv_tables db))" "linked f p" using store_okD(5)[OF store(1) f] by blast
  then have "physical_key p = (pr_id p, mf_sha (sr_file r), mf_stored (sr_file r))" using r by (simp add: physical_key_def linked_def)
  then show ?thesis using p(1) store(2) by (metis image_eqI list.set_map)
qed

lemma key_content:
  "contents_ok sha root K d \<Longrightarrow> (i, h, s) \<in> set K \<Longrightarrow> \<exists>c. d_files d (build_file_disk_path root s) = Some c \<and> sha256_hex sha c = h"
  by (fastforce simp: contents_ok_def holds_content_def)


text \<open>
  Property C8. The tables stay consistent: every file row has its physical row, the reference count
  of a physical row is the number of file rows that refer to it, so that it is deleted exactly with
  the last of them, and no two active files of a user have the same name in the same folder.
\<close>

theorem drive_tables_consistent:
  assumes "drive_reachable env sha root (db, d)" and "collation_ok env"
    and "f \<in> set (t_files (dv_tables db))" and "g \<in> set (t_files (dv_tables db))" and "p \<in> set (t_physical (dv_tables db))"
  shows "physical_of (fr_physical f) (dv_tables db) \<noteq> None
    \<and> pr_refs p = int (length (filter (\<lambda>f. fr_physical f = pr_id p) (t_files (dv_tables db))))
    \<and> (fr_deleted f = None \<and> fr_deleted g = None \<and> fr_user f = fr_user g \<and> fr_folder f = fr_folder g \<and> fr_name f = fr_name g \<longrightarrow> f = g)"
proof -
  obtain K where k: "steady env (dv_auth db) None K db"
    using drive_reachable_inv[OF assms(1,2)] by (auto simp: drive_inv_def)
  note store = steady_store(1)[OF k]
  have "physical_of (fr_physical f) (dv_tables db) \<noteq> None"
    using store_okD(5)[OF store assms(3)] by (auto simp: physical_of_def find_None_iff linked_def)
  moreover have "pr_refs p = int (length (filter (\<lambda>f. fr_physical f = pr_id p) (t_files (dv_tables db))))"
    using store_okD(7)[OF store assms(5)] by (simp add: refs_def)
  moreover have "f = g"
    if "fr_deleted f = None" "fr_deleted g = None" "fr_user f = fr_user g" "fr_folder f = fr_folder g" "fr_name f = fr_name g"
  proof -
    have "same_place env f g" using that collation_refl[OF assms(2)] by (simp add: same_place_def)
    then have "fr_id f = fr_id g" using store_okD(8)[OF store] assms(3,4) unfolding names_ok_def by blast
    then show ?thesis using store_okD(1)[OF store] assms(3,4) by (auto simp: distinct_map intro: inj_onD)
  qed
  ultimately show ?thesis by blast
qed

subsection \<open>A small drive\<close>

definition calm_env :: drive_env where
  "calm_env = \<lparr>dq_error = (\<lambda>_. 0), dq_now = int, dq_eq = (=), dq_less = (\<lambda>_ _. False), dq_date = (\<lambda>_. ''2025-01-01'')\<rparr>"

definition calm_disk :: disk_env where
  "calm_disk = \<lparr>de_unlink = (\<lambda>_. True), de_rename = (\<lambda>_ _. RenameOk), de_open_in = (\<lambda>_. True),
     de_open_out = (\<lambda>_. True), de_write = (\<lambda>_ _. True), de_mkdir = (\<lambda>_. True)\<rparr>"

definition two_users :: auth_db where
  "two_users = \<lparr>db_users = [\<lparr>u_id = 1, u_name = ''alice'', u_hash = [], u_disabled = False, u_last_login = None\<rparr>,
                            \<lparr>u_id = 2, u_name = ''bob'', u_hash = [], u_disabled = False, u_last_login = None\<rparr>],
     db_sessions = [], db_errno = 0, db_next_id = 3\<rparr>"

definition blank_disk :: disk where
  "blank_disk = \<lparr>d_files = Map.empty, d_dirs = (\<lambda>_. False)\<rparr>"

definition text_payload :: "string \<Rightarrow> string \<Rightarrow> upload_payload" where
  "text_payload name content = \<lparr>pl_filename = name, pl_content = content, pl_type = ''text/plain'', pl_temp_path = [], pl_sha = [],
     pl_folder = 0, pl_size = int (length content), pl_use_temp = False\<rparr>"

definition no_quota :: upload_quota where
  "no_quota = \<lparr>uq_max_single = 0, uq_max_total = 0\<rparr>"

definition one_file :: "drive_db \<times> disk" where
  "one_file = drive_step calm_env calm_disk id True ''/r'' (CallUpload ''alice'' ''abc'' (text_payload ''a.txt'' ''hi'') False no_quota False)
     (fresh_drive two_users, blank_disk)"

lemma unique_name_loop_code [code]:
  "unique_name_loop env mysql owner base folder_id ignore_file_id index left db =
     (if left = 0 then (duplicate_filename_candidate base 1000, db)
      else let candidate = duplicate_filename_candidate base index in
           case original_name_exists env mysql owner candidate folder_id ignore_file_id db of
             (None, db1) \<Rightarrow> (candidate, db1)
           | (Some False, db1) \<Rightarrow> (candidate, db1)
           | (Some True, db1) \<Rightarrow> unique_name_loop env mysql owner base folder_id ignore_file_id (Suc index) (left - 1) db1)"
  by (cases left) (simp_all add: Let_def split: prod.split option.split bool.split)

lemma calm_collation: "collation_ok calm_env"
  by (simp add: collation_ok_def calm_env_def)

lemma one_file_reachable: "drive_reachable calm_env id ''/r'' one_file"
proof -
  have "drive_reachable calm_env id ''/r'' (fresh_drive two_users, blank_disk)"
    by (rule drive_reachable.start) (simp add: disk_ok_def blank_disk_def)
  moreover have "call_ok id ''/r'' (CallUpload ''alice'' ''abc'' (text_payload ''a.txt'' ''hi'') False no_quota False) blank_disk"
    by code_simp
  moreover have "os_ok calm_disk ''/r'' blank_disk" by (simp add: os_ok_def blank_disk_def)
  ultimately show ?thesis unfolding one_file_def by (rule drive_reachable.call)
qed


theorem drive_tables_consistent_witness:
  "pr_refs (hd (t_physical (dv_tables (fst one_file))))
     = int (length (filter (\<lambda>f. fr_physical f = pr_id (hd (t_physical (dv_tables (fst one_file))))) (t_files (dv_tables (fst one_file)))))"
proof -
  have r: "drive_reachable calm_env id ''/r'' (fst one_file, snd one_file)" using one_file_reachable by simp
  have "t_files (dv_tables (fst one_file)) \<noteq> []" "t_physical (dv_tables (fst one_file)) \<noteq> []" by code_simp+
  then have "hd (t_files (dv_tables (fst one_file))) \<in> set (t_files (dv_tables (fst one_file)))"
    "hd (t_physical (dv_tables (fst one_file))) \<in> set (t_physical (dv_tables (fst one_file)))" by simp_all
  then show ?thesis using drive_tables_consistent[OF r calm_collation] by blast
qed

end
