(* ===== verification/Drive_Access.thy ===== *)
theory Drive_Access
  imports Drive
begin

text \<open>
  Who may change what: a call of one user leaves the files and folders of every other user as they
  are; uploads stay within the quota; share links are limited in number and time; and the pages of
  the public files.
\<close>

subsection \<open>Files of others\<close>

text \<open>The user behind an id goes by the name, up to the collation.\<close>

definition mine :: "drive_env \<Rightarrow> string \<Rightarrow> auth_db \<Rightarrow> int \<Rightarrow> bool" where
  "mine env owner A uid \<longleftrightarrow> (case user_of_id uid A of None \<Rightarrow> False | Some u \<Rightarrow> dq_eq env (u_name u) owner)"

definition foreign_files :: "drive_env \<Rightarrow> string \<Rightarrow> auth_db \<Rightarrow> drive_tables \<Rightarrow> file_row list" where
  "foreign_files env owner A t = filter (\<lambda>f. \<not> mine env owner A (fr_user f)) (t_files t)"

definition foreign_folders :: "drive_env \<Rightarrow> string \<Rightarrow> auth_db \<Rightarrow> drive_tables \<Rightarrow> folder_row list" where
  "foreign_folders env owner A t = filter (\<lambda>g. \<not> mine env owner A (fo_user g)) (t_folders t)"

text \<open>The rows of others are these, and a roll back gives them too.\<close>

definition foreign_kept :: "drive_env \<Rightarrow> string \<Rightarrow> auth_db \<Rightarrow> file_row list \<Rightarrow> folder_row list \<Rightarrow> drive_db \<Rightarrow> bool" where
  "foreign_kept env owner A F G db \<longleftrightarrow> dv_auth db = A
     \<and> foreign_files env owner A (dv_tables db) = F \<and> foreign_folders env owner A (dv_tables db) = G
     \<and> (\<forall>t. dv_saved db = Some t \<longrightarrow> foreign_files env owner A t = F \<and> foreign_folders env owner A t = G)"

lemma foreign_calls:
  "foreign_kept env owner A F G db \<Longrightarrow> foreign_kept env owner A F G (db\<lparr>dv_calls := n, dv_errno := e\<rparr>)"
  "foreign_kept env owner A F G db \<Longrightarrow> foreign_kept env owner A F G (db\<lparr>dv_errno := e\<rparr>)"
  by (simp_all add: foreign_kept_def)

lemma foreign_tables:
  assumes "foreign_kept env owner A F G db" "foreign_files env owner A t = F" "foreign_folders env owner A t = G"
  shows "foreign_kept env owner A F G (db\<lparr>dv_tables := t\<rparr>)"
    "foreign_kept env owner A F G (db\<lparr>dv_tables := t, dv_next_file := n\<rparr>)"
    "foreign_kept env owner A F G (db\<lparr>dv_tables := t, dv_next_physical := n\<rparr>)"
    "foreign_kept env owner A F G (db\<lparr>dv_tables := t, dv_next_folder := n\<rparr>)"
  using assms by (simp_all add: foreign_kept_def)

lemma foreign_rows:
  assumes "foreign_kept env owner A F G db"
  shows "foreign_files env owner A (dv_tables db) = F" "foreign_folders env owner A (dv_tables db) = G" "dv_auth db = A"
  using assms by (simp_all add: foreign_kept_def)

lemma foreign_query:
  assumes "foreign_kept env owner A F G db"
    and "\<And>now db1. foreign_kept env owner A F G db1 \<Longrightarrow> keeps (foreign_kept env owner A F G) (work now db1)"
  shows "keeps (foreign_kept env owner A F G) (query env failed work db)"
  using assms(2)[OF foreign_calls(1)[OF assms(1)]] foreign_calls(1)[OF assms(1)]
  by (auto simp: query_def Let_def keeps_def)

lemma foreign_select [keeps_intros]:
  "foreign_kept env owner A F G db \<Longrightarrow> keeps (foreign_kept env owner A F G) (select_query env failed f db)"
  unfolding select_query_def by (rule foreign_query) (auto simp: keeps_def)

lemma foreign_reads [keeps_intros]:
  assumes f: "foreign_kept env owner A F G db"
  shows "keeps (foreign_kept env owner A F G) (fetch_file_record env mysql i incl db)"
    "keeps (foreign_kept env owner A F G) (lock_user_for_update env mysql o1 db)"
    "keeps (foreign_kept env owner A F G) (fetch_physical_file_by_sha256 env mysql sha db)"
    "keeps (foreign_kept env owner A F G) (original_name_exists env mysql o1 name folder ign db)"
    "keeps (foreign_kept env owner A F G) (fetch_user_storage_usage env mysql o1 db)"
    "keeps (foreign_kept env owner A F G) (folder_exists env mysql o1 folder db)"
    "keeps (foreign_kept env owner A F G) (folder_name_exists env mysql o1 folder name db)"
    "keeps (foreign_kept env owner A F G) (fetch_folder env mysql o1 folder db)"
    "keeps (foreign_kept env owner A F G) (fetch_drive_folders env mysql o1 folder db)"
    "keeps (foreign_kept env owner A F G) (fetch_drive_files env mysql o1 folder db)"
    "keeps (foreign_kept env owner A F G) (fetch_trash_files env mysql o1 db)"
    "keeps (foreign_kept env owner A F G) (fetch_trash_file_ids env mysql o1 db)"
    "keeps (foreign_kept env owner A F G) (fetch_file_share env mysql token db)"
    "keeps (foreign_kept env owner A F G) (folder_has_active_children env mysql o1 folder db)"
  unfolding read_defs folder_has_active_children_def by (intro keeps_intros f; assumption)+

text \<open>Writes touch rows of the user only.\<close>

definition distinct_users :: "auth_db \<Rightarrow> bool" where
  "distinct_users A \<longleftrightarrow> distinct (map u_id (db_users A))"

lemma find_unique: "distinct (map k xs) \<Longrightarrow> x \<in> set xs \<Longrightarrow> find (\<lambda>y. k y = k x) xs = Some x"
  by (induction xs) (auto simp: image_iff)

lemma subquery_mine:
  assumes "distinct_users A" "dv_auth db = A" "user_id_subquery env owner db = Some uid"
  shows "mine env owner A uid"
proof -
  obtain u where u: "u \<in> set (db_users A)" "dq_eq env (u_name u) owner" "u_id u = uid"
    using assms(2,3) by (auto simp: user_id_subquery_def dest!: find_SomeD)
  then have "user_of_id uid A = Some u"
    using find_unique[of u_id "db_users A" u] assms(1) by (simp add: distinct_users_def user_of_id_def)
  then show ?thesis using u by (simp add: mine_def)
qed

lemma filter_map_outside:
  "(\<And>x. x \<in> set xs \<Longrightarrow> \<not> P x \<Longrightarrow> \<not> P (h x)) \<Longrightarrow> (\<And>x. x \<in> set xs \<Longrightarrow> P x \<Longrightarrow> h x = x) \<Longrightarrow> filter P (map h xs) = filter P xs"
  by (induction xs) auto

lemma foreign_map_files:
  assumes "\<And>f. f \<in> set (t_files t) \<Longrightarrow> fr_user (h f) = fr_user f" "\<And>f. f \<in> set (t_files t) \<Longrightarrow> \<not> mine env owner A (fr_user f) \<Longrightarrow> h f = f"
  shows "foreign_files env owner A (t\<lparr>t_files := map h (t_files t)\<rparr>) = foreign_files env owner A t"
  unfolding foreign_files_def using assms by (simp add: filter_map_outside)

lemma foreign_map_folders:
  assumes "\<And>g. g \<in> set (t_folders t) \<Longrightarrow> fo_user (h g) = fo_user g" "\<And>g. g \<in> set (t_folders t) \<Longrightarrow> \<not> mine env owner A (fo_user g) \<Longrightarrow> h g = g"
  shows "foreign_folders env owner A (t\<lparr>t_folders := map h (t_folders t)\<rparr>) = foreign_folders env owner A t"
  unfolding foreign_folders_def using assms by (simp add: filter_map_outside)

lemma foreign_other [simp]:
  "foreign_files env owner A (t\<lparr>t_folders := gs\<rparr>) = foreign_files env owner A t"
  "foreign_files env owner A (t\<lparr>t_shares := ss\<rparr>) = foreign_files env owner A t"
  "foreign_files env owner A (t\<lparr>t_physical := ps\<rparr>) = foreign_files env owner A t"
  "foreign_folders env owner A (t\<lparr>t_files := fs\<rparr>) = foreign_folders env owner A t"
  "foreign_folders env owner A (t\<lparr>t_shares := ss\<rparr>) = foreign_folders env owner A t"
  "foreign_folders env owner A (t\<lparr>t_physical := ps\<rparr>) = foreign_folders env owner A t"
  "foreign_files env owner A (count_reference i n t) = foreign_files env owner A t"
  "foreign_folders env owner A (count_reference i n t) = foreign_folders env owner A t"
  by (simp_all add: foreign_files_def foreign_folders_def count_reference_def)

lemma foreign_counts [simp]:
  "foreign_files env owner A (foldr (\<lambda>f. count_reference (fr_physical f) n) fs t) = foreign_files env owner A t"
  "foreign_folders env owner A (foldr (\<lambda>f. count_reference (fr_physical f) n) fs t) = foreign_folders env owner A t"
  by (induction fs) simp_all

lemma foreign_add:
  "mine env owner A (fo_user g) \<Longrightarrow> foreign_folders env owner A (t\<lparr>t_folders := t_folders t @ [g]\<rparr>) = foreign_folders env owner A t"
  "mine env owner A (fr_user f) \<Longrightarrow> foreign_files env owner A (t\<lparr>t_files := t_files t @ [f]\<rparr>) = foreign_files env owner A t"
  by (simp_all add: foreign_files_def foreign_folders_def)

lemma foreign_drop:
  "(\<And>f. hit f \<Longrightarrow> mine env owner A (fr_user f)) \<Longrightarrow> foreign_files env owner A (t\<lparr>t_files := filter (\<lambda>f. \<not> hit f) (t_files t)\<rparr>)
     = foreign_files env owner A t"
  by (auto simp: foreign_files_def intro: filter_cong)

text \<open>The shape of every write: guards, and a new set of tables with the same foreign rows.\<close>

lemma foreign_guarded:
  assumes f: "foreign_kept env owner A F G db"
    and w: "\<And>now db1. foreign_kept env owner A F G db1 \<Longrightarrow> keeps (foreign_kept env owner A F G) (work now db1)"
  shows "keeps (foreign_kept env owner A F G) (if c then (refused, db) else query env failed work db)"
  using foreign_query[OF f w] f by (simp add: keeps_def)

lemma own_rows:
  assumes "foreign_kept env owner A F G db" "distinct_users A"
  shows "user_id_subquery env owner db = Some uid \<Longrightarrow> mine env owner A uid"
    "Some uid = user_id_subquery env owner db \<Longrightarrow> mine env owner A uid"
    "in_trash env owner i db f \<Longrightarrow> mine env owner A (fr_user f)"
  using subquery_mine[OF assms(2) foreign_rows(3)[OF assms(1)]] by (auto simp: in_trash_def)

lemma foreign_insert_folder [keeps_intros]:
  assumes f: "foreign_kept env owner A F G db" and d: "distinct_users A"
  shows "keeps (foreign_kept env owner A F G) (insert_folder env mysql owner parent name db)"
  unfolding insert_folder_def
proof (rule foreign_guarded[OF f], goal_cases)
  case (1 now db1)
  show ?case
    using own_rows(1)[OF 1 d] foreign_tables(4)[OF 1] foreign_calls(2)[OF 1] foreign_rows[OF 1] 1
    by (simp add: keeps_def foreign_add split: option.split)
qed

lemma foreign_soft_delete_folder [keeps_intros]:
  assumes f: "foreign_kept env owner A F G db" and d: "distinct_users A"
  shows "keeps (foreign_kept env owner A F G) (soft_delete_folder env mysql owner folder db)"
  unfolding soft_delete_folder_def
proof (rule foreign_guarded[OF f], goal_cases)
  case (1 now db1)
  let ?h = "\<lambda>g. if fo_id g = folder \<and> Some (fo_user g) = user_id_subquery env owner db1 \<and> fo_deleted g = None
              then g\<lparr>fo_deleted := Some now, fo_marker := fo_id g\<rparr> else g"
  have "foreign_folders env owner A ((dv_tables db1)\<lparr>t_folders := map ?h (t_folders (dv_tables db1))\<rparr>) = G"
    using own_rows(2)[OF 1 d] foreign_rows(2)[OF 1] by (subst foreign_map_folders) auto
  then show ?case using foreign_tables(1)[OF 1] foreign_rows[OF 1] by (simp add: keeps_def Let_def)
qed

lemma foreign_restore [keeps_intros]:
  assumes f: "foreign_kept env owner A F G db" and d: "distinct_users A"
  shows "keeps (foreign_kept env owner A F G) (repo_restore_file env mysql owner i folder name db)"
  unfolding repo_restore_file_def
proof (rule foreign_guarded[OF f], goal_cases)
  case (1 now db1)
  let ?h = "\<lambda>f. if in_trash env owner i db1 f then restored_row folder name f else f"
  have "foreign_files env owner A ((dv_tables db1)\<lparr>t_files := map ?h (t_files (dv_tables db1))\<rparr>) = F"
    using own_rows(3)[OF 1 d] foreign_rows(1)[OF 1] by (subst foreign_map_files) (auto simp: restored_row_sel)
  then show ?case using foreign_tables(1)[OF 1] foreign_calls(2)[OF 1] foreign_rows[OF 1] by (simp add: keeps_def Let_def)
qed

lemma foreign_hard_delete [keeps_intros]:
  assumes f: "foreign_kept env owner A F G db" and d: "distinct_users A"
  shows "keeps (foreign_kept env owner A F G) (repo_hard_delete_file env mysql owner i db)"
  unfolding repo_hard_delete_file_def
proof (rule foreign_guarded[OF f], goal_cases)
  case (1 now db1)
  show ?case
    using own_rows(3)[OF 1 d] foreign_tables(1)[OF 1] foreign_rows[OF 1]
    by (simp add: keeps_def Let_def drop_file_rows_def foreign_drop)
qed

lemma foreign_insert_file [keeps_intros]:
  assumes f: "foreign_kept env owner A F G db" and d: "distinct_users A" and o: "fc_owner r = owner"
  shows "keeps (foreign_kept env owner A F G) (insert_file env mysql r db)"
  unfolding insert_file_def o
proof (rule foreign_guarded[OF f], goal_cases)
  case (1 now db1)
  show ?case
    using own_rows(1)[OF 1 d] foreign_tables(2)[OF 1] foreign_calls(2)[OF 1] foreign_rows[OF 1] 1
    by (simp add: keeps_def foreign_add new_file_row_def split: option.split)
qed

lemma foreign_tables_only:
  assumes f: "foreign_kept env owner A F G db"
  shows "foreign_kept env owner A F G (db\<lparr>dv_tables := (dv_tables db)\<lparr>t_physical := ps\<rparr>\<rparr>)"
    "foreign_kept env owner A F G (db\<lparr>dv_tables := (dv_tables db)\<lparr>t_physical := ps\<rparr>, dv_next_physical := n\<rparr>)"
    "foreign_kept env owner A F G (db\<lparr>dv_tables := (dv_tables db)\<lparr>t_shares := ss\<rparr>\<rparr>)"
  using f by (simp_all add: foreign_kept_def)

lemma foreign_physical [keeps_intros]:
  assumes f: "foreign_kept env owner A F G db"
  shows "keeps (foreign_kept env owner A F G) (insert_physical_file env mysql sha stored n db)"
    "keeps (foreign_kept env owner A F G) (delete_physical_file_if_unreferenced env mysql i db)"
  unfolding insert_physical_file_def delete_physical_file_if_unreferenced_def Let_def
  by (rule foreign_guarded[OF f], simp add: keeps_def foreign_tables_only foreign_calls)+

lemma foreign_shares [keeps_intros]:
  assumes f: "foreign_kept env owner A F G db"
  shows "keeps (foreign_kept env owner A F G) (insert_file_share env mysql share db)"
    "keeps (foreign_kept env owner A F G) (increment_file_share_download_count env mysql token db)"
  unfolding insert_file_share_def increment_file_share_download_count_def share_guard Let_def
  by (rule foreign_guarded[OF f], simp add: keeps_def foreign_tables_only foreign_calls split: option.split)+

text \<open>The same for calls that work on the disk too.\<close>

definition keeps_db :: "(drive_db \<Rightarrow> bool) \<Rightarrow> 'r \<times> drive_db \<times> disk \<Rightarrow> bool" where
  "keeps_db P x \<longleftrightarrow> P (fst (snd x))"

lemma keeps_db_constructs:
  "P db \<Longrightarrow> keeps_db P (r, db, d)"
  "keeps P x \<Longrightarrow> (\<And>r db. P db \<Longrightarrow> keeps_db P (h r db)) \<Longrightarrow> keeps_db P (case x of (r, db) \<Rightarrow> h r db)"
  "keeps_db P y \<Longrightarrow> (\<And>r db d. P db \<Longrightarrow> keeps_db P (h3 r (db, d))) \<Longrightarrow> keeps_db P (case y of (r, s) \<Rightarrow> h3 r s)"
  "keeps_db P a \<Longrightarrow> (\<And>v. keeps_db P (g v)) \<Longrightarrow> keeps_db P (case o1 of None \<Rightarrow> a | Some v \<Rightarrow> g v)"
  "(\<And>u. keeps_db P (g1 u)) \<Longrightarrow> (\<And>v. keeps_db P (g2 v)) \<Longrightarrow> keeps_db P (case s1 of Inl u \<Rightarrow> g1 u | Inr v \<Rightarrow> g2 v)"
  "keeps_db P a \<Longrightarrow> keeps_db P b \<Longrightarrow> keeps_db P (if c then a else b)"
  "keeps_db P a \<Longrightarrow> keeps_db P b \<Longrightarrow> keeps_db P (case c of True \<Rightarrow> a | False \<Rightarrow> b)"
  "(\<And>u v. keeps_db P (g3 u v)) \<Longrightarrow> keeps_db P (case q1 of (u, v) \<Rightarrow> g3 u v)"
  by (auto simp: keeps_def keeps_db_def split: prod.splits option.splits sum.splits bool.splits)

lemma foreign_transaction:
  assumes f: "foreign_kept env owner A F G db"
    and w: "\<And>db1. foreign_kept env owner A F G db1 \<Longrightarrow> keeps_db (foreign_kept env owner A F G) (work db1 d)"
  shows "keeps_db (foreign_kept env owner A F G) (with_transaction env mysql work db d)"
proof -
  have b: "keeps (foreign_kept env owner A F G) (begin_transaction env mysql db)"
    using f by (auto simp: keeps_def begin_transaction_def query_def Let_def foreign_kept_def)
  have c: "keeps (foreign_kept env owner A F G) (commit_transaction env mysql db1)" if "foreign_kept env owner A F G db1" for db1
    using that by (auto simp: keeps_def commit_transaction_def query_def Let_def foreign_kept_def)
  have r: "foreign_kept env owner A F G (rollback_transaction env mysql db1)" if "foreign_kept env owner A F G db1" for db1
    using that by (auto simp: rollback_transaction_def foreign_kept_def split: option.splits)
  show ?thesis
    unfolding with_transaction_def
    by (intro keeps_db_constructs(1-7) b c r w; (simp only: prod.case)?; intro keeps_db_constructs(1-7) b c r w; assumption)
qed

lemma foreign_unique_name [keeps_intros]:
  "foreign_kept env owner A F G db \<Longrightarrow> keeps (foreign_kept env owner A F G) (unique_name_loop env mysql o1 base folder ign index left db)"
proof (induction left arbitrary: index db)
  case (Suc left)
  show ?case unfolding unique_name_loop.simps Let_def by (intro keeps_intros Suc)
qed (simp add: keeps_def)

lemma foreign_upload:
  assumes f: "foreign_kept env owner A F G db" and d: "distinct_users A"
  shows "keeps_db (foreign_kept env owner A F G) (create_uploaded_file env denv sha failpoint mysql root owner prefix p pub quota db dk)"
proof -
  have o: "fc_owner (file_create_of owner p1 ph b) = owner" for p1 ph b by (simp add: file_create_of_def)
  have q: "keeps (foreign_kept env owner A F G) (inspect_upload_quota env mysql owner n quota db1)"
    if "foreign_kept env owner A F G db1" for n db1
    unfolding inspect_upload_quota_def Let_def by (intro keeps_intros that; assumption)
  have row: "keeps_db (foreign_kept env owner A F G) (upload_file_row env denv mysql owner p1 pub failpoint stored db1 d1)"
    if "foreign_kept env owner A F G db1" for p1 stored db1 d1
    unfolding upload_file_row_def by (cases stored) (simp, intro keeps_db_constructs(1-7) keeps_intros that d o; assumption)
  have ph: "keeps_db (foreign_kept env owner A F G) (upload_physical env denv mysql root prefix p1 db1 d1)"
    if "foreign_kept env owner A F G db1" for p1 db1 d1
    unfolding upload_physical_def Let_def by (intro keeps_db_constructs keeps_intros that; assumption)
  have tail: "keeps_db (foreign_kept env owner A F G)
      (case upload_physical env denv mysql root prefix p1 db1 d1 of
         (None, db5, d2) \<Rightarrow> (Inl unset_error, db5, d2)
       | (Some stored, db5, d2) \<Rightarrow> upload_file_row env denv mysql owner p1 pub failpoint stored db5 d2)"
    if "foreign_kept env owner A F G db1" for p1 db1 d1
    using ph[OF that, of p1 d1] row by (auto simp: keeps_db_def split: prod.splits option.splits)
  have w: "keeps_db (foreign_kept env owner A F G) (upload_work env denv mysql root owner prefix p1 pub quota failpoint db1 d1)"
    if "foreign_kept env owner A F G db1" for p1 db1 d1
    unfolding upload_work_def Let_def ensure_unique_owned_filename_def
    by (intro tail keeps_db_constructs(1,2,4-8) keeps_intros q that; assumption)
  show ?thesis
    unfolding create_uploaded_file_def Let_def
    by (cases "disk_ensure_directory denv (file_storage_root root) dk")
      (simp split: bool.split, intro conjI impI keeps_db_constructs(1,6) foreign_transaction w f; assumption?)
qed

lemma foreign_services:
  assumes f: "foreign_kept env owner A F G db" and d: "distinct_users A"
  shows "keeps (foreign_kept env owner A F G) (create_folder env mysql owner parent name db)"
    "keeps (foreign_kept env owner A F G) (delete_empty_folder env mysql owner folder db)"
    "keeps (foreign_kept env owner A F G) (list_drive_items env mysql owner folder db)"
    "keeps (foreign_kept env owner A F G) (list_trash_items env mysql owner db)"
    "keeps (foreign_kept env owner A F G) (restore_file env mysql owner i db)"
    "keeps (foreign_kept env owner A F G) (load_share_detail env sha mysql token code db)"
    "keeps (foreign_kept env owner A F G) (load_share_download env sha mysql token code db)"
  unfolding create_folder_def delete_empty_folder_def list_drive_items_def list_trash_items_def
    restore_file_def load_owned_file_record_def ensure_unique_owned_filename_def
    load_share_detail_def load_share_download_def Let_def
  by (intro keeps_intros f d; assumption)+

lemma foreign_share_attempts [keeps_intros]:
  "foreign_kept env owner A F G db \<Longrightarrow> keeps (foreign_kept env owner A F G) (share_attempts env mysql share rand db)"
proof (induction rand arbitrary: db)
  case (Cons bytes rand)
  show ?case unfolding share_attempts.simps Let_def by (intro keeps_intros Cons)
qed (simp add: keeps_def)

lemma foreign_create_share:
  assumes f: "foreign_kept env owner A F G db"
  shows "keeps (foreign_kept env owner A F G) (create_share_link env sha rand mysql o1 i options db)"
  unfolding create_share_link_def load_shareable_file_record_def by (intro keeps_intros f; assumption)

lemma foreign_list_public:
  assumes f: "foreign_kept env owner A F G db"
  shows "keeps (foreign_kept env owner A F G) (list_public_files env mysql cursor limit db)"
  unfolding list_public_files_def read_defs
  by (intro keeps_intros f; (assumption | (rule keeps_pair, intro keeps_intros; assumption)))

text \<open>A record is loaded for its owner only, so that an update by the id of the record is the owner's.\<close>

lemma username_of_calls [simp]: "username_of uid (db\<lparr>dv_calls := n, dv_errno := e\<rparr>) = username_of uid db"
  by (simp add: username_of_def)

lemma user_id_subquery_calls [simp]: "user_id_subquery env owner (db\<lparr>dv_calls := n, dv_errno := e\<rparr>) = user_id_subquery env owner db"
  by (simp add: user_id_subquery_def)

lemma loaded_same: "load_owned_file_record env mysql owner i incl db = (x, db') \<Longrightarrow> dv_tables db' = dv_tables db"
  by (auto simp: load_owned_file_record_def fetch_file_record_def select_query_def query_def Let_def
      split: prod.splits if_splits option.splits)

lemma loaded_mine:
  assumes "load_owned_file_record env mysql owner i incl db = (Inr r, db')" "distinct (map fr_id (t_files (dv_tables db)))"
    and "collation_ok env" "f \<in> set (t_files (dv_tables db))" "fr_id f = i"
  shows "mine env owner (dv_auth db) (fr_user f)"
proof -
  obtain g where g: "g \<in> set (t_files (dv_tables db))" "fr_id g = i" "username_of (fr_user g) db = Some owner"
    using assms(1)
    by (auto simp: load_owned_file_record_def fetch_file_record_def select_query_def query_def Let_def fill_file_record_from_row_def
        file_of_def split: prod.splits if_splits option.splits dest!: find_SomeD)
  have "f = g" using assms(2,4,5) g by (auto simp: distinct_map intro: inj_onD)
  then show ?thesis
    using g collation_refl[OF assms(3)] by (auto simp: username_of_def mine_def split: option.splits)
qed

lemma foreign_update_id:
  assumes f: "foreign_kept env owner A F G db"
    and own: "\<And>g. g \<in> set (t_files (dv_tables db)) \<Longrightarrow> fr_id g = i \<Longrightarrow> mine env owner A (fr_user g)"
    and h: "\<And>g. fr_user (h g) = fr_user g" "\<And>g. fr_id g \<noteq> i \<Longrightarrow> h g = g"
  shows "foreign_kept env owner A F G (db\<lparr>dv_calls := n, dv_errno := e,
           dv_tables := (dv_tables db)\<lparr>t_files := map h (t_files (dv_tables db))\<rparr>\<rparr>)"
proof -
  have "foreign_files env owner A ((dv_tables db)\<lparr>t_files := map h (t_files (dv_tables db))\<rparr>) = F"
    using own h foreign_rows(1)[OF f] by (subst foreign_map_files) auto
  then show ?thesis using foreign_tables(1)[OF foreign_calls(1)[OF f]] foreign_rows(2)[OF f] by simp
qed

lemma foreign_updates:
  assumes f: "foreign_kept env owner A F G db" and ids: "distinct (map fr_id (t_files (dv_tables db)))" and c: "collation_ok env"
  shows "keeps (foreign_kept env owner A F G) (soft_delete_file env mysql owner i db)"
    "keeps (foreign_kept env owner A F G) (update_file_visibility env mysql owner i b db)"
proof -
  obtain x db1 where l: "load_owned_file_record env mysql owner i False db = (x, db1)" by force
  have "keeps (foreign_kept env owner A F G) (load_owned_file_record env mysql owner i False db)"
    unfolding load_owned_file_record_def by (intro keeps_intros f; assumption)
  then have f1: "foreign_kept env owner A F G db1" using l by (rule keepsD)
  have upd: "keeps (foreign_kept env owner A F G) (repo_soft_delete_file env mysql i db1)
      \<and> keeps (foreign_kept env owner A F G) (repo_update_file_visibility env mysql i b db1)" if "x = Inr r" for r
  proof -
    have own: "mine env owner A (fr_user g)" if "g \<in> set (t_files (dv_tables db1))" "fr_id g = i" for g
      using loaded_mine[OF l[unfolded \<open>x = Inr r\<close>] ids c, of g] loaded_same[OF l] foreign_rows(3)[OF f] that by simp
    note u = foreign_update_id[OF f1 own]
    show ?thesis
      unfolding repo_soft_delete_file_def repo_update_file_visibility_def query_def Let_def keeps_def
      by (intro conjI; (simp add: f1 foreign_calls(1)[OF f1])?) (intro impI u; simp)+
  qed
  show "keeps (foreign_kept env owner A F G) (soft_delete_file env mysql owner i db)"
    "keeps (foreign_kept env owner A F G) (update_file_visibility env mysql owner i b db)"
    using l f1 upd unfolding soft_delete_file_def update_file_visibility_def
    by (cases x; auto simp: keeps_def split: prod.splits bool.splits)+
qed

lemma foreign_hard_delete_file:
  assumes f: "foreign_kept env owner A F G db" and d: "distinct_users A"
  shows "keeps_db (foreign_kept env owner A F G) (hard_delete_file env denv mysql root owner i db dk)"
proof -
  have del: "keeps (foreign_kept env owner A F G)
      (case delete_physical_file_if_unreferenced env mysql j db1 of
         ((False, _), db3) \<Rightarrow> (Inl unset_error, db3) | ((True, gone), db3) \<Rightarrow> (Inr (r, gone), db3))"
    if "foreign_kept env owner A F G db1" for j r db1
    using foreign_physical(2)[OF that, of mysql j] by (auto simp: keeps_def split: prod.splits bool.splits)
  have w: "keeps (foreign_kept env owner A F G) (hard_delete_work env mysql owner i db1)" if "foreign_kept env owner A F G db1" for db1
    unfolding hard_delete_work_def by (intro del keeps_intros that d; assumption)
  have "keeps_db (foreign_kept env owner A F G) (case hard_delete_work env mysql owner i db1 of (r, db2) \<Rightarrow> (r, db2, d1))"
    if "foreign_kept env owner A F G db1" for db1 d1
    using w[OF that] by (auto simp: keeps_def keeps_db_def split: prod.splits)
  then have "keeps_db (foreign_kept env owner A F G)
      (with_transaction env mysql (\<lambda>db d. case hard_delete_work env mysql owner i db of (r, db1) \<Rightarrow> (r, db1, d)) db dk)"
    by (intro foreign_transaction[OF f])
  then show ?thesis by (auto simp: hard_delete_file_def keeps_db_def split: prod.splits sum.splits)
qed

lemma foreign_empty_trash_loop:
  assumes "foreign_kept env owner A F G db" "distinct_users A"
  shows "keeps_db (foreign_kept env owner A F G) (empty_trash_loop env denv mysql root owner ids n db dk)"
  using assms
proof (induction ids arbitrary: n db dk)
  case (Cons i ids)
  then show ?case
    using foreign_hard_delete_file[OF Cons.prems, of denv mysql root i dk]
    by (auto simp: keeps_db_def split: prod.splits sum.splits)
qed (simp add: keeps_db_def)

text \<open>The user a call is made for; a guest has no name.\<close>

fun call_user :: "drive_call \<Rightarrow> string option" where
  "call_user (CallCreateFolder owner _ _) = Some owner"
| "call_user (CallDeleteFolder owner _) = Some owner"
| "call_user (CallListDrive owner _) = Some owner"
| "call_user (CallListTrash owner) = Some owner"
| "call_user (CallListPublic _ _) = None"
| "call_user (CallSoftDelete owner _) = Some owner"
| "call_user (CallRestore owner _) = Some owner"
| "call_user (CallHardDelete owner _) = Some owner"
| "call_user (CallEmptyTrash owner) = Some owner"
| "call_user (CallVisibility owner _ _) = Some owner"
| "call_user (CallUpload owner _ _ _ _ _) = Some owner"
| "call_user (CallShare owner _ _ _) = Some owner"
| "call_user (CallShareDetail _ _) = None"
| "call_user (CallShareDownload _ _) = None"

lemma step_keeps_foreign:
  assumes f: "foreign_kept env owner A F G db" and d: "distinct_users A" and c: "collation_ok env"
    and ids: "distinct (map fr_id (t_files (dv_tables db)))" and u: "call_user c \<in> {None, Some owner}"
  shows "foreign_kept env owner A F G (fst (drive_step env denv sha mysql root c (db, dk)))"
proof -
  have empty: "keeps_db (foreign_kept env owner A F G) (empty_trash env denv mysql root owner db dk)"
    unfolding empty_trash_def
    by (intro keeps_db_constructs(1,2,4) foreign_empty_trash_loop keeps_intros f d; assumption)
  show ?thesis
    using u foreign_services[OF f d] foreign_updates[OF f ids c] foreign_create_share[OF f] foreign_list_public[OF f]
      foreign_hard_delete_file[OF f d] foreign_upload[OF f d] empty
    by (cases c) (auto simp: keeps_def keeps_db_def)
qed

text \<open>
  Users are isolated: whatever call of the drive a user makes, with whatever ids, names
  and failures, the files and the folders of all other users are exactly what they were; and the
  calls of guests change no file or folder at all.
\<close>

lemma step_leaves_others:
  assumes "drive_reachable env sha root (db, d)" and "collation_ok env" and "distinct_users (dv_auth db)"
    and "call_user c \<in> {None, Some owner}"
    and "drive_step env denv sha mysql root c (db, d) = (db', d')"
  shows "foreign_files env owner (dv_auth db) (dv_tables db') = foreign_files env owner (dv_auth db) (dv_tables db)
    \<and> foreign_folders env owner (dv_auth db) (dv_tables db') = foreign_folders env owner (dv_auth db) (dv_tables db)"
proof -
  obtain K where k: "steady env (dv_auth db) None K db"
    using drive_reachable_inv[OF assms(1,2)] by (auto simp: drive_inv_def)
  have "dv_saved db = None" using k by (simp add: steady_def)
  then have f: "foreign_kept env owner (dv_auth db) (foreign_files env owner (dv_auth db) (dv_tables db))
      (foreign_folders env owner (dv_auth db) (dv_tables db)) db" by (simp add: foreign_kept_def)
  show ?thesis
    using foreign_rows[OF step_keeps_foreign[OF f assms(3,2) store_okD(1)[OF steady_store(1)[OF k]] assms(4), of denv sha mysql root d]]
      assms(5) by simp
qed

subsection \<open>Quota\<close>

definition files_are :: "file_row list \<Rightarrow> auth_db \<Rightarrow> drive_db \<Rightarrow> bool" where
  "files_are FS A db \<longleftrightarrow> t_files (dv_tables db) = FS \<and> dv_auth db = A"

lemma files_select [keeps_intros]:
  "files_are FS A db \<Longrightarrow> keeps (files_are FS A) (select_query env failed f db)"
  by (auto simp: files_are_def keeps_def select_query_def query_def Let_def)

lemma files_reads [keeps_intros]:
  assumes f: "files_are FS A db"
  shows "keeps (files_are FS A) (lock_user_for_update env mysql o1 db)"
    "keeps (files_are FS A) (fetch_physical_file_by_sha256 env mysql sha db)"
    "keeps (files_are FS A) (original_name_exists env mysql o1 name folder ign db)"
    "keeps (files_are FS A) (fetch_user_storage_usage env mysql o1 db)"
    "keeps (files_are FS A) (folder_exists env mysql o1 folder db)"
  unfolding read_defs by (intro keeps_intros f; assumption)+

lemma files_insert_physical [keeps_intros]:
  "files_are FS A db \<Longrightarrow> keeps (files_are FS A) (insert_physical_file env mysql sha stored n db)"
  by (auto simp: files_are_def keeps_def insert_physical_file_def query_def Let_def)

lemma files_unique_name [keeps_intros]:
  "files_are FS A db \<Longrightarrow> keeps (files_are FS A) (unique_name_loop env mysql o1 base folder ign index left db)"
proof (induction left arbitrary: index db)
  case (Suc left)
  show ?case unfolding unique_name_loop.simps Let_def by (intro keeps_intros Suc)
qed (simp add: keeps_def)

lemma inserted_row:
  assumes "insert_file env mysql r db = (Some i, db')"
  obtains user now where "t_files (dv_tables db') = t_files (dv_tables db) @ [new_file_row r i user now]"
    "user_id_subquery env (fc_owner r) db = Some user"
  using assms
  by (auto simp: insert_file_def query_def Let_def count_reference_tables user_id_subquery_def
      split: if_splits option.splits)

lemma transaction_Inr:
  assumes "with_transaction env mysql work db d = (Inr x, db', d')"
  obtains db1 db2 where "work db1 d = (Inr x, db2, d')" "dv_tables db1 = dv_tables db" "dv_auth db1 = dv_auth db"
    "dv_tables db' = dv_tables db2"
proof -
  obtain db1 db2 where b: "begin_transaction env mysql db = (True, db1)" and w: "work db1 d = (Inr x, db2, d')"
    and c: "commit_transaction env mysql db2 = (True, db')"
    using assms by (auto simp: with_transaction_def split: prod.splits bool.splits sum.splits)
  have "dv_tables db1 = dv_tables db" "dv_auth db1 = dv_auth db"
    using b by (auto simp: begin_transaction_def query_def Let_def split: if_splits)
  moreover have "dv_tables db' = dv_tables db2" using c by (auto simp: commit_transaction_def query_def Let_def split: if_splits)
  ultimately show thesis using that w by blast
qed

lemma quota_bound:
  assumes "evaluate_upload_quota n (saturate_long s) quota = (True, status, e)" "qs_allowed status"
    and "0 < uq_max_total quota" "long_ok (uq_max_total quota)"
  shows "0 \<le> n" "s + n \<le> max (uq_max_total quota) s" "0 < uq_max_single quota \<Longrightarrow> n \<le> uq_max_single quota"
  using assms by (auto simp: evaluate_upload_quota_def Let_def saturate_long_def long_ok_def split: if_splits)

text \<open>The steps of a successful upload: the quota was granted, and one row was added.\<close>

lemma upload_work_Inr:
  assumes "upload_work env denv mysql root owner prefix p pub quota failpoint db d = (Inr x, db', d')"
  obtains status e user row where
    "evaluate_upload_quota (pl_size p) (saturate_long (storage_sum (Some user) (dv_tables db))) quota = (True, status, e)"
    "qs_allowed status" "user_id_subquery env owner db = Some user"
    "t_files (dv_tables db') = t_files (dv_tables db) @ [row]" "fr_user row = user" "fr_size row = pl_size p"
proof -
  obtain db1 db2 db3 db4 db5 status e name stored d1 where
    l: "lock_user_for_update env mysql owner db = (True, db1)"
    and q: "inspect_upload_quota env mysql owner (pl_size p) quota db1 = (Inr (status, e), db2)" and a: "qs_allowed status"
    and fo: "folder_exists env mysql owner (pl_folder p) db2 = (Some True, db3)"
    and n: "ensure_unique_owned_filename env mysql owner (pl_filename p) (pl_folder p) 0 db3 = (name, db4)"
    and ph: "upload_physical env denv mysql root prefix (p\<lparr>pl_filename := name\<rparr>) db4 d = (Some stored, db5, d1)"
    and row: "upload_file_row env denv mysql owner (p\<lparr>pl_filename := name\<rparr>) pub failpoint stored db5 d1 = (Inr x, db', d')"
    using assms unfolding upload_work_def Let_def
    by (auto split: prod.splits bool.splits sum.splits option.splits if_splits)
  let ?P = "files_are (t_files (dv_tables db)) (dv_auth db)"
  have p0: "?P db" by (simp add: files_are_def)
  have p1: "?P db1" using keepsD[OF files_reads(1)[OF p0] l] .
  have "?P db2" using keepsD[OF files_reads(4)[OF p1]] q p1 by (auto simp: inspect_upload_quota_def Let_def split: if_splits prod.splits option.splits)
  then have "?P db3" using keepsD[OF files_reads(5) fo] by blast
  then have p4: "?P db4" using keepsD[OF files_unique_name] n unfolding ensure_unique_owned_filename_def Let_def by blast
  have "keeps_db ?P (upload_physical env denv mysql root prefix (p\<lparr>pl_filename := name\<rparr>) db4 d)"
    unfolding upload_physical_def Let_def by (intro keeps_db_constructs keeps_intros p4; assumption)
  then have p5: "?P db5" using ph by (simp add: keeps_db_def)
  obtain phys dedup created where st: "stored = (phys, dedup, created)" by (metis prod.collapse)
  obtain i where ins: "insert_file env mysql (file_create_of owner (p\<lparr>pl_filename := name\<rparr>) phys pub) db5 = (Some i, db')"
    using row st by (auto simp: upload_file_row_def split: prod.splits option.splits if_splits)
  obtain user now where t: "t_files (dv_tables db') = t_files (dv_tables db5) @ [new_file_row (file_create_of owner (p\<lparr>pl_filename := name\<rparr>) phys pub) i user now]"
    and u: "user_id_subquery env owner db5 = Some user"
    using inserted_row[OF ins] by (auto simp: file_create_of_def)
  have sub: "user_id_subquery env owner db' = user_id_subquery env owner db" if "?P db'" for db'
    using that by (simp add: user_id_subquery_def files_are_def)
  have u0: "user_id_subquery env owner db = Some user" using u sub[OF p5] by simp
  have "evaluate_upload_quota (pl_size p) (saturate_long (storage_sum (Some user) (dv_tables db))) quota = (True, status, e)"
  proof -
    have s: "storage_sum u (dv_tables db1) = storage_sum u (dv_tables db)" for u using p1 by (simp add: storage_sum_def files_are_def)
    show ?thesis
    proof (cases "pl_size p < 0")
      case True
      then show ?thesis using q by (simp add: inspect_upload_quota_def evaluate_upload_quota_def Let_def)
    next
      case False
      then show ?thesis
        using q s sub[OF p1] u0
        by (auto simp: inspect_upload_quota_def fetch_user_storage_usage_def select_query_def query_def Let_def
            split: prod.splits option.splits if_splits)
    qed
  qed
  then show thesis
    using that a u0 t p5 by (simp add: files_are_def new_file_row_def file_create_of_def)
qed

text \<open>
  Property C24. Uploads respect the limits: when an upload succeeds, its size is at most the limit for
  one file, and the bytes of the user, files in the recycle bin included, are at most the quota, or
  no more than before when the quota was lowered below what the user already had.
\<close>

theorem upload_within_quota:
  assumes "create_uploaded_file env denv sha failpoint mysql root owner prefix p pub quota db d = (Inr r, db', d')"
    and "0 < uq_max_total quota" and "long_ok (uq_max_total quota)"
  shows "\<exists>user. user_id_subquery env owner db = Some user
    \<and> storage_sum (Some user) (dv_tables db') = storage_sum (Some user) (dv_tables db) + pl_size p
    \<and> storage_sum (Some user) (dv_tables db') \<le> max (uq_max_total quota) (storage_sum (Some user) (dv_tables db))
    \<and> (0 < uq_max_single quota \<longrightarrow> pl_size p \<le> uq_max_single quota)"
proof -
  obtain p1 d1 where tx: "with_transaction env mysql (upload_work env denv mysql root owner prefix p1 pub quota failpoint) db d1 = (Inr r, db', d')"
    and p1: "pl_size p1 = pl_size p"
    using assms(1) by (auto simp: create_uploaded_file_def Let_def split: prod.splits bool.splits if_splits)
  obtain db1 db2 where w: "upload_work env denv mysql root owner prefix p1 pub quota failpoint db1 d1 = (Inr r, db2, d')"
    and t: "dv_tables db1 = dv_tables db" "dv_auth db1 = dv_auth db" "dv_tables db' = dv_tables db2"
    by (rule transaction_Inr[OF tx])
  obtain status e user row where q: "evaluate_upload_quota (pl_size p1) (saturate_long (storage_sum (Some user) (dv_tables db1))) quota = (True, status, e)"
    "qs_allowed status" and u: "user_id_subquery env owner db1 = Some user"
    and f: "t_files (dv_tables db2) = t_files (dv_tables db1) @ [row]" "fr_user row = user" "fr_size row = pl_size p1"
    by (rule upload_work_Inr[OF w])
  have "user_id_subquery env owner db = Some user" using u t by (simp add: user_id_subquery_def)
  moreover have "storage_sum (Some user) (dv_tables db') = storage_sum (Some user) (dv_tables db) + pl_size p"
    using f t p1 by (simp add: storage_sum_def)
  ultimately show ?thesis using quota_bound[OF q assms(2,3)] t p1 by auto
qed

definition small_quota :: upload_quota where
  "small_quota = \<lparr>uq_max_single = 10, uq_max_total = 5\<rparr>"

theorem upload_within_quota_witness:
  "\<exists>user. user_id_subquery calm_env ''alice'' (fst one_file) = Some user
    \<and> storage_sum (Some user) (dv_tables (fst (snd (create_uploaded_file calm_env calm_disk id False True ''/r'' ''alice'' ''def''
          (text_payload ''b.txt'' ''you'') False small_quota (fst one_file) (snd one_file))))) \<le> max 5 (storage_sum (Some user) (dv_tables (fst one_file)))"
proof -
  let ?r = "create_uploaded_file calm_env calm_disk id False True ''/r'' ''alice'' ''def'' (text_payload ''b.txt'' ''you'') False small_quota
    (fst one_file) (snd one_file)"
  have "isl (fst ?r) = False" by code_simp
  then obtain x where x: "fst ?r = Inr x" by (cases "fst ?r") auto
  have r: "?r = (Inr x, fst (snd ?r), snd (snd ?r))" using x by (metis prod.collapse)
  have "0 < uq_max_total small_quota" "long_ok (uq_max_total small_quota)" by code_simp+
  from upload_within_quota[OF r this] show ?thesis by (auto simp: small_quota_def)
qed

subsection \<open>Share links\<close>

definition shares_of :: "drive_env \<Rightarrow> string \<Rightarrow> drive_db \<Rightarrow> share_row list" where
  "shares_of env token db = filter (\<lambda>s. dq_eq env (sh_token s) token) (t_shares (dv_tables db))"

definition open_share :: "int \<Rightarrow> share_row \<Rightarrow> bool" where
  "open_share now s \<longleftrightarrow> \<not> share_expired now s \<and> (sh_max s = 0 \<or> sh_count s < sh_max s)"

lemma shares_select:
  "select_query env failed f db = (r, db') \<Longrightarrow> shares_of env token db' = shares_of env token db"
  by (auto simp: select_query_def query_def Let_def shares_of_def split: if_splits)

lemma fetch_share_same:
  "fetch_file_share env mysql token db = (r, db') \<Longrightarrow> shares_of env t db' = shares_of env t db"
  by (auto simp: fetch_file_share_def ensure_file_shares_table_def dest: shares_select split: if_splits)

lemma find_as_filter: "find P xs = (case filter P xs of [] \<Rightarrow> None | x # _ \<Rightarrow> Some x)"
  by (induction xs) auto

text \<open>What the record of a share says of its row.\<close>

lemma fetched_share:
  assumes "fetch_file_share env mysql token db = (Some r, db')" "shares_of env token db = [s]"
  shows "sr_code r = sh_code s" "sr_max r = sh_max s" "sr_count r = sh_count s"
    "sr_is_expired r = share_expired (dq_now env (dv_calls db)) s" "dv_calls db' = Suc (dv_calls db)"
    "mf_is_deleted (sr_file r) \<longleftrightarrow> (\<forall>f. file_of (sh_file s) (dv_tables db) = Some f \<longrightarrow> fr_deleted f \<noteq> None)"
  using assms
  by (auto simp: fetch_file_share_def select_query_def query_def Let_def find_as_filter shares_of_def
      split: if_splits option.splits)

lemma count_filter_hits:
  assumes "filter P xs = [s]"
  shows "filter (\<lambda>x. P x \<and> Q x) xs = (if Q s then [s] else [])"
  unfolding filter_filter[symmetric] assms by simp

lemma incremented_share:
  assumes inc: "increment_file_share_download_count env mysql token db = (b, db')" and one: "shares_of env token db = [s]"
  shows "b \<Longrightarrow> open_share (dq_now env (dv_calls db)) s \<and> shares_of env token db' = [s\<lparr>sh_count := sh_count s + 1\<rparr>]"
    "\<not> b \<Longrightarrow> shares_of env token db' = [s]"
proof -
  let ?now = "dq_now env (dv_calls db)"
  let ?hit = "\<lambda>s. dq_eq env (sh_token s) token \<and> \<not> share_expired ?now s \<and> (sh_max s = 0 \<or> sh_count s < sh_max s)"
  have f: "filter ?hit (t_shares (dv_tables db)) = (if open_share ?now s then [s] else [])"
    using count_filter_hits[OF one[unfolded shares_of_def], of "open_share ?now"] by (simp add: open_share_def)
  have m: "filter (\<lambda>s. dq_eq env (sh_token s) token) (map (\<lambda>s. if ?hit s then s\<lparr>sh_count := sh_count s + 1\<rparr> else s) xs)
      = map (\<lambda>s. if open_share ?now s then s\<lparr>sh_count := sh_count s + 1\<rparr> else s) (filter (\<lambda>s. dq_eq env (sh_token s) token) xs)" for xs
    by (induction xs) (auto simp: open_share_def)
  have t: "t_shares (dv_tables db') = (if b then map (\<lambda>s. if ?hit s then s\<lparr>sh_count := sh_count s + 1\<rparr> else s) (t_shares (dv_tables db))
        else t_shares (dv_tables db)) \<or> \<not> b \<and> \<not> open_share ?now s
        \<and> t_shares (dv_tables db') = map (\<lambda>s. if ?hit s then s\<lparr>sh_count := sh_count s + 1\<rparr> else s) (t_shares (dv_tables db))"
    and b: "b \<Longrightarrow> open_share ?now s"
    using inc f by (auto simp: increment_file_share_download_count_def ensure_file_shares_table_def query_def Let_def split: if_splits)
  show "b \<Longrightarrow> open_share ?now s \<and> shares_of env token db' = [s\<lparr>sh_count := sh_count s + 1\<rparr>]"
    using t b one m unfolding shares_of_def by simp
  show "\<not> b \<Longrightarrow> shares_of env token db' = [s]"
    using t one m unfolding shares_of_def by auto
qed

lemma checked_download:
  assumes "load_share_download env sha mysql token code db = (Inr (f, x), db')" and "shares_of env token db = [s]"
  shows "(sh_code s \<noteq> [] \<longrightarrow> code \<noteq> [] \<and> sha256_hex sha code = sh_code s)
    \<and> \<not> share_expired (dq_now env (dv_calls db)) s \<and> \<not> share_expired (dq_now env (Suc (dv_calls db))) s
    \<and> (\<forall>row. file_of (sh_file s) (dv_tables db) = Some row \<longrightarrow> fr_deleted row = None)
    \<and> (0 < sh_max s \<longrightarrow> sh_count s < sh_max s)
    \<and> shares_of env token db' = [s\<lparr>sh_count := sh_count s + 1\<rparr>]"
proof -
  obtain r db1 where r: "fetch_file_share env mysql token db = (Some r, db1)" and ok: "validate_share_access_candidate sha r code = None"
    and inc: "increment_file_share_download_count env mysql token db1 = (True, db')"
    using assms(1) by (auto simp: load_share_download_def Let_def split: prod.splits option.splits bool.splits)
  note row = fetched_share[OF r assms(2)]
  have one: "shares_of env token db1 = [s]" using fetch_share_same[OF r] assms(2) by simp
  show ?thesis
    using ok row incremented_share(1)[OF inc one]
    by (auto simp: validate_share_access_candidate_def access_code_hash_def open_share_def split: if_splits)
qed

text \<open>
  Property C26. A share link gives its file out only when it should: a download that succeeds was made
  with the right access code if the link has one, before the link expired, for a file that is not
  deleted, with downloads left; and it is counted.
\<close>

theorem share_download_checked:
  assumes "load_share_download env sha mysql token code db = (Inr (f, x), db')" and "shares_of env token db = [s]"
  shows "(sh_code s \<noteq> [] \<longrightarrow> code \<noteq> [] \<and> sha256_hex sha code = sh_code s)
    \<and> \<not> share_expired (dq_now env (dv_calls db)) s \<and> \<not> share_expired (dq_now env (Suc (dv_calls db))) s
    \<and> (\<forall>row. file_of (sh_file s) (dv_tables db) = Some row \<longrightarrow> fr_deleted row = None)
    \<and> (0 < sh_max s \<longrightarrow> sh_count s < sh_max s)
    \<and> shares_of env token db' = [s\<lparr>sh_count := sh_count s + 1\<rparr>]"
  by (rule checked_download[OF assms])

text \<open>Any number of attempts, with any access codes: the number that succeeded.\<close>

fun download_attempts :: "drive_env \<Rightarrow> (string \<Rightarrow> string) \<Rightarrow> bool \<Rightarrow> string \<Rightarrow> string list \<Rightarrow> drive_db \<Rightarrow> nat" where
  "download_attempts env sha mysql token [] db = 0"
| "download_attempts env sha mysql token (code # codes) db =
     (case load_share_download env sha mysql token code db of
        (Inl _, db1) \<Rightarrow> download_attempts env sha mysql token codes db1
      | (Inr _, db1) \<Rightarrow> Suc (download_attempts env sha mysql token codes db1))"

lemma failed_download_keeps:
  assumes "load_share_download env sha mysql token code db = (Inl e, db')" "shares_of env token db = [s]"
  shows "shares_of env token db' = [s]"
  using assms fetch_share_same incremented_share(2)
  by (auto simp: load_share_download_def Let_def split: prod.splits option.splits bool.splits)

text \<open>
  Property C25. A share link with a number of downloads is never downloaded more often, however many
  requests are made and whatever statements fail.
\<close>

theorem share_downloads_limited:
  assumes "shares_of env token db = [s]" and "0 < sh_max s"
  shows "int (download_attempts env sha mysql token codes db) \<le> max 0 (sh_max s - sh_count s)"
  using assms
proof (induction codes arbitrary: db s)
  case (Cons code codes)
  obtain r db1 where l: "load_share_download env sha mysql token code db = (r, db1)" by force
  show ?case
  proof (cases r)
    case (Inl e)
    then show ?thesis using Cons.IH[OF failed_download_keeps[OF l[unfolded Inl] Cons.prems(1)] Cons.prems(2)] l by simp
  next
    case (Inr fx)
    obtain f x where fx: "fx = (f, x)" by force
    note c = checked_download[OF l[unfolded Inr fx] Cons.prems(1)]
    then have "int (download_attempts env sha mysql token codes db1) \<le> max 0 (sh_max s - (sh_count s + 1))"
      using Cons.IH[of db1 "s\<lparr>sh_count := sh_count s + 1\<rparr>"] Cons.prems(2) by simp
    then show ?thesis using l Inr c Cons.prems(2) by simp
  qed
qed simp

definition one_share :: "drive_db \<times> disk" where
  "one_share = drive_step calm_env calm_disk id True ''/r'' (CallShare ''alice'' 1 \<lparr>so_code = ''x'', so_expires_in = 0, so_max = 1\<rparr> [Some ''t''])
     one_file"

lemma one_share_row:
  "shares_of calm_env (encode_hex ''t'') (fst one_share)
     = [\<lparr>sh_token = encode_hex ''t'', sh_file = 1, sh_user = 1, sh_code = encode_hex ''x'', sh_expires = None, sh_max = 1, sh_count = 0\<rparr>]"
  by code_simp

theorem share_download_checked_witness:
  "shares_of calm_env (encode_hex ''t'') (snd (load_share_download calm_env id True (encode_hex ''t'') ''x'' (fst one_share)))
     = [\<lparr>sh_token = encode_hex ''t'', sh_file = 1, sh_user = 1, sh_code = encode_hex ''x'', sh_expires = None, sh_max = 1, sh_count = 1\<rparr>]"
proof -
  let ?r = "load_share_download calm_env id True (encode_hex ''t'') ''x'' (fst one_share)"
  have "isl (fst ?r) = False" by code_simp
  then obtain f x where x: "fst ?r = Inr (f, x)" by (cases "fst ?r") auto
  have "?r = (Inr (f, x), snd ?r)" using x by (metis prod.collapse)
  from share_download_checked[OF this one_share_row] show ?thesis by simp
qed

theorem share_downloads_limited_witness:
  "download_attempts calm_env id True (encode_hex ''t'') [''x'', ''y'', ''x'', ''x''] (fst one_share) = 1"
proof -
  have "int (download_attempts calm_env id True (encode_hex ''t'') [''x'', ''y'', ''x'', ''x''] (fst one_share)) \<le> 1"
    using share_downloads_limited[OF one_share_row, of id True "[''x'', ''y'', ''x'', ''x'']"] by (simp del: download_attempts.simps)
  moreover have "download_attempts calm_env id True (encode_hex ''t'') [''x'', ''y'', ''x'', ''x''] (fst one_share) \<noteq> 0" by code_simp
  ultimately show ?thesis by linarith
qed

subsection \<open>Pages of public files\<close>

lemma insert_by_set: "set (insert_by le x ys) = insert x (set ys)"
  by (induction ys) auto

lemma order_by_set: "set (order_by le xs) = set xs"
  by (induction xs) (simp_all add: order_by_def insert_by_set)

lemma insert_by_sorted: "sorted_wrt (\<ge>) ys \<Longrightarrow> sorted_wrt (\<ge>) (insert_by (\<ge>) (x :: int) ys)"
  by (induction ys) (auto simp: insert_by_set)

lemma order_by_sorted: "sorted_wrt (\<ge>) (order_by (\<ge>) (xs :: int list))"
  by (induction xs) (simp_all add: order_by_def insert_by_sorted)

lemma insert_by_distinct: "distinct (insert_by le x ys) \<longleftrightarrow> x \<notin> set ys \<and> distinct ys"
  by (induction ys) (auto simp: insert_by_set)

lemma order_by_distinct: "distinct (order_by le xs) \<longleftrightarrow> distinct xs"
  using order_by_set[of le] by (induction xs) (simp_all add: order_by_def insert_by_distinct)

definition visible_ids :: "int \<Rightarrow> drive_db \<Rightarrow> int list" where
  "visible_ids cursor db = order_by (\<ge>) (map fr_id (filter (\<lambda>f. fr_public f \<and> fr_deleted f = None \<and> (cursor > 0 \<longrightarrow> fr_id f < cursor))
     (t_files (dv_tables db))))"

lemma page_of:
  assumes "fetch_public_file_page_ids env mysql cursor limit db = (Some (ids, next_cursor), db')"
  shows "ids = take (nat limit) (visible_ids cursor db)"
    "next_cursor = (if nat limit < length (visible_ids cursor db) then visible_ids cursor db ! nat limit else 0)"
    "0 < limit" "dv_tables db' = dv_tables db"
  using assms
  by (auto simp: fetch_public_file_page_ids_def select_query_def query_def Let_def fetch_page_ids_def visible_ids_def
      min_def nat_add_distrib split: if_splits)

text \<open>
  Property C40. The list of public files loses files: the cursor of the next page is the first file
  that did not fit, but the next page starts below its cursor, so that this file, public and not
  deleted, is on neither page.
\<close>

theorem public_pages_skip_a_file:
  assumes "fetch_public_file_page_ids env mysql cursor limit db = (Some (ids, next_cursor), db1)" and "0 < next_cursor"
    and "distinct (map fr_id (t_files (dv_tables db)))"
    and "fetch_public_file_page_ids env mysql next_cursor limit db1 = (Some (ids2, next_cursor2), db2)"
  shows "(\<exists>f\<in>set (t_files (dv_tables db)). fr_id f = next_cursor \<and> fr_public f \<and> fr_deleted f = None)
    \<and> next_cursor \<notin> set ids \<and> next_cursor \<notin> set ids2"
proof -
  note p = page_of[OF assms(1)] and q = page_of[OF assms(4)]
  let ?rows = "visible_ids cursor db"
  have lt: "nat limit < length ?rows" and nc: "next_cursor = ?rows ! nat limit" using p(2) assms(2) by (auto split: if_splits)
  have "distinct ?rows" using assms(3) by (simp add: visible_ids_def order_by_distinct distinct_map_filter)
  then have "next_cursor \<notin> set ids"
    using lt nc p(1) by (auto simp: in_set_conv_nth nth_eq_iff_index_eq)
  moreover have "next_cursor \<in> set ?rows" using lt nc by simp
  then have "\<exists>f\<in>set (t_files (dv_tables db)). fr_id f = next_cursor \<and> fr_public f \<and> fr_deleted f = None"
    by (auto simp: visible_ids_def order_by_set)
  moreover have "next_cursor \<notin> set ids2"
    using q(1) assms(2) by (auto simp: visible_ids_def order_by_set dest!: in_set_takeD)
  ultimately show ?thesis by blast
qed

definition public_row :: "int \<Rightarrow> file_row" where
  "public_row i = \<lparr>fr_id = i, fr_user = 1, fr_stored = ''s'', fr_physical = 1, fr_name = ''n'', fr_type = [], fr_folder = None, fr_size = 1,
     fr_public = True, fr_sha = ''a'', fr_marker = 0, fr_deleted = None, fr_created = 0\<rparr>"

definition three_public :: drive_db where
  "three_public = (fresh_drive two_users)\<lparr>dv_tables := (dv_tables (fresh_drive two_users))\<lparr>t_files := [public_row 1, public_row 2, public_row 3]\<rparr>\<rparr>"

theorem public_pages_skip_a_file_witness:
  "fst (fetch_public_file_page_ids calm_env True 0 1 three_public) = Some ([3], 2)
   \<and> fst (fetch_public_file_page_ids calm_env True 2 1 (snd (fetch_public_file_page_ids calm_env True 0 1 three_public))) = Some ([1], 0)
   \<and> 2 \<notin> set [3 :: int] \<and> 2 \<notin> set [1 :: int]"
proof -
  let ?a = "fetch_public_file_page_ids calm_env True 0 1 three_public"
  let ?b = "fetch_public_file_page_ids calm_env True 2 1 (snd ?a)"
  have a: "fst ?a = Some ([3], 2)" and b: "fst ?b = Some ([1], 0)" by code_simp+
  have eqs: "?a = (Some ([3], 2), snd ?a)" "?b = (Some ([1], 0), snd ?b)" using a b by (metis prod.collapse)+
  have "distinct (map fr_id (t_files (dv_tables three_public)))" by code_simp
  from public_pages_skip_a_file[OF eqs(1) _ this eqs(2)] have "2 \<notin> set [3 :: int] \<and> 2 \<notin> set [1 :: int]" by simp
  then show ?thesis using a b by blast
qed

end
