(* ===== verification/Auth_Service.thy ===== *)
theory Auth_Service
  imports Auth_Store
begin

text \<open>
  The authentication service (src/service/auth/auth_service.cpp): password records, registration,
  login, sessions with their cache, and logout. PBKDF2, the random bytes and the clock are
  arguments. The messages for the user are constructors named after what they say.
\<close>

definition kPasswordScheme :: string where "kPasswordScheme = ''pbkdf2_sha256''"
definition kPasswordSaltBytes :: nat where "kPasswordSaltBytes = 16"
definition kPasswordHashBytes :: nat where "kPasswordHashBytes = 32"
definition kPasswordIterations :: nat where "kPasswordIterations = 210000"
definition kSessionTtlSeconds :: int where "kSessionTtlSeconds = 7 * 24 * 3600"
definition kSessionRefreshThresholdSeconds :: int where "kSessionRefreshThresholdSeconds = 24 * 3600"

record auth_env =
  ae_sql :: sql_env
  ae_now :: int
  ae_rand :: "nat \<Rightarrow> string option"
  ae_kdf :: "string \<Rightarrow> string \<Rightarrow> int \<Rightarrow> string option"

text \<open>The tables, \<open>g_auth_users\<close> and \<open>g_auth_sessions\<close>.\<close>

record auth_state =
  au_db :: auth_db
  au_users :: smap
  au_sessions :: "string \<rightharpoonup> string \<times> int"

datatype auth_error = AuthNone | AuthUnauthorized | AuthNotFound | AuthConflict | AuthInternal

datatype auth_message =
    NoMessage | RegisterSuccess | LoginSuccess | RegisterNoDatabase | NameTaken | RegisterNoCredential | RegisterNotSaved
  | UserUnknown | WrongPassword | BadCredentialRecord | LoginNotReadable | NoSessionIssued | SessionNotSaved | OldSessionsKept

record auth_result =
  ar_success :: bool
  ar_error :: auth_error
  ar_message :: auth_message
  ar_token :: string
  ar_expires_in :: int

definition no_result :: auth_result where
  "no_result = \<lparr>ar_success = False, ar_error = AuthInternal, ar_message = NoMessage, ar_token = [], ar_expires_in = 0\<rparr>"

definition set_error :: "auth_error \<Rightarrow> auth_message \<Rightarrow> auth_result \<Rightarrow> auth_result" where
  "set_error e m r = r\<lparr>ar_success := False, ar_error := e, ar_message := m\<rparr>"

subsection \<open>Passwords\<close>

definition auth_decode_hex :: "string \<Rightarrow> string option" where
  "auth_decode_hex hex = (if hex = [] \<or> odd (length hex) then None else decode_hex hex)"

definition secure_random_hex :: "auth_env \<Rightarrow> nat \<Rightarrow> string option" where
  "secure_random_hex env n = (if n = 0 then None else map_option encode_hex (ae_rand env n))"

definition derive_pbkdf2_sha256 :: "auth_env \<Rightarrow> string \<Rightarrow> string \<Rightarrow> int \<Rightarrow> string option" where
  "derive_pbkdf2_sha256 env password salt_hex iterations =
     (if iterations \<le> 0 then None
      else (case auth_decode_hex salt_hex of
              None \<Rightarrow> None
            | Some salt \<Rightarrow> if salt = [] then None else map_option encode_hex (ae_kdf env password salt iterations)))"

definition build_password_record :: "string \<Rightarrow> string \<Rightarrow> string" where
  "build_password_record salt_hex hash_hex =
     kPasswordScheme @ ''$'' @ nat_to_string kPasswordIterations @ ''$'' @ salt_hex @ ''$'' @ hash_hex"

text \<open>The iterations, the salt and the hash.\<close>

definition parse_password_record :: "string \<Rightarrow> (int \<times> string \<times> string) option" where
  "parse_password_record record =
     (case find_char (CHR ''$'') record of
        None \<Rightarrow> None
      | Some first_sep \<Rightarrow>
          if take first_sep record \<noteq> kPasswordScheme then None
          else (case find_from ''$'' record (first_sep + 1) of
                  None \<Rightarrow> None
                | Some second_sep \<Rightarrow>
                    (case find_from ''$'' record (second_sep + 1) of
                       None \<Rightarrow> None
                     | Some third_sep \<Rightarrow>
                         let iterations_str = take (second_sep - first_sep - 1) (drop (first_sep + 1) record);
                             parsed_salt = take (third_sep - second_sep - 1) (drop (second_sep + 1) record);
                             parsed_hash = drop (third_sep + 1) record;
                             iterations = narrow_int (atol iterations_str)
                         in if iterations_str = [] \<or> parsed_salt = [] \<or> parsed_hash = [] \<or> iterations \<le> 0 then None
                            else Some (iterations, parsed_salt, parsed_hash))))"

definition secure_equals :: "string \<Rightarrow> string \<Rightarrow> bool" where
  "secure_equals left right \<longleftrightarrow> length left = length right \<and> left = right"

definition make_password_record :: "auth_env \<Rightarrow> string \<Rightarrow> string" where
  "make_password_record env password =
     (case secure_random_hex env kPasswordSaltBytes of
        None \<Rightarrow> []
      | Some salt \<Rightarrow>
          if salt = [] then []
          else (case derive_pbkdf2_sha256 env password salt (int kPasswordIterations) of
                  None \<Rightarrow> []
                | Some hash \<Rightarrow> build_password_record salt hash))"

definition auth_make_session_token :: "auth_env \<Rightarrow> string" where
  "auth_make_session_token env = (case secure_random_hex env kSessionTokenBytes of None \<Rightarrow> [] | Some t \<Rightarrow> t)"

datatype password_check = PwOk | PwUserNotFound | PwMismatch | PwInvalidRecord | PwDbError

definition check_user_password :: "auth_env \<Rightarrow> bool \<Rightarrow> string \<Rightarrow> string \<Rightarrow> auth_state \<Rightarrow> password_check \<times> auth_state" where
  "check_user_password env mysql name password st =
     (if \<not> mysql then (PwDbError, st)
      else (case fetch_user_password (ae_sql env) mysql name (au_db st) of (r, db) \<Rightarrow>
        let st1 = st\<lparr>au_db := db\<rparr> in
        (case r of
           None \<Rightarrow> (if db_errno db = 0 then PwUserNotFound else PwDbError, st1)
         | Some stored \<Rightarrow>
             (case parse_password_record stored of
                None \<Rightarrow> (PwInvalidRecord, st1)
              | Some (iterations, salt, expected) \<Rightarrow>
                  (case derive_pbkdf2_sha256 env password salt iterations of
                     None \<Rightarrow> (PwDbError, st1)
                   | Some candidate \<Rightarrow> (if secure_equals candidate expected then PwOk else PwMismatch, st1))))))"

definition is_truthy_value :: "string \<Rightarrow> bool" where
  "is_truthy_value v \<longleftrightarrow> v = ''1'' \<or> v = ''true'' \<or> v = ''TRUE'' \<or> v = ''yes'' \<or> v = ''on''"

subsection \<open>Sessions\<close>

definition persist_session :: "auth_env \<Rightarrow> bool \<Rightarrow> string \<Rightarrow> string \<Rightarrow> int \<Rightarrow> auth_state \<Rightarrow> bool \<times> auth_state" where
  "persist_session env mysql token name ttl st =
     (if \<not> mysql \<or> token = [] \<or> name = [] \<or> ttl \<le> 0 then (False, st)
      else (case upsert_session (ae_sql env) mysql token name ttl (au_db st) of
              (False, db) \<Rightarrow> (False, st\<lparr>au_db := db\<rparr>)
            | (True, db) \<Rightarrow> (True, st\<lparr>au_db := db, au_sessions := (au_sessions st)(token \<mapsto> (name, ae_now env + ttl))\<rparr>)))"

definition refresh_session :: "auth_env \<Rightarrow> bool \<Rightarrow> string \<Rightarrow> string \<Rightarrow> int \<Rightarrow> auth_state \<Rightarrow> bool \<times> auth_state" where
  "refresh_session env mysql token name ttl st =
     (if \<not> mysql \<or> token = [] \<or> name = [] \<or> ttl \<le> 0 then (False, st)
      else (case refresh_session_row (ae_sql env) mysql token name ttl (au_db st) of
              ((ok, updated), db) \<Rightarrow>
                if \<not> ok \<or> \<not> updated then (False, st\<lparr>au_db := db\<rparr>)
                else (True, st\<lparr>au_db := db, au_sessions := (au_sessions st)(token \<mapsto> (name, ae_now env + ttl))\<rparr>)))"

definition remove_session :: "auth_env \<Rightarrow> bool \<Rightarrow> string \<Rightarrow> auth_state \<Rightarrow> bool \<times> auth_state" where
  "remove_session env mysql token st =
     (if token = [] then (False, st)
      else let st1 = st\<lparr>au_sessions := (au_sessions st)(token := None)\<rparr> in
        if \<not> mysql then (True, st1)
        else (case delete_session (ae_sql env) mysql token (au_db st1) of (b, db) \<Rightarrow> (b, st1\<lparr>au_db := db\<rparr>)))"

definition remove_user_sessions :: "auth_env \<Rightarrow> bool \<Rightarrow> string \<Rightarrow> string \<Rightarrow> auth_state \<Rightarrow> bool \<times> auth_state" where
  "remove_user_sessions env mysql name except_token st =
     (if name = [] then (False, st)
      else let st1 = st\<lparr>au_sessions := (\<lambda>t. case au_sessions st t of
               None \<Rightarrow> None
             | Some (n, e) \<Rightarrow> if n = name \<and> \<not> (except_token \<noteq> [] \<and> t = except_token) then None else Some (n, e))\<rparr> in
        if \<not> mysql then (True, st1)
        else (case delete_user_sessions (ae_sql env) mysql name except_token (au_db st1) of (b, db) \<Rightarrow> (b, st1\<lparr>au_db := db\<rparr>)))"

text \<open>The part of \<open>lookup_session\<close> that asks the tables.\<close>

definition lookup_stored_session :: "auth_env \<Rightarrow> bool \<Rightarrow> string \<Rightarrow> auth_state \<Rightarrow> string option \<times> auth_state" where
  "lookup_stored_session env mysql token st =
     (case find_active_session (ae_sql env) mysql token (au_db st) of
        (None, db) \<Rightarrow> (None, st\<lparr>au_db := snd (cleanup_session_token_or_expired (ae_sql env) mysql token db)\<rparr>)
      | (Some (name, expires_at), db) \<Rightarrow>
          let st1 = st\<lparr>au_db := db\<rparr> in
          if name = [] \<or> expires_at \<le> ae_now env then (None, st1)
          else let st2 = st1\<lparr>au_sessions := (au_sessions st1)(token \<mapsto> (name, expires_at))\<rparr> in
            (Some name,
             if expires_at - ae_now env \<le> kSessionRefreshThresholdSeconds
             then snd (refresh_session env mysql token name kSessionTtlSeconds st2) else st2))"

text \<open>\<open>lookup_session\<close>: the user of a token, or \<open>None\<close> for the result false.\<close>

definition lookup_session :: "auth_env \<Rightarrow> bool \<Rightarrow> string \<Rightarrow> auth_state \<Rightarrow> string option \<times> auth_state" where
  "lookup_session env mysql token st =
     (if \<not> mysql \<or> token = [] then (None, st)
      else (case au_sessions st token of
              None \<Rightarrow> lookup_stored_session env mysql token st
            | Some (name, expires_at) \<Rightarrow>
                if expires_at > ae_now env then
                  (if \<not> (expires_at - ae_now env \<le> kSessionRefreshThresholdSeconds)
                   then (if name = [] then None else Some name, st)
                   else (case refresh_session env mysql token name kSessionTtlSeconds st of
                           (True, st1) \<Rightarrow> (if name = [] then None else Some name, st1)
                         | (False, st1) \<Rightarrow>
                             lookup_stored_session env mysql token (st1\<lparr>au_sessions := (au_sessions st1)(token := None)\<rparr>)))
                else lookup_stored_session env mysql token (st\<lparr>au_sessions := (au_sessions st)(token := None)\<rparr>)))"

definition logout :: "auth_env \<Rightarrow> bool \<Rightarrow> string \<Rightarrow> string \<Rightarrow> bool \<Rightarrow> auth_state \<Rightarrow> bool \<times> auth_state" where
  "logout env mysql name token logout_all st =
     (if logout_all then remove_user_sessions env mysql name [] st else remove_session env mysql token st)"

subsection \<open>Accounts\<close>

definition load_user_cache :: "auth_env \<Rightarrow> bool \<Rightarrow> auth_state \<Rightarrow> bool \<times> auth_state" where
  "load_user_cache env mysql st =
     (if \<not> mysql then (False, st)
      else (case fetch_all_user_passwords (ae_sql env) mysql (au_db st) of
              (None, db) \<Rightarrow> (False, st\<lparr>au_db := db\<rparr>)
            | (Some users, db) \<Rightarrow> (True, st\<lparr>au_db := db, au_users := users\<rparr>)))"

definition update_user_password_hash :: "auth_env \<Rightarrow> bool \<Rightarrow> string \<Rightarrow> string \<Rightarrow> auth_state \<Rightarrow> bool \<times> auth_state" where
  "update_user_password_hash env mysql name password st =
     (if \<not> mysql then (False, st)
      else let rec = make_password_record env password in
        if rec = [] then (False, st)
        else (case update_user_password (ae_sql env) mysql name rec (au_db st) of
                (False, db) \<Rightarrow> (False, st\<lparr>au_db := db\<rparr>)
              | (True, db) \<Rightarrow> (True, st\<lparr>au_db := db, au_users := smap_set name rec (au_users st)\<rparr>)))"

definition register_user :: "auth_env \<Rightarrow> bool \<Rightarrow> string \<Rightarrow> string \<Rightarrow> auth_state \<Rightarrow> auth_result \<times> auth_state" where
  "register_user env mysql name password st =
     (if \<not> mysql then (set_error AuthInternal RegisterNoDatabase no_result, st)
      else if map_of (au_users st) name \<noteq> None then (set_error AuthConflict NameTaken no_result, st)
      else let rec = make_password_record env password in
        if rec = [] then (set_error AuthInternal RegisterNoCredential no_result, st)
        else (case insert_user (ae_sql env) mysql name rec (au_db st) of
                (False, db) \<Rightarrow>
                  (if db_errno db = 1062 then set_error AuthConflict NameTaken no_result
                   else set_error AuthInternal RegisterNotSaved no_result, st\<lparr>au_db := db\<rparr>)
              | (True, db) \<Rightarrow>
                  (no_result\<lparr>ar_success := True, ar_error := AuthNone, ar_message := RegisterSuccess\<rparr>,
                   st\<lparr>au_db := db, au_users := smap_set name rec (au_users st)\<rparr>)))"

text \<open>From the point where the password was accepted.\<close>

definition issue_session :: "auth_env \<Rightarrow> bool \<Rightarrow> string \<Rightarrow> auth_state \<Rightarrow> auth_result \<times> auth_state" where
  "issue_session env mysql name st =
     (let token = auth_make_session_token env in
      if token = [] then (set_error AuthInternal NoSessionIssued no_result, st)
      else (case persist_session env mysql token name kSessionTtlSeconds st of
              (False, st1) \<Rightarrow> (set_error AuthInternal SessionNotSaved no_result, st1)
            | (True, st1) \<Rightarrow>
                let st2 = st1\<lparr>au_db := snd (mark_user_login (ae_sql env) mysql name (au_db st1))\<rparr> in
                (case remove_user_sessions env mysql name token st2 of
                   (False, st3) \<Rightarrow> (set_error AuthInternal OldSessionsKept no_result, snd (remove_session env mysql token st3))
                 | (True, st3) \<Rightarrow>
                     (\<lparr>ar_success = True, ar_error = AuthNone, ar_message = LoginSuccess, ar_token = token,
                       ar_expires_in = kSessionTtlSeconds\<rparr>, st3))))"

definition login_user :: "auth_env \<Rightarrow> bool \<Rightarrow> string \<Rightarrow> string \<Rightarrow> auth_state \<Rightarrow> auth_result \<times> auth_state" where
  "login_user env mysql name password st =
     (case check_user_password env mysql name password st of (status, st1) \<Rightarrow>
        (case status of
           PwOk \<Rightarrow> issue_session env mysql name st1
         | PwUserNotFound \<Rightarrow> (set_error AuthNotFound UserUnknown no_result, st1)
         | PwMismatch \<Rightarrow> (set_error AuthUnauthorized WrongPassword no_result, st1)
         | PwInvalidRecord \<Rightarrow> (set_error AuthInternal BadCredentialRecord no_result, st1)
         | PwDbError \<Rightarrow> (set_error AuthInternal LoginNotReadable no_result, st1)))"

subsection \<open>Password records\<close>

lemma find_from_end: "c \<notin> set a \<Longrightarrow> find_from [c] (pre @ a @ c # b) (length pre) = Some (length pre + length a)"
  by (simp add: find_from_def find_char_def [symmetric] find_char_append)

lemma iterations_text: "nat_to_string kPasswordIterations = ''210000''"
  by code_simp

text \<open>A record that was built is parsed back into its parts.\<close>

lemma parse_build_record:
  assumes "salt \<noteq> []" "hash \<noteq> []" "CHR ''$'' \<notin> set salt"
  shows "parse_password_record (build_password_record salt hash) = Some (210000, salt, hash)"
proof -
  let ?r = "build_password_record salt hash"
  have r: "?r = ''pbkdf2_sha256$210000$'' @ salt @ CHR ''$'' # hash"
    unfolding build_password_record_def iterations_text by (simp add: kPasswordScheme_def)
  have one: "find_char (CHR ''$'') ?r = Some 13" unfolding r by (simp add: find_char_def)
  have two: "find_from ''$'' ?r 14 = Some 20" unfolding r by (simp add: find_from_def)
  have len: "length ''pbkdf2_sha256$210000$'' = 21" by simp
  have three: "find_from ''$'' ?r 21 = Some (21 + length salt)"
    using find_from_end [OF assms(3), of "''pbkdf2_sha256$210000$''" hash] unfolding r len .
  have "narrow_int (atol ''210000'') = 210000" by code_simp
  moreover have "take 13 ?r = kPasswordScheme" "take 6 (drop 14 ?r) = ''210000''" "take (length salt) (drop 21 ?r) = salt"
    unfolding r by (simp_all add: kPasswordScheme_def)
  moreover have "drop 21 ?r = salt @ CHR ''$'' # hash" unfolding r by simp
  then have "drop (Suc (length salt) + 21) ?r = hash" unfolding drop_drop [symmetric] by simp
  then have "drop (22 + length salt) ?r = hash" by (simp add: ac_simps)
  ultimately show ?thesis
    using assms(1,2) one two three by (simp add: parse_password_record_def Let_def)
qed

text \<open>What a successful registration leaves behind.\<close>

lemma hex_lower_not_dollar: "d < 16 \<Longrightarrow> CHR ''$'' \<noteq> hex_lower d"
proof
  assume d: "d < 16" and eq: "CHR ''$'' = hex_lower d"
  have "(of_char (hex_lower d) :: nat) = 36" unfolding eq [symmetric] by simp
  then show False using of_char_hex_lower [OF d] by (auto split: if_splits)
qed

lemma encode_hex_digits: "CHR ''$'' \<notin> set (encode_hex bs)" "encode_hex bs = [] \<longleftrightarrow> bs = []" "even (length (encode_hex bs))"
proof (induction bs)
  case (Cons b bs)
  have "(of_char b :: nat) div 16 < 16" using of_char_less [of b] by linarith
  then show "CHR ''$'' \<notin> set (encode_hex (b # bs))" using Cons hex_lower_not_dollar by (auto simp: encode_hex_def)
  show "encode_hex (b # bs) = [] \<longleftrightarrow> b # bs = []" "even (length (encode_hex (b # bs)))"
    using Cons by (simp_all add: encode_hex_def)
qed (simp_all add: encode_hex_def)

lemma find_snoc: "find P (xs @ [x]) = (case find P xs of Some y \<Rightarrow> Some y | None \<Rightarrow> if P x then Some x else None)"
  by (induction xs) auto

lemma auth_decode_encode: "bs \<noteq> [] \<Longrightarrow> auth_decode_hex (encode_hex bs) = Some bs"
  by (simp add: auth_decode_hex_def encode_hex_digits)

lemma make_record_cases:
  assumes "make_password_record env pw = rec" "rec \<noteq> []"
  obtains salt hash where "ae_rand env kPasswordSaltBytes = Some salt" "salt \<noteq> []" "ae_kdf env pw salt 210000 = Some hash"
    "rec = build_password_record (encode_hex salt) (encode_hex hash)"
  using assms
  by (auto simp: make_password_record_def secure_random_hex_def derive_pbkdf2_sha256_def auth_decode_encode encode_hex_digits
      kPasswordIterations_def split: option.splits if_splits)

lemma register_cases:
  assumes "register_user env mysql name pw st = (r, st')" "ar_success r"
  obtains rec row where "rec = make_password_record env pw" "rec \<noteq> []" "mysql" "name \<noteq> []"
    "row = \<lparr>u_id = db_next_id (au_db st), u_name = name, u_hash = rec, u_disabled = False, u_last_login = None\<rparr>"
    "db_users (au_db st') = db_users (au_db st) @ [row]" "\<not> list_ex (\<lambda>u. sq_eq (ae_sql env) (u_name u) name) (db_users (au_db st))"
    "db_sessions (au_db st') = db_sessions (au_db st)" "au_sessions st' = au_sessions st"
  using assms
  by (auto simp: register_user_def insert_user_def statement_def set_error_def no_result_def Let_def split: if_splits prod.splits bool.splits)

text \<open>
  Registration and login agree: after a successful registration, a password is accepted
  for the new account exactly when it derives the same key as the registered one (with the salt and
  the iterations of the record), and otherwise it is refused as wrong; the stored record contains
  only the scheme, the salt and the derived key. Assumed: PBKDF2 gives keys that are not empty, the
  table can be read, and the collation finds a name by itself.
\<close>

lemma registered_password_checks:
  assumes "register_user env True name pw st = (r, st')" and "ar_success r"
    and "sq_error (ae_sql env) ''fetch_user_password'' = 0" and "sq_eq (ae_sql env) name name"
    and "ae_rand env kPasswordSaltBytes = Some salt" and "ae_kdf env pw salt 210000 = Some key" and "key \<noteq> []"
  shows "fst (check_user_password env True name pw' st') =
    (case ae_kdf env pw' salt 210000 of None \<Rightarrow> PwDbError | Some key' \<Rightarrow> if key' = key then PwOk else PwMismatch)"
proof -
  obtain rec row where rec: "rec = make_password_record env pw" "rec \<noteq> []" and name: "name \<noteq> []"
    and row: "u_name row = name" "u_hash row = rec" "\<not> u_disabled row"
    and users: "db_users (au_db st') = db_users (au_db st) @ [row]"
      "\<not> list_ex (\<lambda>u. sq_eq (ae_sql env) (u_name u) name) (db_users (au_db st))"
    using register_cases [OF assms(1,2)] by (metis user_row.select_convs)
  obtain salt' hash' where "ae_rand env kPasswordSaltBytes = Some salt'" "salt' \<noteq> []" "ae_kdf env pw salt' 210000 = Some hash'"
    "rec = build_password_record (encode_hex salt') (encode_hex hash')"
    by (rule make_record_cases [OF rec(1) [symmetric] rec(2)])
  then have built: "rec = build_password_record (encode_hex salt) (encode_hex key)" and salt: "salt \<noteq> []"
    using assms(5,6) by auto
  have parsed: "parse_password_record rec = Some (210000, encode_hex salt, encode_hex key)"
    unfolding built using salt assms(7) by (intro parse_build_record) (simp_all add: encode_hex_digits)
  have "find (\<lambda>u. sq_eq (ae_sql env) (u_name u) name \<and> \<not> u_disabled u) (db_users (au_db st)) = None"
    using users(2) by (auto simp: find_None_iff list_ex_iff)
  then have "active_user (ae_sql env) name (au_db st'\<lparr>db_errno := 0\<rparr>) = Some row"
    using users(1) row assms(4) by (simp add: active_user_def find_snoc)
  then have "fetch_user_password (ae_sql env) True name (au_db st') = (Some rec, au_db st'\<lparr>db_errno := 0\<rparr>)"
    using assms(3) name row(2) by (simp add: fetch_user_password_def statement_def)
  moreover have "derive_pbkdf2_sha256 env pw' (encode_hex salt) 210000 = map_option encode_hex (ae_kdf env pw' salt 210000)"
    using salt by (simp add: derive_pbkdf2_sha256_def auth_decode_encode)
  moreover have "encode_hex a = encode_hex b \<longleftrightarrow> a = b" for a b
    by (metis decode_encode_hex option.inject)
  ultimately show ?thesis
    using parsed by (auto simp: check_user_password_def secure_equals_def Let_def split: option.splits)
qed

definition demo_sql :: sql_env where
  "demo_sql = \<lparr>sq_error = (\<lambda>_. 0), sq_now = 1000, sq_eq = (=)\<rparr>"

definition demo_env :: auth_env where
  "demo_env = \<lparr>ae_sql = demo_sql, ae_now = 1000, ae_rand = (\<lambda>n. Some (replicate n (CHR ''r''))),
     ae_kdf = (\<lambda>pw salt n. Some (salt @ pw))\<rparr>"

definition demo_state :: auth_state where
  "demo_state = \<lparr>au_db = \<lparr>db_users = [], db_sessions = [], db_errno = 0, db_next_id = 1\<rparr>, au_users = [], au_sessions = (\<lambda>_. None)\<rparr>"

lemma registered_password_checks_witness:
  "fst (check_user_password demo_env True ''bob'' ''secret'' (snd (register_user demo_env True ''bob'' ''secret'' demo_state))) = PwOk
   \<and> fst (check_user_password demo_env True ''bob'' ''other'' (snd (register_user demo_env True ''bob'' ''secret'' demo_state))) = PwMismatch"
proof -
  let ?reg = "register_user demo_env True ''bob'' ''secret'' demo_state"
  let ?salt = "replicate 16 (CHR ''r'')"
  have reg: "?reg = (fst ?reg, snd ?reg)" by simp
  have "ar_success (fst ?reg)" by code_simp
  moreover have "sq_error (ae_sql demo_env) ''fetch_user_password'' = 0" "sq_eq (ae_sql demo_env) ''bob'' ''bob''"
    "ae_rand demo_env kPasswordSaltBytes = Some ?salt" "ae_kdf demo_env pw ?salt 210000 = Some (?salt @ pw)" for pw
    by (simp_all add: demo_env_def demo_sql_def kPasswordSaltBytes_def)
  ultimately show ?thesis using registered_password_checks [OF reg, of ?salt "?salt @ ''secret''"] by simp
qed

subsection \<open>Sessions\<close>

text \<open>Only the token \<open>token\<close> gives access as \<open>name\<close>, in the cache and in the table.\<close>

definition only_session :: "string \<Rightarrow> string \<Rightarrow> auth_state \<Rightarrow> bool" where
  "only_session name token st \<longleftrightarrow>
     (\<forall>t n e. au_sessions st t = Some (n, e) \<longrightarrow> n = name \<longrightarrow> t = token)
     \<and> (\<forall>s \<in> set (db_sessions (au_db st)). \<forall>u. user_of_id (s_user_id s) (au_db st) = Some u \<longrightarrow> u_name u = name \<longrightarrow> s_token s = token)"

lemma user_of_id_cong: "db_users db = db_users db' \<Longrightarrow> user_of_id i db = user_of_id i db'"
  by (simp add: user_of_id_def)

lemma user_of_id_errno [simp]: "user_of_id i (db\<lparr>db_errno := e\<rparr>) = user_of_id i db"
  by (simp add: user_of_id_def)

text \<open>\<open>remove_user_sessions\<close> leaves no other session, when the collation is equality.\<close>

lemma remove_user_sessions_only:
  assumes "remove_user_sessions env True name token st = (True, st')" "sq_eq (ae_sql env) = (=)" "token \<noteq> []"
  shows "only_session name token st'"
    and "au_sessions st' t = (case au_sessions st t of None \<Rightarrow> None | Some (n, e) \<Rightarrow> if n = name \<and> t \<noteq> token then None else Some (n, e))"
proof -
  have name: "name \<noteq> []" using assms(1) by (auto simp: remove_user_sessions_def split: if_splits)
  have au: "au_sessions st' = (\<lambda>t. case au_sessions st t of None \<Rightarrow> None | Some (n, e) \<Rightarrow> if n = name \<and> t \<noteq> token then None else Some (n, e))"
    using assms name by (auto simp: remove_user_sessions_def Let_def fun_eq_iff split: prod.splits option.splits)
  then show "au_sessions st' t = (case au_sessions st t of None \<Rightarrow> None | Some (n, e) \<Rightarrow> if n = name \<and> t \<noteq> token then None else Some (n, e))"
    by simp
  have db: "db_users (au_db st') = db_users (au_db st)"
    "db_sessions (au_db st') = filter (\<lambda>s. \<not> ((case user_of_id (s_user_id s) (au_db st) of None \<Rightarrow> False | Some u \<Rightarrow> u_name u = name)
        \<and> s_token s \<noteq> token)) (db_sessions (au_db st))"
    using assms name by (auto simp: remove_user_sessions_def delete_user_sessions_def statement_def Let_def
        intro!: filter_cong split: if_splits prod.splits option.splits)
  then show "only_session name token st'"
    unfolding only_session_def user_of_id_cong [OF db(1)] db(2) au by (auto split: option.splits if_splits prod.splits)
qed

text \<open>Asking the tables for another token does not give access as \<open>name\<close>.\<close>

lemma lookup_stored_other:
  assumes "only_session name token st" "sq_eq (ae_sql env) = (=)" "t \<noteq> token"
  shows "fst (lookup_stored_session env True t st) \<noteq> Some name"
proof -
  have "fst (find_active_session (ae_sql env) True t (au_db st)) \<noteq> Some (name, e)" for e
  proof
    assume "fst (find_active_session (ae_sql env) True t (au_db st)) = Some (name, e)"
    then obtain s u where "s \<in> set (db_sessions (au_db st))" "s_token s = t" "user_of_id (s_user_id s) (au_db st) = Some u" "u_name u = name"
      using assms(2)
      by (auto simp: find_active_session_def statement_def dest!: find_SomeD split: if_splits option.splits)
    then show False using assms(1,3) by (auto simp: only_session_def)
  qed
  then show ?thesis by (auto simp: lookup_stored_session_def Let_def split: prod.splits option.splits if_splits) blast
qed

lemma refresh_keeps_only:
  assumes "only_session name token st" "refresh_session env True t n ttl st = (b, st')" "sq_eq (ae_sql env) = (=)" "n \<noteq> name"
  shows "only_session name token (st'\<lparr>au_sessions := (au_sessions st')(t := None)\<rparr>)"
proof -
  have db: "db_users (au_db st') = db_users (au_db st)"
    and keys: "map (\<lambda>s. (s_token s, s_user_id s)) (db_sessions (au_db st')) = map (\<lambda>s. (s_token s, s_user_id s)) (db_sessions (au_db st))"
    using assms(2) refresh_keeps_keys by (auto simp: refresh_session_def split: if_splits prod.splits)
  have rows: "\<exists>s \<in> set (db_sessions (au_db st)). s_token s = s_token s' \<and> s_user_id s = s_user_id s'"
    if "s' \<in> set (db_sessions (au_db st'))" for s'
  proof -
    have "(s_token s', s_user_id s') \<in> set (map (\<lambda>s. (s_token s, s_user_id s)) (db_sessions (au_db st')))" using that by auto
    then show ?thesis unfolding keys by auto
  qed
  have au: "au_sessions st' = au_sessions st \<or> au_sessions st' = (au_sessions st)(t \<mapsto> (n, ae_now env + ttl))"
    using assms(2) by (auto simp: refresh_session_def split: if_splits prod.splits)
  have "s_token s' = token" if "s' \<in> set (db_sessions (au_db st'))" "user_of_id (s_user_id s') (au_db st') = Some u" "u_name u = name" for s' u
    using rows [OF that(1)] that(2,3) assms(1) unfolding only_session_def user_of_id_cong [OF db] by metis
  moreover have "t' = token" if "((au_sessions st')(t := None)) t' = Some (name, e)" for t' e
    using that au assms(1) unfolding only_session_def by (auto split: if_splits)
  ultimately show ?thesis unfolding only_session_def by (auto simp: user_of_id_def)
qed

lemma lookup_other:
  assumes only: "only_session name token st" and eq: "sq_eq (ae_sql env) = (=)" and t: "t \<noteq> token"
  shows "fst (lookup_session env True t st) \<noteq> Some name"
proof (cases "au_sessions st t")
  case None
  then show ?thesis using lookup_stored_other [OF assms] by (simp add: lookup_session_def)
next
  case (Some entry)
  then obtain n e where hit: "au_sessions st t = Some (n, e)" by (cases entry) auto
  then have n: "n \<noteq> name" using only t by (auto simp: only_session_def)
  have dropped: "only_session name token (st\<lparr>au_sessions := (au_sessions st)(t := None)\<rparr>)"
    using only by (auto simp: only_session_def)
  obtain b st1 where rf: "refresh_session env True t n kSessionTtlSeconds st = (b, st1)" by fastforce
  show ?thesis
    using hit n rf lookup_stored_other [OF dropped eq t] lookup_stored_other [OF refresh_keeps_only [OF only rf eq n] eq t]
    by (cases b) (auto simp: lookup_session_def)
qed

text \<open>A successful login.\<close>

lemma login_cases:
  assumes "login_user env True name pw st = (r, st')" "ar_success r" "sq_eq (ae_sql env) = (=)"
  shows "ar_token r \<noteq> [] \<and> name \<noteq> [] \<and> only_session name (ar_token r) st'
    \<and> au_sessions st' (ar_token r) = Some (name, ae_now env + kSessionTtlSeconds)"
proof -
  obtain st1 where "fst (check_user_password env True name pw st) = PwOk" and iss: "issue_session env True name st1 = (r, st')"
    using assms(1,2) by (auto simp: login_user_def set_error_def split: prod.splits password_check.splits)
  let ?t = "auth_make_session_token env"
  obtain st2 st3 where p: "persist_session env True ?t name kSessionTtlSeconds st1 = (True, st2)" and t: "?t \<noteq> []"
    and r: "remove_user_sessions env True name ?t st3 = (True, st')" and st3: "au_sessions st3 = au_sessions st2"
    and tok: "ar_token r = ?t"
    using iss assms(2) by (auto simp: issue_session_def set_error_def Let_def split: if_splits prod.splits bool.splits)
  have "au_sessions st2 ?t = Some (name, ae_now env + kSessionTtlSeconds)" "name \<noteq> []"
    using p by (auto simp: persist_session_def split: if_splits prod.splits bool.splits)
  then show ?thesis
    using remove_user_sessions_only [OF r assms(3) t] st3 tok t by simp
qed


text \<open>Bob logs in twice.\<close>

definition bob_registered :: auth_state where
  "bob_registered = snd (register_user demo_env True ''bob'' ''secret'' demo_state)"

definition first_login :: "auth_result \<times> auth_state" where
  "first_login = login_user demo_env True ''bob'' ''secret'' bob_registered"

definition later_env :: auth_env where
  "later_env = demo_env\<lparr>ae_now := 2000, ae_sql := demo_sql\<lparr>sq_now := 2000\<rparr>, ae_rand := (\<lambda>n. Some (replicate n (CHR ''s'')))\<rparr>"

definition second_login :: "auth_result \<times> auth_state" where
  "second_login = login_user later_env True ''bob'' ''secret'' (snd first_login)"


text \<open>
  After a logout that reports success the token is refused: it is gone from the cache and
  from the table, and looking it up finds nobody.
\<close>

lemma logout_ends_session:
  assumes "logout env True name token False st = (True, st')" and "sq_eq (ae_sql env') = sq_eq (ae_sql env)"
  shows "fst (lookup_session env' mysql token st') = None"
proof -
  obtain db where del: "delete_session (ae_sql env) True token (au_db st) = (True, db)" and t: "token \<noteq> []"
    and st': "st' = st\<lparr>au_sessions := (au_sessions st)(token := None), au_db := db\<rparr>"
    using assms(1) by (auto simp: logout_def remove_session_def Let_def split: if_splits prod.splits)
  have "db_sessions db = filter (\<lambda>s. \<not> sq_eq (ae_sql env) (s_token s) token) (db_sessions (au_db st))"
    using del by (auto simp: delete_session_def statement_def split: if_splits)
  then have "find (\<lambda>s. sq_eq (ae_sql env') (s_token s) token \<and> P s) (db_sessions db) = None" for P
    unfolding assms(2) by (auto simp: find_None_iff)
  then have "fst (find_active_session (ae_sql env') True token (au_db st')) = None"
    by (simp add: st' find_active_session_def statement_def)
  then show ?thesis
    by (auto simp: lookup_session_def lookup_stored_session_def st' split: prod.splits option.splits)
qed

lemma logout_ends_session_witness:
  "fst (logout later_env True ''bob'' (ar_token (fst second_login)) False (snd second_login)) = True
   \<and> fst (lookup_session later_env True (ar_token (fst second_login))
        (snd (logout later_env True ''bob'' (ar_token (fst second_login)) False (snd second_login)))) = None"
proof -
  let ?l = "logout later_env True ''bob'' (ar_token (fst second_login)) False (snd second_login)"
  have "fst ?l = True" by code_simp
  then have "?l = (True, snd ?l)" by (metis prod.collapse)
  from logout_ends_session [OF this refl] \<open>fst ?l = True\<close> show ?thesis by blast
qed

definition ci_sql :: "int \<Rightarrow> sql_env" where
  "ci_sql now = \<lparr>sq_error = (\<lambda>_. 0), sq_now = now, sq_eq = (\<lambda>a b. lowercase_copy a = lowercase_copy b)\<rparr>"


text \<open>
  A disabled account keeps its session: a token in the cache is answered without a look at
  the tables until a day before it ends, although the query for a stored session excludes disabled
  users.
\<close>

lemma disabled_user_keeps_session:
  "let st = (snd first_login)\<lparr>au_db := (au_db (snd first_login))\<lparr>db_users := map (\<lambda>u. u\<lparr>u_disabled := True\<rparr>) (db_users (au_db (snd first_login)))\<rparr>\<rparr>
   in fst (lookup_session later_env True (ar_token (fst first_login)) st) = Some ''bob''
      \<and> fst (find_active_session (ae_sql later_env) True (ar_token (fst first_login)) (au_db st)) = None"
  by code_simp

end
