(* ===== verification/Operation_Log.thy ===== *)
theory Operation_Log
  imports Drive_Access Auth_Service Request_Handling
begin

text \<open>
  The operation log (src/repo/mysql/operation_repository.cpp) and its controller
  (src/http/controllers/operation_controller.cpp). Here is also the state of the whole application
  behind the router: the tables, the caches of the authentication service, the rate limiter and the
  disk.
\<close>

subsection \<open>The application\<close>

record log_row =
  lg_id :: int
  lg_user :: "int option"
  lg_name :: string
  lg_action :: string
  lg_type :: string
  lg_resource :: int
  lg_detail :: string
  lg_created :: int

text \<open>
  \<open>si_limits\<close>: the questions that the rate limiter was asked, latest first, each with the prefix of
  its bucket and the key; \<open>si_lines\<close>: the lines written to the request log; \<open>si_users\<close> and \<open>si_sessions\<close> are \<open>g_auth_users\<close> and \<open>g_auth_sessions\<close>.
\<close>

record site =
  si_db :: drive_db
  si_logs :: "log_row list"
  si_next_log :: int
  si_users :: smap
  si_sessions :: "string \<rightharpoonup> string \<times> int"
  si_limits :: "(string \<times> string) list"
  si_lines :: "string list"
  si_disk :: disk

text \<open>Calls of the services as changes of the application.\<close>

definition on_db :: "(drive_db \<Rightarrow> 'a \<times> drive_db) \<Rightarrow> site \<Rightarrow> 'a \<times> site" where
  "on_db f s = (case f (si_db s) of (r, db) \<Rightarrow> (r, s\<lparr>si_db := db\<rparr>))"

definition on_disk :: "(drive_db \<Rightarrow> disk \<Rightarrow> 'a \<times> drive_db \<times> disk) \<Rightarrow> site \<Rightarrow> 'a \<times> site" where
  "on_disk f s = (case f (si_db s) (si_disk s) of (r, db, d) \<Rightarrow> (r, s\<lparr>si_db := db, si_disk := d\<rparr>))"

definition auth_of :: "site \<Rightarrow> auth_state" where
  "auth_of s = \<lparr>au_db = dv_auth (si_db s), au_users = si_users s, au_sessions = si_sessions s\<rparr>"

definition on_auth :: "(auth_state \<Rightarrow> 'a \<times> auth_state) \<Rightarrow> site \<Rightarrow> 'a \<times> site" where
  "on_auth f s = (case f (auth_of s) of
     (r, a) \<Rightarrow> (r, s\<lparr>si_db := (si_db s)\<lparr>dv_auth := au_db a\<rparr>, si_users := au_users a, si_sessions := au_sessions a\<rparr>))"

subsection \<open>The repository\<close>

text \<open>A statement on the log.\<close>

definition log_query :: "drive_env \<Rightarrow> 'a \<Rightarrow> (int \<Rightarrow> site \<Rightarrow> 'a \<times> site) \<Rightarrow> site \<Rightarrow> 'a \<times> site" where
  "log_query env failed work s =
     (case on_db (query env None (\<lambda>now db. (Some now, db))) s of
        (None, s1) \<Rightarrow> (failed, s1)
      | (Some now, s1) \<Rightarrow> work now s1)"

definition insert_operation_log :: "drive_env \<Rightarrow> bool \<Rightarrow> string \<Rightarrow> string \<Rightarrow> string \<Rightarrow> int \<Rightarrow> string \<Rightarrow> site \<Rightarrow> bool \<times> site" where
  "insert_operation_log env mysql username action resource_type resource_id detail s =
     (if \<not> mysql then (False, s)
      else log_query env False (\<lambda>now s.
        (True, s\<lparr>si_logs := si_logs s @ [\<lparr>lg_id = si_next_log s, lg_user = user_id_subquery env username (si_db s), lg_name = username,
                   lg_action = action, lg_type = resource_type, lg_resource = resource_id, lg_detail = detail, lg_created = now\<rparr>],
                 si_next_log := si_next_log s + 1\<rparr>)) s)"

text \<open>\<open>user_id = (SELECT ...)\<close>: no row when there is no such user.\<close>

definition own_log :: "drive_env \<Rightarrow> string \<Rightarrow> site \<Rightarrow> log_row \<Rightarrow> bool" where
  "own_log env username s r \<longleftrightarrow> lg_user r \<noteq> None \<and> lg_user r = user_id_subquery env username (si_db s)"

record operation_item =
  oi_id :: int
  oi_resource :: int
  oi_action :: string
  oi_type :: string
  oi_detail :: string
  oi_created_at :: string

definition operation_item_of :: "drive_env \<Rightarrow> log_row \<Rightarrow> operation_item" where
  "operation_item_of env r =
     \<lparr>oi_id = lg_id r, oi_resource = lg_resource r, oi_action = lg_action r, oi_type = lg_type r, oi_detail = lg_detail r,
      oi_created_at = dq_date env (lg_created r)\<rparr>"

definition fetch_recent_operations :: "drive_env \<Rightarrow> bool \<Rightarrow> string \<Rightarrow> site \<Rightarrow> operation_item list option \<times> site" where
  "fetch_recent_operations env mysql username s =
     (if \<not> mysql \<or> username = [] then (None, s)
      else log_query env None (\<lambda>_ s.
        (Some (map (operation_item_of env)
           (take 50 (order_by (\<lambda>a b. lg_id a > lg_id b) (filter (own_log env username s) (si_logs s))))), s)) s)"

text \<open>The result: whether a row was deleted, unless the statement failed.\<close>

definition delete_operation_log :: "drive_env \<Rightarrow> bool \<Rightarrow> string \<Rightarrow> int \<Rightarrow> site \<Rightarrow> bool option \<times> site" where
  "delete_operation_log env mysql username operation_id s =
     (if \<not> mysql \<or> username = [] then (None, s)
      else log_query env None (\<lambda>_ s.
        let hit = (\<lambda>r. lg_id r = operation_id \<and> own_log env username s r)
        in (Some (list_ex hit (si_logs s)), s\<lparr>si_logs := filter (\<lambda>r. \<not> hit r) (si_logs s)\<rparr>)) s)"

definition delete_user_operation_logs :: "drive_env \<Rightarrow> bool \<Rightarrow> string \<Rightarrow> site \<Rightarrow> int option \<times> site" where
  "delete_user_operation_logs env mysql username s =
     (if \<not> mysql \<or> username = [] then (None, s)
      else log_query env None (\<lambda>_ s.
        (Some (int (length (filter (own_log env username s) (si_logs s)))),
         s\<lparr>si_logs := filter (\<lambda>r. \<not> own_log env username s r) (si_logs s)\<rparr>)) s)"

subsection \<open>Answers of the controllers\<close>

text \<open>The code, with the request, the context and the response as the handler leaves them.\<close>

type_synonym reply = "http_code \<times> http_request \<times> request_context \<times> http_response"

definition respond_json_error :: "int \<Rightarrow> string \<Rightarrow> string \<Rightarrow> http_response \<Rightarrow> http_code \<times> http_response" where
  "respond_json_error status title message rs = (MEMORY_REQUEST, set_json_error status title message rs)"

definition json_ok :: "string \<Rightarrow> http_response \<Rightarrow> http_code \<times> http_response" where
  "json_ok body rs = (MEMORY_REQUEST, set_body 200 ''OK'' body ''application/json'' rs)"

definition message_json :: "int \<Rightarrow> string \<Rightarrow> string \<Rightarrow> string" where
  "message_json code message rest =
     ''{'' @ number_field ''code'' code @ '','' @ quoted ''message'' @ '':'' @ quoted message @ rest @ ''}''"

text \<open>The number that starts a path, when \<open>suffix\<close> is all that follows it.\<close>

definition path_id :: "string \<Rightarrow> string \<Rightarrow> int option" where
  "path_id suffix path =
     (let p = c_str path; (n, rest) = strtol10 p in if rest = p \<or> rest \<noteq> suffix then None else Some n)"

subsection \<open>The controller\<close>

definition operation_json :: "operation_item \<Rightarrow> string" where
  "operation_json x =
     ''{'' @ number_field ''id'' (oi_id x) @ '','' @ text_field ''action'' (oi_action x) @ '',''
       @ text_field ''resource_type'' (oi_type x) @ '','' @ number_field ''resource_id'' (oi_resource x) @ '',''
       @ text_field ''detail'' (oi_detail x) @ '','' @ text_field ''created_at'' (oi_created_at x) @ ''}''"

definition build_operation_list_json :: "operation_item list \<Rightarrow> string" where
  "build_operation_list_json xs =
     ''{'' @ number_field ''code'' 0 @ '','' @ quoted ''operations'' @ '':['' @ comma_list (map operation_json xs) @ '']}''"

definition operation_list :: "drive_env \<Rightarrow> bool \<Rightarrow> request_context \<Rightarrow> http_response \<Rightarrow> site \<Rightarrow> (http_code \<times> http_response) \<times> site" where
  "operation_list env mysql ctx rs s =
     (if current_user ctx = [] then (respond_json_error 403 ''Forbidden'' ''operation list requires user session'' rs, s)
      else (case fetch_recent_operations env mysql (current_user ctx) s of
              (None, s1) \<Rightarrow> ((INTERNAL_ERROR, rs), s1)
            | (Some xs, s1) \<Rightarrow> (json_ok (build_operation_list_json xs) rs, s1)))"

definition operation_remove :: "drive_env \<Rightarrow> bool \<Rightarrow> request_context \<Rightarrow> http_response \<Rightarrow> string \<Rightarrow> site \<Rightarrow> (http_code \<times> http_response) \<times> site" where
  "operation_remove env mysql ctx rs path s =
     (if current_user ctx = [] then (respond_json_error 403 ''Forbidden'' ''operation delete requires user session'' rs, s)
      else (case path_id [] path of
              None \<Rightarrow> ((BAD_REQUEST, rs), s)
            | Some operation_id \<Rightarrow>
                (case delete_operation_log env mysql (current_user ctx) operation_id s of
                   (None, s1) \<Rightarrow> ((INTERNAL_ERROR, rs), s1)
                 | (Some False, s1) \<Rightarrow> (respond_json_error 404 ''Not Found'' ''operation log not found'' rs, s1)
                 | (Some True, s1) \<Rightarrow> (json_ok (message_json 0 ''delete success'' []) rs, s1))))"

definition operation_clear :: "drive_env \<Rightarrow> bool \<Rightarrow> request_context \<Rightarrow> http_response \<Rightarrow> site \<Rightarrow> (http_code \<times> http_response) \<times> site" where
  "operation_clear env mysql ctx rs s =
     (if current_user ctx = [] then (respond_json_error 403 ''Forbidden'' ''operation clear requires user session'' rs, s)
      else (case delete_user_operation_logs env mysql (current_user ctx) s of
              (None, s1) \<Rightarrow> ((INTERNAL_ERROR, rs), s1)
            | (Some n, s1) \<Rightarrow> (json_ok (message_json 0 ''delete success'' ('','' @ number_field ''deleted_count'' n)) rs, s1)))"

end
