(* ===== verification/Auth_Controller.thy ===== *)
theory Auth_Controller
  imports Operation_Log Rate_Limiter
begin

text \<open>
  Login, registration, logout and ping (src/http/controllers/auth_controller.cpp). Messages in
  Chinese are the UTF-8 bytes of the source.
\<close>

subsection \<open>What the application runs on\<close>

text \<open>
  The server, the disk, the digest, OpenSSL and the rate limiter. \<open>se_rand\<close> is \<open>RAND_bytes\<close> for the
  names of stored files, \<open>se_share_rand\<close> for the attempts at a share token; \<open>se_failpoint\<close>: the test
  failpoint of uploads is set; \<open>se_close_log\<close>: the log is switched off.
\<close>

record site_env =
  se_sql :: drive_env
  se_disk :: disk_env
  se_auth :: auth_env
  se_sha :: "string \<Rightarrow> string"
  se_base64 :: "string \<Rightarrow> string option"
  se_rand :: "nat \<Rightarrow> string option"
  se_share_rand :: "string option list"
  se_failpoint :: bool
  se_limiter :: "limiter option"
  se_buckets :: bucket_answer
  se_close_log :: bool

definition write_operation_log :: "site_env \<Rightarrow> bool \<Rightarrow> string \<Rightarrow> string \<Rightarrow> string \<Rightarrow> int \<Rightarrow> string \<Rightarrow> site \<Rightarrow> site" where
  "write_operation_log env mysql username action resource_type resource_id detail s =
     snd (insert_operation_log (se_sql env) mysql username action resource_type resource_id detail s)"

subsection \<open>Messages\<close>

definition utf8 :: "nat list \<Rightarrow> string" where
  "utf8 bytes = map char_of bytes"

fun auth_message_text :: "auth_message \<Rightarrow> string" where
  "auth_message_text NoMessage = []"
| "auth_message_text RegisterSuccess = ''register success''"
| "auth_message_text LoginSuccess = ''login success''"
| "auth_message_text RegisterNoDatabase = utf8 [230, 179, 168, 229, 134, 140, 229, 164, 177, 232, 180, 165, 239, 188, 140, 230,
     149, 176, 230, 141, 174, 229, 186, 147, 232, 191, 158, 230, 142, 165, 228, 184, 141, 229, 143, 175, 231, 148, 168, 227, 128,
     130]"
| "auth_message_text NameTaken = utf8 [232, 175, 165, 231, 148, 168, 230, 136, 183, 229, 144, 141, 229, 183, 178, 232, 162, 171,
     230, 179, 168, 229, 134, 140, 239, 188, 140, 232, 175, 183, 230, 155, 180, 230, 141, 162, 231, 148, 168, 230, 136, 183, 229,
     144, 141, 227, 128, 130]"
| "auth_message_text RegisterNoCredential = utf8 [230, 179, 168, 229, 134, 140, 229, 164, 177, 232, 180, 165, 239, 188, 140,
     230, 151, 160, 230, 179, 149, 231, 148, 159, 230, 136, 144, 229, 175, 134, 231, 160, 129, 229, 135, 173, 230, 141, 174, 227,
     128, 130]"
| "auth_message_text RegisterNotSaved = utf8 [230, 179, 168, 229, 134, 140, 229, 164, 177, 232, 180, 165, 239, 188, 140, 230,
     156, 141, 229, 138, 161, 230, 154, 130, 230, 151, 182, 230, 151, 160, 230, 179, 149, 228, 191, 157, 229, 173, 152, 232, 180,
     166, 229, 143, 183, 228, 191, 161, 230, 129, 175, 227, 128, 130]"
| "auth_message_text UserUnknown = utf8 [232, 180, 166, 229, 143, 183, 228, 184, 141, 229, 173, 152, 229, 156, 168, 239, 188,
     140, 232, 175, 183, 229, 133, 136, 230, 179, 168, 229, 134, 140, 227, 128, 130]"
| "auth_message_text WrongPassword = utf8 [229, 175, 134, 231, 160, 129, 233, 148, 153, 232, 175, 175, 239, 188, 140, 232, 175,
     183, 233, 135, 141, 230, 150, 176, 232, 190, 147, 229, 133, 165, 227, 128, 130]"
| "auth_message_text BadCredentialRecord = utf8 [231, 153, 187, 229, 189, 149, 229, 164, 177, 232, 180, 165, 239, 188, 140, 232,
     180, 166, 229, 143, 183, 229, 175, 134, 231, 160, 129, 229, 135, 173, 230, 141, 174, 229, 188, 130, 229, 184, 184, 239, 188,
     140, 232, 175, 183, 232, 129, 148, 231, 179, 187, 231, 174, 161, 231, 144, 134, 229, 145, 152, 227, 128, 130]"
| "auth_message_text LoginNotReadable = utf8 [231, 153, 187, 229, 189, 149, 229, 164, 177, 232, 180, 165, 239, 188, 140, 230,
     156, 141, 229, 138, 161, 230, 154, 130, 230, 151, 182, 230, 151, 160, 230, 179, 149, 232, 175, 187, 229, 143, 150, 232, 180,
     166, 229, 143, 183, 228, 191, 161, 230, 129, 175, 227, 128, 130]"
| "auth_message_text NoSessionIssued = utf8 [231, 153, 187, 229, 189, 149, 229, 164, 177, 232, 180, 165, 239, 188, 140, 230,
     156, 141, 229, 138, 161, 230, 154, 130, 230, 151, 182, 230, 151, 160, 230, 179, 149, 231, 173, 190, 229, 143, 145, 228, 188,
     154, 232, 175, 157, 227, 128, 130]"
| "auth_message_text SessionNotSaved = utf8 [231, 153, 187, 229, 189, 149, 229, 164, 177, 232, 180, 165, 239, 188, 140, 230,
     156, 141, 229, 138, 161, 230, 154, 130, 230, 151, 182, 230, 151, 160, 230, 179, 149, 228, 191, 157, 229, 173, 152, 228, 188,
     154, 232, 175, 157, 227, 128, 130]"
| "auth_message_text OldSessionsKept = utf8 [231, 153, 187, 229, 189, 149, 229, 164, 177, 232, 180, 165, 239, 188, 140, 230,
     156, 141, 229, 138, 161, 230, 154, 130, 230, 151, 182, 230, 151, 160, 230, 179, 149, 230, 184, 133, 231, 144, 134, 230, 151,
     167, 228, 188, 154, 232, 175, 157, 227, 128, 130]"

definition credentials_missing :: string where
  "credentials_missing = utf8 [232, 175, 183, 232, 190, 147, 229, 133, 165, 231, 148, 168, 230, 136, 183, 229, 144, 141, 229, 146, 140, 229, 175, 134,
     231, 160, 129, 227, 128, 130]"

definition too_many_requests :: string where
  "too_many_requests = utf8 [232, 175, 183, 230, 177, 130, 232, 191, 135, 228, 186, 142, 233, 162, 145, 231, 185, 129, 239, 188, 140, 232, 175, 183,
     231, 168, 141, 229, 144, 142, 229, 134, 141, 232, 175, 149, 227, 128, 130]"

fun auth_status :: "auth_error \<Rightarrow> int" where
  "auth_status AuthNone = 200"
| "auth_status AuthUnauthorized = 401"
| "auth_status AuthNotFound = 404"
| "auth_status AuthConflict = 409"
| "auth_status AuthInternal = 500"

fun auth_title :: "auth_error \<Rightarrow> string" where
  "auth_title AuthNone = ''OK''"
| "auth_title AuthUnauthorized = ''Unauthorized''"
| "auth_title AuthNotFound = ''Not Found''"
| "auth_title AuthConflict = ''Conflict''"
| "auth_title AuthInternal = ''Internal Error''"

subsection \<open>The client\<close>

definition first_forwarded_ip :: "string \<Rightarrow> string" where
  "first_forwarded_ip value =
     trim_copy (case find_char (CHR '','') value of None \<Rightarrow> value | Some comma \<Rightarrow> take comma value)"

definition request_client_ip :: "http_request \<Rightarrow> request_context \<Rightarrow> string" where
  "request_client_ip rq ctx =
     (let real_ip = trim_copy (header_value rq ''x-real-ip'');
          forwarded_for = first_forwarded_ip (header_value rq ''x-forwarded-for'')
      in if real_ip \<noteq> [] then real_ip
         else if forwarded_for \<noteq> [] then forwarded_for
         else if client_ip ctx = [] then ''unknown'' else client_ip ctx)"

text \<open>The sum of two \<open>int\<close> values wraps here; a result below 1 is replaced by 1 in any case.\<close>

definition retry_after_seconds :: "int \<Rightarrow> int" where
  "retry_after_seconds ms = (let n = (if ms > 0 then narrow_int (ms + 999) div 1000 else 1) in if n \<le> 0 then 1 else n)"

definition write_rate_limited_response :: "decision \<Rightarrow> http_response \<Rightarrow> http_code \<times> http_response" where
  "write_rate_limited_response d rs =
     (let rs1 = set_body 429 ''Too Many Requests'' (message_json 429 too_many_requests []) ''application/json'' rs in
      (MEMORY_REQUEST,
       rs1\<lparr>rs_headers := smap_set ''X-RateLimit-Scope'' (dc_scope d) (smap_set ''X-RateLimit-Backend'' (dc_backend d)
             (smap_set ''Retry-After'' (int_to_string (retry_after_seconds (dc_retry_after_ms d))) (rs_headers rs1)))\<rparr>))"

definition rate_check :: "site_env \<Rightarrow> rate_action \<Rightarrow> string \<Rightarrow> string \<Rightarrow> site \<Rightarrow> decision \<times> site" where
  "rate_check env action name ip s =
     (case check_auth_rate_limit (se_buckets env) (se_limiter env) action name ip (si_limits s) of
        (d, asked) \<Rightarrow> (d, s\<lparr>si_limits := asked\<rparr>))"

definition error_body :: "int \<Rightarrow> string \<Rightarrow> string" where
  "error_body status message = ''{'' @ number_field ''code'' status @ '','' @ text_field ''message'' message @ ''}''"

definition missing_reply :: "bool \<Rightarrow> http_response \<Rightarrow> http_code \<times> http_response" where
  "missing_reply api_mode rs =
     (if api_mode then (MEMORY_REQUEST, set_body 400 ''Bad Request'' (message_json 400 credentials_missing []) ''application/json'' rs)
      else (BAD_REQUEST, rs))"

subsection \<open>The handlers\<close>

definition login_body :: "auth_result \<Rightarrow> string" where
  "login_body r =
     ''{'' @ number_field ''code'' 0 @ '','' @ quoted ''message'' @ '':'' @ quoted ''login success'' @ '','' @ quoted ''target'' @ '':''
       @ quoted ''/welcome'' @ '','' @ text_field ''token'' (ar_token r) @ '','' @ number_field ''expires_in'' (ar_expires_in r) @ ''}''"

text \<open>The answer, the user of the context and the new state. \<open>user\<close> is the user before.\<close>

definition auth_login :: "site_env \<Rightarrow> bool \<Rightarrow> http_request \<Rightarrow> request_context \<Rightarrow> http_response \<Rightarrow> bool \<Rightarrow> site
    \<Rightarrow> (http_code \<times> http_response) \<times> request_context \<times> site" where
  "auth_login env mysql rq ctx rs api_mode s =
     (let name = request_value rq ''username'' ''user''; password = request_value rq ''passwd'' ''password'' in
      if name = [] \<or> password = [] then (missing_reply api_mode rs, ctx, s)
      else (case rate_check env Login name (request_client_ip rq ctx) s of (d, s1) \<Rightarrow>
        if \<not> dc_allowed d
        then (write_rate_limited_response d rs, ctx, write_operation_log env mysql name ''login_rate_limited'' ''user'' 0 (dc_scope d) s1)
        else (case on_auth (login_user (se_auth env) mysql name password) s1 of (r, s2) \<Rightarrow>
          if \<not> api_mode then ((if ar_success r then NO_RESOURCE else BAD_REQUEST, rs), ctx, s2)
          else if ar_success r
          then (json_ok (login_body r) rs, ctx\<lparr>current_user := name\<rparr>,
                write_operation_log env mysql name ''login'' ''user'' 0 ''login success'' s2)
          else ((MEMORY_REQUEST,
                 set_body (auth_status (ar_error r)) (auth_title (ar_error r))
                   (error_body (auth_status (ar_error r)) (auth_message_text (ar_message r))) ''application/json'' rs), ctx,
                write_operation_log env mysql name ''login_failed'' ''user'' 0 (auth_message_text (ar_message r)) s2))))"

definition auth_register :: "site_env \<Rightarrow> bool \<Rightarrow> http_request \<Rightarrow> request_context \<Rightarrow> http_response \<Rightarrow> bool \<Rightarrow> site
    \<Rightarrow> (http_code \<times> http_response) \<times> site" where
  "auth_register env mysql rq ctx rs api_mode s =
     (let name = request_value rq ''username'' ''user''; password = request_value rq ''passwd'' ''password'' in
      if name = [] \<or> password = [] then (missing_reply api_mode rs, s)
      else (case rate_check env Register name (request_client_ip rq ctx) s of (d, s1) \<Rightarrow>
        if \<not> dc_allowed d
        then (write_rate_limited_response d rs, write_operation_log env mysql name ''register_rate_limited'' ''user'' 0 (dc_scope d) s1)
        else (case on_auth (register_user (se_auth env) mysql name password) s1 of (r, s2) \<Rightarrow>
          let s3 = (if ar_success r then write_operation_log env mysql name ''register'' ''user'' 0 ''register success'' s2 else s2);
              status = (if ar_success r then 200 else auth_status (ar_error r))
          in if \<not> api_mode then ((if ar_success r then NO_RESOURCE else BAD_REQUEST, rs), s3)
             else ((MEMORY_REQUEST,
                    set_body status (if ar_success r then ''OK'' else auth_title (ar_error r))
                      (if ar_success r then message_json 0 ''register success'' [] else error_body status (auth_message_text (ar_message r)))
                      ''application/json'' rs), s3))))"

definition auth_logout :: "site_env \<Rightarrow> bool \<Rightarrow> http_request \<Rightarrow> request_context \<Rightarrow> http_response \<Rightarrow> site
    \<Rightarrow> (http_code \<times> http_response) \<times> site" where
  "auth_logout env mysql rq ctx rs s =
     (let token = bearer_token rq;
          logout_all = (request_value rq ''scope'' [] = ''all'' \<or> is_truthy_value (request_value rq ''all_sessions'' []))
      in if token = []
         then ((MEMORY_REQUEST, set_body 400 ''Bad Request'' (message_json 400 ''missing bearer token'' []) ''application/json'' rs), s)
         else (case on_auth (logout (se_auth env) mysql (current_user ctx) token logout_all) s of
           (False, s1) \<Rightarrow> (respond_json_error 500 ''Internal Error'' ''failed to invalidate session'' rs, s1)
         | (True, s1) \<Rightarrow>
             (json_ok (message_json 0 ''logout success'' ('','' @ quoted ''scope'' @ '':'' @ quoted (if logout_all then ''all'' else ''current''))) rs,
              if current_user ctx = [] then s1
              else write_operation_log env mysql (current_user ctx) (if logout_all then ''logout_all'' else ''logout'') ''user'' 0
                     (if logout_all then ''all sessions revoked'' else ''logout success'') s1)))"

definition auth_ping :: "request_context \<Rightarrow> http_response \<Rightarrow> http_code \<times> http_response" where
  "auth_ping ctx rs =
     json_ok (''{'' @ number_field ''code'' 0 @ '','' @ quoted ''message'' @ '':'' @ quoted ''pong'' @ '','' @ text_field ''user'' (current_user ctx) @ ''}'') rs"

subsection \<open>Refused logins\<close>

lemma auth_of_log [simp]: "auth_of (write_operation_log env mysql u a t i d s) = auth_of s"
  by (simp add: write_operation_log_def insert_operation_log_def log_query_def on_db_def query_def auth_of_def Let_def split: option.splits)

lemma auth_of_rate: "rate_check env action name ip s = (d, s1) \<Longrightarrow> auth_of s1 = auth_of s"
  by (auto simp: rate_check_def auth_of_def split: prod.splits)

lemma retry_after_positive: "1 \<le> retry_after_seconds ms"
  by (simp add: retry_after_seconds_def Let_def)

text \<open>
  Property C23. A login that the rate limiter refuses gets no further: the answer is 429 with the number
  of seconds to wait, at least one, no password is looked at, no session is opened or renewed, and
  the context has no new user.
\<close>

theorem refused_login_stops:
  assumes "rate_check env Login (request_value rq ''username'' ''user'') (request_client_ip rq ctx) s = (d, s1)" and "\<not> dc_allowed d"
    and "request_value rq ''username'' ''user'' \<noteq> []" and "request_value rq ''passwd'' ''password'' \<noteq> []" and "smap_ok (rs_headers rs)"
    and "auth_login env mysql rq ctx rs api_mode s = ((code, rs'), ctx', s')"
  shows "code = MEMORY_REQUEST \<and> rs_status rs' = 429
    \<and> (\<exists>n \<ge> 1. map_of (rs_headers rs') ''Retry-After'' = Some (int_to_string n)) \<and> ctx' = ctx \<and> auth_of s' = auth_of s"
proof -
  have r: "((code, rs'), ctx', s') = (write_rate_limited_response d rs, ctx,
      write_operation_log env mysql (request_value rq ''username'' ''user'') ''login_rate_limited'' ''user'' 0 (dc_scope d) s1)"
    using assms by (simp add: auth_login_def Let_def)
  then have "map_of (rs_headers rs') ''Retry-After'' = Some (int_to_string (retry_after_seconds (dc_retry_after_ms d)))"
    using assms(5) by (simp add: write_rate_limited_response_def set_body_def Let_def)
  then show ?thesis
    using r retry_after_positive auth_of_rate[OF assms(1)] by (auto simp: write_rate_limited_response_def set_body_def Let_def)
qed

text \<open>A server for examples, and one whose limiter refuses everything.\<close>

definition demo_site_env :: site_env where
  "demo_site_env = \<lparr>se_sql = calm_env, se_disk = calm_disk, se_auth = demo_env, se_sha = (\<lambda>c. CHR ''d'' # c), se_base64 = (\<lambda>_. None),
     se_rand = (\<lambda>_. Some ''ab''), se_share_rand = [Some ''t''], se_failpoint = False, se_limiter = None,
     se_buckets = (\<lambda>_ _ _. \<lparr>rr_allowed = True, rr_retry_after_ms = 0, rr_status = Healthy\<rparr>), se_close_log = False\<rparr>"

definition demo_context :: request_context where
  "demo_context = \<lparr>current_user = [], ctx_doc_root = ''/r'', upload_max_bytes = 1000, user_storage_quota_bytes = 10000,
     client_ip = ''10.0.0.1'', user_agent = [], legacy_compat_enabled = True, released_temp_upload_paths = []\<rparr>"

definition demo_token :: string where
  "demo_token = encode_hex (replicate 32 (CHR ''r''))"

definition demo_request :: "http_method \<Rightarrow> string \<Rightarrow> smap \<Rightarrow> string \<Rightarrow> http_request" where
  "demo_request m path form token = empty_request\<lparr>rq_method := m, rq_path := path, rq_form := form,
     rq_headers := (if token = [] then [] else [(''authorization'', ''Bearer '' @ token)])\<rparr>"

definition strict_env :: site_env where
  "strict_env = demo_site_env\<lparr>se_limiter := configure_auth_rate_limiter True (default_settings\<lparr>rl_enabled := True\<rparr>),
     se_buckets := (\<lambda>_ _ _. \<lparr>rr_allowed = False, rr_retry_after_ms = 1500, rr_status = Healthy\<rparr>)\<rparr>"

definition quiet_site :: site where
  "quiet_site = \<lparr>si_db = fresh_drive (au_db demo_state), si_logs = [], si_next_log = 1, si_users = [], si_sessions = (\<lambda>_. None), si_limits = [],
     si_lines = [], si_disk = blank_disk\<rparr>"

theorem refused_login_stops_witness:
  "\<exists>n \<ge> 1. map_of (rs_headers (snd (fst (auth_login strict_env True (demo_request POST ''/api/login'' [(''passwd'', ''x''), (''username'', ''bob'')] [])
      demo_context empty_response True quiet_site)))) ''Retry-After'' = Some (int_to_string n)"
proof -
  let ?rq = "demo_request POST ''/api/login'' [(''passwd'', ''x''), (''username'', ''bob'')] []"
  let ?c = "rate_check strict_env Login (request_value ?rq ''username'' ''user'') (request_client_ip ?rq demo_context) quiet_site"
  let ?l = "auth_login strict_env True ?rq demo_context empty_response True quiet_site"
  have "\<not> dc_allowed (fst ?c)" "request_value ?rq ''username'' ''user'' \<noteq> []" "request_value ?rq ''passwd'' ''password'' \<noteq> []"
    "smap_ok (rs_headers empty_response)" by code_simp+
  then show ?thesis
    using refused_login_stops[of strict_env ?rq demo_context quiet_site "fst ?c" "snd ?c" empty_response True True
        "fst (fst ?l)" "snd (fst ?l)" "fst (snd ?l)" "snd (snd ?l)"] by simp
qed

text \<open>
  The limit for a user name is evaded by spelling: the account is found without regard to case, the
  bucket is not.
\<close>

lemma spelling_evades_limit:
  "let l = new_limiter True (default_settings\<lparr>rl_enabled := True\<rparr>);
       ask = (\<lambda>_ _ _. \<lparr>rr_allowed = True, rr_retry_after_ms = 0, rr_status = Healthy\<rparr>);
       env = later_env\<lparr>ae_sql := ci_sql 2000\<rparr>
   in hd (snd (limiter_check ask l Login ''bob'' ''10.0.0.1'' [])) \<noteq> hd (snd (limiter_check ask l Login ''BOB'' ''10.0.0.1'' []))
      \<and> ar_success (fst (login_user env True ''bob'' ''secret'' (snd first_login)))
      \<and> ar_success (fst (login_user env True ''BOB'' ''secret'' (snd first_login)))"
  by code_simp

end
