(* ===== verification/File_Controller.thy ===== *)
theory File_Controller
  imports Auth_Controller
begin

text \<open>
  The handlers for files, folders, the recycle bin and share links
  (src/http/controllers/file_controller.cpp). A handler has the answer and the new state of the
  application as its result; an upload also changes the request and the context, which it tells that
  it took the temporary file.
\<close>

subsection \<open>Helpers\<close>

definition kDefaultListLimit :: int where "kDefaultListLimit = 20"
definition kMaxListLimit :: int where "kMaxListLimit = 100"

text \<open>The guard in front of a handler.\<close>

definition require_user_session :: "request_context \<Rightarrow> string \<Rightarrow> (http_response \<Rightarrow> site \<Rightarrow> (http_code \<times> http_response) \<times> site)
    \<Rightarrow> http_response \<Rightarrow> site \<Rightarrow> (http_code \<times> http_response) \<times> site" where
  "require_user_session ctx message handler rs s =
     (if current_user ctx \<noteq> [] then handler rs s else (respond_json_error 403 ''Forbidden'' message rs, s))"

fun service_status :: "error_code \<Rightarrow> int" where
  "service_status ErrNone = 200"
| "service_status ErrInvalidArgument = 400"
| "service_status ErrForbidden = 403"
| "service_status ErrNotFound = 404"
| "service_status ErrConflict = 409"
| "service_status ErrGone = 410"
| "service_status ErrTooManyRequests = 429"
| "service_status ErrPayloadTooLarge = 413"
| "service_status ErrInternal = 500"

fun service_title :: "error_code \<Rightarrow> string" where
  "service_title ErrNone = ''OK''"
| "service_title ErrInvalidArgument = ''Bad Request''"
| "service_title ErrForbidden = ''Forbidden''"
| "service_title ErrNotFound = ''Not Found''"
| "service_title ErrConflict = ''Conflict''"
| "service_title ErrGone = ''Gone''"
| "service_title ErrTooManyRequests = ''Too Many Requests''"
| "service_title ErrPayloadTooLarge = ''Payload Too Large''"
| "service_title ErrInternal = ''Internal Error''"

definition respond_service_error :: "service_error \<Rightarrow> http_response \<Rightarrow> http_code \<times> http_response" where
  "respond_service_error e rs =
     (if se_message e = [] then (INTERNAL_ERROR, rs)
      else respond_json_error (service_status (se_code e)) (service_title (se_code e)) (se_message e) rs)"

definition parse_non_negative_long :: "string \<Rightarrow> int option" where
  "parse_non_negative_long value =
     (let trimmed = trim_spaces value in
      if trimmed = [] then None
      else let p = c_str trimmed; (n, rest) = strtol10 p in
           if rest \<noteq> p \<and> rest = [] \<and> n \<ge> 0 then Some n else None)"

definition token_char :: "byte \<Rightarrow> bool" where
  "token_char c \<longleftrightarrow> isalnum c \<or> c = CHR ''-'' \<or> c = CHR ''_''"

definition is_valid_share_token :: "string \<Rightarrow> bool" where
  "is_valid_share_token token \<longleftrightarrow> token \<noteq> [] \<and> length token \<le> 64 \<and> list_all token_char token"

definition parse_share_path :: "string \<Rightarrow> bool \<Rightarrow> string option" where
  "parse_share_path path download =
     (let suffix = c_str path; n = length suffix - length ''/download'';
          token = (if download
                   then (if length suffix \<le> length ''/download'' \<or> drop n suffix \<noteq> ''/download'' then None else Some (take n suffix))
                   else (if CHR ''/'' \<in> set suffix then None else Some suffix))
      in case token of None \<Rightarrow> None | Some t \<Rightarrow> if is_valid_share_token t then Some t else None)"

definition request_access_code :: "http_request \<Rightarrow> string" where
  "request_access_code rq =
     (let c = request_value rq ''access_code'' ''code''; c1 = (if c = [] then query_value rq ''access_code'' else c)
      in if c1 = [] then query_value rq ''code'' else c1)"

text \<open>\<open>size_t\<close> to \<open>long\<close>.\<close>

definition to_long :: "nat \<Rightarrow> int" where
  "to_long n = (int n + 2 ^ 63) mod 2 ^ 64 - 2 ^ 63"

definition controller_quota :: "request_context \<Rightarrow> upload_quota" where
  "controller_quota ctx = \<lparr>uq_max_single = to_long (upload_max_bytes ctx), uq_max_total = to_long (user_storage_quota_bytes ctx)\<rparr>"

definition bad_request :: "string \<Rightarrow> int \<times> string \<times> string" where
  "bad_request message = (400, ''Bad Request'', message)"

definition empty_payload :: upload_payload where
  "empty_payload = \<lparr>pl_filename = [], pl_content = [], pl_type = [], pl_temp_path = [], pl_sha = [], pl_folder = 0, pl_size = 0,
     pl_use_temp = False\<rparr>"

text \<open>The folder of an upload; here the text is not trimmed, \<open>strtol\<close> skips leading space.\<close>

definition payload_folder :: "http_request \<Rightarrow> int option" where
  "payload_folder rq =
     (let value = c_str (request_value rq ''folder_id'' []); (n, rest) = strtol10 value in
      if request_value rq ''folder_id'' [] = [] then Some 0
      else if rest = value \<or> rest \<noteq> [] \<or> n < 0 then None else Some n)"

definition or_default :: "string \<Rightarrow> string \<Rightarrow> string" where
  "or_default v d = (if v = [] then d else v)"

text \<open>The payload of an uploaded file, and of content in the request itself.\<close>

definition file_payload :: "uploaded_file \<Rightarrow> upload_payload \<Rightarrow> upload_payload" where
  "file_payload u p =
     p\<lparr>pl_filename := or_default (or_default (pl_filename p) (sanitize_filename (uploaded_file.up_filename u))) ''file.bin'',
       pl_type := or_default (pl_type p) (or_default (up_content_type u) ''application/octet-stream''),
       pl_temp_path := temp_path u, pl_sha := up_sha256 u, pl_size := uploaded_file.up_size u, pl_use_temp := True\<rparr>"

definition inline_content :: "site_env \<Rightarrow> http_request \<Rightarrow> string option" where
  "inline_content env rq =
     (let content = request_value rq ''content'' ''file''; base64 = request_value rq ''content_base64'' ''file_base64'' in
      if content \<noteq> [] then Some content else if base64 = [] then Some [] else decode_base64 (se_base64 env) base64)"

definition inline_payload :: "site_env \<Rightarrow> http_request \<Rightarrow> request_context \<Rightarrow> upload_payload \<Rightarrow> (int \<times> string \<times> string) + upload_payload" where
  "inline_payload env rq ctx p =
     (case inline_content env rq of
        None \<Rightarrow> Inl (bad_request ''invalid base64 content'')
      | Some content \<Rightarrow>
          if content = [] then Inl (bad_request ''content is empty'')
          else if length content > upload_max_bytes ctx
          then Inl (413, ''Payload Too Large'', ''upload exceeds limit of '' @ nat_to_string (upload_max_bytes ctx) @ '' bytes'')
          else Inr (p\<lparr>pl_content := content, pl_filename := or_default (pl_filename p) ''file.txt'',
                      pl_type := or_default (pl_type p) ''text/plain'', pl_size := int (length content)\<rparr>))"

definition parse_managed_upload_payload :: "site_env \<Rightarrow> http_request \<Rightarrow> request_context \<Rightarrow> (int \<times> string \<times> string) + upload_payload" where
  "parse_managed_upload_payload env rq ctx =
     (case payload_folder rq of
        None \<Rightarrow> Inl (bad_request ''invalid folder_id'')
      | Some folder_id \<Rightarrow>
          let p = empty_payload\<lparr>pl_filename := sanitize_filename (request_value rq ''filename'' ''name''),
                    pl_type := request_value rq ''content_type'' ''file_content_type'', pl_folder := folder_id\<rparr>
          in if has_file (rq_upload rq) then Inr (file_payload (rq_upload rq) p)
             else if \<not> legacy_compat_enabled ctx then Inl (bad_request ''multipart/form-data file upload required'')
             else inline_payload env rq ctx p)"

subsection \<open>Uploads\<close>

definition preflight_quota :: "site_env \<Rightarrow> bool \<Rightarrow> request_context \<Rightarrow> int \<Rightarrow> http_response \<Rightarrow> site \<Rightarrow> (http_code \<times> http_response) \<times> site" where
  "preflight_quota env mysql ctx requested_bytes rs s =
     (case on_db (inspect_upload_quota (se_sql env) mysql (current_user ctx) requested_bytes (controller_quota ctx)) s of
        (Inl e, s1) \<Rightarrow> (respond_service_error e rs, s1)
      | (Inr (status, _), s1) \<Rightarrow> (json_ok (build_upload_preflight_json status) rs, s1))"

definition preflight_size :: "http_request \<Rightarrow> string" where
  "preflight_size rq =
     (let v = request_value rq ''size'' ''file_size''; v1 = (if v = [] then request_value rq ''bytes'' [] else v)
      in if v1 = [] then query_value rq ''size'' else v1)"

definition upload_preflight :: "site_env \<Rightarrow> bool \<Rightarrow> http_request \<Rightarrow> request_context \<Rightarrow> http_response \<Rightarrow> site
    \<Rightarrow> (http_code \<times> http_response) \<times> site" where
  "upload_preflight env mysql rq ctx = require_user_session ctx ''file upload requires user session'' (\<lambda>rs s.
     case parse_non_negative_long (preflight_size rq) of
       None \<Rightarrow> (respond_json_error 400 ''Bad Request'' ''invalid file size'' rs, s)
     | Some requested_bytes \<Rightarrow>
         let folder_value = or_default (request_value rq ''folder_id'' []) (query_value rq ''folder_id'') in
         if folder_value = [] then preflight_quota env mysql ctx requested_bytes rs s
         else (case parse_non_negative_long folder_value of
           None \<Rightarrow> (respond_json_error 400 ''Bad Request'' ''invalid folder_id'' rs, s)
         | Some folder_id \<Rightarrow>
             (case on_db (folder_exists (se_sql env) mysql (current_user ctx) folder_id) s of
                (None, s1) \<Rightarrow> ((INTERNAL_ERROR, rs), s1)
              | (Some False, s1) \<Rightarrow> (respond_json_error 404 ''Not Found'' ''folder not found'' rs, s1)
              | (Some True, s1) \<Rightarrow> preflight_quota env mysql ctx requested_bytes rs s1)))"

text \<open>The answer, the request and the context after the upload, and the state.\<close>

definition upload :: "site_env \<Rightarrow> bool \<Rightarrow> http_request \<Rightarrow> request_context \<Rightarrow> http_response \<Rightarrow> site \<Rightarrow> reply \<times> site" where
  "upload env mysql rq ctx rs s =
     (let stop = (\<lambda>(code, rs1). (code, rq, ctx, rs1)) in
      if current_user ctx = [] then (stop (respond_json_error 403 ''Forbidden'' ''file upload requires user session'' rs), s)
      else case parse_managed_upload_payload env rq ctx of
        Inl (status, title, message) \<Rightarrow> (stop (respond_json_error status title message rs), s)
      | Inr payload \<Rightarrow>
          let stored_name_prefix = make_session_token (se_rand env) in
          if stored_name_prefix = [] then (stop (INTERNAL_ERROR, rs), s)
          else (case on_disk (create_uploaded_file (se_sql env) (se_disk env) (se_sha env) (se_failpoint env) mysql (ctx_doc_root ctx)
                        (current_user ctx) stored_name_prefix payload (parse_public_flag (request_value rq ''is_public'' []))
                        (controller_quota ctx)) s of
            (Inl e, s1) \<Rightarrow> (stop (respond_service_error e rs), s1)
          | (Inr result, s1) \<Rightarrow>
              let (u, ctx1) = (if pl_use_temp payload \<and> pl_temp_path payload = temp_path (rq_upload rq)
                               then release_temp_upload (rq_upload rq) ctx else (rq_upload rq, ctx));
                  s2 = write_operation_log env mysql (current_user ctx) ''upload'' ''file'' (ur_file_id result) (ur_filename result) s1;
                  (code, rs1) = json_ok (build_upload_success_json result) rs
              in ((code, rq\<lparr>rq_upload := u\<rparr>, ctx1, rs1), s2)))"

subsection \<open>Listings\<close>

definition drive_item_list :: "site_env \<Rightarrow> bool \<Rightarrow> http_request \<Rightarrow> request_context \<Rightarrow> http_response \<Rightarrow> site
    \<Rightarrow> (http_code \<times> http_response) \<times> site" where
  "drive_item_list env mysql rq ctx = require_user_session ctx ''drive list requires user session'' (\<lambda>rs s.
     case on_db (list_drive_items (se_sql env) mysql (current_user ctx) (query_long_value rq ''folder_id'' 0 0 2147483647)) s of
       (Inl e, s1) \<Rightarrow> (respond_service_error e rs, s1)
     | (Inr body, s1) \<Rightarrow> (json_ok body rs, s1))"

definition trash_item_list :: "site_env \<Rightarrow> bool \<Rightarrow> request_context \<Rightarrow> http_response \<Rightarrow> site \<Rightarrow> (http_code \<times> http_response) \<times> site" where
  "trash_item_list env mysql ctx = require_user_session ctx ''trash list requires user session'' (\<lambda>rs s.
     case on_db (list_trash_items (se_sql env) mysql (current_user ctx)) s of
       (None, s1) \<Rightarrow> ((INTERNAL_ERROR, rs), s1)
     | (Some body, s1) \<Rightarrow> (json_ok body rs, s1))"

definition controller_empty_trash :: "site_env \<Rightarrow> bool \<Rightarrow> request_context \<Rightarrow> http_response \<Rightarrow> site \<Rightarrow> (http_code \<times> http_response) \<times> site" where
  "controller_empty_trash env mysql ctx = require_user_session ctx ''trash empty requires user session'' (\<lambda>rs s.
     case on_disk (empty_trash (se_sql env) (se_disk env) mysql (ctx_doc_root ctx) (current_user ctx)) s of
       (Inl e, s1) \<Rightarrow> (respond_service_error e rs, s1)
     | (Inr n, s1) \<Rightarrow>
         (json_ok (message_json 0 ''trash emptied'' ('','' @ number_field ''deleted_count'' n)) rs,
          write_operation_log env mysql (current_user ctx) ''empty_trash'' ''file'' 0 (int_to_string n @ '' files'') s1))"

definition public_file_list :: "site_env \<Rightarrow> bool \<Rightarrow> http_request \<Rightarrow> http_response \<Rightarrow> site \<Rightarrow> (http_code \<times> http_response) \<times> site" where
  "public_file_list env mysql rq rs s =
     (let limit = query_long_value rq ''limit'' kDefaultListLimit 1 kMaxListLimit;
          cursor = query_long_value rq ''cursor'' 0 0 2147483647
      in case on_db (list_public_files (se_sql env) mysql cursor limit) s of
           (None, s1) \<Rightarrow> ((INTERNAL_ERROR, rs), s1)
         | (Some body, s1) \<Rightarrow> (json_ok body rs, s1))"

subsection \<open>Folders\<close>

definition drive_folder_create :: "site_env \<Rightarrow> bool \<Rightarrow> http_request \<Rightarrow> request_context \<Rightarrow> http_response \<Rightarrow> site
    \<Rightarrow> (http_code \<times> http_response) \<times> site" where
  "drive_folder_create env mysql rq ctx = require_user_session ctx ''folder create requires user session'' (\<lambda>rs s.
     let parent_value = request_value rq ''parent_id'' ''folder_id'' in
     case (if parent_value = [] then Some 0 else parse_non_negative_long parent_value) of
       None \<Rightarrow> (respond_json_error 400 ''Bad Request'' ''invalid parent_id'' rs, s)
     | Some parent_id \<Rightarrow>
         (case on_db (create_folder (se_sql env) mysql (current_user ctx) parent_id (request_value rq ''name'' [])) s of
            (Inl e, s1) \<Rightarrow> (respond_service_error e rs, s1)
          | (Inr folder, s1) \<Rightarrow>
              (json_ok (build_folder_created_json folder) rs,
               write_operation_log env mysql (current_user ctx) ''create_folder'' ''folder'' (fd_id folder) (fd_name folder) s1)))"

definition drive_folder_delete :: "site_env \<Rightarrow> bool \<Rightarrow> request_context \<Rightarrow> string \<Rightarrow> http_response \<Rightarrow> site
    \<Rightarrow> (http_code \<times> http_response) \<times> site" where
  "drive_folder_delete env mysql ctx path = require_user_session ctx ''folder delete requires user session'' (\<lambda>rs s.
     case path_id [] path of
       None \<Rightarrow> ((BAD_REQUEST, rs), s)
     | Some folder_id \<Rightarrow>
         (case on_db (delete_empty_folder (se_sql env) mysql (current_user ctx) folder_id) s of
            (Inl e, s1) \<Rightarrow> (respond_service_error e rs, s1)
          | (Inr folder, s1) \<Rightarrow>
              (json_ok (message_json 0 ''folder deleted'' []) rs,
               write_operation_log env mysql (current_user ctx) ''delete_folder'' ''folder'' folder_id (fd_name folder) s1)))"

subsection \<open>Single files\<close>

text \<open>The answer with a stored file.\<close>

definition file_reply :: "request_context \<Rightarrow> managed_file \<Rightarrow> http_response \<Rightarrow> http_code \<times> http_response" where
  "file_reply ctx r rs =
     (FILE_REQUEST, set_file (build_file_disk_path (ctx_doc_root ctx) (mf_stored r)) (mf_type r) (mf_name r) rs)"

definition public_file_detail :: "site_env \<Rightarrow> bool \<Rightarrow> request_context \<Rightarrow> string \<Rightarrow> http_response \<Rightarrow> site
    \<Rightarrow> (http_code \<times> http_response) \<times> site" where
  "public_file_detail env mysql ctx path rs s =
     (case path_id [] path of
        None \<Rightarrow> ((BAD_REQUEST, rs), s)
      | Some file_id \<Rightarrow>
          (case on_db (\<lambda>db. load_public_file_detail (se_sql env) mysql (ctx_doc_root ctx) file_id db (si_disk s)) s of
             (Inl e, s1) \<Rightarrow> (respond_service_error e rs, s1)
           | (Inr (r, actual_size), s1) \<Rightarrow> (json_ok (build_public_file_detail_json r actual_size) rs, s1)))"

definition private_file_download :: "site_env \<Rightarrow> bool \<Rightarrow> request_context \<Rightarrow> string \<Rightarrow> http_response \<Rightarrow> site
    \<Rightarrow> (http_code \<times> http_response) \<times> site" where
  "private_file_download env mysql ctx path = require_user_session ctx ''file download requires user session'' (\<lambda>rs s.
     case path_id ''/download'' path of
       None \<Rightarrow> ((BAD_REQUEST, rs), s)
     | Some file_id \<Rightarrow>
         (case on_db (load_owned_file_record (se_sql env) mysql (current_user ctx) file_id False) s of
            (Inl e, s1) \<Rightarrow> (respond_service_error e rs, s1)
          | (Inr r, s1) \<Rightarrow>
              (file_reply ctx r rs, write_operation_log env mysql (current_user ctx) ''download'' ''file'' file_id (mf_name r) s1)))"

definition public_file_download :: "site_env \<Rightarrow> bool \<Rightarrow> request_context \<Rightarrow> string \<Rightarrow> http_response \<Rightarrow> site
    \<Rightarrow> (http_code \<times> http_response) \<times> site" where
  "public_file_download env mysql ctx path rs s =
     (case path_id ''/download'' path of
        None \<Rightarrow> ((BAD_REQUEST, rs), s)
      | Some file_id \<Rightarrow>
          (case on_db (load_public_file_record (se_sql env) mysql file_id) s of
             (Inl e, s1) \<Rightarrow> (respond_service_error e rs, s1)
           | (Inr r, s1) \<Rightarrow>
               (file_reply ctx r rs,
                write_operation_log env mysql (or_default (current_user ctx) ''guest'') ''public_download'' ''file'' file_id (mf_name r) s1)))"

definition controller_remove :: "site_env \<Rightarrow> bool \<Rightarrow> request_context \<Rightarrow> string \<Rightarrow> http_response \<Rightarrow> site
    \<Rightarrow> (http_code \<times> http_response) \<times> site" where
  "controller_remove env mysql ctx path = require_user_session ctx ''file delete requires user session'' (\<lambda>rs s.
     case path_id [] path of
       None \<Rightarrow> ((BAD_REQUEST, rs), s)
     | Some file_id \<Rightarrow>
         (case on_db (soft_delete_file (se_sql env) mysql (current_user ctx) file_id) s of
            (Inl e, s1) \<Rightarrow> (respond_service_error e rs, s1)
          | (Inr r, s1) \<Rightarrow>
              (json_ok (message_json 0 ''file moved to recycle bin'' []) rs,
               write_operation_log env mysql (current_user ctx) ''delete'' ''file'' file_id (mf_name r) s1)))"

definition controller_restore :: "site_env \<Rightarrow> bool \<Rightarrow> request_context \<Rightarrow> string \<Rightarrow> http_response \<Rightarrow> site
    \<Rightarrow> (http_code \<times> http_response) \<times> site" where
  "controller_restore env mysql ctx path = require_user_session ctx ''file restore requires user session'' (\<lambda>rs s.
     case path_id ''/restore'' path of
       None \<Rightarrow> ((BAD_REQUEST, rs), s)
     | Some file_id \<Rightarrow>
         (case on_db (restore_file (se_sql env) mysql (current_user ctx) file_id) s of
            (Inl e, s1) \<Rightarrow> (respond_service_error e rs, s1)
          | (Inr r, s1) \<Rightarrow>
              (json_ok (build_file_restored_json r) rs,
               write_operation_log env mysql (current_user ctx) ''restore'' ''file'' file_id (mf_name r) s1)))"

definition remove_permanently :: "site_env \<Rightarrow> bool \<Rightarrow> request_context \<Rightarrow> string \<Rightarrow> http_response \<Rightarrow> site
    \<Rightarrow> (http_code \<times> http_response) \<times> site" where
  "remove_permanently env mysql ctx path = require_user_session ctx ''file permanent delete requires user session'' (\<lambda>rs s.
     case path_id ''/permanent'' path of
       None \<Rightarrow> ((BAD_REQUEST, rs), s)
     | Some file_id \<Rightarrow>
         (case on_disk (hard_delete_file (se_sql env) (se_disk env) mysql (ctx_doc_root ctx) (current_user ctx) file_id) s of
            (Inl e, s1) \<Rightarrow> (respond_service_error e rs, s1)
          | (Inr r, s1) \<Rightarrow>
              (json_ok (message_json 0 ''file permanently deleted'' []) rs,
               write_operation_log env mysql (current_user ctx) ''purge'' ''file'' file_id (mf_name r) s1)))"

definition update_visibility :: "site_env \<Rightarrow> bool \<Rightarrow> http_request \<Rightarrow> request_context \<Rightarrow> string \<Rightarrow> http_response \<Rightarrow> site
    \<Rightarrow> (http_code \<times> http_response) \<times> site" where
  "update_visibility env mysql rq ctx path = require_user_session ctx ''file visibility update requires user session'' (\<lambda>rs s.
     case path_id ''/visibility'' path of
       None \<Rightarrow> ((BAD_REQUEST, rs), s)
     | Some file_id \<Rightarrow>
         let is_public = parse_public_flag (request_value rq ''is_public'' []) in
         (case on_db (update_file_visibility (se_sql env) mysql (current_user ctx) file_id is_public) s of
            (Inl e, s1) \<Rightarrow> (respond_service_error e rs, s1)
          | (Inr r, s1) \<Rightarrow>
              (json_ok (message_json 0 (if is_public then ''file is now public'' else ''file is now private'') []) rs,
               write_operation_log env mysql (current_user ctx) (if is_public then ''publish'' else ''unpublish'') ''file'' file_id (mf_name r) s1)))"

subsection \<open>Share links\<close>

definition optional_number :: "string \<Rightarrow> int option" where
  "optional_number value = (if value = [] then Some 0 else parse_non_negative_long value)"

definition share_create :: "site_env \<Rightarrow> bool \<Rightarrow> http_request \<Rightarrow> request_context \<Rightarrow> string \<Rightarrow> http_response \<Rightarrow> site
    \<Rightarrow> (http_code \<times> http_response) \<times> site" where
  "share_create env mysql rq ctx path = require_user_session ctx ''file share requires user session'' (\<lambda>rs s.
     case path_id ''/share'' path of
       None \<Rightarrow> ((BAD_REQUEST, rs), s)
     | Some file_id \<Rightarrow>
         (case optional_number (request_value rq ''expires_in_seconds'' ''expires_in'') of
            None \<Rightarrow> (respond_json_error 400 ''Bad Request'' ''invalid expires_in_seconds'' rs, s)
          | Some expires_in \<Rightarrow>
              (case optional_number (request_value rq ''max_downloads'' ''download_limit'') of
                 None \<Rightarrow> (respond_json_error 400 ''Bad Request'' ''invalid max_downloads'' rs, s)
               | Some max_downloads \<Rightarrow>
                   (case on_db (create_share_link (se_sql env) (se_sha env) (se_share_rand env) mysql (current_user ctx) file_id
                           \<lparr>so_code = request_value rq ''access_code'' ''code'', so_expires_in = expires_in, so_max = max_downloads\<rparr>) s of
                      (Inl e, s1) \<Rightarrow> (respond_service_error e rs, s1)
                    | (Inr share, s1) \<Rightarrow>
                        (json_ok (build_share_json share) rs,
                         write_operation_log env mysql (current_user ctx) ''create_share'' ''file'' file_id (sx_filename share) s1)))))"

definition share_detail :: "site_env \<Rightarrow> bool \<Rightarrow> http_request \<Rightarrow> string \<Rightarrow> http_response \<Rightarrow> site
    \<Rightarrow> (http_code \<times> http_response) \<times> site" where
  "share_detail env mysql rq path rs s =
     (case parse_share_path path False of
        None \<Rightarrow> ((BAD_REQUEST, rs), s)
      | Some token \<Rightarrow>
          (case on_db (load_share_detail (se_sql env) (se_sha env) mysql token (request_access_code rq)) s of
             (Inl e, s1) \<Rightarrow> (respond_service_error e rs, s1)
           | (Inr share, s1) \<Rightarrow> (json_ok (build_share_json share) rs, s1)))"

definition share_download :: "site_env \<Rightarrow> bool \<Rightarrow> http_request \<Rightarrow> request_context \<Rightarrow> string \<Rightarrow> http_response \<Rightarrow> site
    \<Rightarrow> (http_code \<times> http_response) \<times> site" where
  "share_download env mysql rq ctx path rs s =
     (case parse_share_path path True of
        None \<Rightarrow> ((BAD_REQUEST, rs), s)
      | Some token \<Rightarrow>
          (case on_db (load_share_download (se_sql env) (se_sha env) mysql token (request_access_code rq)) s of
             (Inl e, s1) \<Rightarrow> (respond_service_error e rs, s1)
           | (Inr (r, _), s1) \<Rightarrow>
               (file_reply ctx r rs, write_operation_log env mysql ''guest'' ''share_download'' ''file'' (mf_id r) (mf_name r) s1)))"

end
