(* ===== verification/Router.thy ===== *)
theory Router
  imports File_Controller
begin

text \<open>
  The router (src/http/router/router.cpp): the middlewares around the routes, and which handler a
  path and a method lead to. \<open>handle_request\<close> is the application that the connection calls.
\<close>

type_synonym route = "http_request \<Rightarrow> request_context \<Rightarrow> http_response \<Rightarrow> site \<Rightarrow> reply \<times> site"

text \<open>A handler that leaves the request and the context alone.\<close>

definition plain :: "http_request \<Rightarrow> request_context \<Rightarrow> (http_code \<times> http_response) \<times> site \<Rightarrow> reply \<times> site" where
  "plain rq ctx x = (case x of ((code, rs), s) \<Rightarrow> ((code, rq, ctx, rs), s))"

definition not_implemented :: route where
  "not_implemented rq ctx rs s = ((NOT_IMPLEMENTED, rq, ctx, rs), s)"

definition contains_text :: "string \<Rightarrow> string \<Rightarrow> bool" where
  "contains_text path part \<longleftrightarrow> find_sub part (c_str path) \<noteq> None"

subsection \<open>Middlewares\<close>

definition request_log_line :: "http_request \<Rightarrow> string" where
  "request_log_line rq =
     ''request '' @ method_name (rq_method rq) @ '' '' @ c_str (rq_path rq) @ '' content_type=''
       @ (if header_value rq ''content-type'' = [] then ''-'' else c_str (header_value rq ''content-type''))
       @ '' content_length='' @ int_to_string (rq_content_length rq)"

definition middleware_request_log :: "site_env \<Rightarrow> http_request \<Rightarrow> site \<Rightarrow> site" where
  "middleware_request_log env rq s =
     (if \<not> se_close_log env \<and> \<not> should_skip_request_log rq then s\<lparr>si_lines := si_lines s @ [request_log_line rq]\<rparr> else s)"

text \<open>The user of the session goes into the context; without a session the request ends here.\<close>

definition middleware_auth :: "site_env \<Rightarrow> bool \<Rightarrow> route" where
  "middleware_auth env mysql rq ctx rs s =
     (if \<not> requires_auth rq then ((NO_REQUEST, rq, ctx, rs), s)
      else let token = bearer_token rq;
               (user, s1) = (if token = [] then (None, s) else on_auth (lookup_session (se_auth env) mysql token) s)
           in case user of
                Some name \<Rightarrow> ((NO_REQUEST, rq, ctx\<lparr>current_user := name\<rparr>, rs), s1)
              | None \<Rightarrow>
                  ((MEMORY_REQUEST, rq, ctx,
                    set_body 401 ''Unauthorized'' (message_json 401 ''unauthorized'' []) ''application/json'' rs),
                   if mysql then write_operation_log env mysql ''anonymous'' ''auth_failed'' ''request'' 0 (rq_path rq) s1 else s1))"

definition run_before_middlewares :: "site_env \<Rightarrow> bool \<Rightarrow> route" where
  "run_before_middlewares env mysql rq ctx rs s = middleware_auth env mysql rq ctx rs (middleware_request_log env rq s)"

definition api_error :: "http_code \<Rightarrow> int \<times> string \<times> string" where
  "api_error code =
     (if code = BAD_REQUEST then (400, ''Bad Request'', ''bad request'')
      else if code = NO_RESOURCE then (404, ''Not Found'', ''resource not found'')
      else if code = FORBIDDEN_REQUEST then (403, ''Forbidden'', ''forbidden'')
      else if code = NOT_IMPLEMENTED then (501, ''Not Implemented'', ''not implemented'')
      else if code = PAYLOAD_TOO_LARGE then (413, ''Payload Too Large'', ''payload too large'')
      else (500, ''Internal Error'', ''internal server error''))"

definition api_error_response :: "http_code \<Rightarrow> http_response \<Rightarrow> http_code \<times> http_response" where
  "api_error_response code rs =
     (case api_error code of (status, title, message) \<Rightarrow>
        (MEMORY_REQUEST, set_body status title (message_json status message []) ''application/json'' rs))"

definition run_after_middlewares :: "reply \<times> site \<Rightarrow> reply \<times> site" where
  "run_after_middlewares x =
     (case x of ((code, rq, ctx, rs), s) \<Rightarrow>
        if \<not> is_api_request rq then x
        else if code = MEMORY_REQUEST \<or> code = FILE_REQUEST \<or> code = OPTIONS_REQUEST then x
        else (case api_error_response code rs of (code1, rs1) \<Rightarrow> ((code1, rq, ctx, rs1), s)))"

subsection \<open>Routes\<close>

definition route_healthz :: "http_response \<Rightarrow> http_code \<times> http_response" where
  "route_healthz rs = json_ok (''{'' @ number_field ''code'' 0 @ '','' @ quoted ''status'' @ '':'' @ quoted ''ok'' @ ''}'') rs"

definition route_echo :: "http_request \<Rightarrow> http_response \<Rightarrow> http_code \<times> http_response" where
  "route_echo rq rs =
     json_ok (''{'' @ number_field ''code'' 0 @ '','' @ text_field ''content_type'' (header_value rq ''content-type'') @ '',''
              @ text_field ''body'' (rq_body rq) @ ''}'') rs"

definition handle_api_drive_folder_item :: "site_env \<Rightarrow> bool \<Rightarrow> string \<Rightarrow> route" where
  "handle_api_drive_folder_item env mysql path rq ctx rs s =
     (if rq_method rq = DELETE then plain rq ctx (drive_folder_delete env mysql ctx path rs s) else not_implemented rq ctx rs s)"

definition handle_api_drive_file_item :: "site_env \<Rightarrow> bool \<Rightarrow> string \<Rightarrow> route" where
  "handle_api_drive_file_item env mysql path rq ctx rs s =
     (if rq_method rq = GET \<and> contains_text path ''/download'' then plain rq ctx (private_file_download env mysql ctx path rs s)
      else if rq_method rq = POST \<and> contains_text path ''/share'' then plain rq ctx (share_create env mysql rq ctx path rs s)
      else if rq_method rq = POST \<and> contains_text path ''/visibility'' then plain rq ctx (update_visibility env mysql rq ctx path rs s)
      else if rq_method rq = POST \<and> contains_text path ''/restore'' then plain rq ctx (controller_restore env mysql ctx path rs s)
      else if rq_method rq = DELETE \<and> contains_text path ''/permanent'' then plain rq ctx (remove_permanently env mysql ctx path rs s)
      else if rq_method rq = DELETE then plain rq ctx (controller_remove env mysql ctx path rs s)
      else not_implemented rq ctx rs s)"

definition handle_api_public_file_item :: "site_env \<Rightarrow> bool \<Rightarrow> string \<Rightarrow> route" where
  "handle_api_public_file_item env mysql path rq ctx rs s =
     (if rq_method rq = GET \<and> contains_text path ''/download'' then plain rq ctx (public_file_download env mysql ctx path rs s)
      else if rq_method rq = GET then plain rq ctx (public_file_detail env mysql ctx path rs s)
      else not_implemented rq ctx rs s)"

definition handle_api_share_item :: "site_env \<Rightarrow> bool \<Rightarrow> string \<Rightarrow> route" where
  "handle_api_share_item env mysql path rq ctx rs s =
     (if rq_method rq = GET \<and> contains_text path ''/download'' then plain rq ctx (share_download env mysql rq ctx path rs s)
      else if rq_method rq = GET then plain rq ctx (share_detail env mysql rq path rs s)
      else not_implemented rq ctx rs s)"

definition path_is :: "http_request \<Rightarrow> string \<Rightarrow> bool" where
  "path_is rq p \<longleftrightarrow> equals_ignore_case (rq_path rq) p"

definition path_under :: "http_request \<Rightarrow> string \<Rightarrow> bool" where
  "path_under rq p \<longleftrightarrow> starts_with_ignore_case (rq_path rq) p"

definition path_after :: "http_request \<Rightarrow> string \<Rightarrow> string" where
  "path_after rq p = drop (length p) (rq_path rq)"

definition handle_api_drive_request :: "site_env \<Rightarrow> bool \<Rightarrow> route" where
  "handle_api_drive_request env mysql rq ctx rs s =
     (if path_is rq ''/api/drive/items'' then
        (if rq_method rq = GET then plain rq ctx (drive_item_list env mysql rq ctx rs s) else not_implemented rq ctx rs s)
      else if path_is rq ''/api/drive/trash'' then
        (if rq_method rq = GET then plain rq ctx (trash_item_list env mysql ctx rs s)
         else if rq_method rq = DELETE then plain rq ctx (controller_empty_trash env mysql ctx rs s)
         else not_implemented rq ctx rs s)
      else if path_is rq ''/api/drive/folders'' then
        (if rq_method rq = POST then plain rq ctx (drive_folder_create env mysql rq ctx rs s) else not_implemented rq ctx rs s)
      else if path_is rq ''/api/drive/files/upload'' then
        (if rq_method rq = POST then upload env mysql rq ctx rs s else not_implemented rq ctx rs s)
      else if path_is rq ''/api/drive/files/preflight'' then
        (if rq_method rq = POST then plain rq ctx (upload_preflight env mysql rq ctx rs s) else not_implemented rq ctx rs s)
      else if path_under rq ''/api/drive/folders/'' then
        handle_api_drive_folder_item env mysql (path_after rq ''/api/drive/folders/'') rq ctx rs s
      else if path_under rq ''/api/drive/files/'' then
        handle_api_drive_file_item env mysql (path_after rq ''/api/drive/files/'') rq ctx rs s
      else not_implemented rq ctx rs s)"

definition handle_login :: "site_env \<Rightarrow> bool \<Rightarrow> route" where
  "handle_login env mysql rq ctx rs s =
     (case auth_login env mysql rq ctx rs True s of ((code, rs1), ctx1, s1) \<Rightarrow> ((code, rq, ctx1, rs1), s1))"

definition handle_api_request :: "site_env \<Rightarrow> bool \<Rightarrow> route" where
  "handle_api_request env mysql rq ctx rs s =
     (if path_is rq ''/healthz'' then
        (if rq_method rq = GET \<or> rq_method rq = HEAD then plain rq ctx (route_healthz rs, s) else not_implemented rq ctx rs s)
      else if path_is rq ''/api/login'' then
        (if rq_method rq = POST then handle_login env mysql rq ctx rs s else not_implemented rq ctx rs s)
      else if path_is rq ''/api/register'' then
        (if rq_method rq = POST then plain rq ctx (auth_register env mysql rq ctx rs True s) else not_implemented rq ctx rs s)
      else if path_is rq ''/api/echo'' then
        (if rq_method rq = POST then plain rq ctx (route_echo rq rs, s) else not_implemented rq ctx rs s)
      else if path_is rq ''/api/private/ping'' then
        (if rq_method rq = GET then plain rq ctx (auth_ping ctx rs, s) else not_implemented rq ctx rs s)
      else if path_is rq ''/api/private/logout'' then
        (if rq_method rq = POST then plain rq ctx (auth_logout env mysql rq ctx rs s) else not_implemented rq ctx rs s)
      else if path_is rq ''/api/files/public'' then
        (if rq_method rq = GET then plain rq ctx (public_file_list env mysql rq rs s) else not_implemented rq ctx rs s)
      else if path_is rq ''/api/private/operations'' then
        (if rq_method rq = GET then plain rq ctx (operation_list (se_sql env) mysql ctx rs s)
         else if rq_method rq = DELETE then plain rq ctx (operation_clear (se_sql env) mysql ctx rs s)
         else not_implemented rq ctx rs s)
      else if path_under rq ''/api/private/operations/'' then
        (if rq_method rq = DELETE
         then plain rq ctx (operation_remove (se_sql env) mysql ctx rs (path_after rq ''/api/private/operations/'') s)
         else not_implemented rq ctx rs s)
      else if path_under rq ''/api/drive/'' then handle_api_drive_request env mysql rq ctx rs s
      else if path_under rq ''/api/files/public/'' then
        handle_api_public_file_item env mysql (path_after rq ''/api/files/public/'') rq ctx rs s
      else if path_under rq ''/api/share/'' then
        handle_api_share_item env mysql (path_after rq ''/api/share/'') rq ctx rs s
      else ((MEMORY_REQUEST, rq, ctx, set_body 404 ''Not Found'' (message_json 404 ''api not found'' []) ''application/json'' rs), s))"

definition route_request :: "site_env \<Rightarrow> bool \<Rightarrow> route" where
  "route_request env mysql rq ctx rs s =
     (if path_is rq ''/healthz'' \<and> (rq_method rq = GET \<or> rq_method rq = HEAD) then plain rq ctx (route_healthz rs, s)
      else if path_under rq ''/api/'' then handle_api_request env mysql rq ctx rs s
      else ((MEMORY_REQUEST, rq, ctx, set_body 404 ''Not Found'' (message_json 404 ''not found'' []) ''application/json'' rs), s))"

definition handle_request :: "site_env \<Rightarrow> bool \<Rightarrow> route" where
  "handle_request env mysql rq ctx rs s =
     (if rq_method rq = OPTIONS then ((OPTIONS_REQUEST, rq, ctx, set_options rs), s)
      else (case run_before_middlewares env mysql rq ctx rs s of ((code, rq1, ctx1, rs1), s1) \<Rightarrow>
        if code \<noteq> NO_REQUEST then ((code, rq1, ctx1, rs1), s1)
        else run_after_middlewares (route_request env mysql rq1 ctx1 rs1 s1)))"

end
