(* ===== verification/Site.thy ===== *)
theory Site
  imports Router
begin

text \<open>
  What requests do to the application: the effect of a request on the drive is at most one call of
  the drive, made for the user of the session. So what holds of the drive holds of the server, and
  the theorems here say what a client can reach and what not.
\<close>

subsection \<open>Statements that do not touch the drive\<close>

definition asked :: "drive_db \<Rightarrow> drive_db \<Rightarrow> bool" where
  "asked db db' \<longleftrightarrow> (\<exists>n e. db' = db\<lparr>dv_calls := n, dv_errno := e\<rparr>)"

lemma askedI [simp]: "asked db (db\<lparr>dv_calls := n, dv_errno := e\<rparr>)"
  unfolding asked_def by (rule exI[of _ n], rule exI[of _ e], rule refl)

lemma asked_refl [simp]: "asked db db"
  using askedI[where db = db and n = "dv_calls db" and e = "dv_errno db"] by simp

lemma asked_trans [trans]:
  assumes "asked a b" "asked b c" shows "asked a c"
proof -
  obtain n e where "c = a\<lparr>dv_calls := n, dv_errno := e\<rparr>" using assms unfolding asked_def by force
  then show ?thesis by simp
qed

lemma asked_select: "keeps (asked db0) (select_query env failed f db)" if "asked db0 db"
  using asked_trans[OF that askedI] by (auto simp: select_query_def query_def keeps_def Let_def)

lemma asked_reads [keeps_intros]:
  assumes a: "asked db0 db"
  shows "keeps (asked db0) (fetch_file_record env mysql i incl db)"
    and "keeps (asked db0) (folder_exists env mysql owner folder db)"
    and "keeps (asked db0) (fetch_user_storage_usage env mysql owner db)"
  unfolding fetch_file_record_def folder_exists_def fetch_user_storage_usage_def
  by (intro keeps_constructs asked_select a)+

lemma asked_loads:
  assumes a: "asked db0 db"
  shows "keeps (asked db0) (load_owned_file_record env mysql owner i incl db)"
    and "keeps (asked db0) (load_public_file_record env mysql i db)"
    and "keeps (asked db0) (inspect_upload_quota env mysql owner n quota db)"
  unfolding load_owned_file_record_def load_public_file_record_def inspect_upload_quota_def Let_def
  by (intro keeps_intros a; assumption)+

lemma asked_detail:
  assumes a: "asked db0 db"
  shows "keeps (asked db0) (load_public_file_detail env mysql root i db d)"
  unfolding load_public_file_detail_def Let_def by (intro keeps_intros asked_loads a; assumption)

subsection \<open>The effect of a request\<close>

definition only_asked :: "site \<Rightarrow> site \<Rightarrow> bool" where
  "only_asked s s' \<longleftrightarrow> asked (si_db s) (si_db s') \<and> si_disk s' = si_disk s"

definition one_call :: "site_env \<Rightarrow> bool \<Rightarrow> string \<Rightarrow> string option \<Rightarrow> site \<Rightarrow> site \<Rightarrow> bool" where
  "one_call env mysql root user s s' \<longleftrightarrow>
     (\<exists>c db. (call_user c = None \<or> call_user c = user) \<and> call_ok (se_sha env) root c (si_disk s)
        \<and> drive_step (se_sql env) (se_disk env) (se_sha env) mysql root c (si_db s, si_disk s) = (db, si_disk s')
        \<and> asked db (si_db s'))"

definition drive_effect :: "site_env \<Rightarrow> bool \<Rightarrow> string \<Rightarrow> string option \<Rightarrow> site \<Rightarrow> site \<Rightarrow> bool" where
  "drive_effect env mysql root user s s' \<longleftrightarrow> only_asked s s' \<or> one_call env mysql root user s s'"

lemma effect_asked: "only_asked s s' \<Longrightarrow> drive_effect env mysql root user s s'"
  by (simp add: drive_effect_def)

lemma effect_refl [simp]: "drive_effect env mysql root user s s"
  by (simp add: drive_effect_def only_asked_def)

lemma effect_then_asked:
  "drive_effect env mysql root user s s1 \<Longrightarrow> only_asked s1 s' \<Longrightarrow> drive_effect env mysql root user s s'"
  unfolding drive_effect_def only_asked_def one_call_def using asked_trans by metis

lemma log_asked: "only_asked s (write_operation_log env mysql user action type i detail s)"
  by (auto simp: write_operation_log_def insert_operation_log_def log_query_def on_db_def query_def only_asked_def Let_def
      split: option.splits)

lemma effect_log:
  "drive_effect env mysql root user s s1 \<Longrightarrow> drive_effect env mysql root user s (write_operation_log env mysql u a t i d s1)"
  by (rule effect_then_asked[OF _ log_asked])

text \<open>A result of the given kind.\<close>

definition has_effect :: "site_env \<Rightarrow> bool \<Rightarrow> string \<Rightarrow> string option \<Rightarrow> site \<Rightarrow> 'r \<times> site \<Rightarrow> bool" where
  "has_effect env mysql root user s x \<longleftrightarrow> drive_effect env mysql root user s (snd x)"

named_theorems effects \<open>handlers and their effect on the drive\<close>

lemma effect_done [effects]: "drive_effect env mysql root user s s1 \<Longrightarrow> has_effect env mysql root user s (r, s1)"
  by (simp add: has_effect_def)

lemma effect_read:
  "keeps (asked (si_db s)) (f (si_db s)) \<Longrightarrow> on_db f s = (r, s1) \<Longrightarrow> drive_effect env mysql root user s s1"
  by (auto simp: keeps_def on_db_def drive_effect_def only_asked_def split: prod.splits)

lemma effect_read_on:
  assumes "drive_effect env mysql root user s s0" "keeps (asked (si_db s0)) (f (si_db s0))" "on_db f s0 = (r, s1)"
  shows "drive_effect env mysql root user s s1"
  by (rule effect_then_asked[OF assms(1)]) (use assms(2,3) in \<open>auto simp: keeps_def on_db_def only_asked_def split: prod.splits\<close>)

lemma effect_call:
  assumes "on_db f s = (r, s1)"
    and "\<And>d. drive_step (se_sql env) (se_disk env) (se_sha env) mysql root c (si_db s, d) = (snd (f (si_db s)), d)"
    and "call_user c = None \<or> call_user c = user" and "call_ok (se_sha env) root c (si_disk s)"
  shows "drive_effect env mysql root user s s1"
proof -
  have "si_db s1 = snd (f (si_db s))" "si_disk s1 = si_disk s" using assms(1) by (auto simp: on_db_def split: prod.splits)
  then show ?thesis using assms(2-4) unfolding drive_effect_def one_call_def by (intro disjI2 exI[of _ c]) simp
qed

lemma effect_disk_call:
  assumes "on_disk f s = (r, s1)"
    and "drive_step (se_sql env) (se_disk env) (se_sha env) mysql root c (si_db s, si_disk s) = snd (f (si_db s) (si_disk s))"
    and "call_user c = None \<or> call_user c = user" and "call_ok (se_sha env) root c (si_disk s)"
  shows "drive_effect env mysql root user s s1"
proof -
  have "snd (f (si_db s) (si_disk s)) = (si_db s1, si_disk s1)" using assms(1) by (auto simp: on_disk_def split: prod.splits)
  then show ?thesis using assms(2-4) unfolding drive_effect_def one_call_def by (intro disjI2 exI[of _ c]) simp
qed

text \<open>The calls of the services.\<close>

lemma service_effects:
  "on_db (create_folder (se_sql env) mysql u parent name) s = (r1, s1) \<Longrightarrow> drive_effect env mysql root (Some u) s s1"
  "on_db (delete_empty_folder (se_sql env) mysql u folder) s = (r1, s1) \<Longrightarrow> drive_effect env mysql root (Some u) s s1"
  "on_db (list_drive_items (se_sql env) mysql u folder) s = (r2, s1) \<Longrightarrow> drive_effect env mysql root (Some u) s s1"
  "on_db (list_trash_items (se_sql env) mysql u) s = (r3, s1) \<Longrightarrow> drive_effect env mysql root (Some u) s s1"
  "on_db (list_public_files (se_sql env) mysql cursor limit) s = (r3, s1) \<Longrightarrow> drive_effect env mysql root user s s1"
  "on_db (soft_delete_file (se_sql env) mysql u i) s = (r4, s1) \<Longrightarrow> drive_effect env mysql root (Some u) s s1"
  "on_db (restore_file (se_sql env) mysql u i) s = (r4, s1) \<Longrightarrow> drive_effect env mysql root (Some u) s s1"
  "on_db (update_file_visibility (se_sql env) mysql u i b) s = (r4, s1) \<Longrightarrow> drive_effect env mysql root (Some u) s s1"
  "on_disk (hard_delete_file (se_sql env) (se_disk env) mysql root u i) s = (r4, s1) \<Longrightarrow> drive_effect env mysql root (Some u) s s1"
  "on_disk (empty_trash (se_sql env) (se_disk env) mysql root u) s = (r5, s1) \<Longrightarrow> drive_effect env mysql root (Some u) s s1"
  "on_db (create_share_link (se_sql env) (se_sha env) rand mysql u i options) s = (r6, s1) \<Longrightarrow> drive_effect env mysql root (Some u) s s1"
  "on_db (load_share_detail (se_sql env) (se_sha env) mysql token code) s = (r6, s1) \<Longrightarrow> drive_effect env mysql root user s s1"
  "on_db (load_share_download (se_sql env) (se_sha env) mysql token code) s = (r7, s1) \<Longrightarrow> drive_effect env mysql root user s s1"
  subgoal by (erule effect_call[where c = "CallCreateFolder u parent name"]; simp)
  subgoal by (erule effect_call[where c = "CallDeleteFolder u folder"]; simp)
  subgoal by (erule effect_call[where c = "CallListDrive u folder"]; simp)
  subgoal by (erule effect_call[where c = "CallListTrash u"]; simp)
  subgoal by (erule effect_call[where c = "CallListPublic cursor limit"]; simp)
  subgoal by (erule effect_call[where c = "CallSoftDelete u i"]; simp)
  subgoal by (erule effect_call[where c = "CallRestore u i"]; simp)
  subgoal by (erule effect_call[where c = "CallVisibility u i b"]; simp)
  subgoal by (erule effect_disk_call[where c = "CallHardDelete u i"]; simp)
  subgoal by (erule effect_disk_call[where c = "CallEmptyTrash u"]; simp)
  subgoal by (erule effect_call[where c = "CallShare u i options rand"]; simp)
  subgoal by (erule effect_call[where c = "CallShareDetail token code"]; simp)
  subgoal by (erule effect_call[where c = "CallShareDownload token code"]; simp)
  done

lemma read_effects:
  "on_db (load_owned_file_record (se_sql env) mysql u i incl) s = (r1, s1) \<Longrightarrow> drive_effect env mysql root user s s1"
  "on_db (load_public_file_record (se_sql env) mysql i) s = (r1, s1) \<Longrightarrow> drive_effect env mysql root user s s1"
  "on_db (\<lambda>db. load_public_file_detail (se_sql env) mysql root' i db d) s = (r2, s1) \<Longrightarrow> drive_effect env mysql root user s s1"
  "on_db (folder_exists (se_sql env) mysql u i) s = (r3, s1) \<Longrightarrow> drive_effect env mysql root user s s1"
  by (erule effect_read[rotated], rule asked_loads asked_detail asked_reads, simp)+

lemma quota_effect:
  "drive_effect env mysql root user s s0 \<Longrightarrow> has_effect env mysql root user s (preflight_quota env mysql ctx n rs s0)"
  by (auto simp: preflight_quota_def has_effect_def asked_loads split: prod.splits sum.splits
      elim!: effect_read_on[where f = "inspect_upload_quota (se_sql env) mysql (current_user ctx) n (controller_quota ctx)"])

subsection \<open>The handlers\<close>

lemmas handler_simps = has_effect_def require_user_session_def Let_def

lemma session_handlers:
  assumes "current_user ctx = u"
  shows "has_effect env mysql (ctx_doc_root ctx) (Some u) s (drive_item_list env mysql rq ctx rs s)"
    and "has_effect env mysql (ctx_doc_root ctx) (Some u) s (trash_item_list env mysql ctx rs s)"
    and "has_effect env mysql (ctx_doc_root ctx) (Some u) s (controller_empty_trash env mysql ctx rs s)"
    and "has_effect env mysql (ctx_doc_root ctx) (Some u) s (drive_folder_create env mysql rq ctx rs s)"
    and "has_effect env mysql (ctx_doc_root ctx) (Some u) s (drive_folder_delete env mysql ctx path rs s)"
    and "has_effect env mysql (ctx_doc_root ctx) (Some u) s (private_file_download env mysql ctx path rs s)"
    and "has_effect env mysql (ctx_doc_root ctx) (Some u) s (controller_remove env mysql ctx path rs s)"
    and "has_effect env mysql (ctx_doc_root ctx) (Some u) s (controller_restore env mysql ctx path rs s)"
    and "has_effect env mysql (ctx_doc_root ctx) (Some u) s (remove_permanently env mysql ctx path rs s)"
    and "has_effect env mysql (ctx_doc_root ctx) (Some u) s (update_visibility env mysql rq ctx path rs s)"
    and "has_effect env mysql (ctx_doc_root ctx) (Some u) s (share_create env mysql rq ctx path rs s)"
    and "has_effect env mysql (ctx_doc_root ctx) (Some u) s (upload_preflight env mysql rq ctx rs s)"
  unfolding drive_item_list_def trash_item_list_def controller_empty_trash_def drive_folder_create_def drive_folder_delete_def
    private_file_download_def controller_remove_def controller_restore_def remove_permanently_def update_visibility_def
    share_create_def upload_preflight_def assms
  by (auto simp: handler_simps split: prod.splits option.splits sum.splits bool.splits
      intro: service_effects read_effects effect_log quota_effect[unfolded has_effect_def])

lemma guest_handlers:
  "has_effect env mysql root user s (public_file_list env mysql rq rs s)"
  "has_effect env mysql root user s (public_file_detail env mysql ctx path rs s)"
  "has_effect env mysql root user s (public_file_download env mysql ctx path rs s)"
  "has_effect env mysql root user s (share_detail env mysql rq path rs s)"
  "has_effect env mysql root user s (share_download env mysql rq ctx path rs s)"
  unfolding public_file_list_def public_file_detail_def public_file_download_def share_detail_def share_download_def
  by (auto simp: handler_simps split: prod.splits option.splits sum.splits
      intro: service_effects read_effects effect_log)

subsection \<open>Uploads\<close>

text \<open>
  What the connection hands over with an upload (theories Multipart and Request\_Handling): a temporary
  file outside the store whose content has the digest of the request.
\<close>

definition upload_ok :: "(string \<Rightarrow> string) \<Rightarrow> string \<Rightarrow> http_request \<Rightarrow> disk \<Rightarrow> bool" where
  "upload_ok sha root rq d \<longleftrightarrow> has_file (rq_upload rq) \<longrightarrow>
     hex_text (up_sha256 (rq_upload rq)) \<and> \<not> in_store root (temp_path (rq_upload rq))
     \<and> holds_content sha (temp_path (rq_upload rq)) (up_sha256 (rq_upload rq)) d"

lemma hex_text_encode: "bs \<noteq> [] \<Longrightarrow> hex_text (encode_hex bs)"
proof -
  have digit: "isdigit (hex_lower n) \<or> hex_lower n \<in> set ''abcdef''" if "n < 16" for n
  proof -
    have "list_all (\<lambda>n. isdigit (hex_lower n) \<or> hex_lower n \<in> set ''abcdef'') [0..<16]" by code_simp
    then show ?thesis using that by (simp add: list_all_iff)
  qed
  have "(of_char b :: nat) div 16 < 16" for b :: byte using of_char_less[of b] by simp
  then have "list_all (\<lambda>c. isdigit c \<or> c \<in> set ''abcdef'') (encode_hex bs)" for bs
    by (induction bs) (simp_all add: encode_hex_def digit del: list.set)
  then show "bs \<noteq> [] \<Longrightarrow> hex_text (encode_hex bs)" by (simp add: hex_text_def encode_hex_digits)
qed

lemma parsed_payload_ok:
  assumes "parse_managed_upload_payload env rq ctx = Inr p" and u: "upload_ok (se_sha env) root rq d" and sha: "\<And>c. se_sha env c \<noteq> []"
  shows "payload_ok (se_sha env) root (with_digest (se_sha env) p) d"
proof (cases "has_file (rq_upload rq)")
  case True
  then obtain p0 where "p = file_payload (rq_upload rq) p0"
    using assms(1) by (auto simp: parse_managed_upload_payload_def Let_def split: option.splits)
  moreover have "hex_text (up_sha256 (rq_upload rq))" using u True by (simp add: upload_ok_def)
  ultimately show ?thesis
    using u True by (auto simp: upload_ok_def payload_ok_def with_digest_def file_payload_def hex_text_def)
next
  case False
  then obtain p0 where "inline_payload env rq ctx p0 = Inr p" "pl_sha p0 = []" "\<not> pl_use_temp p0"
    using assms(1) by (auto simp: parse_managed_upload_payload_def empty_payload_def Let_def split: option.splits if_splits)
  then have "pl_content p \<noteq> []" "pl_sha p = []" "\<not> pl_use_temp p" by (auto simp: inline_payload_def split: option.splits if_splits)
  then show ?thesis using hex_text_encode[OF sha] by (simp add: payload_ok_def with_digest_def sha256_hex_def)
qed

lemma token_no_slash: "CHR ''/'' \<notin> set (make_session_token rand)"
proof (cases "make_session_token rand = []")
  case False
  then have "hex_text (make_session_token rand)"
    by (auto simp: make_session_token_def encode_hex_def split: option.splits intro!: hex_text_encode[unfolded encode_hex_def])
  then show ?thesis by (rule hex_no_slash)
qed simp

lemma upload_effect:
  assumes "upload_ok (se_sha env) (ctx_doc_root ctx) rq (si_disk s)" and "\<And>c. se_sha env c \<noteq> []" and "current_user ctx = u"
  shows "has_effect env mysql (ctx_doc_root ctx) (Some u) s (upload env mysql rq ctx rs s)"
proof -
  have call: "drive_effect env mysql (ctx_doc_root ctx) (Some u) s s1"
    if "parse_managed_upload_payload env rq ctx = Inr p"
      "on_disk (create_uploaded_file (se_sql env) (se_disk env) (se_sha env) fp mysql (ctx_doc_root ctx) u
         (make_session_token (se_rand env)) p pub quota) s = (r, s1)" for p fp pub quota r s1
    by (rule effect_disk_call[where c = "CallUpload u (make_session_token (se_rand env)) p pub quota fp", OF that(2)])
      (use parsed_payload_ok[OF that(1) assms(1,2)] token_no_slash in simp_all)
  show ?thesis unfolding upload_def assms(3)
    by (auto simp: has_effect_def Let_def json_ok_def split: prod.splits option.splits sum.splits if_splits
        intro!: effect_log intro: call)
qed

subsection \<open>Sessions\<close>

lemma refresh_users: "refresh_session env mysql token name ttl a = (b, a') \<Longrightarrow> db_users (au_db a') = db_users (au_db a)"
  using refresh_keeps_keys(1) by (auto simp: refresh_session_def split: prod.splits if_splits)

lemma stored_lookup_users:
  assumes "lookup_stored_session env mysql token a = (r, a')"
  shows "db_users (au_db a') = db_users (au_db a)"
proof -
  have f: "db_users db' = db_users db" if "find_active_session e mysql token db = (x, db')" for e x db db'
    using that by (auto simp: find_active_session_def statement_def split: if_splits)
  have c: "db_users (snd (cleanup_session_token_or_expired e mysql token db)) = db_users db" for e db
    by (simp add: cleanup_session_token_or_expired_def statement_def)
  have r: "db_users (au_db (snd (refresh_session env mysql token name ttl a))) = db_users (au_db a)" for name ttl a
    using refresh_users[OF surjective_pairing] .
  show ?thesis using assms f c r by (auto simp: lookup_stored_session_def Let_def split: prod.splits option.splits if_splits)
qed

lemma lookup_users:
  assumes "lookup_session env mysql token a = (r, a')"
  shows "db_users (au_db a') = db_users (au_db a)"
  using assms
  by (auto simp: lookup_session_def split: option.splits prod.splits if_splits bool.splits dest!: stored_lookup_users dest: refresh_users)

text \<open>The user of a request, as the middleware finds it.\<close>

definition session_user :: "site_env \<Rightarrow> bool \<Rightarrow> http_request \<Rightarrow> site \<Rightarrow> string option" where
  "session_user env mysql rq s =
     (if requires_auth rq \<and> bearer_token rq \<noteq> [] then fst (lookup_session (se_auth env) mysql (bearer_token rq) (auth_of s)) else None)"

text \<open>Requests that change accounts, sessions and logs, but not the drive.\<close>

definition auth_only :: "site \<Rightarrow> site \<Rightarrow> bool" where
  "auth_only s s' \<longleftrightarrow> (\<exists>A. asked ((si_db s)\<lparr>dv_auth := A\<rparr>) (si_db s')) \<and> si_disk s' = si_disk s"

lemma auth_only_refl: "auth_only s s"
  unfolding auth_only_def by (intro conjI exI[of _ "dv_auth (si_db s)"]) simp_all

lemma auth_only_asked: "auth_only s s1 \<Longrightarrow> only_asked s1 s' \<Longrightarrow> auth_only s s'"
  unfolding auth_only_def only_asked_def using asked_trans by metis

lemma asked_auth: "asked db db' \<Longrightarrow> asked (db\<lparr>dv_auth := A\<rparr>) (db'\<lparr>dv_auth := A\<rparr>)"
proof -
  assume "asked db db'"
  then obtain n e where "db' = db\<lparr>dv_calls := n, dv_errno := e\<rparr>" by (auto simp: asked_def)
  then have "db'\<lparr>dv_auth := A\<rparr> = db\<lparr>dv_auth := A\<rparr>\<lparr>dv_calls := n, dv_errno := e\<rparr>" by simp
  then show ?thesis by simp
qed

lemma auth_only_on_auth: "auth_only s s1 \<Longrightarrow> on_auth f s1 = (r, s') \<Longrightarrow> auth_only s s'"
  by (force simp: auth_only_def on_auth_def split: prod.splits dest: asked_auth)

lemma auth_only_rate: "rate_check env action name ip s = (d, s') \<Longrightarrow> auth_only s s'"
  using auth_only_refl by (auto simp: auth_only_def rate_check_def split: prod.splits)

lemma auth_handlers:
  "auth_only s (snd (snd (auth_login env mysql rq ctx rs api s)))"
  "auth_only s (snd (auth_register env mysql rq ctx rs api s))"
  "auth_only s (snd (auth_logout env mysql rq ctx rs s))"
  unfolding auth_login_def auth_register_def auth_logout_def Let_def
  by (auto split: prod.splits if_splits bool.splits intro: auth_only_refl intro!: auth_only_asked[OF _ log_asked]
      intro: auth_only_on_auth[OF auth_only_rate] auth_only_on_auth[OF auth_only_refl] auth_only_rate)

subsection \<open>Every request\<close>

definition route_ok :: "site_env \<Rightarrow> bool \<Rightarrow> string \<Rightarrow> string option \<Rightarrow> site \<Rightarrow> 'r \<times> site \<Rightarrow> bool" where
  "route_ok env mysql root user s x \<longleftrightarrow> auth_only s (snd x) \<or> one_call env mysql root user s (snd x)"

lemma asked_auth_only: "only_asked s s' \<Longrightarrow> auth_only s s'"
  by (rule auth_only_asked[OF auth_only_refl])

lemma plain_snd [simp]: "snd (plain rq ctx x) = snd x"
  by (simp add: plain_def split: prod.splits)

lemma route_ok_plain: "route_ok env mysql root user s x \<Longrightarrow> route_ok env mysql root user s (plain rq ctx x)"
  by (simp add: route_ok_def)

lemma route_ok_if:
  "(b \<Longrightarrow> route_ok env mysql root user s x) \<Longrightarrow> (\<not> b \<Longrightarrow> route_ok env mysql root user s y)
    \<Longrightarrow> route_ok env mysql root user s (if b then x else y)"
  by simp

lemma route_ok_effect: "has_effect env mysql root user s x \<Longrightarrow> route_ok env mysql root user s x"
  using asked_auth_only by (auto simp: has_effect_def route_ok_def drive_effect_def)

lemma route_ok_auth: "auth_only s (snd x) \<Longrightarrow> route_ok env mysql root user s x"
  by (simp add: route_ok_def)

lemma route_ok_same: "route_ok env mysql root user s (r, s)" "route_ok env mysql root user s (not_implemented rq ctx rs s)"
  by (simp_all add: route_ok_def auth_only_refl not_implemented_def)

lemma operation_handlers:
  "only_asked s (snd (operation_list sql mysql ctx rs s))"
  "only_asked s (snd (operation_remove sql mysql ctx rs path s))"
  "only_asked s (snd (operation_clear sql mysql ctx rs s))"
  by (auto simp: operation_list_def operation_remove_def operation_clear_def fetch_recent_operations_def delete_operation_log_def
      delete_user_operation_logs_def log_query_def on_db_def query_def only_asked_def Let_def split: option.splits bool.splits prod.splits if_splits)

lemma drive_route:
  assumes "upload_ok (se_sha env) (ctx_doc_root ctx) rq (si_disk s)" and "\<And>c. se_sha env c \<noteq> []"
  shows "route_ok env mysql (ctx_doc_root ctx) (Some (current_user ctx)) s (handle_api_drive_request env mysql rq ctx rs s)"
  unfolding handle_api_drive_request_def handle_api_drive_folder_item_def handle_api_drive_file_item_def
  by (intro route_ok_if route_ok_same route_ok_plain session_handlers[OF refl, THEN route_ok_effect]
      upload_effect[OF assms refl, THEN route_ok_effect])

lemma guest_routes:
  "route_ok env mysql root user s (handle_api_public_file_item env mysql path rq ctx rs s)"
  "route_ok env mysql root user s (handle_api_share_item env mysql path rq ctx rs s)"
  unfolding handle_api_public_file_item_def handle_api_share_item_def
  by (intro route_ok_if route_ok_same route_ok_plain guest_handlers[THEN route_ok_effect])+

lemma login_route: "route_ok env mysql root user s (handle_login env mysql rq ctx rs s)"
  using auth_handlers(1)[of s env mysql rq ctx rs True] by (auto simp: handle_login_def route_ok_def split: prod.splits)

lemma route_effect:
  assumes "upload_ok (se_sha env) (ctx_doc_root ctx) rq (si_disk s)" and "\<And>c. se_sha env c \<noteq> []"
    and "requires_auth rq \<Longrightarrow> user = Some (current_user ctx)"
  shows "route_ok env mysql (ctx_doc_root ctx) user s (route_request env mysql rq ctx rs s)"
proof -
  have drive: "route_ok env mysql (ctx_doc_root ctx) user s (handle_api_drive_request env mysql rq ctx rs s)"
    if "path_under rq ''/api/drive/''"
    using that assms(3) drive_route[OF assms(1,2)] by (auto simp: requires_auth_def path_under_def)
  show ?thesis
    unfolding route_request_def handle_api_request_def
    by (intro route_ok_if route_ok_same route_ok_plain login_route guest_routes drive guest_handlers[THEN route_ok_effect]
        auth_handlers(2,3)[THEN route_ok_auth] operation_handlers[THEN asked_auth_only, THEN route_ok_auth]; assumption)
qed

text \<open>The middlewares.\<close>

definition with_auth :: "auth_db \<Rightarrow> site \<Rightarrow> site \<Rightarrow> bool" where
  "with_auth A s s' \<longleftrightarrow> db_users A = db_users (dv_auth (si_db s)) \<and> si_db s' = (si_db s)\<lparr>dv_auth := A\<rparr> \<and> si_disk s' = si_disk s"

lemma with_auth_only: "with_auth A s s' \<Longrightarrow> auth_only s s'"
  unfolding with_auth_def auth_only_def by (intro conjI exI[of _ A]) simp_all

lemma with_auth_refl: "si_db s' = si_db s \<Longrightarrow> si_disk s' = si_disk s \<Longrightarrow> with_auth (dv_auth (si_db s)) s s'"
  by (simp add: with_auth_def)

lemma auth_only_step: "with_auth A s s1 \<Longrightarrow> auth_only s1 s' \<Longrightarrow> auth_only s s'"
  by (auto simp: with_auth_def auth_only_def)

lemma before_passes:
  assumes "run_before_middlewares env mysql rq ctx rs s = ((NO_REQUEST, rq1, ctx1, rs1), s1)"
  shows "rq1 = rq" "rs1 = rs" "ctx_doc_root ctx1 = ctx_doc_root ctx" "\<exists>A. with_auth A s s1"
    "requires_auth rq \<Longrightarrow> session_user env mysql rq s = Some (current_user ctx1)"
    "\<not> requires_auth rq \<Longrightarrow> ctx1 = ctx"
  using assms lookup_users[of "se_auth env" mysql "bearer_token rq" "auth_of s"]
  by (auto simp: run_before_middlewares_def middleware_auth_def middleware_request_log_def on_auth_def auth_of_def session_user_def Let_def
      with_auth_def split: if_splits option.splits prod.splits)

lemma before_stops:
  assumes "run_before_middlewares env mysql rq ctx rs s = ((code, rq1, ctx1, rs1), s1)" "code \<noteq> NO_REQUEST"
  shows "code = MEMORY_REQUEST \<and> rs1 = set_body 401 ''Unauthorized'' (message_json 401 ''unauthorized'' []) ''application/json'' rs"
    "requires_auth rq" "session_user env mysql rq s = None" "rq1 = rq" "ctx1 = ctx" "auth_only s s1"
proof -
  let ?s = "middleware_request_log env rq s"
  have same: "si_db ?s = si_db s" "si_disk ?s = si_disk s" "auth_of ?s = auth_of s"
    by (simp_all add: middleware_request_log_def auth_of_def)
  obtain user s2 where u: "(if bearer_token rq = [] then (None, ?s) else on_auth (lookup_session (se_auth env) mysql (bearer_token rq)) ?s) = (user, s2)"
    by (metis surj_pair)
  have auth: "auth_only s s2"
    using u auth_only_on_auth[of s ?s] asked_auth_only[of s ?s] same by (auto simp: only_asked_def split: if_splits)
  have user: "session_user env mysql rq s = user" if "requires_auth rq"
    using u that same by (auto simp: session_user_def on_auth_def split: if_splits prod.splits)
  have run: "requires_auth rq \<and> user = None \<and> rq1 = rq \<and> ctx1 = ctx \<and> code = MEMORY_REQUEST
      \<and> rs1 = set_body 401 ''Unauthorized'' (message_json 401 ''unauthorized'' []) ''application/json'' rs
      \<and> s1 = (if mysql then write_operation_log env mysql ''anonymous'' ''auth_failed'' ''request'' 0 (rq_path rq) s2 else s2)"
    using assms by (auto simp: run_before_middlewares_def middleware_auth_def Let_def u split: if_splits option.splits)
  then show "code = MEMORY_REQUEST \<and> rs1 = set_body 401 ''Unauthorized'' (message_json 401 ''unauthorized'' []) ''application/json'' rs"
    "requires_auth rq" "session_user env mysql rq s = None" "rq1 = rq" "ctx1 = ctx" "auth_only s s1"
    using user auth auth_only_asked[OF auth log_asked] by auto
qed

lemma after_state [simp]: "snd (run_after_middlewares x) = snd x"
  by (simp add: run_after_middlewares_def split: prod.splits)

text \<open>A request changes accounts and logs, or it is one call of the drive for the user of its session.\<close>

lemma request_effect:
  assumes up: "upload_ok (se_sha env) (ctx_doc_root ctx) rq (si_disk s)" and sha: "\<And>c. se_sha env c \<noteq> []"
    and run: "handle_request env mysql rq ctx rs s = (r, s')"
  shows "auth_only s s' \<or> (\<exists>A s1. with_auth A s s1 \<and> one_call env mysql (ctx_doc_root ctx) (session_user env mysql rq s) s1 s')"
proof (cases "rq_method rq = OPTIONS")
  case True
  then show ?thesis using run by (auto simp: handle_request_def auth_only_refl)
next
  case False
  obtain code rq1 ctx1 rs1 s1 where before: "run_before_middlewares env mysql rq ctx rs s = ((code, rq1, ctx1, rs1), s1)"
    by (metis surj_pair)
  show ?thesis
  proof (cases "code = NO_REQUEST")
    case False
    then show ?thesis using run before before_stops(6)[OF before] \<open>rq_method rq \<noteq> OPTIONS\<close> by (auto simp: handle_request_def)
  next
    case True
    note p = before_passes[OF before[unfolded True]]
    obtain A where A: "with_auth A s s1" using p(4) by blast
    let ?x = "route_request env mysql rq ctx1 rs s1"
    have s': "s' = snd ?x" using run before True p(1,2) False by (auto simp: handle_request_def dest: arg_cong[of _ _ snd])
    have up1: "upload_ok (se_sha env) (ctx_doc_root ctx1) rq (si_disk s1)" using up p(3) A by (simp add: with_auth_def)
    have user: "session_user env mysql rq s = Some (current_user ctx1)" if "requires_auth rq" using p(5) that .
    show ?thesis
      using route_effect[OF up1 sha user, of mysql rs] auth_only_step[OF A] A p(3) s' by (auto simp: route_ok_def)
  qed
qed

end
