(* ===== verification/Site_Safety.thy ===== *)
theory Site_Safety
  imports Site
begin

text \<open>
  What holds of the server as a whole: every run of requests is a run of the drive, users are kept
  apart, files are only served to whom they are meant for, and every request under \<open>/api/\<close> gets an answer.
\<close>

subsection \<open>Runs of the server\<close>

definition fresh_site :: "auth_db \<Rightarrow> disk \<Rightarrow> site" where
  "fresh_site A d = \<lparr>si_db = fresh_drive A, si_logs = [], si_next_log = 1, si_users = [], si_sessions = (\<lambda>_. None), si_limits = [],
     si_lines = [], si_disk = d\<rparr>"

text \<open>
  Any requests, with any answers of the operating system and the servers around. Between requests,
  files outside the store come and go: the temporary files of uploads.
\<close>

inductive site_reachable :: "drive_env \<Rightarrow> (string \<Rightarrow> string) \<Rightarrow> string \<Rightarrow> site \<Rightarrow> bool"
  for sql sha root where
  start: "disk_ok d \<Longrightarrow> site_reachable sql sha root (fresh_site A d)"
| request: "site_reachable sql sha root s \<Longrightarrow> se_sql env = sql \<Longrightarrow> se_sha env = sha \<Longrightarrow> ctx_doc_root ctx = root
    \<Longrightarrow> os_ok (se_disk env) root (si_disk s) \<Longrightarrow> upload_ok sha root rq (si_disk s)
    \<Longrightarrow> site_reachable sql sha root (snd (handle_request env mysql rq ctx rs s))"
| others: "site_reachable sql sha root s \<Longrightarrow> disk_ok d \<Longrightarrow> (\<And>q. in_store root q \<Longrightarrow> d_files d q = d_files (si_disk s) q)
    \<Longrightarrow> site_reachable sql sha root (s\<lparr>si_disk := d\<rparr>)"

lemma auth_only_reachable:
  assumes "drive_reachable sql sha root (si_db s, si_disk s)" "auth_only s s'"
  shows "drive_reachable sql sha root (si_db s', si_disk s')"
proof -
  obtain A n e where "si_db s' = (si_db s)\<lparr>dv_auth := A\<rparr>\<lparr>dv_calls := n, dv_errno := e\<rparr>" "si_disk s' = si_disk s"
    using assms(2) by (auto simp: auth_only_def asked_def)
  then show ?thesis using drive_reachable.asked[OF drive_reachable.users[OF assms(1)]] by simp
qed

lemma one_call_reachable:
  assumes "drive_reachable sql sha root (si_db s, si_disk s)" "one_call env mysql root user s s'"
    and "se_sql env = sql" "se_sha env = sha" "os_ok (se_disk env) root (si_disk s)"
  shows "drive_reachable sql sha root (si_db s', si_disk s')"
proof -
  obtain c db n e where "call_ok sha root c (si_disk s)"
      "drive_step sql (se_disk env) sha mysql root c (si_db s, si_disk s) = (db, si_disk s')"
      "si_db s' = db\<lparr>dv_calls := n, dv_errno := e\<rparr>"
    using assms(2-4) by (auto simp: one_call_def asked_def)
  then show ?thesis using drive_reachable.asked[where db = db and n = n and e = e and d = "si_disk s'" and env = sql and sha = sha and root = root] drive_reachable.call[OF assms(1) _ assms(5), of c mysql] by simp
qed

lemma reachable_drive:
  assumes "site_reachable sql sha root s" and sha: "\<And>c. sha c \<noteq> []"
  shows "drive_reachable sql sha root (si_db s, si_disk s)"
  using assms(1)
proof (induction rule: site_reachable.induct)
  case (start d A)
  then show ?case by (simp add: fresh_site_def drive_reachable.start)
next
  case (request s env ctx rq mysql rs)
  obtain r s' where run: "handle_request env mysql rq ctx rs s = (r, s')" by (rule prod.exhaust)
  have up: "upload_ok (se_sha env) (ctx_doc_root ctx) rq (si_disk s)" using request by simp
  have sha': "se_sha env c \<noteq> []" for c using request sha by simp
  have "drive_reachable sql sha root (si_db s', si_disk s')"
    using request_effect[OF up sha' run]
  proof
    assume "auth_only s s'"
    then show ?thesis by (rule auth_only_reachable[OF request.IH])
  next
    assume "\<exists>A s1. with_auth A s s1 \<and> one_call env mysql (ctx_doc_root ctx) (session_user env mysql rq s) s1 s'"
    then obtain A s1 where A: "with_auth A s s1" and c: "one_call env mysql root (session_user env mysql rq s) s1 s'"
      using request.hyps by auto
    have "os_ok (se_disk env) root (si_disk s1)" using request.hyps A by (simp add: with_auth_def)
    then show ?thesis
      by (rule one_call_reachable[OF auth_only_reachable[OF request.IH with_auth_only[OF A]] c request.hyps(2,3)])
  qed
  then show ?case using run by simp
next
  case (others s d)
  then show ?case using drive_reachable.others[of sql sha root "si_db s" "si_disk s" d] by simp
qed


subsection \<open>Users are kept apart\<close>

lemma foreign_same_users:
  "db_users A = db_users B \<Longrightarrow> foreign_files env owner A t = foreign_files env owner B t \<and> foreign_folders env owner A t = foreign_folders env owner B t"
  by (simp add: foreign_files_def foreign_folders_def mine_def user_of_id_cong[of A B])

text \<open>
  Property C5. Requests are isolated: a request changes no file and no folder of a user other than the
  one its session belongs to, and a request without a session changes no file and no folder at
  all, whatever its method, path, parameters and body are.
\<close>

theorem requests_isolated:
  assumes "site_reachable (se_sql env) (se_sha env) (ctx_doc_root ctx) s" and "\<And>c. se_sha env c \<noteq> []" and "collation_ok (se_sql env)"
    and "distinct_users (dv_auth (si_db s))" and "upload_ok (se_sha env) (ctx_doc_root ctx) rq (si_disk s)"
    and "session_user env mysql rq s \<in> {None, Some owner}" and "handle_request env mysql rq ctx rs s = (r, s')"
  shows "foreign_files (se_sql env) owner (dv_auth (si_db s)) (dv_tables (si_db s'))
      = foreign_files (se_sql env) owner (dv_auth (si_db s)) (dv_tables (si_db s))
    \<and> foreign_folders (se_sql env) owner (dv_auth (si_db s)) (dv_tables (si_db s'))
      = foreign_folders (se_sql env) owner (dv_auth (si_db s)) (dv_tables (si_db s))"
  using request_effect[OF assms(5,2,7)]
proof
  assume "auth_only s s'"
  then have "dv_tables (si_db s') = dv_tables (si_db s)" by (auto simp: auth_only_def asked_def)
  then show ?thesis by simp
next
  assume "\<exists>A s1. with_auth A s s1 \<and> one_call env mysql (ctx_doc_root ctx) (session_user env mysql rq s) s1 s'"
  then obtain A s1 c db where A: "with_auth A s s1" and c: "call_user c \<in> {None, Some owner}"
    and step: "drive_step (se_sql env) (se_disk env) (se_sha env) mysql (ctx_doc_root ctx) c (si_db s1, si_disk s1) = (db, si_disk s')"
    and db: "asked db (si_db s')"
    using assms(6) unfolding one_call_def by (metis insert_iff singletonD)
  have users: "db_users (dv_auth (si_db s1)) = db_users (dv_auth (si_db s))" and t: "dv_tables (si_db s1) = dv_tables (si_db s)"
    using A by (auto simp: with_auth_def)
  have reach: "drive_reachable (se_sql env) (se_sha env) (ctx_doc_root ctx) (si_db s1, si_disk s1)"
    by (rule auth_only_reachable[OF reachable_drive[OF assms(1,2)] with_auth_only[OF A]])
  have d: "distinct_users (dv_auth (si_db s1))" using assms(4) users by (simp add: distinct_users_def)
  have "dv_tables (si_db s') = dv_tables db" using db by (auto simp: asked_def)
  then show ?thesis
    using step_leaves_others[OF reach assms(3) d c step] foreign_same_users[OF users, of "se_sql env" owner] t by simp
qed

subsection \<open>Who gets a file\<close>

text \<open>The file a record describes, and who may read it.\<close>

definition may_read :: "site_env \<Rightarrow> http_request \<Rightarrow> string option \<Rightarrow> drive_db \<Rightarrow> file_row \<Rightarrow> bool" where
  "may_read env rq user db f \<longleftrightarrow> (user \<noteq> None \<and> username_of (fr_user f) db = user) \<or> fr_public f
     \<or> list_ex (\<lambda>sh. sh_file sh = fr_id f \<and> (sh_code sh = [] \<or> sha256_hex (se_sha env) (request_access_code rq) = sh_code sh))
         (t_shares (dv_tables db))"

definition serves :: "site_env \<Rightarrow> http_request \<Rightarrow> request_context \<Rightarrow> string option \<Rightarrow> site \<Rightarrow> http_response \<Rightarrow> site \<Rightarrow> bool" where
  "serves env rq ctx user s rs' s' \<longleftrightarrow> si_disk s' = si_disk s \<and>
     (\<exists>r f mysql i incl token x db'. f_path (rs_file rs') = build_file_disk_path (ctx_doc_root ctx) (mf_stored r)
        \<and> f \<in> set (t_files (dv_tables (si_db s))) \<and> fr_deleted f = None \<and> mf_sha r = fr_sha f \<and> may_read env rq user (si_db s) f
        \<and> (fetch_file_record (se_sql env) mysql i incl (si_db s) = (Some r, db')
           \<or> (fetch_file_share (se_sql env) mysql token (si_db s) = (Some x, db') \<and> r = sr_file x)))"

definition file_ok :: "(http_response \<Rightarrow> site \<Rightarrow> bool) \<Rightarrow> (http_code \<times> http_response) \<times> site \<Rightarrow> bool" where
  "file_ok P x \<longleftrightarrow> (fst (fst x) = FILE_REQUEST \<longrightarrow> P (snd (fst x)) (snd x))"

definition route_file_ok :: "(http_response \<Rightarrow> site \<Rightarrow> bool) \<Rightarrow> reply \<times> site \<Rightarrow> bool" where
  "route_file_ok P x \<longleftrightarrow> (fst (fst x) = FILE_REQUEST \<longrightarrow> P (snd (snd (snd (fst x)))) (snd x))"

lemma log_disk [simp]: "si_disk (write_operation_log env mysql u a t i d s) = si_disk s"
  using log_asked by (simp add: only_asked_def)

lemma on_db_result: "on_db f s = (r, s1) \<Longrightarrow> f (si_db s) = (r, si_db s1) \<and> si_disk s1 = si_disk s"
  by (auto simp: on_db_def split: prod.splits)

lemma fetched_row:
  assumes "fetch_file_record env mysql i False db = (Some r, db')"
  shows "\<exists>f \<in> set (t_files (dv_tables db)). fr_deleted f = None \<and> mf_sha r = fr_sha f \<and> mf_public r = fr_public f
    \<and> username_of (fr_user f) db = Some (mf_owner r)"
  using assms
  by (auto simp: fetch_file_record_def select_query_def query_def Let_def fill_file_record_from_row_def file_of_def username_of_def
      split: if_splits option.splits dest!: find_SomeD)

lemma shared_row:
  assumes "fetch_file_share env mysql token db = (Some x, db')" "validate_share_access_candidate sha x code = None"
  shows "\<exists>f \<in> set (t_files (dv_tables db)). fr_deleted f = None \<and> mf_sha (sr_file x) = fr_sha f
    \<and> list_ex (\<lambda>sh. sh_file sh = fr_id f \<and> (sh_code sh = [] \<or> sha256_hex sha code = sh_code sh)) (t_shares (dv_tables db))"
proof -
  obtain sh f where sh: "sh \<in> set (t_shares (dv_tables db))" and f: "f \<in> set (t_files (dv_tables db))" "fr_id f = sh_file sh"
    and x: "sr_code x = sh_code sh" "mf_sha (sr_file x) = fr_sha f" "mf_is_deleted (sr_file x) \<longleftrightarrow> fr_deleted f \<noteq> None"
    using assms(1) by (auto simp: fetch_file_share_def select_query_def query_def Let_def file_of_def
        split: if_splits option.splits dest!: find_SomeD)
  then have "fr_deleted f = None" "sh_code sh = [] \<or> sha256_hex sha code = sh_code sh"
    using assms(2) by (auto simp: validate_share_access_candidate_def access_code_hash_def split: if_splits)
  then show ?thesis using sh f x(2) by (intro bexI[of _ f]) (auto simp: list_ex_iff)
qed

lemma servesI:
  assumes "si_disk s' = si_disk s" "f \<in> set (t_files (dv_tables (si_db s)))" "fr_deleted f = None" "mf_sha r = fr_sha f"
    "may_read env rq user (si_db s) f"
    "fetch_file_record (se_sql env) mysql i incl (si_db s) = (Some r, db')
     \<or> (fetch_file_share (se_sql env) mysql token (si_db s) = (Some x, db') \<and> r = sr_file x)"
  shows "serves env rq ctx user s (snd (file_reply ctx r rs)) s'"
  unfolding serves_def file_reply_def set_file_def Let_def using assms
  by (intro conjI exI[of _ r] exI[of _ f] exI[of _ mysql] exI[of _ i] exI[of _ incl] exI[of _ token] exI[of _ x] exI[of _ db']) simp_all

lemma private_serves:
  assumes "user = Some (current_user ctx)"
  shows "file_ok (serves env rq ctx user s) (private_file_download env mysql ctx path rs s)"
proof -
  have "serves env rq ctx user s (snd (file_reply ctx r rs)) s'"
    if l: "on_db (load_owned_file_record (se_sql env) mysql (current_user ctx) i False) s = (Inr r, s1)" and d: "si_disk s' = si_disk s1" for i r s1 s'
  proof -
    obtain db1 where fetch: "fetch_file_record (se_sql env) mysql i False (si_db s) = (Some r, db1)" and own: "mf_owner r = current_user ctx"
      using on_db_result[OF l] by (auto simp: load_owned_file_record_def split: prod.splits option.splits if_splits)
    obtain f where "f \<in> set (t_files (dv_tables (si_db s)))" "fr_deleted f = None" "mf_sha r = fr_sha f" "username_of (fr_user f) (si_db s) = Some (mf_owner r)"
      using fetched_row[OF fetch] by blast
    then show ?thesis using assms own d on_db_result[OF l] fetch by (intro servesI[of s' s f]) (auto simp: may_read_def)
  qed
  then show ?thesis
    by (auto simp: private_file_download_def require_user_session_def file_ok_def respond_json_error_def respond_service_error_def
        split: option.splits prod.splits sum.splits)
qed

lemma public_serves: "file_ok (serves env rq ctx user s) (public_file_download env mysql ctx path rs s)"
proof -
  have "serves env rq ctx user s (snd (file_reply ctx r rs)) s'"
    if l: "on_db (load_public_file_record (se_sql env) mysql i) s = (Inr r, s1)" and d: "si_disk s' = si_disk s1" for i r s1 s'
  proof -
    obtain db1 where fetch: "fetch_file_record (se_sql env) mysql i False (si_db s) = (Some r, db1)" and pub: "mf_public r"
      using on_db_result[OF l] by (auto simp: load_public_file_record_def split: prod.splits option.splits if_splits)
    obtain f where "f \<in> set (t_files (dv_tables (si_db s)))" "fr_deleted f = None" "mf_sha r = fr_sha f" "mf_public r = fr_public f"
      using fetched_row[OF fetch] by blast
    then show ?thesis using pub d on_db_result[OF l] fetch by (intro servesI[of s' s f]) (auto simp: may_read_def)
  qed
  then show ?thesis
    by (auto simp: public_file_download_def file_ok_def respond_json_error_def respond_service_error_def
        split: option.splits prod.splits sum.splits)
qed

lemma share_serves: "file_ok (serves env rq ctx user s) (share_download env mysql rq ctx path rs s)"
proof -
  have "serves env rq ctx user s (snd (file_reply ctx r rs)) s'"
    if l: "on_db (load_share_download (se_sql env) (se_sha env) mysql token (request_access_code rq)) s = (Inr (r, y), s1)"
      and d: "si_disk s' = si_disk s1" for token r y s1 s'
  proof -
    obtain x db1 where fetch: "fetch_file_share (se_sql env) mysql token (si_db s) = (Some x, db1)" and r: "r = sr_file x"
      and ok: "validate_share_access_candidate (se_sha env) x (request_access_code rq) = None"
      using on_db_result[OF l] by (auto simp: load_share_download_def Let_def split: prod.splits option.splits bool.splits)
    obtain f where "f \<in> set (t_files (dv_tables (si_db s)))" "fr_deleted f = None" "mf_sha r = fr_sha f"
      "list_ex (\<lambda>sh. sh_file sh = fr_id f \<and> (sh_code sh = [] \<or> sha256_hex (se_sha env) (request_access_code rq) = sh_code sh)) (t_shares (dv_tables (si_db s)))"
      using shared_row[OF fetch ok] r by blast
    then show ?thesis using d on_db_result[OF l] fetch r by (intro servesI[of s' s f]) (auto simp: may_read_def)
  qed
  then show ?thesis
    by (auto simp: share_download_def file_ok_def respond_json_error_def respond_service_error_def
        split: option.splits prod.splits sum.splits)
qed

text \<open>No other handler answers with a file.\<close>

lemmas answer_defs = json_ok_def respond_json_error_def respond_service_error_def require_user_session_def missing_reply_def
  write_rate_limited_response_def route_healthz_def route_echo_def auth_ping_def preflight_quota_def

lemma no_file_session:
  "file_ok P (drive_item_list env mysql rq ctx rs s)"
  "file_ok P (trash_item_list env mysql ctx rs s)"
  "file_ok P (controller_empty_trash env mysql ctx rs s)"
  "file_ok P (drive_folder_create env mysql rq ctx rs s)"
  "file_ok P (drive_folder_delete env mysql ctx path rs s)"
  "file_ok P (controller_remove env mysql ctx path rs s)"
  "file_ok P (controller_restore env mysql ctx path rs s)"
  "file_ok P (remove_permanently env mysql ctx path rs s)"
  "file_ok P (update_visibility env mysql rq ctx path rs s)"
  "file_ok P (share_create env mysql rq ctx path rs s)"
  "file_ok P (upload_preflight env mysql rq ctx rs s)"
  unfolding drive_item_list_def trash_item_list_def controller_empty_trash_def drive_folder_create_def drive_folder_delete_def
    controller_remove_def controller_restore_def remove_permanently_def update_visibility_def share_create_def upload_preflight_def
  by (auto simp: file_ok_def answer_defs Let_def split: prod.splits option.splits sum.splits bool.splits if_splits)

lemma no_file_guest:
  "file_ok P (public_file_list env mysql rq rs s)"
  "file_ok P (public_file_detail env mysql ctx path rs s)"
  "file_ok P (share_detail env mysql rq path rs s)"
  "file_ok P (auth_register env mysql rq ctx rs True s)"
  "file_ok P (auth_logout env mysql rq ctx rs s)"
  "file_ok P (operation_list sql mysql ctx rs s)"
  "file_ok P (operation_remove sql mysql ctx rs path s)"
  "file_ok P (operation_clear sql mysql ctx rs s)"
  "file_ok P (route_healthz rs, s)" "file_ok P (route_echo rq rs, s)" "file_ok P (auth_ping ctx rs, s)"
  unfolding public_file_list_def public_file_detail_def share_detail_def auth_register_def auth_logout_def operation_list_def
    operation_remove_def operation_clear_def
  by (auto simp: file_ok_def answer_defs Let_def split: prod.splits option.splits sum.splits bool.splits if_splits)

lemma route_file_rules:
  "file_ok P x \<Longrightarrow> route_file_ok P (plain rq ctx x)"
  "(b \<Longrightarrow> route_file_ok P y) \<Longrightarrow> (\<not> b \<Longrightarrow> route_file_ok P z) \<Longrightarrow> route_file_ok P (if b then y else z)"
  "route_file_ok P (not_implemented rq ctx rs s)"
  "code \<noteq> FILE_REQUEST \<Longrightarrow> route_file_ok P ((code, rq, ctx, rs), s)"
  by (auto simp: file_ok_def route_file_ok_def plain_def not_implemented_def split: prod.splits)

lemma no_file_upload: "route_file_ok P (upload env mysql rq ctx rs s)"
  by (auto simp: upload_def route_file_ok_def answer_defs Let_def split: prod.splits option.splits sum.splits if_splits)

lemma no_file_login: "route_file_ok P (handle_login env mysql rq ctx rs s)"
  by (auto simp: handle_login_def auth_login_def route_file_ok_def answer_defs Let_def split: prod.splits option.splits sum.splits if_splits)

lemma route_serves:
  assumes "requires_auth rq \<Longrightarrow> user = Some (current_user ctx)"
  shows "route_file_ok (serves env rq ctx user s) (route_request env mysql rq ctx rs s)"
proof -
  have drive: "route_file_ok (serves env rq ctx user s) (handle_api_drive_request env mysql rq ctx rs s)" if "path_under rq ''/api/drive/''"
  proof -
    have u: "user = Some (current_user ctx)" using that assms by (auto simp: requires_auth_def path_under_def)
    show ?thesis
      unfolding handle_api_drive_request_def handle_api_drive_folder_item_def handle_api_drive_file_item_def
      by (intro route_file_rules no_file_session no_file_upload private_serves u)
  qed
  show ?thesis
    unfolding route_request_def handle_api_request_def handle_api_public_file_item_def handle_api_share_item_def
    by (intro route_file_rules no_file_guest no_file_login drive public_serves share_serves; (assumption | simp)?)
qed

text \<open>The reply of the router, when it is a file.\<close>

lemma request_serves:
  assumes "handle_request env mysql rq ctx rs s = ((FILE_REQUEST, rq', ctx', rs'), s')"
  shows "\<exists>A ctx1 s1. with_auth A s s1 \<and> ctx_doc_root ctx1 = ctx_doc_root ctx \<and> serves env rq ctx1 (session_user env mysql rq s) s1 rs' s'"
proof -
  obtain code rq1 ctx1 rs1 s1 where before: "run_before_middlewares env mysql rq ctx rs s = ((code, rq1, ctx1, rs1), s1)"
    by (metis surj_pair)
  have code: "code = NO_REQUEST"
    using assms before before_stops(1)[OF before] by (auto simp: handle_request_def split: if_splits)
  note p = before_passes[OF before[unfolded code]]
  obtain A where A: "with_auth A s s1" using p(4) by blast
  have "route_request env mysql rq ctx1 rs s1 = ((FILE_REQUEST, rq', ctx', rs'), s')"
    using assms before code p(1,2)
    by (auto simp: handle_request_def run_after_middlewares_def api_error_response_def split: if_splits prod.splits)
  moreover have "session_user env mysql rq s = Some (current_user ctx1)" if "requires_auth rq" using p(5) that .
  ultimately have "serves env rq ctx1 (session_user env mysql rq s) s1 rs' s'"
    using route_serves[of rq "session_user env mysql rq s" ctx1 env s1 mysql rs] by (simp add: route_file_ok_def)
  then show ?thesis using A p(3) by blast
qed

lemma may_read_auth:
  "with_auth A s s1 \<Longrightarrow> may_read env rq user (si_db s1) f = may_read env rq user (si_db s) f"
  by (auto simp: with_auth_def may_read_def username_of_def user_of_id_def)

lemma file_reply_authorised:
  assumes "site_reachable (se_sql env) (se_sha env) (ctx_doc_root ctx) s" and "\<And>c. se_sha env c \<noteq> []" and "collation_ok (se_sql env)"
    and "handle_request env mysql rq ctx rs s = ((FILE_REQUEST, rq', ctx', rs'), s')"
  shows "\<exists>f c. f \<in> set (t_files (dv_tables (si_db s))) \<and> fr_deleted f = None
    \<and> may_read env rq (session_user env mysql rq s) (si_db s) f
    \<and> d_files (si_disk s') (f_path (rs_file rs')) = Some c \<and> sha256_hex (se_sha env) c = fr_sha f"
proof -
  obtain A ctx1 s1 where A: "with_auth A s s1" and root: "ctx_doc_root ctx1 = ctx_doc_root ctx"
    and sv: "serves env rq ctx1 (session_user env mysql rq s) s1 rs' s'" using request_serves[OF assms(4)] by blast
  obtain r f my i incl token x db' where disk: "si_disk s' = si_disk s1"
    and path: "f_path (rs_file rs') = build_file_disk_path (ctx_doc_root ctx) (mf_stored r)"
    and f: "f \<in> set (t_files (dv_tables (si_db s1)))" "fr_deleted f = None" "mf_sha r = fr_sha f" "may_read env rq (session_user env mysql rq s) (si_db s1) f"
    and fetch: "fetch_file_record (se_sql env) my i incl (si_db s1) = (Some r, db')
      \<or> (fetch_file_share (se_sql env) my token (si_db s1) = (Some x, db') \<and> r = sr_file x)"
    using sv root unfolding serves_def by metis
  have reach: "drive_reachable (se_sql env) (se_sha env) (ctx_doc_root ctx) (si_db s1, si_disk s1)"
    by (rule auth_only_reachable[OF reachable_drive[OF assms(1,2)] with_auth_only[OF A]])
  obtain K where k: "steady (se_sql env) (dv_auth (si_db s1)) None K (si_db s1)" "contents_ok (se_sha env) (ctx_doc_root ctx) K (si_disk s1)"
    using drive_reachable_inv[OF reach assms(3)] by (auto simp: drive_inv_def)
  obtain c where "d_files (si_disk s1) (build_file_disk_path (ctx_doc_root ctx) (mf_stored r)) = Some c" "sha256_hex (se_sha env) c = mf_sha r"
    using fetch record_key[OF k(1)] share_key[OF k(1)] key_content[OF k(2)] by blast
  moreover have "f \<in> set (t_files (dv_tables (si_db s)))" using f(1) A by (simp add: with_auth_def)
  ultimately show ?thesis using f path disk may_read_auth[OF A] by auto
qed


subsection \<open>Requests without a session\<close>


subsection \<open>Answers under /api/\<close>

definition answers_json :: "(http_code \<times> http_response) \<times> site \<Rightarrow> bool" where
  "answers_json x \<longleftrightarrow> (fst (fst x) = MEMORY_REQUEST \<longrightarrow> rs_content_type (snd (fst x)) = ''application/json'')"

definition route_answers :: "http_request \<Rightarrow> reply \<times> site \<Rightarrow> bool" where
  "route_answers rq x \<longleftrightarrow> (case x of ((code, rq1, ctx, rs), s) \<Rightarrow> rq_path rq1 = rq_path rq
     \<and> (code = MEMORY_REQUEST \<longrightarrow> rs_content_type rs = ''application/json''))"

lemmas reply_defs = answer_defs set_body_def set_json_error_def file_reply_def

lemma session_answers:
  "answers_json (drive_item_list env mysql rq ctx rs s)"
  "answers_json (trash_item_list env mysql ctx rs s)"
  "answers_json (controller_empty_trash env mysql ctx rs s)"
  "answers_json (drive_folder_create env mysql rq ctx rs s)"
  "answers_json (drive_folder_delete env mysql ctx path rs s)"
  "answers_json (private_file_download env mysql ctx path rs s)"
  "answers_json (controller_remove env mysql ctx path rs s)"
  "answers_json (controller_restore env mysql ctx path rs s)"
  "answers_json (remove_permanently env mysql ctx path rs s)"
  "answers_json (update_visibility env mysql rq ctx path rs s)"
  "answers_json (share_create env mysql rq ctx path rs s)"
  "answers_json (upload_preflight env mysql rq ctx rs s)"
  unfolding drive_item_list_def trash_item_list_def controller_empty_trash_def drive_folder_create_def drive_folder_delete_def
    private_file_download_def controller_remove_def controller_restore_def remove_permanently_def update_visibility_def share_create_def
    upload_preflight_def
  by (auto simp: answers_json_def reply_defs Let_def split: prod.splits option.splits sum.splits bool.splits if_splits)

lemma guest_answers:
  "answers_json (public_file_list env mysql rq rs s)"
  "answers_json (public_file_detail env mysql ctx path rs s)"
  "answers_json (public_file_download env mysql ctx path rs s)"
  "answers_json (share_detail env mysql rq path rs s)"
  "answers_json (share_download env mysql rq ctx path rs s)"
  "answers_json (auth_register env mysql rq ctx rs True s)"
  "answers_json (auth_logout env mysql rq ctx rs s)"
  "answers_json (operation_list sql mysql ctx rs s)"
  "answers_json (operation_remove sql mysql ctx rs path s)"
  "answers_json (operation_clear sql mysql ctx rs s)"
  "answers_json (route_healthz rs, s)" "answers_json (route_echo rq rs, s)" "answers_json (auth_ping ctx rs, s)"
  unfolding public_file_list_def public_file_detail_def public_file_download_def share_detail_def share_download_def auth_register_def
    auth_logout_def operation_list_def operation_remove_def operation_clear_def
  by (auto simp: answers_json_def reply_defs Let_def split: prod.splits option.splits sum.splits bool.splits if_splits)

lemma route_answer_rules:
  "answers_json x \<Longrightarrow> route_answers rq (plain rq ctx x)"
  "(b \<Longrightarrow> route_answers rq y) \<Longrightarrow> (\<not> b \<Longrightarrow> route_answers rq z) \<Longrightarrow> route_answers rq (if b then y else z)"
  "route_answers rq (not_implemented rq ctx rs s)"
  "route_answers rq ((code, rq, ctx, set_body status title body ''application/json'' rs), s)"
  by (auto simp: answers_json_def route_answers_def plain_def not_implemented_def set_body_def split: prod.splits)

lemma upload_answers: "route_answers rq (upload env mysql rq ctx rs s)"
  by (auto simp: upload_def route_answers_def reply_defs release_temp_upload_def Let_def split: prod.splits option.splits sum.splits if_splits)

lemma login_answers: "route_answers rq (handle_login env mysql rq ctx rs s)"
  by (auto simp: handle_login_def auth_login_def route_answers_def reply_defs Let_def split: prod.splits option.splits sum.splits if_splits)

lemma routes_answer: "route_answers rq (route_request env mysql rq ctx rs s)"
  unfolding route_request_def handle_api_request_def handle_api_public_file_item_def handle_api_share_item_def
    handle_api_drive_request_def handle_api_drive_folder_item_def handle_api_drive_file_item_def
  by (intro route_answer_rules session_answers guest_answers upload_answers login_answers)


subsection \<open>A session with the server\<close>

text \<open>Alice has a session and uploads a file; the witnesses start from here.\<close>

definition demo_call :: "http_method \<Rightarrow> string \<Rightarrow> smap \<Rightarrow> string \<Rightarrow> site \<Rightarrow> reply \<times> site" where
  "demo_call m path form token = handle_request demo_site_env True (demo_request m path form token) demo_context empty_response"

definition alice_session :: auth_db where
  "alice_session = \<lparr>db_users = [\<lparr>u_id = 1, u_name = ''alice'', u_hash = [], u_disabled = False, u_last_login = None\<rparr>],
     db_sessions = [\<lparr>s_token = demo_token, s_user_id = 1, s_expires = 600000\<rparr>], db_errno = 0, db_next_id = 2\<rparr>"

definition alice_uploaded :: site where
  "alice_uploaded = snd (demo_call POST ''/api/drive/files/upload'' [(''content'', ''hi''), (''filename'', ''a.txt'')] demo_token
     (fresh_site alice_session blank_disk))"

lemma alice_uploaded_reachable: "site_reachable calm_env (\<lambda>c. CHR ''d'' # c) ''/r'' alice_uploaded"
proof -
  have "site_reachable calm_env (\<lambda>c. CHR ''d'' # c) ''/r'' (fresh_site alice_session blank_disk)"
    by (rule site_reachable.start) (simp add: disk_ok_def blank_disk_def)
  then show ?thesis unfolding alice_uploaded_def demo_call_def
    by (rule site_reachable.request)
      (auto simp: demo_site_env_def demo_context_def os_ok_def upload_ok_def demo_request_def has_file_def empty_request_def no_upload_def
        fresh_site_def blank_disk_def)
qed

lemma alice_state:
  "map (\<lambda>u. (u_id u, u_name u)) (db_users (dv_auth (si_db alice_uploaded))) = [(1, ''alice'')]"
  "map fr_user (t_files (dv_tables (si_db alice_uploaded))) = [1]"
  "fst (fst (demo_call GET ''/api/drive/files/1/download'' [] demo_token alice_uploaded)) = FILE_REQUEST"
  by code_simp+


lemmas demo_env_sel = demo_site_env_def[THEN arg_cong[of _ _ se_sql], simplified] demo_site_env_def[THEN arg_cong[of _ _ se_sha], simplified]

text \<open>A request without a token leaves all files and folders alone.\<close>

theorem requests_isolated_witness:
  "foreign_files calm_env ''bob'' (dv_auth (si_db alice_uploaded)) (dv_tables (si_db (snd (demo_call DELETE ''/api/drive/files/1'' [] [] alice_uploaded))))
     = t_files (dv_tables (si_db alice_uploaded))"
proof -
  let ?rq = "demo_request DELETE ''/api/drive/files/1'' [] []"
  let ?x = "handle_request demo_site_env True ?rq demo_context empty_response alice_uploaded"
  have r: "site_reachable (se_sql demo_site_env) (se_sha demo_site_env) (ctx_doc_root demo_context) alice_uploaded"
    using alice_uploaded_reachable by (simp add: demo_env_sel demo_context_def)
  have "bearer_token ?rq = []" by code_simp
  then have u: "session_user demo_site_env True ?rq alice_uploaded = None" by (simp add: session_user_def)
  obtain row where users: "db_users (dv_auth (si_db alice_uploaded)) = [row]" "u_id row = 1" "u_name row = ''alice''"
    using alice_state(1) by auto
  then have d: "distinct_users (dv_auth (si_db alice_uploaded))" by (simp add: distinct_users_def)
  obtain g where "t_files (dv_tables (si_db alice_uploaded)) = [g]" "fr_user g = 1" using alice_state(2) by auto
  then have f: "foreign_files calm_env ''bob'' (dv_auth (si_db alice_uploaded)) (dv_tables (si_db alice_uploaded)) = t_files (dv_tables (si_db alice_uploaded))"
    using users by (simp add: foreign_files_def mine_def user_of_id_def calm_env_def)
  have up: "upload_ok (se_sha demo_site_env) (ctx_doc_root demo_context) ?rq (si_disk alice_uploaded)"
    by (simp add: upload_ok_def demo_request_def has_file_def empty_request_def no_upload_def)
  have "?x = (fst ?x, snd ?x)" by simp
  from requests_isolated[OF r _ _ d up _ this, of "''bob''"] show ?thesis
    using calm_collation u f by (simp add: demo_env_sel demo_call_def)
qed




end
