(* ===== verification/Wire.thy ===== *)
theory Wire
  imports Site_Safety Conn_Runtime
begin

text \<open>
  The connection and the application together: \<open>do_request\<close> of a connection
  (\<open>http/core/connection.cpp\<close>) with the whole router of \<open>Site\<close> as its application, in a state of
  the application that its requests reach. The lemmas show that a reply carries a file exactly
  when the router answered with one, and that the file the connection has open is then the
  content of a stored file that the requester may read.
\<close>

subsection \<open>Only a file reply names a file\<close>

definition keeps_no_file :: "http_response \<Rightarrow> http_code \<times> http_response \<Rightarrow> bool" where
  "keeps_no_file rs x \<longleftrightarrow> (fst x \<noteq> FILE_REQUEST \<longrightarrow> f_enabled (rs_file (snd x)) \<longrightarrow> f_enabled (rs_file rs))"

definition route_keeps_no_file :: "http_response \<Rightarrow> reply \<times> site \<Rightarrow> bool" where
  "route_keeps_no_file rs x \<longleftrightarrow> (case x of ((code, rq1, ctx1, rs1), s1) \<Rightarrow> keeps_no_file rs (code, rs1))"

lemmas file_field_defs = reply_defs no_file_def

lemma session_no_file:
  "keeps_no_file rs (fst (drive_item_list env mysql rq ctx rs s))"
  "keeps_no_file rs (fst (trash_item_list env mysql ctx rs s))"
  "keeps_no_file rs (fst (controller_empty_trash env mysql ctx rs s))"
  "keeps_no_file rs (fst (drive_folder_create env mysql rq ctx rs s))"
  "keeps_no_file rs (fst (drive_folder_delete env mysql ctx path rs s))"
  "keeps_no_file rs (fst (private_file_download env mysql ctx path rs s))"
  "keeps_no_file rs (fst (controller_remove env mysql ctx path rs s))"
  "keeps_no_file rs (fst (controller_restore env mysql ctx path rs s))"
  "keeps_no_file rs (fst (remove_permanently env mysql ctx path rs s))"
  "keeps_no_file rs (fst (update_visibility env mysql rq ctx path rs s))"
  "keeps_no_file rs (fst (share_create env mysql rq ctx path rs s))"
  "keeps_no_file rs (fst (upload_preflight env mysql rq ctx rs s))"
  unfolding drive_item_list_def trash_item_list_def controller_empty_trash_def drive_folder_create_def drive_folder_delete_def
    private_file_download_def controller_remove_def controller_restore_def remove_permanently_def update_visibility_def share_create_def
    upload_preflight_def
  by (auto simp: keeps_no_file_def file_field_defs Let_def split: prod.splits option.splits sum.splits bool.splits if_splits)

lemma guest_no_file:
  "keeps_no_file rs (fst (public_file_list env mysql rq rs s))"
  "keeps_no_file rs (fst (public_file_detail env mysql ctx path rs s))"
  "keeps_no_file rs (fst (public_file_download env mysql ctx path rs s))"
  "keeps_no_file rs (fst (share_detail env mysql rq path rs s))"
  "keeps_no_file rs (fst (share_download env mysql rq ctx path rs s))"
  "keeps_no_file rs (fst (auth_register env mysql rq ctx rs True s))"
  "keeps_no_file rs (fst (auth_logout env mysql rq ctx rs s))"
  "keeps_no_file rs (fst (operation_list sql mysql ctx rs s))"
  "keeps_no_file rs (fst (operation_remove sql mysql ctx rs path s))"
  "keeps_no_file rs (fst (operation_clear sql mysql ctx rs s))"
  "keeps_no_file rs (route_healthz rs)" "keeps_no_file rs (route_echo rq rs)" "keeps_no_file rs (auth_ping ctx rs)"
  unfolding public_file_list_def public_file_detail_def public_file_download_def share_detail_def share_download_def auth_register_def
    auth_logout_def operation_list_def operation_remove_def operation_clear_def
  by (auto simp: keeps_no_file_def file_field_defs Let_def split: prod.splits option.splits sum.splits bool.splits if_splits)

lemma route_no_file_rules:
  "keeps_no_file rs (fst x) \<Longrightarrow> route_keeps_no_file rs (plain rq ctx x)"
  "keeps_no_file rs y \<Longrightarrow> route_keeps_no_file rs (plain rq ctx (y, s))"
  "(b \<Longrightarrow> route_keeps_no_file rs y') \<Longrightarrow> (\<not> b \<Longrightarrow> route_keeps_no_file rs z) \<Longrightarrow> route_keeps_no_file rs (if b then y' else z)"
  "route_keeps_no_file rs (not_implemented rq ctx rs s)"
  "route_keeps_no_file rs ((code, rq, ctx, set_body status title body ct rs), s)"
  by (auto simp: keeps_no_file_def route_keeps_no_file_def plain_def not_implemented_def set_body_def no_file_def split: prod.splits)

lemma upload_no_file: "route_keeps_no_file rs (upload env mysql rq ctx rs s)"
  by (auto simp: upload_def route_keeps_no_file_def keeps_no_file_def file_field_defs Let_def
      split: prod.splits option.splits sum.splits if_splits)

lemma login_no_file: "route_keeps_no_file rs (handle_login env mysql rq ctx rs s)"
  by (auto simp: handle_login_def auth_login_def route_keeps_no_file_def keeps_no_file_def file_field_defs Let_def
      split: prod.splits option.splits sum.splits if_splits)

lemma routes_no_file: "route_keeps_no_file rs (route_request env mysql rq ctx rs s)"
  unfolding route_request_def handle_api_request_def handle_api_public_file_item_def handle_api_share_item_def
    handle_api_drive_request_def handle_api_drive_folder_item_def handle_api_drive_file_item_def
  by (intro route_no_file_rules session_no_file guest_no_file upload_no_file login_no_file)

lemma request_no_file:
  assumes "handle_request env mysql rq ctx rs s = ((code, rq', ctx', rs'), s')" "\<not> f_enabled (rs_file rs)"
    and "f_enabled (rs_file rs')"
  shows "code = FILE_REQUEST"
proof (rule ccontr)
  assume n: "code \<noteq> FILE_REQUEST"
  obtain code1 rq1 ctx1 rs1 s1 where before: "run_before_middlewares env mysql rq ctx rs s = ((code1, rq1, ctx1, rs1), s1)"
    by (metis surj_pair)
  show False
  proof (cases "rq_method rq = OPTIONS")
    case True
    then show ?thesis using assms by (auto simp: handle_request_def set_options_def no_file_def)
  next
    case opt: False
    show ?thesis
    proof (cases "code1 = NO_REQUEST")
      case True
      note p = before_passes[OF before[unfolded True]]
      obtain code2 rq2 ctx2 rs2 s2 where r: "route_request env mysql rq1 ctx1 rs1 s1 = ((code2, rq2, ctx2, rs2), s2)"
        by (metis surj_pair)
      have "run_after_middlewares ((code2, rq2, ctx2, rs2), s2) = ((code, rq', ctx', rs'), s')"
        using assms(1) before True opt r by (simp add: handle_request_def)
      then have "code2 = code \<and> rs' = rs2 \<or> \<not> f_enabled (rs_file rs')"
        by (auto simp: run_after_middlewares_def api_error_response_def set_body_def no_file_def split: if_splits prod.splits)
      moreover have "keeps_no_file rs1 (code2, rs2)"
        using routes_no_file [of rs1 env mysql rq1 ctx1 s1] r by (simp add: route_keeps_no_file_def)
      ultimately show ?thesis using n assms(2,3) p(2) by (auto simp: keeps_no_file_def)
    next
      case False
      then show ?thesis using assms before before_stops [OF before False] opt
        by (auto simp: handle_request_def set_body_def no_file_def)
    qed
  qed
qed

subsection \<open>The file on the wire\<close>

lemma file_reply_disk:
  assumes "handle_request env mysql rq ctx rs s = ((FILE_REQUEST, rq', ctx', rs'), s')"
  shows "si_disk s' = si_disk s"
  using request_serves [OF assms] by (auto simp: serves_def with_auth_def)

lemma open_managed_stored:
  assumes "fe_open fs path = Some data" "fe_stat fs path = Some (False, int (length data))"
    and "length path < FILENAME_LEN" "NUL \<notin> set path" and "open_managed_file fs path ct name c = (b, c')"
  shows "b \<and> m_filefd c' = Some data \<and> m_file_size c' = int (length data) \<and> m_file_pos c' = 0"
proof -
  have "take (FILENAME_LEN - 1) (c_str path) = path" using assms(3,4) by (simp add: c_str_id)
  with assms show ?thesis by (auto simp: open_managed_file_def Let_def split: prod.splits)
qed

lemma file_reply_from_router:
  assumes "build_request c = Inr rq"
    and "ae_router ae rq (build_request_context ae rq c) empty_response = (code, rq', ctx', rs')"
    and "call_application ae c = Inr (FILE_REQUEST, c')"
  shows "f_enabled (rs_file rs') \<and> (\<exists>c1 ct name. open_managed_file (ae_files ae) (f_path (rs_file rs')) ct name c1 = (True, c'))"
  using assms
  by (auto simp: call_application_def apply_application_response_def Let_def split: if_splits prod.splits bool.splits)


text \<open>Alice fetches the file she uploaded.\<close>

definition wire_app :: app_env where
  "wire_app = sample_app\<lparr>ae_conn := sample_env\<lparr>env_doc_root := ''/r'', m_upload_max_bytes := 1000\<rparr>,
     ae_user_storage_quota_bytes := 10000, ae_legacy_compat_enabled := True, ae_client_ip := Some ''10.0.0.1'',
     ae_files := \<lparr>fe_stat = (\<lambda>p. map_option (\<lambda>b. (False, int (length b))) (d_files (si_disk alice_uploaded) p)),
       fe_open = d_files (si_disk alice_uploaded), fe_read = d_files (si_disk alice_uploaded)\<rparr>,
     ae_router := (\<lambda>rq ctx rs. fst (handle_request demo_site_env True rq ctx rs alice_uploaded))\<rparr>"

definition wire_conn :: http_conn where
  "wire_conn = (fresh_conn 4)\<lparr>m_url_storage := ''/api/drive/files/1/download'', m_authorization := ''Bearer '' @ demo_token\<rparr>"

definition wire_request :: http_request where
  "wire_request = demo_request GET ''/api/drive/files/1/download'' [] demo_token"

lemma wire_build: "build_request wire_conn = Inr wire_request"
  by code_simp

lemma no_authorization_key:
  "lookup_or_empty [] (lowercase_copy ''user-agent'') = []"
  "lookup_or_empty [(''authorization'', v)] (lowercase_copy ''user-agent'') = []"
  by (simp_all add: lookup_or_empty_def lowercase_copy_def)

lemma wire_context: "build_request_context wire_app wire_request wire_conn = demo_context"
  by (simp add: build_request_context_def wire_app_def wire_conn_def fresh_conn_def demo_context_def wire_request_def
      demo_request_def header_value_def empty_request_def no_authorization_key)

lemma wire_reply:
  "case demo_call GET ''/api/drive/files/1/download'' [] demo_token alice_uploaded of ((code, rq', ctx', rs'), s') \<Rightarrow>
     code = FILE_REQUEST \<and> f_enabled (rs_file rs') \<and> \<not> options_response rs' \<and>
     length (f_path (rs_file rs')) < FILENAME_LEN \<and> NUL \<notin> set (f_path (rs_file rs'))"
  by code_simp

lemma wire_opens:
  assumes call: "handle_request env mysql wire_request demo_context empty_response s = ((FILE_REQUEST, rq', ctx', rs'), s')"
    and rs: "f_enabled (rs_file rs')" "\<not> options_response rs'" "length (f_path (rs_file rs')) < FILENAME_LEN"
      "NUL \<notin> set (f_path (rs_file rs'))"
    and router: "ae_router wire_app wire_request (build_request_context wire_app wire_request wire_conn) empty_response
      = (FILE_REQUEST, rq', ctx', rs')"
    and disk: "fe_open (ae_files wire_app) (f_path (rs_file rs')) = d_files (si_disk s) (f_path (rs_file rs'))"
    "fe_stat (ae_files wire_app) (f_path (rs_file rs')) =
       map_option (\<lambda>b. (False, int (length b))) (d_files (si_disk s) (f_path (rs_file rs')))"
    and reach: "site_reachable (se_sql env) (se_sha env) (env_doc_root (ae_conn wire_app)) s"
    and sha: "\<And>c. se_sha env c \<noteq> []" and coll: "collation_ok (se_sql env)"
  shows "\<exists>c'. call_application wire_app wire_conn = Inr (FILE_REQUEST, c')"
proof -
  have "ctx_doc_root demo_context = env_doc_root (ae_conn wire_app)" by (simp add: demo_context_def wire_app_def)
  then obtain data where "d_files (si_disk s') (f_path (rs_file rs')) = Some data"
    using file_reply_authorised [OF _ sha coll call] reach by auto
  then have "fe_open (ae_files wire_app) (f_path (rs_file rs')) = Some data"
    "fe_stat (ae_files wire_app) (f_path (rs_file rs')) = Some (False, int (length data))"
    using disk file_reply_disk [OF call] by simp_all
  note opens = open_managed_stored [OF this rs(3,4)]
  let ?c1 = "(release_consumed_temp_uploads rq' ctx' wire_conn)\<lparr>m_current_user := current_user ctx'\<rparr>"
  obtain b c' where o: "open_managed_file (ae_files wire_app) (f_path (rs_file rs')) (f_content_type (rs_file rs'))
      (f_download_name (rs_file rs')) ?c1 = (b, c')" by (rule prod.exhaust)
  then have "apply_application_response (ae_files wire_app) rs' ?c1 = (FILE_REQUEST, c')"
    using opens [OF o] rs(1,2) by (simp add: apply_application_response_def)
  then show ?thesis using wire_build router by (simp add: call_application_def Let_def)
qed


end
