(* ===== verification/Spec2Isabelle.thy ===== *)
theory Spec2Isabelle
  imports Lst_Timer Multipart Block_Queue Conn_Pool Log Web_Server Wire
begin

text \<open>
  Atlas WebServer: verification development.

  The program is a C++ web server with a network drive. A main reactor accepts connections
  and deals them out to sub reactors; a sub reactor waits for events on its sockets, keeps
  their idle timers and gives the connections to a thread pool. A connection reads bytes into
  a ring buffer, parses the request (request line, headers, body: plain, form, JSON,
  multipart, chunked, multipart spooled to a file), hands it to the router, formats the reply
  and writes it, with files sent from disk. The router checks the session and calls a
  controller; the controllers call the services for accounts, rate limits, files, uploads and
  share links; the services keep their data in MySQL tables and their contents in a store of
  files named by digest.

  Layout. Each theory is one component and opens with its own description; the sources named
  below are paths of the repository.

  \<^item> \<open>Prelude\<close>, \<open>Cstring\<close>, \<open>Fifo\<close>: outcomes with undefined behaviour as values
    (\<open>'a cxx = ub + 'a\<close>), integers of the C++ widths with wrap-around or overflow written
    out, \<open>std::map\<close> as a sorted association list, the functions of the C library that the
    code calls (\<open>strtol\<close>, \<open>strcasecmp\<close>, \<open>strpbrk\<close> and the like), and the locale of a
    first-in first-out queue that the blocking queue and the lock-free queue both interpret.
  \<^item> \<open>Ring_Buffer\<close>: \<open>http/core/ring_buffer.h\<close> and the buffer part of \<open>http/core/io.cpp\<close>.
    A ring is its array with its indices; the lemmas relate it to the list of buffered bytes.
  \<^item> \<open>Http_Message\<close>, \<open>File_Helpers\<close>, \<open>Body_Parsers\<close>: \<open>http_message.cpp\<close>,
    \<open>file_helpers.cpp\<close>, and the form, query, JSON and in-memory multipart parsers of
    \<open>parser.cpp\<close>; round trips with the encoders and safety of the sanitised names.
  \<^item> \<open>Http_Conn\<close>, \<open>Chunked\<close>, \<open>Request_Parser\<close>: the state of \<open>HttpConnection\<close> as a record,
    the incremental decoder of chunked bodies, the line scanner and \<open>process_read\<close>.
  \<^item> \<open>File_Response\<close>, \<open>Response\<close>, \<open>Request_Handling\<close>, \<open>Conn_Runtime\<close>: \<open>file_response.cpp\<close>,
    \<open>response.cpp\<close>, \<open>connection.cpp\<close> (\<open>do_request\<close>) and \<open>runtime.cpp\<close> with the read and
    write loops of \<open>io.cpp\<close>: framing of every reply, order and completeness of what is sent,
    one armed event or a closed socket after each \<open>process\<close>.
  \<^item> \<open>Storage\<close>, \<open>Multipart\<close>: \<open>storage.cpp\<close> and \<open>multipart_parser.cpp\<close>: a disk with failures,
    the upload parser over a spool file, independence of the block boundaries.
  \<^item> \<open>Heap_Timer\<close>, \<open>Reactor\<close>: \<open>heap_timer.cpp\<close> and \<open>webserver_sub_reactor.cpp\<close>: the heap with
    its index refines a map from sockets to expiry times; the reactor is a step relation whose
    reachable states satisfy its invariant.
  \<^item> \<open>Mpmc_Queue\<close>, \<open>Thread_Pool\<close>, \<open>Block_Queue\<close>, \<open>Conn_Pool\<close>: \<open>threadpool.h\<close>,
    \<open>block_queue.h\<close>, \<open>sql_connection_pool.cpp\<close>. The lock-free queue is modelled at the
    granularity of its accesses to shared memory, with arbitrary interleavings.
  \<^item> \<open>Auth_Store\<close>, \<open>Auth_Service\<close>: the tables of users and sessions, passwords, the cache of
    sessions.
  \<^item> \<open>Drive_Store\<close>, \<open>File_Service\<close>, \<open>Upload_Service\<close>, \<open>Share_Service\<close>, \<open>Drive\<close>,
    \<open>Drive_Access\<close>: \<open>file_repository.cpp\<close> with the keys, triggers and transactions of the
    schema, the services on it, the step relation of all their calls with its invariants
    (\<open>Drive\<close>), and quotas, limits and access checks (\<open>Drive_Access\<close>).
  \<^item> \<open>Operation_Log\<close>, \<open>Rate_Limiter\<close>, \<open>Auth_Controller\<close>, \<open>File_Controller\<close>, \<open>Router\<close>:
    the operation log, \<open>auth_rate_limiter.cpp\<close>, the three controllers and \<open>router.cpp\<close>.
  \<^item> \<open>Site\<close>, \<open>Site_Safety\<close>, \<open>Wire\<close>: all handlers over one application state, one request as
    one step, and the properties of whole requests: what a request can read and change, and that
    every history of requests refines the drive; \<open>Wire\<close> puts a connection in front of that
    router and shows that the file it sends is one that the requester may read.

  \<^item> \<open>Config\<close>, \<open>Supervisor\<close>, \<open>Web_Server\<close>: \<open>config.cpp\<close>, \<open>main.cpp\<close> and \<open>webserver.cpp\<close>: where
    a setting comes from (the locale \<open>setting\<close>, interpreted by every field), the supervising
    loop as a state machine with signals, the accept loop, the events of a connection for
    both actor models, and the worker process that puts the parts together.
  \<^item> \<open>Lst_Timer\<close>, \<open>Log\<close>: \<open>lst_timer.cpp\<close>, the older timers, on a store of linked objects
    where every access through a bad pointer is a value of the model; \<open>log.cpp\<close> with its
    queue and writer thread.

  Interaction. \<open>Web_Server\<close> calls the sub reactors (\<open>Reactor\<close>), the pool (\<open>Thread_Pool\<close>) and the
  connection (\<open>Conn_Runtime\<close>); a connection calls the application through the parameter
  \<open>app_env\<close> of \<open>Request_Handling\<close>, for which \<open>Site\<close> gives the whole router with its services.
  The state of the application is one record (tables, store of contents, session cache, log
  of operations, questions to the limiter); a request is one step on it.

  Bounds and fuel. Loops that end are recursive functions with a termination proof or with
  fuel that a lemma shows to be enough (\<open>process_read_terminates\<close>, \<open>parse_spooled\<close>,
  \<open>process_rearms_or_closes\<close>, \<open>scan_timeout\<close>). Loops that may not end return an option;
  where the code really does not end there is a theorem that says so
  (\<open>read_et_spins\<close>, \<open>read_error_never_returns\<close>, \<open>mpmc_one_cell_hangs\<close>). The walks along the
  linked timers take fuel because links could form a cycle; more fuel than calls is enough
  (\<open>timer_list_refines\<close>). Loops over system calls (accept, recv, send, epoll) consume a list of
  results; \<open>None\<close> there means that the list given does not end the loop.

  Parameters. Code outside the repository is an argument of the definitions: which MySQL
  statements fail, the server's clock and collation; \<open>stat\<close>, \<open>open\<close>, \<open>rename\<close> and the
  other calls on files; results of \<open>recv\<close>, \<open>send\<close>, \<open>sendfile\<close>, \<open>epoll\<close> and of OpenSSL's
  TLS calls; SHA-256, PBKDF2, \<open>RAND_bytes\<close>, \<open>EVP_DecodeBlock\<close>; the token buckets of the
  Redis library; \<open>atof\<close>, \<open>getopt\<close>, \<open>fork\<close>, \<open>waitpid\<close> and the signals. Theorems hold for all of
  them, or name what they need.

  Not modelled. SQL text and its escaping: a statement is the operation it denotes, so
  injection cannot be stated here. Locks and condition variables (\<open>locker.h\<close>) are
  wrappers of POSIX calls; sections under a lock are atomic steps. Set-up of sockets, of the
  TLS context and of threads is system calls only and appears by its success. The messages
  that handlers log are left out, since nothing reads them; the log itself is modelled.
\<close>

end
